(* ===== verification/Prelude.thy ===== *)
theory Prelude
  imports Main "HOL-Library.Word"
begin

text \<open>
  Shared vocabulary of the development: bytes and C strings as character lists,
  the library calls on them that several components use (\<open>strstr\<close>, decimal
  printing, \<open>strtoll\<close>), and the generic lemmas on lists and words.

  A buffer of \<open>unsigned char\<close> and a string of \<open>char\<close> are both lists of
  \<open>char\<close>, the 256-element type of HOL.  A NUL-terminated string is the list of
  the bytes before the terminator; a pointer into a string is the suffix it
  points to.
\<close>

unbundle bit_operations_syntax

type_synonym bytes = "char list"

text \<open>A pointer, 0 being NULL.\<close>

type_synonym addr = nat

named_theorems wire_simps "lengths and layouts of the wire formats"

section \<open>Bytes\<close>

text \<open>The cast to \<open>unsigned char\<close>.\<close>

definition uchar :: "'a::len word \<Rightarrow> char" where
  "uchar w = char_of (unat w)"

definition NUL :: char where
  "NUL = CHR 0x00"

lemma of_char_NUL [simp]: "of_char NUL = (0::nat)"
  by (simp add: NUL_def)

lemma of_char_less_256 [simp]: "(of_char c :: nat) < 256"
  by (cases c) simp

lemma char_of_neq_NUL: "0 < n \<Longrightarrow> n < 256 \<Longrightarrow> char_of (n::nat) \<noteq> NUL"
  by (metis of_char_NUL of_char_of mod_less less_numeral_extra(3))

text \<open>What \<open>strlen\<close>, \<open>strdup\<close> and \<open>%s\<close> see of a buffer.\<close>

definition cstr :: "bytes \<Rightarrow> string" where
  "cstr s = takeWhile (\<lambda>c. c \<noteq> NUL) s"

lemma cstr_id [simp]: "NUL \<notin> set s \<Longrightarrow> cstr s = s"
  unfolding cstr_def by (simp add: takeWhile_eq_all_conv) metis

lemma cstr_no_NUL [simp]: "NUL \<notin> set (cstr s)"
  by (auto simp: cstr_def dest: set_takeWhileD)

lemma length_cstr_le: "length (cstr s) \<le> length s"
  by (simp add: cstr_def length_takeWhile_le)

section \<open>String searching and printing\<close>

text \<open>\<open>strstr\<close>: the suffix that starts at the first occurrence of the needle.\<close>

fun strstr :: "string \<Rightarrow> string \<Rightarrow> string option" where
  "strstr [] n = (if n = [] then Some [] else None)"
| "strstr (c # cs) n =
     (if take (length n) (c # cs) = n then Some (c # cs) else strstr cs n)"

lemma strstr_Some_take: "strstr s n = Some t \<Longrightarrow> take (length n) t = n"
  by (induction s n rule: strstr.induct) (auto split: if_splits)

lemma strstr_Some_suffix: "strstr s n = Some t \<Longrightarrow> \<exists>p. s = p @ t"
proof (induction s n rule: strstr.induct)
  case (2 c cs n)
  then show ?case by (auto split: if_splits intro: exI [of _ "c # _"])
qed (auto split: if_splits)

lemma strstr_length: "strstr s n = Some t \<Longrightarrow> length t \<le> length s"
  by (auto dest: strstr_Some_suffix)

text \<open>\<open>%d\<close>, \<open>%llu\<close> of a non-negative number.\<close>

definition digit :: "nat \<Rightarrow> char" where
  "digit d = char_of (48 + d)"

fun dec :: "nat \<Rightarrow> string" where
  "dec n = (if n < 10 then [digit n] else dec (n div 10) @ [digit (n mod 10)])"

declare dec.simps [simp del]

lemma length_dec_pos: "0 < length (dec n)"
  by (subst dec.simps) simp

lemma length_dec_bound: "n < 10 ^ Suc k \<Longrightarrow> length (dec n) \<le> Suc k"
proof (induction k arbitrary: n)
  case 0
  then show ?case by (subst dec.simps) simp
next
  case (Suc k)
  then have "n div 10 < 10 ^ Suc k"
    by (simp add: less_mult_imp_div_less mult.commute)
  from Suc.IH [OF this] show ?case
    by (subst dec.simps) (auto split: if_splits)
qed

definition isdigit :: "char \<Rightarrow> bool" where
  "isdigit c \<longleftrightarrow> 48 \<le> (of_char c :: nat) \<and> (of_char c :: nat) \<le> 57"

definition digit_val :: "char \<Rightarrow> nat" where
  "digit_val c = of_char c - 48"

lemma digit_val_digit [simp]: "d < 10 \<Longrightarrow> digit_val (digit d) = d"
  by (simp add: digit_val_def digit_def)

lemma isdigit_digit [simp]: "d < 10 \<Longrightarrow> isdigit (digit d)"
  by (simp add: isdigit_def digit_def)

lemma isdigit_dec: "c \<in> set (dec n) \<Longrightarrow> isdigit c"
  by (induction n rule: dec.induct) (subst (asm) dec.simps, auto split: if_splits)

text \<open>\<open>isspace\<close> in the POSIX locale.\<close>

definition isspace :: "char \<Rightarrow> bool" where
  "isspace c \<longleftrightarrow> c = CHR '' '' \<or> (9 \<le> (of_char c :: nat) \<and> (of_char c :: nat) \<le> 13)"

text \<open>\<open>inblank\<close> of the shell: blank or newline.\<close>

definition inblank :: "char \<Rightarrow> bool" where
  "inblank c \<longleftrightarrow> c = CHR '' '' \<or> c = CHR 0x09 \<or> c = CHR 0x0A"

text \<open>
  \<open>strtoll (p, &endp, 10)\<close>: \<open>None\<close> when no digits were found
  (\<open>endp == p\<close>), otherwise the value clamped to the range of \<open>long long\<close> and
  the suffix at \<open>endp\<close>.
\<close>

definition num_val :: "string \<Rightarrow> nat" where
  "num_val ds = foldl (\<lambda>n c. 10 * n + digit_val c) 0 ds"

definition clamp_ll :: "int \<Rightarrow> int" where
  "clamp_ll v = max (- (2 ^ 63)) (min (2 ^ 63 - 1) v)"

definition strtoll :: "string \<Rightarrow> (int \<times> string) option" where
  "strtoll p =
     (let q = dropWhile isspace p;
          (neg, r) = (case q of
              [] \<Rightarrow> (False, q)
            | c # cs \<Rightarrow> if c = CHR ''-'' then (True, cs)
                        else if c = CHR ''+'' then (False, cs) else (False, q));
          ds = takeWhile isdigit r
      in if ds = [] then None
         else Some (clamp_ll (if neg then - int (num_val ds) else int (num_val ds)),
                    dropWhile isdigit r))"

lemma num_val_snoc: "num_val (ds @ [c]) = 10 * num_val ds + digit_val c"
  by (simp add: num_val_def)

lemma num_val_dec [simp]: "num_val (dec n) = n"
proof (induction n rule: dec.induct)
  case (1 n)
  show ?case
  proof (cases "n < 10")
    case True
    then show ?thesis by (subst dec.simps) (simp add: num_val_def)
  next
    case False
    with 1 have "num_val (dec (n div 10)) = n div 10" by simp
    with False show ?thesis by (subst dec.simps) (simp add: num_val_snoc)
  qed
qed

lemma isdigit_imp_no_space: "isdigit c \<Longrightarrow> \<not> isspace c \<and> c \<noteq> CHR ''-'' \<and> c \<noteq> CHR ''+''"
  by (auto simp: isdigit_def isspace_def)

lemma dec_nonempty [simp]: "dec n \<noteq> []"
  using length_dec_pos [of n] by auto

lemma strtoll_dec:
  assumes "n < 2 ^ 63" "rest = [] \<or> \<not> isdigit (hd rest)"
  shows "strtoll (dec n @ rest) = Some (int n, rest)"
proof -
  obtain d ds where d: "dec n = d # ds" by (cases "dec n") auto
  have dd: "isdigit d" using d isdigit_dec [of d n] by simp
  have all: "\<forall>c \<in> set (dec n). isdigit c" using isdigit_dec by blast
  have q: "dropWhile isspace (dec n @ rest) = dec n @ rest"
    using d dd isdigit_imp_no_space by simp
  have tw: "takeWhile isdigit (dec n @ rest) = dec n"
    using all assms(2) by (cases rest) (auto simp: takeWhile_append2)
  have dw: "dropWhile isdigit (dec n @ rest) = rest"
    using all assms(2) by (cases rest) (auto simp: dropWhile_append2)
  have nd: "d \<noteq> CHR ''-''" "d \<noteq> CHR ''+''"
    using dd isdigit_imp_no_space by blast+
  have cl: "clamp_ll (int n) = int n" using assms(1) by (simp add: clamp_ll_def)
  have nv: "num_val (d # ds) = n" using num_val_dec [of n] d by simp
  show ?thesis
    unfolding strtoll_def Let_def q
    using tw dw nd cl d nv dd by simp
qed

section \<open>Lists\<close>

lemma append_eq_same_length:
  "length a = length c \<Longrightarrow> a @ b = c @ d \<longleftrightarrow> a = c \<and> b = d"
  by simp

section \<open>Lists\<close>

lemma find_append: "find P (xs @ ys) = (case find P xs of None \<Rightarrow> find P ys | Some x \<Rightarrow> Some x)"
  by (induction xs) auto

end
