(* ===== verification/Link_Env.thy ===== *)
theory Link_Env
  imports Prelude
begin

text \<open>
  The state of \<open>Src/Modules/brightlink.c\<close> and everything it asks of the outside.

  \<^item> \<open>link\<close> holds the module's static variables; it extends \<open>os\<close>, the operating
    system as the module sees it: what the next calls of \<open>read\<close>, \<open>write\<close>,
    \<open>socket\<close>, \<open>connect\<close>, \<open>malloc\<close>, \<open>RAND_bytes\<close> and \<open>time\<close> will answer, and what
    has been sent and printed so far.  The scripted answers are arbitrary lists, so
    a theorem about every state is a theorem about every behaviour of the outside.
    An exhausted script answers with the plain case: end of file, a complete
    write, a successful allocation or connection, a failed random draw.
  \<^item> \<open>crypto\<close> holds the functions of OpenSSL and libsecp256k1 the module calls.
    They are parameters of every definition that uses them; \<open>crypto_laws\<close> names what
    their documentation promises.
\<close>

section \<open>Operating system\<close>

datatype rdev = RdByte char | RdEOF | RdIntr | RdErr

datatype wrev = WrOk nat | WrIntr | WrErr

datatype inev = InData bytes | InIntr | InErr

record os =
  env_socket :: "string option"
  env_home :: "string option"
  pw_home :: "string option"
  rx :: "rdev list"
  tx :: "wrev list"
  input :: "inev list"
  socks :: "int list"
  conns :: "bool list"
  mem :: "bool list"
  rand :: "bytes option list"
  clock :: "nat list"
  sent :: bytes
  stdout_log :: string
  stderr_log :: string

definition os_alloc :: "nat \<Rightarrow> 'a os_scheme \<Rightarrow> bool \<times> 'a os_scheme" where
  "os_alloc n s = (case mem s of [] \<Rightarrow> (True, s) | b # bs \<Rightarrow> (b, s\<lparr>mem := bs\<rparr>))"

definition os_rand :: "nat \<Rightarrow> 'a os_scheme \<Rightarrow> bytes option \<times> 'a os_scheme" where
  "os_rand n s = (case rand s of
       [] \<Rightarrow> (None, s)
     | r # rs \<Rightarrow> (map_option (\<lambda>b. take n (b @ replicate n NUL)) r, s\<lparr>rand := rs\<rparr>))"

definition os_time :: "'a os_scheme \<Rightarrow> nat \<times> 'a os_scheme" where
  "os_time s = (case clock s of [] \<Rightarrow> (0, s) | t # ts \<Rightarrow> (t, s\<lparr>clock := ts\<rparr>))"

definition os_socket :: "'a os_scheme \<Rightarrow> int \<times> 'a os_scheme" where
  "os_socket s = (case socks s of [] \<Rightarrow> (3, s) | f # fs \<Rightarrow> (f, s\<lparr>socks := fs\<rparr>))"

definition os_connect :: "'a os_scheme \<Rightarrow> bool \<times> 'a os_scheme" where
  "os_connect s = (case conns s of [] \<Rightarrow> (True, s) | b # bs \<Rightarrow> (b, s\<lparr>conns := bs\<rparr>))"

definition printf :: "string \<Rightarrow> 'a os_scheme \<Rightarrow> 'a os_scheme" where
  "printf t s = s\<lparr>stdout_log := stdout_log s @ t\<rparr>"

definition eprintf :: "string \<Rightarrow> 'a os_scheme \<Rightarrow> 'a os_scheme" where
  "eprintf t s = s\<lparr>stderr_log := stderr_log s @ t\<rparr>"

section \<open>Module state\<close>

definition LINK_CLIENT_NONCE_LEN :: nat where [simp]: "LINK_CLIENT_NONCE_LEN = 16"
definition LINK_SHARE_LEN :: nat where [simp]: "LINK_SHARE_LEN = 32"
definition LINK_SESSION_ID_LEN :: nat where [simp]: "LINK_SESSION_ID_LEN = 16"
definition LINK_SESSION_KEY_LEN :: nat where [simp]: "LINK_SESSION_KEY_LEN = 32"
definition LINK_PUB_UNCOMPRESSED :: nat where [simp]: "LINK_PUB_UNCOMPRESSED = 65"
definition LINK_PUB_COMPRESSED :: nat where [simp]: "LINK_PUB_COMPRESSED = 33"
definition LINK_DEFAULT_TTL_SECONDS :: nat where [simp]: "LINK_DEFAULT_TTL_SECONDS = 3600"
definition LINK_GCM_IV_LEN :: nat where [simp]: "LINK_GCM_IV_LEN = 12"
definition LINK_GCM_TAG_LEN :: nat where [simp]: "LINK_GCM_TAG_LEN = 16"
definition LINK_TRANSCRIPT_TOTAL_LEN :: nat where [simp]: "LINK_TRANSCRIPT_TOTAL_LEN = 238"
definition LINK_BUF_INIT :: nat where [simp]: "LINK_BUF_INIT = 4096"
definition LINK_BUF_MAX :: nat where [simp]: "LINK_BUF_MAX = 65536"

record link = os +
  link_session_active :: bool
  link_sockfd :: int
  link_socket_path :: string
  link_session_id :: bytes
  link_session_key :: bytes
  link_session_id_set :: bool
  link_session_key_set :: bool
  link_c_shell_to_agent :: "64 word"
  link_c_agent_to_shell :: "64 word"
  link_pinned_sep_pub :: bytes
  link_pinned_sep_pub_set :: bool
  link_secp_ctx :: bool

text \<open>The static initialisers, over any operating system.\<close>

definition link_init :: "os \<Rightarrow> link" where
  "link_init s = os.extend s
     \<lparr>link_session_active = False, link_sockfd = - 1, link_socket_path = [],
      link_session_id = replicate 16 NUL, link_session_key = replicate 32 NUL,
      link_session_id_set = False, link_session_key_set = False,
      link_c_shell_to_agent = 0, link_c_agent_to_shell = 0,
      link_pinned_sep_pub = replicate 65 NUL, link_pinned_sep_pub_set = False,
      link_secp_ctx = False\<rparr>"

section \<open>Libraries\<close>

record 'p crypto =
  evp_encode_block :: "bytes \<Rightarrow> string"
  evp_decode_block :: "string \<Rightarrow> bytes option"
  evp_hkdf :: "bytes \<Rightarrow> bytes \<Rightarrow> bytes \<Rightarrow> nat \<Rightarrow> bytes option"
  evp_gcm_seal :: "bytes \<Rightarrow> bytes \<Rightarrow> bytes \<Rightarrow> bytes \<Rightarrow> (bytes \<times> bytes) option"
  evp_gcm_open :: "bytes \<Rightarrow> bytes \<Rightarrow> bytes \<Rightarrow> bytes \<Rightarrow> bytes \<Rightarrow> bytes option"
  evp_p256_verify :: "bytes \<Rightarrow> bytes \<Rightarrow> bytes \<Rightarrow> bool"
  secp_seckey_verify :: "bytes \<Rightarrow> bool"
  secp_pubkey_create :: "bytes \<Rightarrow> 'p option"
  secp_pubkey_parse :: "bytes \<Rightarrow> 'p option"
  secp_pubkey_serialize :: "bool \<Rightarrow> 'p \<Rightarrow> bytes option"
  secp_ecdh_point :: "'p \<Rightarrow> bytes \<Rightarrow> (bytes \<times> bytes) option"

text \<open>
  Documented behaviour of the libraries.  \<open>EVP_EncodeBlock\<close> produces four
  characters for every started group of three bytes, with one \<open>=\<close> for each
  missing byte; \<open>EVP_DecodeBlock\<close> inverts it and leaves zero bytes for the padding.
\<close>

definition b64_pad :: "nat \<Rightarrow> nat" where
  "b64_pad n = (3 - n mod 3) mod 3"

definition base64_laws :: "'p crypto \<Rightarrow> bool" where
  "base64_laws C \<longleftrightarrow> (\<forall>b.
     length (evp_encode_block C b) = 4 * ((length b + 2) div 3) \<and>
     NUL \<notin> set (evp_encode_block C b) \<and>
     CHR 0x22 \<notin> set (evp_encode_block C b) \<and> CHR 0x5C \<notin> set (evp_encode_block C b) \<and>
     (\<exists>u. evp_encode_block C b = u @ replicate (b64_pad (length b)) CHR ''='' \<and>
          CHR ''='' \<notin> set u) \<and>
     evp_decode_block C (evp_encode_block C b) =
       Some (b @ replicate (b64_pad (length b)) NUL))"

text \<open>Authenticated encryption: opening what was sealed, under the same key, IV and AAD.\<close>

definition aead_laws :: "'p crypto \<Rightarrow> bool" where
  "aead_laws C \<longleftrightarrow> (\<forall>k iv aad pt ct tag. evp_gcm_seal C k iv aad pt = Some (ct, tag) \<longrightarrow>
     length ct = length pt \<and> length tag = 16 \<and> evp_gcm_open C k iv aad ct tag = Some pt)"

text \<open>
  Key agreement: the x coordinate computed from one's own secret key and the other's
  public key is the same on both sides; serialised public keys parse back, with the
  lengths and leading bytes of SEC 1.
\<close>

definition ecdh_laws :: "'p crypto \<Rightarrow> bool" where
  "ecdh_laws C \<longleftrightarrow>
     (\<forall>a b P Q. secp_pubkey_create C a = Some P \<longrightarrow> secp_pubkey_create C b = Some Q \<longrightarrow>
        map_option fst (secp_ecdh_point C Q a) = map_option fst (secp_ecdh_point C P b)) \<and>
     (\<forall>P c. secp_pubkey_serialize C True P = Some c \<longrightarrow> length c = 33 \<and>
        (hd c = CHR 0x02 \<or> hd c = CHR 0x03) \<and> secp_pubkey_parse C c = Some P) \<and>
     (\<forall>P c. secp_pubkey_serialize C False P = Some c \<longrightarrow> length c = 65 \<and>
        hd c = CHR 0x04 \<and> secp_pubkey_parse C c = Some P)"

text \<open>\<open>HKDF\<close> fills the whole output it was asked for.\<close>

definition hkdf_laws :: "'p crypto \<Rightarrow> bool" where
  "hkdf_laws C \<longleftrightarrow> (\<forall>ikm salt info n k. evp_hkdf C ikm salt info n = Some k \<longrightarrow> length k = n)"

section \<open>Frame facts of the system calls\<close>

text \<open>
  The part of the state that makes up the session.  None of the system calls touches
  it: each changes its own script.
\<close>

definition session_of ::
    "link \<Rightarrow> bool \<times> bytes \<times> bytes \<times> bool \<times> bool \<times> 64 word \<times> 64 word \<times> bytes \<times> bool" where
  "session_of s = (link_session_active s, link_session_id s, link_session_key s,
     link_session_id_set s, link_session_key_set s, link_c_shell_to_agent s,
     link_c_agent_to_shell s, link_pinned_sep_pub s, link_pinned_sep_pub_set s)"

named_theorems frameD "operations that leave the session variables alone"

lemma os_alloc_frame [frameD]: "os_alloc n s = (x, t) \<Longrightarrow> session_of t = session_of s"
  by (auto simp: os_alloc_def session_of_def split: list.splits)

lemma os_rand_frame [frameD]: "os_rand n s = (x, t) \<Longrightarrow> session_of t = session_of s"
  by (auto simp: os_rand_def session_of_def split: list.splits)

lemma os_time_frame [frameD]: "os_time s = (x, t) \<Longrightarrow> session_of t = session_of s"
  by (auto simp: os_time_def session_of_def split: list.splits)

lemma os_socket_frame [frameD]: "os_socket s = (x, t) \<Longrightarrow> session_of t = session_of s"
  by (auto simp: os_socket_def session_of_def split: list.splits)

lemma os_connect_frame [frameD]: "os_connect s = (x, t) \<Longrightarrow> session_of t = session_of s"
  by (auto simp: os_connect_def session_of_def split: list.splits)

lemma printf_frame [simp]: "session_of (printf t s) = session_of s"
  by (simp add: printf_def session_of_def)

lemma eprintf_frame [simp]: "session_of (eprintf t s) = session_of s"
  by (simp add: eprintf_def session_of_def)

lemma os_rand_length: "os_rand n s = (Some b, t) \<Longrightarrow> length b = n"
  by (auto simp: os_rand_def split: list.splits)

end
