(* ===== verification/Cdouble.thy ===== *)
theory Cdouble
  imports Prelude "HOL-Library.Log_Nat"
begin

text \<open>
  The C type \<open>double\<close> on the finite values the shell computes with here: IEEE 754
  binary64 values are rational numbers, and each operation is the exact one
  followed by rounding to the nearest value with a 53-bit significand, ties to even.
  Overflow to infinity is outside the range used.  The error bound at the end is all
  that the clock arithmetic of \<open>Src/Modules/brightlink.c\<close> needs.
\<close>

section \<open>Rounding\<close>

definition rne :: "rat \<Rightarrow> int" where
  "rne x = (let f = \<lfloor>x\<rfloor>; d = x - of_int f
            in if d < 1 / 2 then f else if 1 / 2 < d then f + 1
               else if even f then f else f + 1)"

definition pow2 :: "int \<Rightarrow> rat" where
  "pow2 e = (if 0 \<le> e then 2 ^ nat e else 1 / 2 ^ nat (- e))"

text \<open>
  The exponent of the unit in the last place: for \<open>0 < p / q\<close> with \<open>k\<close> the difference of
  the bit lengths, \<open>2 ^ (k - 1) < p / q < 2 ^ (k + 1)\<close>.
\<close>

definition ulp_exp :: "rat \<Rightarrow> int" where
  "ulp_exp x = (let (p, q) = quotient_of \<bar>x\<bar>;
                    k = bitlen p - bitlen q
                in max (- 1074) ((if \<bar>x\<bar> < pow2 k then k - 1 else k) - 52))"

definition dround :: "rat \<Rightarrow> rat" where
  "dround x = (if x = 0 then 0 else of_int (rne (x / pow2 (ulp_exp x))) * pow2 (ulp_exp x))"

definition dadd :: "rat \<Rightarrow> rat \<Rightarrow> rat" where "dadd x y = dround (x + y)"
definition dmul :: "rat \<Rightarrow> rat \<Rightarrow> rat" where "dmul x y = dround (x * y)"
definition ddiv :: "rat \<Rightarrow> rat \<Rightarrow> rat" where "ddiv x y = dround (x / y)"

text \<open>Conversion to an integer type truncates towards zero.\<close>

definition dtrunc :: "rat \<Rightarrow> int" where
  "dtrunc x = (if x < 0 then - \<lfloor>- x\<rfloor> else \<lfloor>x\<rfloor>)"

section \<open>Error bounds\<close>

lemma rne_error: "\<bar>of_int (rne x) - x\<bar> \<le> 1 / 2"
proof -
  define f where "f = \<lfloor>x\<rfloor>"
  have "of_int f \<le> x" "x < of_int f + 1" unfolding f_def by linarith+
  then show ?thesis unfolding rne_def Let_def f_def [symmetric] by (auto simp: abs_if)
qed

lemma pow2_pos [simp]: "0 < pow2 e"
  by (simp add: pow2_def)

lemma pow2_add_nat: "pow2 (e + int n) = pow2 e * 2 ^ n"
proof (cases "0 \<le> e")
  case True
  then show ?thesis by (simp add: pow2_def nat_add_distrib power_add)
next
  case False
  define m where "m = nat (- e)"
  have e: "e = - int m" using False by (simp add: m_def)
  show ?thesis
  proof (cases "n < m")
    case True
    then have "(2::rat) ^ m = 2 ^ (m - n) * 2 ^ n" by (simp flip: power_add)
    with True show ?thesis by (simp add: pow2_def e nat_diff_distrib)
  next
    case F2: False
    then have "(2::rat) ^ n = 2 ^ (n - m) * 2 ^ m" by (simp flip: power_add)
    with F2 show ?thesis by (simp add: pow2_def e nat_diff_distrib)
  qed
qed

lemma dround_error_ulp: "\<bar>dround x - x\<bar> \<le> pow2 (ulp_exp x) / 2"
proof (cases "x = 0")
  case False
  let ?u = "pow2 (ulp_exp x)"
  have "dround x - x = (of_int (rne (x / ?u)) - x / ?u) * ?u"
    using False by (simp add: dround_def left_diff_distrib less_imp_neq [THEN not_sym])
  then have "\<bar>dround x - x\<bar> = \<bar>of_int (rne (x / ?u)) - x / ?u\<bar> * ?u"
    by (simp add: abs_mult abs_of_pos)
  also have "\<dots> \<le> 1 / 2 * ?u"
    by (intro mult_right_mono rne_error) (simp add: less_imp_le)
  finally show ?thesis by simp
qed (simp add: dround_def less_imp_le)

text \<open>The bit lengths locate a fraction.\<close>

lemma bitlen_bounds_rat:
  assumes "0 < p"
  shows "pow2 (bitlen p - 1) \<le> of_int p" and "of_int p < pow2 (bitlen p)"
proof -
  from bitlen_bounds [OF assms] have
    b: "2 ^ nat (bitlen p - 1) \<le> p \<and> p < 2 ^ nat (bitlen p)" .
  have "bitlen p \<noteq> 0" using assms by (simp add: bitlen_eq_zero_iff)
  then have l: "1 \<le> bitlen p" using bitlen_nonneg [of p] by linarith
  have "(of_int (2 ^ nat (bitlen p - 1)) :: rat) \<le> of_int p"
    and "(of_int p :: rat) < of_int (2 ^ nat (bitlen p))"
    using b by (simp_all only: of_int_le_iff of_int_less_iff)
  with l show "pow2 (bitlen p - 1) \<le> of_int p" and "of_int p < pow2 (bitlen p)"
    by (simp_all add: pow2_def)
qed

lemma pow2_add: "pow2 (a + b) = pow2 a * pow2 b"
proof (cases "0 \<le> b")
  case True
  then show ?thesis using pow2_add_nat [of a "nat b"] by (simp add: pow2_def [of b])
next
  case False
  then have "pow2 a = pow2 (a + b) * 2 ^ nat (- b)"
    using pow2_add_nat [of "a + b" "nat (- b)"] by simp
  with False show ?thesis by (simp add: pow2_def [of b])
qed

text \<open>For a normal number the unit in the last place is a 2^52-th of it at most.\<close>

lemma ulp_bound:
  assumes "0 < x" "pow2 (- 1000) \<le> x"
  shows "pow2 (ulp_exp x) \<le> x / 2 ^ 52"
proof -
  obtain p q where pq: "quotient_of x = (p, q)" by (cases "quotient_of x")
  have x: "x = of_int p / of_int q" and q: "0 < q"
    using pq by (simp_all add: quotient_of_div quotient_of_denom_pos)
  have p: "0 < p" using assms(1) q unfolding x by (simp add: zero_less_divide_iff)
  define k where "k = bitlen p - bitlen q"
  have "x < pow2 (bitlen p) / pow2 (bitlen q - 1)"
    unfolding x using bitlen_bounds_rat [OF p] bitlen_bounds_rat [OF q]
    by (intro frac_less) (use p in \<open>auto simp: less_imp_le\<close>)
  also have "\<dots> = pow2 (k + 1)"
    using pow2_add [of "k + 1" "bitlen q - 1"] by (simp add: k_def field_simps less_imp_neq [THEN not_sym])
  finally have up: "x < pow2 (k + 1)" .
  have "pow2 (bitlen p - 1) / pow2 (bitlen q) \<le> x"
    unfolding x using bitlen_bounds_rat [OF p] bitlen_bounds_rat [OF q] q p
    by (intro frac_le) (auto simp: less_imp_le)
  moreover have "pow2 (bitlen p - 1) / pow2 (bitlen q) = pow2 (k - 1)"
    using pow2_add [of "k - 1" "bitlen q"] by (simp add: k_def field_simps less_imp_neq [THEN not_sym])
  ultimately have low: "pow2 (k - 1) \<le> x" by simp
  define m where "m = (if x < pow2 k then k - 1 else k)"
  have m: "pow2 m \<le> x" using low by (simp add: m_def)
  have u: "ulp_exp x = max (- 1074) (m - 52)"
    unfolding ulp_exp_def using pq assms(1) by (simp add: k_def m_def)
  have sc: "pow2 (e - 52) = pow2 e / 2 ^ 52" for e
    using pow2_add_nat [of "e - 52" 52] by simp
  show ?thesis
  proof (cases "m - 52 < - 1074")
    case True
    have "pow2 (- 1074) = pow2 (- 1000) / 2 ^ 74"
      using pow2_add_nat [of "- 1074" 74] by simp
    also have "\<dots> \<le> x / 2 ^ 52" using assms by simp
    finally show ?thesis using True by (simp add: u)
  next
    case False
    then show ?thesis using m by (simp add: u sc divide_right_mono)
  qed
qed

lemma dround_error:
  assumes "0 \<le> x" "x = 0 \<or> pow2 (- 1000) \<le> x"
  shows "\<bar>dround x - x\<bar> \<le> x / 2 ^ 53"
proof (cases "x = 0")
  case False
  with assms have "pow2 (ulp_exp x) \<le> x / 2 ^ 52"
    by (intro ulp_bound) auto
  with dround_error_ulp [of x] show ?thesis by simp
qed (simp add: dround_def)

lemma pow2_m1000_small: "pow2 (- 1000) \<le> 1 / 86400"
proof -
  have "pow2 (- 1000) * 2 ^ 983 = pow2 (- 17)"
    using pow2_add_nat [of "- 1000" 983] by simp
  moreover have "(1::rat) \<le> 2 ^ 983" by simp
  ultimately have "pow2 (- 1000) \<le> pow2 (- 17)"
    using mult_left_mono [of 1 "2 ^ 983" "pow2 (- 1000)"] by (simp add: less_imp_le)
  also have "\<dots> \<le> 1 / 86400" by (simp add: pow2_def)
  finally show ?thesis .
qed

lemma dround_rel:
  assumes "0 \<le> x" "x = 0 \<or> 1 / 86400 \<le> x"
  shows "\<bar>dround x - x\<bar> \<le> x / 2 ^ 53"
  using assms pow2_m1000_small by (intro dround_error) auto

section \<open>Days and seconds\<close>

text \<open>
  Dividing a clock reading by 86400 and multiplying back loses less than a
  thousandth of a second as long as the reading is below \<open>2 ^ 40\<close> seconds.
\<close>

lemma ddiv_day_error:
  assumes "t < 2 ^ 40"
  shows "\<bar>ddiv (of_nat t) 86400 * 86400 - of_nat t\<bar> \<le> (of_nat t :: rat) / 2 ^ 53"
proof -
  have "\<bar>ddiv (of_nat t) 86400 - of_nat t / 86400\<bar> \<le> (of_nat t / 86400) / 2 ^ 53"
    unfolding ddiv_def by (rule dround_rel) (cases t, auto simp: divide_right_mono)
  then have "\<bar>ddiv (of_nat t) 86400 - of_nat t / 86400\<bar> * 86400 \<le> (of_nat t / 86400) / 2 ^ 53 * 86400"
    by (rule mult_right_mono) simp
  then show ?thesis by (simp add: abs_if split: if_splits) 
qed

lemma day_roundtrip_error:
  assumes "t < 2 ^ 40"
  shows "\<bar>dadd (dmul (ddiv (of_nat t) 86400) 86400) (1 / 2) - (of_nat t + 1 / 2)\<bar> \<le> (1::rat) / 4"
proof -
  define x :: rat where "x = of_nat t"
  have x: "0 \<le> x" "x \<le> 2 ^ 40"
    using assms unfolding x_def by simp_all
  have x1: "x = 0 \<or> 1 \<le> x" unfolding x_def by (cases t) auto
  define y where "y = ddiv x 86400 * 86400"
  define z where "z = dround y"
  have e1: "\<bar>y - x\<bar> \<le> x / 2 ^ 53"
    using ddiv_day_error [OF assms] by (simp add: y_def x_def)
  have e1': "\<bar>y - x\<bar> \<le> 1 / 2 ^ 13" using e1 x by simp
  have y: "0 \<le> y" "y = 0 \<or> 1 / 86400 \<le> y"
    using e1 x x1 by (auto simp: abs_if split: if_splits)
  have e2: "\<bar>z - y\<bar> \<le> 1 / 2 ^ 12"
    using dround_rel [OF y] e1' x unfolding z_def by (auto simp: abs_if split: if_splits)
  have w: "0 \<le> z + 1 / 2" "z + 1 / 2 = 0 \<or> 1 / 86400 \<le> z + 1 / 2"
    using e1' e2 x by (auto simp: abs_if split: if_splits)
  have "\<bar>dround (z + 1 / 2) - (z + 1 / 2)\<bar> \<le> 1 / 2 ^ 12"
    using dround_rel [OF w] e1' e2 x by (auto simp: abs_if split: if_splits)
  then have "\<bar>dround (z + 1 / 2) - (x + 1 / 2)\<bar> \<le> 1 / 4"
    using e1' e2 by (auto simp: abs_if split: if_splits)
  then show ?thesis
    by (simp add: dadd_def dmul_def x_def y_def z_def)
qed

lemma dtrunc_day_roundtrip:
  assumes "t < 2 ^ 40"
  shows "dtrunc (dadd (dmul (ddiv (of_nat t) 86400) 86400) (1 / 2)) = int t"
proof -
  let ?w = "dadd (dmul (ddiv (of_nat t) 86400) 86400) (1 / 2)"
  have e: "of_nat t \<le> ?w" "?w < of_nat t + 1"
    using day_roundtrip_error [OF assms] by (auto simp: abs_if split: if_splits)
  then have "\<lfloor>?w\<rfloor> = int t" by (simp add: floor_unique)
  moreover have "0 \<le> ?w" using e(1) by (rule order_trans [rotated]) simp
  ultimately show ?thesis by (simp add: dtrunc_def)
qed

section \<open>Printing\<close>

text \<open>\<open>%.6f\<close> of a non-negative value.\<close>

definition micros :: "rat \<Rightarrow> nat" where
  "micros x = nat (rne (x * 1000000))"

definition pad6 :: "nat \<Rightarrow> string" where
  "pad6 n = replicate (6 - length (dec n)) CHR ''0'' @ dec n"

definition fmt6 :: "rat \<Rightarrow> string" where
  "fmt6 x = dec (micros x div 1000000) @ ''.'' @ pad6 (micros x mod 1000000)"

lemma length_fmt6: "micros x < 10 ^ 20 \<Longrightarrow> length (fmt6 x) \<le> 21"
proof -
  assume "micros x < 10 ^ 20"
  then have "length (dec (micros x div 1000000)) \<le> 14"
    using length_dec_bound [of "micros x div 1000000" 13] by (simp add: less_mult_imp_div_less)
  moreover have "length (dec (micros x mod 1000000)) \<le> 6"
    using length_dec_bound [of "micros x mod 1000000" 5] by simp
  ultimately show ?thesis by (simp add: fmt6_def pad6_def)
qed

text \<open>
  The six decimals that are printed still determine the second the clock showed.
\<close>

lemma micros_day_error:
  assumes "t < 2 ^ 40"
  shows "\<bar>(of_nat (micros (ddiv (of_nat t) 86400)) / 1000000 * 86400 - of_nat t :: rat)\<bar> \<le> 1 / 20"
proof -
  define b :: rat where "b = ddiv (of_nat t) 86400"
  have tb: "(of_nat t :: rat) \<le> 2 ^ 40" using assms by simp
  have eb: "\<bar>b * 86400 - of_nat t\<bar> \<le> 1 / 2 ^ 13"
    using ddiv_day_error [OF assms] tb unfolding b_def by simp
  have b0: "- 1 / 2 ^ 13 \<le> b * 86400" using eb by (simp add: abs_if split: if_splits)
  have r: "\<bar>of_int (rne (b * 1000000)) - b * 1000000\<bar> \<le> 1 / 2"
    by (rule rne_error)
  have "0 \<le> rne (b * 1000000)"
  proof (rule ccontr)
    assume "\<not> ?thesis"
    then have "(of_int (rne (b * 1000000)) :: rat) \<le> - 1" by linarith
    with r b0 show False by (simp add: abs_if split: if_splits)
  qed
  then have m: "of_nat (micros b) = (of_int (rne (b * 1000000)) :: rat)"
    by (simp add: micros_def)
  have "\<bar>of_nat (micros b) / 1000000 * 86400 - b * 86400\<bar> \<le> 86400 / 2000000"
    using r unfolding m by (simp add: abs_if split: if_splits)
  with eb show ?thesis unfolding b_def [symmetric]
    by (simp add: abs_if split: if_splits)
qed

end
