(* ===== verification/Link_Wire.thy ===== *)
theory Link_Wire
  imports Link_Env Cdouble
begin

text \<open>
  The byte formats of \<open>Src/Modules/brightlink.c\<close>: the little- and big-endian
  integers, the additional authenticated data of a delivery, the registration
  transcript, base64 with its trimming of padding, and the JSON escaping of strings.
\<close>

section \<open>Integers\<close>

definition link_le32 :: "32 word \<Rightarrow> bytes" where
  "link_le32 v = [uchar (v AND 0xff), uchar (drop_bit 8 v AND 0xff),
                  uchar (drop_bit 16 v AND 0xff), uchar (drop_bit 24 v AND 0xff)]"

definition link_be64 :: "64 word \<Rightarrow> bytes" where
  "link_be64 v = map (\<lambda>i. uchar (drop_bit (i * 8) v AND 0xff)) (rev [0..<8])"

text \<open>The four bytes written out in line in \<open>link_build_transcript\<close>.\<close>

definition link_be32 :: "32 word \<Rightarrow> bytes" where
  "link_be32 v = [uchar (drop_bit 24 v AND 0xff), uchar (drop_bit 16 v AND 0xff),
                  uchar (drop_bit 8 v AND 0xff), uchar (v AND 0xff)]"

lemma length_link_le32 [simp, wire_simps]: "length (link_le32 v) = 4"
  by (simp add: link_le32_def)

lemma length_link_be64 [simp, wire_simps]: "length (link_be64 v) = 8"
  by (simp add: link_be64_def)

lemma length_link_be32 [simp, wire_simps]: "length (link_be32 v) = 4"
  by (simp add: link_be32_def)

text \<open>A byte of a word, and the word from its bytes.\<close>

lemma uchar_mask: "uchar (drop_bit k v AND 0xff) = char_of (unat v div 2 ^ k)"
  for v :: "'a::len word"
proof -
  have m: "drop_bit k v AND 0xff = take_bit 8 (drop_bit k v)"
    by (simp only: take_bit_eq_mask) (simp add: mask_eq_exp_minus_1)
  have "unat (take_bit 8 (drop_bit k v)) = take_bit 8 (unat (drop_bit k v))"
    by (rule unsigned_take_bit_eq)
  also have "unat (drop_bit k v) = unat v div 2 ^ k"
    by (simp only: unsigned_drop_bit_eq) (simp add: drop_bit_eq_div take_bit_nat_eq_self)
  finally have "unat (drop_bit k v AND 0xff) = (unat v div 2 ^ k) mod 256"
    by (simp only: m) (simp add: take_bit_eq_mod)
  then show ?thesis
    unfolding uchar_def by (metis char_of_mod_256)
qed

lemma uchar_mask0: "uchar (v AND 0xff) = char_of (unat v)"
  for v :: "'a::len word"
  using uchar_mask [of 0 v] by simp

text \<open>A number is determined by its base-256 digits.\<close>

lemma base256_inj:
  "(\<And>i. i < k \<Longrightarrow> (n::nat) div 256 ^ i mod 256 = m div 256 ^ i mod 256) \<Longrightarrow>
   n < 256 ^ k \<Longrightarrow> m < 256 ^ k \<Longrightarrow> n = m"
proof (induction k arbitrary: n m)
  case (Suc k)
  have low: "n mod 256 = m mod 256"
    using Suc.prems(1) [of 0] by simp
  have "n div 256 = m div 256"
  proof (rule Suc.IH)
    show "n div 256 div 256 ^ i mod 256 = m div 256 div 256 ^ i mod 256" if "i < k" for i
      using Suc.prems(1) [of "Suc i"] that by (simp add: div_mult2_eq)
  qed (use Suc.prems(2,3) in \<open>simp_all add: less_mult_imp_div_less mult.commute\<close>)
  with low show ?case by (metis div_mult_mod_eq)
qed simp

lemma unat_eq_of_bytes:
  fixes v w :: "'a::len word"
  assumes "\<And>i. i < k \<Longrightarrow> char_of (unat v div 256 ^ i) = (char_of (unat w div 256 ^ i) :: char)"
    and "2 ^ LENGTH('a) \<le> (256::nat) ^ k"
  shows "v = w"
proof -
  have "unat v = unat w"
  proof (rule base256_inj [of k])
    show "unat v div 256 ^ i mod 256 = unat w div 256 ^ i mod 256" if "i < k" for i
      using assms(1) [OF that] by (simp add: char_of_eq_iff take_bit_eq_mod)
  qed (auto intro: order_less_le_trans [OF unsigned_less assms(2)])
  then show ?thesis by (simp add: word_unat_eq_iff)
qed

lemma link_le32_bytes:
  "link_le32 v = [char_of (unat v), char_of (unat v div 256),
                  char_of (unat v div 256 ^ 2), char_of (unat v div 256 ^ 3)]"
  by (simp only: link_le32_def uchar_mask) (simp add: uchar_mask0)

lemma link_be32_bytes:
  "link_be32 v = [char_of (unat v div 256 ^ 3), char_of (unat v div 256 ^ 2),
                  char_of (unat v div 256), char_of (unat v)]"
  by (simp only: link_be32_def uchar_mask) (simp add: uchar_mask0)

lemma pow256: "(2::nat) ^ (i * 8) = 256 ^ i"
  by (subst mult.commute) (simp only: power_mult, simp)

lemma link_be64_bytes:
  "link_be64 v = map (\<lambda>i. char_of (unat v div 256 ^ i)) (rev [0..<8])"
  by (simp only: link_be64_def uchar_mask pow256)

lemma less_4_cases: "(i::nat) < 4 \<Longrightarrow> i = 0 \<or> i = 1 \<or> i = 2 \<or> i = 3"
  by arith

lemma link_le32_inj [simp]: "link_le32 v = link_le32 w \<longleftrightarrow> v = w"
proof
  assume "link_le32 v = link_le32 w"
  then show "v = w"
    by (intro unat_eq_of_bytes [of 4])
       (auto simp only: link_le32_bytes list.inject dest!: less_4_cases, simp_all)
qed simp

lemma link_be32_inj [simp]: "link_be32 v = link_be32 w \<longleftrightarrow> v = w"
proof
  assume "link_be32 v = link_be32 w"
  then show "v = w"
    by (intro unat_eq_of_bytes [of 4])
       (auto simp only: link_be32_bytes list.inject dest!: less_4_cases, simp_all)
qed simp

lemma link_be64_inj [simp]: "link_be64 v = link_be64 w \<longleftrightarrow> v = w"
proof
  assume "link_be64 v = link_be64 w"
  then show "v = w"
    by (intro unat_eq_of_bytes [of 8]) (simp_all add: link_be64_bytes)
qed simp

section \<open>Additional authenticated data\<close>

text \<open>
  \<open>link_build_deliver_aad\<close>: four length-prefixed fields, or \<open>None\<close> when they do not
  fit the caller's buffer.  Buffer sizes are far below \<open>2 ^ 32\<close>, so the casts of the
  lengths to 32 bits lose nothing.
\<close>

definition lp :: "bytes \<Rightarrow> bytes" where
  "lp f = link_le32 (of_nat (length f)) @ f"

definition link_build_deliver_aad ::
    "char \<Rightarrow> bytes \<Rightarrow> string \<Rightarrow> bytes \<Rightarrow> nat \<Rightarrow> bytes option" where
  "link_build_deliver_aad dir_tag counter type context aad_cap =
     (let need = 4 + 1 + 4 + length counter + 4 + length type + 4 + length context
      in if aad_cap < need then None
         else Some (link_le32 1 @ [dir_tag]
                    @ link_le32 (of_nat (length counter)) @ counter
                    @ link_le32 (of_nat (length type)) @ type
                    @ link_le32 (of_nat (length context)) @ context))"

lemma lp_inj:
  assumes "length a < 2 ^ 32" "length b < 2 ^ 32"
  shows "lp a @ r = lp b @ s \<longleftrightarrow> a = b \<and> r = s"
proof
  assume *: "lp a @ r = lp b @ s"
  then have "link_le32 (of_nat (length a)) = link_le32 (of_nat (length b))"
    and t: "a @ r = b @ s" by (simp_all add: lp_def)
  then have "unat (of_nat (length a) :: 32 word) = unat (of_nat (length b) :: 32 word)" by simp
  with assms have "length a = length b" by (simp add: unat_of_nat)
  with t show "a = b \<and> r = s" by simp
qed simp

lemma lp_inj0: "length a < 2 ^ 32 \<Longrightarrow> length b < 2 ^ 32 \<Longrightarrow> lp a = lp b \<longleftrightarrow> a = b"
  using lp_inj [of a b "[]" "[]"] by simp

lemma link_build_deliver_aad_lp:
  "link_build_deliver_aad d c ty cx cap =
     (if cap < 17 + length c + length ty + length cx then None
      else Some (lp [d] @ lp c @ lp ty @ lp cx))"
  by (simp add: link_build_deliver_aad_def lp_def add.commute add.left_commute)

lemma link_build_deliver_aad_length:
  "link_build_deliver_aad d c ty cx cap = Some a \<Longrightarrow>
   length a = 17 + length c + length ty + length cx \<and> length a \<le> cap"
  by (auto simp: link_build_deliver_aad_lp lp_def split: if_splits)

lemma deliver_aad_inj_aux:
  assumes "link_build_deliver_aad d c ty cx cap = Some a"
    and "link_build_deliver_aad d' c' ty' cx' cap' = Some a"
    and "cap < 2 ^ 32" "cap' < 2 ^ 32"
  shows "d = d' \<and> c = c' \<and> ty = ty' \<and> cx = cx'"
proof -
  have l: "length c < 2 ^ 32" "length ty < 2 ^ 32" "length cx < 2 ^ 32"
          "length c' < 2 ^ 32" "length ty' < 2 ^ 32" "length cx' < 2 ^ 32"
    using assms by (auto simp: link_build_deliver_aad_lp split: if_splits)
  have "lp [d] @ lp c @ lp ty @ lp cx = lp [d'] @ lp c' @ lp ty' @ lp cx'"
    using assms(1,2) by (auto simp: link_build_deliver_aad_lp split: if_splits)
  with l show ?thesis by (simp add: lp_inj lp_inj0)
qed

section \<open>Registration transcript\<close>

definition LINK_TRANSCRIPT_HEADER :: bytes where
  "LINK_TRANSCRIPT_HEADER = ''BrightLink v1 transcript'' @ [NUL]"

text \<open>\<open>(int64_t)(issued_at_bd * 86400.0 + 0.5)\<close>, then the cast to \<open>uint64_t\<close>.\<close>

definition issued_at_unix :: "rat \<Rightarrow> 64 word" where
  "issued_at_unix bd = of_int (dtrunc (dadd (dmul bd 86400) (1 / 2)))"

text \<open>
  The C function copies exactly 16, 65, 32, 16 and 32 bytes from its pointers; the
  model's lists are those arrays.  \<open>None\<close> is the final length check failing.
\<close>

definition link_build_transcript ::
    "bytes \<Rightarrow> bytes \<Rightarrow> bytes \<Rightarrow> bytes \<Rightarrow> bytes \<Rightarrow> rat \<Rightarrow> 64 word \<Rightarrow> 32 word \<Rightarrow> bytes option" where
  "link_build_transcript client_nonce client_pub65 client_share session_id bridge_share
       issued_at_bd bridge_issued_at_unix ttl_seconds =
     (let p = LINK_TRANSCRIPT_HEADER
            @ link_le32 16 @ client_nonce
            @ link_le32 65 @ client_pub65
            @ link_le32 32 @ client_share
            @ link_le32 16 @ session_id
            @ link_le32 32 @ bridge_share
            @ link_le32 8 @ link_be64 (issued_at_unix issued_at_bd)
            @ link_le32 8 @ link_be64 bridge_issued_at_unix
            @ link_le32 4 @ link_be32 ttl_seconds
      in if length p = LINK_TRANSCRIPT_TOTAL_LEN then Some p else None)"

lemma length_LINK_TRANSCRIPT_HEADER [simp, wire_simps]: "length LINK_TRANSCRIPT_HEADER = 25"
  by (simp add: LINK_TRANSCRIPT_HEADER_def)

lemma link_build_transcript_Some:
  assumes "length nonce = 16" "length pub = 65" "length share = 32" "length sid = 16"
    "length bshare = 32"
  shows "link_build_transcript nonce pub share sid bshare bd t ttl =
     Some (LINK_TRANSCRIPT_HEADER @ link_le32 16 @ nonce @ link_le32 65 @ pub
           @ link_le32 32 @ share @ link_le32 16 @ sid @ link_le32 32 @ bshare
           @ link_le32 8 @ link_be64 (issued_at_unix bd) @ link_le32 8 @ link_be64 t
           @ link_le32 4 @ link_be32 ttl)"
  using assms by (simp add: link_build_transcript_def Let_def)

lemma link_build_transcript_length:
  "link_build_transcript nonce pub share sid bshare bd t ttl = Some p \<Longrightarrow> length p = 238"
  by (auto simp: link_build_transcript_def Let_def split: if_splits)

lemma transcript_inj_aux:
  assumes "link_build_transcript n p sh si b bd t ttl = Some x"
    and "link_build_transcript n' p' sh' si' b' bd' t' ttl' = Some x"
    and "length n = 16" "length p = 65" "length sh = 32" "length si = 16" "length b = 32"
    and "length n' = 16" "length p' = 65" "length sh' = 32" "length si' = 16" "length b' = 32"
  shows "n = n' \<and> p = p' \<and> sh = sh' \<and> si = si' \<and> b = b'
     \<and> issued_at_unix bd = issued_at_unix bd' \<and> t = t' \<and> ttl = ttl'"
  using assms(1,2) unfolding link_build_transcript_Some [OF assms(3-7)]
    link_build_transcript_Some [OF assms(8-12)]
  by (auto simp: assms(3-12))

section \<open>base64\<close>

text \<open>
  \<open>needed > dst_cap\<close> is the \<open>- 1\<close> return; \<open>EVP_EncodeBlock\<close> itself does not fail.  The lengths
  are those of buffers of at most \<open>2 ^ 30\<close> bytes, which \<open>int\<close> holds.
\<close>

definition link_b64encode :: "'p crypto \<Rightarrow> bytes \<Rightarrow> nat \<Rightarrow> string option" where
  "link_b64encode C src dst_cap =
     (let needed = 4 * ((length src + 2) div 3) + 1
      in if dst_cap < needed then None else Some (evp_encode_block C src))"

definition b64_decode_checked :: "'p crypto \<Rightarrow> string \<Rightarrow> nat \<Rightarrow> nat \<Rightarrow> bytes option" where
  "b64_decode_checked C src pre_trim rlen =
     (case evp_decode_block C src of
        None \<Rightarrow> None
      | Some out \<Rightarrow> if length out \<noteq> pre_trim then None else Some (take rlen out))"

definition link_b64decode :: "'p crypto \<Rightarrow> string \<Rightarrow> nat \<Rightarrow> link \<Rightarrow> bytes option \<times> link" where
  "link_b64decode C src dst_cap st =
     (let src_len = length src;
          pad = (if 1 \<le> src_len \<and> src ! (src_len - 1) = CHR ''='' then 1 else 0)
              + (if 2 \<le> src_len \<and> src ! (src_len - 2) = CHR ''='' then 1 else 0);
          pre_trim = (src_len * 3) div 4
      in if pre_trim < pad then (None, st)
         else let rlen = pre_trim - pad
              in if dst_cap < rlen then (None, st)
                 else if 8192 < pre_trim
                 then (case os_alloc pre_trim st of
                         (False, st) \<Rightarrow> (None, st)
                       | (True, st) \<Rightarrow> (b64_decode_checked C src pre_trim rlen, st))
                 else (b64_decode_checked C src pre_trim rlen, st))"

lemma b64_decode_checked_length:
  "b64_decode_checked C src pre rlen = Some b \<Longrightarrow> length b = min pre rlen"
  by (auto simp: b64_decode_checked_def split: option.splits if_splits)

lemma link_b64decode_length:
  "link_b64decode C src cap st = (Some b, st') \<Longrightarrow> length b \<le> cap"
  by (auto simp: link_b64decode_def Let_def dest!: b64_decode_checked_length
      split: if_splits prod.splits bool.splits)

lemma link_b64decode_frame [frameD]:
  "link_b64decode C src cap st = (x, t) \<Longrightarrow> session_of t = session_of st"
  by (auto simp: link_b64decode_def Let_def dest!: frameD split: if_splits prod.splits bool.splits)

text \<open>The padding the decoder counts is the padding the encoder wrote.\<close>

lemma b64_pad_cases: "b64_pad n = 0 \<or> b64_pad n = 1 \<or> b64_pad n = 2"
proof -
  have "n mod 3 = 0 \<or> n mod 3 = 1 \<or> n mod 3 = 2" by linarith
  then show ?thesis unfolding b64_pad_def by (elim disjE) simp_all
qed

lemma b64_groups: "3 * ((n + 2) div 3) = n + b64_pad n"
proof -
  define q r where "q = n div 3" and "r = n mod 3"
  have n: "n = 3 * q + r" and r: "r = 0 \<or> r = 1 \<or> r = 2"
    unfolding q_def r_def by (simp, linarith)
  have m: "n mod 3 = r" by (simp add: r_def)
  have "(n + 2) div 3 = q + (r + 2) div 3" unfolding n by simp
  then show ?thesis using r unfolding b64_pad_def m by (elim disjE) (simp_all add: n)
qed

lemma counted_pad:
  assumes "s = u @ replicate k CHR ''=''" "CHR ''='' \<notin> set u" "k \<le> 2"
  shows "(if 1 \<le> length s \<and> s ! (length s - 1) = CHR ''='' then 1 else 0)
       + (if 2 \<le> length s \<and> s ! (length s - 2) = CHR ''='' then 1 else 0) = k"
proof -
  have u: "i < length u \<Longrightarrow> u ! i \<noteq> CHR ''=''" for i
    using assms(2) nth_mem by metis
  consider "k = 0" | "k = 1" | "k = 2" using assms(3) by linarith
  then show ?thesis
  proof cases
    case 3
    then have "s = u @ [CHR ''='', CHR ''='']" by (simp add: assms(1) numeral_2_eq_2)
    then show ?thesis using 3 by (simp add: nth_append)
  qed (use u in \<open>auto simp: assms(1) nth_append\<close>)
qed

lemma b64_roundtrip_aux:
  assumes laws: "base64_laws C" and cap: "length b \<le> cap"
  shows "link_b64decode C (evp_encode_block C b) cap st =
    (if length b + b64_pad (length b) \<le> 8192 then (Some b, st)
     else case os_alloc (length b + b64_pad (length b)) st of (ok, st) \<Rightarrow> (if ok then Some b else None, st))"
proof -
  let ?s = "evp_encode_block C b" and ?k = "b64_pad (length b)"
  from laws obtain u where len: "length ?s = 4 * ((length b + 2) div 3)"
    and u: "?s = u @ replicate ?k CHR ''=''" "CHR ''='' \<notin> set u"
    and dec: "evp_decode_block C ?s = Some (b @ replicate ?k NUL)"
    unfolding base64_laws_def by blast
  have k2: "?k \<le> 2" using b64_pad_cases [of "length b"] by auto
  have "length ?s * 3 div 4 = 3 * ((length b + 2) div 3)" by (simp add: len)
  then have pre: "length ?s * 3 div 4 = length b + ?k" by (simp only: b64_groups)
  show ?thesis
    using cap by (simp only: link_b64decode_def Let_def counted_pad [OF u k2] pre)
                 (simp add: b64_decode_checked_def dec split: prod.split bool.split)
qed

section \<open>JSON escaping\<close>

definition hexdigit :: "nat \<Rightarrow> char" where
  "hexdigit d = (if d < 10 then char_of (48 + d) else char_of (87 + d))"

text \<open>The two escaping loops of \<open>link_emit_deliver\<close> are one function.\<close>

definition json_esc1 :: "char \<Rightarrow> string" where
  "json_esc1 c =
     (if c = CHR 0x22 \<or> c = CHR 0x5C then [CHR 0x5C, c]
      else if 0x20 \<le> (of_char c :: nat) \<and> (of_char c :: nat) < 0x7f then [c]
      else CHR 0x5C # ''u00'' @ [hexdigit (of_char c div 16), hexdigit (of_char c mod 16)])"

fun json_esc :: "bytes \<Rightarrow> string" where
  "json_esc [] = []"
| "json_esc (c # cs) = json_esc1 c @ json_esc cs"

lemma length_json_esc1: "length (json_esc1 c) \<le> 6"
  by (simp add: json_esc1_def)

text \<open>The buffer of \<open>6 * len + 1\<close> bytes holds the escaped text and its terminator.\<close>

lemma length_json_esc: "length (json_esc s) \<le> 6 * length s"
proof (induction s)
  case (Cons c s)
  then show ?case using length_json_esc1 [of c] by simp
qed simp

lemma NUL_not_hexdigit: "d < 16 \<Longrightarrow> hexdigit d \<noteq> NUL"
  by (simp add: hexdigit_def char_of_neq_NUL)

lemma json_esc_no_NUL: "NUL \<notin> set (json_esc s)"
proof (induction s)
  case (Cons c s)
  have "(of_char c :: nat) div 16 < 16" using of_char_less_256 [of c] by linarith
  then have "NUL \<notin> set (json_esc1 c)"
    using NUL_not_hexdigit [of "of_char c div 16"] NUL_not_hexdigit [of "of_char c mod 16"]
    by (auto simp: json_esc1_def NUL_def)
  with Cons show ?case by simp
qed simp

end
