(* ===== verification/Link_Json.thy ===== *)
theory Link_Json
  imports Link_Wire
begin

text \<open>
  The field extractors of \<open>Src/Modules/brightlink.c\<close>: they look for \<open>"key"\<close> in the
  response text and copy the value that follows.  A pointer into the text is the
  suffix it points to; an output buffer is the list of bytes written to it, which
  the caller gets even when the function reports failure.
\<close>

section \<open>Locating a key\<close>

definition quote :: char where "quote = CHR 0x22"
definition backslash :: char where "backslash = CHR 0x5C"

definition json_ws :: "char \<Rightarrow> bool" where
  "json_ws c \<longleftrightarrow> c = CHR 0x20 \<or> c = CHR 0x09 \<or> c = CHR 0x0A \<or> c = CHR 0x0D"

definition link_json_locate :: "string \<Rightarrow> string \<Rightarrow> string option" where
  "link_json_locate json key =
     (let needle = quote # key @ [quote]; n = length needle
      in if 256 \<le> n then None
         else case strstr json needle of
                None \<Rightarrow> None
              | Some p \<Rightarrow>
                  (case dropWhile json_ws (drop n p) of
                     [] \<Rightarrow> None
                   | c # q \<Rightarrow> if c \<noteq> CHR '':'' then None else Some (dropWhile json_ws q)))"

section \<open>String values\<close>

definition isxdigit :: "char \<Rightarrow> bool" where
  "isxdigit c \<longleftrightarrow> isdigit c \<or> (65 \<le> (of_char c :: nat) \<and> (of_char c :: nat) \<le> 70)
                   \<or> (97 \<le> (of_char c :: nat) \<and> (of_char c :: nat) \<le> 102)"

definition xdigit_val :: "char \<Rightarrow> nat" where
  "xdigit_val c = (let n = of_char c in if n \<le> 57 then n - 48 else if n \<le> 70 then n - 55 else n - 87)"

text \<open>
  \<open>sscanf (hex, "%x", &cp)\<close>: leading white space, an optional sign and an optional
  \<open>0x\<close> are accepted, as the C standard says.
\<close>

definition scan_hex :: "string \<Rightarrow> 32 word option" where
  "scan_hex s =
     (let q = dropWhile isspace s;
          (neg, r) = (case q of
              [] \<Rightarrow> (False, q)
            | c # cs \<Rightarrow> if c = CHR ''-'' then (True, cs)
                        else if c = CHR ''+'' then (False, cs) else (False, q));
          r' = (case r of z # x # ds \<Rightarrow>
                  if z = CHR ''0'' \<and> (x = CHR ''x'' \<or> x = CHR ''X'') then ds else r | _ \<Rightarrow> r);
          ds = takeWhile isxdigit r';
          v = of_nat (foldl (\<lambda>n c. 16 * n + xdigit_val c) 0 ds)
      in if ds = [] then None else Some (if neg then - v else v))"

text \<open>
  The copying loop of \<open>link_json_field_str\<close>; \<open>out\<close> is what has been written so far and
  \<open>i + 1 >= out_cap\<close> is the overflow test before every byte.
\<close>

fun json_str_loop :: "nat \<Rightarrow> string \<Rightarrow> bytes \<Rightarrow> bool \<times> bytes" where
  "json_str_loop cap [] out = (False, out)"
| "json_str_loop cap (p0 # ps) out =
     (if p0 = quote then (True, out)
      else if p0 = backslash \<and> ps \<noteq> [] then
        (let c = hd ps; rest = tl ps
         in if c = CHR ''u'' then
              (if length rest < 4 then (False, out)
               else case scan_hex (take 4 rest) of
                      None \<Rightarrow> (False, out)
                    | Some cp \<Rightarrow>
                        if cap \<le> length out + 1 then (False, out)
                        else json_str_loop cap (drop 4 rest)
                               (out @ [if cp < 0x80 then uchar cp else CHR ''?'']))
            else if cap \<le> length out + 1 then (False, out)
            else json_str_loop cap rest
                   (out @ [if c = CHR ''n'' then CHR 0x0A
                           else if c = CHR ''r'' then CHR 0x0D
                           else if c = CHR ''t'' then CHR 0x09 else c]))
      else if cap \<le> length out + 1 then (False, out)
      else json_str_loop cap ps (out @ [p0]))"

definition link_json_field_str :: "string \<Rightarrow> string \<Rightarrow> nat \<Rightarrow> bool \<times> bytes" where
  "link_json_field_str json key out_cap =
     (case link_json_locate json key of
        None \<Rightarrow> (False, [])
      | Some p \<Rightarrow> (case p of
            [] \<Rightarrow> (False, [])
          | c # ps \<Rightarrow> if c \<noteq> quote then (False, []) else json_str_loop out_cap ps []))"

definition link_json_field_int :: "string \<Rightarrow> string \<Rightarrow> int option" where
  "link_json_field_int json key =
     (case link_json_locate json key of
        None \<Rightarrow> None
      | Some p \<Rightarrow> map_option fst (strtoll p))"

definition link_json_field_b64 ::
    "'p crypto \<Rightarrow> string \<Rightarrow> string \<Rightarrow> nat \<Rightarrow> link \<Rightarrow> bytes option \<times> link" where
  "link_json_field_b64 C json key out_cap st =
     (case link_json_field_str json key 4096 of
        (False, tmp) \<Rightarrow> (None, st)
      | (True, tmp) \<Rightarrow> link_b64decode C (cstr tmp) out_cap st)"

section \<open>Raw values\<close>

text \<open>
  \<open>link_json_field_raw\<close>: the copy stops at the closing quote, or at a comma or closing
  bracket when the value is not quoted, or when the buffer is full; then trailing
  white space is trimmed.
\<close>

fun json_raw_loop :: "nat \<Rightarrow> bool \<Rightarrow> string \<Rightarrow> bytes \<Rightarrow> bytes" where
  "json_raw_loop cap quoted [] out = out"
| "json_raw_loop cap quoted (c # p) out =
     (if length out + 1 < cap then
        (if quoted \<and> c = quote then out
         else if \<not> quoted \<and> (c = CHR '','' \<or> c = CHR ''}'' \<or> c = CHR '']'') then out
         else json_raw_loop cap quoted p (out @ [c]))
      else out)"

definition rtrim :: "bytes \<Rightarrow> bytes" where
  "rtrim s = rev (dropWhile (\<lambda>c. c = CHR 0x20 \<or> c = CHR 0x09 \<or> c = CHR 0x0A) (rev s))"

definition link_json_field_raw :: "string \<Rightarrow> string \<Rightarrow> nat \<Rightarrow> bool \<times> bytes" where
  "link_json_field_raw json key out_cap =
     (if out_cap = 0 then (False, [])
      else let needle = quote # key @ [quote, CHR '':'']
           in if 64 \<le> length needle then (False, [])
              else case strstr json needle of
                     None \<Rightarrow> (False, [])
                   | Some p \<Rightarrow>
                       (let q = dropWhile (\<lambda>c. c = CHR 0x20 \<or> c = CHR 0x09) (drop (length needle) p);
                            quoted = (q \<noteq> [] \<and> hd q = quote);
                            out = rtrim (json_raw_loop out_cap quoted (if quoted then tl q else q) [])
                        in (out \<noteq> [], out)))"

section \<open>Bounds\<close>

text \<open>No extractor writes past its buffer: there is always room for the terminator.\<close>

lemma json_str_loop_length:
  "length out < cap \<Longrightarrow> length (snd (json_str_loop cap p out)) < cap"
proof (induction cap p out rule: json_str_loop.induct)
  case (2 cap p0 ps out)
  then show ?case by (auto simp: Let_def split: option.split)
qed simp

lemma link_json_field_str_length:
  assumes "0 < cap"
  shows "length (snd (link_json_field_str json key cap)) < cap"
proof (cases "link_json_locate json key")
  case (Some p)
  have "length (snd (json_str_loop cap (tl p) [])) < cap"
    by (rule json_str_loop_length) (simp add: assms)
  with Some assms show ?thesis by (cases p) (simp_all add: link_json_field_str_def)
qed (simp add: link_json_field_str_def assms)

lemma json_raw_loop_length:
  "length out < cap \<Longrightarrow> length (json_raw_loop cap q p out) < cap"
  by (induction cap q p out rule: json_raw_loop.induct) auto

lemma length_rtrim: "length (rtrim s) \<le> length s"
  by (simp add: rtrim_def length_dropWhile_le [of _ "rev s", simplified])

lemma rtrim_raw_length: "0 < cap \<Longrightarrow> length (rtrim (json_raw_loop cap q p [])) < cap"
  by (rule order_le_less_trans [OF length_rtrim], rule json_raw_loop_length) simp

lemma link_json_field_raw_length:
  "0 < cap \<Longrightarrow> length (snd (link_json_field_raw json key cap)) < cap"
  by (simp add: link_json_field_raw_def Let_def rtrim_raw_length split: option.split)

lemma link_json_field_b64_length:
  "link_json_field_b64 C json key cap st = (Some b, st') \<Longrightarrow> length b \<le> cap"
  by (auto simp: link_json_field_b64_def dest: link_b64decode_length split: prod.splits bool.splits)

lemma link_json_field_b64_frame [frameD]:
  "link_json_field_b64 C json key cap st = (x, t) \<Longrightarrow> session_of t = session_of st"
  by (auto simp: link_json_field_b64_def dest!: frameD split: prod.splits bool.splits)

section \<open>Reading back what was escaped\<close>

text \<open>
  Bytes outside ASCII are escaped as \<open>\u00XX\<close> but read back as a question mark.
\<close>

definition lossy :: "char \<Rightarrow> char" where
  "lossy c = (if (of_char c :: nat) < 0x80 then c else CHR ''?'')"

lemma hexdigit_simps [simp]:
  assumes "d < 16"
  shows "isxdigit (hexdigit d)" and "xdigit_val (hexdigit d) = d"
  using assms by (auto simp: hexdigit_def isxdigit_def isdigit_def xdigit_val_def Let_def)

lemma scan_hex_byte:
  assumes "a < 16" "b < 16"
  shows "scan_hex (''00'' @ [hexdigit a, hexdigit b]) = Some (of_nat (16 * a + b))"
  using assms by (simp add: scan_hex_def isspace_def isxdigit_def [of "CHR ''0''"]
      isdigit_def [of "CHR ''0''"] xdigit_val_def [of "CHR ''0''"])

lemma uchar_of_nat_char: "uchar (of_nat (of_char c) :: 32 word) = c"
proof -
  have "(of_char c :: nat) < 2 ^ 32" using of_char_less_256 [of c] by (rule order_less_trans) simp
  then have "unat (of_nat (of_char c) :: 32 word) = of_char c"
    by (simp add: unat_of_nat)
  then show ?thesis by (simp add: uchar_def)
qed

lemma json_str_loop_esc1:
  assumes "length out + 1 < cap"
  shows "json_str_loop cap (json_esc1 c @ p) out = json_str_loop cap p (out @ [lossy c])"
proof -
  have n: "(of_char c :: nat) < 256" by simp
  consider (q) "c = quote \<or> c = backslash"
    | (plain) "c \<noteq> quote" "c \<noteq> backslash" "0x20 \<le> (of_char c :: nat)" "(of_char c :: nat) < 0x7f"
    | (esc) "c \<noteq> quote" "c \<noteq> backslash" "\<not> (0x20 \<le> (of_char c :: nat) \<and> (of_char c :: nat) < 0x7f)"
    by blast
  then show ?thesis
  proof cases
    case q
    with assms show ?thesis
      by (auto simp: json_esc1_def quote_def backslash_def lossy_def Let_def)
  next
    case plain
    with assms show ?thesis
      by (simp add: json_esc1_def quote_def backslash_def lossy_def)
  next
    case esc
    let ?a = "of_char c div 16 :: nat" and ?b = "of_char c mod 16 :: nat"
    have a: "?a < 16" and b: "?b < 16" using n by (simp_all add: less_mult_imp_div_less)
    have e: "json_esc1 c @ p = backslash # CHR ''u'' # (''00'' @ [hexdigit ?a, hexdigit ?b]) @ p"
      using esc by (simp add: json_esc1_def quote_def backslash_def)
    have "(of_char c :: nat) < 4294967296" using n by (rule order_less_trans) simp
    then have m: "(of_char c :: nat) mod 4294967296 = of_char c" by simp
    have w: "((of_nat (of_char c) :: 32 word) < 0x80) = ((of_char c :: nat) < 0x80)"
      using m by (simp add: word_less_nat_alt unat_of_nat)
    have "json_str_loop cap (json_esc1 c @ p) out =
        json_str_loop cap p (out @ [if (of_nat (16 * ?a + ?b) :: 32 word) < 0x80
                                    then uchar (of_nat (16 * ?a + ?b) :: 32 word) else CHR ''?''])"
      unfolding e using assms scan_hex_byte [OF a b]
      by (simp add: Let_def quote_def backslash_def)
    also have "16 * ?a + ?b = of_char c" by simp
    finally show ?thesis by (simp only: w uchar_of_nat_char lossy_def)
  qed
qed

lemma json_str_loop_esc:
  "length out + length s < cap \<Longrightarrow>
   json_str_loop cap (json_esc s @ quote # p) out = (True, out @ map lossy s)"
proof (induction s arbitrary: out)
  case Nil
  then show ?case by simp
next
  case (Cons c s)
  then show ?case
    using json_str_loop_esc1 [of out cap c "json_esc s @ quote # p"]
    by (simp del: json_str_loop.simps)
qed

end
