(* ===== verification/Link_Transport.thy ===== *)
theory Link_Transport
  imports Link_Json
begin

text \<open>
  The connection to the bridge in \<open>Src/Modules/brightlink.c\<close>: finding and opening the
  socket, writing a request, the brace-counting framing of a response, one
  request/response exchange, and reading the body of \<open>bsh-inject\<close> from standard input.
\<close>

section \<open>Socket\<close>

text \<open>\<open>snprintf\<close> into the 1024-byte path leaves a truncated path even when it reports failure.\<close>

definition link_resolve_socket_path :: "link \<Rightarrow> bool \<times> link" where
  "link_resolve_socket_path st =
     (if link_socket_path st \<noteq> [] then (True, st)
      else case env_socket st of
        Some (c # env) \<Rightarrow>
          (let n = length (c # env)
           in if 1024 \<le> n then (False, st)
              else (True, st\<lparr>link_socket_path := c # env\<rparr>))
      | _ \<Rightarrow>
          (let home = (if env_home st = None \<or> env_home st = Some []
                       then (case pw_home st of Some d \<Rightarrow> Some d | None \<Rightarrow> env_home st)
                       else env_home st)
           in case home of
                None \<Rightarrow> (False, st)
              | Some h \<Rightarrow>
                  (let text = h @ ''/.brightchain/brightnexus/brightnexus.sock''
                   in (0 < length text \<and> length text < 1024,
                       st\<lparr>link_socket_path := take 1023 text\<rparr>))))"

text \<open>\<open>sizeof (addr.sun_path)\<close> on Linux.\<close>

definition SUN_PATH_MAX :: nat where [simp]: "SUN_PATH_MAX = 108"

definition link_socket_connect :: "link \<Rightarrow> bool \<times> link" where
  "link_socket_connect st =
     (if 0 \<le> link_sockfd st then (True, st)
      else case link_resolve_socket_path st of
        (False, st) \<Rightarrow> (False, st)
      | (True, st) \<Rightarrow>
          (case os_socket st of
             (fd, st) \<Rightarrow>
               if fd < 0 then (False, st)
               else if SUN_PATH_MAX \<le> length (link_socket_path st) then (False, st)
               else case os_connect st of
                      (False, st) \<Rightarrow> (False, st)
                    | (True, st) \<Rightarrow> (True, st\<lparr>link_sockfd := fd\<rparr>)))"

definition link_socket_close :: "link \<Rightarrow> link" where
  "link_socket_close st = (if 0 \<le> link_sockfd st then st\<lparr>link_sockfd := - 1\<rparr> else st)"

section \<open>Writing\<close>

text \<open>
  The loop of \<open>link_write_all\<close> over the answers of \<open>write\<close>: the bytes still to write,
  and what has gone out.  The result says whether everything was written.
\<close>

fun write_loop :: "wrev list \<Rightarrow> bytes \<Rightarrow> bytes \<Rightarrow> bool \<times> wrev list \<times> bytes" where
  "write_loop evs [] out = (True, evs, out)"
| "write_loop [] (b # p) out = (True, [], out @ b # p)"
| "write_loop (WrIntr # evs) (b # p) out = write_loop evs (b # p) out"
| "write_loop (WrErr # evs) (b # p) out = (False, evs, out)"
| "write_loop (WrOk n # evs) (b # p) out =
     (let k = min n (length (b # p))
      in if k = 0 then (False, evs, out)
         else write_loop evs (drop k (b # p)) (out @ take k (b # p)))"

definition link_write_all :: "bytes \<Rightarrow> link \<Rightarrow> bool \<times> link" where
  "link_write_all buf st =
     (case write_loop (tx st) buf (sent st) of
        (ok, evs, out) \<Rightarrow> (ok, st\<lparr>tx := evs, sent := out\<rparr>))"

text \<open>What reaches the socket is a prefix of the request, all of it on success.\<close>

lemma write_loop_sent:
  "write_loop evs p out = (ok, evs', out') \<Longrightarrow>
   \<exists>k \<le> length p. out' = out @ take k p \<and> (ok \<longrightarrow> k = length p)"
proof (induction evs p out arbitrary: ok evs' out' rule: write_loop.induct)
  case (5 n evs b p out)
  let ?q = "b # p" and ?k = "min n (length (b # p))"
  show ?case
  proof (cases "?k = 0")
    case True
    with "5.prems" show ?thesis by (auto intro: exI [of _ 0])
  next
    case False
    have "write_loop evs (drop ?k ?q) (out @ take ?k ?q) = (ok, evs', out')"
      using "5.prems" False by (simp only: write_loop.simps Let_def if_False)
    from "5.IH" [OF refl False this] obtain j where j: "j \<le> length (drop ?k ?q)"
      "out' = (out @ take ?k ?q) @ take j (drop ?k ?q)" "ok \<longrightarrow> j = length (drop ?k ?q)"
      by blast
    then have "out' = out @ take (?k + j) ?q" by (simp add: take_add)
    moreover have "?k + j \<le> length ?q" "ok \<longrightarrow> ?k + j = length ?q" using j by auto
    ultimately show ?thesis by blast
  qed
qed (auto intro: exI [of _ 0])

section \<open>Framing\<close>

record scan =
  depth :: int
  in_string :: bool
  escaped :: bool
  seen_open :: bool

definition scan_init :: scan where
  "scan_init = \<lparr>depth = 0, in_string = False, escaped = False, seen_open = False\<rparr>"

text \<open>One byte through the body of the loop; the flag says the message is complete.\<close>

definition scan_step :: "scan \<Rightarrow> char \<Rightarrow> bool \<times> scan" where
  "scan_step sc c =
     (if escaped sc then (False, sc\<lparr>escaped := False\<rparr>)
      else if in_string sc then
        (if c = backslash then (False, sc\<lparr>escaped := True\<rparr>)
         else if c = quote then (False, sc\<lparr>in_string := False\<rparr>)
         else (False, sc))
      else if c = quote then (False, sc\<lparr>in_string := True\<rparr>)
      else if c = CHR ''{'' then (False, sc\<lparr>depth := depth sc + 1, seen_open := True\<rparr>)
      else if c = CHR ''}'' then
        (let sc' = sc\<lparr>depth := depth sc - 1\<rparr> in (seen_open sc' \<and> depth sc' = 0, sc'))
      else (False, sc))"

text \<open>\<open>RFrame\<close> is a positive return value, \<open>REof\<close> is 0 and \<open>RFail\<close> is - 1.\<close>

datatype rframe = RFrame bytes | REof | RFail

fun read_loop :: "nat \<Rightarrow> rdev list \<Rightarrow> bytes \<Rightarrow> scan \<Rightarrow> rframe \<times> rdev list" where
  "read_loop cap [] buf sc = (if length buf < cap - 1 then (REof, []) else (RFail, []))"
| "read_loop cap (ev # evs) buf sc =
     (if length buf < cap - 1 then
        (case ev of
           RdIntr \<Rightarrow> read_loop cap evs buf sc
         | RdErr \<Rightarrow> (RFail, evs)
         | RdEOF \<Rightarrow> (REof, evs)
         | RdByte c \<Rightarrow>
             (case scan_step sc c of
                (True, sc') \<Rightarrow> (RFrame (buf @ [c]), evs)
              | (False, sc') \<Rightarrow> read_loop cap evs (buf @ [c]) sc'))
      else (RFail, ev # evs))"

definition link_read_until_brace :: "nat \<Rightarrow> link \<Rightarrow> rframe \<times> link" where
  "link_read_until_brace cap st =
     (case read_loop cap (rx st) [] scan_init of (r, evs) \<Rightarrow> (r, st\<lparr>rx := evs\<rparr>))"

definition LINK_RESP_MAX :: nat where [simp]: "LINK_RESP_MAX = 16 * 1024"

section \<open>One exchange\<close>

text \<open>The response is the copy \<open>strdup\<close> makes, which ends at the first NUL byte.\<close>

definition link_send_request :: "string \<Rightarrow> link \<Rightarrow> string option \<times> link" where
  "link_send_request json st =
     (case link_socket_connect st of
        (False, st) \<Rightarrow> (None, st)
      | (True, st) \<Rightarrow>
          (case link_write_all json st of
             (False, st) \<Rightarrow> (None, link_socket_close st)
           | (True, st) \<Rightarrow>
               (case link_read_until_brace LINK_RESP_MAX st of
                  (RFrame buf, st) \<Rightarrow>
                    (case os_alloc (length (cstr buf) + 1) st of
                       (False, st) \<Rightarrow> (None, st)
                     | (True, st) \<Rightarrow> (Some (cstr buf), st))
                | (_, st) \<Rightarrow> (None, link_socket_close st))))"

section \<open>Standard input\<close>

text \<open>
  The loop of \<open>link_read_stdin\<close>.  A chunk that does not fit in \<open>cap - pos\<close> bytes is read
  in pieces; an empty chunk is end of file, as is an exhausted script.
\<close>

fun ev_size :: "inev \<Rightarrow> nat" where
  "ev_size (InData b) = Suc (length b)"
| "ev_size _ = 1"

function stdin_loop :: "nat \<Rightarrow> bytes \<Rightarrow> inev list \<Rightarrow> bool list \<Rightarrow> bytes option \<times> inev list \<times> bool list" where
  "stdin_loop cap buf evs ms =
     (let grow = (length buf = cap);
          nc = min (cap * 2) LINK_BUF_MAX;
          ok = (ms = [] \<or> hd ms);
          cap' = (if grow then nc else cap);
          ms' = (if grow then tl ms else ms)
      in if grow \<and> LINK_BUF_MAX \<le> cap then (None, evs, ms)
         else if grow \<and> \<not> ok then (None, evs, ms')
         else case evs of
                [] \<Rightarrow> (Some buf, [], ms')
              | InErr # r \<Rightarrow> (None, r, ms')
              | InIntr # r \<Rightarrow> stdin_loop cap' buf r ms'
              | InData d # r \<Rightarrow>
                  (let n = min (length d) (cap' - length buf)
                   in if n = 0 then (Some buf, r, ms')
                      else stdin_loop cap' (buf @ take n d)
                             (if n < length d then InData (drop n d) # r else r) ms'))"
  by pat_completeness auto
termination
  by (relation "measure (\<lambda>(cap, buf, evs, ms). sum_list (map ev_size evs))")
     (auto simp: Let_def min_def split: if_splits)

declare stdin_loop.simps [simp del]

definition link_read_stdin :: "link \<Rightarrow> bytes option \<times> link" where
  "link_read_stdin st =
     (case os_alloc LINK_BUF_INIT st of
        (False, st) \<Rightarrow> (None, st)
      | (True, st) \<Rightarrow>
          (case stdin_loop LINK_BUF_INIT [] (input st) (mem st) of
             (r, evs, ms) \<Rightarrow> (r, st\<lparr>input := evs, mem := ms\<rparr>)))"

section \<open>The framing accepts every JSON object\<close>

text \<open>
  The bytes of a JSON value, as far as framing is concerned: string literals, whose
  bodies hide braces and escaped quotes, braces that match, and anything else.
\<close>

inductive strbody :: "string \<Rightarrow> bool" where
  sb_nil: "strbody []"
| sb_plain: "c \<noteq> quote \<Longrightarrow> c \<noteq> backslash \<Longrightarrow> strbody s \<Longrightarrow> strbody (c # s)"
| sb_esc: "strbody s \<Longrightarrow> strbody (backslash # c # s)"

inductive balanced :: "string \<Rightarrow> bool" where
  bal_nil: "balanced []"
| bal_plain: "c \<noteq> quote \<Longrightarrow> c \<noteq> CHR ''{'' \<Longrightarrow> c \<noteq> CHR ''}'' \<Longrightarrow> balanced s \<Longrightarrow> balanced (c # s)"
| bal_string: "strbody b \<Longrightarrow> balanced s \<Longrightarrow> balanced (quote # b @ quote # s)"
| bal_braces: "balanced a \<Longrightarrow> balanced s \<Longrightarrow> balanced (CHR ''{'' # a @ CHR ''}'' # s)"

fun scan_all :: "scan \<Rightarrow> string \<Rightarrow> scan option" where
  "scan_all sc [] = Some sc"
| "scan_all sc (c # cs) =
     (case scan_step sc c of (True, _) \<Rightarrow> None | (False, sc') \<Rightarrow> scan_all sc' cs)"

lemma scan_all_append:
  "scan_all sc (s @ t) = (case scan_all sc s of None \<Rightarrow> None | Some sc' \<Rightarrow> scan_all sc' t)"
  by (induction s arbitrary: sc) (auto split: prod.split bool.split)

definition at_text :: "scan \<Rightarrow> bool" where
  "at_text sc \<longleftrightarrow> \<not> in_string sc \<and> \<not> escaped sc"

lemma quote_neq [simp]: "quote \<noteq> CHR ''{''" "quote \<noteq> CHR ''}''" "quote \<noteq> backslash"
  "backslash \<noteq> quote" "backslash \<noteq> CHR ''{''" "backslash \<noteq> CHR ''}''"
  "CHR ''{'' \<noteq> quote" "CHR ''}'' \<noteq> quote"
  by (simp_all add: quote_def backslash_def)

lemma scan_upd_id [simp]: "\<not> escaped sc \<Longrightarrow> sc\<lparr>escaped := False\<rparr> = sc"
  by (cases sc) simp

lemma scan_all_strbody:
  "strbody b \<Longrightarrow> in_string sc \<Longrightarrow> \<not> escaped sc \<Longrightarrow> scan_all sc b = Some sc"
  by (induction rule: strbody.induct) (simp_all add: scan_step_def)

lemma scan_all_balanced:
  "balanced s \<Longrightarrow> at_text sc \<Longrightarrow> seen_open sc \<Longrightarrow> 1 \<le> depth sc \<Longrightarrow> scan_all sc s = Some sc"
proof (induction arbitrary: sc rule: balanced.induct)
  case (bal_string b s)
  have "scan_all (sc\<lparr>in_string := True\<rparr>) b = Some (sc\<lparr>in_string := True\<rparr>)"
    using bal_string by (intro scan_all_strbody) (auto simp: at_text_def)
  with bal_string show ?case
    by (simp add: scan_step_def scan_all_append at_text_def)
next
  case (bal_braces a s)
  have "scan_all (sc\<lparr>depth := depth sc + 1, seen_open := True\<rparr>) a
      = Some (sc\<lparr>depth := depth sc + 1, seen_open := True\<rparr>)"
    using bal_braces by (intro bal_braces.IH) (auto simp: at_text_def)
  with bal_braces show ?case
    by (simp add: scan_step_def scan_all_append at_text_def)
qed (simp_all add: scan_step_def at_text_def)

text \<open>Interrupted reads are retried and leave no trace.\<close>

lemma read_loop_scan:
  "filter (\<lambda>e. e \<noteq> RdIntr) evs = map RdByte s \<Longrightarrow> scan_all sc s = Some sc' \<Longrightarrow>
   length buf + length s < cap - 1 \<Longrightarrow>
   read_loop cap (evs @ r) buf sc = read_loop cap r (buf @ s) sc'"
proof (induction evs arbitrary: s buf sc)
  case (Cons e evs)
  show ?case
  proof (cases "e = RdIntr")
    case True
    with Cons show ?thesis by simp
  next
    case False
    with Cons.prems(1) obtain c s' where s: "s = c # s'" "e = RdByte c"
      "filter (\<lambda>e. e \<noteq> RdIntr) evs = map RdByte s'" by (cases s) auto
    with Cons.prems(2) obtain sc1 where st: "scan_step sc c = (False, sc1)"
      "scan_all sc1 s' = Some sc'" by (auto split: prod.splits bool.splits)
    have "read_loop cap (evs @ r) (buf @ [c]) sc1 = read_loop cap r ((buf @ [c]) @ s') sc'"
      using Cons.prems(3) s by (intro Cons.IH [OF s(3) st(2)]) simp
    with Cons.prems(3) s st show ?thesis by simp
  qed
qed simp

lemma read_loop_object:
  assumes evs: "filter (\<lambda>e. e \<noteq> RdIntr) evs = map RdByte (w @ CHR ''{'' # a)"
    and w: "\<forall>c \<in> set w. c \<noteq> quote \<and> c \<noteq> CHR ''{'' \<and> c \<noteq> CHR ''}''"
    and a: "balanced a" and len: "length w + length a + 2 < cap"
  shows "read_loop cap (evs @ RdByte CHR ''}'' # r) [] scan_init =
           (RFrame (w @ CHR ''{'' # a @ ''}''), r)"
proof -
  have "scan_all scan_init w = Some scan_init"
    using w by (induction w) (auto simp: scan_step_def scan_init_def)
  moreover let ?sc = "scan_init\<lparr>depth := 1, seen_open := True\<rparr>"
  have sa: "scan_all ?sc a = Some ?sc"
    by (rule scan_all_balanced [OF a]) (simp_all add: at_text_def scan_init_def)
  ultimately have "scan_all scan_init (w @ CHR ''{'' # a) = Some ?sc"
    by (simp add: scan_all_append scan_step_def scan_init_def)
  from read_loop_scan [OF evs this, of "[]" cap] len
  have "read_loop cap (evs @ RdByte CHR ''}'' # r) [] scan_init =
        read_loop cap (RdByte CHR ''}'' # r) (w @ CHR ''{'' # a) ?sc" by simp
  also have "\<dots> = (RFrame (w @ CHR ''{'' # a @ ''}''), r)"
    using len by (simp add: scan_step_def scan_init_def)
  finally show ?thesis .
qed

text \<open>A message never exceeds the buffer, which keeps one byte for the terminator.\<close>

lemma read_loop_length:
  "length buf \<le> cap - 1 \<Longrightarrow> read_loop cap evs buf sc = (RFrame m, r) \<Longrightarrow> length m \<le> cap - 1"
proof (induction cap evs buf sc rule: read_loop.induct)
  case (2 cap ev evs buf sc)
  then show ?case by (auto split: if_splits rdev.splits prod.splits bool.splits)
qed (simp split: if_splits)

section \<open>Frame facts\<close>

lemma link_resolve_socket_path_frame [frameD]:
  "link_resolve_socket_path s = (x, t) \<Longrightarrow> session_of t = session_of s"
  by (auto simp: link_resolve_socket_path_def session_of_def Let_def
      split: option.splits list.splits if_splits)

lemma link_socket_close_frame [simp]: "session_of (link_socket_close s) = session_of s"
  by (simp add: link_socket_close_def session_of_def)

lemma link_sockfd_frame [simp]: "session_of (s\<lparr>link_sockfd := fd\<rparr>) = session_of s"
  by (simp add: session_of_def)

lemma link_socket_connect_frame [frameD]:
  "link_socket_connect s = (x, t) \<Longrightarrow> session_of t = session_of s"
  by (auto simp: link_socket_connect_def dest!: frameD split: prod.splits bool.splits if_splits)

lemma link_write_all_frame [frameD]:
  "link_write_all b s = (x, t) \<Longrightarrow> session_of t = session_of s"
  by (auto simp: link_write_all_def session_of_def split: prod.splits)

lemma link_read_until_brace_frame [frameD]:
  "link_read_until_brace n s = (x, t) \<Longrightarrow> session_of t = session_of s"
  by (auto simp: link_read_until_brace_def session_of_def split: prod.splits)

lemma link_read_stdin_frame [frameD]:
  "link_read_stdin s = (x, t) \<Longrightarrow> session_of t = session_of s"
  by (auto simp: link_read_stdin_def dest!: frameD split: prod.splits bool.splits)
     (simp add: session_of_def)

lemma link_send_request_frame [frameD]:
  "link_send_request json s = (x, t) \<Longrightarrow> session_of t = session_of s"
  by (auto simp: link_send_request_def dest!: frameD
      split: prod.splits bool.splits rframe.splits)

end
