(* ===== verification/Link_Crypto.thy ===== *)
theory Link_Crypto
  imports Link_Transport
begin

text \<open>
  The cryptographic helpers of \<open>Src/Modules/brightlink.c\<close>: the wrappers around OpenSSL
  and libsecp256k1 with the checks they add, and the ECIES envelope built from them.
\<close>

section \<open>Wrappers\<close>

definition link_hkdf_sha256 :: "'p crypto \<Rightarrow> bytes \<Rightarrow> bytes \<Rightarrow> bytes \<Rightarrow> nat \<Rightarrow> bytes option" where
  "link_hkdf_sha256 C ikm salt info out_len =
     (case evp_hkdf C ikm salt info out_len of
        None \<Rightarrow> None
      | Some out \<Rightarrow> if length out \<noteq> out_len then None else Some out)"

definition link_aes_gcm_encrypt ::
    "'p crypto \<Rightarrow> bytes \<Rightarrow> bytes \<Rightarrow> bytes \<Rightarrow> bytes \<Rightarrow> (bytes \<times> bytes) option" where
  "link_aes_gcm_encrypt C key iv aad pt =
     (if length key \<noteq> 32 \<or> length iv \<noteq> LINK_GCM_IV_LEN then None
      else case evp_gcm_seal C key iv aad pt of
             None \<Rightarrow> None
           | Some (ct, tag) \<Rightarrow> if length ct \<noteq> length pt then None else Some (ct, tag))"

definition link_aes_gcm_decrypt ::
    "'p crypto \<Rightarrow> bytes \<Rightarrow> bytes \<Rightarrow> bytes \<Rightarrow> bytes \<Rightarrow> bytes \<Rightarrow> bytes option" where
  "link_aes_gcm_decrypt C key iv aad ct tag =
     (if length key \<noteq> 32 \<or> length iv \<noteq> LINK_GCM_IV_LEN then None
      else case evp_gcm_open C key iv aad ct tag of
             None \<Rightarrow> None
           | Some pt \<Rightarrow> if length pt \<noteq> length ct then None else Some pt)"

definition link_verify_p256_signature :: "'p crypto \<Rightarrow> bytes \<Rightarrow> bytes \<Rightarrow> bytes \<Rightarrow> bool" where
  "link_verify_p256_signature C sep_pub65 transcript sig_der =
     (if sep_pub65 = [] \<or> hd sep_pub65 \<noteq> CHR 0x04 then False
      else evp_p256_verify C sep_pub65 transcript sig_der)"

text \<open>
  The context is created once; creation draws 32 random bytes for blinding and goes on
  when that fails.
\<close>

definition link_secp :: "link \<Rightarrow> bool \<times> link" where
  "link_secp st =
     (if link_secp_ctx st then (True, st)
      else case os_alloc 0 st of
             (False, st) \<Rightarrow> (False, st)
           | (True, st) \<Rightarrow>
               (case os_rand 32 (st\<lparr>link_secp_ctx := True\<rparr>) of (_, st) \<Rightarrow> (True, st)))"

fun random_priv_loop :: "'p crypto \<Rightarrow> nat \<Rightarrow> link \<Rightarrow> bytes option \<times> link" where
  "random_priv_loop C 0 st = (None, st)"
| "random_priv_loop C (Suc attempts) st =
     (case os_rand 32 st of
        (None, st) \<Rightarrow> (None, st)
      | (Some priv, st) \<Rightarrow>
          if secp_seckey_verify C priv then (Some priv, st)
          else random_priv_loop C attempts st)"

definition link_secp_random_priv :: "'p crypto \<Rightarrow> link \<Rightarrow> bytes option \<times> link" where
  "link_secp_random_priv C st =
     (case link_secp st of
        (False, st) \<Rightarrow> (None, st)
      | (True, st) \<Rightarrow> random_priv_loop C 16 st)"

definition link_secp_pub_uncompressed :: "'p crypto \<Rightarrow> bytes \<Rightarrow> link \<Rightarrow> bytes option \<times> link" where
  "link_secp_pub_uncompressed C priv st =
     (case link_secp st of
        (False, st) \<Rightarrow> (None, st)
      | (True, st) \<Rightarrow>
          (case secp_pubkey_create C priv of
             None \<Rightarrow> (None, st)
           | Some pk \<Rightarrow>
               (case secp_pubkey_serialize C False pk of
                  None \<Rightarrow> (None, st)
                | Some out \<Rightarrow>
                    (if length out = LINK_PUB_UNCOMPRESSED then Some out else None, st))))"

definition link_secp_pub_compressed :: "'p crypto \<Rightarrow> bytes \<Rightarrow> link \<Rightarrow> bytes option \<times> link" where
  "link_secp_pub_compressed C priv st =
     (case link_secp st of
        (False, st) \<Rightarrow> (None, st)
      | (True, st) \<Rightarrow>
          (case secp_pubkey_create C priv of
             None \<Rightarrow> (None, st)
           | Some pk \<Rightarrow>
               (case secp_pubkey_serialize C True pk of
                  None \<Rightarrow> (None, st)
                | Some out \<Rightarrow>
                    (if length out = LINK_PUB_COMPRESSED then Some out else None, st))))"

text \<open>The callback given to \<open>secp256k1_ecdh\<close>: the x coordinate as it is.\<close>

definition link_secp_ecdh_xonly_cb :: "bytes \<Rightarrow> bytes \<Rightarrow> bytes" where
  "link_secp_ecdh_xonly_cb x32 y32 = x32"

definition secp_ecdh :: "'p crypto \<Rightarrow> 'p \<Rightarrow> bytes \<Rightarrow> bytes option" where
  "secp_ecdh C pk priv =
     map_option (\<lambda>(x, y). link_secp_ecdh_xonly_cb x y) (secp_ecdh_point C pk priv)"

section \<open>ECIES envelope\<close>

definition DD_ECIES_HKDF_INFO :: bytes where
  "DD_ECIES_HKDF_INFO = ''ecies-v2-key-derivation''"

definition ecies_aad :: "bytes \<Rightarrow> bytes" where
  "ecies_aad eph_pub = [CHR 0x01, CHR 0x01, CHR 0x21] @ eph_pub"

definition link_ecies_encrypt ::
    "'p crypto \<Rightarrow> bytes \<Rightarrow> bytes \<Rightarrow> link \<Rightarrow> bytes option \<times> link" where
  "link_ecies_encrypt C recipient_pub65 plaintext st =
     (case link_secp_random_priv C st of
        (None, st) \<Rightarrow> (None, st)
      | (Some eph_priv, st) \<Rightarrow>
     (case link_secp_pub_compressed C eph_priv st of
        (None, st) \<Rightarrow> (None, st)
      | (Some eph_pub, st) \<Rightarrow>
     (case link_secp st of (_, st) \<Rightarrow>
     (case secp_pubkey_parse C recipient_pub65 of
        None \<Rightarrow> (None, st)
      | Some peer_pk \<Rightarrow>
     (case secp_ecdh C peer_pk eph_priv of
        None \<Rightarrow> (None, st)
      | Some shared_x \<Rightarrow>
     (case link_hkdf_sha256 C shared_x [] DD_ECIES_HKDF_INFO 32 of
        None \<Rightarrow> (None, st)
      | Some aes_key \<Rightarrow>
     (case os_rand LINK_GCM_IV_LEN st of
        (None, st) \<Rightarrow> (None, st)
      | (Some iv, st) \<Rightarrow>
     (case os_alloc (length plaintext) st of
        (False, st) \<Rightarrow> (None, st)
      | (True, st) \<Rightarrow>
     (case link_aes_gcm_encrypt C aes_key iv (ecies_aad eph_pub) plaintext of
        None \<Rightarrow> (None, st)
      | Some (ct, tag) \<Rightarrow>
     (case os_alloc (64 + length plaintext) st of
        (False, st) \<Rightarrow> (None, st)
      | (True, st) \<Rightarrow>
          (Some ([CHR 0x01, CHR 0x01, CHR 0x21] @ eph_pub @ iv @ tag @ ct), st)))))))))))"

definition link_ecies_decrypt ::
    "'p crypto \<Rightarrow> bytes \<Rightarrow> bytes \<Rightarrow> link \<Rightarrow> bytes option \<times> link" where
  "link_ecies_decrypt C recipient_priv32 envelope st =
     (if length envelope < 64 then (None, st)
      else if envelope ! 0 \<noteq> CHR 0x01 then (None, st)
      else if envelope ! 1 \<noteq> CHR 0x01 then (None, st)
      else if envelope ! 2 \<noteq> CHR 0x21 then (None, st)
      else if envelope ! 3 \<noteq> CHR 0x02 \<and> envelope ! 3 \<noteq> CHR 0x03 then (None, st)
      else
        let eph_pub = take 33 (drop 3 envelope);
            iv = take 12 (drop 36 envelope);
            tag = take 16 (drop 48 envelope);
            ct = drop 64 envelope
        in (case link_secp st of (_, st) \<Rightarrow>
           (case secp_pubkey_parse C eph_pub of
              None \<Rightarrow> (None, st)
            | Some peer_pk \<Rightarrow>
           (case secp_ecdh C peer_pk recipient_priv32 of
              None \<Rightarrow> (None, st)
            | Some shared_x \<Rightarrow>
           (case link_hkdf_sha256 C shared_x [] DD_ECIES_HKDF_INFO 32 of
              None \<Rightarrow> (None, st)
            | Some aes_key \<Rightarrow>
           (case os_alloc (length ct) st of
              (False, st) \<Rightarrow> (None, st)
            | (True, st) \<Rightarrow>
                (link_aes_gcm_decrypt C aes_key iv (ecies_aad eph_pub) ct tag, st)))))))"

section \<open>Lengths and frames\<close>

lemma link_hkdf_sha256_length: "link_hkdf_sha256 C ikm salt info n = Some k \<Longrightarrow> length k = n"
  by (auto simp: link_hkdf_sha256_def split: option.splits if_splits)

lemma link_aes_gcm_encrypt_SomeD:
  "link_aes_gcm_encrypt C key iv aad pt = Some (ct, tag) \<Longrightarrow>
   length key = 32 \<and> length iv = 12 \<and> length ct = length pt \<and>
   evp_gcm_seal C key iv aad pt = Some (ct, tag)"
  by (auto simp: link_aes_gcm_encrypt_def split: if_splits option.splits prod.splits)

lemma random_priv_loop_length:
  "random_priv_loop C n st = (Some p, st') \<Longrightarrow> length p = 32 \<and> secp_seckey_verify C p"
  by (induction C n st rule: random_priv_loop.induct)
     (auto dest: os_rand_length split: prod.splits option.splits if_splits)

lemma link_secp_frame [frameD]: "link_secp s = (x, t) \<Longrightarrow> session_of t = session_of s"
  by (auto simp: link_secp_def dest!: frameD split: prod.splits bool.splits if_splits)
     (simp_all add: session_of_def)

lemma random_priv_loop_frame [frameD]:
  "random_priv_loop C n s = (x, t) \<Longrightarrow> session_of t = session_of s"
  by (induction C n s arbitrary: x t rule: random_priv_loop.induct)
     (force dest!: os_rand_frame split: prod.splits option.splits if_splits)+

lemma link_secp_random_priv_frame [frameD]:
  "link_secp_random_priv C s = (x, t) \<Longrightarrow> session_of t = session_of s"
  by (auto simp: link_secp_random_priv_def dest!: frameD split: prod.splits bool.splits)

lemma link_secp_pub_frame [frameD]:
  "link_secp_pub_uncompressed C p s = (x, t) \<Longrightarrow> session_of t = session_of s"
  "link_secp_pub_compressed C p s = (x, t) \<Longrightarrow> session_of t = session_of s"
  by (auto simp: link_secp_pub_uncompressed_def link_secp_pub_compressed_def dest!: frameD
      split: prod.splits bool.splits option.splits)

lemma link_ecies_encrypt_frame [frameD]:
  "link_ecies_encrypt C r p s = (x, t) \<Longrightarrow> session_of t = session_of s"
  by (auto simp: link_ecies_encrypt_def dest!: frameD split: prod.splits bool.splits option.splits)

lemma link_ecies_decrypt_frame [frameD]:
  "link_ecies_decrypt C r p s = (x, t) \<Longrightarrow> session_of t = session_of s"
  by (auto simp: link_ecies_decrypt_def Let_def dest!: frameD
      split: prod.splits bool.splits option.splits if_splits)

end
