(* ===== verification/Link_Session.thy ===== *)
theory Link_Session
  imports Link_Crypto
begin

text \<open>
  The session of \<open>Src/Modules/brightlink.c\<close>: fetching the bridge's keys, the
  registration handshake in its numbered stages, the encrypted delivery, the
  \<open>bsh-inject\<close> builtin and the module's clean-up.  A failing stage is \<open>Inl\<close> of the
  message stored through \<open>errmsg\<close>, if the code stores one.
\<close>

type_synonym 'a res = "string option + 'a"

section \<open>The bridge's keys\<close>

definition parse_pub65 :: "'p crypto \<Rightarrow> string \<Rightarrow> link \<Rightarrow> bytes option \<times> link" where
  "parse_pub65 C resp st =
     (case link_json_field_b64 C resp ''publicKey'' LINK_PUB_UNCOMPRESSED st of
        (None, st) \<Rightarrow> (None, st)
      | (Some out65, st) \<Rightarrow>
          (if length out65 = LINK_PUB_UNCOMPRESSED \<and> hd out65 = CHR 0x04
           then Some out65 else None, st))"

definition link_get_bridge_pubkey :: "'p crypto \<Rightarrow> link \<Rightarrow> bytes option \<times> link" where
  "link_get_bridge_pubkey C st =
     (case link_send_request
             (CHR ''{'' # quote # ''cmd'' @ [quote, CHR '':'', quote] @ ''GET_PUBLIC_KEY''
              @ [quote, CHR ''}'']) st of
        (None, st) \<Rightarrow> (None, st)
      | (Some resp, st) \<Rightarrow> parse_pub65 C resp st)"

definition link_get_bridge_sep_pub :: "'p crypto \<Rightarrow> link \<Rightarrow> bytes option \<times> link" where
  "link_get_bridge_sep_pub C st =
     (case link_send_request
             (CHR ''{'' # quote # ''cmd'' @ [quote, CHR '':'', quote] @ ''GET_ENCLAVE_PUBLIC_KEY''
              @ [quote, CHR ''}'']) st of
        (None, st) \<Rightarrow> (None, st)
      | (Some resp, st) \<Rightarrow> parse_pub65 C resp st)"

text \<open>Stage 1 of \<open>link_register_if_needed\<close>, with the check against the pinned key.\<close>

definition register_keys :: "'p crypto \<Rightarrow> link \<Rightarrow> (bytes \<times> bytes) res \<times> link" where
  "register_keys C st =
     (case link_get_bridge_pubkey C st of
        (None, st) \<Rightarrow> (Inl (Some ''GET_PUBLIC_KEY failed''), st)
      | (Some bridge_pub, st) \<Rightarrow>
     (case link_get_bridge_sep_pub C st of
        (None, st) \<Rightarrow> (Inl (Some ''GET_ENCLAVE_PUBLIC_KEY failed''), st)
      | (Some sep_pub, st) \<Rightarrow>
          if link_pinned_sep_pub_set st \<and> sep_pub \<noteq> link_pinned_sep_pub st
          then (Inl (Some ''SEP key changed since pinned (TOFU mismatch)''), st)
          else (Inr (bridge_pub, sep_pub), st)))"

section \<open>The client's half\<close>

record hello =
  h_nonce :: bytes
  h_share :: bytes
  h_priv :: bytes
  h_pub :: bytes
  h_bd :: rat

text \<open>Stage 2.\<close>

definition register_material :: "'p crypto \<Rightarrow> link \<Rightarrow> hello res \<times> link" where
  "register_material C st =
     (let failed = Inl (Some ''RNG / secp256k1 setup failed'')
      in case os_rand LINK_CLIENT_NONCE_LEN st of
        (None, st) \<Rightarrow> (failed, st)
      | (Some client_nonce, st) \<Rightarrow>
     (case os_rand LINK_SHARE_LEN st of
        (None, st) \<Rightarrow> (failed, st)
      | (Some client_share, st) \<Rightarrow>
     (case link_secp_random_priv C st of
        (None, st) \<Rightarrow> (failed, st)
      | (Some eph_priv, st) \<Rightarrow>
     (case link_secp_pub_uncompressed C eph_priv st of
        (None, st) \<Rightarrow> (failed, st)
      | (Some eph_pub, st) \<Rightarrow>
     (case os_time st of (now, st) \<Rightarrow>
        (Inr \<lparr>h_nonce = client_nonce, h_share = client_share, h_priv = eph_priv,
              h_pub = eph_pub, h_bd = ddiv (of_nat now) 86400\<rparr>, st))))))"

definition jkey :: "string \<Rightarrow> string" where
  "jkey k = quote # k @ [quote, CHR '':'']"

definition jstr :: "string \<Rightarrow> string" where
  "jstr v = quote # v @ [quote]"

text \<open>
  The format string of stage 3.  The two encodings go into local buffers of 128 and 64
  bytes whose result code is not looked at; 65 and 32 bytes always fit.
\<close>

definition register_plaintext :: "'p crypto \<Rightarrow> hello \<Rightarrow> string" where
  "register_plaintext C h =
     (let pub_b64 = (case link_b64encode C (h_pub h) 128 of Some e \<Rightarrow> e | None \<Rightarrow> []);
          share_b64 = (case link_b64encode C (h_share h) 64 of Some e \<Rightarrow> e | None \<Rightarrow> [])
      in ''{'' @ jkey ''v'' @ ''1,''
         @ jkey ''clientPub'' @ jstr pub_b64 @ '',''
         @ jkey ''clientShare'' @ jstr share_b64 @ '',''
         @ jkey ''issuedAtBd'' @ fmt6 (h_bd h) @ '',''
         @ jkey ''ttlSeconds'' @ dec LINK_DEFAULT_TTL_SECONDS @ '',''
         @ jkey ''agent'' @ ''{'' @ jkey ''name'' @ jstr ''bsh'' @ '',''
         @ jkey ''version'' @ jstr ''5.11.2'' @ '',''
         @ jkey ''platform'' @ jstr ''brightlink-v1-c'' @ ''}}'')"

text \<open>Stages 3 and 4 up to the request text.\<close>

definition register_request :: "'p crypto \<Rightarrow> bytes \<Rightarrow> hello \<Rightarrow> link \<Rightarrow> string res \<times> link" where
  "register_request C bridge_pub h st =
     (let plaintext_json = register_plaintext C h
      in if 1024 \<le> length plaintext_json then (Inl (Some ''plaintext JSON overflow''), st)
      else case link_ecies_encrypt C bridge_pub plaintext_json st of
        (None, st) \<Rightarrow> (Inl (Some ''ECIES encrypt failed''), st)
      | (Some envelope, st) \<Rightarrow>
     (let env_b64_cap = 4 * ((length envelope + 2) div 3) + 1;
          failed = Inl (Some ''base64 encode failed'')
      in case os_alloc env_b64_cap st of
        (False, st) \<Rightarrow> (failed, st)
      | (True, st) \<Rightarrow>
     (case link_b64encode C envelope env_b64_cap of
        None \<Rightarrow> (failed, st)
      | Some env_b64 \<Rightarrow>
     (case link_b64encode C (h_nonce h) 32 of
        None \<Rightarrow> (failed, st)
      | Some nonce_b64 \<Rightarrow>
     (let req_cap = length env_b64 + 256
      in case os_alloc req_cap st of
        (False, st) \<Rightarrow> (Inl None, st)
      | (True, st) \<Rightarrow>
          (let request = ''{'' @ jkey ''cmd'' @ jstr ''LINK_REGISTER'' @ '',''
                 @ jkey ''protocolVersion'' @ ''1,''
                 @ jkey ''clientNonce'' @ jstr nonce_b64 @ '',''
                 @ jkey ''envelope'' @ jstr env_b64 @ ''}''
           in if req_cap \<le> length request then (Inl None, st)
              else (Inr request, st)))))))"

section \<open>The bridge's half\<close>

record bridge_half =
  w_issued_at :: int
  w_ttl :: int
  w_session_id :: bytes
  w_share :: bytes

text \<open>Stage 5.\<close>

definition register_response :: "'p crypto \<Rightarrow> bytes \<Rightarrow> string \<Rightarrow> link \<Rightarrow> bridge_half res \<times> link" where
  "register_response C eph_priv resp st =
     (case (link_json_field_int resp ''bridgeIssuedAtUnix'', link_json_field_int resp ''ttlSeconds'') of
        (Some bridge_issued_at, Some granted_ttl) \<Rightarrow>
     (case link_json_field_b64 C resp ''sessionId'' LINK_SESSION_ID_LEN st of
        (None, st) \<Rightarrow> (Inl (Some ''LINK_REGISTER bad sessionId''), st)
      | (Some session_id, st) \<Rightarrow>
      if length session_id \<noteq> LINK_SESSION_ID_LEN
      then (Inl (Some ''LINK_REGISTER bad sessionId''), st)
      else
     (let cap = length resp + 1
      in case os_alloc cap st of
        (False, st) \<Rightarrow> (Inl None, st)
      | (True, st) \<Rightarrow>
     (case link_json_field_str resp ''responseEnvelope'' cap of
        (False, _) \<Rightarrow> (Inl (Some ''LINK_REGISTER missing responseEnvelope''), st)
      | (True, resp_env_b64) \<Rightarrow>
     (case os_alloc cap st of
        (False, st) \<Rightarrow> (Inl None, st)
      | (True, st) \<Rightarrow>
     (case link_b64decode C (cstr resp_env_b64) cap st of
        (None, st) \<Rightarrow> (Inl (Some ''responseEnvelope b64 decode failed''), st)
      | (Some resp_envelope, st) \<Rightarrow>
     (case link_ecies_decrypt C eph_priv resp_envelope st of
        (None, st) \<Rightarrow> (Inl (Some ''responseEnvelope decrypt failed''), st)
      | (Some bridge_share, st) \<Rightarrow>
          if length bridge_share \<noteq> LINK_SHARE_LEN
          then (Inl (Some ''responseEnvelope decrypt failed''), st)
          else (Inr \<lparr>w_issued_at = bridge_issued_at, w_ttl = granted_ttl,
                     w_session_id = session_id, w_share = bridge_share\<rparr>, st)))))))
      | _ \<Rightarrow> (Inl (Some ''LINK_REGISTER response missing fields''), st))"

section \<open>Key derivation and verification\<close>

definition LINK_HKDF_INFO :: bytes where
  "LINK_HKDF_INFO = ''brightlink-session-key-v1''"

text \<open>Stages 6 and 7: the session key, and the signature over the transcript.\<close>

definition register_verify ::
    "'p crypto \<Rightarrow> bytes \<Rightarrow> hello \<Rightarrow> bridge_half \<Rightarrow> string \<Rightarrow> link \<Rightarrow> bytes res \<times> link" where
  "register_verify C sep_pub h w resp st =
     (let ikm = h_share h @ w_share w;
          salt = h_nonce h @ w_session_id w
      in case link_hkdf_sha256 C ikm salt LINK_HKDF_INFO LINK_SESSION_KEY_LEN of
        None \<Rightarrow> (Inl (Some ''HKDF derive failed''), st)
      | Some k_session \<Rightarrow>
     (case link_build_transcript (h_nonce h) (h_pub h) (h_share h) (w_session_id w) (w_share w)
             (h_bd h) (of_int (w_issued_at w)) (of_int (w_ttl w)) of
        None \<Rightarrow> (Inl (Some ''transcript build failed''), st)
      | Some transcript \<Rightarrow>
     (case link_json_field_str resp ''transcriptSig'' 1024 of
        (False, _) \<Rightarrow> (Inl (Some ''missing transcriptSig''), st)
      | (True, sig_b64) \<Rightarrow>
     (case link_b64decode C (cstr sig_b64) 256 st of
        (None, st) \<Rightarrow> (Inl (Some ''transcriptSig b64 decode failed''), st)
      | (Some sig_der, st) \<Rightarrow>
          if link_verify_p256_signature C sep_pub transcript sig_der
          then (Inr k_session, st)
          else (Inl (Some ''transcript signature verify failed''), st)))))"

text \<open>Stages 8 and 9.\<close>

definition register_commit :: "bytes \<Rightarrow> bytes \<Rightarrow> bytes \<Rightarrow> link \<Rightarrow> link" where
  "register_commit sep_pub session_id k_session st =
     (let st = (if link_pinned_sep_pub_set st then st
                else st\<lparr>link_pinned_sep_pub := sep_pub, link_pinned_sep_pub_set := True\<rparr>)
      in st\<lparr>link_session_id := session_id, link_session_key := k_session,
            link_session_id_set := True, link_session_key_set := True,
            link_session_active := True,
            link_c_shell_to_agent := 0, link_c_agent_to_shell := 0\<rparr>)"

definition link_register_if_needed :: "'p crypto \<Rightarrow> link \<Rightarrow> unit res \<times> link" where
  "link_register_if_needed C st =
     (if link_session_active st then (Inr (), st)
      else case register_keys C st of
        (Inl e, st) \<Rightarrow> (Inl e, st)
      | (Inr (bridge_pub, sep_pub), st) \<Rightarrow>
     (case register_material C st of
        (Inl e, st) \<Rightarrow> (Inl e, st)
      | (Inr h, st) \<Rightarrow>
     (case register_request C bridge_pub h st of
        (Inl e, st) \<Rightarrow> (Inl e, st)
      | (Inr request, st) \<Rightarrow>
     (case link_send_request request st of
        (None, st) \<Rightarrow> (Inl (Some ''LINK_REGISTER transport failed''), st)
      | (Some resp, st) \<Rightarrow>
     (case register_response C (h_priv h) resp st of
        (Inl e, st) \<Rightarrow> (Inl e, st)
      | (Inr w, st) \<Rightarrow>
     (case register_verify C sep_pub h w resp st of
        (Inl e, st) \<Rightarrow> (Inl e, st)
      | (Inr k_session, st) \<Rightarrow>
          (Inr (), register_commit sep_pub (w_session_id w) k_session st)))))))"

section \<open>Delivery\<close>

text \<open>The request text; the buffer is 256 bytes larger than its three long fields.\<close>

definition deliver_json :: "64 word \<Rightarrow> string \<Rightarrow> string \<Rightarrow> string \<Rightarrow> string \<Rightarrow> string \<Rightarrow> string" where
  "deliver_json counter type_esc ctx_esc iv_b64 ct_b64 tag_b64 =
     ''{'' @ jkey ''cmd'' @ jstr ''LINK_DELIVER'' @ '',''
     @ jkey ''counter'' @ dec (unat counter) @ '',''
     @ jkey ''type'' @ jstr type_esc @ '',''
     @ jkey ''context'' @ jstr ctx_esc @ '',''
     @ jkey ''iv'' @ jstr iv_b64 @ '',''
     @ jkey ''ciphertext'' @ jstr ct_b64 @ '',''
     @ jkey ''authTag'' @ jstr tag_b64 @ ''}''"

text \<open>
  The part of \<open>link_emit_deliver\<close> before sending: it encrypts the body and produces the
  request.
\<close>

definition deliver_request ::
    "'p crypto \<Rightarrow> 64 word \<Rightarrow> string \<Rightarrow> bytes \<Rightarrow> bytes \<Rightarrow> link \<Rightarrow> string res \<times> link" where
  "deliver_request C counter type context plaintext st =
     (if \<not> link_session_key_set st \<or> \<not> link_session_id_set st
      then (Inl (Some ''session not registered''), st)
      else case link_build_deliver_aad (CHR 0x01) (link_be64 counter) type context 2048 of
        None \<Rightarrow> (Inl (Some ''AAD build failed''), st)
      | Some aad \<Rightarrow>
     (case os_rand LINK_GCM_IV_LEN st of
        (None, st) \<Rightarrow> (Inl (Some ''RNG failed''), st)
      | (Some iv, st) \<Rightarrow>
     (case os_alloc (length plaintext) st of
        (False, st) \<Rightarrow> (Inl (Some ''oom''), st)
      | (True, st) \<Rightarrow>
     (case link_aes_gcm_encrypt C (link_session_key st) iv aad plaintext of
        None \<Rightarrow> (Inl (Some ''AES-GCM encrypt failed''), st)
      | Some (ct, tag) \<Rightarrow>
     (let ct_b64_cap = 4 * ((length plaintext + 2) div 3) + 1;
          failed = Inl (Some ''base64 encode failed'')
      in case os_alloc ct_b64_cap st of
        (False, st) \<Rightarrow> (failed, st)
      | (True, st) \<Rightarrow>
     (case (link_b64encode C iv 32, link_b64encode C tag 32, link_b64encode C ct ct_b64_cap) of
        (Some iv_b64, Some tag_b64, Some ct_b64) \<Rightarrow>
     (case os_alloc (6 * length type + 1) st of (type_ok, st) \<Rightarrow>
     (case os_alloc (6 * length context + 1) st of (ctx_ok, st) \<Rightarrow>
      if \<not> type_ok \<or> \<not> ctx_ok then (Inl (Some ''oom''), st)
      else
     (let type_esc = json_esc type; ctx_esc = json_esc context;
          req_cap = length ct_b64 + length type_esc + length ctx_esc + 256
      in case os_alloc req_cap st of
        (False, st) \<Rightarrow> (Inl (Some ''oom''), st)
      | (True, st) \<Rightarrow>
          (let req = deliver_json counter type_esc ctx_esc iv_b64 ct_b64 tag_b64
           in if req_cap \<le> length req then (Inl (Some ''request JSON overflow''), st)
              else (Inr req, st)))))
      | _ \<Rightarrow> (failed, st)))))))"

definition link_emit_deliver ::
    "'p crypto \<Rightarrow> 64 word \<Rightarrow> string \<Rightarrow> bytes \<Rightarrow> bytes \<Rightarrow> link \<Rightarrow> unit res \<times> link" where
  "link_emit_deliver C counter type context plaintext st =
     (case deliver_request C counter type context plaintext st of
        (Inl e, st) \<Rightarrow> (Inl e, st)
      | (Inr req, st) \<Rightarrow>
     (case link_send_request req st of
        (None, st) \<Rightarrow> (Inl (Some ''LINK_DELIVER transport failed''), st)
      | (Some resp, st) \<Rightarrow>
          if strstr resp (jstr ''error'') \<noteq> None
          then (let err = cstr (snd (link_json_field_str resp ''error'' 256))
                in (Inl (Some (if err \<noteq> [] then err else ''LINK_DELIVER rejected'')), st))
          else (Inr (), st)))"

section \<open>The builtin and the module's end\<close>

text \<open>\<open>argv\<close> with its terminating NULL is the list; \<open>Inl\<close> is the unknown argument.\<close>

fun inject_args :: "string list \<Rightarrow> string option \<Rightarrow> string option \<Rightarrow>
    string + (string option \<times> string option)" where
  "inject_args [] type context = Inr (type, context)"
| "inject_args (a # b # r) type context =
     (if a = ''--type'' then inject_args r (Some b) context
      else if a = ''--context'' then inject_args r type (Some b)
      else Inl a)"
| "inject_args [a] type context = Inl a"

definition bin_bsh_inject :: "'p crypto \<Rightarrow> string \<Rightarrow> string list \<Rightarrow> link \<Rightarrow> int \<times> link" where
  "bin_bsh_inject C nam argv st =
     (case inject_args argv None None of
        Inl a \<Rightarrow> (1, eprintf (nam @ '': unknown argument: '' @ a @ [CHR 0x0A]) st)
      | Inr (Some type, Some context) \<Rightarrow>
     (case link_read_stdin st of
        (None, st) \<Rightarrow> (1, eprintf (nam @ '': stdin read failed or exceeded ''
                                 @ dec LINK_BUF_MAX @ '' bytes'' @ [CHR 0x0A]) st)
      | (Some body, st) \<Rightarrow>
     (case link_register_if_needed C st of
        (Inl err, st) \<Rightarrow>
          (1, eprintf (nam @ '': LINK_REGISTER failed: ''
                       @ (case err of Some e \<Rightarrow> e | None \<Rightarrow> ''unknown'') @ [CHR 0x0A]) st)
      | (Inr _, st) \<Rightarrow>
     (let counter = link_c_shell_to_agent st + 1;
          st = st\<lparr>link_c_shell_to_agent := counter\<rparr>
      in case link_emit_deliver C counter type context body st of
        (Inl err, st) \<Rightarrow>
          (let st = eprintf (nam @ '': LINK_DELIVER failed: ''
                       @ (case err of Some e \<Rightarrow> e | None \<Rightarrow> ''unknown'') @ [CHR 0x0A]) st
           in (1, st\<lparr>link_c_shell_to_agent := link_c_shell_to_agent st - 1\<rparr>))
      | (Inr _, st) \<Rightarrow> (0, st))))
      | Inr _ \<Rightarrow> (1, eprintf (nam @ '': --type and --context are required'' @ [CHR 0x0A]) st))"

definition link_finish :: "link \<Rightarrow> link" where
  "link_finish st =
     (link_socket_close st)
       \<lparr>link_session_key := replicate LINK_SESSION_KEY_LEN NUL,
        link_session_id := replicate LINK_SESSION_ID_LEN NUL,
        link_session_active := False, link_session_key_set := False,
        link_session_id_set := False, link_secp_ctx := False\<rparr>"

section \<open>Frames of the stages\<close>

lemma parse_pub65_frame [frameD]: "parse_pub65 C r s = (x, t) \<Longrightarrow> session_of t = session_of s"
  by (auto simp: parse_pub65_def dest!: frameD split: prod.splits option.splits)

lemma link_get_bridge_pubkey_frame [frameD]:
  "link_get_bridge_pubkey C s = (x, t) \<Longrightarrow> session_of t = session_of s"
  by (auto simp: link_get_bridge_pubkey_def dest!: frameD split: prod.splits option.splits)

lemma link_get_bridge_sep_pub_frame [frameD]:
  "link_get_bridge_sep_pub C s = (x, t) \<Longrightarrow> session_of t = session_of s"
  by (auto simp: link_get_bridge_sep_pub_def dest!: frameD split: prod.splits option.splits)

lemma register_keys_frame [frameD]:
  "register_keys C s = (x, t) \<Longrightarrow> session_of t = session_of s"
  by (auto simp: register_keys_def dest!: frameD split: prod.splits option.splits if_splits)

lemma register_material_frame [frameD]:
  "register_material C s = (x, t) \<Longrightarrow> session_of t = session_of s"
  by (auto simp: register_material_def Let_def dest!: frameD split: prod.splits option.splits)

lemma register_request_frame [frameD]:
  "register_request C b h s = (x, t) \<Longrightarrow> session_of t = session_of s"
  by (auto simp: register_request_def Let_def dest!: frameD
      split: prod.splits option.splits if_splits bool.splits)

lemma register_response_frame [frameD]:
  "register_response C p r s = (x, t) \<Longrightarrow> session_of t = session_of s"
  by (auto simp: register_response_def Let_def dest!: frameD
      split: prod.splits option.splits if_splits bool.splits)

lemma register_verify_frame [frameD]:
  "register_verify C k h w r s = (x, t) \<Longrightarrow> session_of t = session_of s"
  by (auto simp: register_verify_def Let_def dest!: frameD
      split: prod.splits option.splits if_splits bool.splits)

lemma deliver_request_frame [frameD]:
  "deliver_request C n ty cx b s = (x, t) \<Longrightarrow> session_of t = session_of s"
  by (auto simp: deliver_request_def Let_def dest!: frameD
      split: prod.splits option.splits if_splits bool.splits)

lemma link_emit_deliver_frame [frameD]:
  "link_emit_deliver C n ty cx b s = (x, t) \<Longrightarrow> session_of t = session_of s"
  by (auto simp: link_emit_deliver_def Let_def dest!: frameD
      split: prod.splits option.splits sum.splits if_splits)

lemma session_of_eqD:
  "session_of t = session_of s \<Longrightarrow>
     link_session_active t = link_session_active s \<and>
     link_session_id t = link_session_id s \<and> link_session_key t = link_session_key s \<and>
     link_session_id_set t = link_session_id_set s \<and>
     link_session_key_set t = link_session_key_set s \<and>
     link_c_shell_to_agent t = link_c_shell_to_agent s \<and>
     link_c_agent_to_shell t = link_c_agent_to_shell s \<and>
     link_pinned_sep_pub t = link_pinned_sep_pub s \<and>
     link_pinned_sep_pub_set t = link_pinned_sep_pub_set s"
  by (simp add: session_of_def)

section \<open>What each stage guarantees\<close>

lemma parse_pub65_length:
  "parse_pub65 C r s = (Some k, t) \<Longrightarrow> length k = 65 \<and> hd k = CHR 0x04"
  by (auto simp: parse_pub65_def split: prod.splits option.splits if_splits)

lemma get_bridge_keys_length:
  "link_get_bridge_pubkey C s = (Some k, t) \<Longrightarrow> length k = 65"
  "link_get_bridge_sep_pub C s = (Some k, t) \<Longrightarrow> length k = 65"
  by (auto simp: link_get_bridge_pubkey_def link_get_bridge_sep_pub_def
      dest: parse_pub65_length split: prod.splits option.splits)

lemma register_keys_Inr:
  assumes "register_keys C s = (Inr (b, k), t)"
  shows "length b = 65 \<and> length k = 65 \<and>
   (link_pinned_sep_pub_set s \<longrightarrow> k = link_pinned_sep_pub s)"
proof -
  from assms obtain s1 where
    1: "link_get_bridge_pubkey C s = (Some b, s1)" and
    2: "link_get_bridge_sep_pub C s1 = (Some k, t)" and
    3: "\<not> (link_pinned_sep_pub_set t \<and> k \<noteq> link_pinned_sep_pub t)"
    by (auto simp: register_keys_def split: prod.splits option.splits if_splits)
  have "session_of t = session_of s" using 1 2 by (auto dest!: frameD)
  from session_of_eqD [OF this] get_bridge_keys_length(1) [OF 1] get_bridge_keys_length(2) [OF 2] 3
  show ?thesis by simp
qed

lemma register_material_Inr:
  "register_material C s = (Inr h, t) \<Longrightarrow>
   length (h_nonce h) = 16 \<and> length (h_share h) = 32 \<and> length (h_pub h) = 65"
  by (auto simp: register_material_def Let_def link_secp_pub_uncompressed_def
      dest!: os_rand_length split: prod.splits option.splits bool.splits if_splits)

lemma register_response_Inr:
  "register_response C p r s = (Inr w, t) \<Longrightarrow>
   length (w_session_id w) = 16 \<and> length (w_share w) = 32"
  by (auto simp: register_response_def Let_def
      split: prod.splits option.splits if_splits bool.splits)

lemma register_verify_Inr:
  "register_verify C k h w r s = (Inr key, t) \<Longrightarrow>
   length key = 32 \<and>
   link_hkdf_sha256 C (h_share h @ w_share w) (h_nonce h @ w_session_id w) LINK_HKDF_INFO 32
     = Some key \<and>
   (\<exists>tr sig. link_build_transcript (h_nonce h) (h_pub h) (h_share h) (w_session_id w) (w_share w)
       (h_bd h) (of_int (w_issued_at w)) (of_int (w_ttl w)) = Some tr \<and>
     link_verify_p256_signature C k tr sig)"
  by (auto simp: register_verify_def Let_def dest: link_hkdf_sha256_length
      split: prod.splits option.splits if_splits bool.splits)

text \<open>Either nothing of the session changed, or all of it was committed together.\<close>

lemma link_register_cases:
  assumes "link_register_if_needed C st = (r, st')"
  obtains (active) "link_session_active st" "r = Inr ()" "st' = st"
  | (failed) e where "\<not> link_session_active st" "r = Inl e" "session_of st' = session_of st"
  | (committed) sep h w resp s2 key s3 where "\<not> link_session_active st" "r = Inr ()"
      "length sep = 65" "link_pinned_sep_pub_set st \<longrightarrow> sep = link_pinned_sep_pub st"
      "length (h_nonce h) = 16" "length (h_share h) = 32" "length (h_pub h) = 65"
      "length (w_session_id w) = 16" "length (w_share w) = 32"
      "register_verify C sep h w resp s2 = (Inr key, s3)"
      "session_of s3 = session_of st" "st' = register_commit sep (w_session_id w) key s3"
proof (cases "link_session_active st")
  case True
  with assms show ?thesis by (intro active) (simp_all add: link_register_if_needed_def)
next
  case F: False
  have run: "link_register_if_needed C st = (case register_keys C st of
        (Inl e, s1) \<Rightarrow> (Inl e, s1)
      | (Inr (b, sep), s1) \<Rightarrow> (case register_material C s1 of
        (Inl e, s2) \<Rightarrow> (Inl e, s2)
      | (Inr h, s2) \<Rightarrow> (case register_request C b h s2 of
        (Inl e, s3) \<Rightarrow> (Inl e, s3)
      | (Inr q, s3) \<Rightarrow> (case link_send_request q s3 of
        (None, s4) \<Rightarrow> (Inl (Some ''LINK_REGISTER transport failed''), s4)
      | (Some resp, s4) \<Rightarrow> (case register_response C (h_priv h) resp s4 of
        (Inl e, s5) \<Rightarrow> (Inl e, s5)
      | (Inr w, s5) \<Rightarrow> (case register_verify C sep h w resp s5 of
        (Inl e, s6) \<Rightarrow> (Inl e, s6)
      | (Inr key, s6) \<Rightarrow> (Inr (), register_commit sep (w_session_id w) key s6)))))))"
    using F by (simp add: link_register_if_needed_def)
  show ?thesis
  proof (cases r)
    case (Inl e)
    have "session_of st' = session_of st"
      using assms Inl unfolding run
      by (auto dest!: frameD split: prod.splits sum.splits option.splits)
    with F Inl show ?thesis by (rule failed)
  next
    case (Inr u)
    with assms obtain b sep s1 h s2 q s3 resp s4 w s5 key s6 where
      st: "register_keys C st = (Inr (b, sep), s1)" "register_material C s1 = (Inr h, s2)"
        "register_request C b h s2 = (Inr q, s3)" "link_send_request q s3 = (Some resp, s4)"
        "register_response C (h_priv h) resp s4 = (Inr w, s5)"
        "register_verify C sep h w resp s5 = (Inr key, s6)"
        "st' = register_commit sep (w_session_id w) key s6"
      unfolding run by (auto split: prod.splits sum.splits option.splits)
    have fr: "session_of s6 = session_of st"
      using st(1-6) by (auto dest!: frameD)
    show ?thesis
      using register_keys_Inr [OF st(1)] register_material_Inr [OF st(2)]
        register_response_Inr [OF st(5)] Inr
      by (intro committed [OF F _ _ _ _ _ _ _ _ st(6) fr st(7)]) auto
  qed
qed

end
