(* ===== verification/Link_Geo.thy ===== *)
theory Link_Geo
  imports Link_Session
begin

text \<open>
  The \<open>link-geo\<close> builtin of \<open>Src/Modules/brightlink.c\<close>: the subcommands, the requests
  they send and what they print of the response.  A call returns a status, or it reads
  through a NULL pointer (\<open>Segv\<close>).
\<close>

datatype outcome = Ret int | Segv

definition nl :: string where "nl = [CHR 0x0A]"

section \<open>Printing a response\<close>

definition print_raw :: "string \<Rightarrow> string \<Rightarrow> link \<Rightarrow> bool \<times> link" where
  "print_raw resp key st =
     (case link_json_field_raw resp key 256 of
        (True, tmp) \<Rightarrow> (True, printf (key @ '': '' @ cstr tmp @ nl) st)
      | (False, _) \<Rightarrow> (False, st))"

definition print_str :: "string \<Rightarrow> string \<Rightarrow> link \<Rightarrow> link" where
  "print_str resp key st =
     (case link_json_field_str resp key 256 of
        (True, tmp) \<Rightarrow> printf (key @ '': '' @ cstr tmp @ nl) st
      | (False, _) \<Rightarrow> st)"

definition link_geo_print_status :: "string \<Rightarrow> bool \<Rightarrow> link \<Rightarrow> int \<times> link" where
  "link_geo_print_status resp json_mode st =
     (if json_mode then (0, printf (resp @ nl) st)
      else (0, snd (print_raw resp ''accuracy_m''
                 (snd (print_raw resp ''fix_age_seconds''
                   (print_str resp ''engine_kind''
                     (snd (print_raw resp ''alive'' st))))))))"

definition link_geo_print_zone :: "string \<Rightarrow> bool \<Rightarrow> link \<Rightarrow> int \<times> link" where
  "link_geo_print_zone resp json_mode st =
     (if json_mode then (0, printf (resp @ nl) st)
      else (0, snd (print_raw resp ''brightdate''
                 (snd (print_raw resp ''dwell_seconds''
                   (snd (print_raw resp ''zone'' st)))))))"

definition link_geo_print_proximity :: "string \<Rightarrow> bool \<Rightarrow> link \<Rightarrow> int \<times> link" where
  "link_geo_print_proximity resp json_mode st =
     (if json_mode then (0, printf (resp @ nl) st)
      else (0, snd (print_raw resp ''brightdate'' (snd (print_raw resp ''in_zone'' st)))))"

definition link_geo_print_refresh :: "string \<Rightarrow> bool \<Rightarrow> link \<Rightarrow> int \<times> link" where
  "link_geo_print_refresh resp json_mode st =
     (if json_mode then (0, printf (resp @ nl) st)
      else (0, snd (print_raw resp ''accuracy_m'' (snd (print_raw resp ''fix_age_seconds'' st)))))"

fun print_fields :: "string \<Rightarrow> string list \<Rightarrow> bool \<Rightarrow> link \<Rightarrow> bool \<times> link" where
  "print_fields resp [] printed st = (printed, st)"
| "print_fields resp (k # ks) printed st =
     (case print_raw resp k st of (b, st) \<Rightarrow> print_fields resp ks (printed \<or> b) st)"

definition link_geo_print_position :: "string \<Rightarrow> bool \<Rightarrow> link \<Rightarrow> int \<times> link" where
  "link_geo_print_position resp json_mode st =
     (if json_mode then (0, printf (resp @ nl) st)
      else case print_fields resp
                  [''lat'', ''lon'', ''alt_m'', ''x_bm'', ''y_bm'', ''z_bm'', ''accuracy_m'',
                   ''brightdate''] False st of
             (printed, st) \<Rightarrow> (0, if printed then st else printf (resp @ nl) st))"

section \<open>Dispatch\<close>

definition link_geo_handle_response :: "string \<Rightarrow> string \<Rightarrow> bool \<Rightarrow> string \<Rightarrow> link \<Rightarrow> int \<times> link" where
  "link_geo_handle_response nam resp json_mode cmd_label st =
     (if strstr resp (jstr ''error'') \<noteq> None then
        (let err = cstr (snd (link_json_field_str resp ''error'' 256))
         in if json_mode then (1, printf (resp @ nl) st)
            else (1, eprintf (nam @ '': '' @ cmd_label @ '': ''
                              @ (if err \<noteq> [] then err else ''bridge error'') @ nl) st))
      else if cmd_label = ''status'' then link_geo_print_status resp json_mode st
      else if cmd_label = ''zone'' then link_geo_print_zone resp json_mode st
      else if cmd_label = ''proximity'' then link_geo_print_proximity resp json_mode st
      else if cmd_label = ''refresh'' then link_geo_print_refresh resp json_mode st
      else link_geo_print_position resp json_mode st)"

definition geo_request :: "string \<Rightarrow> string" where
  "geo_request cmd = ''{'' @ jkey ''cmd'' @ jstr cmd @ ''}''"

text \<open>Send, then print or report that the bridge is unavailable.\<close>

definition geo_exchange :: "string \<Rightarrow> string \<Rightarrow> bool \<Rightarrow> string \<Rightarrow> link \<Rightarrow> outcome \<times> link" where
  "geo_exchange nam request json_mode cmd_label st =
     (case link_send_request request st of
        (None, st) \<Rightarrow> (Ret 1, eprintf (nam @ '': bridge unavailable'' @ nl) st)
      | (Some resp, st) \<Rightarrow>
          (case link_geo_handle_response nam resp json_mode cmd_label st of
             (rc, st) \<Rightarrow> (Ret rc, st)))"

fun geo_format :: "string list \<Rightarrow> string \<Rightarrow> string" where
  "geo_format (a # b # r) fmt =
     (if a = ''--format'' then geo_format r b else geo_format (b # r) fmt)"
| "geo_format _ fmt = fmt"

text \<open>\<open>None\<close> is the usage error of \<open>--timeout\<close>.\<close>

fun geo_timeout :: "string list \<Rightarrow> int \<Rightarrow> int option" where
  "geo_timeout (a # b # r) t =
     (if a = ''--timeout'' then
        (case strtoll b of
           None \<Rightarrow> None
         | Some (v, end) \<Rightarrow>
             if end \<noteq> [] \<or> v < 1 \<or> 300 < v then None else geo_timeout r v)
      else geo_timeout (b # r) t)"
| "geo_timeout _ t = Some t"

definition geo_usage :: "string \<Rightarrow> string" where
  "geo_usage nam = ''Usage: '' @ nam @ '' <subcommand> [args...]'' @ nl
     @ ''Subcommands:'' @ nl
     @ ''  status                                  engine alive + fix freshness'' @ nl
     @ ''  proximity <zone-id>                     yes/no for one named zone'' @ nl
     @ ''  zone                                    current zone + dwell'' @ nl
     @ ''  get [--format wgs84|brightspace|both]   precise position'' @ nl
     @ ''  refresh [--timeout SECONDS]             trigger a fresh fix'' @ nl
     @ nl
     @ ''Common flags:'' @ nl
     @ ''  --json                                  emit raw bridge response'' @ nl"

text \<open>
  \<open>argv\<close> is tested for emptiness before \<open>--json\<close> is taken out of it; when nothing else
  is left, \<open>sub\<close> is NULL and the first \<open>strcmp\<close> reads through it.
\<close>

definition bin_link_geo :: "string \<Rightarrow> string list \<Rightarrow> link \<Rightarrow> outcome \<times> link" where
  "bin_link_geo nam argv0 st =
     (if argv0 = [] then (Ret 1, eprintf (geo_usage nam) st)
      else
        let json_mode = (''--json'' \<in> set argv0);
            argv = filter (\<lambda>a. a \<noteq> ''--json'') argv0
        in case argv of
             [] \<Rightarrow> (Segv, st)
           | sub # args \<Rightarrow>
               if sub = ''status'' then
                 geo_exchange nam (geo_request ''LINK_GEO_STATUS'') json_mode ''status'' st
               else if sub = ''proximity'' then
                 (case args of
                    [] \<Rightarrow> (Ret 1, eprintf (nam @ '': proximity requires a zone id'' @ nl) st)
                  | zone # _ \<Rightarrow>
                      if 256 < length zone
                      then (Ret 1, eprintf (nam @ '': zone id too long'' @ nl) st)
                      else geo_exchange nam
                             (take 511 (''{'' @ jkey ''cmd'' @ jstr ''LINK_GEO_PROXIMITY'' @ '',''
                                        @ jkey ''zone'' @ jstr zone @ ''}''))
                             json_mode ''proximity'' st)
               else if sub = ''zone'' then
                 geo_exchange nam (geo_request ''LINK_GEO_ZONE'') json_mode ''zone'' st
               else if sub = ''get'' then
                 (let fmt = geo_format args ''wgs84''
                  in if fmt \<noteq> ''wgs84'' \<and> fmt \<noteq> ''brightspace'' \<and> fmt \<noteq> ''both''
                     then (Ret 1, eprintf (nam @ '': --format must be wgs84, brightspace, or both'' @ nl) st)
                     else geo_exchange nam
                            (take 511 (''{'' @ jkey ''cmd'' @ jstr ''LINK_GEO_GET'' @ '',''
                                       @ jkey ''format'' @ jstr fmt @ ''}''))
                            json_mode ''get'' st)
               else if sub = ''refresh'' then
                 (case geo_timeout args 30 of
                    None \<Rightarrow> (Ret 1, eprintf (nam @ '': --timeout must be 1..300'' @ nl) st)
                  | Some t \<Rightarrow>
                      geo_exchange nam
                        (take 511 (''{'' @ jkey ''cmd'' @ jstr ''LINK_GEO_REFRESH'' @ '',''
                                   @ jkey ''timeout_seconds'' @ dec (nat t) @ ''}''))
                        json_mode ''refresh'' st)
               else (Ret 1, eprintf (nam @ '': unknown subcommand: '' @ sub @ nl) st))"

section \<open>Frames\<close>

lemma print_raw_frame [frameD]: "print_raw r k s = (x, t) \<Longrightarrow> session_of t = session_of s"
  by (auto simp: print_raw_def split: prod.splits bool.splits)

lemma print_raw_frame' [simp]: "session_of (snd (print_raw r k s)) = session_of s"
  using print_raw_frame by (metis prod.collapse)

lemma print_str_frame [simp]: "session_of (print_str r k s) = session_of s"
  by (auto simp: print_str_def split: prod.splits bool.splits)

lemma print_fields_frame [frameD]:
  "print_fields r ks b s = (x, t) \<Longrightarrow> session_of t = session_of s"
  by (induction ks arbitrary: b s) (auto dest!: print_raw_frame split: prod.splits)

lemma link_geo_handle_response_frame [frameD]:
  "link_geo_handle_response nam r j l s = (x, t) \<Longrightarrow> session_of t = session_of s"
  by (auto simp: link_geo_handle_response_def Let_def link_geo_print_status_def
      link_geo_print_zone_def link_geo_print_proximity_def link_geo_print_refresh_def
      link_geo_print_position_def dest!: frameD split: if_splits prod.splits)

lemma geo_exchange_frame [frameD]:
  "geo_exchange nam q j l s = (x, t) \<Longrightarrow> session_of t = session_of s"
  by (auto simp: geo_exchange_def dest!: frameD split: prod.splits option.splits)

lemma bin_link_geo_frame [frameD]:
  "bin_link_geo nam argv s = (x, t) \<Longrightarrow> session_of t = session_of s"
  by (auto simp: bin_link_geo_def Let_def dest!: frameD
      split: prod.splits option.splits if_splits list.splits)

end
