(* ===== verification/Link_Machine.thy ===== *)
theory Link_Machine
  imports Link_Geo
begin

text \<open>
  \<open>Src/Modules/brightlink.c\<close> as a state machine: the shell calls \<open>bsh-inject\<close> and
  \<open>link-geo\<close> in any order with any arguments, the outside (bridge, file system, memory,
  clock, randomness) changes in any way between two calls, and the module may be
  unloaded.  The invariant of the module's static variables holds in every reachable
  state.
\<close>

section \<open>Steps\<close>

text \<open>The variables only the module's own code writes.\<close>

definition statics_of :: "link \<Rightarrow> _" where
  "statics_of s = (session_of s, link_sockfd s, link_socket_path s, link_secp_ctx s)"

inductive link_step :: "'p crypto \<Rightarrow> link \<Rightarrow> link \<Rightarrow> bool" for C where
  step_inject: "bin_bsh_inject C nam argv s = (rc, t) \<Longrightarrow> link_step C s t"
| step_geo: "bin_link_geo nam argv s = (Ret rc, t) \<Longrightarrow> link_step C s t"
| step_outside: "statics_of t = statics_of s \<Longrightarrow> link_step C s t"
| step_finish: "t = link_finish s \<Longrightarrow> link_step C s t"

inductive link_reach :: "'p crypto \<Rightarrow> link \<Rightarrow> bool" for C where
  reach_init: "link_reach C (link_init env)"
| reach_step: "link_reach C s \<Longrightarrow> link_step C s t \<Longrightarrow> link_reach C t"

inductive_cases link_stepE: "link_step C s t"
inductive_simps link_step_simps: "link_step C s t"

text \<open>
  Active, key set and identifier set are one flag; the buffers keep their sizes; a
  session exists only under a pinned key.
\<close>

definition link_inv :: "link \<Rightarrow> bool" where
  "link_inv s \<longleftrightarrow>
     link_session_id_set s = link_session_active s \<and>
     link_session_key_set s = link_session_active s \<and>
     length (link_session_id s) = 16 \<and> length (link_session_key s) = 32 \<and>
     length (link_pinned_sep_pub s) = 65 \<and>
     (link_session_active s \<longrightarrow> link_pinned_sep_pub_set s) \<and>
     (\<not> link_session_active s \<longrightarrow> link_pinned_sep_pub_set s \<or> link_c_shell_to_agent s = 0) \<and>
     link_c_agent_to_shell s = 0"

lemma link_inv_cong: "session_of t = session_of s \<Longrightarrow> link_inv t = link_inv s"
  by (simp add: link_inv_def session_of_def)

lemma link_inv_init: "link_inv (link_init env)"
  by (simp add: link_inv_def link_init_def os.defs)

section \<open>The builtins, by outcome\<close>

lemma register_commit_facts:
  "session_of (register_commit sep sid key s) =
     (True, sid, key, True, True, 0, 0,
      (if link_pinned_sep_pub_set s then link_pinned_sep_pub s else sep), True)"
  by (simp add: register_commit_def Let_def session_of_def)

text \<open>The session variables after registration, without the handshake.\<close>

lemma link_register_session:
  assumes "link_register_if_needed C s = (r, t)"
  shows "session_of t = session_of s \<and> (r = Inr () \<longrightarrow> link_session_active s) \<or>
    (\<exists>sid key sep. \<not> link_session_active s \<and> r = Inr () \<and> length sid = 16 \<and> length key = 32 \<and>
       length sep = 65 \<and> (link_pinned_sep_pub_set s \<longrightarrow> sep = link_pinned_sep_pub s) \<and>
       session_of t = (True, sid, key, True, True, 0, 0, sep, True))"
  using assms
proof (cases rule: link_register_cases)
  case (committed sep h w resp s2 key s3)
  have "link_pinned_sep_pub_set s3 = link_pinned_sep_pub_set s"
    "link_pinned_sep_pub s3 = link_pinned_sep_pub s"
    using session_of_eqD [OF committed(11)] by blast+
  with committed register_verify_Inr [OF committed(10)] show ?thesis
    by (intro disjI2 exI [of _ "w_session_id w"] exI [of _ key] exI [of _ sep])
       (auto simp: register_commit_facts)
qed auto

text \<open>
  What \<open>bsh-inject\<close> does to the session: nothing, or it registers; and if it returns 0
  the counter is one more than it was in the session it used.
\<close>

lemma bin_bsh_inject_cases:
  assumes "bin_bsh_inject C nam argv s = (rc, t)"
  obtains (refused) "rc = 1" "session_of t = session_of s"
  | (unsent) s1 s2 where "rc = 1" "session_of s1 = session_of s"
      "link_register_if_needed C s1 = (Inr (), s2)" "session_of t = session_of s2"
  | (delivered) ty cx body s1 s2 s3 where "rc = 0"
      "inject_args argv None None = Inr (Some ty, Some cx)"
      "link_read_stdin s = (Some body, s1)" "session_of s1 = session_of s"
      "link_register_if_needed C s1 = (Inr (), s2)"
      "s3 = s2\<lparr>link_c_shell_to_agent := link_c_shell_to_agent s2 + 1\<rparr>"
      "link_emit_deliver C (link_c_shell_to_agent s2 + 1) ty cx body s3 = (Inr (), t)"
      "session_of t = session_of s3"
proof (cases "\<exists>type context. inject_args argv None None = Inr (Some type, Some context)")
  case False
  with assms have "rc = 1 \<and> session_of t = session_of s"
    by (auto simp: bin_bsh_inject_def split: sum.splits option.splits prod.splits)
  then show ?thesis by (intro refused) auto
next
  case True
  then obtain type cx where args: "inject_args argv None None = Inr (Some type, Some cx)" by blast
  obtain b s1 where rd: "link_read_stdin s = (b, s1)" by fastforce
  have f1: "session_of s1 = session_of s" by (rule frameD) (rule rd)
  show ?thesis
  proof (cases b)
    case None
    with assms args rd f1 show ?thesis
      by (intro refused) (auto simp: bin_bsh_inject_def)
  next
    case (Some body)
    obtain r s2 where reg: "link_register_if_needed C s1 = (r, s2)" by fastforce
    show ?thesis
    proof (cases r)
      case (Inl e)
      from reg have "session_of s2 = session_of s"
        by (cases rule: link_register_cases) (auto simp: Inl f1)
      with assms args rd Some reg Inl show ?thesis
        by (intro refused) (auto simp: bin_bsh_inject_def)
    next
      case (Inr u)
      define s3 where "s3 = s2\<lparr>link_c_shell_to_agent := link_c_shell_to_agent s2 + 1\<rparr>"
      obtain d s4 where del:
        "link_emit_deliver C (link_c_shell_to_agent s2 + 1) type cx body s3 = (d, s4)" by fastforce
      have f4: "session_of s4 = session_of s3" by (rule frameD) (rule del)
      have reg': "link_register_if_needed C s1 = (Inr (), s2)" using reg Inr by simp
      note run = assms [unfolded bin_bsh_inject_def args rd Some, simplified, unfolded reg', simplified,
          unfolded Let_def, folded s3_def, unfolded del, simplified]
      show ?thesis
      proof (cases d)
        case e: (Inl e)
        have "session_of t = session_of s2"
          using run f4 e by (auto simp: session_of_def eprintf_def s3_def)
        with run e show ?thesis by (intro unsent [OF _ f1 reg']) auto
      next
        case ok: (Inr u')
        with run have "t = s4" "rc = 0" by auto
        with del ok f4 show ?thesis
          by (intro delivered [OF _ args _ f1 reg' s3_def]) (auto simp: rd Some)
      qed
    qed
  qed
qed

section \<open>Preservation\<close>

lemma link_inv_register:
  assumes "link_register_if_needed C s = (r, t)" "link_inv s"
  shows "link_inv t"
proof -
  from link_register_session [OF assms(1)] consider
    "session_of t = session_of s"
    | sid key sep where "length sid = 16" "length key = 32" "length sep = 65"
      "session_of t = (True, sid, key, True, True, 0, 0, sep, True)" by blast
  then show ?thesis
  proof cases
    case 1
    with assms(2) link_inv_cong show ?thesis by blast
  next
    case 2
    then show ?thesis by (simp add: link_inv_def session_of_def)
  qed
qed

lemma link_inv_counter: "link_session_active s \<Longrightarrow>
    link_inv (s\<lparr>link_c_shell_to_agent := c\<rparr>) = link_inv s"
  by (simp add: link_inv_def)

lemma register_Inr_active:
  "link_register_if_needed C s = (Inr (), t) \<Longrightarrow> link_session_active t"
  by (drule link_register_session) (auto simp: session_of_def)

lemma link_inv_inject:
  assumes "bin_bsh_inject C nam argv s = (rc, t)" "link_inv s"
  shows "link_inv t"
  using assms(1)
proof (cases rule: bin_bsh_inject_cases)
  case refused
  with assms(2) link_inv_cong show ?thesis by blast
next
  case (unsent s1 s2)
  then have "link_inv s2" using assms(2) link_inv_register link_inv_cong by metis
  with unsent link_inv_cong show ?thesis by blast
next
  case (delivered type cx body s1 s2 s3)
  then have "link_inv s2" using assms(2) link_inv_register link_inv_cong by metis
  moreover have "link_session_active s2" using delivered(5) by (rule register_Inr_active)
  ultimately have "link_inv s3" by (simp add: delivered(6) link_inv_counter)
  with delivered link_inv_cong show ?thesis by blast
qed

lemma link_finish_session:
  "session_of (link_finish s) =
     (False, replicate 16 NUL, replicate 32 NUL, False, False, link_c_shell_to_agent s,
      link_c_agent_to_shell s, link_pinned_sep_pub s, link_pinned_sep_pub_set s)"
  by (simp add: link_finish_def session_of_def link_socket_close_def)

lemma link_inv_finish: "link_inv s \<Longrightarrow> link_inv (link_finish s)"
  using link_finish_session [of s] by (auto simp: link_inv_def session_of_def)

lemma link_inv_step: "link_step C s t \<Longrightarrow> link_inv s \<Longrightarrow> link_inv t"
proof (induction rule: link_step.induct)
  case (step_geo nam argv s rc t)
  from step_geo(1) have "session_of t = session_of s" by (rule frameD)
  with step_geo(2) link_inv_cong show ?case by blast
next
  case (step_outside t s)
  then have "session_of t = session_of s" by (simp add: statics_of_def)
  with step_outside(2) link_inv_cong show ?case by blast
qed (blast intro: link_inv_inject link_inv_finish)+

lemma link_reach_inv: "link_reach C s \<Longrightarrow> link_inv s"
  by (induction rule: link_reach.induct) (auto intro: link_inv_init link_inv_step)

section \<open>Trust on first use\<close>

definition pin_of :: "link \<Rightarrow> bytes option" where
  "pin_of s = (if link_pinned_sep_pub_set s then Some (link_pinned_sep_pub s) else None)"

lemma pin_of_cong: "session_of t = session_of s \<Longrightarrow> pin_of t = pin_of s"
  by (simp add: pin_of_def session_of_def)

lemma pin_of_register:
  "link_register_if_needed C s = (r, t) \<Longrightarrow> pin_of s = Some k \<Longrightarrow> pin_of t = Some k"
  by (drule link_register_session) (auto simp: pin_of_def session_of_def split: if_splits)

lemma pin_of_step: "link_step C s t \<Longrightarrow> pin_of s = Some k \<Longrightarrow> pin_of t = Some k"
proof (induction rule: link_step.induct)
  case (step_inject nam argv s rc t)
  from step_inject(1) show ?case
  proof (cases rule: bin_bsh_inject_cases)
    case refused
    then show ?thesis using step_inject(2) pin_of_cong [of t s] by simp
  next
    case (unsent s1 s2)
    then show ?thesis
      using step_inject(2) pin_of_register [OF unsent(3), of k] pin_of_cong [of s1 s] pin_of_cong [of t s2]
      by simp
  next
    case (delivered ty cx body s1 s2 s3)
    then show ?thesis
      using step_inject(2) pin_of_register [OF delivered(5), of k] pin_of_cong [of s1 s]
        pin_of_cong [of t s3]
      by (auto simp: pin_of_def split: if_splits)
  qed
next
  case (step_geo nam argv s rc t)
  from step_geo(1) have "session_of t = session_of s" by (rule frameD)
  with step_geo(2) pin_of_cong [of t s] show ?case by simp
next
  case (step_outside t s)
  then show ?case using pin_of_cong [of t s] by (simp add: statics_of_def)
next
  case (step_finish t s)
  then show ?case using link_finish_session [of s] by (auto simp: pin_of_def session_of_def)
qed

end
