(* ===== verification/Link_Demo.thy ===== *)
theory Link_Demo
  imports Link_Env
begin

text \<open>
  A concrete instance of the library functions that brightlink.c calls, with the proof
  that it satisfies every documented law.  It shows that the hypotheses about the
  libraries can hold together, and it is what the witnesses evaluate: base64 is the
  one of RFC 4648, the group is addition modulo 251 and the cipher is the identity
  with a fixed tag.
\<close>

section \<open>base64\<close>

definition b64_char :: "nat \<Rightarrow> char" where
  "b64_char n = char_of (if n < 26 then 65 + n else if n < 52 then 71 + n
                         else if n < 62 then n - 4 else if n = 62 then 43 else 47)"

definition b64_val :: "char \<Rightarrow> nat" where
  "b64_val c = (let n = of_char c in
      if 65 \<le> n \<and> n \<le> 90 then n - 65 else if 97 \<le> n \<and> n \<le> 122 then n - 71
      else if 48 \<le> n \<and> n \<le> 57 then n + 4 else if n = 43 then 62
      else if n = 47 then 63 else 0)"

fun b64e :: "bytes \<Rightarrow> string" where
  "b64e [] = []"
| "b64e [a] = [b64_char (of_char a div 4), b64_char (of_char a mod 4 * 16), CHR ''='', CHR ''='']"
| "b64e [a, b] = [b64_char (of_char a div 4), b64_char (of_char a mod 4 * 16 + of_char b div 16),
                  b64_char (of_char b mod 16 * 4), CHR ''='']"
| "b64e (a # b # c # r) =
     [b64_char (of_char a div 4), b64_char (of_char a mod 4 * 16 + of_char b div 16),
      b64_char (of_char b mod 16 * 4 + of_char c div 64), b64_char (of_char c mod 64)] @ b64e r"

fun b64d :: "string \<Rightarrow> bytes option" where
  "b64d [] = Some []"
| "b64d (p # q # r # s # t) =
     map_option (\<lambda>out. char_of (b64_val p * 4 + b64_val q div 16)
                     # char_of (b64_val q mod 16 * 16 + b64_val r div 4)
                     # char_of (b64_val r mod 4 * 64 + b64_val s) # out) (b64d t)"
| "b64d _ = None"

lemma char_of_0: "char_of (0::nat) = NUL"
  by (metis of_char_NUL char_of_char)

lemma b64_val_char [simp]: "n < 64 \<Longrightarrow> b64_val (b64_char n) = n"
  by (auto simp: b64_val_def b64_char_def Let_def)

lemma b64_char_code:
  "(of_char (b64_char n) :: nat) = (if n < 26 then 65 + n else if n < 52 then 71 + n
      else if n < 62 then n - 4 else if n = 62 then 43 else 47)"
  by (simp add: b64_char_def)

lemma b64_char_neq [simp]:
  "b64_char n \<noteq> CHR ''=''" "b64_char n \<noteq> NUL" "b64_char n \<noteq> CHR 0x22" "b64_char n \<noteq> CHR 0x5C"
  "CHR ''='' \<noteq> b64_char n" "NUL \<noteq> b64_char n" "CHR 0x22 \<noteq> b64_char n" "CHR 0x5C \<noteq> b64_char n"
  by (auto simp: b64_char_code NUL_def split: if_splits
      dest!: arg_cong [where f = "of_char :: char \<Rightarrow> nat"])

lemma b64_val_eq [simp]: "b64_val (CHR ''='') = 0"
  by (simp add: b64_val_def)

lemma char_of_regroup:
  fixes a b c :: char
  defines "m \<equiv> of_char a :: nat" and "n \<equiv> of_char b :: nat" and "k \<equiv> of_char c :: nat"
  shows "char_of (m div 4 * 4 + (m mod 4 * 16 + n div 16) div 16) = a"
    and "char_of ((m mod 4 * 16 + n div 16) mod 16 * 16 + (n mod 16 * 4 + k div 64) div 4) = b"
    and "char_of ((n mod 16 * 4 + k div 64) mod 4 * 64 + k mod 64) = c"
proof -
  have lt: "n div 16 < 16" "k div 64 < 4"
    using of_char_less_256 [of b] of_char_less_256 [of c] unfolding n_def k_def by linarith+
  have "m div 4 * 4 + (m mod 4 * 16 + n div 16) div 16 = m" using lt by simp
  then show "char_of (m div 4 * 4 + (m mod 4 * 16 + n div 16) div 16) = a"
    by (simp add: m_def)
  have "(m mod 4 * 16 + n div 16) mod 16 * 16 + (n mod 16 * 4 + k div 64) div 4 = n"
    using lt by simp
  then show "char_of ((m mod 4 * 16 + n div 16) mod 16 * 16 + (n mod 16 * 4 + k div 64) div 4) = b"
    by (simp add: n_def)
  have "(n mod 16 * 4 + k div 64) mod 4 * 64 + k mod 64 = k" using lt by simp
  then show "char_of ((n mod 16 * 4 + k div 64) mod 4 * 64 + k mod 64) = c"
    by (simp add: k_def)
qed

lemma sextets [simp]:
  "(of_char a :: nat) div 4 < 64" "(of_char a :: nat) mod 4 * 16 + of_char b div 16 < 64"
  "(of_char a :: nat) mod 16 * 4 + of_char b div 64 < 64" "(of_char a :: nat) mod 4 * 16 < 64"
  "(of_char a :: nat) mod 16 * 4 < 64"
proof -
  have a: "(of_char a :: nat) < 256" and b: "(of_char b :: nat) < 256" by simp_all
  show "(of_char a :: nat) div 4 < 64" "(of_char a :: nat) mod 4 * 16 + of_char b div 16 < 64"
    "(of_char a :: nat) mod 16 * 4 + of_char b div 64 < 64" "(of_char a :: nat) mod 4 * 16 < 64"
    "(of_char a :: nat) mod 16 * 4 < 64"
    using a b by linarith+
qed

lemma length_b64e: "length (b64e b) = 4 * ((length b + 2) div 3)"
proof (induction b rule: b64e.induct)
  case (4 a b c r)
  have "(length (a # b # c # r) + 2) div 3 = (length r + 2) div 3 + 1" by simp
  with 4 show ?case by simp
qed simp_all

lemma b64e_chars: "c \<in> set (b64e b) \<Longrightarrow> c \<noteq> NUL \<and> c \<noteq> CHR 0x22 \<and> c \<noteq> CHR 0x5C"
proof (induction b rule: b64e.induct)
  case (4 x y z r)
  then show ?case
    by (simp only: b64e.simps set_append set_simps Un_iff insert_iff empty_iff) (elim disjE, simp_all)
next
  case (2 a)
  then show ?case by (auto) (simp_all add: NUL_def)
next
  case (3 a b)
  then show ?case by (auto) (simp_all add: NUL_def)
qed simp

lemma b64e_pad:
  "\<exists>u. b64e b = u @ replicate (b64_pad (length b)) CHR ''='' \<and> CHR ''='' \<notin> set u"
proof (induction b rule: b64e.induct)
  case (4 a b c r)
  then obtain u where u: "b64e r = u @ replicate (b64_pad (length r)) CHR ''=''"
    "CHR ''='' \<notin> set u" by blast
  have "b64_pad (length (a # b # c # r)) = b64_pad (length r)"
    by (simp add: b64_pad_def)
  with u show ?case
    by (intro exI [of _ "take 4 (b64e (a # b # c # r)) @ u"]) auto
qed (auto simp: b64_pad_def numeral_2_eq_2 intro: exI [of _ "[_, _]"] exI [of _ "[_, _, _]"])

lemma b64d_step:
  "p < 64 \<Longrightarrow> q < 64 \<Longrightarrow> r < 64 \<Longrightarrow> s < 64 \<Longrightarrow>
   b64d (b64_char p # b64_char q # b64_char r # b64_char s # t) =
   map_option (\<lambda>out. char_of (p * 4 + q div 16) # char_of (q mod 16 * 16 + r div 4)
                   # char_of (r mod 4 * 64 + s) # out) (b64d t)"
  by (simp only: b64d.simps b64_val_char)

lemma b64d_b64e: "b64d (b64e b) = Some (b @ replicate (b64_pad (length b)) NUL)"
proof (induction b rule: b64e.induct)
  case (4 a b c r)
  have "b64_pad (length (a # b # c # r)) = b64_pad (length r)"
    by (simp add: b64_pad_def)
  moreover have "b64d (b64e (a # b # c # r)) =
      map_option (\<lambda>out. a # b # c # out) (b64d (b64e r))"
    by (simp only: b64e.simps append_Cons append_Nil b64d_step sextets char_of_regroup
        mod_less_divisor zero_less_numeral)
  ultimately show ?case using 4 by simp
next
  case (2 a)
  show ?case
    using char_of_regroup(1) [of a NUL] by (simp add: b64_pad_def char_of_0 numeral_2_eq_2)
next
  case (3 a b)
  show ?case
    using char_of_regroup(1) [of a b] char_of_regroup(2) [of a b NUL]
    by (simp add: b64_pad_def char_of_0)
qed (simp add: b64_pad_def)

section \<open>The instance\<close>

definition byte_sum :: "bytes \<Rightarrow> nat" where
  "byte_sum b = sum_list (map of_char b) mod 251"

definition demo :: "nat crypto" where
  "demo = \<lparr>
     evp_encode_block = b64e,
     evp_decode_block = b64d,
     evp_hkdf = (\<lambda>ikm salt info n. Some (take n (ikm @ salt @ info @ replicate n NUL))),
     evp_gcm_seal = (\<lambda>k iv aad pt. Some (pt, replicate 16 NUL)),
     evp_gcm_open = (\<lambda>k iv aad ct tag. Some ct),
     evp_p256_verify = (\<lambda>pub msg sig. True),
     secp_seckey_verify = (\<lambda>k. True),
     secp_pubkey_create = (\<lambda>k. Some (byte_sum k)),
     secp_pubkey_parse = (\<lambda>c. Some (of_char (last c))),
     secp_pubkey_serialize = (\<lambda>compressed P. if 256 \<le> P then None
        else Some (if compressed then CHR 0x02 # replicate 31 NUL @ [char_of P]
                   else CHR 0x04 # replicate 63 NUL @ [char_of P])),
     secp_ecdh_point = (\<lambda>P k. Some (replicate 31 NUL @ [char_of ((P + byte_sum k) mod 251)], []))\<rparr>"

lemma demo_base64: "base64_laws demo"
  using b64e_chars b64e_pad
  by (simp add: base64_laws_def demo_def length_b64e b64d_b64e) blast

lemma demo_aead: "aead_laws demo"
  by (auto simp: aead_laws_def demo_def)

lemma demo_ecdh: "ecdh_laws demo"
  by (auto simp: ecdh_laws_def demo_def byte_sum_def add.commute split: if_splits)

lemma demo_hkdf: "hkdf_laws demo"
  by (auto simp: hkdf_laws_def demo_def)

lemma demo_seal: "evp_gcm_seal demo k iv aad pt \<noteq> None"
  by (simp add: demo_def)

end
