(* ===== verification/Link_Run.thy ===== *)
theory Link_Run
  imports Link_Machine Link_Demo
begin

text \<open>
  Runs of \<open>Src/Modules/brightlink.c\<close>: what an exchange does when the bridge answers with
  a JSON object, and one complete registration followed by a delivery against the
  concrete library of \<open>Link_Demo\<close>.
\<close>

section \<open>An answered exchange\<close>

text \<open>The connection is open, writes complete and memory is available.\<close>

definition quiet :: "link \<Rightarrow> bool" where
  "quiet s \<longleftrightarrow> 0 \<le> link_sockfd s \<and> tx s = [] \<and> mem s = []"

lemma write_loop_quiet: "write_loop [] p out = (True, [], out @ p)"
  by (cases p) simp_all

lemma send_request_object:
  assumes q: "quiet s" and rx: "rx s = evs @ RdByte CHR ''}'' # r"
    and evs: "filter (\<lambda>e. e \<noteq> RdIntr) evs = map RdByte (CHR ''{'' # a)"
    and a: "balanced a" "length a + 2 < 16384" "NUL \<notin> set a"
  shows "link_send_request json s =
     (Some (CHR ''{'' # a @ ''}''), s\<lparr>sent := sent s @ json, rx := r\<rparr>)"
proof -
  have fr: "read_loop 16384 (evs @ RdByte CHR ''}'' # r) [] scan_init = (RFrame (CHR ''{'' # a @ ''}''), r)"
    using read_loop_object [of evs "[]" a 16384 r] evs a by simp
  have c: "cstr (CHR ''{'' # a @ ''}'') = CHR ''{'' # a @ ''}''"
    using a(3) by (intro cstr_id) (auto simp: NUL_def)
  show ?thesis
    using q by (simp add: quiet_def link_send_request_def link_socket_connect_def
        link_write_all_def write_loop_quiet link_read_until_brace_def rx fr c os_alloc_def)
qed

lemma quiet_upd [simp]:
  "quiet (s\<lparr>sent := o', rx := r\<rparr>) = quiet s" "quiet (s\<lparr>rand := q\<rparr>) = quiet s"
  "quiet (s\<lparr>clock := k\<rparr>) = quiet s" "quiet (s\<lparr>link_secp_ctx := b\<rparr>) = quiet s"
  by (simp_all add: quiet_def)

text \<open>Text without quotes and braces, and quoted text, are balanced.\<close>

lemma strbody_plain: "\<forall>c \<in> set s. c \<noteq> quote \<and> c \<noteq> backslash \<Longrightarrow> strbody s"
  by (induction s) (auto intro: strbody.intros)

lemma balanced_append: "balanced a \<Longrightarrow> balanced b \<Longrightarrow> balanced (a @ b)"
proof (induction rule: balanced.induct)
  case (bal_string x s)
  then show ?case using balanced.bal_string [of x "s @ b"] by simp
next
  case (bal_braces x s)
  then show ?case using balanced.bal_braces [of x "s @ b"] by simp
qed (auto intro: balanced.intros)

lemma balanced_plain:
  "\<forall>c \<in> set s. c \<noteq> quote \<and> c \<noteq> CHR ''{'' \<and> c \<noteq> CHR ''}'' \<Longrightarrow> balanced s"
  by (induction s) (auto intro: balanced.intros)

lemma balanced_quoted:
  "\<forall>c \<in> set s. c \<noteq> quote \<and> c \<noteq> backslash \<Longrightarrow> balanced r \<Longrightarrow> balanced (quote # s @ quote # r)"
  by (intro bal_string strbody_plain)

text \<open>A value without escapes is copied as it is.\<close>

lemma json_str_loop_plain:
  "\<forall>c \<in> set s. c \<noteq> quote \<and> c \<noteq> backslash \<Longrightarrow> length out + length s < cap \<Longrightarrow>
   json_str_loop cap (s @ quote # p) out = (True, out @ s)"
  by (induction s arbitrary: out) simp_all

section \<open>The buffers of a registration request\<close>

lemma b64_length [wire_simps]:
  "base64_laws C \<Longrightarrow> length (evp_encode_block C b) = 4 * ((length b + 2) div 3)"
  by (simp add: base64_laws_def)

lemma micros_bound: "t < 2 ^ 40 \<Longrightarrow> micros (ddiv (of_nat t) 86400) < 10 ^ 20"
proof -
  assume t: "t < 2 ^ 40"
  let ?m = "micros (ddiv (of_nat t) 86400)"
  have "(of_nat t :: rat) \<le> 2 ^ 40" using t by simp
  with micros_day_error [OF t] have "(of_nat ?m / 1000000 * 86400 :: rat) \<le> 2 ^ 40 + 1"
    by (simp add: abs_if split: if_splits)
  then have "(of_nat ?m :: rat) < of_nat (10 ^ 20)" by simp
  then show ?thesis by (simp only: of_nat_less_iff)
qed

lemma register_plaintext_length:
  assumes "base64_laws C" "length (h_pub h) = 65" "length (h_share h) = 32"
    and "h_bd h = ddiv (of_nat t) 86400" "t < 2 ^ 40"
  shows "length (register_plaintext C h) < 1024"
  using length_fmt6 [OF micros_bound [OF assms(5)]] assms(2-4) b64_length [OF assms(1)]
    length_dec_bound [of 3600 3]
  by (simp add: register_plaintext_def link_b64encode_def jkey_def jstr_def)

lemma register_request_fits:
  assumes "base64_laws C" "length (h_pub h) = 65" "length (h_share h) = 32" "length (h_nonce h) = 16"
    and "h_bd h = ddiv (of_nat t) 86400" "t < 2 ^ 40"
    and enc: "link_ecies_encrypt C b (register_plaintext C h) st = (Some env, st1)" "mem st1 = []"
  shows "\<exists>req. register_request C b h st = (Inr req, st1)"
  using register_plaintext_length [OF assms(1-3,5,6)] enc assms(4) b64_length [OF assms(1)]
  by (simp add: register_request_def link_b64encode_def os_alloc_def Let_def jkey_def jstr_def)

section \<open>The buffers of a delivery\<close>

lemma link_b64encode_SomeD:
  "base64_laws C \<Longrightarrow> link_b64encode C b cap = Some e \<Longrightarrow>
   e = evp_encode_block C b \<and> length e = 4 * ((length b + 2) div 3) \<and> length e < cap"
  using b64_length [of C b] by (auto simp: link_b64encode_def Let_def split: if_splits)

lemma deliver_json_length:
  "length iv \<le> 31 \<Longrightarrow> length tag \<le> 31 \<Longrightarrow>
   length (deliver_json n ty cx iv ct tag) < length ct + length ty + length cx + 256"
proof -
  have "unat n < 10 ^ Suc 19" by (rule order_less_le_trans [OF unsigned_less]) simp
  then have "length (dec (unat n)) \<le> Suc 19" by (rule length_dec_bound)
  then show "length iv \<le> 31 \<Longrightarrow> length tag \<le> 31 \<Longrightarrow> ?thesis"
    by (simp add: deliver_json_def jkey_def jstr_def)
qed

lemma deliver_request_total:
  assumes laws: "base64_laws C" "aead_laws C"
    and seal: "\<And>key iv aad pt. length key = 32 \<Longrightarrow> length iv = 12 \<Longrightarrow> evp_gcm_seal C key iv aad pt \<noteq> None"
    and st: "link_session_key_set s" "link_session_id_set s" "length (link_session_key s) = 32"
      "mem s = []" "rand s = Some k # rs"
    and fit: "length ty + length cx \<le> 2023"
  shows "\<exists>q. deliver_request C n ty cx b s = (Inr q, s\<lparr>rand := rs\<rparr>)"
proof -
  obtain aad where a: "link_build_deliver_aad (CHR 0x01) (link_be64 n) ty cx 2048 = Some aad"
    using fit by (simp add: link_build_deliver_aad_lp)
  define v where "v = take 12 (k @ replicate 12 NUL)"
  have iv: "length v = 12" by (simp add: v_def min_def)
  have r: "os_rand 12 s = (Some v, s\<lparr>rand := rs\<rparr>)" using st(5) by (simp add: os_rand_def v_def)
  obtain ct tag where e: "evp_gcm_seal C (link_session_key s) v aad b = Some (ct, tag)"
    using seal [OF st(3) iv, of aad b]
    by (metis option.exhaust surj_pair)
  then have l: "length ct = length b" "length tag = 16"
    using laws(2) by (auto simp: aead_laws_def)
  have g: "link_aes_gcm_encrypt C (link_session_key s) v aad b = Some (ct, tag)"
    using e l st(3) iv by (simp only: link_aes_gcm_encrypt_def LINK_GCM_IV_LEN_def) simp
  have b: "link_b64encode C v 32 = Some (evp_encode_block C v)"
    "link_b64encode C tag 32 = Some (evp_encode_block C tag)"
    "link_b64encode C ct (4 * ((length b + 2) div 3) + 1) = Some (evp_encode_block C ct)"
    using l iv by (simp_all add: link_b64encode_def)
  have s: "length (evp_encode_block C v) \<le> 31" "length (evp_encode_block C tag) \<le> 31"
    using l iv b64_length [OF laws(1)] by simp_all
  show ?thesis
    using deliver_json_length [OF s, of n "json_esc ty" "json_esc cx" "evp_encode_block C ct"] st
    by (simp add: deliver_request_def a r os_alloc_def g b b(3) [simplified] Let_def)
qed

section \<open>A registration\<close>

definition demo_key_body :: string where
  "demo_key_body = jkey ''publicKey'' @ jstr (''BAAA'' @ replicate 80 CHR ''A'' @ ''AAA='')"

definition demo_register_body :: string where
  "demo_register_body =
     jkey ''bridgeIssuedAtUnix'' @ ''86400,'' @ jkey ''ttlSeconds'' @ ''3600,''
     @ jkey ''sessionId'' @ jstr (replicate 22 CHR ''A'' @ ''=='') @ '',''
     @ jkey ''responseEnvelope'' @ jstr (''AQEhAgAA'' @ replicate 120 CHR ''A'') @ '',''
     @ jkey ''transcriptSig'' @ jstr ''AAAA''"

definition demo_os :: os where
  "demo_os = \<lparr>env_socket = Some ''/tmp/nexus.sock'', env_home = None, pw_home = None,
     rx = map RdByte (CHR ''{'' # demo_key_body) @ RdByte CHR ''}'' #
          map RdByte (CHR ''{'' # demo_key_body) @ RdByte CHR ''}'' #
          map RdByte (CHR ''{'' # demo_register_body) @ RdByte CHR ''}'' #
          map RdByte ''{'' @ RdByte CHR ''}'' # [],
     tx = [], input = [InData ''ls''], socks = [], conns = [], mem = [],
     rand = [Some ''nonce'', Some ''share'', None, Some ''key'', Some ''eph'', Some ''iv1'',
             Some ''iv2''],
     clock = [86400], sent = [], stdout_log = [], stderr_log = []\<rparr>"

definition demo_key65 :: bytes where
  "demo_key65 = CHR 0x04 # replicate 64 NUL"

lemma parse_key:
  "parse_pub65 demo (CHR ''{'' # demo_key_body @ ''}'') s = (Some demo_key65, s)"
  by code_simp

definition demo_reply :: string where
  "demo_reply = CHR ''{'' # demo_register_body @ ''}''"

lemma demo_locate:
  "map_option (take 6) (link_json_locate demo_reply ''bridgeIssuedAtUnix'') = Some ''86400,''"
  "map_option (take 5) (link_json_locate demo_reply ''ttlSeconds'') = Some ''3600,''"
  by code_simp+

lemma field_int_dec:
  assumes "map_option (take k) (link_json_locate json key) = Some (dec n @ '','')"
    and "k = Suc (length (dec n))" "n < 2 ^ 63"
  shows "link_json_field_int json key = Some (int n)"
proof -
  from assms(1,2) obtain q where q: "link_json_locate json key = Some q"
    "take (Suc (length (dec n))) q = dec n @ '',''"
    by auto
  then have "q = dec n @ '','' @ drop (Suc (length (dec n))) q"
    by (metis append_assoc append_take_drop_id)
  moreover from this have "strtoll q = Some (int n, '','' @ drop (Suc (length (dec n))) q)"
    using strtoll_dec [OF assms(3), of "'','' @ drop (Suc (length (dec n))) q"]
    by (simp add: isdigit_def)
  ultimately show ?thesis using q(1) by (simp add: link_json_field_int_def)
qed

lemma dec_86400: "dec 86400 = ''86400''" "dec 3600 = ''3600''"
  by (simp_all add: dec.simps digit_def char_of_def bit_Suc_0_iff)

lemma demo_int:
  "link_json_field_int demo_reply ''bridgeIssuedAtUnix'' = Some 86400"
  "link_json_field_int demo_reply ''ttlSeconds'' = Some 3600"
proof -
  have "map_option (take 6) (link_json_locate demo_reply ''bridgeIssuedAtUnix'') = Some (dec 86400 @ '','')"
    "map_option (take 5) (link_json_locate demo_reply ''ttlSeconds'') = Some (dec 3600 @ '','')"
    unfolding demo_locate dec_86400 by simp_all
  from this [THEN field_int_dec]
  show "link_json_field_int demo_reply ''bridgeIssuedAtUnix'' = Some 86400"
    "link_json_field_int demo_reply ''ttlSeconds'' = Some 3600"
    by (simp_all add: dec_86400)
qed

definition demo_envelope :: bytes where
  "demo_envelope = [CHR 0x01, CHR 0x01, CHR 0x21, CHR 0x02] @ replicate 92 NUL"

lemma demo_field:
  "link_json_field_b64 demo demo_reply ''sessionId'' 16 s = (Some (replicate 16 NUL), s)"
  "link_json_field_str demo_reply ''responseEnvelope'' (length demo_reply + 1)
     = (True, ''AQEhAgAA'' @ replicate 120 CHR ''A'')"
  "link_json_field_str demo_reply ''transcriptSig'' 1024 = (True, ''AAAA'')"
  "link_b64decode demo (cstr (''AQEhAgAA'' @ replicate 120 CHR ''A'')) (length demo_reply + 1) s
     = (Some demo_envelope, s)"
  "link_b64decode demo (cstr ''AAAA'') 256 s = (Some [NUL, NUL, NUL], s)"
  by code_simp+

lemma demo_decrypt:
  assumes "link_secp_ctx s" "mem s = []"
  shows "link_ecies_decrypt demo priv demo_envelope s = (Some (replicate 32 NUL), s)"
  using assms
  by (simp add: link_ecies_decrypt_def demo_envelope_def link_secp_def os_alloc_def demo_def
      secp_ecdh_def link_secp_ecdh_xonly_cb_def link_hkdf_sha256_def link_aes_gcm_decrypt_def
      Let_def)

text \<open>The bodies are framed.\<close>

lemma balanced_jkey: "\<forall>c \<in> set k. c \<noteq> quote \<and> c \<noteq> backslash \<Longrightarrow> balanced (jkey k)"
  using balanced_quoted [of k "'':''"] balanced_plain [of "'':''"] by (simp add: jkey_def quote_def)

lemma balanced_jstr: "\<forall>c \<in> set k. c \<noteq> quote \<and> c \<noteq> backslash \<Longrightarrow> balanced (jstr k)"
  using balanced_quoted [of k "[]"] bal_nil by (simp add: jstr_def)

lemma demo_bodies:
  "balanced demo_key_body" "balanced demo_register_body"
  "NUL \<notin> set demo_key_body" "NUL \<notin> set demo_register_body"
  "length demo_key_body < 200" "length demo_register_body < 400"
  unfolding demo_key_body_def demo_register_body_def
  by ((intro balanced_append balanced_jkey balanced_jstr balanced_plain;
       simp add: quote_def backslash_def)+,
      simp_all add: jkey_def jstr_def quote_def NUL_def)

text \<open>The two key requests.\<close>

lemma demo_bridge_keys:
  assumes "quiet s" "rx s = map RdByte (CHR ''{'' # demo_key_body) @ RdByte CHR ''}'' # r"
  shows "\<exists>o'. link_get_bridge_pubkey demo s = (Some demo_key65, s\<lparr>sent := o', rx := r\<rparr>)"
    and "\<exists>o'. link_get_bridge_sep_pub demo s = (Some demo_key65, s\<lparr>sent := o', rx := r\<rparr>)"
proof -
  have f: "link_send_request q s = (Some (CHR ''{'' # demo_key_body @ ''}''), s\<lparr>sent := sent s @ q, rx := r\<rparr>)" for q
    using demo_bodies
    by (intro send_request_object [OF assms(1,2)]) (simp_all add: filter_id_conv)
  show "\<exists>o'. link_get_bridge_pubkey demo s = (Some demo_key65, s\<lparr>sent := o', rx := r\<rparr>)"
    "\<exists>o'. link_get_bridge_sep_pub demo s = (Some demo_key65, s\<lparr>sent := o', rx := r\<rparr>)"
    unfolding link_get_bridge_pubkey_def link_get_bridge_sep_pub_def f using parse_key by auto
qed

text \<open>The stages between the two exchanges.\<close>

definition demo_hello :: hello where
  "demo_hello = \<lparr>h_nonce = take 16 (''nonce'' @ replicate 16 NUL),
     h_share = take 32 (''share'' @ replicate 32 NUL), h_priv = take 32 (''key'' @ replicate 32 NUL),
     h_pub = CHR 0x04 # replicate 63 NUL @ [char_of (78::nat)], h_bd = ddiv (of_nat 86400) 86400\<rparr>"

lemma os_rand_next: "rand s = Some k # rs \<Longrightarrow> os_rand n s = (Some (take n (k @ replicate n NUL)), s\<lparr>rand := rs\<rparr>)"
  by (simp add: os_rand_def)

lemma demo_random_priv:
  assumes "link_secp_ctx s" "rand s = Some k # rs"
  shows "link_secp_random_priv demo s = (Some (take 32 (k @ replicate 32 NUL)), s\<lparr>rand := rs\<rparr>)"
proof -
  have "random_priv_loop demo 16 s = random_priv_loop demo (Suc 15) s" by simp
  also have "\<dots> = (Some (take 32 (k @ replicate 32 NUL)), s\<lparr>rand := rs\<rparr>)"
    by (simp only: random_priv_loop.simps os_rand_next [OF assms(2)]) (simp add: demo_def)
  finally show ?thesis using assms(1) by (simp add: link_secp_random_priv_def link_secp_def)
qed

lemma demo_random_priv_first:
  assumes "\<not> link_secp_ctx s" "mem s = []" "rand s = None # Some k # rs"
  shows "link_secp_random_priv demo s =
     (Some (take 32 (k @ replicate 32 NUL)), s\<lparr>rand := rs, link_secp_ctx := True\<rparr>)"
proof -
  let ?t = "s\<lparr>link_secp_ctx := True, rand := Some k # rs\<rparr>"
  have "link_secp s = (True, ?t)"
    using assms by (simp add: link_secp_def os_alloc_def os_rand_def)
  then have "link_secp_random_priv demo s = link_secp_random_priv demo ?t"
    by (simp add: link_secp_random_priv_def link_secp_def)
  then show ?thesis using demo_random_priv [of ?t k rs] by simp
qed

lemma demo_point: "byte_sum (take 32 (''key'' @ replicate 32 NUL)) = 78"
  "byte_sum (take 32 (''eph'' @ replicate 32 NUL)) = 66"
  by code_simp+

lemma demo_pub:
  "link_secp_pub_uncompressed demo (take 32 (''key'' @ replicate 32 NUL)) (s\<lparr>link_secp_ctx := True\<rparr>)
     = (Some (h_pub demo_hello), s\<lparr>link_secp_ctx := True\<rparr>)"
  using demo_point(1)
  by (simp add: link_secp_pub_uncompressed_def link_secp_def demo_def demo_hello_def)

lemma demo_material:
  assumes "rand s = Some ''nonce'' # Some ''share'' # None # Some ''key'' # rs" "clock s = 86400 # cs"
    "mem s = []" "\<not> link_secp_ctx s"
  shows "register_material demo s =
     (Inr demo_hello, s\<lparr>rand := rs, link_secp_ctx := True, clock := cs\<rparr>)"
proof -
  let ?s1 = "s\<lparr>rand := Some ''share'' # None # Some ''key'' # rs\<rparr>"
  let ?s2 = "s\<lparr>rand := None # Some ''key'' # rs\<rparr>"
  let ?s3 = "s\<lparr>rand := rs, link_secp_ctx := True\<rparr>"
  have 1: "os_rand 16 s = (Some (h_nonce demo_hello), ?s1)"
    using assms(1) by (simp add: os_rand_next demo_hello_def)
  have 2: "os_rand 32 ?s1 = (Some (h_share demo_hello), ?s2)"
    by (simp add: os_rand_next demo_hello_def)
  have 3: "link_secp_random_priv demo ?s2 = (Some (h_priv demo_hello), ?s3)"
    using demo_random_priv_first [of ?s2 "''key''" rs] assms by (simp add: demo_hello_def)
  have 4: "link_secp_pub_uncompressed demo (h_priv demo_hello) ?s3 = (Some (h_pub demo_hello), ?s3)"
    using demo_pub [of "s\<lparr>rand := rs\<rparr>"] by (simp add: demo_hello_def)
  have 5: "os_time ?s3 = (86400, s\<lparr>rand := rs, link_secp_ctx := True, clock := cs\<rparr>)"
    using assms(2) by (simp add: os_time_def)
  show ?thesis
    unfolding register_material_def LINK_CLIENT_NONCE_LEN_def LINK_SHARE_LEN_def
    by (simp only: Let_def 1 2 3 4 5 prod.case option.case) (simp add: demo_hello_def)
qed

lemma demo_seals:
  assumes "rand s = Some ''eph'' # Some ''iv1'' # rs" "mem s = []" "link_secp_ctx s"
  shows "\<exists>e. link_ecies_encrypt demo demo_key65 pt s = (Some e, s\<lparr>rand := rs\<rparr>)"
proof -
  let ?k = "take 32 (''eph'' @ replicate 32 NUL)" and ?s1 = "s\<lparr>rand := Some ''iv1'' # rs\<rparr>"
  have 1: "link_secp_random_priv demo s = (Some ?k, ?s1)"
    using demo_random_priv [OF assms(3,1)] .
  have 2: "\<exists>p. link_secp_pub_compressed demo ?k ?s1 = (Some p, ?s1)"
    using demo_point(2) assms(3) by (simp add: link_secp_pub_compressed_def link_secp_def demo_def)
  have 3: "\<exists>x. secp_pubkey_parse demo demo_key65 = Some 0 \<and> secp_ecdh demo 0 ?k = Some x"
    by (simp add: demo_def demo_key65_def secp_ecdh_def)
  have 4: "\<exists>k. link_hkdf_sha256 demo x [] DD_ECIES_HKDF_INFO 32 = Some k \<and> length k = 32" for x
    by (auto simp: link_hkdf_sha256_def demo_def)
  have 5: "\<exists>v. os_rand 12 ?s1 = (Some v, s\<lparr>rand := rs\<rparr>) \<and> length v = 12"
    by (simp add: os_rand_next)
  obtain p x k v where "link_secp_pub_compressed demo ?k ?s1 = (Some p, ?s1)"
    "secp_pubkey_parse demo demo_key65 = Some 0" "secp_ecdh demo 0 ?k = Some x"
    "link_hkdf_sha256 demo x [] DD_ECIES_HKDF_INFO 32 = Some k" "length k = 32"
    "os_rand 12 ?s1 = (Some v, s\<lparr>rand := rs\<rparr>)" "length v = 12"
    using 2 3 4 5 by metis
  moreover have "link_aes_gcm_encrypt demo k v a pt = Some (pt, replicate 16 NUL)" for a
    using \<open>length k = 32\<close> \<open>length v = 12\<close> by (simp add: link_aes_gcm_encrypt_def demo_def)
  ultimately show ?thesis
    unfolding link_ecies_encrypt_def 1 using assms(2,3) by (simp add: link_secp_def os_alloc_def)
qed

lemma demo_request:
  assumes "rand s = Some ''eph'' # Some ''iv1'' # rs" "mem s = []" "link_secp_ctx s"
  shows "\<exists>q. register_request demo demo_key65 demo_hello s = (Inr q, s\<lparr>rand := rs\<rparr>)"
proof -
  obtain e where e: "link_ecies_encrypt demo demo_key65 (register_plaintext demo demo_hello) s
      = (Some e, s\<lparr>rand := rs\<rparr>)" using demo_seals [OF assms] by blast
  have h: "length (h_pub demo_hello) = 65" "length (h_share demo_hello) = 32"
    "length (h_nonce demo_hello) = 16" "h_bd demo_hello = ddiv (of_nat 86400) 86400"
    by (simp_all add: demo_hello_def)
  show ?thesis
    using register_request_fits [OF demo_base64 h _ e] assms(2) by simp
qed

definition demo_half :: bridge_half where
  "demo_half = \<lparr>w_issued_at = 86400, w_ttl = 3600, w_session_id = replicate 16 NUL,
     w_share = replicate 32 NUL\<rparr>"

lemma demo_response:
  assumes "mem s = []" "link_secp_ctx s"
  shows "register_response demo priv demo_reply s = (Inr demo_half, s)"
  by (simp only: register_response_def demo_int demo_field Let_def LINK_SESSION_ID_LEN_def
      prod.case option.case os_alloc_def assms list.case bool.case
      demo_decrypt [OF assms(2,1)])
     (simp add: demo_half_def)

definition demo_key :: bytes where
  "demo_key = take 32 (h_share demo_hello)"

lemma demo_verify:
  "register_verify demo demo_key65 demo_hello demo_half demo_reply s = (Inr demo_key, s)"
proof -
  have k: "link_hkdf_sha256 demo (h_share demo_hello @ w_share demo_half)
      (h_nonce demo_hello @ w_session_id demo_half) LINK_HKDF_INFO 32 = Some demo_key"
    by (simp add: link_hkdf_sha256_def demo_def demo_key_def demo_hello_def)
  have "\<exists>tr. link_build_transcript (h_nonce demo_hello) (h_pub demo_hello) (h_share demo_hello)
      (w_session_id demo_half) (w_share demo_half) (h_bd demo_hello)
      (of_int (w_issued_at demo_half)) (of_int (w_ttl demo_half)) = Some tr"
    by (subst link_build_transcript_Some) (simp_all add: demo_hello_def demo_half_def)
  then obtain tr where tr: "link_build_transcript (h_nonce demo_hello) (h_pub demo_hello)
      (h_share demo_hello) (w_session_id demo_half) (w_share demo_half) (h_bd demo_hello)
      (of_int (w_issued_at demo_half)) (of_int (w_ttl demo_half)) = Some tr" by blast
  have v: "link_verify_p256_signature demo demo_key65 tr g" for g
    by (simp add: link_verify_p256_signature_def demo_key65_def demo_def)
  show ?thesis
    by (simp only: register_verify_def Let_def k tr demo_field v LINK_SESSION_KEY_LEN_def
        prod.case option.case bool.case if_True)
qed

text \<open>The whole handshake, from the first exchange to the committed session.\<close>

definition demo_open :: link where
  "demo_open = (link_init demo_os)\<lparr>link_sockfd := 3, link_socket_path := ''/tmp/nexus.sock''\<rparr>"

lemma connect_first:
  "link_socket_connect s = (True, t) \<Longrightarrow> 0 \<le> link_sockfd t \<Longrightarrow>
   link_send_request q s = link_send_request q t"
  by (simp add: link_send_request_def link_socket_connect_def)

lemma demo_connect:
  "link_register_if_needed C ((link_init demo_os)\<lparr>input := i\<rparr>) =
   link_register_if_needed C (demo_open\<lparr>input := i\<rparr>)"
proof -
  have "link_socket_connect ((link_init demo_os)\<lparr>input := i\<rparr>) = (True, demo_open\<lparr>input := i\<rparr>)"
    by (simp add: link_socket_connect_def link_resolve_socket_path_def os_socket_def os_connect_def
        link_init_def demo_os_def demo_open_def os.defs)
  then have "link_send_request q ((link_init demo_os)\<lparr>input := i\<rparr>) =
      link_send_request q (demo_open\<lparr>input := i\<rparr>)" for q
    by (rule connect_first) (simp add: demo_open_def)
  then show ?thesis
    by (simp add: link_register_if_needed_def register_keys_def link_get_bridge_pubkey_def)
       (simp add: demo_open_def link_init_def os.defs)
qed

lemma demo_run:
  assumes q: "quiet s" "\<not> link_secp_ctx s" "\<not> link_session_active s" "\<not> link_pinned_sep_pub_set s"
    and rx: "rx s = map RdByte (CHR ''{'' # demo_key_body) @ RdByte CHR ''}'' #
          map RdByte (CHR ''{'' # demo_key_body) @ RdByte CHR ''}'' #
          map RdByte (CHR ''{'' # demo_register_body) @ RdByte CHR ''}'' # r"
    and rd: "rand s = Some ''nonce'' # Some ''share'' # None # Some ''key'' # Some ''eph'' # Some ''iv1'' # rs"
    and ck: "clock s = [86400]"
  shows "\<exists>o'. link_register_if_needed demo s = (Inr (), register_commit demo_key65 (replicate 16 NUL) demo_key
     (s\<lparr>link_secp_ctx := True, clock := [], rand := rs, sent := o', rx := r\<rparr>))"
proof -
  let ?r1 = "map RdByte (CHR ''{'' # demo_key_body) @ RdByte CHR ''}'' #
          map RdByte (CHR ''{'' # demo_register_body) @ RdByte CHR ''}'' # r"
  let ?r2 = "map RdByte (CHR ''{'' # demo_register_body) @ RdByte CHR ''}'' # r"
  have m: "mem s = []" using q(1) by (simp add: quiet_def)
  obtain o1 where 1: "link_get_bridge_pubkey demo s = (Some demo_key65, s\<lparr>sent := o1, rx := ?r1\<rparr>)"
    using demo_bridge_keys(1) [OF q(1) rx] by blast
  let ?s1 = "s\<lparr>sent := o1, rx := ?r1\<rparr>"
  have q1: "quiet ?s1" "rx ?s1 = ?r1" using q(1) by simp_all
  obtain o2 where "link_get_bridge_sep_pub demo ?s1 = (Some demo_key65, ?s1\<lparr>sent := o2, rx := ?r2\<rparr>)"
    using demo_bridge_keys(2) [OF q1] by blast
  then have 2: "register_keys demo s = (Inr (demo_key65, demo_key65), s\<lparr>sent := o2, rx := ?r2\<rparr>)"
    using 1 q(4) by (simp add: register_keys_def)
  let ?s2 = "s\<lparr>sent := o2, rx := ?r2\<rparr>" and ?e = "Some ''eph'' # Some ''iv1'' # rs"
  have 3: "register_material demo ?s2 =
      (Inr demo_hello, ?s2\<lparr>rand := ?e, link_secp_ctx := True, clock := []\<rparr>)"
    using rd ck m q(2) by (intro demo_material) simp_all
  let ?s3 = "?s2\<lparr>rand := ?e, link_secp_ctx := True, clock := []\<rparr>"
  obtain rq where 4: "register_request demo demo_key65 demo_hello ?s3 = (Inr rq, ?s3\<lparr>rand := rs\<rparr>)"
    using demo_request [of ?s3 rs] m by auto
  let ?s4 = "?s3\<lparr>rand := rs\<rparr>" and ?s5 = "?s3\<lparr>rand := rs, sent := o2 @ rq, rx := r\<rparr>"
  have 5: "link_send_request rq ?s4 = (Some demo_reply, ?s5)"
    using send_request_object [of ?s4 "map RdByte (CHR ''{'' # demo_register_body)" r demo_register_body rq]
      q(1) demo_bodies by (simp add: quiet_def filter_id_conv demo_reply_def)
  have 6: "register_response demo (h_priv demo_hello) demo_reply ?s5 = (Inr demo_half, ?s5)"
    using m by (intro demo_response) simp_all
  have "link_register_if_needed demo s =
      (Inr (), register_commit demo_key65 (w_session_id demo_half) demo_key ?s5)"
    using q(3) by (simp only: link_register_if_needed_def 2 3 4 5 6 demo_verify if_False
        prod.case sum.case option.case)
  then show ?thesis
    by (intro exI [of _ "o2 @ rq"]) (simp add: demo_half_def)
qed

definition demo_session :: "inev list \<Rightarrow> link" where
  "demo_session i = snd (link_register_if_needed demo ((link_init demo_os)\<lparr>input := i\<rparr>))"

lemma demo_registers:
  "\<exists>o'. link_register_if_needed demo ((link_init demo_os)\<lparr>input := i\<rparr>) = (Inr (), demo_session i) \<and>
     demo_session i = demo_open\<lparr>input := i, sent := o', rx := map RdByte ''{}'', rand := [Some ''iv2''],
       link_secp_ctx := True, clock := [], link_pinned_sep_pub := demo_key65,
       link_pinned_sep_pub_set := True, link_session_id := replicate 16 NUL,
       link_session_key := demo_key, link_session_id_set := True, link_session_key_set := True,
       link_session_active := True\<rparr>"
proof -
  have "\<exists>o'. link_register_if_needed demo (demo_open\<lparr>input := i\<rparr>) =
      (Inr (), register_commit demo_key65 (replicate 16 NUL) demo_key
     (demo_open\<lparr>input := i, link_secp_ctx := True, clock := [], rand := [Some ''iv2''], sent := o',
        rx := map RdByte ''{}''\<rparr>))"
    by (rule demo_run) (simp_all add: demo_open_def quiet_def link_init_def os.defs demo_os_def)
  then obtain o' where o: "link_register_if_needed demo ((link_init demo_os)\<lparr>input := i\<rparr>) =
      (Inr (), register_commit demo_key65 (replicate 16 NUL) demo_key
     (demo_open\<lparr>input := i, link_secp_ctx := True, clock := [], rand := [Some ''iv2''], sent := o',
        rx := map RdByte ''{}''\<rparr>))" unfolding demo_connect by blast
  show ?thesis
    unfolding demo_session_def o
    by (rule exI [of _ o']) (simp add: register_commit_def demo_open_def link_init_def os.defs)
qed

text \<open>Then a delivery over the new session: \<open>bsh-inject --type cmd --context c\<close> with \<open>ls\<close> on its input.\<close>

definition demo_argv :: "string list" where
  "demo_argv = [''--type'', ''cmd'', ''--context'', ''c'']"

lemma demo_inject_open:
  assumes "quiet s" "link_session_active s" "link_session_key_set s" "link_session_id_set s"
    and "length (link_session_key s) = 32" "input s = [InData ''ls'']"
    and "rx s = map RdByte ''{}'' @ r" "rand s = [Some ''iv2'']"
  shows "\<exists>o'. bin_bsh_inject demo ''bsh-inject'' demo_argv s =
     (0, s\<lparr>input := [], link_c_shell_to_agent := link_c_shell_to_agent s + 1, rand := [],
        sent := o', rx := r\<rparr>)"
proof -
  have m: "mem s = []" using assms(1) by (simp add: quiet_def)
  have a: "inject_args demo_argv None None = Inr (Some ''cmd'', Some ''c'')"
    by (simp add: demo_argv_def)
  have i: "link_read_stdin s = (Some ''ls'', s\<lparr>input := []\<rparr>)"
    using m assms(6) by (simp add: link_read_stdin_def os_alloc_def stdin_loop.simps)
  have g: "link_register_if_needed demo (s\<lparr>input := []\<rparr>) = (Inr (), s\<lparr>input := []\<rparr>)"
    using assms(2) by (simp add: link_register_if_needed_def)
  let ?n = "link_c_shell_to_agent s + 1"
  let ?s1 = "s\<lparr>input := [], link_c_shell_to_agent := ?n\<rparr>"
  obtain q where q: "deliver_request demo ?n ''cmd'' ''c'' ''ls'' ?s1 = (Inr q, ?s1\<lparr>rand := []\<rparr>)"
    using deliver_request_total [OF demo_base64 demo_aead demo_seal, of ?s1 "''iv2''" "[]" "''cmd''" "''c''"]
      assms m by auto
  have "link_send_request q (?s1\<lparr>rand := []\<rparr>) = (Some ''{}'', ?s1\<lparr>rand := [], sent := sent s @ q, rx := r\<rparr>)"
    using send_request_object [of "?s1\<lparr>rand := []\<rparr>" "[RdByte CHR ''{'']" r "[]" q] assms(1,7) bal_nil
    by (simp add: quiet_def)
  then have "link_emit_deliver demo ?n ''cmd'' ''c'' ''ls'' ?s1 =
      (Inr (), ?s1\<lparr>rand := [], sent := sent s @ q, rx := r\<rparr>)"
    by (simp add: link_emit_deliver_def q jstr_def quote_def)
  then show ?thesis
    by (intro exI [of _ "sent s @ q"]) (simp add: bin_bsh_inject_def a i g)
qed

lemma inject_registers_first:
  assumes "link_read_stdin s = (Some b, s1)" "link_register_if_needed C s1 = (Inr (), t)"
    and "link_read_stdin t' = (Some b, t)"
    and "inject_args argv None None = Inr (Some ty, Some cx)"
  shows "bin_bsh_inject C nam argv s = bin_bsh_inject C nam argv t'"
proof -
  have "link_register_if_needed C t = (Inr (), t)"
    using register_Inr_active [OF assms(2)] by (simp add: link_register_if_needed_def)
  then show ?thesis
    by (simp add: bin_bsh_inject_def assms)
qed

lemma demo_session_facts:
  "quiet (demo_session i)" "link_session_active (demo_session i)" "mem (demo_session i) = []"
  "link_session_key_set (demo_session i)" "link_session_id_set (demo_session i)"
  "length (link_session_key (demo_session i)) = 32" "input (demo_session i) = i"
  "rx (demo_session i) = map RdByte ''{}''" "rand (demo_session i) = [Some ''iv2'']"
  "link_c_shell_to_agent (demo_session i) = 0" "link_pinned_sep_pub_set (demo_session i)"
  "link_pinned_sep_pub (demo_session i) = demo_key65" "link_session_key (demo_session i) = demo_key"
  using demo_registers [of i]
  by (auto simp: quiet_def demo_open_def link_init_def os.defs demo_os_def demo_key_def demo_hello_def)

lemma demo_injects:
  "\<exists>t. bin_bsh_inject demo ''bsh-inject'' demo_argv (link_init demo_os) = (0, t) \<and>
     link_session_active t \<and> link_session_key t = demo_key \<and> link_c_shell_to_agent t = 1 \<and>
     link_pinned_sep_pub_set t \<and> link_pinned_sep_pub t = demo_key65"
proof -
  let ?i = "[InData ''ls'']" and ?s = "link_init demo_os"
  have 1: "link_read_stdin ?s = (Some ''ls'', ?s\<lparr>input := []\<rparr>)"
    by (simp add: link_read_stdin_def os_alloc_def stdin_loop.simps link_init_def os.defs demo_os_def)
  have 2: "link_register_if_needed demo (?s\<lparr>input := []\<rparr>) = (Inr (), demo_session [])"
    using demo_registers [of "[]"] by auto
  have 3: "link_read_stdin (demo_session []\<lparr>input := ?i\<rparr>) = (Some ''ls'', demo_session [])"
    using demo_session_facts [of "[]"]
    by (simp add: link_read_stdin_def os_alloc_def stdin_loop.simps)
  have 4: "inject_args demo_argv None None = Inr (Some ''cmd'', Some ''c'')"
    by (simp add: demo_argv_def)
  have e: "bin_bsh_inject demo ''bsh-inject'' demo_argv ?s =
      bin_bsh_inject demo ''bsh-inject'' demo_argv (demo_session []\<lparr>input := ?i\<rparr>)"
    by (rule inject_registers_first [OF 1 2 3 4])
  show ?thesis
    using demo_inject_open [of "demo_session []\<lparr>input := ?i\<rparr>" "[]"] demo_session_facts [of "[]"]
    unfolding e by (auto simp: quiet_def)
qed

end
