(* ===== verification/Link_Props.thy ===== *)
theory Link_Props
  imports Link_Run
begin

text \<open>
  The properties of \<open>Src/Modules/brightlink.c\<close>: what a registration establishes, the
  life of a session over any sequence of builtin calls, what goes over the wire, and the
  behaviours that differ from the documentation.
\<close>

section \<open>Registration\<close>

text \<open>C1: A session is established only by a complete handshake: the two keys were fetched
  and agree with the pinned one, the client's material is fresh, the request built from it
  was answered, the bridge's signature over the transcript of exactly these values verifies
  under the enclave key, and the session key is HKDF of both shares salted with nonce and
  session identifier.  Counters restart at 0 and the enclave key is pinned.\<close>

theorem register_authentic:
  assumes "link_register_if_needed C st = (Inr (), st')" and "\<not> link_session_active st"
  shows "\<exists>bridge sep s1 h s2 req s3 resp s4 w s5 tr sig.
     register_keys C st = (Inr (bridge, sep), s1) \<and>
     register_material C s1 = (Inr h, s2) \<and>
     register_request C bridge h s2 = (Inr req, s3) \<and>
     link_send_request req s3 = (Some resp, s4) \<and>
     register_response C (h_priv h) resp s4 = (Inr w, s5) \<and>
     link_build_transcript (h_nonce h) (h_pub h) (h_share h) (w_session_id w) (w_share w)
       (h_bd h) (of_int (w_issued_at w)) (of_int (w_ttl w)) = Some tr \<and>
     link_verify_p256_signature C sep tr sig \<and>
     link_hkdf_sha256 C (h_share h @ w_share w) (h_nonce h @ w_session_id w) LINK_HKDF_INFO 32
       = Some (link_session_key st') \<and>
     (link_pinned_sep_pub_set st \<longrightarrow> sep = link_pinned_sep_pub st) \<and>
     session_of st' = (True, w_session_id w, link_session_key st', True, True, 0, 0, sep, True)"
proof -
  from assms obtain b sep s1 h s2 q s3 resp s4 w s5 key s6 where
    st: "register_keys C st = (Inr (b, sep), s1)" "register_material C s1 = (Inr h, s2)"
      "register_request C b h s2 = (Inr q, s3)" "link_send_request q s3 = (Some resp, s4)"
      "register_response C (h_priv h) resp s4 = (Inr w, s5)"
      "register_verify C sep h w resp s5 = (Inr key, s6)"
      "st' = register_commit sep (w_session_id w) key s6"
    by (auto simp: link_register_if_needed_def split: prod.splits sum.splits option.splits if_splits)
  have "session_of s6 = session_of st" using st(1-6) by (auto dest!: frameD)
  note same = session_of_eqD [OF this]
  from register_verify_Inr [OF st(6)] obtain tr sig where
    v: "link_build_transcript (h_nonce h) (h_pub h) (h_share h) (w_session_id w) (w_share w)
       (h_bd h) (of_int (w_issued_at w)) (of_int (w_ttl w)) = Some tr"
      "link_verify_p256_signature C sep tr sig"
      "link_hkdf_sha256 C (h_share h @ w_share w) (h_nonce h @ w_session_id w) LINK_HKDF_INFO 32
       = Some key" by blast
  have k: "link_session_key st' = key" by (simp add: st(7) register_commit_def Let_def)
  have pin: "link_pinned_sep_pub_set st \<longrightarrow> sep = link_pinned_sep_pub st"
    using register_keys_Inr [OF st(1)] by simp
  have "session_of st' = (True, w_session_id w, key, True, True, 0, 0, sep, True)"
    using pin same by (simp add: st(7) register_commit_facts)
  then show ?thesis
    unfolding k by (intro exI conjI) (rule st(1-5) v pin)+
qed

lemma init_inactive [simp]: "\<not> link_session_active ((link_init e)\<lparr>input := i\<rparr>)"
  by (simp add: link_init_def os.defs)

theorem register_authentic_witness:
  "\<exists>sep tr sig. link_verify_p256_signature demo sep tr sig \<and> length tr = 238 \<and>
     session_of (demo_session []) = (True, link_session_id (demo_session []),
        link_session_key (demo_session []), True, True, 0, 0, sep, True)"
proof -
  have "link_register_if_needed demo ((link_init demo_os)\<lparr>input := []\<rparr>) = (Inr (), demo_session [])"
    using demo_registers [of "[]"] by blast
  from register_authentic [OF this init_inactive] show ?thesis
    by (auto simp: session_of_def dest: link_build_transcript_length)
qed

text \<open>C18: Registration fails closed: whatever the bridge answers and whichever resource runs
  out, a failed registration leaves every session variable as it was, with no session; a
  successful one leaves an active session.\<close>

theorem register_fails_closed:
  "case link_register_if_needed C st of
     (Inl e, st') \<Rightarrow> session_of st' = session_of st \<and> \<not> link_session_active st'
   | (Inr _, st') \<Rightarrow> link_session_active st'"
proof (cases "link_register_if_needed C st")
  case (Pair r st')
  then show ?thesis
  proof (cases rule: link_register_cases)
    case (failed e)
    with Pair session_of_eqD [OF failed(3)] show ?thesis by simp
  next
    case active
    with Pair show ?thesis by simp
  next
    case committed
    with Pair show ?thesis by (simp add: register_commit_def Let_def)
  qed
qed

section \<open>The session over all calls\<close>

text \<open>C6: In every state the module can reach, the three flags agree, the buffers have their
  sizes, and a session is open only under a pinned enclave key.\<close>

theorem reachable_inv:
  assumes "link_reach C s"
  shows "link_session_id_set s = link_session_active s \<and>
     link_session_key_set s = link_session_active s \<and>
     length (link_session_id s) = 16 \<and> length (link_session_key s) = 32 \<and>
     length (link_pinned_sep_pub s) = 65 \<and>
     (link_session_active s \<longrightarrow> link_pinned_sep_pub_set s)"
  using link_reach_inv [OF assms] by (simp add: link_inv_def)

lemma demo_step:
  "link_step demo (link_init demo_os) (snd (bin_bsh_inject demo ''bsh-inject'' demo_argv (link_init demo_os)))"
  by (rule step_inject [OF surjective_pairing])

theorem reachable_inv_witness:
  "\<exists>t. link_reach demo t \<and> link_session_active t \<and> link_pinned_sep_pub_set t"
proof -
  from demo_injects obtain t where
    t: "bin_bsh_inject demo ''bsh-inject'' demo_argv (link_init demo_os) = (0, t)"
      "link_session_active t" by blast
  then have "link_reach demo t" by (blast intro: reach_init reach_step step_inject)
  with reachable_inv [OF this] t(2) show ?thesis by blast
qed

text \<open>C19: Trust on first use: once an enclave key is pinned, no sequence of calls, answers and
  unloads changes it.\<close>

theorem pin_forever:
  assumes "(link_step C)\<^sup>*\<^sup>* s t" and "link_pinned_sep_pub_set s"
  shows "link_pinned_sep_pub_set t \<and> link_pinned_sep_pub t = link_pinned_sep_pub s"
proof -
  from assms(1) have "pin_of s = Some k \<longrightarrow> pin_of t = Some k" for k
    by (induction rule: rtranclp_induct) (auto intro: pin_of_step)
  with assms(2) have "pin_of t = Some (link_pinned_sep_pub s)" by (simp add: pin_of_def)
  then show ?thesis by (simp add: pin_of_def split: if_splits)
qed

theorem pin_forever_witness:
  "\<exists>t. link_pinned_sep_pub_set t \<and> link_pinned_sep_pub (link_finish t) = demo_key65"
proof -
  from demo_injects obtain t :: link where "link_pinned_sep_pub_set t" "link_pinned_sep_pub t = demo_key65"
    by auto
  moreover have "(link_step demo)\<^sup>*\<^sup>* t (link_finish t)"
    by (intro r_into_rtranclp step_finish refl)
  ultimately show ?thesis using pin_forever [of demo t "link_finish t"] by auto
qed

text \<open>C9: \<open>bsh-inject\<close> returns 0 or 1.  It returns 0 only over an active session, with the
  counter one higher than before (or 1 in a session it has just opened).  When it returns 1
  the counter has not moved, or it is 0 in a new session, and an existing session is kept
  as it was.\<close>

theorem inject_counter:
  "case bin_bsh_inject C nam argv s of (rc, t) \<Rightarrow>
     (rc = 0 \<and> link_session_active t \<and>
        link_c_shell_to_agent t = (if link_session_active s then link_c_shell_to_agent s else 0) + 1)
     \<or> (rc = 1 \<and> (session_of t = session_of s \<or>
          \<not> link_session_active s \<and> link_session_active t \<and> link_c_shell_to_agent t = 0))"
proof (cases "bin_bsh_inject C nam argv s")
  case (Pair rc t)
  have reg: "link_session_active s2 \<and> (session_of s2 = session_of s1 \<and> link_session_active s1 \<or>
      \<not> link_session_active s1 \<and> link_c_shell_to_agent s2 = 0)"
    if "link_register_if_needed C s1 = (Inr (), s2)" for s1 s2 :: link
    using link_register_session [OF that] by (auto simp: session_of_def)
  from Pair show ?thesis
  proof (cases rule: bin_bsh_inject_cases)
    case refused
    with Pair show ?thesis by simp
  next
    case (unsent s1 s2)
    with reg [OF unsent(3)] session_of_eqD [OF unsent(2)] session_of_eqD [OF unsent(4)] Pair
    show ?thesis by auto
  next
    case (delivered ty cx body s1 s2 s3)
    with reg [OF delivered(5)] session_of_eqD [OF delivered(4)] session_of_eqD [OF delivered(8)] Pair
    show ?thesis by (auto dest: session_of_eqD)
  qed
qed

section \<open>What a delivery sends\<close>

text \<open>C20: The request of a delivery: the body is sealed under the session key with a fresh
  12-byte IV and additional data that bind direction, counter, type and context, and the
  request carries the counter, the escaped type and context and the three encodings,
  nothing else.\<close>

theorem deliver_request_shape:
  assumes "deliver_request C n ty cx body s = (Inr req, t)"
  shows "link_session_key_set s \<and> link_session_id_set s \<and>
    (\<exists>iv ct tag s1.
       os_rand 12 s = (Some iv, s1) \<and> length iv = 12 \<and> length ct = length body \<and>
       evp_gcm_seal C (link_session_key s) iv
         (lp [CHR 0x01] @ lp (link_be64 n) @ lp ty @ lp cx) body = Some (ct, tag) \<and>
       req = deliver_json n (json_esc ty) (json_esc cx) (evp_encode_block C iv)
               (evp_encode_block C ct) (evp_encode_block C tag))"
proof -
  have keep: "link_session_key s1 = link_session_key s" if "os_rand 12 s = (x, s1)" for x s1
    using that by (auto simp: os_rand_def split: list.splits)
  have keep2: "link_session_key s2 = link_session_key s1" if "os_alloc k s1 = (x, s2)" for k x and s1 s2 :: link
    using that by (auto simp: os_alloc_def split: list.splits)
  from assms obtain aad iv s1 s2 ct tag iv_b64 tag_b64 ct_b64 where
    flags: "link_session_key_set s" "link_session_id_set s" and
    aad: "link_build_deliver_aad (CHR 0x01) (link_be64 n) ty cx 2048 = Some aad" and
    iv: "os_rand 12 s = (Some iv, s1)" and al: "os_alloc (length body) s1 = (True, s2)" and
    enc: "link_aes_gcm_encrypt C (link_session_key s2) iv aad body = Some (ct, tag)" and
    b64: "link_b64encode C iv 32 = Some iv_b64" "link_b64encode C tag 32 = Some tag_b64"
      "link_b64encode C ct (4 * ((length body + 2) div 3) + 1) = Some ct_b64" and
    req: "req = deliver_json n (json_esc ty) (json_esc cx) iv_b64 ct_b64 tag_b64"
    by (auto simp: deliver_request_def Let_def
        split: if_splits option.splits prod.splits bool.splits)
  note k = keep [OF iv] keep2 [OF al]
  have a: "aad = lp [CHR 0x01] @ lp (link_be64 n) @ lp ty @ lp cx"
    using aad by (auto simp: link_build_deliver_aad_lp split: if_splits)
  have e: "iv_b64 = evp_encode_block C iv" "tag_b64 = evp_encode_block C tag"
    "ct_b64 = evp_encode_block C ct"
    using b64 by (auto simp: link_b64encode_def Let_def split: if_splits)
  note g = link_aes_gcm_encrypt_SomeD [OF enc]
  have "os_rand 12 s = (Some iv, s1) \<and> length iv = 12 \<and> length ct = length body \<and>
       evp_gcm_seal C (link_session_key s) iv
         (lp [CHR 0x01] @ lp (link_be64 n) @ lp ty @ lp cx) body = Some (ct, tag) \<and>
       req = deliver_json n (json_esc ty) (json_esc cx) (evp_encode_block C iv)
               (evp_encode_block C ct) (evp_encode_block C tag)"
    using g iv unfolding req e a k by simp
  with flags show ?thesis by blast
qed

lemma demo_deliver:
  "\<exists>q. deliver_request demo 1 ''cmd'' ''c'' ''ls'' (demo_session []) =
     (Inr q, (demo_session [])\<lparr>rand := []\<rparr>)"
  using demo_session_facts [of "[]"]
  by (intro deliver_request_total [OF demo_base64 demo_aead demo_seal]) simp_all

theorem deliver_request_shape_witness:
  "\<exists>q iv ct tag. fst (deliver_request demo 1 ''cmd'' ''c'' ''ls'' (demo_session [])) = Inr q \<and>
     q = deliver_json 1 (json_esc ''cmd'') (json_esc ''c'') (b64e iv) (b64e ct) (b64e tag)"
proof -
  from demo_deliver obtain q where
    q: "deliver_request demo 1 ''cmd'' ''c'' ''ls'' (demo_session []) = (Inr q, (demo_session [])\<lparr>rand := []\<rparr>)"
    by blast
  have "evp_encode_block demo = b64e" by (simp add: demo_def)
  with deliver_request_shape [OF q] q show ?thesis by auto
qed

text \<open>C22: The additional data determine direction, counter, type and context, so a sealed
  message cannot be presented under another of these.\<close>

theorem deliver_aad_inj:
  assumes "link_build_deliver_aad d c ty cx cap = Some a"
    and "link_build_deliver_aad d' c' ty' cx' cap' = Some a"
    and "cap < 2 ^ 32" "cap' < 2 ^ 32"
  shows "d = d' \<and> c = c' \<and> ty = ty' \<and> cx = cx'"
  using assms by (rule deliver_aad_inj_aux)

theorem deliver_aad_inj_witness:
  "link_build_deliver_aad (CHR 0x01) (link_be64 1) ''cmd'' ''c'' 2048 \<noteq> None \<and>
   link_build_deliver_aad (CHR 0x01) (link_be64 1) ''cmd'' ''c'' 2048
     \<noteq> link_build_deliver_aad (CHR 0x01) (link_be64 2) ''cmd'' ''c'' 2048"
proof -
  have s: "\<exists>a. link_build_deliver_aad (CHR 0x01) (link_be64 n) ''cmd'' ''c'' 2048 = Some a" for n
    by (simp add: link_build_deliver_aad_lp)
  then obtain a where a: "link_build_deliver_aad (CHR 0x01) (link_be64 1) ''cmd'' ''c'' 2048 = Some a"
    by blast
  show ?thesis
  proof (intro conjI notI)
    assume "link_build_deliver_aad (CHR 0x01) (link_be64 1) ''cmd'' ''c'' 2048
      = link_build_deliver_aad (CHR 0x01) (link_be64 2) ''cmd'' ''c'' 2048"
    with a have "link_build_deliver_aad (CHR 0x01) (link_be64 2) ''cmd'' ''c'' 2048 = Some a" by simp
    from deliver_aad_inj [OF a this] show False by simp
  qed (simp add: a)
qed

text \<open>C23: The signed transcript is 238 bytes and determines every value that went into it, so
  a signature over it is a signature over nonce, key, shares, session identifier, both
  times and the lifetime.\<close>

theorem transcript_binds:
  assumes "link_build_transcript n p sh si b bd t ttl = Some x"
    and "link_build_transcript n' p' sh' si' b' bd' t' ttl' = Some x"
    and "length n = 16" "length p = 65" "length sh = 32" "length si = 16" "length b = 32"
    and "length n' = 16" "length p' = 65" "length sh' = 32" "length si' = 16" "length b' = 32"
  shows "length x = 238 \<and> n = n' \<and> p = p' \<and> sh = sh' \<and> si = si' \<and> b = b'
     \<and> issued_at_unix bd = issued_at_unix bd' \<and> t = t' \<and> ttl = ttl'"
  using transcript_inj_aux [OF assms] link_build_transcript_length [OF assms(1)] by simp

theorem transcript_binds_witness:
  "\<exists>x. link_build_transcript (replicate 16 NUL) demo_key65 (replicate 32 NUL) (replicate 16 NUL)
     (replicate 32 NUL) 1 5 3600 = Some x \<and> length x = 238"
proof -
  obtain x where x: "link_build_transcript (replicate 16 NUL) demo_key65 (replicate 32 NUL)
      (replicate 16 NUL) (replicate 32 NUL) 1 5 3600 = Some x"
    by (subst (asm) link_build_transcript_Some) (simp_all add: demo_key65_def)
  from transcript_binds [OF x x] x show ?thesis by (auto simp: demo_key65_def)
qed

text \<open>C21: An envelope sealed for a public key opens, with the secret key of that public key,
  to the plaintext; the decoder recomputes the key, the additional data and the split of
  the envelope from the bytes alone.\<close>

theorem ecies_roundtrip:
  assumes laws: "aead_laws C" "ecdh_laws C"
    and enc: "link_ecies_encrypt C pub pt s = (Some env, s')"
    and rcpt: "secp_pubkey_parse C pub = Some Q" "secp_pubkey_create C k = Some Q"
    and res: "mem t = []" "link_secp_ctx t"
  shows "link_ecies_decrypt C k env t = (Some pt, t)"
proof -
  from enc rcpt obtain s1 s2 e p x key iv ct tag where
    st: "link_secp_pub_compressed C e s1 = (Some p, s2)"
    and x: "secp_ecdh C Q e = Some x" "link_hkdf_sha256 C x [] DD_ECIES_HKDF_INFO 32 = Some key"
    and c: "link_aes_gcm_encrypt C key iv (ecies_aad p) pt = Some (ct, tag)"
    and env: "env = [CHR 0x01, CHR 0x01, CHR 0x21] @ p @ iv @ tag @ ct"
    by (auto simp: link_ecies_encrypt_def split: prod.splits option.splits bool.splits)
  from st obtain P where P: "secp_pubkey_create C e = Some P"
    "secp_pubkey_serialize C True P = Some p"
    by (auto simp: link_secp_pub_compressed_def split: prod.splits option.splits bool.splits if_splits)
  with laws(2) have p: "length p = 33" "hd p = CHR 0x02 \<or> hd p = CHR 0x03"
    "secp_pubkey_parse C p = Some P" unfolding ecdh_laws_def by blast+
  have "p \<noteq> []" using p(1) by auto
  with p(2) have p0: "p ! 0 = CHR 0x02 \<or> p ! 0 = CHR 0x03" by (simp add: hd_conv_nth)
  have dh: "secp_ecdh C P k = Some x"
  proof -
    have "map_option fst (secp_ecdh_point C Q e) = map_option fst (secp_ecdh_point C P k)"
      using laws(2) P(1) rcpt(2) unfolding ecdh_laws_def by blast
    moreover have "secp_ecdh C R d = map_option fst (secp_ecdh_point C R d)" for R d
      by (cases "secp_ecdh_point C R d") (auto simp: secp_ecdh_def link_secp_ecdh_xonly_cb_def)
    ultimately show ?thesis using x(1) by simp
  qed
  note g = link_aes_gcm_encrypt_SomeD [OF c]
  with laws(1) have o: "length ct = length pt" "length tag = 16"
    "evp_gcm_open C key iv (ecies_aad p) ct tag = Some pt" unfolding aead_laws_def by blast+
  have l: "length iv = 12" "length key = 32" using g by auto
  have parts: "take 33 (drop 3 env) = p" "take 12 (drop 36 env) = iv"
    "take 16 (drop 48 env) = tag" "drop 64 env = ct" "64 \<le> length env"
    using p l o unfolding env by simp_all
  have head: "env ! 0 = CHR 0x01" "env ! 1 = CHR 0x01" "env ! 2 = CHR 0x21" "env ! 3 = p ! 0"
    using p(1) unfolding env by (simp_all add: nth_append)
  show ?thesis
    unfolding link_ecies_decrypt_def head parts(1-4) Let_def
    using p0 parts(5) l o res
    by (auto simp: link_secp_def p(3) dh x(2) os_alloc_def link_aes_gcm_decrypt_def)
qed

theorem ecies_roundtrip_witness:
  "\<exists>env s'. link_ecies_encrypt demo demo_key65 ''hi''
        ((demo_session [])\<lparr>rand := [Some ''eph'', Some ''iv1'']\<rparr>) = (Some env, s') \<and>
     link_ecies_decrypt demo (replicate 32 NUL) env (demo_session []) = (Some ''hi'', demo_session [])"
proof -
  have ctx: "link_secp_ctx (demo_session [])" using demo_registers [of "[]"] by auto
  let ?s = "(demo_session [])\<lparr>rand := [Some ''eph'', Some ''iv1'']\<rparr>"
  obtain env s' where e: "link_ecies_encrypt demo demo_key65 ''hi'' ?s = (Some env, s')"
    using demo_seals [of ?s "[]" "''hi''"] ctx demo_session_facts(3) [of "[]"] by auto
  have "secp_pubkey_parse demo demo_key65 = Some 0" "secp_pubkey_create demo (replicate 32 NUL) = Some 0"
    by (simp_all add: demo_def demo_key65_def byte_sum_def sum_list_replicate)
  from ecies_roundtrip [OF demo_aead demo_ecdh e this demo_session_facts(3) ctx] e
  show ?thesis by blast
qed

section \<open>Encodings\<close>

text \<open>Base64 round trip: what \<open>link_b64encode\<close> wrote, \<open>link_b64decode\<close> reads back with the
  padding removed, for every byte string that fits the caller's buffer.  Up to 8192 bytes with
  the padding it needs no memory; above, it fails if and only if the memory for them cannot be
  had, and nothing else of the state changes.\<close>

theorem b64_roundtrip:
  assumes "base64_laws C" "link_b64encode C b cap = Some e" "length b \<le> cap'"
  shows "link_b64decode C e cap' st =
    (if length b + b64_pad (length b) \<le> 8192 then (Some b, st)
     else case os_alloc (length b + b64_pad (length b)) st of (ok, st) \<Rightarrow> (if ok then Some b else None, st))"
proof -
  have "e = evp_encode_block C b"
    using link_b64encode_SomeD [OF assms(1,2)] by blast
  with b64_roundtrip_aux [OF assms(1,3)] show ?thesis by simp
qed

theorem b64_roundtrip_witness:
  "link_b64encode demo ''bsh'' 5 = Some (b64e ''bsh'') \<and>
   link_b64decode demo (b64e ''bsh'') 3 (demo_session []) = (Some ''bsh'', demo_session []) \<and>
   (\<exists>e. link_b64encode demo (replicate 9000 CHR ''x'') 12001 = Some e \<and>
     fst (link_b64decode demo e 9000 (demo_session [])) = Some (replicate 9000 CHR ''x'') \<and>
     fst (link_b64decode demo e 9000 ((demo_session [])\<lparr>mem := [False]\<rparr>)) = None)"
proof -
  have e: "link_b64encode demo ''bsh'' 5 = Some (b64e ''bsh'')"
    by (simp add: link_b64encode_def demo_def)
  have l: "link_b64encode demo (replicate 9000 CHR ''x'') 12001 = Some (b64e (replicate 9000 CHR ''x''))"
    by (simp add: link_b64encode_def demo_def del: replicate.simps)
  have p: "b64_pad 9000 = 0" by (simp add: b64_pad_def)
  have "link_b64decode demo (b64e ''bsh'') 3 (demo_session []) = (Some ''bsh'', demo_session [])"
    using b64_roundtrip [OF demo_base64 e, of 3 "demo_session []"] by (simp add: b64_pad_def)
  moreover have "fst (link_b64decode demo (b64e (replicate 9000 CHR ''x'')) 9000 (demo_session [])) = Some (replicate 9000 CHR ''x'')"
    using b64_roundtrip [OF demo_base64 l, of 9000 "demo_session []"] demo_session_facts(3) [of "[]"]
    by (simp add: p os_alloc_def del: replicate.simps)
  moreover have "fst (link_b64decode demo (b64e (replicate 9000 CHR ''x'')) 9000 ((demo_session [])\<lparr>mem := [False]\<rparr>)) = None"
    using b64_roundtrip [OF demo_base64 l, of 9000 "(demo_session [])\<lparr>mem := [False]\<rparr>"]
    by (simp add: p os_alloc_def del: replicate.simps)
  ultimately show ?thesis using e l by (intro conjI exI [of _ "b64e (replicate 9000 CHR ''x'')"])
qed

text \<open>The escaping of a delivery is undone by the module's own field reader: the type read
  back from the request text is the type given, with bytes outside ASCII replaced by a
  question mark.\<close>

lemma strstr_skip: "quote \<notin> set p \<Longrightarrow> strstr (p @ r) (quote # k) = strstr r (quote # k)"
  by (induction p) auto

theorem deliver_type_roundtrip:
  assumes "length ty < cap"
  shows "link_json_field_str (deliver_json n (json_esc ty) cx iv ct tag) ''type'' cap
     = (True, map lossy ty)"
proof -
  have d: "quote \<notin> set (dec (unat n))"
    using isdigit_dec [of quote "unat n"] by (auto simp: quote_def isdigit_def)
  define r where "r = '','' @ jkey ''context'' @ jstr cx @ '','' @ jkey ''iv'' @ jstr iv @ '',''
     @ jkey ''ciphertext'' @ jstr ct @ '','' @ jkey ''authTag'' @ jstr tag @ ''}''"
  let ?v = "quote # json_esc ty @ quote # r"
  have e: "deliver_json n (json_esc ty) cx iv ct tag =
     (''{'' @ jkey ''cmd'' @ jstr ''LINK_DELIVER'' @ '','' @ jkey ''counter'')
      @ dec (unat n) @ '','' @ jkey ''type'' @ ?v"
    by (simp add: deliver_json_def r_def jstr_def)
  have "strstr (deliver_json n (json_esc ty) cx iv ct tag) (quote # ''type'' @ [quote])
      = strstr (dec (unat n) @ '','' @ jkey ''type'' @ ?v) (quote # ''type'' @ [quote])"
    unfolding e by (simp add: jkey_def jstr_def quote_def)
  also have "\<dots> = Some (jkey ''type'' @ ?v)"
    unfolding strstr_skip [OF d] by (simp add: jkey_def quote_def)
  finally have "link_json_locate (deliver_json n (json_esc ty) cx iv ct tag) ''type'' = Some ?v"
    by (simp add: link_json_locate_def jkey_def json_ws_def quote_def)
  then show ?thesis
    using json_str_loop_esc [of "[]" ty cap r] assms
    by (simp add: link_json_field_str_def)
qed

theorem deliver_type_roundtrip_witness:
  "link_json_field_str (deliver_json 7 (json_esc [CHR 0x22, CHR ''a'', CHR 0xE9]) ''c'' [] [] [])
     ''type'' 4 = (True, [CHR 0x22, CHR ''a'', CHR ''?''])"
  using deliver_type_roundtrip [of "[CHR 0x22, CHR ''a'', CHR 0xE9]" 4 7] by (simp add: lossy_def)

text \<open>C24: An exchange over an open connection whose reads deliver a JSON object in any chunks,
  with any number of interruptions, returns exactly that object, leaves the bytes after it
  unread and has sent exactly the request.\<close>

theorem exchange_returns_object:
  assumes "0 \<le> link_sockfd s" "tx s = []" "mem s = []" "rx s = evs @ RdByte CHR ''}'' # rest"
    and "filter (\<lambda>e. e \<noteq> RdIntr) evs = map RdByte (CHR ''{'' # a)"
    and "balanced a" "length a + 2 < 16384" "NUL \<notin> set a"
  shows "link_send_request json s =
     (Some (CHR ''{'' # a @ ''}''), s\<lparr>sent := sent s @ json, rx := rest\<rparr>)"
  using send_request_object [of s evs rest a json] assms by (simp add: quiet_def)

theorem exchange_returns_object_witness:
  "fst (link_send_request ''x'' ((demo_session [])\<lparr>rx := [RdByte CHR ''{'', RdIntr, RdByte CHR ''{'',
      RdByte CHR ''}'', RdByte CHR ''}'', RdErr]\<rparr>)) = Some ''{{}}''"
proof -
  have "balanced ''{}''" using bal_braces [OF bal_nil bal_nil] by simp
  then show ?thesis
    using exchange_returns_object [of "(demo_session [])\<lparr>rx := [RdByte CHR ''{'', RdIntr,
        RdByte CHR ''{'', RdByte CHR ''}'', RdByte CHR ''}'', RdErr]\<rparr>"
        "[RdByte CHR ''{'', RdIntr, RdByte CHR ''{'', RdByte CHR ''}'']" "[RdErr]" "''{}''" "''x''"]
      demo_session_facts [of "[]"] by (simp add: quiet_def NUL_def)
qed

text \<open>The delivery buffers are large enough: whatever the counter, type, context and body,
  the request is never refused for its length.\<close>

theorem deliver_never_overflows:
  assumes "base64_laws C"
  shows "fst (deliver_request C n ty cx body s) \<noteq> Inl (Some ''request JSON overflow'')"
proof -
  have "length (deliver_json n te ce iv ct tag) < length ct + length te + length ce + 256"
    if "link_b64encode C x 32 = Some iv" "link_b64encode C y 32 = Some tag" for te ce iv ct tag x y
    using that [THEN link_b64encode_SomeD [OF assms]] by (intro deliver_json_length) auto
  then have no: "\<not> length ct + length te + length ce + 256 \<le> length (deliver_json n te ce iv ct tag)"
    if "link_b64encode C x 32 = Some iv" "link_b64encode C y 32 = Some tag" for te ce iv ct tag x y
    using that by (simp add: not_le)
  show ?thesis
    by (auto simp: deliver_request_def Let_def no split: if_splits option.splits prod.splits bool.splits)
qed

theorem deliver_never_overflows_witness:
  "fst (deliver_request demo 1 ''cmd'' ''c'' ''ls'' (demo_session [])) \<noteq> Inl (Some ''request JSON overflow'')"
  by (rule deliver_never_overflows [OF demo_base64])

text \<open>No reader writes past its buffer: a string field, a raw field and a framed response
  always leave room for the terminator, and a decoded value fits the buffer given.\<close>

theorem readers_in_bounds:
  assumes "0 < cap"
  shows "length (snd (link_json_field_str json key cap)) < cap \<and>
    length (snd (link_json_field_raw json key cap)) < cap \<and>
    (\<forall>m. fst (link_read_until_brace cap s) = RFrame m \<longrightarrow> length m < cap) \<and>
    (\<forall>b. fst (link_json_field_b64 C json key cap s) = Some b \<longrightarrow> length b \<le> cap)"
proof (intro conjI allI impI)
  show "length (snd (link_json_field_str json key cap)) < cap"
    by (rule link_json_field_str_length [OF assms])
  show "length (snd (link_json_field_raw json key cap)) < cap"
    by (rule link_json_field_raw_length [OF assms])
  show "length m < cap" if "fst (link_read_until_brace cap s) = RFrame m" for m
  proof -
    from that obtain r where "read_loop cap (rx s) [] scan_init = (RFrame m, r)"
      by (auto simp: link_read_until_brace_def split: prod.splits)
    from read_loop_length [OF _ this] assms show ?thesis by simp
  qed
  show "length b \<le> cap" if "fst (link_json_field_b64 C json key cap s) = Some b" for b
    using that link_json_field_b64_length [of C json key cap s b] by (metis prod.collapse)
qed

theorem readers_in_bounds_witness:
  "length (snd (link_json_field_str demo_reply ''transcriptSig'' 3)) < 3"
  by (rule conjunct1 [OF readers_in_bounds]) simp

text \<open>The clock survives the detour through days in floating point: the transcript carries
  exactly the second at which the client's material was made, and the six decimals printed
  in the request are within a twentieth of a second of it, so the bridge recovers it.\<close>

theorem clock_roundtrip:
  assumes "t < 2 ^ 40"
  shows "issued_at_unix (ddiv (of_nat t) 86400) = of_nat t \<and>
    \<bar>(of_nat (micros (ddiv (of_nat t) 86400)) / 1000000 * 86400 - of_nat t :: rat)\<bar> \<le> 1 / 20"
  using dtrunc_day_roundtrip [OF assms] micros_day_error [OF assms]
  by (simp_all add: issued_at_unix_def)

theorem clock_roundtrip_witness:
  "issued_at_unix (ddiv (of_nat 1767225600) 86400) = 1767225600"
  using clock_roundtrip [of 1767225600] by simp

section \<open>Standard input\<close>

lemma ev_nonempty: "filter (\<lambda>e. e \<noteq> InIntr) (e # evs) = map InData ds \<Longrightarrow> [] \<notin> set ds \<Longrightarrow>
   (e = InIntr \<and> filter (\<lambda>e. e \<noteq> InIntr) evs = map InData ds) \<or>
   (\<exists>d ds'. e = InData d \<and> d \<noteq> [] \<and> ds = d # ds' \<and> filter (\<lambda>e. e \<noteq> InIntr) evs = map InData ds' \<and>
     [] \<notin> set ds')"
  by (cases "e = InIntr") (auto simp: Cons_eq_map_conv)

lemma stdin_loop_step:
  assumes "\<not> (length buf = cap \<and> 65536 \<le> cap)"
  shows "stdin_loop cap buf [] [] = (Some buf, [], [])"
    and "stdin_loop cap buf (InIntr # r) [] =
      stdin_loop (if length buf = cap then min (cap * 2) 65536 else cap) buf r []"
    and "n = min (length d) ((if length buf = cap then min (cap * 2) 65536 else cap) - length buf) \<Longrightarrow>
      n \<noteq> 0 \<Longrightarrow> stdin_loop cap buf (InData d # r) [] =
      stdin_loop (if length buf = cap then min (cap * 2) 65536 else cap) (buf @ take n d)
        (if n < length d then InData (drop n d) # r else r) []"
  using assms by (subst stdin_loop.simps, simp add: Let_def)+

lemma stdin_loop_body:
  "length buf \<le> cap \<Longrightarrow> 0 < cap \<Longrightarrow> cap \<le> 65536 \<Longrightarrow>
   filter (\<lambda>e. e \<noteq> InIntr) evs = map InData ds \<Longrightarrow> [] \<notin> set ds \<Longrightarrow>
   fst (stdin_loop cap buf evs []) =
     (if length buf + length (concat ds) < 65536 then Some (buf @ concat ds) else None)"
proof (induction "sum_list (map ev_size evs)" arbitrary: cap buf evs ds rule: less_induct)
  case less
  let ?cap = "if length buf = cap then min (cap * 2) 65536 else cap"
  show ?case
  proof (cases "length buf = cap \<and> 65536 \<le> cap")
    case True
    then show ?thesis by (subst stdin_loop.simps) (simp add: Let_def)
  next
    case F: False
    then have room: "length buf < ?cap" "?cap \<le> 65536" "0 < ?cap" using less.prems by auto
    show ?thesis
    proof (cases evs)
      case Nil
      with F less.prems show ?thesis by (auto simp: stdin_loop_step(1) [OF F])
    next
      case (Cons e r)
      from ev_nonempty [OF less.prems(4) [unfolded Cons] less.prems(5)]
      show ?thesis
      proof (elim disjE exE conjE)
        assume e: "e = InIntr" "filter (\<lambda>e. e \<noteq> InIntr) r = map InData ds"
        show ?thesis
          unfolding Cons e(1) stdin_loop_step(2) [OF F]
          using room less.prems(5) e by (intro less.hyps) (auto simp: Cons)
      next
        fix d ds' assume e: "e = InData d" "d \<noteq> []" "ds = d # ds'"
          "filter (\<lambda>e. e \<noteq> InIntr) r = map InData ds'" "[] \<notin> set ds'"
        define n where "n = min (length d) (?cap - length buf)"
        have n: "n \<noteq> 0" "n \<le> length d" "length buf + n \<le> ?cap"
          using e(2) room(1) by (auto simp: n_def)
        let ?r = "if n < length d then InData (drop n d) # r else r"
        let ?ds = "if n < length d then drop n d # ds' else ds'"
        have c: "take n d @ concat ?ds = concat ds" "length (take n d) + length (concat ?ds) = length (concat ds)"
          using n(2) by (auto simp: e(3))
        have "fst (stdin_loop ?cap (buf @ take n d) ?r []) =
           (if length (buf @ take n d) + length (concat ?ds) < 65536
            then Some ((buf @ take n d) @ concat ?ds) else None)"
          using n room e by (intro less.hyps) (auto simp: Cons)
        then show ?thesis
          unfolding Cons e(1) stdin_loop_step(3) [OF F n_def n(1)] using c by simp
      qed
    qed
  qed
qed

text \<open>The body of \<open>bsh-inject\<close> is the whole of standard input, in whatever pieces and with
  whatever interruptions it arrives, when it is shorter than 65536 bytes; 65536 bytes or
  more are refused.\<close>

theorem stdin_body:
  assumes "mem s = []" "filter (\<lambda>e. e \<noteq> InIntr) (input s) = map InData ds" "[] \<notin> set ds"
  shows "fst (link_read_stdin s) = (if length (concat ds) < 65536 then Some (concat ds) else None)"
proof -
  have "fst (stdin_loop 4096 [] (input s) []) =
      (if length (concat ds) < 65536 then Some (concat ds) else None)"
    using stdin_loop_body [of "[]" 4096 "input s" ds] assms by simp
  then show ?thesis
    using assms(1) by (auto simp: link_read_stdin_def os_alloc_def split: prod.splits)
qed

theorem stdin_body_witness:
  "fst (link_read_stdin (demo_session [InData ''ab'', InIntr, InData ''c''])) = Some ''abc''"
  using stdin_body [of "demo_session [InData ''ab'', InIntr, InData ''c'']" "[''ab'', ''c'']"]
    demo_session_facts [of "[InData ''ab'', InIntr, InData ''c'']"] by simp

section \<open>A reply that is lost\<close>

lemma send_request_eof:
  assumes "quiet s" "rx s = RdEOF # r"
  shows "link_send_request json s = (None, s\<lparr>sent := sent s @ json, rx := r, link_sockfd := - 1\<rparr>)"
  using assms by (simp add: quiet_def link_send_request_def link_socket_connect_def link_write_all_def
      write_loop_quiet link_read_until_brace_def link_socket_close_def)

text \<open>C25: When the bridge has received a whole delivery but the connection ends before its
  reply, the builtin fails and nothing of the session changes: it stays open under the same
  key, although the connection is closed, and the counter is taken back, so the next
  delivery is sealed under the same key with the same counter.\<close>

theorem lost_reply_reuses_counter:
  assumes active: "link_session_active s"
    and args: "inject_args argv None None = Inr (Some ty, Some cx)"
    and body: "link_read_stdin s = (Some b, s1)"
    and req: "deliver_request C (link_c_shell_to_agent s + 1) ty cx b
        (s1\<lparr>link_c_shell_to_agent := link_c_shell_to_agent s + 1\<rparr>) = (Inr q, s2)"
    and lost: "0 \<le> link_sockfd s2" "tx s2 = []" "mem s2 = []" "rx s2 = RdEOF # r"
  shows "\<exists>t. bin_bsh_inject C nam argv s = (1, t) \<and> session_of t = session_of s \<and>
     sent t = sent s2 @ q \<and> link_sockfd t = - 1"
proof -
  have f1: "session_of s1 = session_of s" by (rule frameD) (rule body)
  note e1 = session_of_eqD [OF f1]
  have g: "link_register_if_needed C s1 = (Inr (), s1)"
    using active e1 by (simp add: link_register_if_needed_def)
  have "session_of s2 = session_of (s1\<lparr>link_c_shell_to_agent := link_c_shell_to_agent s + 1\<rparr>)"
    by (rule frameD) (rule req)
  note e2 = session_of_eqD [OF this]
  let ?s3 = "s2\<lparr>sent := sent s2 @ q, rx := r, link_sockfd := - 1\<rparr>"
  have "link_send_request q s2 = (None, ?s3)"
    using lost by (intro send_request_eof) (simp_all add: quiet_def)
  then have d: "link_emit_deliver C (link_c_shell_to_agent s + 1) ty cx b
      (s1\<lparr>link_c_shell_to_agent := link_c_shell_to_agent s + 1\<rparr>)
      = (Inl (Some ''LINK_DELIVER transport failed''), ?s3)"
    using req e1 by (simp add: link_emit_deliver_def)
  show ?thesis
    using e1 e2 by (simp add: bin_bsh_inject_def args body g d Let_def eprintf_def session_of_def)
qed

theorem lost_reply_reuses_counter_witness:
  "\<exists>t. bin_bsh_inject demo ''bsh-inject'' demo_argv
        ((demo_session [InData ''ls''])\<lparr>rx := [RdEOF]\<rparr>) = (1, t) \<and>
     link_session_active t \<and> link_session_key t = demo_key \<and> link_c_shell_to_agent t = 0"
proof -
  let ?s = "(demo_session [InData ''ls''])\<lparr>rx := [RdEOF]\<rparr>" and ?s1 = "(demo_session [InData ''ls''])\<lparr>rx := [RdEOF], input := []\<rparr>"
  note f = demo_session_facts [of "[InData ''ls'']"]
  have r: "link_read_stdin ?s = (Some ''ls'', ?s1)"
    using f by (simp add: link_read_stdin_def os_alloc_def stdin_loop.simps)
  obtain q where q: "deliver_request demo (link_c_shell_to_agent ?s + 1) ''cmd'' ''c'' ''ls''
      (?s1\<lparr>link_c_shell_to_agent := link_c_shell_to_agent ?s + 1\<rparr>) =
      (Inr q, ?s1\<lparr>link_c_shell_to_agent := link_c_shell_to_agent ?s + 1, rand := []\<rparr>)"
    using deliver_request_total [OF demo_base64 demo_aead demo_seal,
        of "?s1\<lparr>link_c_shell_to_agent := link_c_shell_to_agent ?s + 1\<rparr>" "''iv2''" "[]" "''cmd''" "''c''"] f by auto
  have a: "inject_args demo_argv None None = Inr (Some ''cmd'', Some ''c'')"
    by (simp add: demo_argv_def)
  have "link_session_active ?s" using f by simp
  from lost_reply_reuses_counter [OF this a r q, of "[]" "''bsh-inject''"] f
  show ?thesis by (auto simp: quiet_def dest!: session_of_eqD)
qed

section \<open>link-geo\<close>

text \<open>C26: \<open>link-geo\<close> never touches the session.  It returns 0 or 1, except that it reads
  through a null pointer exactly when its arguments are one or more \<open>--json\<close> and nothing
  else.\<close>

lemma geo_exchange_status: "geo_exchange nam q j l s = (r, t) \<Longrightarrow> r = Ret 0 \<or> r = Ret 1"
  by (auto simp: geo_exchange_def link_geo_handle_response_def link_geo_print_status_def
      link_geo_print_zone_def link_geo_print_proximity_def link_geo_print_refresh_def
      link_geo_print_position_def Let_def split: prod.splits option.splits if_splits)

theorem geo_outcome:
  "case bin_link_geo nam argv s of (r, t) \<Rightarrow>
     session_of t = session_of s \<and> (r = Segv \<or> r = Ret 0 \<or> r = Ret 1) \<and>
     (r = Segv) = (argv \<noteq> [] \<and> filter (\<lambda>a. a \<noteq> ''--json'') argv = [])"
proof (cases "bin_link_geo nam argv s")
  case (Pair r t)
  from Pair have "session_of t = session_of s" by (rule frameD)
  moreover have "(r = Segv) = (argv \<noteq> [] \<and> filter (\<lambda>a. a \<noteq> ''--json'') argv = []) \<and>
      (r = Segv \<or> r = Ret 0 \<or> r = Ret 1)"
    using Pair
    by (cases "filter (\<lambda>a. a \<noteq> ''--json'') argv")
       (auto simp: bin_link_geo_def Let_def dest!: geo_exchange_status
        split: if_splits list.splits option.splits)
  ultimately show ?thesis unfolding Pair prod.case by blast
qed

text \<open>The zone identifier of \<open>link-geo proximity\<close> goes into the request as it is, without
  escaping: the bytes sent are the fixed text with the argument between the quotes, so a
  quote in the argument ends the field.\<close>

lemma handle_response_sent:
  "sent (snd (link_geo_handle_response nam resp j l s)) = sent s"
proof -
  have p: "sent (printf x u) = sent u" "sent (eprintf x u) = sent u" for x and u :: link
    by (simp_all add: printf_def eprintf_def)
  have r: "sent (snd (print_raw x k u)) = sent u" "sent (print_str x k u) = sent u" for x k u
    by (auto simp: print_raw_def print_str_def p split: prod.split bool.split)
  have f: "sent (snd (print_fields x ks b u)) = sent u" for x ks b u
  proof (induction ks arbitrary: b u)
    case (Cons k ks)
    then show ?case using r(1) [of x k u] by (cases "print_raw x k u") simp
  qed simp
  have g: "sent (snd (link_geo_print_position x b u)) = sent u" for x b u
    using f [of x "[''lat'', ''lon'', ''alt_m'', ''x_bm'', ''y_bm'', ''z_bm'', ''accuracy_m'',
        ''brightdate'']" False u]
    by (auto simp: link_geo_print_position_def p split: prod.split)
  show ?thesis
    by (simp add: link_geo_handle_response_def Let_def link_geo_print_status_def link_geo_print_zone_def
        link_geo_print_proximity_def link_geo_print_refresh_def p r g)
qed

lemma send_request_sent:
  assumes "0 \<le> link_sockfd s" "tx s = []"
  shows "sent (snd (link_send_request q s)) = sent s @ q"
  using assms by (auto simp: link_send_request_def link_socket_connect_def link_write_all_def
      write_loop_quiet link_read_until_brace_def link_socket_close_def os_alloc_def
      split: prod.split rframe.split list.split bool.split)

theorem proximity_request_verbatim:
  assumes "0 \<le> link_sockfd s" "tx s = []" "length zone \<le> 256"
    and "zone \<noteq> ''--json''"
  shows "sent (snd (bin_link_geo nam [''proximity'', zone] s)) =
     sent s @ ''{'' @ jstr ''cmd'' @ '':'' @ jstr ''LINK_GEO_PROXIMITY'' @ '',''
       @ jstr ''zone'' @ '':'' @ [quote] @ zone @ [quote] @ ''}''"
proof -
  let ?q = "''{'' @ jkey ''cmd'' @ jstr ''LINK_GEO_PROXIMITY'' @ '',''
     @ jkey ''zone'' @ jstr zone @ ''}''"
  have t: "take 511 ?q = ?q" using assms(3) by (simp add: jkey_def jstr_def)
  have x: "sent (snd (geo_exchange nam ?q False ''proximity'' s)) = sent s @ ?q"
    using send_request_sent [OF assms(1,2), of ?q] handle_response_sent
    by (auto simp: geo_exchange_def eprintf_def split: prod.split option.split) (metis snd_conv)+
  have "bin_link_geo nam [''proximity'', zone] s = geo_exchange nam (take 511 ?q) False ''proximity'' s"
    using assms(3,4) by (simp add: bin_link_geo_def)
  also have "\<dots> = geo_exchange nam ?q False ''proximity'' s" unfolding t ..
  finally have "bin_link_geo nam [''proximity'', zone] s = geo_exchange nam ?q False ''proximity'' s" .
  with x show ?thesis by (simp add: jkey_def jstr_def)
qed

theorem proximity_request_verbatim_witness:
  "\<exists>o'. sent (snd (bin_link_geo ''link-geo'' [''proximity'', ''a'' @ jstr '','' @ ''b''] (demo_session [])))
     = o' @ [quote] @ ''a'' @ jstr '','' @ ''b'' @ [quote] @ ''}''"
proof -
  have q: "0 \<le> link_sockfd (demo_session [])" "tx (demo_session []) = []"
    using demo_session_facts(1) [of "[]"] by (simp_all add: quiet_def)
  show ?thesis
    by (subst proximity_request_verbatim [OF q]) (simp_all add: jstr_def)
qed

end
