(* ===== verification/LinkList.thy ===== *)
theory LinkList
  imports Prelude "HOL-Library.Monad_Syntax"
begin

text \<open>
  The doubly linked lists of \<open>Src/linklist.c\<close>, on an explicit memory of node-sized
  cells.  A list header is the union \<open>linkroot\<close>: read as a node it is the cell whose
  \<open>next\<close> is \<open>list.first\<close>, whose \<open>prev\<close> is \<open>list.last\<close> and whose \<open>dat\<close> is
  \<open>list.flags\<close>.  An access outside the allocated cells, as through a NULL pointer, is
  \<open>None\<close>.  A \<open>void *\<close> datum is an option, \<open>None\<close> being NULL.
\<close>

section \<open>Memory\<close>

record 'd cell =
  nxt :: addr
  prv :: addr
  dat :: "'d option"

text \<open>\<open>brk\<close> is the next address to hand out; \<open>full\<close> makes the permanent allocator return NULL.\<close>

record 'd mem =
  cells :: "addr \<rightharpoonup> 'd cell"
  brk :: addr
  full :: bool

definition mem_init :: "'d mem" where
  "mem_init = \<lparr>cells = Map.empty, brk = 1, full = False\<rparr>"

definition get_next :: "'d mem \<Rightarrow> addr \<Rightarrow> addr option" where
  "get_next h a = map_option nxt (cells h a)"

definition get_prev :: "'d mem \<Rightarrow> addr \<Rightarrow> addr option" where
  "get_prev h a = map_option prv (cells h a)"

definition get_dat :: "'d mem \<Rightarrow> addr \<Rightarrow> 'd option option" where
  "get_dat h a = map_option dat (cells h a)"

definition upd_cell :: "('d cell \<Rightarrow> 'd cell) \<Rightarrow> 'd mem \<Rightarrow> addr \<Rightarrow> 'd mem option" where
  "upd_cell f h a = (case cells h a of None \<Rightarrow> None
     | Some c \<Rightarrow> Some (h\<lparr>cells := (cells h)(a \<mapsto> f c)\<rparr>))"

definition set_next :: "'d mem \<Rightarrow> addr \<Rightarrow> addr \<Rightarrow> 'd mem option" where
  "set_next h a v = upd_cell (nxt_update (\<lambda>_. v)) h a"

definition set_prev :: "'d mem \<Rightarrow> addr \<Rightarrow> addr \<Rightarrow> 'd mem option" where
  "set_prev h a v = upd_cell (prv_update (\<lambda>_. v)) h a"

definition set_dat :: "'d mem \<Rightarrow> addr \<Rightarrow> 'd option \<Rightarrow> 'd mem option" where
  "set_dat h a v = upd_cell (dat_update (\<lambda>_. v)) h a"

text \<open>
  \<open>zhalloc\<close> of \<open>n\<close> adjacent cells does not return on failure; \<open>zalloc\<close> is given the
  NULL return its callers test for.
\<close>

definition halloc :: "nat \<Rightarrow> 'd mem \<Rightarrow> addr \<times> 'd mem" where
  "halloc n h = (brk h, h\<lparr>cells := (\<lambda>a. if brk h \<le> a \<and> a < brk h + n
       then Some \<lparr>nxt = 0, prv = 0, dat = None\<rparr> else cells h a), brk := brk h + n\<rparr>)"

definition zalloc :: "'d mem \<Rightarrow> addr \<times> 'd mem" where
  "zalloc h = (if full h then (0, h) else halloc 1 h)"

definition zfree :: "'d mem \<Rightarrow> addr \<Rightarrow> 'd mem option" where
  "zfree h a = (if cells h a = None then None else Some (h\<lparr>cells := (cells h)(a := None)\<rparr>))"

section \<open>Operations\<close>

abbreviation "firstnode h l \<equiv> get_next h l"
abbreviation "lastnode h l \<equiv> get_prev h l"

definition init_header :: "'d mem \<Rightarrow> addr \<Rightarrow> 'd mem option" where
  "init_header h l = do { h \<leftarrow> set_next h l 0; h \<leftarrow> set_prev h l l; set_dat h l None }"

definition newlinklist :: "'d mem \<Rightarrow> (addr \<times> 'd mem) option" where
  "newlinklist h = (case halloc 1 h of (l, h) \<Rightarrow> do { h \<leftarrow> init_header h l; Some (l, h) })"

definition znewlinklist :: "'d mem \<Rightarrow> (addr \<times> 'd mem) option" where
  "znewlinklist h = (case zalloc h of (l, h) \<Rightarrow>
     if l = 0 then Some (0, h) else do { h \<leftarrow> init_header h l; Some (l, h) })"

text \<open>The pointers a node gets when it is put after \<open>node\<close>, once it is stored in \<open>node->next\<close>.\<close>

definition link_after :: "'d mem \<Rightarrow> addr \<Rightarrow> addr \<Rightarrow> addr \<Rightarrow> addr \<Rightarrow> 'd mem option" where
  "link_after h l node new tmp =
     do { h \<leftarrow> set_prev h new node; h \<leftarrow> set_next h new tmp;
          if tmp \<noteq> 0 then set_prev h tmp new else set_prev h l new }"

definition insertlinknode :: "'d mem \<Rightarrow> addr \<Rightarrow> addr \<Rightarrow> 'd option \<Rightarrow> (addr \<times> 'd mem) option" where
  "insertlinknode h l node d =
     do { tmp \<leftarrow> get_next h node;
          case halloc 1 h of (new, h) \<Rightarrow>
          do { h \<leftarrow> set_next h node new; h \<leftarrow> set_dat h new d;
               h \<leftarrow> link_after h l node new tmp; Some (new, h) } }"

definition zinsertlinknode :: "'d mem \<Rightarrow> addr \<Rightarrow> addr \<Rightarrow> 'd option \<Rightarrow> (addr \<times> 'd mem) option" where
  "zinsertlinknode h l node d =
     do { tmp \<leftarrow> get_next h node;
          case zalloc h of (new, h) \<Rightarrow>
          do { h \<leftarrow> set_next h node new;
               if new = 0 then Some (0, h)
               else do { h \<leftarrow> set_dat h new d;
                         h \<leftarrow> link_after h l node new tmp; Some (new, h) } } }"

definition uinsertlinknode :: "'d mem \<Rightarrow> addr \<Rightarrow> addr \<Rightarrow> addr \<Rightarrow> (addr \<times> 'd mem) option" where
  "uinsertlinknode h l node new =
     do { tmp \<leftarrow> get_next h node; h \<leftarrow> set_next h node new;
          h \<leftarrow> link_after h l node new tmp; Some (new, h) }"

definition addlinknode :: "'d mem \<Rightarrow> addr \<Rightarrow> 'd option \<Rightarrow> (addr \<times> 'd mem) option" where
  "addlinknode h l d = do { n \<leftarrow> lastnode h l; insertlinknode h l n d }"

definition pushnode :: "'d mem \<Rightarrow> addr \<Rightarrow> 'd option \<Rightarrow> (addr \<times> 'd mem) option" where
  "pushnode h l d = insertlinknode h l l d"

definition insertlinklist :: "'d mem \<Rightarrow> addr \<Rightarrow> addr \<Rightarrow> addr \<Rightarrow> 'd mem option" where
  "insertlinklist h l whr x =
     do { nx \<leftarrow> get_next h whr; f \<leftarrow> firstnode h l;
          if f = 0 then Some h
          else do { h \<leftarrow> set_next h whr f; e \<leftarrow> lastnode h l; h \<leftarrow> set_next h e nx;
                    f \<leftarrow> firstnode h l; h \<leftarrow> set_prev h f whr; e \<leftarrow> lastnode h l;
                    if nx \<noteq> 0 then set_prev h nx e else set_prev h x e } }"

text \<open>What \<open>getlinknode\<close> and \<open>ugetnode\<close> share: unhooking the first node.\<close>

definition drop_first :: "'d mem \<Rightarrow> addr \<Rightarrow> addr \<Rightarrow> ('d option \<times> 'd mem) option" where
  "drop_first h l node =
     do { d \<leftarrow> get_dat h node; n \<leftarrow> get_next h node; h \<leftarrow> set_next h l n;
          h \<leftarrow> (if n \<noteq> 0 then set_prev h n l else set_prev h l l);
          Some (d, h) }"

definition getlinknode :: "'d mem \<Rightarrow> addr \<Rightarrow> ('d option \<times> 'd mem) option" where
  "getlinknode h l =
     do { node \<leftarrow> firstnode h l;
          if node = 0 then Some (None, h)
          else do { (d, h) \<leftarrow> drop_first h l node; h \<leftarrow> zfree h node; Some (d, h) } }"

definition ugetnode :: "'d mem \<Rightarrow> addr \<Rightarrow> ('d option \<times> 'd mem) option" where
  "ugetnode h l =
     do { node \<leftarrow> firstnode h l;
          if node = 0 then Some (None, h) else drop_first h l node }"

definition uremnode :: "'d mem \<Rightarrow> addr \<Rightarrow> addr \<Rightarrow> ('d option \<times> 'd mem) option" where
  "uremnode h l nd =
     do { p \<leftarrow> get_prev h nd; n \<leftarrow> get_next h nd; h \<leftarrow> set_next h p n;
          h \<leftarrow> (if n \<noteq> 0 then set_prev h n p else set_prev h l p);
          d \<leftarrow> get_dat h nd; Some (d, h) }"

definition remnode :: "'d mem \<Rightarrow> addr \<Rightarrow> addr \<Rightarrow> ('d option \<times> 'd mem) option" where
  "remnode h l nd = do { (d, h) \<leftarrow> uremnode h l nd; h \<leftarrow> zfree h nd; Some (d, h) }"

text \<open>\<open>freed\<close> is what \<open>freefunc\<close>, when given, has been called with.\<close>

partial_function (option) free_loop ::
    "bool \<Rightarrow> 'd mem \<Rightarrow> addr \<Rightarrow> 'd option list \<Rightarrow> ('d option list \<times> 'd mem) option" where
  "free_loop freefunc h node freed =
     (if node = 0 then Some (freed, h)
      else do { n \<leftarrow> get_next h node; d \<leftarrow> get_dat h node; h \<leftarrow> zfree h node;
                free_loop freefunc h n (if freefunc then freed @ [d] else freed) })"

definition freelinklist :: "bool \<Rightarrow> 'd mem \<Rightarrow> addr \<Rightarrow> ('d option list \<times> 'd mem) option" where
  "freelinklist freefunc h l =
     do { node \<leftarrow> firstnode h l; (freed, h) \<leftarrow> free_loop freefunc h node [];
          h \<leftarrow> zfree h l; Some (freed, h) }"

text \<open>The counter is a C \<open>int\<close>.\<close>

text \<open>\<open>i + 1\<close> for an \<open>int\<close> of the C code, whose overflow is undefined.\<close>

definition INT_MAX :: int where "INT_MAX = 2 ^ 31 - 1"

definition int_succ :: "int \<Rightarrow> int option" where
  "int_succ i = (if i < INT_MAX then Some (i + 1) else None)"

partial_function (option) count_loop :: "'d mem \<Rightarrow> addr \<Rightarrow> int \<Rightarrow> int option" where
  "count_loop h nd ct =
     (if nd = 0 then Some ct else do { n \<leftarrow> get_next h nd; ct \<leftarrow> int_succ ct; count_loop h n ct })"

definition countlinknodes :: "'d mem \<Rightarrow> addr \<Rightarrow> int option" where
  "countlinknodes h l = do { nd \<leftarrow> firstnode h l; count_loop h nd 0 }"

definition rolllist :: "'d mem \<Rightarrow> addr \<Rightarrow> addr \<Rightarrow> 'd mem option" where
  "rolllist h l nd =
     do { e \<leftarrow> lastnode h l; f \<leftarrow> firstnode h l; h \<leftarrow> set_next h e f;
          f \<leftarrow> firstnode h l; e \<leftarrow> lastnode h l; h \<leftarrow> set_prev h f e;
          h \<leftarrow> set_next h l nd; p \<leftarrow> get_prev h nd; h \<leftarrow> set_prev h l p;
          h \<leftarrow> set_prev h nd l; e \<leftarrow> lastnode h l; set_next h e 0 }"

text \<open>The nodes of a sized list lie behind its header.\<close>

fun sized_loop :: "nat \<Rightarrow> 'd mem \<Rightarrow> addr \<Rightarrow> (addr \<times> 'd mem) option" where
  "sized_loop 0 h node = Some (node, h)"
| "sized_loop (Suc k) h node =
     do { h \<leftarrow> set_prev h node (node - 1); h \<leftarrow> set_next h node (node + 1);
          sized_loop k h (node + 1) }"

definition newsizedlist :: "nat \<Rightarrow> 'd mem \<Rightarrow> (addr \<times> 'd mem) option" where
  "newsizedlist sz h =
     (case halloc (1 + sz) h of (l, h) \<Rightarrow>
        do { h \<leftarrow> set_next h l (l + 1); node \<leftarrow> firstnode h l;
             (node, h) \<leftarrow> sized_loop sz h node;
             h \<leftarrow> set_prev h l (node - 1); f \<leftarrow> firstnode h l; h \<leftarrow> set_prev h f l;
             h \<leftarrow> set_next h (node - 1) 0; Some (l, h) })"

definition joinlists :: "'d mem \<Rightarrow> addr \<Rightarrow> addr \<Rightarrow> (addr \<times> 'd mem) option" where
  "joinlists h l1 l2 =
     do { moveme \<leftarrow> firstnode h l2;
          if moveme = 0 then Some (l1, h)
          else do { f \<leftarrow> firstnode h l1;
                    h \<leftarrow> (if f \<noteq> 0
                          then do { anchor \<leftarrow> lastnode h l1; h \<leftarrow> set_next h anchor moveme;
                                    set_prev h moveme anchor }
                          else do { h \<leftarrow> set_next h l1 moveme; set_prev h moveme l1 });
                    e \<leftarrow> lastnode h l2; h \<leftarrow> set_prev h l1 e;
                    h \<leftarrow> set_prev h l2 0; h \<leftarrow> set_next h l2 0; Some (l1, h) } }"

partial_function (option) find_loop :: "('d option \<Rightarrow> bool option) \<Rightarrow> 'd mem \<Rightarrow> addr \<Rightarrow> addr option" where
  "find_loop test h node =
     (if node = 0 then Some 0
      else do { d \<leftarrow> get_dat h node; b \<leftarrow> test d;
                if b then Some node else do { n \<leftarrow> get_next h node; find_loop test h n } })"

definition linknodebydatum :: "'d mem \<Rightarrow> addr \<Rightarrow> 'd option \<Rightarrow> addr option" where
  "linknodebydatum h l d = do { n \<leftarrow> firstnode h l; find_loop (\<lambda>x. Some (x = d)) h n }"

text \<open>\<open>str\<close> reads the string a datum points to; \<open>strcmp\<close> of NULL faults.\<close>

definition linknodebystring :: "('d \<Rightarrow> string) \<Rightarrow> 'd mem \<Rightarrow> addr \<Rightarrow> string \<Rightarrow> addr option" where
  "linknodebystring str h l s =
     do { n \<leftarrow> firstnode h l; find_loop (map_option (\<lambda>p. str p = s)) h n }"

text \<open>
  The array has one slot more than there are nodes; a write outside it is \<open>None\<close>.
  \<open>dup\<close> copies a string; \<open>dupstring\<close> and \<open>ztrdup\<close> give NULL for NULL.
\<close>

partial_function (option) array_loop ::
    "('d \<Rightarrow> 'd) option \<Rightarrow> 'd mem \<Rightarrow> addr \<Rightarrow> nat \<Rightarrow> 'd option list \<Rightarrow> 'd option list option" where
  "array_loop dup h n p ret =
     (if n = 0 then (if p < length ret then Some (ret[p := None]) else None)
      else do { d \<leftarrow> get_dat h n; m \<leftarrow> get_next h n;
                if p < length ret
                then array_loop dup h m (p + 1)
                       (ret[p := (case dup of None \<Rightarrow> d | Some f \<Rightarrow> map_option f d)])
                else None })"

definition hlinklist2array :: "('d \<Rightarrow> 'd) option \<Rightarrow> 'd mem \<Rightarrow> addr \<Rightarrow> 'd option list option" where
  "hlinklist2array dup h l =
     do { k \<leftarrow> countlinknodes h l; sz \<leftarrow> int_succ k; n \<leftarrow> firstnode h l;
          array_loop dup h n 0 (replicate (nat sz) None) }"

definition zlinklist2array :: "('d \<Rightarrow> 'd) option \<Rightarrow> 'd mem \<Rightarrow> addr \<Rightarrow> 'd option list option" where
  "zlinklist2array dup h l =
     do { k \<leftarrow> countlinknodes h l; sz \<leftarrow> int_succ k; n \<leftarrow> firstnode h l;
          array_loop dup h n 0 (replicate (nat sz) None) }"

section \<open>The cells as functions\<close>

text \<open>
  The three fields as total functions on addresses, and what every primitive does to
  them.  The bundle \<open>mem_simps\<close> runs an operation symbolically.
\<close>

definition nx :: "'d mem \<Rightarrow> addr \<Rightarrow> addr" where "nx h a = nxt (the (cells h a))"
definition pv :: "'d mem \<Rightarrow> addr \<Rightarrow> addr" where "pv h a = prv (the (cells h a))"
definition dt :: "'d mem \<Rightarrow> addr \<Rightarrow> 'd option" where "dt h a = dat (the (cells h a))"
definition valid :: "'d mem \<Rightarrow> addr set" where "valid h = dom (cells h)"

definition put_next :: "'d mem \<Rightarrow> addr \<Rightarrow> addr \<Rightarrow> 'd mem" where
  "put_next h a v = the (set_next h a v)"
definition put_prev :: "'d mem \<Rightarrow> addr \<Rightarrow> addr \<Rightarrow> 'd mem" where
  "put_prev h a v = the (set_prev h a v)"
definition put_dat :: "'d mem \<Rightarrow> addr \<Rightarrow> 'd option \<Rightarrow> 'd mem" where
  "put_dat h a v = the (set_dat h a v)"
definition drop_cell :: "'d mem \<Rightarrow> addr \<Rightarrow> 'd mem" where
  "drop_cell h a = the (zfree h a)"

named_theorems mem_simps "symbolic execution of the memory primitives"

lemma get_simps [mem_simps]:
  "a \<in> valid h \<Longrightarrow> get_next h a = Some (nx h a)"
  "a \<in> valid h \<Longrightarrow> get_prev h a = Some (pv h a)"
  "a \<in> valid h \<Longrightarrow> get_dat h a = Some (dt h a)"
  by (auto simp: valid_def get_next_def get_prev_def get_dat_def nx_def pv_def dt_def)

lemma set_simps [mem_simps]:
  "a \<in> valid h \<Longrightarrow> set_next h a v = Some (put_next h a v)"
  "a \<in> valid h \<Longrightarrow> set_prev h a v = Some (put_prev h a v)"
  "a \<in> valid h \<Longrightarrow> set_dat h a d = Some (put_dat h a d)"
  "a \<in> valid h \<Longrightarrow> zfree h a = Some (drop_cell h a)"
  by (auto simp: valid_def set_next_def set_prev_def set_dat_def upd_cell_def zfree_def
      put_next_def put_prev_def put_dat_def drop_cell_def)

lemma put_simps [mem_simps]:
  assumes "a \<in> valid h"
  shows "nx (put_next h a v) = (nx h)(a := v)" "pv (put_next h a v) = pv h" "dt (put_next h a v) = dt h"
    "nx (put_prev h a v) = nx h" "pv (put_prev h a v) = (pv h)(a := v)" "dt (put_prev h a v) = dt h"
    "nx (put_dat h a d) = nx h" "pv (put_dat h a d) = pv h" "dt (put_dat h a d) = (dt h)(a := d)"
    "valid (put_next h a v) = valid h" "valid (put_prev h a v) = valid h" "valid (put_dat h a d) = valid h"
    "brk (put_next h a v) = brk h" "brk (put_prev h a v) = brk h" "brk (put_dat h a d) = brk h"
    "full (put_next h a v) = full h" "full (put_prev h a v) = full h" "full (put_dat h a d) = full h"
  using assms
  by (auto simp: valid_def put_next_def put_prev_def put_dat_def set_next_def set_prev_def set_dat_def
      upd_cell_def nx_def pv_def dt_def fun_eq_iff split: if_splits)

lemma drop_simps [mem_simps]:
  assumes "a \<in> valid h"
  shows "b \<noteq> a \<Longrightarrow> nx (drop_cell h a) b = nx h b" "b \<noteq> a \<Longrightarrow> pv (drop_cell h a) b = pv h b"
    "b \<noteq> a \<Longrightarrow> dt (drop_cell h a) b = dt h b" "valid (drop_cell h a) = valid h - {a}"
    "brk (drop_cell h a) = brk h" "full (drop_cell h a) = full h"
  using assms by (auto simp: valid_def drop_cell_def zfree_def nx_def pv_def dt_def)

text \<open>Every allocated address is below \<open>brk\<close>, and NULL is not one.\<close>

definition mem_ok :: "'d mem \<Rightarrow> bool" where
  "mem_ok h \<longleftrightarrow> 0 < brk h \<and> (\<forall>a \<in> valid h. 0 < a \<and> a < brk h)"

lemma halloc_simps:
  assumes "halloc n h = (l, h')" "mem_ok h"
  shows "l = brk h" "valid h' = valid h \<union> {l..<l + n}" "mem_ok h'" "l \<notin> valid h" "0 < l"
    "a \<in> valid h \<Longrightarrow> nx h' a = nx h a \<and> pv h' a = pv h a \<and> dt h' a = dt h a"
    "brk h' = l + n" "full h' = full h" "l + k \<notin> valid h"
proof -
  have h': "h' = h\<lparr>cells := (\<lambda>a. if brk h \<le> a \<and> a < brk h + n
       then Some \<lparr>nxt = 0, prv = 0, dat = None\<rparr> else cells h a), brk := brk h + n\<rparr>"
    and l: "l = brk h" using assms(1) by (auto simp: halloc_def)
  have b: "0 < a" "a < brk h" if "a \<in> valid h" for a using assms(2) that by (auto simp: mem_ok_def)
  show "l = brk h" by (rule l)
  show v: "valid h' = valid h \<union> {l..<l + n}" by (auto simp: h' l valid_def split: if_splits)
  show "l \<notin> valid h" "l + k \<notin> valid h" using b(2) [of l] b(2) [of "l + k"] l by auto
  show "0 < l" using assms(2) l by (simp add: mem_ok_def)
  show "brk h' = l + n" "full h' = full h" by (simp_all add: h' l)
  show "mem_ok h'" unfolding mem_ok_def v using b assms(2) by (auto simp: h' l mem_ok_def dest: b(2))
  show "nx h' a = nx h a \<and> pv h' a = pv h a \<and> dt h' a = dt h a" if "a \<in> valid h"
    using b [OF that] by (simp add: h' nx_def pv_def dt_def)
qed

lemma mem_ok_put [mem_simps]:
  assumes "a \<in> valid h"
  shows "mem_ok (put_next h a v) = mem_ok h" "mem_ok (put_prev h a v) = mem_ok h"
    "mem_ok (put_dat h a d) = mem_ok h"
  using assms by (simp_all add: mem_ok_def put_simps)

lemma mem_ok_drop: "a \<in> valid h \<Longrightarrow> mem_ok h \<Longrightarrow> mem_ok (drop_cell h a)"
  by (simp add: mem_ok_def drop_simps)

section \<open>Well-formed lists\<close>

text \<open>
  Header and nodes are distinct cells; following \<open>next\<close> from the header visits the nodes
  and ends in NULL; following \<open>prev\<close> from the header visits them backwards and ends in
  the header.
\<close>

definition dll :: "'d mem \<Rightarrow> addr \<Rightarrow> addr list \<Rightarrow> bool" where
  "dll h l ns \<longleftrightarrow> mem_ok h \<and> distinct (l # ns) \<and> set (l # ns) \<subseteq> valid h \<and>
     map (nx h) (l # ns) = ns @ [0] \<and> map (pv h) (ns @ [l]) = l # ns"

definition items :: "'d mem \<Rightarrow> addr list \<Rightarrow> 'd option list" where
  "items h ns = map (dt h) ns"

lemma dll_nonnull: "dll h l ns \<Longrightarrow> a \<in> set (l # ns) \<Longrightarrow> a \<noteq> 0 \<and> a \<in> valid h"
  by (auto simp: dll_def mem_ok_def)

lemma dll_cong:
  assumes "dll h l ns" "mem_ok h'" "set (l # ns) \<subseteq> valid h'"
    and "\<And>a. a \<in> set (l # ns) \<Longrightarrow> nx h' a = nx h a \<and> pv h' a = pv h a"
  shows "dll h' l ns"
proof -
  have "map (nx h') (l # ns) = map (nx h) (l # ns)" "map (pv h') (ns @ [l]) = map (pv h) (ns @ [l])"
    using assms(4) by auto
  with assms show ?thesis by (simp only: dll_def)
qed

text \<open>The neighbours of a position.\<close>

lemma dll_split:
  assumes "dll h l (xs @ ys)"
  shows "map (nx h) (butlast (l # xs)) = xs" "nx h (last (l # xs)) = hd (ys @ [0])"
    "map (nx h) ys = tl (ys @ [0])" "map (pv h) xs = butlast (l # xs)"
    "pv h (hd (ys @ [l])) = last (l # xs)" "map (pv h) (tl (ys @ [l])) = ys"
proof -
  let ?as = "butlast (l # xs)" and ?n = "last (l # xs)"
  have s: "l # xs = ?as @ [?n]" by simp
  have len: "length ?as = length xs" by simp
  have "map (nx h) ((?as @ [?n]) @ ys) = xs @ ys @ [0]"
    using assms s by (simp only: dll_def append_Cons [symmetric] append_assoc)
  then have n: "map (nx h) ?as = xs \<and> nx h ?n # map (nx h) ys = ys @ [0]"
    using len by (simp add: append_eq_append_conv)
  then show "map (nx h) ?as = xs" "nx h ?n = hd (ys @ [0])" "map (nx h) ys = tl (ys @ [0])"
    by (auto dest: arg_cong [where f = hd] arg_cong [where f = tl])
  have "map (pv h) (xs @ ys @ [l]) = ?as @ ?n # ys"
    using assms s by (simp only: dll_def append_assoc append_Cons [symmetric]) simp
  then have p: "map (pv h) xs = ?as \<and> map (pv h) (ys @ [l]) = ?n # ys"
    using len by (simp add: append_eq_append_conv)
  then show "map (pv h) xs = ?as" "pv h (hd (ys @ [l])) = ?n" "map (pv h) (tl (ys @ [l])) = ys"
    by (cases ys; simp)+
qed

lemma dllI:
  assumes "mem_ok h" "distinct (l # xs @ ys)" "set (l # xs @ ys) \<subseteq> valid h"
    "map (nx h) (butlast (l # xs)) = xs" "nx h (last (l # xs)) = hd (ys @ [0])"
    "map (nx h) ys = tl (ys @ [0])" "map (pv h) xs = butlast (l # xs)"
    "pv h (hd (ys @ [l])) = last (l # xs)" "map (pv h) (tl (ys @ [l])) = ys"
  shows "dll h l (xs @ ys)"
proof -
  let ?as = "butlast (l # xs)" and ?n = "last (l # xs)"
  have e: "l # xs @ ys = (?as @ [?n]) @ ys" by simp
  have "map (nx h) ((?as @ [?n]) @ ys) = xs @ hd (ys @ [0]) # tl (ys @ [0])"
    using assms(4-6) by (simp only: map_append list.map append_assoc append_Cons append_Nil)
  then have n: "map (nx h) (l # xs @ ys) = (xs @ ys) @ [0]" unfolding e by simp
  have "map (pv h) (xs @ hd (ys @ [l]) # tl (ys @ [l])) = ?as @ ?n # ys"
    using assms(7-9) by (simp only: map_append list.map)
  moreover have "xs @ hd (ys @ [l]) # tl (ys @ [l]) = (xs @ ys) @ [l]" by simp
  ultimately have p: "map (pv h) ((xs @ ys) @ [l]) = l # xs @ ys" unfolding e by simp
  show ?thesis using assms(1-3) n p by (simp add: dll_def)
qed

section \<open>Insertion\<close>

text \<open>Everything but the links of the cells in \<open>S\<close> is as before.\<close>

definition only_links :: "addr set \<Rightarrow> 'd mem \<Rightarrow> 'd mem \<Rightarrow> bool" where
  "only_links S h h' \<longleftrightarrow> valid h' = valid h \<and> dt h' = dt h \<and> brk h' = brk h \<and> full h' = full h \<and>
     (\<forall>a. a \<notin> S \<longrightarrow> nx h' a = nx h a \<and> pv h' a = pv h a)"

lemma link_after_dll:
  assumes d: "dll h l (xs @ ys)" and new: "new \<notin> set (l # xs @ ys)" "new \<in> valid h"
    and h1: "nx h1 = (nx h)(last (l # xs) := new)" "pv h1 = pv h" "valid h1 = valid h" "mem_ok h1"
  shows "\<exists>h2. link_after h1 l (last (l # xs)) new (hd (ys @ [0])) = Some h2 \<and>
     dll h2 l (xs @ new # ys) \<and> only_links (set (new # l # xs @ ys)) h1 h2"
proof -
  let ?n = "last (l # xs)" and ?t = "hd (ys @ [l])"
  have dd: "distinct (l # xs @ ys)" "set (l # xs @ ys) \<subseteq> valid h" using d by (auto simp: dll_def)
  have n: "?n \<in> set (l # xs @ ys)" "?n \<in> set (l # xs)" using last_in_set [of "l # xs"] by auto
  have t: "?t \<in> set (l # xs @ ys)" by (cases ys) auto
  have tmp: "hd (ys @ [0]) \<noteq> 0 \<longleftrightarrow> ys \<noteq> []" using dll_nonnull [OF d] by (cases ys) auto
  define h2 where "h2 = put_prev (put_next (put_prev h1 new ?n) new (hd (ys @ [0]))) ?t new"
  have v: "new \<in> valid h1" "?t \<in> valid h1" using new(2) dd(2) t h1(3) by auto
  have run: "link_after h1 l ?n new (hd (ys @ [0])) = Some h2"
    using v tmp by (cases ys) (simp_all add: link_after_def mem_simps h2_def)
  have f: "nx h2 = (nx h)(?n := new, new := hd (ys @ [0]))" "pv h2 = (pv h)(new := ?n, ?t := new)"
    "valid h2 = valid h" "mem_ok h2"
    using v h1 by (simp_all add: h2_def mem_simps)
  have b: "\<And>a. a \<in> set (butlast (l # xs)) \<Longrightarrow> a \<noteq> ?n \<and> a \<noteq> new"
  proof -
    fix a assume a: "a \<in> set (butlast (l # xs))"
    have "butlast (l # xs) @ [?n] = l # xs" by (rule append_butlast_last_id) simp
    moreover have "distinct (l # xs)" using dd(1) by simp
    ultimately have "distinct (butlast (l # xs) @ [?n])" by (simp only:)
    then have "a \<noteq> ?n" using a by auto
    moreover have "a \<noteq> new" using in_set_butlastD [OF a] new(1) by auto
    ultimately show "a \<noteq> ?n \<and> a \<noteq> new" ..
  qed
  have y: "\<And>a. a \<in> set ys \<Longrightarrow> a \<noteq> ?n \<and> a \<noteq> new" using dd(1) new(1) n(2) by auto
  have x: "\<And>a. a \<in> set xs \<Longrightarrow> a \<noteq> new \<and> a \<noteq> ?t" using dd(1) new(1) by (cases ys) auto
  have tl: "\<And>a. a \<in> set (tl (ys @ [l])) \<Longrightarrow> a \<noteq> new \<and> a \<noteq> ?t"
    using dd(1) new(1) by (cases ys) auto
  have bn: "butlast (l # xs @ [new]) = butlast (l # xs) @ [?n]" "last (l # xs @ [new]) = new" by simp_all
  note sp = dll_split [OF d]
  have "dll h2 l ((xs @ [new]) @ ys)"
  proof (rule dllI)
    show "mem_ok h2" by (rule f(4))
    show "distinct (l # (xs @ [new]) @ ys)" using dd(1) new(1) by auto
    show "set (l # (xs @ [new]) @ ys) \<subseteq> valid h2" using dd(2) new(2) f(3) by auto
    have "map (nx h2) (butlast (l # xs)) = map (nx h) (butlast (l # xs))"
      using b by (intro map_cong refl) (simp add: f)
    moreover have "nx h2 ?n = new" using n(1) new(1) unfolding f by auto
    ultimately show "map (nx h2) (butlast (l # xs @ [new])) = xs @ [new]"
      unfolding bn map_append list.map sp(1) by (simp only:)
    show "nx h2 (last (l # xs @ [new])) = hd (ys @ [0])" unfolding bn by (simp add: f)
    have "map (nx h2) ys = map (nx h) ys" using y by (intro map_cong refl) (simp add: f)
    then show "map (nx h2) ys = tl (ys @ [0])" using sp(3) by simp
    have "map (pv h2) xs = map (pv h) xs" using x by (intro map_cong refl) (simp add: f)
    moreover have "pv h2 new = ?n" using t new(1) unfolding f by auto
    ultimately show "map (pv h2) (xs @ [new]) = butlast (l # xs @ [new])"
      unfolding bn map_append list.map sp(4) by (simp only:)
    show "pv h2 (hd (ys @ [l])) = last (l # xs @ [new])" unfolding bn by (simp add: f)
    have "map (pv h2) (tl (ys @ [l])) = map (pv h) (tl (ys @ [l]))"
      using tl by (intro map_cong refl) (simp add: f)
    then show "map (pv h2) (tl (ys @ [l])) = ys" using sp(6) by simp
  qed
  moreover have "only_links (set (new # l # xs @ ys)) h1 h2"
    using v t n new by (auto simp: only_links_def h2_def mem_simps h1)
  ultimately show ?thesis using run by auto
qed

text \<open>What an insertion leaves: the new node in its place, all else as it was.\<close>

definition frame_off :: "addr set \<Rightarrow> 'd mem \<Rightarrow> 'd mem \<Rightarrow> bool" where
  "frame_off S h h' \<longleftrightarrow> (\<forall>a \<in> valid h - S. a \<in> valid h' \<and> nx h' a = nx h a \<and> pv h' a = pv h a \<and> dt h' a = dt h a)"

lemma frame_off_dll:
  "frame_off S h h' \<Longrightarrow> mem_ok h' \<Longrightarrow> dll h m ms \<Longrightarrow> set (m # ms) \<inter> S = {} \<Longrightarrow>
   dll h' m ms \<and> items h' ms = items h ms"
proof (intro conjI)
  assume a: "frame_off S h h'" "mem_ok h'" "dll h m ms" "set (m # ms) \<inter> S = {}"
  have v: "x \<in> valid h - S" if "x \<in> set (m # ms)" for x using that a(3,4) by (auto simp: dll_def)
  show "dll h' m ms"
    using a(1) v by (intro dll_cong [OF a(3,2)]) (auto simp: frame_off_def)
  show "items h' ms = items h ms" using a(1) v by (auto simp: items_def frame_off_def)
qed

lemma insert_fresh:
  assumes d: "dll h l (xs @ ys)" and al: "halloc 1 h = (new, h1)"
  shows "\<exists>h'. do { h2 \<leftarrow> set_next h1 (last (l # xs)) new; h2 \<leftarrow> set_dat h2 new e;
            link_after h2 l (last (l # xs)) new (hd (ys @ [0])) } = Some h' \<and>
     new \<notin> valid h \<and> dll h' l (xs @ new # ys) \<and> valid h' = insert new (valid h) \<and>
     items h' (xs @ new # ys) = items h xs @ e # items h ys \<and> frame_off (set (l # xs @ ys)) h h' \<and>
     full h' = full h"
proof -
  have ok: "mem_ok h" and dd: "set (l # xs @ ys) \<subseteq> valid h" using d by (auto simp: dll_def)
  note a = halloc_simps [OF al ok]
  have v1: "valid h1 = insert new (valid h)" using a(2) by auto
  have d1: "dll h1 l (xs @ ys)" using dd v1 a(6) by (intro dll_cong [OF d a(3)]) auto
  have n: "last (l # xs) \<in> set (l # xs @ ys)" using last_in_set [of "l # xs"] by auto
  have nv: "last (l # xs) \<in> valid h1" "new \<in> valid h1" using n dd v1 by auto
  have out: "new \<notin> set (l # xs @ ys)" using a(4) dd by auto
  let ?h2 = "put_dat (put_next h1 (last (l # xs)) new) new e"
  have "\<exists>h'. link_after ?h2 l (last (l # xs)) new (hd (ys @ [0])) = Some h' \<and>
     dll h' l (xs @ new # ys) \<and> only_links (set (new # l # xs @ ys)) ?h2 h'"
    using nv a(3) by (intro link_after_dll [OF d1 out]) (simp_all add: mem_simps)
  then obtain h' where h': "link_after ?h2 l (last (l # xs)) new (hd (ys @ [0])) = Some h'"
    "dll h' l (xs @ new # ys)" "only_links (set (new # l # xs @ ys)) ?h2 h'" by blast
  have f: "valid h' = insert new (valid h)" "dt h' = (dt h1)(new := e)" "full h' = full h"
    using h'(3) nv v1 a(8) by (simp_all add: only_links_def mem_simps)
  have nv': "a \<in> valid h \<Longrightarrow> a \<noteq> new" for a using a(4) by auto
  have dt: "b \<in> valid h \<Longrightarrow> dt h' b = dt h b" for b using f(2) a(6) [of b] nv' [of b] by simp
  have "frame_off (set (l # xs @ ys)) h h'"
    unfolding frame_off_def
  proof
    fix b assume b: "b \<in> valid h - set (l # xs @ ys)"
    then have "b \<noteq> new" "b \<noteq> last (l # xs)" using nv' n by auto
    then have "nx ?h2 b = nx h1 b \<and> pv ?h2 b = pv h1 b" using nv by (simp add: mem_simps)
    moreover have "b \<notin> set (new # l # xs @ ys)" using b \<open>b \<noteq> new\<close> by simp
    ultimately have "nx h' b = nx h1 b \<and> pv h' b = pv h1 b" using h'(3) unfolding only_links_def by metis
    then show "b \<in> valid h' \<and> nx h' b = nx h b \<and> pv h' b = pv h b \<and> dt h' b = dt h b"
      using a(6) [of b] dt b f(1) by auto
  qed
  moreover have "items h' (xs @ new # ys) = items h xs @ e # items h ys"
  proof -
    have "map (dt h') xs = map (dt h) xs" "map (dt h') ys = map (dt h) ys"
      using dd by (auto intro!: map_cong dt)
    moreover have "dt h' new = e" by (simp add: f(2))
    ultimately show ?thesis by (simp add: items_def)
  qed
  moreover have "do { h2 \<leftarrow> set_next h1 (last (l # xs)) new; h2 \<leftarrow> set_dat h2 new e;
            link_after h2 l (last (l # xs)) new (hd (ys @ [0])) } = Some h'"
    using nv h'(1) by (simp only: mem_simps bind.bind_lunit)
  ultimately show ?thesis using h'(2) f a(4) by blast
qed

lemma insert_at:
  assumes d: "dll h l (xs @ ys)"
  shows "\<exists>new h'. insertlinknode h l (last (l # xs)) e = Some (new, h') \<and>
     new \<notin> valid h \<and> dll h' l (xs @ new # ys) \<and> valid h' = insert new (valid h) \<and>
     items h' (xs @ new # ys) = items h xs @ e # items h ys \<and> frame_off (set (l # xs @ ys)) h h' \<and>
     full h' = full h"
proof -
  obtain new h1 where al: "halloc 1 h = (new, h1)" by fastforce
  from insert_fresh [OF d al, of e] obtain h' where
    run: "do { h2 \<leftarrow> set_next h1 (last (l # xs)) new; h2 \<leftarrow> set_dat h2 new e;
            link_after h2 l (last (l # xs)) new (hd (ys @ [0])) } = Some h'"
    and r: "new \<notin> valid h \<and> dll h' l (xs @ new # ys) \<and> valid h' = insert new (valid h) \<and>
     items h' (xs @ new # ys) = items h xs @ e # items h ys \<and> frame_off (set (l # xs @ ys)) h h' \<and>
     full h' = full h" by blast
  have "last (l # xs) \<in> set (l # xs @ ys)" using last_in_set [of "l # xs"] by auto
  then have "get_next h (last (l # xs)) = Some (hd (ys @ [0]))"
    using d dll_split(2) [OF d] by (auto simp: dll_def mem_simps)
  moreover obtain h2 h3 where "set_next h1 (last (l # xs)) new = Some h2" "set_dat h2 new e = Some h3"
    "link_after h3 l (last (l # xs)) new (hd (ys @ [0])) = Some h'"
    using run by (auto simp: bind_eq_Some_conv simp del: last.simps)
  ultimately have "insertlinknode h l (last (l # xs)) e = Some (new, h')"
    by (simp only: insertlinknode_def al bind.bind_lunit prod.case)
  with r show ?thesis by blast
qed

lemma dll_last_node: "dll h l ns \<Longrightarrow> get_prev h l = Some (last (l # ns))"
  using dll_split(5) [of h l ns "[]"] by (simp add: dll_def mem_simps)

lemma dll_first_node: "dll h l ns \<Longrightarrow> get_next h l = Some (hd (ns @ [0]))"
  using dll_split(2) [of h l "[]" ns] by (simp add: dll_def mem_simps)

lemma add_at_end:
  assumes "dll h l ns"
  shows "\<exists>new h'. addlinknode h l e = Some (new, h') \<and> new \<notin> valid h \<and> dll h' l (ns @ [new]) \<and>
     valid h' = insert new (valid h) \<and> items h' (ns @ [new]) = items h ns @ [e] \<and>
     frame_off (set (l # ns)) h h' \<and> full h' = full h"
  using insert_at [of h l ns "[]" e] dll_last_node [OF assms] assms
  by (simp add: addlinknode_def items_def del: last.simps)

lemma push_at_front:
  assumes "dll h l ns"
  shows "\<exists>new h'. pushnode h l e = Some (new, h') \<and> new \<notin> valid h \<and> dll h' l (new # ns) \<and>
     valid h' = insert new (valid h) \<and> items h' (new # ns) = e # items h ns \<and>
     frame_off (set (l # ns)) h h' \<and> full h' = full h"
  using insert_at [of h l "[]" ns e] assms by (simp add: pushnode_def items_def)

section \<open>Removal\<close>

lemma unlink_dll:
  assumes d: "dll h l (xs @ nd # ys)"
    and h': "h' = put_prev (put_next h (last (l # xs)) (hd (ys @ [0]))) (hd (ys @ [l])) (last (l # xs))"
  shows "dll h' l (xs @ ys)" "valid h' = valid h" "dt h' = dt h" "brk h' = brk h" "full h' = full h"
    "\<And>a. a \<notin> set (l # xs @ ys) \<Longrightarrow> nx h' a = nx h a \<and> pv h' a = pv h a"
proof -
  let ?n = "last (l # xs)" and ?t = "hd (ys @ [l])"
  have dd: "distinct (l # xs @ nd # ys)" "set (l # xs @ nd # ys) \<subseteq> valid h" "mem_ok h"
    using d by (auto simp: dll_def)
  have n: "?n \<in> set (l # xs)" using last_in_set [of "l # xs"] by auto
  have t: "?t \<in> set (l # ys)" by (cases ys) auto
  have v: "?n \<in> valid h" "?t \<in> valid h" using n t dd(2) by auto
  have f: "nx h' = (nx h)(?n := hd (ys @ [0]))" "pv h' = (pv h)(?t := ?n)" "mem_ok h'"
    using v dd(3) by (simp_all add: h' mem_simps)
  show g: "valid h' = valid h" "dt h' = dt h" "brk h' = brk h" "full h' = full h"
    using v by (simp_all add: h' mem_simps)
  have dx: "distinct (butlast (l # xs) @ [?n])"
  proof -
    have "butlast (l # xs) @ [?n] = l # xs" by (rule append_butlast_last_id) simp
    moreover have "distinct (l # xs)" using dd(1) by simp
    ultimately show ?thesis by (simp only:)
  qed
  have nb: "?n \<notin> set (butlast (l # xs))"
    using dx unfolding distinct_append by (blast intro: list.set_intros)
  have d2: "dll h l ((xs @ [nd]) @ ys)" using d by simp
  note sp = dll_split [OF d] and sq = dll_split [OF d2]
  show "dll h' l (xs @ ys)"
  proof (rule dllI)
    show "mem_ok h'" by (rule f(3))
    show "distinct (l # xs @ ys)" using dd(1) by auto
    show "set (l # xs @ ys) \<subseteq> valid h'" using dd(2) g(1) by auto
    have "map (nx h') (butlast (l # xs)) = map (nx h) (butlast (l # xs))"
    proof (rule map_cong [OF refl])
      fix a assume "a \<in> set (butlast (l # xs))"
      with nb have "a \<noteq> ?n" by metis
      then show "nx h' a = nx h a" unfolding f by (rule fun_upd_other)
    qed
    then show "map (nx h') (butlast (l # xs)) = xs" unfolding sp(1) .
    show "nx h' ?n = hd (ys @ [0])" by (simp add: f)
    have "?n \<notin> set ys" using dd(1) by (cases xs rule: rev_cases) auto
    then have "map (nx h') ys = map (nx h) ys" by (intro map_cong refl) (auto simp: f)
    then show "map (nx h') ys = tl (ys @ [0])" unfolding sq(3) .
    have "map (pv h') xs = map (pv h) xs"
      using dd(1) t by (intro map_cong refl) (auto simp: f split: if_splits)
    then show "map (pv h') xs = butlast (l # xs)" unfolding sp(4) .
    show "pv h' ?t = ?n" by (simp add: f)
    have "map (pv h') (tl (ys @ [l])) = map (pv h) (tl (ys @ [l]))"
      using dd(1) by (intro map_cong refl) (cases ys; auto simp: f split: if_splits)
    then show "map (pv h') (tl (ys @ [l])) = ys" unfolding sq(6) .
  qed
  show "nx h' a = nx h a \<and> pv h' a = pv h a" if "a \<notin> set (l # xs @ ys)" for a
    using that n t by (auto simp: f split: if_splits)
qed

lemma dll_neighbours:
  assumes "dll h l (xs @ nd # ys)"
  shows "get_prev h nd = Some (last (l # xs))" "get_next h nd = Some (hd (ys @ [0]))"
    "get_dat h nd = Some (dt h nd)" "nd \<in> valid h" "last (l # xs) \<in> valid h" "hd (ys @ [l]) \<in> valid h"
    "hd (ys @ [0]) \<noteq> 0 \<Longrightarrow> hd (ys @ [l]) = hd (ys @ [0])" "hd (ys @ [0]) = 0 \<Longrightarrow> hd (ys @ [l]) = l"
    "nd \<noteq> 0" "nd \<notin> set (l # xs @ ys)" "last (l # xs) \<noteq> nd"
proof -
  have d2: "dll h l ((xs @ [nd]) @ ys)" using assms by simp
  have v: "set (l # xs @ nd # ys) \<subseteq> valid h" "distinct (l # xs @ nd # ys)" using assms by (auto simp: dll_def)
  have n: "last (l # xs) \<in> set (l # xs)" using last_in_set [of "l # xs"] by auto
  have nv: "last (l # xs) \<in> valid h" using v n by (auto simp del: last.simps)
  have "hd (ys @ [l]) \<in> valid h" "nd \<in> valid h" using v(1) by (cases ys; simp)+
  with nv show "nd \<in> valid h" "last (l # xs) \<in> valid h" "hd (ys @ [l]) \<in> valid h" by simp_all
  then show "get_prev h nd = Some (last (l # xs))" "get_next h nd = Some (hd (ys @ [0]))"
    "get_dat h nd = Some (dt h nd)"
    using dll_split(5) [OF assms] dll_split(2) [OF d2] by (simp_all add: mem_simps del: last.simps) simp
  show "hd (ys @ [0]) \<noteq> 0 \<Longrightarrow> hd (ys @ [l]) = hd (ys @ [0])" by (cases ys) auto
  show "hd (ys @ [0]) = 0 \<Longrightarrow> hd (ys @ [l]) = l"
    using dll_nonnull [OF assms] by (cases ys) auto
  show "nd \<noteq> 0" using dll_nonnull [OF assms] by auto
  show "nd \<notin> set (l # xs @ ys)" using v(2) by auto
  then show "last (l # xs) \<noteq> nd" using n by auto
qed

text \<open>What a removal leaves.\<close>

lemma uremnode_at:
  assumes d: "dll h l (xs @ nd # ys)"
  shows "\<exists>h'. uremnode h l nd = Some (dt h nd, h') \<and> dll h' l (xs @ ys) \<and> valid h' = valid h \<and>
     items h' (xs @ ys) = items h xs @ items h ys \<and> frame_off (set (l # xs @ ys)) h h' \<and> full h' = full h"
proof -
  note nb = dll_neighbours [OF d]
  let ?h1 = "put_next h (last (l # xs)) (hd (ys @ [0]))"
  let ?h' = "put_prev ?h1 (hd (ys @ [l])) (last (l # xs))"
  note u = unlink_dll [OF d refl]
  have g: "get_dat ?h' nd = Some (dt h nd)" using nb(4) u(2,3) by (simp add: mem_simps del: last.simps)
  have s: "(if hd (ys @ [0]) \<noteq> 0 then set_prev ?h1 (hd (ys @ [0])) (last (l # xs))
       else set_prev ?h1 l (last (l # xs))) = Some ?h'"
  proof -
    have "hd (ys @ [l]) \<in> valid ?h1" using nb(5,6) by (simp add: mem_simps del: last.simps)
    then have "set_prev ?h1 (hd (ys @ [l])) (last (l # xs)) = Some ?h'" by (rule set_simps)
    then show ?thesis using nb(7,8) by (cases "hd (ys @ [0]) = 0") (simp_all del: last.simps)
  qed
  have "uremnode h l nd = Some (dt h nd, ?h')"
    unfolding uremnode_def nb(1,2) bind.bind_lunit set_simps(1) [OF nb(5)] s g ..
  moreover have "items ?h' (xs @ ys) = items h xs @ items h ys" by (simp add: items_def u(3) del: last.simps)
  moreover have "frame_off (set (l # xs @ ys)) h ?h'" using u(2,3,6) by (simp add: frame_off_def del: last.simps)
  ultimately show ?thesis using u by blast
qed

lemma frame_off_drop:
  "frame_off S h h' \<Longrightarrow> nd \<in> valid h' \<Longrightarrow> frame_off (insert nd S) h (drop_cell h' nd)"
  by (auto simp: frame_off_def drop_simps)

lemma drop_dll:
  "dll h l ns \<Longrightarrow> nd \<in> valid h \<Longrightarrow> nd \<notin> set (l # ns) \<Longrightarrow>
   dll (drop_cell h nd) l ns \<and> items (drop_cell h nd) ns = items h ns"
proof (intro conjI)
  assume a: "dll h l ns" "nd \<in> valid h" "nd \<notin> set (l # ns)"
  show "dll (drop_cell h nd) l ns"
  proof (rule dll_cong [OF a(1)])
    show "nx (drop_cell h nd) b = nx h b \<and> pv (drop_cell h nd) b = pv h b" if "b \<in> set (l # ns)" for b
      using that a(3) drop_simps(1,2) [OF a(2), of b] by metis
  qed (use a in \<open>auto simp: mem_ok_drop dll_def drop_simps\<close>)
  show "items (drop_cell h nd) ns = items h ns"
    unfolding items_def
  proof (rule map_cong [OF refl])
    show "dt (drop_cell h nd) b = dt h b" if "b \<in> set ns" for b
      using that a(3) drop_simps(3) [OF a(2), of b] by (metis list.set_intros(2))
  qed
qed

lemma remnode_at:
  assumes d: "dll h l (xs @ nd # ys)"
  shows "\<exists>h'. remnode h l nd = Some (dt h nd, h') \<and> dll h' l (xs @ ys) \<and> valid h' = valid h - {nd} \<and>
     items h' (xs @ ys) = items h xs @ items h ys \<and> frame_off (set (l # xs @ nd # ys)) h h' \<and> full h' = full h"
proof -
  obtain h1 where h1: "uremnode h l nd = Some (dt h nd, h1)" "dll h1 l (xs @ ys)" "valid h1 = valid h"
     "items h1 (xs @ ys) = items h xs @ items h ys" "frame_off (set (l # xs @ ys)) h h1" "full h1 = full h"
    using uremnode_at [OF d] by blast
  have v: "nd \<in> valid h1" "nd \<notin> set (l # xs @ ys)" using dll_neighbours(4,10) [OF d] h1(3) by auto
  have "set (l # xs @ nd # ys) = insert nd (set (l # xs @ ys))" by auto
  with frame_off_drop [OF h1(5) v(1)] have f: "frame_off (set (l # xs @ nd # ys)) h (drop_cell h1 nd)" by simp
  have "remnode h l nd = Some (dt h nd, drop_cell h1 nd)"
    using v(1) by (simp add: remnode_def h1(1) set_simps)
  with drop_dll [OF h1(2) v] f v h1(3,4,6) show ?thesis by (auto simp: drop_simps)
qed

lemma drop_first_uremnode:
  assumes "dll h l (nd # ys)"
  shows "drop_first h l nd = uremnode h l nd"
proof -
  have d: "dll h l ([] @ nd # ys)" using assms by simp
  note nb = dll_neighbours [OF d]
  let ?h1 = "put_next h l (hd (ys @ [0]))"
  have v: "l \<in> valid h" "nd \<in> valid h" "l \<noteq> nd" using nb(4,5,11) by simp_all
  have g: "get_dat h1 nd = Some (dt h nd)" if "h1 = ?h1 \<or> (\<exists>b. b \<in> valid h \<and> h1 = put_prev ?h1 b l)" for h1
    using that v by (auto simp: mem_simps)
  have w: "hd (ys @ [0]) \<noteq> 0 \<Longrightarrow> hd (ys @ [0]) \<in> valid h" using nb(6,7) by simp
  show ?thesis
    unfolding drop_first_def uremnode_def using nb(1-3) v w
    by (simp add: set_simps get_simps put_simps)
qed

lemma ugetnode_spec:
  assumes d: "dll h l ns"
  shows "ns = [] \<Longrightarrow> ugetnode h l = Some (None, h)"
    and "ns = nd # ys \<Longrightarrow> \<exists>h'. ugetnode h l = Some (dt h nd, h') \<and> dll h' l ys \<and> valid h' = valid h \<and>
      items h' ys = items h ys \<and> frame_off (set (l # ys)) h h' \<and> full h' = full h"
proof -
  show "ns = [] \<Longrightarrow> ugetnode h l = Some (None, h)"
    using dll_first_node [OF d] by (simp add: ugetnode_def)
  assume n: "ns = nd # ys"
  with d have d': "dll h l (nd # ys)" "dll h l ([] @ nd # ys)" by simp_all
  have "ugetnode h l = uremnode h l nd"
    using dll_first_node [OF d] dll_neighbours(9) [OF d'(2)] n drop_first_uremnode [OF d'(1)]
    by (simp add: ugetnode_def)
  with uremnode_at [OF d'(2)] show "\<exists>h'. ugetnode h l = Some (dt h nd, h') \<and> dll h' l ys \<and>
      valid h' = valid h \<and> items h' ys = items h ys \<and> frame_off (set (l # ys)) h h' \<and> full h' = full h"
    by (simp add: items_def)
qed

lemma getlinknode_spec:
  assumes d: "dll h l ns"
  shows "ns = [] \<Longrightarrow> getlinknode h l = Some (None, h)"
    and "ns = nd # ys \<Longrightarrow> \<exists>h'. getlinknode h l = Some (dt h nd, h') \<and> dll h' l ys \<and>
      valid h' = valid h - {nd} \<and> items h' ys = items h ys \<and> frame_off (set (l # nd # ys)) h h' \<and> full h' = full h"
proof -
  show "ns = [] \<Longrightarrow> getlinknode h l = Some (None, h)"
    using dll_first_node [OF d] by (simp add: getlinknode_def)
  assume n: "ns = nd # ys"
  with d have d': "dll h l (nd # ys)" "dll h l ([] @ nd # ys)" by simp_all
  have "getlinknode h l = remnode h l nd"
    using dll_first_node [OF d] dll_neighbours(9) [OF d'(2)] n drop_first_uremnode [OF d'(1)]
    by (simp add: getlinknode_def remnode_def)
  with remnode_at [OF d'(2)] show "\<exists>h'. getlinknode h l = Some (dt h nd, h') \<and> dll h' l ys \<and>
      valid h' = valid h - {nd} \<and> items h' ys = items h ys \<and> frame_off (set (l # nd # ys)) h h' \<and> full h' = full h"
    by (simp add: items_def)
qed

end
