(* ===== verification/LinkList_Join.thy ===== *)
theory LinkList_Join
  imports LinkList
begin

text \<open>
  The lists of \<open>Src/linklist.c\<close>, continued: the traversing operations (counting,
  searching, copying to an array, freeing) and those that move whole chains of nodes
  (joining, splicing, rotating, sized lists).
\<close>

section \<open>Traversal\<close>

definition chain :: "'d mem \<Rightarrow> addr list \<Rightarrow> bool" where
  "chain h ys \<longleftrightarrow> set ys \<subseteq> valid h \<and> 0 \<notin> set ys \<and> map (nx h) ys = tl (ys @ [0])"

lemma chain_Nil [simp]: "chain h []"
  by (simp add: chain_def)

lemma chain_Cons [simp]:
  "chain h (y # ys) \<longleftrightarrow> y \<in> valid h \<and> y \<noteq> 0 \<and> nx h y = hd (ys @ [0]) \<and> chain h ys"
  by (cases ys) (auto simp: chain_def)

lemma dll_chain: "dll h l (xs @ ys) \<Longrightarrow> chain h ys"
  using dll_split(3) [of h l xs ys] dll_nonnull [of h l "xs @ ys"] by (fastforce simp: chain_def)

lemma dll_chain0: "dll h l ns \<Longrightarrow> chain h ns"
  using dll_chain [of h l "[]" ns] by simp

lemma int_succ_simp: "i < INT_MAX \<Longrightarrow> int_succ i = Some (i + 1)"
  by (simp add: int_succ_def)

lemma count_loop_chain:
  "chain h ys \<Longrightarrow> 0 \<le> ct \<Longrightarrow> ct + int (length ys) \<le> INT_MAX \<Longrightarrow>
   count_loop h (hd (ys @ [0])) ct = Some (ct + int (length ys))"
  by (induction ys arbitrary: ct) (subst count_loop.simps; simp add: get_simps int_succ_simp)+

lemma countlinknodes_length:
  "dll h l ns \<Longrightarrow> int (length ns) \<le> INT_MAX \<Longrightarrow> countlinknodes h l = Some (int (length ns))"
  using count_loop_chain [OF dll_chain0, of h l ns 0] by (simp add: countlinknodes_def dll_first_node)

lemma find_loop_chain:
  "chain h ys \<Longrightarrow> (\<And>a. a \<in> set ys \<Longrightarrow> test (dt h a) = Some (p (dt h a))) \<Longrightarrow>
   find_loop test h (hd (ys @ [0])) = Some (hd (dropWhile (\<lambda>a. \<not> p (dt h a)) ys @ [0]))"
  by (induction ys) (subst find_loop.simps; simp add: get_simps)+

lemma array_loop_chain:
  "chain h ys \<Longrightarrow> p + length ys < length ret \<Longrightarrow>
   array_loop dup h (hd (ys @ [0])) p ret =
     Some (take p ret @ map (case dup of None \<Rightarrow> id | Some f \<Rightarrow> map_option f) (items h ys) @ None # drop (p + length ys + 1) ret)"
proof (induction ys arbitrary: p ret)
  case Nil
  then show ?case by (subst array_loop.simps) (simp add: upd_conv_take_nth_drop items_def)
next
  case (Cons y ys)
  let ?v = "(case dup of None \<Rightarrow> dt h y | Some f \<Rightarrow> map_option f (dt h y))"
  have "array_loop dup h (hd (ys @ [0])) (Suc p) (ret[p := ?v]) =
     Some (take (Suc p) (ret[p := ?v]) @ map (case dup of None \<Rightarrow> id | Some f \<Rightarrow> map_option f) (items h ys)
       @ None # drop (Suc p + length ys + 1) (ret[p := ?v]))"
    using Cons.prems by (intro Cons.IH) auto
  moreover have "take (Suc p) (ret[p := ?v]) = take p ret @ [?v]"
    using Cons.prems(2) by (simp add: take_Suc_conv_app_nth)
  ultimately show ?case
    using Cons.prems by (subst array_loop.simps) (simp add: get_simps items_def split: option.splits)
qed

lemma hlinklist2array_items:
  assumes "dll h l ns" "int (length ns) < INT_MAX"
  shows "hlinklist2array dup h l =
    Some (map (case dup of None \<Rightarrow> id | Some f \<Rightarrow> map_option f) (items h ns) @ [None])"
proof -
  have "nat (int (length ns) + 1) = length ns + 1" by simp
  then show ?thesis
    using array_loop_chain [OF dll_chain0 [OF assms(1)], of 0 "replicate (length ns + 1) None" dup] assms(2)
    by (simp add: hlinklist2array_def countlinknodes_length [OF assms(1)] dll_first_node [OF assms(1)]
        int_succ_simp del: replicate.simps)
qed

lemma free_loop_chain:
  "chain h ys \<Longrightarrow> distinct ys \<Longrightarrow>
   \<exists>h'. free_loop ff h (hd (ys @ [0])) freed = Some (if ff then freed @ items h ys else freed, h') \<and>
     valid h' = valid h - set ys \<and> frame_off (set ys) h h'"
proof (induction ys arbitrary: h freed)
  case Nil
  show ?case by (subst free_loop.simps) (simp add: items_def frame_off_def)
next
  case (Cons y ys)
  let ?h = "drop_cell h y"
  have y: "y \<in> valid h" "y \<noteq> 0" "y \<notin> set ys" "nx h y = hd (ys @ [0])" using Cons.prems by auto
  have o: "b \<in> set ys \<Longrightarrow> b \<noteq> y" for b using y(3) by auto
  have m: "map (nx ?h) ys = map (nx h) ys" using o drop_simps(1) [OF y(1)] by (intro map_cong refl) blast
  have "chain h ys" using Cons.prems(1) by simp
  then have "chain ?h ys" unfolding chain_def m using y by (auto simp: drop_simps)
  moreover have "items ?h ys = items h ys"
    unfolding items_def using o drop_simps(3) [OF y(1)] by (intro map_cong refl) blast
  ultimately obtain h' where h': "free_loop ff ?h (hd (ys @ [0])) (if ff then freed @ [dt h y] else freed)
      = Some (if ff then (freed @ [dt h y]) @ items h ys else freed, h')"
    "valid h' = valid ?h - set ys" "frame_off (set ys) ?h h'"
    using Cons.IH [of ?h "if ff then freed @ [dt h y] else freed"] Cons.prems(2) by (auto split: if_splits)
  have "free_loop ff h y freed = Some (if ff then freed @ items h (y # ys) else freed, h')"
    using h'(1) y by (subst free_loop.simps) (simp add: get_simps set_simps items_def)
  moreover have "frame_off (set (y # ys)) h h'"
    using h'(3) y by (auto simp: frame_off_def drop_simps)
  moreover have "valid h' = valid h - set (y # ys)" using h'(2) y by (auto simp: drop_simps)
  ultimately show ?case by auto
qed

lemma freelinklist_spec:
  assumes d: "dll h l ns"
  shows "\<exists>h'. freelinklist ff h l = Some (if ff then items h ns else [], h') \<and>
     valid h' = valid h - set (l # ns) \<and> frame_off (set (l # ns)) h h'"
proof -
  have dd: "distinct ns" "l \<notin> set ns" "l \<in> valid h" using d by (auto simp: dll_def)
  obtain h' where h': "free_loop ff h (hd (ns @ [0])) [] = Some (if ff then items h ns else [], h')"
     "valid h' = valid h - set ns" "frame_off (set ns) h h'"
    using free_loop_chain [OF dll_chain0 [OF d] dd(1), of ff "[]"] by auto
  have v: "l \<in> valid h'" using dd h'(2) by simp
  have "freelinklist ff h l = Some (if ff then items h ns else [], drop_cell h' l)"
    using v by (simp add: freelinklist_def dll_first_node [OF d] h'(1) set_simps)
  with frame_off_drop [OF h'(3) v] h'(2) v show ?thesis by (auto simp: drop_simps)
qed

section \<open>Joining, splicing, rotating\<close>

lemma map_upd_last: "distinct zs \<Longrightarrow> zs \<noteq> [] \<Longrightarrow> map (g(last zs := v)) zs = butlast (map g zs) @ [v]"
  by (induction zs rule: rev_induct) auto

lemma map_upd_other: "a \<notin> set zs \<Longrightarrow> map (g(a := v)) zs = map g zs"
  by (auto intro: map_cong)

lemma map_upd2_other: "a \<notin> set zs \<Longrightarrow> b \<notin> set zs \<Longrightarrow> map (g(a := v, b := w)) zs = map g zs"
  by (auto intro: map_cong)

lemma map_upd3_other:
  "a \<notin> set zs \<Longrightarrow> b \<notin> set zs \<Longrightarrow> c \<notin> set zs \<Longrightarrow> map (g(a := v, b := w, c := x)) zs = map g zs"
  by (auto intro: map_cong)

lemma distinct_butlast_last: "distinct (l # xs) \<Longrightarrow> last (l # xs) \<notin> set (butlast (l # xs))"
  by (induction xs arbitrary: l) (auto split: if_splits dest: in_set_butlastD)

lemma last_in_header [simp]: "last (l # xs) \<in> set (l # xs)"
  by (rule last_in_set) simp

lemma dll_whole:
  assumes "dll h l ns"
  shows "nx h l = hd (ns @ [0])" "map (nx h) ns = tl (ns @ [0])" "map (pv h) ns = butlast (l # ns)"
    "pv h l = last (l # ns)" "ns \<noteq> [] \<Longrightarrow> pv h (hd ns) = l" "ns \<noteq> [] \<Longrightarrow> map (pv h) (tl ns) = butlast ns"
proof -
  have d0: "dll h l ([] @ ns)" "dll h l (ns @ [])" using assms by simp_all
  show "nx h l = hd (ns @ [0])" "map (nx h) ns = tl (ns @ [0])" using dll_split(2,3) [OF d0(1)] by simp_all
  show p: "map (pv h) ns = butlast (l # ns)" "pv h l = last (l # ns)"
    using dll_split(4,5) [OF d0(2)] by (simp_all del: last.simps butlast.simps)
  show "ns \<noteq> [] \<Longrightarrow> pv h (hd ns) = l" "ns \<noteq> [] \<Longrightarrow> map (pv h) (tl ns) = butlast ns"
    using p(1) by (cases ns; simp)+
qed

lemma joinlists_spec:
  assumes d1: "dll h l1 ns1" and d2: "dll h l2 ns2" and dis: "set (l1 # ns1) \<inter> set (l2 # ns2) = {}"
  shows "\<exists>h'. joinlists h l1 l2 = Some (l1, h') \<and> dll h' l1 (ns1 @ ns2) \<and>
     items h' (ns1 @ ns2) = items h ns1 @ items h ns2 \<and> valid h' = valid h \<and>
     frame_off (set (l1 # ns1) \<union> set (l2 # ns2)) h h' \<and>
     (ns2 \<noteq> [] \<longrightarrow> firstnode h' l2 = Some 0 \<and> lastnode h' l2 = Some 0)"
proof (cases ns2)
  case Nil
  then have "joinlists h l1 l2 = Some (l1, h)" using dll_first_node [OF d2] by (simp add: joinlists_def)
  with Nil d1 show ?thesis by (auto simp: items_def frame_off_def)
next
  case (Cons m ms)
  let ?n = "last (l1 # ns1)" and ?e = "last ns2"
  have v: "set (l1 # ns1) \<subseteq> valid h" "set (l2 # ns2) \<subseteq> valid h" "distinct (l1 # ns1)" "distinct (l2 # ns2)" "mem_ok h"
    using d1 d2 by (auto simp: dll_def)
  note w1 = dll_whole [OF d1] and w2 = dll_whole [OF d2]
  have n: "?n \<in> set (l1 # ns1)" by simp
  have m: "m \<in> set (l2 # ns2)" "m \<noteq> 0" using Cons dll_nonnull [OF d2] by auto
  have nm: "?n \<noteq> m" "?n \<noteq> l2" "l1 \<noteq> m" "l1 \<noteq> l2" "m \<noteq> l2"
    using n m dis v(4) Cons by (auto simp del: last.simps)
  define h1 where "h1 = put_prev (put_next h ?n m) m ?n"
  define h' where "h' = put_next (put_prev (put_prev h1 l1 ?e) l2 0) l2 0"
  have vs: "?n \<in> valid h" "m \<in> valid h" "l1 \<in> valid h" "l2 \<in> valid h" using n m v by auto
  have g1: "nx h1 = (nx h)(?n := m)" "pv h1 = (pv h)(m := ?n)" "dt h1 = dt h" "valid h1 = valid h" "mem_ok h1"
    using vs v(5) by (simp_all add: h1_def mem_simps del: last.simps)
  have g: "nx h' = (nx h)(?n := m, l2 := 0)" "pv h' = (pv h)(m := ?n, l1 := ?e, l2 := 0)"
    "dt h' = dt h" "valid h' = valid h" "mem_ok h'"
    using vs g1 by (simp_all add: h'_def mem_simps del: last.simps)
  have e: "get_prev h1 l2 = Some ?e" using vs g1 w2(4) nm Cons by (simp add: get_simps)
  have two: "(if hd (ns1 @ [0]) \<noteq> 0 then do { anchor \<leftarrow> lastnode h l1; h \<leftarrow> set_next h anchor m; set_prev h m anchor }
      else do { h \<leftarrow> set_next h l1 m; set_prev h m l1 }) = Some h1"
  proof -
    have "set_next h ?n m = Some (put_next h ?n m)" "set_prev (put_next h ?n m) m ?n = Some h1"
      using vs by (simp_all add: h1_def mem_simps del: last.simps)
    moreover have "hd (ns1 @ [0]) = 0 \<Longrightarrow> ns1 = []" using dll_nonnull [OF d1] by (cases ns1) auto
    ultimately show ?thesis using dll_last_node [OF d1] by (cases "ns1 = []") (auto simp del: last.simps, auto)
  qed
  have run: "joinlists h l1 l2 = Some (l1, h')"
  proof -
    have "hd (ns2 @ [0]) = m" "(m = 0) = False" using Cons m(2) by simp_all
    moreover have "set_prev h1 l1 ?e = Some (put_prev h1 l1 ?e)"
      "set_prev (put_prev h1 l1 ?e) l2 0 = Some (put_prev (put_prev h1 l1 ?e) l2 0)"
      "set_next (put_prev (put_prev h1 l1 ?e) l2 0) l2 0 = Some h'"
      using vs g1 by (simp_all add: h'_def mem_simps del: last.simps)
    ultimately show ?thesis
      unfolding joinlists_def dll_first_node [OF d2] dll_first_node [OF d1] bind.bind_lunit
      by (simp only: two e bind.bind_lunit if_False)
  qed
  have off1: "a \<in> set (l1 # ns1) \<Longrightarrow> a \<noteq> l2 \<and> a \<noteq> m" and off2: "a \<in> set ns2 \<Longrightarrow> a \<noteq> ?n \<and> a \<noteq> l1 \<and> a \<noteq> l2" for a
    using dis m(1) n v(4) by (auto simp del: last.simps)
  have "dll h' l1 (ns1 @ ns2)"
  proof (rule dllI)
    show "distinct (l1 # ns1 @ ns2)" "set (l1 # ns1 @ ns2) \<subseteq> valid h'" using v dis g(4) by auto
    have "l2 \<notin> set (butlast (l1 # ns1))"
    proof
      assume "l2 \<in> set (butlast (l1 # ns1))"
      then have "l2 \<in> set (l1 # ns1)" by (rule in_set_butlastD)
      with off1 show False by metis
    qed
    then have "map (nx h') (butlast (l1 # ns1)) = map (nx h) (butlast (l1 # ns1))"
      unfolding g by (intro map_upd2_other distinct_butlast_last v(3))
    then show "map (nx h') (butlast (l1 # ns1)) = ns1" using dll_split(1) [of h l1 ns1 "[]"] d1 by (simp only: append_Nil2)
    show "nx h' ?n = hd (ns2 @ [0])" using nm Cons by (simp add: g del: last.simps)
    have "map (nx h') ns2 = map (nx h) ns2"
      unfolding g using off2 by (intro map_upd2_other) blast+
    then show "map (nx h') ns2 = tl (ns2 @ [0])" using w2(2) by simp
    have "map (pv h') ns1 = map (pv h) ns1"
      unfolding g using off1 v(3) by (intro map_upd3_other) auto
    then show "map (pv h') ns1 = butlast (l1 # ns1)" unfolding w1(3) .
    show "pv h' (hd (ns2 @ [l1])) = ?n" using nm Cons by (simp add: g del: last.simps)
    have "m \<notin> set ms" "\<And>a. a \<in> set ms \<Longrightarrow> a \<in> set ns2" using v(4) Cons by auto
    then have "map (pv h') ms = map (pv h) ms"
      unfolding g using off2 by (intro map_upd3_other) blast+
    moreover have "pv h' l1 = ?e" using nm by (simp add: g del: last.simps)
    ultimately have "map (pv h') (tl (ns2 @ [l1])) = map (pv h) (tl ns2) @ [?e]" using Cons by simp
    also have "\<dots> = ns2" using w2(6) Cons by (simp del: last.simps butlast.simps)
    finally show "map (pv h') (tl (ns2 @ [l1])) = ns2" .
  qed (rule g(5))
  moreover have "items h' (ns1 @ ns2) = items h ns1 @ items h ns2" by (simp add: items_def g)
  moreover have "frame_off (set (l1 # ns1) \<union> set (l2 # ns2)) h h'"
    unfolding frame_off_def g(3,4)
  proof (intro ballI conjI refl)
    fix a assume a: "a \<in> valid h - (set (l1 # ns1) \<union> set (l2 # ns2))"
    then have "a \<noteq> ?n" "a \<noteq> l1" "a \<noteq> l2" "a \<noteq> m" using n m by auto
    then show "nx h' a = nx h a" "pv h' a = pv h a" unfolding g by simp_all
  qed simp
  moreover have "firstnode h' l2 = Some 0" "lastnode h' l2 = Some 0"
    using vs g nm by (simp_all add: get_simps del: last.simps)
  ultimately show ?thesis using run g(4) by blast
qed

lemma insertlinklist_spec:
  assumes d1: "dll h x (xs @ ys)" and d2: "dll h l ns" and dis: "set (x # xs @ ys) \<inter> set (l # ns) = {}"
  shows "\<exists>h'. insertlinklist h l (last (x # xs)) x = Some h' \<and> dll h' x (xs @ ns @ ys) \<and>
     items h' (xs @ ns @ ys) = items h xs @ items h ns @ items h ys \<and> valid h' = valid h \<and>
     frame_off (set (x # xs @ ys) \<union> set ns) h h'"
proof -
  let ?n = "last (x # xs)" and ?t = "hd (ys @ [x])" and ?e = "last (l # ns)"
  have v: "set (x # xs @ ys) \<subseteq> valid h" "set (l # ns) \<subseteq> valid h" "distinct (x # xs @ ys)"
    "distinct (l # ns)" "mem_ok h" "distinct (x # xs)" using d1 d2 by (auto simp: dll_def)
  note w1 = dll_split [OF d1] and w2 = dll_whole [OF d2]
  have n: "?n \<in> set (x # xs @ ys)" using last_in_header [of x xs] by (auto simp del: last_in_header)
  have nv: "get_next h ?n = Some (hd (ys @ [0]))" using w1(2) get_simps(1) [of ?n h] subsetD [OF v(1) n] by (simp only:)
  show ?thesis
  proof (cases ns)
    case Nil
    then have "insertlinklist h l ?n x = Some h"
      unfolding insertlinklist_def nv dll_first_node [OF d2] by simp
    with Nil d1 show ?thesis by (auto simp: items_def frame_off_def simp del: last.simps)
  next
    case (Cons f fs)
    have fm: "f \<in> set (l # ns)" "?e \<in> set ns" "f \<noteq> 0" "last ns = ?e" using Cons dll_nonnull [OF d2] by auto
    have t: "?t \<in> set (x # ys)" by (cases ys) auto
    have ne: "?n \<noteq> ?e" "?n \<noteq> l" "f \<noteq> ?t" "?e \<in> set (l # ns)" "?t \<noteq> l" "f \<noteq> l"
    proof -
      have A: "?n \<in> set (x # xs @ ys)" "?t \<in> set (x # xs @ ys)" using n t by auto
      have B: "?e \<in> set (l # ns)" "f \<in> set (l # ns)" "l \<in> set (l # ns)" using fm by simp_all
      have D: "a \<in> set (x # xs @ ys) \<Longrightarrow> b \<in> set (l # ns) \<Longrightarrow> a \<noteq> b" for a b
        using dis by (metis IntI empty_iff)
      show "?n \<noteq> ?e" by (rule D [OF A(1) B(1)])
      show "?n \<noteq> l" by (rule D [OF A(1) B(3)])
      show "f \<noteq> ?t" using D [OF A(2) B(2)] by metis
      show "?e \<in> set (l # ns)" by (rule B(1))
      show "?t \<noteq> l" by (rule D [OF A(2) B(3)])
      show "f \<noteq> l" using v(4) Cons by auto
    qed
    define h1 where "h1 = put_next h ?n f"
    define h2 where "h2 = put_next h1 ?e (hd (ys @ [0]))"
    define h3 where "h3 = put_prev h2 f ?n"
    define h' where "h' = put_prev h3 ?t ?e"
    have vs: "?n \<in> valid h" "?e \<in> valid h" "f \<in> valid h" "?t \<in> valid h" "l \<in> valid h"
      using n t fm ne(4) v(1,2) by auto
    have g1: "nx h1 = (nx h)(?n := f)" "pv h1 = pv h" "valid h1 = valid h" "dt h1 = dt h" "mem_ok h1"
      using vs v(5) by (simp_all add: h1_def mem_simps del: last.simps)
    have g2: "nx h2 = (nx h)(?n := f, ?e := hd (ys @ [0]))" "pv h2 = pv h" "valid h2 = valid h"
      "dt h2 = dt h" "mem_ok h2"
      using vs g1 by (simp_all add: h2_def mem_simps del: last.simps)
    have g3: "nx h3 = nx h2" "pv h3 = (pv h)(f := ?n)" "valid h3 = valid h" "dt h3 = dt h" "mem_ok h3"
      using vs g2 by (simp_all add: h3_def mem_simps del: last.simps)
    have g: "nx h' = (nx h)(?n := f, ?e := hd (ys @ [0]))" "pv h' = (pv h)(f := ?n, ?t := ?e)"
      "dt h' = dt h" "valid h' = valid h" "mem_ok h'"
      using vs g2(1) g3 by (simp_all add: h'_def mem_simps del: last.simps)
    have le: "l \<noteq> ?e" "nx h l = f" using v(4) fm(2) w2(1) Cons by auto
    have s: "set_next h ?n f = Some h1" "lastnode h1 l = Some ?e" "set_next h1 ?e (hd (ys @ [0])) = Some h2"
      "firstnode h2 l = Some f" "set_prev h2 f ?n = Some h3" "lastnode h3 l = Some ?e" "set_prev h3 ?t ?e = Some h'"
    proof -
      show "set_next h ?n f = Some h1" unfolding h1_def by (rule set_simps(1) [OF vs(1)])
      show "set_next h1 ?e (hd (ys @ [0])) = Some h2"
        unfolding h2_def using vs(2) g1(3) by (intro set_simps(1)) simp
      show "set_prev h2 f ?n = Some h3" unfolding h3_def using vs(3) g2(3) by (intro set_simps(2)) simp
      show "set_prev h3 ?t ?e = Some h'" unfolding h'_def using vs(4) g3(3) by (intro set_simps(2)) simp
      show "lastnode h1 l = Some ?e" using vs(5) g1 w2(4) by (simp only: get_simps)
      show "firstnode h2 l = Some f" using vs(5) g2 ne(2) le by (simp add: get_simps del: last.simps)
      show "lastnode h3 l = Some ?e" using vs(5) g3 ne(6) w2(4) by (simp add: get_simps del: last.simps)
    qed
    have c: "(if hd (ys @ [0]) \<noteq> 0 then set_prev h3 (hd (ys @ [0])) ?e else set_prev h3 x ?e) = Some h'"
      using s(7) dll_nonnull [OF d1] by (cases ys) (auto simp del: last.simps)
    have run: "insertlinklist h l ?n x = Some h'"
    proof -
      have "hd (ns @ [0]) = f" "(f = 0) = False" using Cons fm(3) by simp_all
      then show ?thesis
        unfolding insertlinklist_def nv dll_first_node [OF d2]
        by (simp only: s c bind.bind_lunit if_False)
    qed
    have m1: "a \<in> set (x # xs @ ys) \<Longrightarrow> a \<noteq> ?e \<and> a \<noteq> f" and m2: "a \<in> set ns \<Longrightarrow> a \<noteq> ?n \<and> a \<noteq> ?t" for a
      using dis fm n t by (auto simp del: last.simps)
    have "dll h' x ((xs @ ns) @ ys)"
    proof (rule dllI)
      show "distinct (x # (xs @ ns) @ ys)" "set (x # (xs @ ns) @ ys) \<subseteq> valid h'" using v dis g(4) by auto
      have bl: "butlast (x # xs @ ns) = butlast (x # xs) @ ?n # butlast ns" "last (x # xs @ ns) = ?e"
        using Cons by (simp_all add: butlast_append)
      have eb: "?e \<notin> set (butlast ns)"
        using distinct_butlast_last [of f fs] v(4) Cons by (auto simp del: butlast.simps)
      have eb2: "?n \<notin> set (butlast ns)"
      proof
        assume "?n \<in> set (butlast ns)"
        then have "?n \<in> set ns" by (rule in_set_butlastD)
        from m2 [OF this] show False by blast
      qed
      have xb: "?e \<notin> set (butlast (x # xs))"
      proof
        assume "?e \<in> set (butlast (x # xs))"
        then have "?e \<in> set (x # xs)" by (rule in_set_butlastD)
        then have "?e \<in> set (x # xs @ ys)" by (simp only: set_append list.set) blast
        from m1 [OF this] show False by blast
      qed
      have "map (nx h') (butlast (x # xs)) = map (nx h) (butlast (x # xs))"
        unfolding g by (intro map_upd2_other distinct_butlast_last v(6) xb)
      note A = this [unfolded w1(1)]
      have "map (nx h') (butlast ns) = map (nx h) (butlast ns)"
        unfolding g by (intro map_upd2_other eb eb2)
      also have "\<dots> = fs" using w2(2) Cons by (simp only: map_butlast) simp
      finally have B: "map (nx h') (butlast ns) = fs" .
      have C: "nx h' ?n = f" using ne(1) by (simp add: g del: last.simps)
      show "map (nx h') (butlast (x # xs @ ns)) = xs @ ns"
        unfolding bl map_append list.map A B C using Cons by simp
      show "nx h' (last (x # xs @ ns)) = hd (ys @ [0])" unfolding bl by (simp add: g del: last.simps)
      have "?n \<notin> set ys" "?e \<notin> set ys"
      proof -
        show "?n \<notin> set ys" using v(3) by (cases xs rule: rev_cases) auto
        have "?e \<in> set ys \<Longrightarrow> ?e \<in> set (x # xs @ ys)" by simp
        with m1 [of ?e] show "?e \<notin> set ys" by blast
      qed
      then have "map (nx h') ys = map (nx h) ys" unfolding g by (intro map_upd2_other)
      then show "map (nx h') ys = tl (ys @ [0])" unfolding w1(3) .
      have "?t \<notin> set xs" using v(3) t by auto
      moreover have "f \<notin> set xs" using m1 [of f] by auto
      ultimately have "map (pv h') xs = map (pv h) xs" unfolding g by (intro map_upd2_other)
      note A = this [unfolded w1(4)]
      have "f \<notin> set fs" "?t \<notin> set fs" using v(4) Cons m2 [of ?t] by auto
      then have "map (pv h') fs = map (pv h) fs" unfolding g by (intro map_upd2_other)
      also have "\<dots> = butlast ns" using w2(6) Cons by (simp del: last.simps butlast.simps)
      finally have B: "map (pv h') fs = butlast ns" .
      have C: "pv h' f = ?n" using ne(3) by (simp add: g del: last.simps)
      show "map (pv h') (xs @ ns) = butlast (x # xs @ ns)"
        unfolding bl map_append A unfolding Cons list.map B [unfolded Cons] C ..
      show "pv h' ?t = last (x # xs @ ns)" unfolding bl by (simp add: g del: last.simps)
      have "?t \<notin> set (tl (ys @ [x]))" using v(3) by (cases ys) auto
      moreover have "f \<notin> set (tl (ys @ [x]))" using m1 [of f] by (cases ys) auto
      ultimately have "map (pv h') (tl (ys @ [x])) = map (pv h) (tl (ys @ [x]))"
        unfolding g by (intro map_upd2_other)
      then show "map (pv h') (tl (ys @ [x])) = ys" unfolding w1(6) .
    qed (rule g(5))
    moreover have "items h' (xs @ ns @ ys) = items h xs @ items h ns @ items h ys" by (simp add: items_def g)
    moreover have "frame_off (set (x # xs @ ys) \<union> set ns) h h'"
      unfolding frame_off_def g(3,4)
    proof (intro ballI conjI refl)
      fix a assume a: "a \<in> valid h - (set (x # xs @ ys) \<union> set ns)"
      then have "a \<noteq> ?n" "a \<noteq> ?e" "a \<noteq> ?t" "a \<noteq> f" using n t fm Cons by (auto simp del: last.simps)
      then show "nx h' a = nx h a" "pv h' a = pv h a" unfolding g by simp_all
    qed simp
    ultimately show ?thesis using run g(4) by auto
  qed
qed

text \<open>Rotation: the chosen node comes first, those before it go to the end.\<close>

lemma rolllist_spec:
  assumes d: "dll h l (xs @ nd # ys)"
  shows "\<exists>h'. rolllist h l nd = Some h' \<and> dll h' l (nd # ys @ xs) \<and> valid h' = valid h \<and>
     dt h' = dt h \<and> frame_off (set (l # xs @ nd # ys)) h h'"
proof -
  define ns where "ns = xs @ nd # ys"
  let ?f = "hd ns" and ?e = "last ns" and ?p = "last (last (nd # ys) # xs)"
  have dn: "dll h l ns" using d by (simp add: ns_def)
  have v: "distinct (l # ns)" "set (l # ns) \<subseteq> valid h" "mem_ok h" using dn by (auto simp: dll_def)
  have ne: "ns \<noteq> []" by (simp add: ns_def)
  have e: "?e = last (nd # ys)" by (simp add: ns_def)
  note w = dll_whole [OF dn] and sp = dll_split [OF d]
  have sq: "map (nx h) ys = tl (ys @ [0])" "nx h nd = hd (ys @ [0])"
    using dll_split(2,3) [of h l "xs @ [nd]" ys] d by simp_all
  have mem: "?f \<in> set ns" "?e \<in> set ns" "nd \<in> set ns" "?p \<in> set ns"
    using ne unfolding ns_def by (auto simp: hd_append split: if_splits)
  then have vs: "?f \<in> valid h" "?e \<in> valid h" "nd \<in> valid h" "l \<in> valid h" "?p \<in> valid h" using v(2) by auto
  have nl: "?f \<noteq> l" "?e \<noteq> l" "nd \<noteq> l" "?p \<noteq> l" using mem v(1) by auto
  have pnd: "xs \<noteq> [] \<Longrightarrow> ?p \<noteq> nd \<and> ?f \<noteq> nd \<and> pv h nd = ?p \<and> ?p \<noteq> ?e" "xs = [] \<Longrightarrow> ?f = nd \<and> ?p = ?e"
  proof -
    assume x: "xs \<noteq> []"
    have "pv h nd = last (l # xs)" using sp(5) by simp
    then have "pv h nd = ?p" using x by simp
    moreover have "?p \<in> set xs" "?f \<in> set xs" using x by (auto simp: ns_def)
    moreover have "?e \<in> set (nd # ys)" unfolding e by (rule last_in_set) simp
    ultimately show "?p \<noteq> nd \<and> ?f \<noteq> nd \<and> pv h nd = ?p \<and> ?p \<noteq> ?e"
      using v(1) unfolding ns_def by (metis IntI distinct.simps(2) distinct_append empty_iff list.set_intros(1))
  qed (simp_all add: ns_def)
  define h1 where "h1 = put_next h ?e ?f"
  define h2 where "h2 = put_prev h1 ?f ?e"
  define h3 where "h3 = put_next h2 l nd"
  define h4 where "h4 = put_prev h3 l ?p"
  define h5 where "h5 = put_prev h4 nd l"
  define h6 where "h6 = put_next h5 ?p 0"
  have g1: "nx h1 = (nx h)(?e := ?f)" "pv h1 = pv h" "valid h1 = valid h" "dt h1 = dt h" "mem_ok h1"
    using vs v(3) by (simp_all add: h1_def mem_simps)
  have g2: "nx h2 = nx h1" "pv h2 = (pv h)(?f := ?e)" "valid h2 = valid h" "dt h2 = dt h" "mem_ok h2"
    using vs g1 by (simp_all add: h2_def mem_simps)
  have g3: "nx h3 = (nx h)(?e := ?f, l := nd)" "pv h3 = (pv h)(?f := ?e)" "valid h3 = valid h" "dt h3 = dt h" "mem_ok h3"
    using vs g1(1) g2 by (simp_all add: h3_def mem_simps)
  have g4: "nx h4 = nx h3" "pv h4 = (pv h)(?f := ?e, l := ?p)" "valid h4 = valid h" "dt h4 = dt h" "mem_ok h4"
    using vs g3 by (simp_all add: h4_def mem_simps del: last.simps)
  have g5: "nx h5 = nx h3" "pv h5 = (pv h)(?f := ?e, l := ?p, nd := l)" "valid h5 = valid h" "dt h5 = dt h" "mem_ok h5"
    using vs g4 by (simp_all add: h5_def mem_simps del: last.simps)
  have g6: "nx h6 = (nx h)(?e := ?f, l := nd, ?p := 0)" "pv h6 = (pv h)(?f := ?e, l := ?p, nd := l)"
    "valid h6 = valid h" "dt h6 = dt h" "mem_ok h6"
    using vs g5 g3(1) by (simp_all add: h6_def mem_simps del: last.simps)
  have hd0: "hd (ns @ [0]) = ?f" using ne by simp
  have s1: "lastnode h l = Some ?e" "firstnode h l = Some ?f"
    using dll_last_node [OF dn] dll_first_node [OF dn] ne hd0 by simp_all
  have s2: "set_next h ?e ?f = Some h1" "set_prev h1 ?f ?e = Some h2" "set_next h2 l nd = Some h3"
    "set_prev h3 l ?p = Some h4" "set_prev h4 nd l = Some h5" "set_next h5 ?p 0 = Some h6"
    using vs g1(3) g2(3) g3(3) g4(3) g5(3)
    by (simp_all only: set_simps h1_def [symmetric] h2_def [symmetric] h3_def [symmetric]
        h4_def [symmetric] h5_def [symmetric] h6_def [symmetric])
  have s3: "firstnode h1 l = Some ?f" "lastnode h1 l = Some ?e"
    using vs(4) g1 w(1,4) nl ne hd0 by (simp_all add: get_simps)
  have s4: "get_prev h3 nd = Some ?p"
    using vs(3) g3 pnd by (cases "xs = []") (simp_all add: get_simps del: last.simps)
  have s5: "lastnode h5 l = Some ?p" using vs(4) g5 nl by (simp add: get_simps del: last.simps)
  have run: "rolllist h l nd = Some h6"
    unfolding rolllist_def by (simp only: s1 s2 s3 s4 s5 bind.bind_lunit)
  have di: "distinct (nd # ys)" "l \<notin> set (nd # ys)" "set xs \<inter> set (nd # ys) = {}" "l \<notin> set xs" "distinct xs"
    using v(1) by (auto simp: ns_def)
  have Lp: "map (pv h) ys = butlast (nd # ys)"
  proof -
    have "map (pv h) (ys @ [l]) = nd # ys" using sp(6) by simp
    then have "butlast (map (pv h) (ys @ [l])) = butlast (nd # ys)" by (rule arg_cong)
    then show ?thesis by (simp only: map_append list.map butlast_snoc)
  qed
  have Ln: "map (nx h) (nd # ys) = ys @ [0]" using sq by (cases ys) simp_all
  have "map (nx h6) (l # nd # ys @ xs) = (nd # ys @ xs) @ [0] \<and>
     map (pv h6) ((nd # ys @ xs) @ [l]) = l # nd # ys @ xs"
  proof (cases xs)
    case Nil
    then have x: "?f = nd" "?p = ?e" "ns = nd # ys" using pnd(2) by (simp_all add: ns_def)
    have "map (nx h6) (nd # ys) = map ((nx h)(last (nd # ys) := 0)) (nd # ys)"
      using di(2) unfolding g6 x(2) x(3) by (intro map_cong refl) (auto simp del: last.simps)
    also have "\<dots> = ys @ [0]" unfolding map_upd_last [OF di(1) list.distinct(2)] Ln by simp
    finally have A: "map (nx h6) (nd # ys) = ys @ [0]" .
    have B: "nx h6 l = nd" using nl unfolding g6 x(2) by simp
    have "map (pv h6) ys = map (pv h) ys"
      using di unfolding g6 x by (intro map_upd3_other) auto
    then have C: "map (pv h6) ys = butlast (nd # ys)" unfolding Lp .
    have D: "pv h6 nd = l" "pv h6 l = last (nd # ys)" using nl unfolding g6 x by (simp_all del: last.simps)
    show ?thesis unfolding Nil append_Nil2
    proof
      show "map (nx h6) (l # nd # ys) = (nd # ys) @ [0]" unfolding list.map(2) [of _ l] B A by simp
      show "map (pv h6) ((nd # ys) @ [l]) = l # nd # ys"
        using C D by (simp del: last.simps butlast.simps)
    qed
  next
    case (Cons f fs)
    have x: "?f = f" "?p = last xs" "?e = last (nd # ys)" using Cons e by (simp_all add: ns_def)
    have pe: "last xs \<notin> set (nd # ys)" "f \<notin> set (nd # ys)" "last (nd # ys) \<notin> set xs" "f \<notin> set fs" "l \<notin> set fs" "nd \<notin> set fs"
      "last xs \<noteq> l" "f \<noteq> nd" "f \<noteq> l"
      using di Cons last_in_set [of xs] last_in_header [of nd ys] by (auto simp del: last_in_header)
    have "map (nx h6) (nd # ys) = map ((nx h)(last (nd # ys) := f)) (nd # ys)"
      using di(2) pe(1) unfolding g6 x by (intro map_cong refl) (auto simp del: last.simps)
    also have "\<dots> = ys @ [f]" unfolding map_upd_last [OF di(1) list.distinct(2)] Ln by simp
    finally have A: "map (nx h6) (nd # ys) = ys @ [f]" .
    have "map (nx h) ns = tl (ns @ [0])" by (rule w(2))
    then have Lx: "map (nx h) xs = fs @ [nd]" using Cons Ln by (simp add: ns_def)
    have "map (nx h6) xs = map ((nx h)(last xs := 0)) xs"
      using di(4) pe(3) unfolding g6 x by (intro map_cong refl) (auto simp del: last.simps)
    also have "\<dots> = butlast (map (nx h) xs) @ [0]" by (rule map_upd_last [OF di(5)]) (simp add: Cons)
    also have "\<dots> = fs @ [0]" unfolding Lx by simp
    finally have A2: "map (nx h6) xs = fs @ [0]" .
    have B: "nx h6 l = nd" using pe(7) unfolding g6 x by simp
    have "map (pv h6) ys = map (pv h) ys"
      using di pe(2) unfolding g6 x by (intro map_upd3_other) auto
    then have C: "map (pv h6) ys = butlast (nd # ys)" unfolding Lp .
    have "map (pv h) xs = butlast (l # xs)" using sp(4) .
    then have "map (pv h) fs = butlast xs" using Cons by simp
    moreover have "map (pv h6) fs = map (pv h) fs"
      using pe unfolding g6 x by (intro map_upd3_other) auto
    ultimately have C2: "map (pv h6) fs = butlast xs" by simp
    have D: "pv h6 nd = l" "pv h6 l = last xs" "pv h6 f = last (nd # ys)"
      using nl pe unfolding g6 x by (simp_all del: last.simps)
    show ?thesis
    proof
      have "map (nx h6) (l # nd # ys @ xs) = nx h6 l # map (nx h6) (nd # ys) @ map (nx h6) xs" by simp
      then show "map (nx h6) (l # nd # ys @ xs) = (nd # ys @ xs) @ [0]" unfolding A A2 B using Cons by simp
      have "map (pv h6) ((nd # ys @ xs) @ [l]) =
          pv h6 nd # map (pv h6) ys @ pv h6 f # map (pv h6) fs @ [pv h6 l]" by (simp add: Cons)
      also have "\<dots> = l # (butlast (nd # ys) @ [last (nd # ys)]) @ butlast xs @ [last xs]"
        unfolding C C2 D by simp
      also have "\<dots> = l # nd # ys @ xs" using Cons by (simp del: last.simps butlast.simps)
      finally show "map (pv h6) ((nd # ys @ xs) @ [l]) = l # nd # ys @ xs" .
    qed
  qed
  moreover have "distinct (l # nd # ys @ xs)" "set (l # nd # ys @ xs) \<subseteq> valid h6"
    using v(1,2) g6(3) by (auto simp: ns_def)
  ultimately have "dll h6 l (nd # ys @ xs)" using g6(5) unfolding dll_def by blast
  moreover have "frame_off (set (l # xs @ nd # ys)) h h6"
    unfolding frame_off_def g6(3,4)
  proof (intro ballI conjI refl)
    fix a assume a: "a \<in> valid h - set (l # xs @ nd # ys)"
    then have "a \<notin> set (l # ns)" by (simp add: ns_def)
    then have "a \<noteq> ?f" "a \<noteq> ?e" "a \<noteq> l" "a \<noteq> nd" "a \<noteq> ?p" using mem by auto
    then show "nx h6 a = nx h a" "pv h6 a = pv h a" unfolding g6 by (simp_all del: last.simps)
  qed simp
  ultimately show ?thesis using run g6(3,4) by blast
qed

section \<open>New lists\<close>

lemma init_header_dll:
  assumes "l \<in> valid h" "mem_ok h"
  shows "\<exists>h'. init_header h l = Some h' \<and> dll h' l [] \<and> valid h' = valid h \<and> full h' = full h \<and>
     frame_off {l} h h'"
proof -
  let ?h' = "put_dat (put_prev (put_next h l 0) l l) l None"
  have "init_header h l = Some ?h'" using assms by (simp add: init_header_def mem_simps)
  moreover have "dll ?h' l []" using assms by (simp add: dll_def mem_simps)
  moreover have "frame_off {l} h ?h'" using assms by (simp add: frame_off_def mem_simps)
  ultimately show ?thesis using assms by (auto simp: mem_simps)
qed

lemma halloc_frame: "halloc n h = (l, h') \<Longrightarrow> mem_ok h \<Longrightarrow> frame_off {} h h'"
  by (auto simp: frame_off_def halloc_simps)

lemma newlinklist_spec:
  assumes "mem_ok h"
  shows "\<exists>l h'. newlinklist h = Some (l, h') \<and> l \<notin> valid h \<and> dll h' l [] \<and>
     valid h' = insert l (valid h) \<and> frame_off {} h h'"
proof -
  obtain l h1 where al: "halloc 1 h = (l, h1)" by fastforce
  note a = halloc_simps [OF al assms]
  have "l \<in> valid h1" using a(2) by simp
  with a(3) obtain h' where h': "init_header h1 l = Some h'" "dll h' l []" "valid h' = valid h1"
    "frame_off {l} h1 h'" using init_header_dll by blast
  have "newlinklist h = Some (l, h')" using al [unfolded One_nat_def] h'(1) by (simp add: newlinklist_def)
  moreover have "frame_off {} h h'"
    unfolding frame_off_def
  proof (intro ballI)
    fix b assume "b \<in> valid h - {}"
    then have b: "b \<in> valid h" "b \<in> valid h1 - {l}" using a(2,4) by auto
    show "b \<in> valid h' \<and> nx h' b = nx h b \<and> pv h' b = pv h b \<and> dt h' b = dt h b"
      using h'(4) b(2) a(6) [OF b(1)] unfolding frame_off_def by metis
  qed
  ultimately show ?thesis using a(2,4) h'(2,3) by auto
qed

lemma sized_loop_spec:
  "{node..<node + k} \<subseteq> valid h \<Longrightarrow> mem_ok h \<Longrightarrow>
   \<exists>h'. sized_loop k h node = Some (node + k, h') \<and> valid h' = valid h \<and> mem_ok h' \<and> dt h' = dt h \<and>
     nx h' = (\<lambda>a. if node \<le> a \<and> a < node + k then a + 1 else nx h a) \<and>
     pv h' = (\<lambda>a. if node \<le> a \<and> a < node + k then a - 1 else pv h a)"
proof (induction k arbitrary: h node)
  case 0
  then show ?case by auto
next
  case (Suc k)
  let ?h = "put_next (put_prev h node (node - 1)) node (node + 1)"
  have v: "node \<in> valid h" using Suc.prems(1) by auto
  have g: "nx ?h = (nx h)(node := node + 1)" "pv ?h = (pv h)(node := node - 1)" "valid ?h = valid h"
    "mem_ok ?h" "dt ?h = dt h" using v Suc.prems(2) by (simp_all add: mem_simps)
  have "{node + 1..<node + 1 + k} \<subseteq> valid ?h" unfolding g(3) using Suc.prems(1) by auto
  from Suc.IH [OF this g(4)] obtain h' where h': "sized_loop k ?h (node + 1) = Some (node + 1 + k, h')"
    "valid h' = valid h" "mem_ok h'" "dt h' = dt h"
    "nx h' = (\<lambda>a. if node + 1 \<le> a \<and> a < node + 1 + k then a + 1 else nx ?h a)"
    "pv h' = (\<lambda>a. if node + 1 \<le> a \<and> a < node + 1 + k then a - 1 else pv ?h a)"
    unfolding g(3,5) by blast
  have "sized_loop (Suc k) h node = Some (node + Suc k, h')"
    using v h'(1) by (simp add: mem_simps)
  moreover have "nx h' = (\<lambda>a. if node \<le> a \<and> a < node + Suc k then a + 1 else nx h a)"
    "pv h' = (\<lambda>a. if node \<le> a \<and> a < node + Suc k then a - 1 else pv h a)"
    unfolding h'(5,6) g(1,2) by (auto simp: fun_eq_iff)
  ultimately show ?case using h'(2-4) by blast
qed

lemma newsizedlist_spec:
  assumes ok: "mem_ok h" and sz: "0 < sz"
  shows "\<exists>l h'. newsizedlist sz h = Some (l, h') \<and> l \<notin> valid h \<and> dll h' l [l + 1..<l + 1 + sz] \<and>
     valid h' = valid h \<union> {l..<l + 1 + sz} \<and> frame_off {} h h'"
proof -
  obtain l h1 where al: "halloc (1 + sz) h = (l, h1)" by fastforce
  note a = halloc_simps [OF al ok]
  have v1: "l \<in> valid h1" "{l + 1..<l + 1 + sz} \<subseteq> valid h1" "l + sz \<in> valid h1" "l + 1 \<in> valid h1"
    unfolding a(2) using sz by auto
  let ?h2 = "put_next h1 l (l + 1)"
  have g2: "nx ?h2 = (nx h1)(l := l + 1)" "pv ?h2 = pv h1" "valid ?h2 = valid h1" "mem_ok ?h2" "dt ?h2 = dt h1"
    using v1 a(3) by (simp_all add: mem_simps)
  from sized_loop_spec [of "l + 1" sz ?h2] v1(2) g2(3,4) obtain h3 where
    h3: "sized_loop sz ?h2 (l + 1) = Some (l + 1 + sz, h3)" "valid h3 = valid h1" "mem_ok h3" "dt h3 = dt h1"
    "nx h3 = (\<lambda>a. if l + 1 \<le> a \<and> a < l + 1 + sz then a + 1 else nx ?h2 a)"
    "pv h3 = (\<lambda>a. if l + 1 \<le> a \<and> a < l + 1 + sz then a - 1 else pv ?h2 a)"
    unfolding g2(3,5) by blast
  let ?h4 = "put_prev h3 l (l + sz)"
  have g4: "nx ?h4 = nx h3" "pv ?h4 = (pv h3)(l := l + sz)" "valid ?h4 = valid h1" "mem_ok ?h4" "dt ?h4 = dt h1"
    using v1 h3 by (simp_all add: mem_simps)
  let ?h5 = "put_prev ?h4 (l + 1) l"
  have g5: "nx ?h5 = nx h3" "pv ?h5 = (pv h3)(l := l + sz, l + 1 := l)" "valid ?h5 = valid h1" "mem_ok ?h5" "dt ?h5 = dt h1"
    using v1 g4 by (simp_all add: mem_simps)
  define h6 where "h6 = put_next ?h5 (l + sz) 0"
  have g6: "nx h6 = (nx h3)(l + sz := 0)" "pv h6 = (pv h3)(l := l + sz, l + 1 := l)" "valid h6 = valid h1"
    "mem_ok h6" "dt h6 = dt h1"
    using v1 g5 by (simp_all add: h6_def mem_simps)
  have f: "firstnode ?h2 l = Some (l + 1)" "firstnode ?h4 l = Some (l + 1)"
    using v1 g2 g4 h3 by (simp_all add: get_simps)
  have s: "set_next h1 l (l + 1) = Some ?h2" "set_prev h3 l (l + sz) = Some ?h4"
    "set_prev ?h4 (l + 1) l = Some ?h5" "set_next ?h5 (l + sz) 0 = Some h6"
    using v1 h3(2) g4(3) g5(3) by (simp_all only: set_simps h6_def)
  have n: "l + 1 + sz - 1 = l + sz" by simp
  have run: "newsizedlist sz h = Some (l, h6)"
    unfolding newsizedlist_def al prod.case by (simp only: s f h3(1) n bind.bind_lunit prod.case)
  have u: "l # [l + 1..<l + 1 + sz] = [l..<l + sz] @ [l + sz]" by (simp add: upt_conv_Cons)
  have N: "nx h6 a = a + 1" if "l \<le> a" "a < l + sz" for a
    using that unfolding g6(1) h3(5) g2(1) by auto
  have P: "pv h6 a = a - 1" if "l + 1 \<le> a" "a < l + 1 + sz" for a
    using that sz unfolding g6(2) h3(6) by auto
  have "map (nx h6) [l..<l + sz] = map Suc [l..<l + sz]" using N by (intro map_cong refl) simp
  then have A: "map (nx h6) (l # [l + 1..<l + 1 + sz]) = [l + 1..<l + 1 + sz] @ [0]"
    unfolding u map_append map_Suc_upt g6(1) by simp
  have "map (pv h6) [l + 1..<l + 1 + sz] = map (\<lambda>a. a - 1) [l + 1..<l + 1 + sz]"
    using P by (intro map_cong refl) auto
  also have "\<dots> = map (\<lambda>a. a - 1) (map Suc [l..<l + sz])" by (simp add: map_Suc_upt)
  finally have "map (pv h6) [l + 1..<l + 1 + sz] = [l..<l + sz]" by (simp add: comp_def)
  then have B: "map (pv h6) ([l + 1..<l + 1 + sz] @ [l]) = l # [l + 1..<l + 1 + sz]"
    unfolding u map_append g6(2) by simp
  have "dll h6 l [l + 1..<l + 1 + sz]"
    using A B g6(3,4) v1 unfolding dll_def by auto
  moreover have "frame_off {} h h6"
    unfolding frame_off_def
  proof (intro ballI)
    fix b assume "b \<in> valid h - {}"
    then have b: "b \<in> valid h" "b < l" using a(1) ok by (auto simp: mem_ok_def)
    show "b \<in> valid h6 \<and> nx h6 b = nx h b \<and> pv h6 b = pv h b \<and> dt h6 b = dt h b"
      using a(6) [OF b(1)] b a(2) unfolding g6 h3(5,6) g2 by simp
  qed
  moreover have "valid h6 = valid h \<union> {l..<l + 1 + sz}" unfolding g6(3) a(2) by simp
  ultimately show ?thesis using run a(4) by blast
qed

lemma newsizedlist_0: "mem_ok h \<Longrightarrow> newsizedlist 0 h = None"
proof -
  assume ok: "mem_ok h"
  obtain l h1 where al: "halloc 1 h = (l, h1)" by fastforce
  note a = halloc_simps [OF al ok]
  have v1: "l \<in> valid h1" using a(2) by simp
  have nv: "l + 1 \<notin> valid h1" using a(2) a(9) [of 1] by simp
  have none: "b \<notin> valid g \<Longrightarrow> set_prev g b c = None" for g :: "'a mem" and b c
    by (auto simp: set_prev_def upd_cell_def valid_def split: option.splits)
  show ?thesis
    using al [unfolded One_nat_def] v1 nv by (simp add: newsizedlist_def mem_simps none)
qed

end
