(* ===== verification/LinkList_Props.thy ===== *)
theory LinkList_Props
  imports LinkList_Join
begin

text \<open>
  The contract the shell relies on when it uses a list of \<open>Src/linklist.c\<close> as a queue or
  a stack, as a locale interpreted on the memory model, and the properties of the list
  operations.
\<close>

section \<open>Double-ended queues\<close>

fun feed :: "('d \<Rightarrow> 's \<Rightarrow> 's option) \<Rightarrow> 'd list \<Rightarrow> 's \<Rightarrow> 's option" where
  "feed f [] s = Some s"
| "feed f (d # ds) s = do { t \<leftarrow> f d s; feed f ds t }"

fun drain :: "('s \<Rightarrow> ('d \<times> 's) option) \<Rightarrow> nat \<Rightarrow> 's \<Rightarrow> ('d list \<times> 's) option" where
  "drain f 0 s = Some ([], s)"
| "drain f (Suc n) s = do { (d, t) \<leftarrow> f s; (ds, u) \<leftarrow> drain f n t; Some (d # ds, u) }"

locale deque =
  fixes rep :: "'s \<Rightarrow> 'd list \<Rightarrow> bool"
    and add :: "'d \<Rightarrow> 's \<Rightarrow> 's option"
    and push :: "'d \<Rightarrow> 's \<Rightarrow> 's option"
    and pop :: "'s \<Rightarrow> ('d \<times> 's) option"
  assumes add_law: "rep s xs \<Longrightarrow> \<exists>t. add d s = Some t \<and> rep t (xs @ [d])"
    and push_law: "rep s xs \<Longrightarrow> \<exists>t. push d s = Some t \<and> rep t (d # xs)"
    and pop_law: "rep s (x # xs) \<Longrightarrow> \<exists>t. pop s = Some (x, t) \<and> rep t xs"
begin

lemma feed_add: "rep s xs \<Longrightarrow> \<exists>t. feed add ds s = Some t \<and> rep t (xs @ ds)"
proof (induction ds arbitrary: s xs)
  case (Cons d ds)
  from add_law [OF Cons.prems] obtain t where t: "add d s = Some t" "rep t (xs @ [d])" by blast
  from Cons.IH [OF t(2)] t(1) show ?case by auto
qed auto

lemma feed_push: "rep s xs \<Longrightarrow> \<exists>t. feed push ds s = Some t \<and> rep t (rev ds @ xs)"
proof (induction ds arbitrary: s xs)
  case (Cons d ds)
  from push_law [OF Cons.prems] obtain t where t: "push d s = Some t" "rep t (d # xs)" by blast
  from Cons.IH [OF t(2)] t(1) show ?case by auto
qed auto

lemma drain_all: "rep s xs \<Longrightarrow> \<exists>t. drain pop (length xs) s = Some (xs, t) \<and> rep t []"
proof (induction xs arbitrary: s)
  case (Cons x xs)
  from pop_law [OF Cons.prems] obtain t where t: "pop s = Some (x, t)" "rep t xs" by blast
  from Cons.IH [OF t(2)] t(1) show ?case by auto
qed auto

lemma fifo: "rep s [] \<Longrightarrow>
  \<exists>t u. feed add ds s = Some t \<and> drain pop (length ds) t = Some (ds, u) \<and> rep u []"
  using feed_add [of s "[]" ds] drain_all [of _ ds] by fastforce

lemma lifo: "rep s [] \<Longrightarrow>
  \<exists>t u. feed push ds s = Some t \<and> drain pop (length ds) t = Some (rev ds, u) \<and> rep u []"
  using feed_push [of s "[]" ds] drain_all [of _ "rev ds"] by fastforce

end

text \<open>The operations on the list with header \<open>l\<close>, and the data it holds.\<close>

definition holds :: "addr \<Rightarrow> 'd mem \<Rightarrow> 'd option list \<Rightarrow> bool" where
  "holds l h ds \<longleftrightarrow> (\<exists>ns. dll h l ns \<and> items h ns = ds)"

definition add_op :: "addr \<Rightarrow> 'd option \<Rightarrow> 'd mem \<Rightarrow> 'd mem option" where
  "add_op l d h = map_option snd (addlinknode h l d)"

definition push_op :: "addr \<Rightarrow> 'd option \<Rightarrow> 'd mem \<Rightarrow> 'd mem option" where
  "push_op l d h = map_option snd (pushnode h l d)"

interpretation ll: deque "holds l" "add_op l" "push_op l" "\<lambda>h. getlinknode h l" for l
proof (unfold_locales, goal_cases)
  case (1 s xs d)
  then obtain ns where ns: "dll s l ns" "items s ns = xs" by (auto simp: holds_def)
  from add_at_end [OF ns(1), of d] ns(2) show ?case unfolding holds_def add_op_def by fastforce
next
  case (2 s xs d)
  then obtain ns where ns: "dll s l ns" "items s ns = xs" by (auto simp: holds_def)
  from push_at_front [OF ns(1), of d] ns(2) show ?case unfolding holds_def push_op_def by fastforce
next
  case (3 s x xs)
  then obtain n ns where ns: "dll s l (n # ns)" "dt s n = x" "items s ns = xs"
    by (auto simp: holds_def items_def map_eq_Cons_conv)
  from getlinknode_spec(2) [OF ns(1) refl] ns(2,3) show ?case unfolding holds_def by fastforce
qed

section \<open>The remaining insertions\<close>

lemma zinsertlinknode_at:
  assumes d: "dll h l (xs @ ys)" and f: "\<not> full h"
  shows "\<exists>new h'. zinsertlinknode h l (last (l # xs)) e = Some (new, h') \<and>
     new \<notin> valid h \<and> dll h' l (xs @ new # ys) \<and> valid h' = insert new (valid h) \<and>
     items h' (xs @ new # ys) = items h xs @ e # items h ys \<and> frame_off (set (l # xs @ ys)) h h'"
proof -
  from insert_at [OF d, of e] obtain new h' where
    i: "insertlinknode h l (last (l # xs)) e = Some (new, h')"
    and r: "new \<notin> valid h" "dll h' l (xs @ new # ys)" "valid h' = insert new (valid h)"
     "items h' (xs @ new # ys) = items h xs @ e # items h ys" "frame_off (set (l # xs @ ys)) h h'" by blast
  obtain b h1 where al: "halloc 1 h = (b, h1)" by fastforce
  have ok: "mem_ok h" using d by (simp add: dll_def)
  have b0: "b \<noteq> 0" using halloc_simps(5) [OF al ok] by simp
  have "zinsertlinknode h l (last (l # xs)) e = insertlinknode h l (last (l # xs)) e"
    using f al b0 unfolding zinsertlinknode_def insertlinknode_def zalloc_def by (simp del: last.simps)
  with i r show ?thesis by auto
qed

lemma uinsertlinknode_at:
  assumes d: "dll h l (xs @ ys)" and new: "new \<notin> set (l # xs @ ys)" "new \<in> valid h"
  shows "\<exists>h'. uinsertlinknode h l (last (l # xs)) new = Some (new, h') \<and> dll h' l (xs @ new # ys) \<and>
     valid h' = valid h \<and> dt h' = dt h \<and> frame_off (set (new # l # xs @ ys)) h h'"
proof -
  let ?n = "last (l # xs)" and ?h1 = "put_next h (last (l # xs)) new"
  have ok: "mem_ok h" "set (l # xs @ ys) \<subseteq> valid h" using d by (auto simp: dll_def)
  have nn: "?n \<in> set (l # xs @ ys)" using last_in_header [of l xs] by (auto simp del: last_in_header)
  have n: "?n \<in> valid h" by (rule subsetD [OF ok(2) nn])
  have g: "nx ?h1 = (nx h)(?n := new)" "pv ?h1 = pv h" "valid ?h1 = valid h" "mem_ok ?h1" "dt ?h1 = dt h"
    using n ok by (simp_all add: mem_simps del: last.simps)
  from link_after_dll [OF d new g(1-4)] obtain h2 where
    h2: "link_after ?h1 l ?n new (hd (ys @ [0])) = Some h2" "dll h2 l (xs @ new # ys)"
    "only_links (set (new # l # xs @ ys)) ?h1 h2" by blast
  have "get_next h ?n = Some (hd (ys @ [0]))" using n dll_split(2) [OF d] by (simp only: get_simps)
  then have "uinsertlinknode h l ?n new = Some (new, h2)"
    unfolding uinsertlinknode_def using set_simps(1) [OF n] h2(1) by (simp only: bind.bind_lunit)
  moreover have "frame_off (set (new # l # xs @ ys)) h h2"
    unfolding frame_off_def
  proof (intro ballI)
    fix a assume a: "a \<in> valid h - set (new # l # xs @ ys)"
    then have "a \<noteq> ?n" using nn by auto
    with a h2(3) g show "a \<in> valid h2 \<and> nx h2 a = nx h a \<and> pv h2 a = pv h a \<and> dt h2 a = dt h a"
      unfolding only_links_def by (simp del: last.simps)
  qed
  moreover have "valid h2 = valid h" "dt h2 = dt h" using h2(3) g unfolding only_links_def by simp_all
  ultimately show ?thesis using h2(2) by blast
qed

section \<open>Properties\<close>

text \<open>Two lists in one memory: header 1 with nodes 2, 3, 4 and header 5 with nodes 6, 7.\<close>

definition demo_mem :: "nat mem" where
  "demo_mem = \<lparr>cells =
     [1 \<mapsto> \<lparr>nxt = 2, prv = 4, dat = None\<rparr>, 2 \<mapsto> \<lparr>nxt = 3, prv = 1, dat = Some 10\<rparr>,
      3 \<mapsto> \<lparr>nxt = 4, prv = 2, dat = Some 20\<rparr>, 4 \<mapsto> \<lparr>nxt = 0, prv = 3, dat = Some 30\<rparr>,
      5 \<mapsto> \<lparr>nxt = 6, prv = 7, dat = None\<rparr>, 6 \<mapsto> \<lparr>nxt = 7, prv = 5, dat = Some 40\<rparr>,
      7 \<mapsto> \<lparr>nxt = 0, prv = 6, dat = Some 50\<rparr>], brk = 8, full = False\<rparr>"

lemma demo_lists:
  "dll demo_mem 1 [2, 3, 4]" "dll demo_mem 5 [6, 7]"
  "items demo_mem [2, 3, 4] = [Some 10, Some 20, Some 30]" "items demo_mem [6, 7] = [Some 40, Some 50]"
  by (simp_all add: dll_def mem_ok_def valid_def items_def nx_def pv_def dt_def demo_mem_def)

text \<open>C7: A datum can be inserted after any node of a list, or after its header.  The new node
  is a cell that was not in use, it stands where it was put, the data of the list are the
  old ones with the new one in place, and every other list of the memory, nodes and data,
  is untouched.  Removing the node gives the datum back and leaves the list and the set of
  allocated cells as they were before.\<close>

theorem insert_then_remove:
  assumes "dll h l (xs @ ys)" "dll h m ms" "set (m # ms) \<inter> set (l # xs @ ys) = {}"
  shows "\<exists>new h' h''. insertlinknode h l (last (l # xs)) e = Some (new, h') \<and> new \<notin> valid h \<and>
     dll h' l (xs @ new # ys) \<and> items h' (xs @ new # ys) = items h xs @ e # items h ys \<and>
     dll h' m ms \<and> items h' ms = items h ms \<and>
     remnode h' l new = Some (e, h'') \<and> dll h'' l (xs @ ys) \<and>
     items h'' (xs @ ys) = items h (xs @ ys) \<and> valid h'' = valid h"
proof -
  from insert_at [OF assms(1), of e] obtain new h' where
    i: "insertlinknode h l (last (l # xs)) e = Some (new, h')" "new \<notin> valid h" "dll h' l (xs @ new # ys)"
     "valid h' = insert new (valid h)" "items h' (xs @ new # ys) = items h xs @ e # items h ys"
     "frame_off (set (l # xs @ ys)) h h'" by blast
  have o: "dll h' m ms \<and> items h' ms = items h ms"
    using frame_off_dll [OF i(6) _ assms(2,3)] i(3) by (simp add: dll_def)
  have e: "items h' xs = items h xs" "dt h' new = e" "items h' ys = items h ys"
    using i(5) by (simp_all add: items_def)
  from remnode_at [OF i(3)] obtain h'' where "remnode h' l new = Some (dt h' new, h'')" "dll h'' l (xs @ ys)"
     "valid h'' = valid h' - {new}" "items h'' (xs @ ys) = items h' xs @ items h' ys" by blast
  with i o e show ?thesis by (auto simp: items_def)
qed

theorem insert_then_remove_witness:
  "\<exists>new h' h''. insertlinknode demo_mem 1 2 (Some 99) = Some (new, h') \<and> new \<notin> valid demo_mem \<and>
     dll h' 1 [2, new, 3, 4] \<and> items h' [2, new, 3, 4] = [Some 10, Some 99, Some 20, Some 30] \<and>
     dll h' 5 [6, 7] \<and> items h' [6, 7] = [Some 40, Some 50] \<and>
     remnode h' 1 new = Some (Some 99, h'') \<and> dll h'' 1 [2, 3, 4] \<and>
     items h'' [2, 3, 4] = [Some 10, Some 20, Some 30] \<and> valid h'' = valid demo_mem"
  using insert_then_remove [of demo_mem 1 "[2]" "[3, 4]" 5 "[6, 7]" "Some 99"] demo_lists
  by (simp add: items_def)

text \<open>A list is a queue and a stack.  From an empty list, the data added with addlinknode come
  out of getlinknode in the order they were added, those added with pushnode in the reverse
  order; either way the list is empty again afterwards and one more getlinknode gives NULL
  without touching the memory.\<close>

theorem queue_and_stack:
  assumes "holds l h []"
  shows "(\<exists>t u. feed (add_op l) ds h = Some t \<and> drain (\<lambda>h. getlinknode h l) (length ds) t = Some (ds, u) \<and>
            holds l u [] \<and> getlinknode u l = Some (None, u)) \<and>
         (\<exists>t u. feed (push_op l) ds h = Some t \<and>
            drain (\<lambda>h. getlinknode h l) (length ds) t = Some (rev ds, u) \<and>
            holds l u [] \<and> getlinknode u l = Some (None, u))"
proof -
  have e: "getlinknode u l = Some (None, u)" if "holds l u []" for u :: "'a mem"
    using that getlinknode_spec(1) by (auto simp: holds_def items_def)
  show ?thesis using ll.fifo [OF assms, of ds] ll.lifo [OF assms, of ds] e by blast
qed

theorem queue_and_stack_witness:
  "(\<exists>l h t u. newlinklist demo_mem = Some (l, h) \<and> feed (add_op l) [Some 1, None, Some 3] h = Some t \<and>
     drain (\<lambda>h. getlinknode h l) 3 t = Some ([Some 1, None, Some 3], u) \<and> holds l u [] \<and>
     getlinknode u l = Some (None, u))"
proof -
  have "mem_ok demo_mem" using demo_lists by (simp add: dll_def)
  from newlinklist_spec [OF this] obtain l h where n: "newlinklist demo_mem = Some (l, h)" "dll h l []" by blast
  then have "holds l h []" by (auto simp: holds_def items_def)
  from queue_and_stack [OF this, of "[Some 1, None, Some 3]"] obtain t u where
    "feed (add_op l) [Some 1, None, Some 3] h = Some t" "holds l u []" "getlinknode u l = Some (None, u)"
    "drain (\<lambda>h. getlinknode h l) (length [Some 1, None, Some (3 :: nat)]) t = Some ([Some 1, None, Some 3], u)"
    by blast
  moreover have "length [Some 1, None, Some (3 :: nat)] = 3" by simp
  ultimately show ?thesis using n(1) by metis
qed

text \<open>C27: Joining moves every node of the second list, in order, behind those of the first and
  leaves the second header, if it had nodes, with NULL pointers; splicing puts the nodes of one list, in
  order, behind any node (or the header) of another.  Nothing is allocated or freed, no
  datum changes, and cells of other lists are untouched.\<close>

theorem join_and_splice:
  assumes "dll h x (xs @ ys)" "dll h l ns" "set (x # xs @ ys) \<inter> set (l # ns) = {}"
  shows "(\<exists>h'. joinlists h x l = Some (x, h') \<and> dll h' x ((xs @ ys) @ ns) \<and>
       items h' ((xs @ ys) @ ns) = items h (xs @ ys) @ items h ns \<and> valid h' = valid h \<and>
       frame_off (set (x # xs @ ys) \<union> set (l # ns)) h h' \<and>
       (ns \<noteq> [] \<longrightarrow> firstnode h' l = Some 0 \<and> lastnode h' l = Some 0)) \<and>
     (\<exists>h'. insertlinklist h l (last (x # xs)) x = Some h' \<and> dll h' x (xs @ ns @ ys) \<and>
       items h' (xs @ ns @ ys) = items h xs @ items h ns @ items h ys \<and> valid h' = valid h \<and>
       frame_off (set (x # xs @ ys) \<union> set ns) h h')"
  using joinlists_spec [OF assms] insertlinklist_spec [OF assms] by blast

theorem join_and_splice_witness:
  "(\<exists>h'. joinlists demo_mem 1 5 = Some (1, h') \<and> dll h' 1 [2, 3, 4, 6, 7] \<and>
     items h' [2, 3, 4, 6, 7] = map Some [10, 20, 30, 40, 50] \<and>
     firstnode h' 5 = Some 0 \<and> lastnode h' 5 = Some 0) \<and>
   (\<exists>h'. insertlinklist demo_mem 5 2 1 = Some h' \<and> dll h' 1 [2, 6, 7, 3, 4] \<and>
     items h' [2, 6, 7, 3, 4] = map Some [10, 40, 50, 20, 30])"
  using join_and_splice [of demo_mem 1 "[2]" "[3, 4]" 5 "[6, 7]"] demo_lists by (simp add: items_def) blast

text \<open>Rotating makes the given node the first of the list: the nodes before it are moved, in
  order, behind the last one, and the data move with their nodes.  The next getlinknode
  then gives the datum of that node, as cd does when it is given a directory of the stack.\<close>

theorem roll_then_get:
  assumes "dll h l (xs @ nd # ys)"
  shows "\<exists>h' h''. rolllist h l nd = Some h' \<and> dll h' l (nd # ys @ xs) \<and> valid h' = valid h \<and>
     items h' (nd # ys @ xs) = items h (nd # ys @ xs) \<and>
     getlinknode h' l = Some (dt h nd, h'') \<and> dll h'' l (ys @ xs) \<and>
     items h'' (ys @ xs) = items h (ys @ xs)"
proof -
  from rolllist_spec [OF assms] obtain h' where r: "rolllist h l nd = Some h'" "dll h' l (nd # ys @ xs)"
    "valid h' = valid h" "dt h' = dt h" by blast
  from getlinknode_spec(2) [OF r(2) refl] r show ?thesis by (auto simp: items_def)
qed

theorem roll_then_get_witness:
  "\<exists>h' h''. rolllist demo_mem 1 3 = Some h' \<and> dll h' 1 [3, 4, 2] \<and>
     getlinknode h' 1 = Some (Some 20, h'') \<and> dll h'' 1 [4, 2] \<and> items h'' [4, 2] = [Some 30, Some 10]"
proof -
  have "dt demo_mem 3 = Some 20" by (simp add: dt_def demo_mem_def)
  then show ?thesis using roll_then_get [of demo_mem 1 "[2]" 3 "[4]"] demo_lists by (auto simp: items_def)
qed

text \<open>C28: The array made of a list of fewer than INT_MAX nodes, as many as an \<open>int\<close> can count
  with one more, has exactly the data of the list,
  in order (copied when asked to), and one final NULL; no write leaves it.  Freeing the
  list calls the free function once per node, in list order, frees exactly the header and
  the nodes, and changes no other cell.\<close>

theorem array_then_free:
  assumes "dll h l ns" "int (length ns) < INT_MAX"
  shows "hlinklist2array dup h l =
      Some (map (case dup of None \<Rightarrow> id | Some f \<Rightarrow> map_option f) (items h ns) @ [None]) \<and>
     zlinklist2array dup h l = hlinklist2array dup h l \<and>
     (\<exists>h'. freelinklist ff h l = Some (if ff then items h ns else [], h') \<and>
       valid h' = valid h - set (l # ns) \<and> frame_off (set (l # ns)) h h')"
  using hlinklist2array_items [OF assms] freelinklist_spec [OF assms(1)]
  by (simp add: zlinklist2array_def hlinklist2array_def)

theorem array_then_free_witness:
  "hlinklist2array None demo_mem 1 = Some [Some 10, Some 20, Some 30, None] \<and>
   (\<exists>h'. freelinklist True demo_mem 1 = Some ([Some 10, Some 20, Some 30], h') \<and>
      valid h' = valid demo_mem - {1, 2, 3, 4})"
  using array_then_free [of demo_mem 1 "[2, 3, 4]" None True] demo_lists(1,3) by (auto simp: INT_MAX_def)

end
