(* ===== verification/HashTable.thy ===== *)
theory HashTable
  imports Prelude "HOL-Library.Monad_Syntax"
begin

text \<open>
  The generic hash tables of \<open>Src/hashtable.c\<close>: nodes chained by their \<open>next\<close> pointers
  from an array of heads, the methods kept in the table, and the status of a scan in
  progress, which additions, replacements and removals consult.  Following NULL or a cell
  that was freed is \<open>None\<close>.  Sizes and counts are natural numbers: they are bounded by the
  number of nodes that fit in memory, and the multiplications of the code by 2 and 4 stay
  below \<open>INT_MAX\<close> up to \<open>2 ^ 28\<close> buckets.
\<close>

section \<open>Data\<close>

text \<open>\<open>body\<close> is the part of a node that depends on the table (struct alias, struct reswd, ...).\<close>

record 'v hnode =
  hnext :: addr
  nam :: string
  flags :: "32 word"
  body :: 'v

text \<open>
  The status of a scan: the sorted array of nodes, or the node an unsorted scan looks at
  next.  Nested scans have a status each; \<open>scan\<close> points to the last one started.
\<close>

datatype scanstatus = Sorted "addr list" | Unsorted addr

text \<open>
  \<open>nodesid\<close> identifies the array \<open>nodes\<close> points to, so that a pointer to an array that was
  freed can be told; \<open>freed\<close> lists the nodes given to the method \<open>freenode\<close>, in order.
\<close>

record 'v htab =
  hsize :: nat
  ct :: nat
  nodes :: "addr list"
  nodesid :: nat
  hash :: "string \<Rightarrow> 32 word"
  cmpnodes :: "string \<Rightarrow> string \<Rightarrow> int"
  mem :: "addr \<rightharpoonup> 'v hnode"
  stats :: "scanstatus list"
  scan :: "nat option"
  freed :: "addr list"

definition DISABLED :: "32 word" where
  "DISABLED = 1"

section \<open>Hashing and comparing names\<close>

fun hash_loop :: "32 word \<Rightarrow> string \<Rightarrow> 32 word" where
  "hash_loop hashval [] = hashval"
| "hash_loop hashval (c # str) =
     (if c = NUL then hashval else hash_loop (hashval + (push_bit 5 hashval + of_nat (of_char c))) str)"

definition hasher :: "string \<Rightarrow> 32 word" where
  "hasher str = hash_loop 0 str"

text \<open>\<open>strcmp\<close>, as the difference of the first bytes that differ.\<close>

fun strcmp :: "string \<Rightarrow> string \<Rightarrow> int" where
  "strcmp [] [] = 0"
| "strcmp (a # s) [] = of_char a"
| "strcmp [] (b # t) = - of_char b"
| "strcmp (a # s) (b # t) =
     (if a = b then if a = NUL then 0 else strcmp s t else of_char a - of_char b)"

section \<open>Access\<close>

definition node :: "'v htab \<Rightarrow> addr \<Rightarrow> 'v hnode option" where
  "node ht a = (if a = 0 then None else mem ht a)"

definition upd_node :: "('v hnode \<Rightarrow> 'v hnode) \<Rightarrow> 'v htab \<Rightarrow> addr \<Rightarrow> 'v htab option" where
  "upd_node f ht a = (case node ht a of None \<Rightarrow> None
     | Some n \<Rightarrow> Some (ht\<lparr>mem := (mem ht)(a \<mapsto> f n)\<rparr>))"

definition set_hnext :: "'v htab \<Rightarrow> addr \<Rightarrow> addr \<Rightarrow> 'v htab option" where
  "set_hnext ht a v = upd_node (hnext_update (\<lambda>_. v)) ht a"

definition set_nam :: "'v htab \<Rightarrow> addr \<Rightarrow> string \<Rightarrow> 'v htab option" where
  "set_nam ht a nm = upd_node (nam_update (\<lambda>_. nm)) ht a"

definition get_bucket :: "'v htab \<Rightarrow> nat \<Rightarrow> addr option" where
  "get_bucket ht i = (if i < length (nodes ht) then Some (nodes ht ! i) else None)"

definition set_bucket :: "'v htab \<Rightarrow> nat \<Rightarrow> addr \<Rightarrow> 'v htab option" where
  "set_bucket ht i v =
     (if i < length (nodes ht) then Some (ht\<lparr>nodes := (nodes ht)[i := v]\<rparr>) else None)"

text \<open>The index of a name; a division by zero is \<open>None\<close>.\<close>

definition hashidx :: "'v htab \<Rightarrow> string \<Rightarrow> nat option" where
  "hashidx ht nm = (if hsize ht = 0 then None else Some (unat (hash ht nm) mod hsize ht))"

text \<open>The method \<open>freenode\<close>: every table's ends with freeing the cell.\<close>

definition freenode :: "'v htab \<Rightarrow> addr \<Rightarrow> 'v htab option" where
  "freenode ht a = (case node ht a of None \<Rightarrow> None
     | Some _ \<Rightarrow> Some (ht\<lparr>mem := (mem ht)(a := None), freed := freed ht @ [a]\<rparr>))"

section \<open>Creation\<close>

definition newhashtable :: "nat \<Rightarrow> (string \<Rightarrow> 32 word) \<Rightarrow> (string \<Rightarrow> string \<Rightarrow> int) \<Rightarrow> 'v htab" where
  "newhashtable sz h c = \<lparr>hsize = sz, ct = 0, nodes = replicate sz 0, nodesid = 0,
     hash = h, cmpnodes = c, mem = Map.empty, stats = [], scan = None, freed = []\<rparr>"

section \<open>Addition\<close>

text \<open>
  The loop that looks for a name from the second node on: the node found (or NULL) and the
  one before it.
\<close>

partial_function (option) walk :: "'v htab \<Rightarrow> string \<Rightarrow> addr \<Rightarrow> addr \<Rightarrow> (addr \<times> addr) option" where
  "walk ht nm hq hp =
     (if hp = 0 then Some (hq, 0)
      else do { n \<leftarrow> node ht hp;
                if cmpnodes ht (nam n) nm = 0 then Some (hq, hp) else walk ht nm hp (hnext n) })"

text \<open>What a replacement and a removal do to the status \<open>scan\<close> points to.\<close>

fun scan_replace :: "addr \<Rightarrow> addr \<Rightarrow> scanstatus \<Rightarrow> scanstatus" where
  "scan_replace hp hn (Sorted hashtab) = Sorted (map (\<lambda>a. if a = hp then hn else a) hashtab)"
| "scan_replace hp hn (Unsorted u) = Unsorted (if u = hp then hn else u)"

fun scan_remove :: "addr \<Rightarrow> addr \<Rightarrow> scanstatus \<Rightarrow> scanstatus" where
  "scan_remove hp hpnext (Sorted hashtab) = Sorted (map (\<lambda>a. if a = hp then 0 else a) hashtab)"
| "scan_remove hp hpnext (Unsorted u) = Unsorted (if u = hp then hpnext else u)"

definition upd_scan :: "(scanstatus \<Rightarrow> scanstatus) \<Rightarrow> 'v htab \<Rightarrow> 'v htab option" where
  "upd_scan f ht = (case scan ht of None \<Rightarrow> Some ht
     | Some d \<Rightarrow> if d < length (stats ht)
                 then Some (ht\<lparr>stats := (stats ht)[d := f (stats ht ! d)]\<rparr>) else None)"

definition replacing :: "'v htab \<Rightarrow> addr \<Rightarrow> addr \<Rightarrow> (addr \<times> 'v htab) option" where
  "replacing ht hp hn =
     do { n \<leftarrow> node ht hp; ht \<leftarrow> set_hnext ht hn (hnext n);
          ht \<leftarrow> upd_scan (scan_replace hp hn) ht; Some (hp, ht) }"

text \<open>Rehashing; \<open>add\<close> is the method \<open>addnode\<close> of the table.\<close>

partial_function (option) rehash_chain ::
    "('v htab \<Rightarrow> string \<Rightarrow> addr \<Rightarrow> 'v htab option) \<Rightarrow> 'v htab \<Rightarrow> addr \<Rightarrow> 'v htab option" where
  "rehash_chain add ht hn =
     (if hn = 0 then Some ht
      else do { n \<leftarrow> node ht hn; ht' \<leftarrow> add ht (nam n) hn; rehash_chain add ht' (hnext n) })"

fun rehash_all ::
    "('v htab \<Rightarrow> string \<Rightarrow> addr \<Rightarrow> 'v htab option) \<Rightarrow> 'v htab \<Rightarrow> addr list \<Rightarrow> 'v htab option" where
  "rehash_all add ht [] = Some ht"
| "rehash_all add ht (ha # onodes) = do { ht \<leftarrow> rehash_chain add ht ha; rehash_all add ht onodes }"

definition expandhashtable ::
    "('v htab \<Rightarrow> string \<Rightarrow> addr \<Rightarrow> 'v htab option) \<Rightarrow> 'v htab \<Rightarrow> 'v htab option" where
  "expandhashtable add ht =
     (let osize = hsize ht; onodes = nodes ht;
          ht = ht\<lparr>hsize := osize * 4, nodes := replicate (osize * 4) 0,
                  nodesid := nodesid ht + 1, ct := 0\<rparr>
      in rehash_all add ht onodes)"

text \<open>\<open>++ht->ct\<close>, and the expansion it may bring.\<close>

definition count_up ::
    "('v htab \<Rightarrow> string \<Rightarrow> addr \<Rightarrow> 'v htab option) \<Rightarrow> 'v htab \<Rightarrow> 'v htab option" where
  "count_up add ht =
     (let ht = ht\<lparr>ct := ct ht + 1\<rparr>
      in if hsize ht * 2 \<le> ct ht \<and> scan ht = None then expandhashtable add ht else Some ht)"

definition addhashnode2 ::
    "('v htab \<Rightarrow> string \<Rightarrow> addr \<Rightarrow> 'v htab option) \<Rightarrow> 'v htab \<Rightarrow> string \<Rightarrow> addr \<Rightarrow>
     (addr \<times> 'v htab) option" where
  "addhashnode2 add ht nm hn =
     do { ht \<leftarrow> set_nam ht hn nm; i \<leftarrow> hashidx ht nm; hp \<leftarrow> get_bucket ht i;
          if hp = 0
          then do { ht \<leftarrow> set_hnext ht hn 0; ht \<leftarrow> set_bucket ht i hn;
                    ht \<leftarrow> count_up add ht; Some (0, ht) }
          else do { n \<leftarrow> node ht hp;
            if cmpnodes ht (nam n) nm = 0
            then do { ht \<leftarrow> set_bucket ht i hn; replacing ht hp hn }
            else do { (hq, hp) \<leftarrow> walk ht nm hp (hnext n);
              if hp \<noteq> 0
              then do { ht \<leftarrow> set_hnext ht hq hn; replacing ht hp hn }
              else do { f \<leftarrow> get_bucket ht i; ht \<leftarrow> set_hnext ht hn f; ht \<leftarrow> set_bucket ht i hn;
                        ht \<leftarrow> count_up add ht; Some (0, ht) } } } }"

text \<open>
  \<open>addhashnode\<close> as the method \<open>addnode\<close>: an expansion calls it again for every node.  The
  first argument bounds the depth of expansions inside expansions.
\<close>

fun addhashnode :: "nat \<Rightarrow> 'v htab \<Rightarrow> string \<Rightarrow> addr \<Rightarrow> 'v htab option" where
  "addhashnode 0 ht nm hn = None"
| "addhashnode (Suc k) ht nm hn =
     do { (oldnode, ht) \<leftarrow> addhashnode2 (addhashnode k) ht nm hn;
          if oldnode \<noteq> 0 then freenode ht oldnode else Some ht }"

section \<open>Lookup, removal, flags\<close>

partial_function (option) find_node :: "'v htab \<Rightarrow> string \<Rightarrow> addr \<Rightarrow> addr option" where
  "find_node ht nm hp =
     (if hp = 0 then Some 0
      else do { n \<leftarrow> node ht hp;
                if cmpnodes ht (nam n) nm = 0 then Some hp else find_node ht nm (hnext n) })"

definition gethashnode2 :: "'v htab \<Rightarrow> string \<Rightarrow> addr option" where
  "gethashnode2 ht nm = do { i \<leftarrow> hashidx ht nm; hp \<leftarrow> get_bucket ht i; find_node ht nm hp }"

definition gethashnode :: "'v htab \<Rightarrow> string \<Rightarrow> addr option" where
  "gethashnode ht nm =
     do { i \<leftarrow> hashidx ht nm; hp \<leftarrow> get_bucket ht i; hp \<leftarrow> find_node ht nm hp;
          if hp = 0 then Some 0
          else do { n \<leftarrow> node ht hp; Some (if flags n AND DISABLED \<noteq> 0 then 0 else hp) } }"

definition gotit :: "'v htab \<Rightarrow> addr \<Rightarrow> (addr \<times> 'v htab) option" where
  "gotit ht hp =
     do { n \<leftarrow> node ht hp;
          ht \<leftarrow> upd_scan (scan_remove hp (hnext n)) (ht\<lparr>ct := ct ht - 1\<rparr>); Some (hp, ht) }"

definition removehashnode :: "'v htab \<Rightarrow> string \<Rightarrow> (addr \<times> 'v htab) option" where
  "removehashnode ht nm =
     do { i \<leftarrow> hashidx ht nm; hp \<leftarrow> get_bucket ht i;
          if hp = 0 then Some (0, ht)
          else do { n \<leftarrow> node ht hp;
            if cmpnodes ht (nam n) nm = 0
            then do { ht \<leftarrow> set_bucket ht i (hnext n); gotit ht hp }
            else do { (hq, hp) \<leftarrow> walk ht nm hp (hnext n);
              if hp \<noteq> 0
              then do { n \<leftarrow> node ht hp; ht \<leftarrow> set_hnext ht hq (hnext n); gotit ht hp }
              else Some (0, ht) } } }"

definition disablehashnode :: "'v htab \<Rightarrow> addr \<Rightarrow> 'v htab option" where
  "disablehashnode ht hn = upd_node (\<lambda>n. n\<lparr>flags := flags n OR DISABLED\<rparr>) ht hn"

definition enablehashnode :: "'v htab \<Rightarrow> addr \<Rightarrow> 'v htab option" where
  "enablehashnode ht hn = upd_node (\<lambda>n. n\<lparr>flags := flags n AND NOT DISABLED\<rparr>) ht hn"

section \<open>Emptying\<close>

partial_function (option) free_chain :: "'v htab \<Rightarrow> addr \<Rightarrow> 'v htab option" where
  "free_chain ht hn =
     (if hn = 0 then Some ht
      else do { n \<leftarrow> node ht hn; ht \<leftarrow> freenode ht hn; free_chain ht (hnext n) })"

fun free_all :: "'v htab \<Rightarrow> addr list \<Rightarrow> 'v htab option" where
  "free_all ht [] = Some ht"
| "free_all ht (ha # rest) = do { ht \<leftarrow> free_chain ht ha; free_all ht rest }"

definition resizehashtable :: "'v htab \<Rightarrow> nat \<Rightarrow> 'v htab option" where
  "resizehashtable ht newsize =
     do { ht \<leftarrow> free_all ht (nodes ht);
          Some ((if hsize ht \<noteq> newsize
                 then ht\<lparr>nodes := replicate newsize 0, nodesid := nodesid ht + 1, hsize := newsize\<rparr>
                 else ht\<lparr>nodes := replicate newsize 0\<rparr>)\<lparr>ct := 0\<rparr>) }"

definition emptyhashtable :: "'v htab \<Rightarrow> 'v htab option" where
  "emptyhashtable ht = resizehashtable ht (hsize ht)"

end
