(* ===== verification/HashTable_Inv.thy ===== *)
theory HashTable_Inv
  imports HashTable
begin

text \<open>
  The invariant of a hash table of \<open>Src/hashtable.c\<close> and what its operations do to it:
  chains of nodes, buckets, the contract between the hash function and the comparison of
  names, and the specification of additions with their expansions.
\<close>

section \<open>Chains\<close>

primrec hchain :: "(addr \<rightharpoonup> 'v hnode) \<Rightarrow> addr \<Rightarrow> addr list \<Rightarrow> bool" where
  "hchain m a [] \<longleftrightarrow> a = 0"
| "hchain m a (x # xs) \<longleftrightarrow> a = x \<and> x \<noteq> 0 \<and> (\<exists>n. m x = Some n \<and> hchain m (hnext n) xs)"

definition hname :: "(addr \<rightharpoonup> 'v hnode) \<Rightarrow> addr \<Rightarrow> string" where
  "hname m a = nam (the (m a))"

text \<open>What a cell holds apart from its link.\<close>

definition strip :: "(addr \<rightharpoonup> 'v hnode) \<Rightarrow> addr \<rightharpoonup> 'v hnode" where
  "strip m a = map_option (hnext_update (\<lambda>_. 0)) (m a)"

lemma hchain_mem: "hchain m a xs \<Longrightarrow> x \<in> set xs \<Longrightarrow> x \<noteq> 0 \<and> (\<exists>n. m x = Some n)"
  by (induction xs arbitrary: a) auto

lemma hchain_cong: "(\<And>x. x \<in> set xs \<Longrightarrow> m x = m' x) \<Longrightarrow> hchain m a xs = hchain m' a xs"
  by (induction xs arbitrary: a) auto

lemma hchain_upd [simp]: "x \<notin> set xs \<Longrightarrow> hchain (m(x := v)) a xs = hchain m a xs"
  by (rule hchain_cong) auto

lemma hchain_det: "hchain m a xs \<Longrightarrow> hchain m a ys \<Longrightarrow> xs = ys"
proof (induction xs arbitrary: a ys)
  case Nil
  then show ?case by (cases ys) auto
next
  case (Cons x xs)
  then show ?case by (cases ys) auto
qed

lemma hchain_relink:
  "hchain m a (us @ x # ws) \<Longrightarrow> x \<notin> set us \<Longrightarrow> hchain m b zs \<Longrightarrow> x \<notin> set zs \<Longrightarrow>
   hchain (m(x \<mapsto> (the (m x))\<lparr>hnext := b\<rparr>)) a (us @ x # zs)"
  by (induction us arbitrary: a) auto

lemma hchain_suffix: "hchain m a (us @ vs) \<Longrightarrow> \<exists>b. hchain m b vs"
  by (induction us arbitrary: a) auto

lemma hchain_next: "hchain m a (us @ x # vs) \<Longrightarrow> hchain m (hnext (the (m x))) vs"
  by (induction us arbitrary: a) auto

lemma find_node_chain:
  "hchain (mem ht) a xs \<Longrightarrow>
   find_node ht nm a = Some (case find (\<lambda>x. cmpnodes ht (hname (mem ht) x) nm = 0) xs of None \<Rightarrow> 0 | Some x \<Rightarrow> x)"
proof (induction xs arbitrary: a)
  case (Cons x xs)
  then show ?case by (subst find_node.simps) (auto simp: node_def hname_def)
qed (subst find_node.simps, simp)

lemma walk_miss:
  "hchain (mem ht) a xs \<Longrightarrow> (\<And>x. x \<in> set xs \<Longrightarrow> cmpnodes ht (hname (mem ht) x) nm \<noteq> 0) \<Longrightarrow>
   walk ht nm q a = Some (last (q # xs), 0)"
proof (induction xs arbitrary: a q)
  case (Cons x xs)
  obtain n where n: "a = x" "x \<noteq> 0" "mem ht x = Some n" "hchain (mem ht) (hnext n) xs"
    using Cons.prems(1) by auto
  moreover have "cmpnodes ht (nam n) nm \<noteq> 0" using Cons.prems(2) [of x] n(3) by (simp add: hname_def)
  moreover have "walk ht nm x (hnext n) = Some (last (x # xs), 0)" using Cons.IH Cons.prems(2) n(4) by simp
  ultimately show ?case by (subst walk.simps) (simp add: node_def)
qed (subst walk.simps, simp)

lemma walk_hit:
  "hchain (mem ht) a (us @ x # vs) \<Longrightarrow> (\<And>u. u \<in> set us \<Longrightarrow> cmpnodes ht (hname (mem ht) u) nm \<noteq> 0) \<Longrightarrow>
   cmpnodes ht (hname (mem ht) x) nm = 0 \<Longrightarrow> walk ht nm q a = Some (last (q # us), x)"
proof (induction us arbitrary: a q)
  case Nil
  then show ?case by (subst walk.simps) (auto simp: node_def hname_def)
next
  case (Cons u us)
  obtain n where n: "a = u" "u \<noteq> 0" "mem ht u = Some n" "hchain (mem ht) (hnext n) (us @ x # vs)"
    using Cons.prems(1) by auto
  moreover have "cmpnodes ht (nam n) nm \<noteq> 0" using Cons.prems(2) [of u] n(3) by (simp add: hname_def)
  moreover have "walk ht nm u (hnext n) = Some (last (u # us), x)" using Cons.IH Cons.prems(2,3) n(4) by simp
  ultimately show ?case by (subst walk.simps) (simp add: node_def)
qed

section \<open>The invariant\<close>

text \<open>The comparison is an equivalence and the hash function respects it.\<close>

definition key_ok :: "(string \<Rightarrow> 32 word) \<Rightarrow> (string \<Rightarrow> string \<Rightarrow> int) \<Rightarrow> bool" where
  "key_ok h c \<longleftrightarrow> (\<forall>s. c s s = 0) \<and> (\<forall>s t. c s t = 0 \<longrightarrow> c t s = 0) \<and>
     (\<forall>s t u. c s t = 0 \<longrightarrow> c t u = 0 \<longrightarrow> c s u = 0) \<and> (\<forall>s t. c s t = 0 \<longrightarrow> h s = h t)"

lemma key_okD:
  assumes "key_ok h c"
  shows "c s s = 0" "c s t = 0 \<Longrightarrow> c t s = 0" "c s t = 0 \<Longrightarrow> c t u = 0 \<Longrightarrow> c s u = 0" "c s t = 0 \<Longrightarrow> h s = h t"
  using assms unfolding key_ok_def by blast+

definition idx :: "'v htab \<Rightarrow> addr \<Rightarrow> nat" where
  "idx ht a = unat (hash ht (hname (mem ht) a)) mod hsize ht"

definition same_key :: "'v htab \<Rightarrow> addr \<Rightarrow> string \<Rightarrow> bool" where
  "same_key ht a s \<longleftrightarrow> cmpnodes ht (hname (mem ht) a) s = 0"

definition bucket_ok :: "'v htab \<Rightarrow> nat \<Rightarrow> addr list \<Rightarrow> bool" where
  "bucket_ok ht i xs \<longleftrightarrow> hchain (mem ht) (nodes ht ! i) xs \<and> distinct xs \<and>
     (\<forall>a\<in>set xs. idx ht a = i \<and> (\<forall>b\<in>set xs. same_key ht a (hname (mem ht) b) \<longrightarrow> a = b))"

text \<open>
  \<open>cs\<close> gives the nodes of every bucket; the count is the number of nodes; every node is in
  the bucket of its name, and no two nodes have the same name.
\<close>

definition hwf :: "'v htab \<Rightarrow> addr list list \<Rightarrow> bool" where
  "hwf ht cs \<longleftrightarrow> key_ok (hash ht) (cmpnodes ht) \<and> 0 < hsize ht \<and> length (nodes ht) = hsize ht \<and>
     length cs = hsize ht \<and> ct ht = sum_list (map length cs) \<and> (\<forall>i < hsize ht. bucket_ok ht i (cs ! i))"

definition members :: "addr list list \<Rightarrow> addr set" where
  "members cs = set (concat cs)"

lemma in_members: "a \<in> members cs \<longleftrightarrow> (\<exists>i < length cs. a \<in> set (cs ! i))"
  unfolding members_def set_concat by (metis UN_iff in_set_conv_nth)

lemma hwfD:
  assumes "hwf ht cs"
  shows "key_ok (hash ht) (cmpnodes ht)" "0 < hsize ht" "length (nodes ht) = hsize ht" "length cs = hsize ht"
    "ct ht = sum_list (map length cs)" "i < hsize ht \<Longrightarrow> bucket_ok ht i (cs ! i)"
    "i < hsize ht \<Longrightarrow> hchain (mem ht) (nodes ht ! i) (cs ! i)" "i < hsize ht \<Longrightarrow> distinct (cs ! i)"
    "i < hsize ht \<Longrightarrow> a \<in> set (cs ! i) \<Longrightarrow> idx ht a = i"
  using assms by (auto simp: hwf_def bucket_ok_def)

lemma hwf_member: "hwf ht cs \<Longrightarrow> a \<in> members cs \<Longrightarrow> a \<noteq> 0 \<and> (\<exists>n. mem ht a = Some n) \<and> a \<in> set (cs ! idx ht a) \<and> idx ht a < hsize ht"
proof -
  assume w: "hwf ht cs" and "a \<in> members cs"
  then obtain i where i: "i < hsize ht" "a \<in> set (cs ! i)" using hwfD(4) [OF w] by (auto simp: in_members)
  with hwfD(9) [OF w i] hchain_mem [OF hwfD(7) [OF w i(1)] i(2)] show ?thesis by simp
qed

lemma hwf_in_bucket: "hwf ht cs \<Longrightarrow> i < hsize ht \<Longrightarrow> a \<in> set (cs ! i) \<longleftrightarrow> a \<in> members cs \<and> idx ht a = i"
proof -
  assume w: "hwf ht cs" and i: "i < hsize ht"
  show ?thesis using hwf_member [OF w, of a] hwfD(9) [OF w i, of a] i hwfD(4) [OF w] by (auto simp: in_members)
qed

lemma distinct_concatI:
  "(\<And>i. i < length cs \<Longrightarrow> distinct (cs ! i)) \<Longrightarrow>
   (\<And>i j. i < j \<Longrightarrow> j < length cs \<Longrightarrow> set (cs ! i) \<inter> set (cs ! j) = {}) \<Longrightarrow> distinct (concat cs)"
proof (induction cs)
  case (Cons c cs)
  have "distinct (concat cs)"
    using Cons.prems(1) [of "Suc i" for i] Cons.prems(2) [of "Suc i" "Suc j" for i j] by (intro Cons.IH) auto
  moreover have "set c \<inter> set d = {}" if d: "d \<in> set cs" for d
  proof -
    obtain j where "j < length cs" "d = cs ! j" using d by (auto simp: in_set_conv_nth)
    then show ?thesis using Cons.prems(2) [of 0 "Suc j"] by auto
  qed
  ultimately show ?case using Cons.prems(1) [of 0] by auto
qed simp

lemma hwf_distinct: "hwf ht cs \<Longrightarrow> distinct (concat cs)"
proof -
  assume w: "hwf ht cs"
  show "distinct (concat cs)"
  proof (rule distinct_concatI)
    show "distinct (cs ! i)" if "i < length cs" for i using hwfD(8) [OF w] hwfD(4) [OF w] that by simp
    show "set (cs ! i) \<inter> set (cs ! j) = {}" if "i < j" "j < length cs" for i j
    proof -
      have "idx ht a = i" if "a \<in> set (cs ! i)" for a
        using hwfD(9) [OF w _ that] hwfD(4) [OF w] \<open>i < j\<close> \<open>j < length cs\<close> by simp
      moreover have "idx ht a = j" if "a \<in> set (cs ! j)" for a
        using hwfD(9) [OF w _ that] hwfD(4) [OF w] \<open>j < length cs\<close> by simp
      ultimately show ?thesis using \<open>i < j\<close> by fastforce
    qed
  qed
qed

lemma hwf_ct: "hwf ht cs \<Longrightarrow> ct ht = card (members cs)"
  using distinct_card [OF hwf_distinct, of ht cs] hwfD(5) [of ht cs]
  unfolding members_def length_concat by simp

lemma key_idx: "hwf ht cs \<Longrightarrow> same_key ht a s \<Longrightarrow> unat (hash ht s) mod hsize ht = idx ht a"
proof -
  assume w: "hwf ht cs" and "same_key ht a s"
  then have "hash ht (hname (mem ht) a) = hash ht s"
    using key_okD(4) [OF hwfD(1) [OF w]] unfolding same_key_def by blast
  then show ?thesis by (simp add: idx_def)
qed

lemma hwf_keys:
  assumes "hwf ht cs" "a \<in> members cs" "b \<in> members cs" "same_key ht a s" "same_key ht b s"
  shows "a = b"
proof -
  have k: "idx ht a = idx ht b" using assms(1,4,5) key_idx by metis
  have m: "a \<in> set (cs ! idx ht a)" "b \<in> set (cs ! idx ht a)" "idx ht a < hsize ht"
    using hwf_member [OF assms(1,2)] hwf_member [OF assms(1,3)] k by simp_all
  have "same_key ht a (hname (mem ht) b)"
    using key_okD(2,3) [OF hwfD(1) [OF assms(1)]] assms(4,5) unfolding same_key_def by blast
  with hwfD(6) [OF assms(1) m(3)] m(1,2) show "a = b" unfolding bucket_ok_def by blast
qed

text \<open>A lookup finds the one node of that name, wherever it is.\<close>

lemma hwf_get:
  assumes w: "hwf ht cs"
  shows "gethashnode2 ht s = Some r \<longleftrightarrow>
    (if \<exists>a\<in>members cs. same_key ht a s then r \<in> members cs \<and> same_key ht r s else r = 0)"
proof -
  let ?i = "unat (hash ht s) mod hsize ht" and ?P = "\<lambda>x. cmpnodes ht (hname (mem ht) x) s = 0"
  have i: "?i < hsize ht" using hwfD(2) [OF w] by simp
  have g: "gethashnode2 ht s = Some (case find ?P (cs ! ?i) of None \<Rightarrow> 0 | Some x \<Rightarrow> x)"
    using hwfD(2,3) [OF w] i find_node_chain [OF hwfD(7) [OF w i], of s]
    by (simp add: gethashnode2_def hashidx_def get_bucket_def)
  have f: "a \<in> set (cs ! ?i)" if "a \<in> members cs" "same_key ht a s" for a
    using hwf_in_bucket [OF w i, of a] that key_idx [OF w that(2)] by simp
  show ?thesis
  proof (cases "find ?P (cs ! ?i)")
    case None
    then have "\<not> (\<exists>a\<in>members cs. same_key ht a s)" using f by (auto simp: find_None_iff same_key_def)
    with g None show ?thesis by auto
  next
    case (Some x)
    then have x: "x \<in> set (cs ! ?i)" "same_key ht x s" by (auto simp: find_Some_iff same_key_def)
    then have "x \<in> members cs" using hwf_in_bucket [OF w i] by blast
    moreover have "gethashnode2 ht s = Some x" using g Some by simp
    ultimately show ?thesis using x(2) hwf_keys [OF w, of x r s] by auto
  qed
qed

end
