(* ===== verification/HashTable_Add.thy ===== *)
theory HashTable_Add
  imports HashTable_Inv
begin

text \<open>
  What an addition does to a well-formed hash table: a new name goes to the front of its
  bucket, an old one takes over its node's place, and an expansion moves every node
  without losing one, whatever the depth of expansions inside it.
\<close>

section \<open>Changing one bucket\<close>

lemma members_update:
  assumes "hwf ht cs" "i < hsize ht"
  shows "members (cs[i := ys]) = members cs - set (cs ! i) \<union> set ys"
proof -
  have l: "i < length cs" using assms hwfD(4) by metis
  have "a \<in> members (cs[i := ys]) \<longleftrightarrow> a \<in> members cs - set (cs ! i) \<union> set ys" for a
  proof -
    have "a \<in> members (cs[i := ys]) \<longleftrightarrow> a \<in> set ys \<or> (\<exists>j < length cs. j \<noteq> i \<and> a \<in> set (cs ! j))"
      unfolding in_members using l by (auto simp: nth_list_update split: if_splits)
    also have "(\<exists>j < length cs. j \<noteq> i \<and> a \<in> set (cs ! j)) \<longleftrightarrow> a \<in> members cs \<and> idx ht a \<noteq> i"
      using hwf_in_bucket [OF assms(1)] hwfD(4) [OF assms(1)] hwf_member [OF assms(1), of a] by auto
    also have "\<dots> \<longleftrightarrow> a \<in> members cs - set (cs ! i)" using hwf_in_bucket [OF assms, of a] by auto
    finally show ?thesis by blast
  qed
  then show ?thesis by blast
qed

lemma bucket_ok_cong:
  assumes "bucket_ok ht i xs" "hash ht' = hash ht" "cmpnodes ht' = cmpnodes ht" "hsize ht' = hsize ht"
    "nodes ht' ! i = nodes ht ! i" "\<And>a. a \<in> set xs \<Longrightarrow> mem ht' a = mem ht a"
  shows "bucket_ok ht' i xs"
proof -
  have h: "hname (mem ht') a = hname (mem ht) a" if "a \<in> set xs" for a using assms(6) [OF that] by (simp add: hname_def)
  have "hchain (mem ht') (nodes ht' ! i) xs"
    using assms(1,5) hchain_cong [of xs "mem ht'" "mem ht"] assms(6) by (simp add: bucket_ok_def)
  then show ?thesis using assms(1-4) h by (simp add: bucket_ok_def idx_def same_key_def)
qed

lemma hwf_bucket:
  assumes w: "hwf ht cs" and i: "i < hsize ht"
    and f: "hash ht' = hash ht" "cmpnodes ht' = cmpnodes ht" "hsize ht' = hsize ht" "nodes ht' = (nodes ht)[i := v]"
    and o: "\<And>j a. j < hsize ht \<Longrightarrow> j \<noteq> i \<Longrightarrow> a \<in> set (cs ! j) \<Longrightarrow> mem ht' a = mem ht a"
    and c: "ct ht' + length (cs ! i) = ct ht + length ys" and b: "bucket_ok ht' i ys"
  shows "hwf ht' (cs[i := ys])"
proof -
  have l: "length cs = hsize ht" "ct ht = sum_list (map length cs)" using hwfD(4,5) [OF w] .
  have "sum_list (map length (cs[i := ys])) = ct ht + length ys - length (cs ! i)"
    using l i by (simp add: map_update sum_list_update)
  then have "ct ht' = sum_list (map length (cs[i := ys]))" using c by linarith
  moreover have "bucket_ok ht' j (cs[i := ys] ! j)" if j: "j < hsize ht" for j
  proof (cases "j = i")
    case True
    then show ?thesis using b l i by simp
  next
    case False
    then have "bucket_ok ht' j (cs ! j)"
      using bucket_ok_cong [OF hwfD(6) [OF w j] f(1-3)] f(4) o [OF j False] by simp
    with False show ?thesis by simp
  qed
  ultimately show ?thesis using hwfD(1-3) [OF w] l(1) f by (simp add: hwf_def)
qed

section \<open>Linking a node\<close>

lemma hn_fresh: "hwf ht cs \<Longrightarrow> hn \<notin> members cs \<Longrightarrow> j < hsize ht \<Longrightarrow> hn \<notin> set (cs ! j)"
  using hwf_in_bucket by metis

lemma idx_bound: "hwf ht cs \<Longrightarrow> unat (hash ht nm) mod hsize ht < hsize ht"
  using hwfD(2) by (metis mod_less_divisor)

lemma hashidx_simp: "hwf ht cs \<Longrightarrow> hashidx ht nm = Some (unat (hash ht nm) mod hsize ht)"
  using hwfD(2) by (auto simp: hashidx_def)

text \<open>The table with a new node at the front of its bucket, and the one with a node replaced.\<close>

definition link_front :: "'v htab \<Rightarrow> 'v hnode \<Rightarrow> string \<Rightarrow> addr \<Rightarrow> 'v htab" where
  "link_front ht n0 nm hn = (let i = unat (hash ht nm) mod hsize ht in
     ht\<lparr>mem := (mem ht)(hn \<mapsto> n0\<lparr>nam := nm, hnext := nodes ht ! i\<rparr>), nodes := (nodes ht)[i := hn]\<rparr>)"

lemma add_miss:
  assumes w: "hwf ht cs" and hn: "mem ht hn = Some n0" "hn \<noteq> 0" "hn \<notin> members cs"
    and miss: "\<And>a. a \<in> members cs \<Longrightarrow> \<not> same_key ht a nm"
  shows "addhashnode2 add ht nm hn = do { h \<leftarrow> count_up add (link_front ht n0 nm hn); Some (0, h) }"
proof -
  define i where "i = unat (hash ht nm) mod hsize ht"
  let ?ht = "ht\<lparr>mem := (mem ht)(hn \<mapsto> n0\<lparr>nam := nm\<rparr>)\<rparr>"
  have i: "i < hsize ht" using idx_bound [OF w] by (simp add: i_def)
  have ln: "length (nodes ht) = hsize ht" using hwfD(3) [OF w] .
  have sn: "set_nam ht hn nm = Some ?ht" using hn by (simp add: set_nam_def upd_node_def node_def)
  have hi: "hashidx ?ht nm = Some i" using hwfD(2) [OF w] by (simp add: hashidx_def i_def)
  have gb: "get_bucket ?ht i = Some (nodes ht ! i)" using i ln by (simp add: get_bucket_def)
  have fresh: "hn \<notin> set (cs ! i)" using hn_fresh [OF w hn(3) i] .
  have ch: "hchain (mem ?ht) (nodes ht ! i) (cs ! i)" using hwfD(7) [OF w i] fresh by simp
  have m: "cmpnodes ?ht (hname (mem ?ht) a) nm \<noteq> 0" if "a \<in> set (cs ! i)" for a
    using miss [of a] that hwf_in_bucket [OF w i, of a] fresh by (auto simp: same_key_def hname_def)
  have lf: "do { ht \<leftarrow> set_hnext ?ht hn f; ht \<leftarrow> set_bucket ht i hn; ht \<leftarrow> count_up add ht; Some (0 :: addr, ht) }
     = do { h \<leftarrow> count_up add (link_front ht n0 nm hn); Some (0, h) }" if "f = nodes ht ! i" for f
    using hn i ln that by (simp add: set_hnext_def upd_node_def node_def set_bucket_def link_front_def Let_def i_def)
  show ?thesis
  proof (cases "cs ! i")
    case Nil
    then have "nodes ht ! i = 0" using ch by simp
    then show ?thesis using sn hi gb lf [of 0] by (simp add: addhashnode2_def)
  next
    case (Cons y ys)
    then obtain n where n: "nodes ht ! i = y" "y \<noteq> 0" "mem ?ht y = Some n" "hchain (mem ?ht) (hnext n) ys"
      using ch by auto
    have ny: "node ?ht y = Some n" using n by (simp add: node_def del: fun_upd_apply)
    have cy: "cmpnodes ?ht (nam n) nm \<noteq> 0" using m [of y] Cons n(3) by (simp add: hname_def del: fun_upd_apply)
    have "walk ?ht nm y (hnext n) = Some (last (y # ys), 0)"
      using walk_miss [OF n(4), of nm y] m Cons by simp
    then show ?thesis
      unfolding addhashnode2_def sn bind.bind_lunit hi gb n(1)
      using n(2) ny cy gb n(1) lf [of y] by simp
  qed
qed

lemma link_front_hwf:
  assumes w: "hwf ht cs" and hn: "mem ht hn = Some n0" "hn \<noteq> 0" "hn \<notin> members cs"
    and miss: "\<And>a. a \<in> members cs \<Longrightarrow> \<not> same_key ht a nm"
  defines "i \<equiv> unat (hash ht nm) mod hsize ht"
  shows "hwf ((link_front ht n0 nm hn)\<lparr>ct := ct ht + 1\<rparr>) (cs[i := hn # cs ! i])"
    and "members (cs[i := hn # cs ! i]) = insert hn (members cs)"
proof -
  have i: "i < hsize ht" using idx_bound [OF w] by (simp add: i_def)
  have ln: "length (nodes ht) = hsize ht" using hwfD(3) [OF w] .
  have fresh: "hn \<notin> set (cs ! i)" using hn_fresh [OF w hn(3) i] .
  let ?ht = "(link_front ht n0 nm hn)\<lparr>ct := ct ht + 1\<rparr>"
  have me: "mem ?ht = (mem ht)(hn \<mapsto> n0\<lparr>nam := nm, hnext := nodes ht ! i\<rparr>)" "nodes ?ht = (nodes ht)[i := hn]"
    "hash ?ht = hash ht" "cmpnodes ?ht = cmpnodes ht" "hsize ?ht = hsize ht"
    by (simp_all add: link_front_def Let_def i_def)
  have na: "hname (mem ?ht) hn = nm" "\<And>a. a \<noteq> hn \<Longrightarrow> hname (mem ?ht) a = hname (mem ht) a"
    unfolding me by (simp_all add: hname_def)
  note b = hwfD(6) [OF w i] and k = key_okD [OF hwfD(1) [OF w]]
  have ms: "\<And>a. a \<in> set (cs ! i) \<Longrightarrow> cmpnodes ht (hname (mem ht) a) nm \<noteq> 0 \<and> cmpnodes ht nm (hname (mem ht) a) \<noteq> 0"
    using miss hwf_in_bucket [OF w i] k(2) unfolding same_key_def by blast
  have ch: "hchain (mem ?ht) (nodes ?ht ! i) (hn # cs ! i)"
    unfolding me using i ln hn(2) hwfD(7) [OF w i] fresh by simp
  have o: "a \<noteq> hn" if "a \<in> set (cs ! i)" for a using that fresh by auto
  have ids: "idx ?ht a = i" if "a \<in> set (hn # cs ! i)" for a
    using that na o hwfD(9) [OF w i] unfolding idx_def me(3-5) by (auto simp: i_def idx_def)
  have "same_key ?ht a (hname (mem ?ht) b) \<Longrightarrow> a = b" if "a \<in> set (hn # cs ! i)" "b \<in> set (hn # cs ! i)" for a b
  proof -
    assume "same_key ?ht a (hname (mem ?ht) b)"
    then have s: "cmpnodes ht (hname (mem ?ht) a) (hname (mem ?ht) b) = 0" unfolding same_key_def me(4) .
    consider "a = hn" "b = hn" | "a = hn" "b \<in> set (cs ! i)" | "a \<in> set (cs ! i)" "b = hn"
      | "a \<in> set (cs ! i)" "b \<in> set (cs ! i)" using \<open>a \<in> set (hn # cs ! i)\<close> \<open>b \<in> set (hn # cs ! i)\<close> by auto
    then show "a = b"
    proof cases
      case 4
      then have "same_key ht a (hname (mem ht) b)" using s na(2) [OF o] unfolding same_key_def by simp
      then show ?thesis using b 4 unfolding bucket_ok_def by blast
    qed (use s na(1) na(2) [OF o] ms in auto)
  qed
  then have "bucket_ok ?ht i (hn # cs ! i)"
    unfolding bucket_ok_def using ch ids fresh hwfD(8) [OF w i] by (simp only: distinct.simps) blast
  then show "hwf ?ht (cs[i := hn # cs ! i])"
    using hn_fresh [OF w hn(3)] me by (intro hwf_bucket [OF w i me(3-5,2)]) auto
  show "members (cs[i := hn # cs ! i]) = insert hn (members cs)"
    using members_update [OF w i, of "hn # cs ! i"] hwf_in_bucket [OF w i] by auto
qed

section \<open>Replacing a node\<close>

text \<open>The cells after a replacement: the predecessor, if any, points to the new node.\<close>

definition relinked :: "'v htab \<Rightarrow> addr list \<Rightarrow> addr \<Rightarrow> addr \<rightharpoonup> 'v hnode" where
  "relinked ht us b = (if us = [] then mem ht
     else (mem ht)(last us \<mapsto> (the (mem ht (last us)))\<lparr>hnext := b\<rparr>))"

definition link_replace :: "'v htab \<Rightarrow> 'v hnode \<Rightarrow> string \<Rightarrow> addr \<Rightarrow> addr list \<Rightarrow> addr \<Rightarrow> 'v htab" where
  "link_replace ht n0 nm hn us x = (let i = unat (hash ht nm) mod hsize ht in
     ht\<lparr>mem := (relinked ht us hn)(hn \<mapsto> n0\<lparr>nam := nm, hnext := hnext (the (mem ht x))\<rparr>),
        nodes := (if us = [] then (nodes ht)[i := hn] else nodes ht)\<rparr>)"

lemma strip_relinked: "(\<And>u. u \<in> set us \<Longrightarrow> mem ht u \<noteq> None) \<Longrightarrow> strip (relinked ht us b) = strip (mem ht)"
proof (cases us rule: rev_cases)
  case (snoc ys y)
  assume "\<And>u. u \<in> set us \<Longrightarrow> mem ht u \<noteq> None"
  then obtain n where "mem ht y = Some n" using snoc by auto
  then show ?thesis using snoc by (auto simp: relinked_def strip_def fun_eq_iff)
qed (simp add: relinked_def)

lemma relinked_off: "a \<notin> set us \<Longrightarrow> relinked ht us b a = mem ht a"
  by (auto simp: relinked_def)

lemma hname_strip: "strip m a = strip m' a \<Longrightarrow> hname m a = hname m' a"
proof -
  have r: "nam n = nam n'" if "n\<lparr>hnext := 0\<rparr> = n'\<lparr>hnext := 0\<rparr>" for n n' :: "'a hnode"
    using arg_cong [OF that, of nam] by simp
  show "strip m a = strip m' a \<Longrightarrow> hname m a = hname m' a"
    by (cases "m a"; cases "m' a") (auto simp: strip_def hname_def dest: r)
qed

lemma bucket_split:
  assumes w: "hwf ht cs" and x: "x \<in> members cs" "same_key ht x nm"
  defines "i \<equiv> unat (hash ht nm) mod hsize ht"
  obtains us vs where "cs ! i = us @ x # vs" "i < hsize ht" "x \<notin> set us" "x \<notin> set vs" "distinct us"
    "distinct vs" "set us \<inter> set vs = {}" "\<And>u. u \<in> set (us @ vs) \<Longrightarrow> \<not> same_key ht u nm"
    "\<And>u. u \<in> set (us @ vs) \<Longrightarrow> u \<noteq> 0 \<and> (\<exists>n. mem ht u = Some n)" "x \<noteq> 0" "\<exists>n. mem ht x = Some n"
proof -
  have i: "i < hsize ht" "x \<in> set (cs ! i)"
    using hwf_in_bucket [OF w idx_bound [OF w], of x nm] x(1) key_idx [OF w x(2)] idx_bound [OF w, of nm]
    by (simp_all add: i_def)
  then obtain us vs where s: "cs ! i = us @ x # vs" by (meson split_list)
  have d: "distinct (us @ x # vs)" using hwfD(8) [OF w i(1)] s by simp
  have k: "\<not> same_key ht u nm" if "u \<in> set (us @ vs)" for u
    using that d x hwf_keys [OF w, of u x nm] hwf_in_bucket [OF w i(1), of u] s by auto
  have m: "u \<noteq> 0 \<and> (\<exists>n. mem ht u = Some n)" if "u \<in> set (us @ x # vs)" for u
    using hchain_mem [OF hwfD(7) [OF w i(1)], of u] that unfolding s by blast
  have d': "x \<notin> set us" "x \<notin> set vs" "distinct us" "distinct vs" "set us \<inter> set vs = {}" using d by auto
  have m': "\<And>u. u \<in> set (us @ vs) \<Longrightarrow> u \<noteq> 0 \<and> (\<exists>n. mem ht u = Some n)" "x \<noteq> 0" "\<exists>n. mem ht x = Some n"
    using m by simp_all
  show ?thesis by (rule that [OF s i(1) d' k m'])
qed

lemma nodes_mem_swap: "ht\<lparr>nodes := A, mem := B\<rparr> = ht\<lparr>mem := B, nodes := A\<rparr>"
  by simp

lemma strip_fun_upd: "strip (m(a \<mapsto> n)) = (strip m)(a \<mapsto> n\<lparr>hnext := 0\<rparr>)"
  by (auto simp: strip_def fun_eq_iff)

lemma last_hit: "us \<noteq> [] \<Longrightarrow> \<exists>ys y. us = ys @ [y]"
  by (cases us rule: rev_cases) auto

text \<open>The bucket after a replacement is a chain again.\<close>

lemma relinked_chain:
  assumes c: "hchain (mem ht) b0 (us @ x # vs)" and hn: "hn \<notin> set (us @ x # vs)" "hn \<noteq> 0"
    and d: "x \<notin> set us" "distinct us" "set us \<inter> set vs = {}" and n: "hnext n = hnext (the (mem ht x))"
  shows "hchain ((relinked ht us hn)(hn \<mapsto> n)) (if us = [] then hn else b0) (us @ hn # vs)"
proof -
  have v: "hchain (mem ht) (hnext n) vs" using hchain_next [OF c] n by simp
  have vs: "hchain ((relinked ht us hn)(hn \<mapsto> n)) (hnext n) vs"
  proof -
    have "((relinked ht us hn)(hn \<mapsto> n)) a = mem ht a" if "a \<in> set vs" for a
      using that hn d(3) relinked_off [of a us ht hn] by auto
    then show ?thesis using v hchain_cong [of vs] by metis
  qed
  show ?thesis
  proof (cases us rule: rev_cases)
    case Nil
    then show ?thesis using vs hn by simp
  next
    case (snoc ys y)
    have y: "y \<notin> set ys" "y \<notin> set vs" "y \<noteq> hn" "hn \<notin> set ys" using d hn snoc by auto
    have "hchain (mem ht) b0 (ys @ y # x # vs)" using c snoc by simp
    moreover have "hchain ((mem ht)(hn \<mapsto> n)) hn (hn # vs)" using v hn by simp
    moreover have "hchain ((mem ht)(hn \<mapsto> n)) b0 (ys @ y # x # vs)" using calculation(1) hn snoc by simp
    ultimately have "hchain ((mem ht)(hn \<mapsto> n, y \<mapsto> (the (((mem ht)(hn \<mapsto> n)) y))\<lparr>hnext := hn\<rparr>)) b0 (ys @ y # hn # vs)"
      using hchain_relink [of "(mem ht)(hn \<mapsto> n)" b0 ys y "x # vs" hn "hn # vs"] y by auto
    then show ?thesis using snoc y by (simp add: relinked_def fun_upd_twist)
  qed
qed

lemma link_replace_hwf:
  assumes w: "hwf ht cs" and hn: "mem ht hn = Some n0" "hn \<noteq> 0" "hn \<notin> members cs"
    and x: "x \<in> members cs" "same_key ht x nm" and s: "cs ! (unat (hash ht nm) mod hsize ht) = us @ x # vs"
  defines "i \<equiv> unat (hash ht nm) mod hsize ht" and "ht' \<equiv> link_replace ht n0 nm hn us x"
  shows "hwf ht' (cs[i := us @ hn # vs])" "members (cs[i := us @ hn # vs]) = insert hn (members cs - {x})"
    "strip (mem ht') = (strip (mem ht))(hn \<mapsto> n0\<lparr>nam := nm, hnext := 0\<rparr>)"
    "\<And>a. a \<noteq> hn \<Longrightarrow> a \<notin> set us \<Longrightarrow> mem ht' a = mem ht a"
proof -
  obtain us' vs' where b: "cs ! i = us' @ x # vs'" "i < hsize ht" "x \<notin> set us'" "x \<notin> set vs'" "distinct us'"
    "distinct vs'" "set us' \<inter> set vs' = {}" "\<And>u. u \<in> set (us' @ vs') \<Longrightarrow> \<not> same_key ht u nm"
    "\<And>u. u \<in> set (us' @ vs') \<Longrightarrow> u \<noteq> 0 \<and> (\<exists>n. mem ht u = Some n)" "x \<noteq> 0" "\<exists>n. mem ht x = Some n"
    using bucket_split [OF w x] unfolding i_def by metis
  have d: "distinct (us @ x # vs)" using hwfD(8) [OF w b(2)] s by (simp add: i_def)
  have "us' = us \<and> vs' = vs" using s b(1,3,4) d by (auto simp: i_def append_eq_Cons_conv append_eq_append_conv2 Cons_eq_append_conv)
  note b = b [unfolded this [THEN conjunct1] this [THEN conjunct2]]
  have fresh: "hn \<notin> set (us @ x # vs)" using hn_fresh [OF w hn(3) b(2)] b(1) by simp
  have ln: "length (nodes ht) = hsize ht" using hwfD(3) [OF w] .
  have me: "mem ht' = (relinked ht us hn)(hn \<mapsto> n0\<lparr>nam := nm, hnext := hnext (the (mem ht x))\<rparr>)"
    "hash ht' = hash ht" "cmpnodes ht' = cmpnodes ht" "hsize ht' = hsize ht" "ct ht' = ct ht"
    "nodes ht' = (nodes ht)[i := (if us = [] then hn else nodes ht ! i)]"
    by (simp_all add: ht'_def link_replace_def Let_def i_def)
  show st: "strip (mem ht') = (strip (mem ht))(hn \<mapsto> n0\<lparr>nam := nm, hnext := 0\<rparr>)"
    unfolding me strip_fun_upd using strip_relinked [of us ht hn] b(9) by (simp add: fun_upd_def)
  show off: "\<And>a. a \<noteq> hn \<Longrightarrow> a \<notin> set us \<Longrightarrow> mem ht' a = mem ht a"
    unfolding me using relinked_off by (metis fun_upd_other)
  have na: "hname (mem ht') hn = nm" "\<And>a. a \<noteq> hn \<Longrightarrow> hname (mem ht') a = hname (mem ht) a"
  proof -
    show "hname (mem ht') hn = nm" unfolding me(1) by (simp add: hname_def)
    show "hname (mem ht') a = hname (mem ht) a" if "a \<noteq> hn" for a
      using that by (intro hname_strip) (simp add: st)
  qed
  have ch: "hchain (mem ht') (nodes ht' ! i) (us @ hn # vs)"
  proof -
    have "hchain (mem ht) (nodes ht ! i) (us @ x # vs)" using hwfD(7) [OF w b(2)] b(1) by simp
    from relinked_chain [OF this fresh hn(2) b(3,5,7), of "n0\<lparr>nam := nm, hnext := hnext (the (mem ht x))\<rparr>"]
    show ?thesis unfolding me(1,6) using b(2) ln by (simp del: fun_upd_apply)
  qed
  have o: "a \<noteq> hn" if "a \<in> set (us @ vs)" for a using that fresh by auto
  have k: "cmpnodes ht (hname (mem ht) a) nm \<noteq> 0" "cmpnodes ht nm (hname (mem ht) a) \<noteq> 0" if "a \<in> set (us @ vs)" for a
    using b(8) [OF that] key_okD(2) [OF hwfD(1) [OF w], of nm "hname (mem ht) a"] by (auto simp: same_key_def)
  have ids: "idx ht' a = i" if "a \<in> set (us @ hn # vs)" for a
    using that na o hwfD(9) [OF w b(2), of a] b(1) unfolding idx_def me(2-4) by (cases "a = hn") (auto simp: i_def idx_def)
  have ks: "a = c" if ac: "a \<in> set (us @ hn # vs)" "c \<in> set (us @ hn # vs)" "same_key ht' a (hname (mem ht') c)" for a c
  proof -
    have e: "cmpnodes ht (hname (mem ht') a) (hname (mem ht') c) = 0" using ac(3) unfolding same_key_def me(3) .
    consider "a = hn" "c = hn" | "a = hn" "c \<in> set (us @ vs)" | "a \<in> set (us @ vs)" "c = hn"
      | "a \<in> set (us @ vs)" "c \<in> set (us @ vs)" using ac(1,2) by auto
    then show "a = c"
    proof cases
      case 4
      then have "same_key ht a (hname (mem ht) c)" using e na(2) o unfolding same_key_def by metis
      moreover have "a \<in> set (cs ! i)" "c \<in> set (cs ! i)" using 4 b(1) by auto
      ultimately show ?thesis using hwfD(6) [OF w b(2)] unfolding bucket_ok_def by blast
    qed (use e na o k in metis)+
  qed
  have bo: "bucket_ok ht' i (us @ hn # vs)"
    unfolding bucket_ok_def using ch ids ks d fresh by (intro conjI ballI impI) auto
  show "hwf ht' (cs[i := us @ hn # vs])"
  proof (rule hwf_bucket [OF w b(2) me(2-4,6) _ _ bo])
    show "mem ht' a = mem ht a" if "j < hsize ht" "j \<noteq> i" "a \<in> set (cs ! j)" for j a
    proof (rule off)
      show "a \<noteq> hn" using hn_fresh [OF w hn(3) that(1)] that(3) by auto
      show "a \<notin> set us" using hwfD(9) [OF w that(1,3)] hwfD(9) [OF w b(2), of a] b(1) that(2) by auto
    qed
  qed (simp add: me(5) b(1))
  show "members (cs[i := us @ hn # vs]) = insert hn (members cs - {x})"
    using members_update [OF w b(2), of "us @ hn # vs"] hwf_in_bucket [OF w b(2)] b(1,3,4) hn(3) by auto
qed

lemma add_hit:
  assumes w: "hwf ht cs" and hn: "mem ht hn = Some n0" "hn \<noteq> 0" "hn \<notin> members cs"
    and x: "x \<in> members cs" "same_key ht x nm" and s: "cs ! (unat (hash ht nm) mod hsize ht) = us @ x # vs"
  shows "addhashnode2 add ht nm hn =
    do { h \<leftarrow> upd_scan (scan_replace x hn) (link_replace ht n0 nm hn us x); Some (x, h) }"
proof -
  define i where "i = unat (hash ht nm) mod hsize ht"
  let ?ht = "ht\<lparr>mem := (mem ht)(hn \<mapsto> n0\<lparr>nam := nm\<rparr>)\<rparr>"
  have i: "i < hsize ht" using idx_bound [OF w] by (simp add: i_def)
  have ln: "length (nodes ht) = hsize ht" using hwfD(3) [OF w] .
  have s: "cs ! i = us @ x # vs" using s by (simp add: i_def)
  have sn: "set_nam ht hn nm = Some ?ht" using hn by (simp add: set_nam_def upd_node_def node_def)
  have hi: "hashidx ?ht nm = Some i" using hwfD(2) [OF w] by (simp add: hashidx_def i_def)
  have gb: "get_bucket ?ht i = Some (nodes ht ! i)" using i ln by (simp add: get_bucket_def)
  have fresh: "hn \<notin> set (us @ x # vs)" using hn_fresh [OF w hn(3) i] s by simp
  have ch: "hchain (mem ?ht) (nodes ht ! i) (us @ x # vs)" using hwfD(7) [OF w i] fresh s by simp
  have d: "distinct (us @ x # vs)" using hwfD(8) [OF w i] s by simp
  have me: "a \<in> set (us @ x # vs) \<Longrightarrow> mem ?ht a = mem ht a" for a using fresh by auto
  have cx: "cmpnodes ?ht (hname (mem ?ht) x) nm = 0" using x(2) fresh by (auto simp: same_key_def hname_def)
  have cu: "cmpnodes ?ht (hname (mem ?ht) u) nm \<noteq> 0" if "u \<in> set us" for u
  proof
    assume "cmpnodes ?ht (hname (mem ?ht) u) nm = 0"
    moreover have "u \<noteq> hn" using fresh that by auto
    ultimately have "same_key ht u nm" by (simp add: same_key_def hname_def)
    moreover have "u \<in> members cs" using that hwf_in_bucket [OF w i, of u] s by simp
    ultimately show False using hwf_keys [OF w, of u x nm] x d that by auto
  qed
  obtain nx where nx: "mem ht x = Some nx" "x \<noteq> 0" using hchain_mem [OF ch, of x] me by auto
  have rep: "replacing h x hn = do { h \<leftarrow> upd_scan (scan_replace x hn) (link_replace ht n0 nm hn us x); Some (x, h) }"
    if "h = ht\<lparr>mem := (relinked ht us hn)(hn \<mapsto> n0\<lparr>nam := nm\<rparr>), nodes := (if us = [] then (nodes ht)[i := hn] else nodes ht)\<rparr>" for h
    using that fresh hn nx relinked_off [of x us ht hn] d
    by (auto simp: replacing_def set_hnext_def upd_node_def node_def link_replace_def Let_def i_def nodes_mem_swap)
  show ?thesis
  proof (cases us)
    case Nil
    have "nodes ht ! i = x" using ch Nil by simp
    moreover have "node ?ht x = Some nx" using nx fresh by (simp add: node_def)
    moreover have "cmpnodes ?ht (nam nx) nm = 0" using cx nx fresh by (simp add: hname_def split: if_splits)
    moreover have "set_bucket ?ht i hn = Some (?ht\<lparr>nodes := (nodes ht)[i := hn]\<rparr>)"
      using i ln by (simp add: set_bucket_def)
    ultimately show ?thesis
      unfolding addhashnode2_def sn bind.bind_lunit hi gb using nx(2) rep Nil by (simp add: relinked_def)
  next
    case (Cons y ys)
    then obtain n where n: "nodes ht ! i = y" "y \<noteq> 0" "mem ?ht y = Some n" "hchain (mem ?ht) (hnext n) (ys @ x # vs)"
      using ch by auto
    have ny: "node ?ht y = Some n" using n by (simp add: node_def del: fun_upd_apply)
    have cy: "cmpnodes ?ht (nam n) nm \<noteq> 0" using cu [of y] Cons n(3) by (simp add: hname_def del: fun_upd_apply)
    have wk: "walk ?ht nm y (hnext n) = Some (last us, x)"
      using walk_hit [OF n(4) _ cx, of y] cu Cons by simp
    have q: "last us \<in> set us" "us \<noteq> []" using Cons by auto
    then obtain nq where nq: "mem ht (last us) = Some nq" "last us \<noteq> 0" "last us \<noteq> hn"
      using hchain_mem [OF ch, of "last us"] me [of "last us"] fresh q(1) by fastforce
    have sq: "set_hnext ?ht (last us) hn = Some (?ht\<lparr>mem := (relinked ht us hn)(hn \<mapsto> n0\<lparr>nam := nm\<rparr>)\<rparr>)"
      using nq q by (simp add: set_hnext_def upd_node_def node_def relinked_def fun_upd_twist)
    show ?thesis
      unfolding addhashnode2_def sn bind.bind_lunit hi gb
      using n(1,2) ny cy wk nx(2) sq rep [of "?ht\<lparr>mem := (relinked ht us hn)(hn \<mapsto> n0\<lparr>nam := nm\<rparr>)\<rparr>"] q(2) by simp
  qed
qed

end
