(* ===== verification/HashTable_Expand.thy ===== *)
theory HashTable_Expand
  imports HashTable_Add
begin

text \<open>
  Expansions of a hash table, which may nest when nodes were added during a scan, and the
  specification of additions and lookups that follows.
\<close>

section \<open>Methods that add a node\<close>

definition same_rest :: "'v htab \<Rightarrow> 'v htab \<Rightarrow> bool" where
  "same_rest ht ht' \<longleftrightarrow> hash ht' = hash ht \<and> cmpnodes ht' = cmpnodes ht \<and> freed ht' = freed ht \<and>
     scan ht' = scan ht \<and> stats ht' = stats ht"

lemma same_rest_trans: "same_rest a b \<Longrightarrow> same_rest b c \<Longrightarrow> same_rest a c"
  by (simp add: same_rest_def)

text \<open>The table \<open>ht'\<close> has the nodes of \<open>ht\<close> and those of \<open>N\<close>; other cells are untouched.\<close>

definition moved :: "'v htab \<Rightarrow> addr list list \<Rightarrow> addr set \<Rightarrow> 'v htab \<Rightarrow> addr list list \<Rightarrow> bool" where
  "moved ht cs N ht' cs' \<longleftrightarrow> hwf ht' cs' \<and> members cs' = N \<union> members cs \<and> same_rest ht ht' \<and>
     hsize ht \<le> hsize ht' \<and> (\<forall>a. a \<notin> members cs' \<longrightarrow> mem ht' a = mem ht a)"

lemma moved_trans: "moved a cs M b ds \<Longrightarrow> moved b ds N c es \<Longrightarrow> moved a cs (M \<union> N) c es"
  unfolding moved_def using same_rest_trans by (metis (no_types, lifting) Un_iff le_trans sup_assoc sup_commute)

lemma moved_empty: "hwf ht cs \<Longrightarrow> moved ht cs {} ht cs"
  by (simp add: moved_def same_rest_def)

text \<open>
  A method may change a node it adds, as \<open>addhistnode\<close> does, by a function \<open>f\<close> that keeps its name.
  An expansion calls it for every node: what it leaves in a cell is the old contents or their
  image under \<open>f\<close>.
\<close>

definition tame :: "('v hnode \<Rightarrow> 'v hnode) \<Rightarrow> bool" where
  "tame f \<longleftrightarrow> (\<forall>n. nam (f n) = nam n \<and> f (f n) = f n)"

definition up_to :: "('v hnode \<Rightarrow> 'v hnode) \<Rightarrow> (addr \<rightharpoonup> 'v hnode) \<Rightarrow> (addr \<rightharpoonup> 'v hnode) \<Rightarrow> bool" where
  "up_to f m m' \<longleftrightarrow> (\<forall>a. m' a = m a \<or> m' a = map_option f (m a))"

lemma up_to_refl: "up_to f m m"
  by (simp add: up_to_def)

lemma up_to_id: "up_to (\<lambda>n. n) m m' \<longleftrightarrow> m' = m"
  by (auto simp: up_to_def option.map_ident)

lemma tame_id: "tame (\<lambda>n. n)"
  by (simp add: tame_def)

lemma up_to_trans:
  assumes "tame f" "up_to f m m'" "up_to f m' m''"
  shows "up_to f m m''"
  unfolding up_to_def
proof
  fix a
  have "f (f n) = f n" for n using assms(1) by (simp add: tame_def)
  moreover have "m' a = m a \<or> m' a = map_option f (m a)" "m'' a = m' a \<or> m'' a = map_option f (m' a)"
    using assms(2,3) by (simp_all add: up_to_def)
  ultimately show "m'' a = m a \<or> m'' a = map_option f (m a)" by (auto simp: option.map_comp o_def)
qed

lemma up_to_hname:
  assumes "tame f" "up_to f (strip m) (strip m')"
  shows "hname m' a = hname m a"
proof -
  have n: "nam (f n) = nam n" for n using assms(1) by (simp add: tame_def)
  have "map_option nam (strip m' a) = map_option nam (strip m a)"
    using assms(2) [unfolded up_to_def, rule_format, of a] by (auto simp: option.map_comp o_def n)
  then show ?thesis by (cases "m a"; cases "m' a") (simp_all add: strip_def hname_def)
qed

lemma strip_same_key:
  "tame f \<Longrightarrow> up_to f (strip (mem ht)) (strip (mem ht')) \<Longrightarrow> same_rest ht ht' \<Longrightarrow>
   same_key ht' a s = same_key ht a s \<and> hname (mem ht') a = hname (mem ht) a"
  using up_to_hname [of f "mem ht" "mem ht'" a] by (simp add: same_key_def same_rest_def)

text \<open>A method that adds new names to tables of up to \<open>B\<close> nodes per bucket.\<close>

definition adds :: "('v hnode \<Rightarrow> 'v hnode) \<Rightarrow> ('v htab \<Rightarrow> string \<Rightarrow> addr \<Rightarrow> 'v htab option) \<Rightarrow> nat \<Rightarrow> bool" where
  "adds f add B \<longleftrightarrow> (\<forall>ht cs nm hn n0. hwf ht cs \<longrightarrow> scan ht = None \<longrightarrow> mem ht hn = Some n0 \<longrightarrow> hn \<noteq> 0 \<longrightarrow>
     hn \<notin> members cs \<longrightarrow> (\<forall>a\<in>members cs. \<not> same_key ht a nm) \<longrightarrow> ct ht + 1 < B * hsize ht \<longrightarrow>
     (\<exists>ht' cs'. add ht nm hn = Some ht' \<and> moved ht cs {hn} ht' cs' \<and>
        up_to f ((strip (mem ht))(hn \<mapsto> n0\<lparr>nam := nm, hnext := 0\<rparr>)) (strip (mem ht'))))"

lemma addsD:
  assumes "adds f add B" "hwf ht cs" "scan ht = None" "mem ht hn = Some n0" "hn \<noteq> 0" "hn \<notin> members cs"
    "\<And>a. a \<in> members cs \<Longrightarrow> \<not> same_key ht a nm" "ct ht + 1 < B * hsize ht"
  obtains ht' cs' where "add ht nm hn = Some ht'" "moved ht cs {hn} ht' cs'"
    "up_to f ((strip (mem ht))(hn \<mapsto> n0\<lparr>nam := nm, hnext := 0\<rparr>)) (strip (mem ht'))"
  using assms unfolding adds_def by blast

section \<open>Rehashing\<close>

text \<open>The nodes still to move have names of their own, different from those in the table.\<close>

definition foreign :: "'v htab \<Rightarrow> addr list list \<Rightarrow> addr list \<Rightarrow> bool" where
  "foreign ht cs xs \<longleftrightarrow> distinct xs \<and> set xs \<inter> members cs = {} \<and>
     (\<forall>x\<in>set xs. \<forall>a\<in>set xs \<union> members cs. same_key ht a (hname (mem ht) x) \<longrightarrow> a = x)"

lemma foreign_step:
  assumes T: "tame g" and f: "foreign ht cs (us @ vs)" and m: "moved ht cs (set us) ht' cs'"
    and s: "up_to g (strip (mem ht)) (strip (mem ht'))"
  shows "foreign ht' cs' vs"
proof -
  have k: "same_key ht' a t = same_key ht a t" "hname (mem ht') a = hname (mem ht) a" for a t
    using strip_same_key [OF T s, of a t] m by (simp_all add: moved_def)
  have "members cs' = set us \<union> members cs" using m by (simp add: moved_def)
  then show ?thesis using f unfolding foreign_def k by auto
qed

lemma bound_mono: "a < B * m \<Longrightarrow> m \<le> n \<Longrightarrow> a < B * (n :: nat)"
  by (meson less_le_trans mult_le_mono2)

lemma rehash_chain_spec:
  assumes T: "tame f" and A: "adds f add B"
  shows "hwf ht cs \<Longrightarrow> scan ht = None \<Longrightarrow> hchain (mem ht) b xs \<Longrightarrow> foreign ht cs xs \<Longrightarrow>
    ct ht + length xs < B * hsize ht \<Longrightarrow>
    \<exists>ht' cs'. rehash_chain add ht b = Some ht' \<and> moved ht cs (set xs) ht' cs' \<and>
      up_to f (strip (mem ht)) (strip (mem ht'))"
proof (induction xs arbitrary: ht cs b)
  case Nil
  then show ?case using moved_empty up_to_refl by (subst rehash_chain.simps) auto
next
  case (Cons x xs)
  obtain n where n: "b = x" "x \<noteq> 0" "mem ht x = Some n" "hchain (mem ht) (hnext n) xs" using Cons.prems(3) by auto
  have nx: "x \<notin> members cs" "x \<notin> set xs" "\<And>a. a \<in> members cs \<Longrightarrow> \<not> same_key ht a (nam n)"
    using Cons.prems(4) n(3) by (auto simp: foreign_def hname_def)
  have "ct ht + 1 < B * hsize ht" using Cons.prems(5) by simp
  from addsD [OF A Cons.prems(1,2) n(3,2) nx(1,3) this] obtain h1 c1 where
    h1: "add ht (nam n) x = Some h1" "moved ht cs {x} h1 c1"
      "up_to f ((strip (mem ht))(x \<mapsto> n\<lparr>nam := nam n, hnext := 0\<rparr>)) (strip (mem h1))" by blast
  have "(strip (mem ht))(x \<mapsto> n\<lparr>nam := nam n, hnext := 0\<rparr>) = strip (mem ht)"
    using n(3) by (auto simp: strip_def fun_eq_iff)
  then have s1: "up_to f (strip (mem ht)) (strip (mem h1))" using h1(3) by simp
  have w1: "hwf h1 c1" "scan h1 = None" "members c1 = insert x (members cs)" "hsize ht \<le> hsize h1"
    using h1(2) Cons.prems(2) by (auto simp: moved_def same_rest_def)
  have off: "mem h1 a = mem ht a" if "a \<in> set xs" for a
    using that h1(2) Cons.prems(4) nx(2) by (auto simp: moved_def foreign_def)
  have c: "hchain (mem h1) (hnext n) xs" using n(4) hchain_cong [of xs "mem h1" "mem ht"] off by blast
  have f: "foreign h1 c1 xs" using foreign_step [OF T, of ht cs "[x]" xs h1 c1] Cons.prems(4) h1(2) s1 by simp
  have "ct h1 = ct ht + 1"
    using hwf_ct [OF w1(1)] hwf_ct [OF Cons.prems(1)] nx(1) w1(3) by (simp add: members_def)
  then have "ct h1 + length xs < B * hsize h1"
    using bound_mono [OF Cons.prems(5) w1(4)] by simp
  from Cons.IH [OF w1(1,2) c f this] obtain h2 c2 where
    h2: "rehash_chain add h1 (hnext n) = Some h2" "moved h1 c1 (set xs) h2 c2"
      "up_to f (strip (mem h1)) (strip (mem h2))" by blast
  have "moved ht cs (set (x # xs)) h2 c2" using moved_trans [OF h1(2) h2(2)] by simp
  moreover have "rehash_chain add ht b = Some h2"
    using n h1(1) h2(1) by (subst rehash_chain.simps) (simp add: node_def)
  ultimately show ?case using up_to_trans [OF T s1 h2(3)] by auto
qed

lemma rehash_all_spec:
  assumes T: "tame f" and A: "adds f add B"
  shows "hwf ht cs \<Longrightarrow> scan ht = None \<Longrightarrow> list_all2 (hchain (mem ht)) bs xss \<Longrightarrow> foreign ht cs (concat xss) \<Longrightarrow>
    ct ht + length (concat xss) < B * hsize ht \<Longrightarrow>
    \<exists>ht' cs'. rehash_all add ht bs = Some ht' \<and> moved ht cs (set (concat xss)) ht' cs' \<and>
      up_to f (strip (mem ht)) (strip (mem ht'))"
proof (induction xss arbitrary: ht cs bs)
  case Nil
  then show ?case using moved_empty up_to_refl by auto
next
  case (Cons xs xss)
  obtain b bs' where bs: "bs = b # bs'" "hchain (mem ht) b xs" "list_all2 (hchain (mem ht)) bs' xss"
    using Cons.prems(3) by (auto simp: list_all2_Cons2)
  have f1: "foreign ht cs xs" using Cons.prems(4) by (auto simp: foreign_def)
  have "ct ht + length xs < B * hsize ht" using Cons.prems(5) by simp
  from rehash_chain_spec [OF T A Cons.prems(1,2) bs(2) f1 this] obtain h1 c1 where
    h1: "rehash_chain add ht b = Some h1" "moved ht cs (set xs) h1 c1"
      "up_to f (strip (mem ht)) (strip (mem h1))" by blast
  have w1: "hwf h1 c1" "scan h1 = None" "members c1 = set xs \<union> members cs" "hsize ht \<le> hsize h1"
    using h1(2) Cons.prems(2) by (auto simp: moved_def same_rest_def)
  have off: "mem h1 a = mem ht a" if "a \<in> set (concat xss)" for a
  proof -
    have "a \<notin> members c1" using that Cons.prems(4) w1(3) unfolding foreign_def by auto
    then show ?thesis using h1(2) by (simp add: moved_def)
  qed
  have "list_all2 (hchain (mem h1)) bs' xss"
    using bs(3) off hchain_cong [of _ "mem h1" "mem ht"] by (auto simp: list_all2_conv_all_nth in_set_conv_nth) (metis nth_mem)
  moreover have "foreign h1 c1 (concat xss)"
    using foreign_step [OF T, of ht cs xs "concat xss" h1 c1] Cons.prems(4) h1(2,3) by simp
  moreover have "ct h1 = ct ht + length xs"
    using hwf_ct [OF w1(1)] hwf_ct [OF Cons.prems(1)] f1 w1(3)
    by (simp add: foreign_def members_def card_Un_disjoint distinct_card)
  then have "ct h1 + length (concat xss) < B * hsize h1"
    using bound_mono [OF Cons.prems(5) w1(4)] by simp
  ultimately obtain h2 c2 where h2: "rehash_all add h1 bs' = Some h2" "moved h1 c1 (set (concat xss)) h2 c2"
    "up_to f (strip (mem h1)) (strip (mem h2))" using Cons.IH [OF w1(1,2)] by blast
  have "moved ht cs (set (concat (xs # xss))) h2 c2" using moved_trans [OF h1(2) h2(2)] by simp
  then show ?case using bs(1) h1(1) h2(1) up_to_trans [OF T h1(3) h2(3)] by auto
qed

section \<open>Expansion\<close>

lemma key_ok_refl: "hwf ht cs \<Longrightarrow> same_key ht a (hname (mem ht) a)"
  using key_okD(1) [OF hwfD(1)] by (simp add: same_key_def)

lemma empty_hwf:
  "key_ok (hash ht) (cmpnodes ht) \<Longrightarrow> 0 < hsize ht \<Longrightarrow> nodes ht = replicate (hsize ht) 0 \<Longrightarrow> ct ht = 0 \<Longrightarrow>
   hwf ht (replicate (hsize ht) []) \<and> members (replicate (hsize ht) []) = {}"
  by (auto simp: hwf_def bucket_ok_def members_def)

lemma expandhashtable_spec:
  assumes T: "tame f" and A: "adds f add B" and w: "hwf ht cs" and sc: "scan ht = None" and c: "ct ht < B * (hsize ht * 4)"
  shows "\<exists>ht' cs'. expandhashtable add ht = Some ht' \<and> moved ht cs {} ht' cs' \<and>
    up_to f (strip (mem ht)) (strip (mem ht'))"
proof -
  let ?h = "ht\<lparr>hsize := hsize ht * 4, nodes := replicate (hsize ht * 4) 0, nodesid := nodesid ht + 1, ct := 0\<rparr>"
  let ?c = "replicate (hsize ?h) []"
  have e: "hwf ?h ?c" "members ?c = {}" using empty_hwf [of ?h] hwfD(1,2) [OF w] by simp_all
  have ids: "hname (mem ?h) a = hname (mem ht) a" "same_key ?h a s = same_key ht a s" for a s
    by (simp_all add: same_key_def)
  have l: "list_all2 (hchain (mem ?h)) (nodes ht) cs"
    using hwfD(3,4,7) [OF w] by (simp add: list_all2_conv_all_nth)
  have f: "foreign ?h ?c (concat cs)"
    unfolding foreign_def ids e(2)
    using hwf_distinct [OF w] hwf_keys [OF w] key_ok_refl [OF w] by (auto simp: members_def)
  have "length (concat cs) = ct ht" using hwfD(5) [OF w] by (simp add: length_concat)
  then have "ct ?h + length (concat cs) < B * hsize ?h" using c by simp
  from rehash_all_spec [OF T A e(1) _ l f this] sc obtain h' c' where
    h': "rehash_all add ?h (nodes ht) = Some h'" "moved ?h ?c (members cs) h' c'"
    "up_to f (strip (mem ht)) (strip (mem h'))"
    by (auto simp: members_def)
  have "moved ht cs {} h' c'" using h'(2) e(2) by (simp add: moved_def same_rest_def)
  with h' show ?thesis by (auto simp: expandhashtable_def Let_def)
qed

lemma count_up_spec:
  assumes T: "tame f" and A: "adds f add B" and w: "hwf (ht\<lparr>ct := ct ht + 1\<rparr>) cs"
    and c: "scan ht = None \<Longrightarrow> ct ht + 1 < max 2 (4 * B) * hsize ht"
  shows "\<exists>ht' cs'. count_up add ht = Some ht' \<and> moved (ht\<lparr>ct := ct ht + 1\<rparr>) cs {} ht' cs' \<and>
    up_to f (strip (mem ht)) (strip (mem ht'))"
proof (cases "hsize ht * 2 \<le> ct ht + 1 \<and> scan ht = None")
  case True
  let ?h = "ht\<lparr>ct := ct ht + 1\<rparr>"
  have "ct ht + 1 < 4 * B * hsize ht" using True c by (cases "4 * B \<le> 2") (auto simp: max_def split: if_splits)
  then have "ct ?h < B * (hsize ?h * 4)" by (simp add: algebra_simps)
  then show ?thesis using expandhashtable_spec [OF T A w] True by (simp add: count_up_def Let_def)
next
  case False
  then show ?thesis using moved_empty [OF w] up_to_refl [of f "strip (mem ht)"] by (auto simp: count_up_def Let_def)
qed

text \<open>How deep expansions may nest in one addition: each one allows four times the nodes.\<close>

fun bnd :: "nat \<Rightarrow> nat" where
  "bnd 0 = 0"
| "bnd (Suc k) = max 2 (4 * bnd k)"

lemma bnd_gt: "k < bnd (Suc k)"
  by (induction k) auto

text \<open>What an addition does: \<open>old\<close> is the node that had the name, or NULL.\<close>

definition added :: "('v hnode \<Rightarrow> 'v hnode) \<Rightarrow> 'v htab \<Rightarrow> addr list list \<Rightarrow> string \<Rightarrow> addr \<Rightarrow> addr \<Rightarrow> 'v htab \<Rightarrow> addr list list \<Rightarrow> bool" where
  "added f ht cs nm hn old ht' cs' \<longleftrightarrow> hwf ht' cs' \<and> gethashnode2 ht nm = Some old \<and>
     members cs' = insert hn (members cs - {old}) \<and>
     up_to f ((strip (mem ht))(hn \<mapsto> (the (mem ht hn))\<lparr>nam := nm, hnext := 0\<rparr>)) (strip (mem ht')) \<and>
     (old \<noteq> 0 \<longrightarrow> strip (mem ht') = (strip (mem ht))(hn \<mapsto> (the (mem ht hn))\<lparr>nam := nm, hnext := 0\<rparr>)) \<and>
     hash ht' = hash ht \<and> cmpnodes ht' = cmpnodes ht \<and> freed ht' = freed ht \<and> scan ht' = scan ht \<and>
     length (stats ht') = length (stats ht) \<and> (scan ht = None \<longrightarrow> stats ht' = stats ht) \<and> hsize ht \<le> hsize ht' \<and>
     (\<forall>a. a \<notin> insert hn (members cs) \<longrightarrow> mem ht' a = mem ht a) \<and> (old \<noteq> 0 \<longrightarrow> mem ht' old = mem ht old)"

definition scan_ok :: "'v htab \<Rightarrow> bool" where
  "scan_ok ht \<longleftrightarrow> (\<forall>d. scan ht = Some d \<longrightarrow> d < length (stats ht))"

lemma upd_scan_ok:
  assumes "scan_ok ht"
  shows "upd_scan f ht = Some (ht\<lparr>stats := (case scan ht of None \<Rightarrow> stats ht | Some d \<Rightarrow> (stats ht)[d := f (stats ht ! d)])\<rparr>)"
  using assms by (auto simp: upd_scan_def scan_ok_def split: option.splits)

lemma hwf_stats: "hwf (ht\<lparr>stats := st\<rparr>) cs = hwf ht cs"
  by (simp add: hwf_def bucket_ok_def idx_def same_key_def)

lemma addhashnode2_spec:
  assumes T: "tame f" and A: "adds f add B" and w: "hwf ht cs" and hn: "mem ht hn = Some n0" "hn \<noteq> 0" "hn \<notin> members cs"
    and c: "scan ht = None \<Longrightarrow> ct ht + 1 < max 2 (4 * B) * hsize ht" and so: "scan_ok ht"
  shows "\<exists>old ht' cs'. addhashnode2 add ht nm hn = Some (old, ht') \<and> added f ht cs nm hn old ht' cs'"
proof (cases "\<exists>x\<in>members cs. same_key ht x nm")
  case False
  let ?i = "unat (hash ht nm) mod hsize ht"
  let ?l = "link_front ht n0 nm hn" and ?c = "cs[?i := hn # cs ! ?i]"
  have miss: "\<And>a. a \<in> members cs \<Longrightarrow> \<not> same_key ht a nm" using False by blast
  have lf: "ct ?l = ct ht" "scan ?l = scan ht" "hsize ?l = hsize ht" "hash ?l = hash ht" "cmpnodes ?l = cmpnodes ht"
    "stats ?l = stats ht" "freed ?l = freed ht" "mem ?l = (mem ht)(hn \<mapsto> n0\<lparr>nam := nm, hnext := nodes ht ! ?i\<rparr>)"
    by (simp_all add: link_front_def Let_def)
  note L = link_front_hwf [OF w hn miss]
  have "hwf (?l\<lparr>ct := ct ?l + 1\<rparr>) ?c" using L(1) lf(1) by simp
  from count_up_spec [OF T A this] c obtain h' c' where
    h': "count_up add ?l = Some h'" "moved (?l\<lparr>ct := ct ?l + 1\<rparr>) ?c {} h' c'" "up_to f (strip (mem ?l)) (strip (mem h'))"
    unfolding lf(1-3) by blast
  have g: "gethashnode2 ht nm = Some 0" using hwf_get [OF w, of nm 0] False by simp
  have m: "members c' = insert hn (members cs)" using h'(2) L(2) by (simp add: moved_def)
  have "0 \<notin> members cs" using hwf_member [OF w] by blast
  moreover have "mem h' a = mem ht a" if "a \<notin> insert hn (members cs)" for a
  proof -
    have "a \<notin> members c'" using that unfolding m .
    then have "mem h' a = mem (?l\<lparr>ct := ct ?l + 1\<rparr>) a" using h'(2) unfolding moved_def by blast
    then show ?thesis using that by (simp add: lf)
  qed
  moreover have "members cs - {0} = members cs" using \<open>0 \<notin> members cs\<close> by blast
  moreover have "hwf h' c'" "same_rest ?l h'" "hsize ht \<le> hsize h'"
    using h'(2) lf(3) unfolding moved_def same_rest_def by simp_all
  ultimately have "added f ht cs nm hn 0 h' c'"
    using h'(3) g hn(1) unfolding added_def same_rest_def m lf strip_fun_upd by simp
  then show ?thesis using h'(1) add_miss [OF w hn miss, of add] by auto
next
  case True
  then obtain x where x: "x \<in> members cs" "same_key ht x nm" by blast
  let ?i = "unat (hash ht nm) mod hsize ht"
  obtain us vs where s: "cs ! ?i = us @ x # vs" "x \<notin> set us" using bucket_split [OF w x] by metis
  let ?l = "link_replace ht n0 nm hn us x" and ?c = "cs[?i := us @ hn # vs]"
  note L = link_replace_hwf [OF w hn x s(1)]
  have lf: "scan ?l = scan ht" "hsize ?l = hsize ht" "hash ?l = hash ht" "cmpnodes ?l = cmpnodes ht"
    "stats ?l = stats ht" "freed ?l = freed ht" by (simp_all add: link_replace_def Let_def)
  have so': "scan_ok ?l" using so lf by (simp add: scan_ok_def)
  have g: "gethashnode2 ht nm = Some x" using hwf_get [OF w, of nm x] x by auto
  have us: "u \<in> members cs" if "u \<in> set us" for u
    using that hwf_in_bucket [OF w idx_bound [OF w], of u nm] s by simp
  let ?h = "?l\<lparr>stats := (case scan ?l of None \<Rightarrow> stats ?l
      | Some d \<Rightarrow> (stats ?l)[d := scan_replace x hn (stats ?l ! d)])\<rparr>"
  have xm: "mem ?l x = mem ht x" using L(4) [of x] x(1) hn(3) s(2) by metis
  have "up_to f ((strip (mem ht))(hn \<mapsto> n0\<lparr>nam := nm, hnext := 0\<rparr>)) (strip (mem ?h))"
    using L(3) up_to_refl by simp
  then have "added f ht cs nm hn x ?h ?c"
    unfolding added_def using L(1-3) L(4) xm g hn(1,3) x(1) s(2) us
    by (auto simp: hwf_stats lf split: option.splits)
  then show ?thesis using add_hit [OF w hn x s(1), of add] upd_scan_ok [OF so'] by auto
qed

lemma hwf_drop:
  assumes w: "hwf ht cs" and a: "a \<notin> members cs"
  shows "hwf (ht\<lparr>mem := (mem ht)(a := None), freed := fr\<rparr>) cs"
proof -
  let ?h = "ht\<lparr>mem := (mem ht)(a := None), freed := fr\<rparr>"
  have "bucket_ok ?h i (cs ! i)" if i: "i < hsize ht" for i
    using hn_fresh [OF w a i] by (intro bucket_ok_cong [OF hwfD(6) [OF w i]]) auto
  then show ?thesis using w by (simp add: hwf_def)
qed

text \<open>What \<open>addhashnode\<close> does: it also frees the node it replaced.\<close>

definition stored :: "'v htab \<Rightarrow> addr list list \<Rightarrow> string \<Rightarrow> addr \<Rightarrow> addr \<Rightarrow> 'v htab \<Rightarrow> addr list list \<Rightarrow> bool" where
  "stored ht cs nm hn old ht' cs' \<longleftrightarrow> hwf ht' cs' \<and> gethashnode2 ht nm = Some old \<and>
     members cs' = insert hn (members cs - {old}) \<and>
     (\<forall>a. a \<noteq> old \<or> old = 0 \<longrightarrow> strip (mem ht') a = ((strip (mem ht))(hn \<mapsto> (the (mem ht hn))\<lparr>nam := nm, hnext := 0\<rparr>)) a) \<and>
     hash ht' = hash ht \<and> cmpnodes ht' = cmpnodes ht \<and> scan ht' = scan ht \<and>
     freed ht' = freed ht @ (if old = 0 then [] else [old]) \<and>
     length (stats ht') = length (stats ht) \<and> (scan ht = None \<longrightarrow> stats ht' = stats ht) \<and> hsize ht \<le> hsize ht' \<and>
     (\<forall>a. a \<notin> insert hn (members cs) \<longrightarrow> mem ht' a = mem ht a) \<and> (old \<noteq> 0 \<longrightarrow> mem ht' old = None)"

lemma addhashnode_step:
  fixes ht :: "'v htab"
  assumes A: "adds (\<lambda>n. n) (addhashnode k :: 'v htab \<Rightarrow> string \<Rightarrow> addr \<Rightarrow> 'v htab option) B" and w: "hwf ht cs" and hn: "mem ht hn = Some n0" "hn \<noteq> 0" "hn \<notin> members cs"
    and c: "scan ht = None \<Longrightarrow> ct ht + 1 < max 2 (4 * B) * hsize ht" and so: "scan_ok ht"
  shows "\<exists>old ht' cs'. addhashnode (Suc k) ht nm hn = Some ht' \<and> stored ht cs nm hn old ht' cs'"
proof -
  from addhashnode2_spec [OF tame_id A w hn c so, of nm] obtain old h1 c1 where
    h1: "addhashnode2 (addhashnode k) ht nm hn = Some (old, h1)" "added (\<lambda>n. n) ht cs nm hn old h1 c1" by blast
  note a = h1(2) [unfolded added_def up_to_id]
  show ?thesis
  proof (cases "old = 0")
    case True
    then have "stored ht cs nm hn old h1 c1" using a by (simp add: stored_def)
    with h1(1) True show ?thesis by auto
  next
    case False
    have om: "old \<in> members cs" using a False hwf_get [OF w, of nm old] by (auto split: if_splits)
    then obtain n where n: "mem h1 old = Some n" using hwf_member [OF w om] a False by auto
    have nc: "old \<notin> members c1" using a om hn(3) by auto
    let ?h = "h1\<lparr>mem := (mem h1)(old := None), freed := freed h1 @ [old]\<rparr>"
    have st: "strip (mem ?h) b = strip (mem h1) b" if "b \<noteq> old" for b using that by (simp add: strip_def)
    have "stored ht cs nm hn old ?h c1"
      unfolding stored_def using a hwf_drop [OF _ nc, of h1] False om st by (simp add: strip_def)
    moreover have "addhashnode (Suc k) ht nm hn = Some ?h"
      using h1(1) False n by (simp add: freenode_def node_def)
    ultimately show ?thesis by blast
  qed
qed

lemma adds_addhashnode: "adds (\<lambda>n. n) (addhashnode k :: 'v htab \<Rightarrow> string \<Rightarrow> addr \<Rightarrow> 'v htab option) (bnd k)"
proof (induction k)
  case 0
  show ?case by (simp add: adds_def)
next
  case (Suc k)
  show ?case
    unfolding adds_def up_to_id
  proof (intro allI impI)
    fix ht :: "'v htab" and cs nm hn n0
    assume p: "hwf ht cs" "scan ht = None" "mem ht hn = Some n0" "hn \<noteq> 0" "hn \<notin> members cs"
      "\<forall>a\<in>members cs. \<not> same_key ht a nm" "ct ht + 1 < bnd (Suc k) * hsize ht"
    have c: "ct ht + 1 < max 2 (4 * bnd k) * hsize ht" using p(7) by simp
    have so: "scan_ok ht" using p(2) by (simp add: scan_ok_def)
    from addhashnode_step [OF Suc p(1,3-5) c so, of nm] obtain old h' c' where
      h': "addhashnode (Suc k) ht nm hn = Some h'" "stored ht cs nm hn old h' c'" by blast
    have "gethashnode2 ht nm = Some 0" using hwf_get [OF p(1), of nm 0] p(6) by auto
    then have o: "old = 0" using h'(2) by (simp add: stored_def)
    have z: "members cs - {0} = members cs" using hwf_member [OF p(1)] by blast
    have m: "members c' = insert hn (members cs)" using h'(2) z unfolding stored_def o by simp
    have "moved ht cs {hn} h' c'"
      using h'(2) p(2) m unfolding stored_def moved_def same_rest_def o by auto
    moreover have "strip (mem h') = (strip (mem ht))(hn \<mapsto> n0\<lparr>nam := nm, hnext := 0\<rparr>)"
      using h'(2) p(3) unfolding stored_def o by (intro ext) simp
    ultimately show "\<exists>ht' cs'. addhashnode (Suc k) ht nm hn = Some ht' \<and> moved ht cs {hn} ht' cs' \<and>
        strip (mem ht') = (strip (mem ht))(hn \<mapsto> n0\<lparr>nam := nm, hnext := 0\<rparr>)"
      using h'(1) by blast
  qed
qed

text \<open>Enough depth: one more than the nodes the table will have.\<close>

lemma addhashnode_spec:
  assumes w: "hwf ht cs" and hn: "mem ht hn = Some n0" "hn \<noteq> 0" "hn \<notin> members cs"
    and so: "scan_ok ht" and k: "ct ht + 1 < k"
  shows "\<exists>old ht' cs'. addhashnode k ht nm hn = Some ht' \<and> stored ht cs nm hn old ht' cs'"
proof -
  obtain j where j: "k = Suc j" "ct ht + 1 \<le> j" using k by (cases k) auto
  have "ct ht + 1 < bnd (Suc j)" using bnd_gt [of j] j by linarith
  also have "\<dots> \<le> bnd (Suc j) * hsize ht" using hwfD(2) [OF w] by (cases "hsize ht") simp_all
  finally have "ct ht + 1 < max 2 (4 * bnd j) * hsize ht" by simp
  from addhashnode_step [OF adds_addhashnode w hn this so] j show ?thesis by blast
qed

text \<open>
  Lookups after an addition that left the node \<open>w\<close> with the name, in place of \<open>old\<close>.
\<close>

lemma winner_get:
  assumes w: "hwf ht cs" and w': "hwf ht' cs'" and m: "members cs' = insert x (members cs - {old})"
    and g: "gethashnode2 ht nm = Some old" and c: "cmpnodes ht' = cmpnodes ht"
    and nx: "cmpnodes ht nm (hname (mem ht') x) = 0"
    and on: "\<And>a. a \<in> members cs \<Longrightarrow> a \<noteq> old \<Longrightarrow> hname (mem ht') a = hname (mem ht) a"
  shows "gethashnode2 ht' s = (if cmpnodes ht nm s = 0 then Some x else gethashnode2 ht s)"
proof -
  note K = key_okD [OF hwfD(1) [OF w]]
  have k: "same_key ht' x s \<longleftrightarrow> cmpnodes ht nm s = 0"
    "a \<in> members cs \<Longrightarrow> a \<noteq> old \<Longrightarrow> same_key ht' a s = same_key ht a s" for a
    using K(2,3) nx on c unfolding same_key_def by metis+
  show ?thesis
  proof (cases "cmpnodes ht nm s = 0")
    case True
    then have "same_key ht' x s" "x \<in> members cs'" using k m by auto
    then have "gethashnode2 ht' s = Some x" using hwf_get [OF w', of s x] by auto
    with True show ?thesis by simp
  next
    case False
    have ok: "same_key ht old s \<Longrightarrow> old \<notin> members cs"
    proof
      assume a: "same_key ht old s" "old \<in> members cs"
      have "same_key ht old nm" using g a(2) hwf_get [OF w, of nm old] hwf_member [OF w a(2)]
        by (auto split: if_splits)
      with a(1) have "cmpnodes ht nm s = 0" unfolding same_key_def using K(2,3) by blast
      with False show False by simp
    qed
    obtain r where r: "gethashnode2 ht s = Some r"
      "if \<exists>a\<in>members cs. same_key ht a s then r \<in> members cs \<and> same_key ht r s else r = 0"
      using hwf_get [OF w, of s] by (metis (full_types))
    have "if \<exists>a\<in>members cs'. same_key ht' a s then r \<in> members cs' \<and> same_key ht' r s else r = 0"
    proof (cases "\<exists>a\<in>members cs. same_key ht a s")
      case True
      then have "r \<in> members cs" "same_key ht r s" "r \<noteq> old" using r(2) ok by auto
      then have "r \<in> members cs'" "same_key ht' r s" using m k(2) by auto
      then show ?thesis by auto
    next
      case no: False
      then have "\<not> (\<exists>a\<in>members cs'. same_key ht' a s)" using m k False by auto
      with no r(2) show ?thesis by simp
    qed
    then show ?thesis using hwf_get [OF w', of s r] r(1) False by simp
  qed
qed

lemma stored_get:
  assumes w: "hwf ht cs" and s: "stored ht cs nm hn old ht' cs'" and hn: "hn \<notin> members cs" "hn \<noteq> 0"
  shows "gethashnode2 ht' s = (if cmpnodes ht nm s = 0 then Some hn else gethashnode2 ht s)"
proof (rule winner_get [OF w])
  show "hwf ht' cs'" "members cs' = insert hn (members cs - {old})" "cmpnodes ht' = cmpnodes ht"
    "gethashnode2 ht nm = Some old" using s by (simp_all add: stored_def)
  have "hn \<noteq> old \<or> old = 0" using hn s hwf_get [OF w, of nm old] by (auto simp: stored_def split: if_splits)
  then have e: "strip (mem ht') hn = Some ((the (mem ht hn))\<lparr>nam := nm, hnext := 0\<rparr>)" using s unfolding stored_def by auto
  then obtain n where "mem ht' hn = Some n" by (auto simp: strip_def)
  then have "hname (mem ht') hn = nm"
    using arg_cong [OF e, of "\<lambda>x. nam (the x)"] by (simp add: strip_def hname_def)
  then show "cmpnodes ht nm (hname (mem ht') hn) = 0" using key_okD(1) [OF hwfD(1) [OF w]] by simp
  show "hname (mem ht') a = hname (mem ht) a" if "a \<in> members cs" "a \<noteq> old" for a
  proof -
    have "a \<noteq> hn" using that hn by auto
    then have "strip (mem ht') a = strip (mem ht) a" using s that unfolding stored_def by auto
    then show ?thesis by (rule hname_strip)
  qed
qed

end
