(* ===== verification/HashTable_Remove.thy ===== *)
theory HashTable_Remove
  imports HashTable_Expand
begin

text \<open>
  Removal, the DISABLED flag and emptying of a hash table, and the dictionary contract of
  the tables as a locale, interpreted on them.
\<close>

section \<open>Removal\<close>

lemma unlinked_chain:
  assumes c: "hchain (mem ht) b0 (us @ x # vs)"
    and d: "distinct us" "set us \<inter> set vs = {}"
  shows "hchain (relinked ht us (hnext (the (mem ht x)))) (if us = [] then hnext (the (mem ht x)) else b0) (us @ vs)"
proof -
  have v: "hchain (mem ht) (hnext (the (mem ht x))) vs" using hchain_next [OF c] .
  show ?thesis
  proof (cases us rule: rev_cases)
    case Nil
    then show ?thesis using v by (simp add: relinked_def)
  next
    case (snoc ys y)
    then have "hchain (mem ht) b0 (ys @ y # x # vs)" "y \<notin> set ys" "y \<notin> set vs" using c d by auto
    from hchain_relink [OF this(1,2) v this(3)] show ?thesis using snoc by (simp add: relinked_def)
  qed
qed

definition unlink :: "'v htab \<Rightarrow> string \<Rightarrow> addr list \<Rightarrow> addr \<Rightarrow> 'v htab" where
  "unlink ht nm us x = (let i = unat (hash ht nm) mod hsize ht; nxt = hnext (the (mem ht x)) in
     ht\<lparr>mem := relinked ht us nxt, nodes := (if us = [] then (nodes ht)[i := nxt] else nodes ht),
        ct := ct ht - 1\<rparr>)"

lemma unlink_hwf:
  assumes w: "hwf ht cs" and x: "x \<in> members cs" "same_key ht x nm"
    and s: "cs ! (unat (hash ht nm) mod hsize ht) = us @ x # vs"
  defines "i \<equiv> unat (hash ht nm) mod hsize ht" and "ht' \<equiv> unlink ht nm us x"
  shows "hwf ht' (cs[i := us @ vs])" "members (cs[i := us @ vs]) = members cs - {x}"
    "strip (mem ht') = strip (mem ht)" "\<And>a. a \<notin> set us \<Longrightarrow> mem ht' a = mem ht a"
proof -
  have i: "i < hsize ht" using idx_bound [OF w] by (simp add: i_def)
  have s: "cs ! i = us @ x # vs" using s by (simp add: i_def)
  have d: "distinct (us @ x # vs)" using hwfD(8) [OF w i] s by simp
  have ln: "length (nodes ht) = hsize ht" using hwfD(3) [OF w] .
  have me: "mem ht' = relinked ht us (hnext (the (mem ht x)))" "hash ht' = hash ht" "cmpnodes ht' = cmpnodes ht"
    "hsize ht' = hsize ht" "ct ht' = ct ht - 1"
    "nodes ht' = (nodes ht)[i := (if us = [] then hnext (the (mem ht x)) else nodes ht ! i)]"
    by (simp_all add: ht'_def unlink_def Let_def i_def)
  have al: "u \<noteq> 0 \<and> (\<exists>n. mem ht u = Some n)" if "u \<in> set (us @ x # vs)" for u
    using hchain_mem [OF hwfD(7) [OF w i], of u] that s by simp
  show st: "strip (mem ht') = strip (mem ht)"
  proof -
    have "mem ht u \<noteq> None" if "u \<in> set us" for u using al [of u] that by auto
    then show ?thesis unfolding me by (rule strip_relinked)
  qed
  have na: "hname (mem ht') a = hname (mem ht) a" for a using hname_strip st by metis
  show off: "\<And>a. a \<notin> set us \<Longrightarrow> mem ht' a = mem ht a" unfolding me by (rule relinked_off)
  have ch: "hchain (mem ht') (nodes ht' ! i) (us @ vs)"
  proof -
    have "hchain (mem ht) (nodes ht ! i) (us @ x # vs)" "distinct us" "set us \<inter> set vs = {}"
      using hwfD(7) [OF w i] s d by simp_all
    from unlinked_chain [OF this] show ?thesis unfolding me(1,6) using i ln by simp
  qed
  have sub: "a \<in> set (cs ! i)" if "a \<in> set (us @ vs)" for a using that s by auto
  have "idx ht' a = idx ht a" "same_key ht' a t = same_key ht a t" for a t
    unfolding idx_def same_key_def na me(2-4) by simp_all
  then have bo: "bucket_ok ht' i (us @ vs)"
    using hwfD(6) [OF w i] sub ch d unfolding bucket_ok_def na by simp
  have "length (cs ! i) \<le> ct ht"
    using hwfD(4,5) [OF w] i member_le_sum_list [of "length (cs ! i)" "map length cs"] by simp
  then have c: "ct ht' + length (cs ! i) = ct ht + length (us @ vs)" using s by (simp add: me(5))
  show "hwf ht' (cs[i := us @ vs])"
  proof (rule hwf_bucket [OF w i me(2-4,6) _ c bo])
    show "mem ht' a = mem ht a" if "j < hsize ht" "j \<noteq> i" "a \<in> set (cs ! j)" for j a
      using that hwfD(9) [OF w that(1,3)] hwfD(9) [OF w i, of a] s by (intro off) auto
  qed
  show "members (cs[i := us @ vs]) = members cs - {x}"
    using members_update [OF w i, of "us @ vs"] hwf_in_bucket [OF w i] s d by auto
qed

lemma remove_hit:
  assumes w: "hwf ht cs" and x: "x \<in> members cs" "same_key ht x nm"
    and s: "cs ! (unat (hash ht nm) mod hsize ht) = us @ x # vs"
  shows "removehashnode ht nm =
    do { h \<leftarrow> upd_scan (scan_remove x (hnext (the (mem ht x)))) (unlink ht nm us x); Some (x, h) }"
proof -
  define i where "i = unat (hash ht nm) mod hsize ht"
  have i: "i < hsize ht" using idx_bound [OF w] by (simp add: i_def)
  have ln: "length (nodes ht) = hsize ht" using hwfD(3) [OF w] .
  have s: "cs ! i = us @ x # vs" using s by (simp add: i_def)
  have hi: "hashidx ht nm = Some i" using hashidx_simp [OF w] by (simp add: i_def)
  have gb: "get_bucket ht i = Some (nodes ht ! i)" using i ln by (simp add: get_bucket_def)
  have ch: "hchain (mem ht) (nodes ht ! i) (us @ x # vs)" using hwfD(7) [OF w i] s by simp
  have d: "distinct (us @ x # vs)" using hwfD(8) [OF w i] s by simp
  have cx: "cmpnodes ht (hname (mem ht) x) nm = 0" using x(2) by (simp add: same_key_def)
  have cu: "cmpnodes ht (hname (mem ht) u) nm \<noteq> 0" if "u \<in> set us" for u
  proof
    assume "cmpnodes ht (hname (mem ht) u) nm = 0"
    then have "same_key ht u nm" by (simp add: same_key_def)
    moreover have "u \<in> members cs" using that hwf_in_bucket [OF w i, of u] s by simp
    ultimately show False using hwf_keys [OF w, of u x nm] x d that by auto
  qed
  obtain nx where nx: "mem ht x = Some nx" "x \<noteq> 0" using hchain_mem [OF ch, of x] by auto
  show ?thesis
  proof (cases us)
    case Nil
    then have "nodes ht ! i = x" "cmpnodes ht (nam nx) nm = 0" using ch cx nx by (simp_all add: hname_def)
    then show ?thesis
      unfolding removehashnode_def hi bind.bind_lunit gb
      using nx Nil i ln by (simp add: node_def set_bucket_def gotit_def unlink_def Let_def i_def relinked_def)
  next
    case (Cons y ys)
    then obtain n where n: "nodes ht ! i = y" "y \<noteq> 0" "mem ht y = Some n" "hchain (mem ht) (hnext n) (ys @ x # vs)"
      using ch by auto
    have cy: "cmpnodes ht (nam n) nm \<noteq> 0" using cu [of y] Cons n(3) by (simp add: hname_def)
    have wk: "walk ht nm y (hnext n) = Some (last us, x)" using walk_hit [OF n(4) _ cx, of y] cu Cons by simp
    have q: "last us \<in> set us" "us \<noteq> []" using Cons by auto
    then obtain nq where nq: "mem ht (last us) = Some nq" "last us \<noteq> 0" "last us \<noteq> x"
      using hchain_mem [OF ch, of "last us"] d by fastforce
    show ?thesis
      unfolding removehashnode_def hi bind.bind_lunit gb
      using n(1-3) cy wk nx nq q(2)
      by (simp add: node_def set_hnext_def upd_node_def gotit_def unlink_def Let_def relinked_def)
  qed
qed

lemma remove_miss:
  assumes w: "hwf ht cs" and miss: "\<And>a. a \<in> members cs \<Longrightarrow> \<not> same_key ht a nm"
  shows "removehashnode ht nm = Some (0, ht)"
proof -
  define i where "i = unat (hash ht nm) mod hsize ht"
  have i: "i < hsize ht" using idx_bound [OF w] by (simp add: i_def)
  have hi: "hashidx ht nm = Some i" using hashidx_simp [OF w] by (simp add: i_def)
  have gb: "get_bucket ht i = Some (nodes ht ! i)" using i hwfD(3) [OF w] by (simp add: get_bucket_def)
  have ch: "hchain (mem ht) (nodes ht ! i) (cs ! i)" using hwfD(7) [OF w i] .
  have m: "cmpnodes ht (hname (mem ht) a) nm \<noteq> 0" if "a \<in> set (cs ! i)" for a
    using miss [of a] that hwf_in_bucket [OF w i, of a] by (simp add: same_key_def)
  show ?thesis
  proof (cases "cs ! i")
    case Nil
    then show ?thesis using hi gb ch by (simp add: removehashnode_def)
  next
    case (Cons y ys)
    then obtain n where n: "nodes ht ! i = y" "y \<noteq> 0" "mem ht y = Some n" "hchain (mem ht) (hnext n) ys"
      using ch by auto
    have "walk ht nm y (hnext n) = Some (last (y # ys), 0)" using walk_miss [OF n(4), of nm y] m Cons by simp
    moreover have "cmpnodes ht (nam n) nm \<noteq> 0" using m [of y] Cons n(3) by (simp add: hname_def)
    ultimately show ?thesis using hi gb n by (simp add: removehashnode_def node_def)
  qed
qed

text \<open>What a removal does: \<open>old\<close> is the node removed, or NULL.\<close>

definition removed :: "'v htab \<Rightarrow> addr list list \<Rightarrow> string \<Rightarrow> addr \<Rightarrow> 'v htab \<Rightarrow> addr list list \<Rightarrow> bool" where
  "removed ht cs nm old ht' cs' \<longleftrightarrow> hwf ht' cs' \<and> gethashnode2 ht nm = Some old \<and>
     members cs' = members cs - {old} \<and> strip (mem ht') = strip (mem ht) \<and> hsize ht' = hsize ht \<and>
     hash ht' = hash ht \<and> cmpnodes ht' = cmpnodes ht \<and> freed ht' = freed ht \<and> scan ht' = scan ht \<and>
     length (stats ht') = length (stats ht) \<and> (scan ht = None \<longrightarrow> stats ht' = stats ht) \<and>
     (\<forall>a. a \<notin> members cs \<or> a = old \<longrightarrow> mem ht' a = mem ht a)"

lemma removehashnode_spec:
  assumes w: "hwf ht cs" and so: "scan_ok ht"
  shows "\<exists>old ht' cs'. removehashnode ht nm = Some (old, ht') \<and> removed ht cs nm old ht' cs'"
proof (cases "\<exists>x\<in>members cs. same_key ht x nm")
  case False
  have "members cs - {0} = members cs" using hwf_member [OF w] by blast
  then have "removed ht cs nm 0 ht cs" using w hwf_get [OF w, of nm 0] False by (simp add: removed_def)
  then show ?thesis using remove_miss [OF w, of nm] False by blast
next
  case True
  then obtain x where x: "x \<in> members cs" "same_key ht x nm" by blast
  let ?i = "unat (hash ht nm) mod hsize ht"
  obtain us vs where s: "cs ! ?i = us @ x # vs" "x \<notin> set us" using bucket_split [OF w x] by metis
  let ?l = "unlink ht nm us x" and ?c = "cs[?i := us @ vs]"
  note L = unlink_hwf [OF w x s(1)]
  have lf: "scan ?l = scan ht" "hsize ?l = hsize ht" "hash ?l = hash ht" "cmpnodes ?l = cmpnodes ht"
    "stats ?l = stats ht" "freed ?l = freed ht" by (simp_all add: unlink_def Let_def)
  have so': "scan_ok ?l" using so lf by (simp add: scan_ok_def)
  have g: "gethashnode2 ht nm = Some x" using hwf_get [OF w, of nm x] x by auto
  have us: "u \<in> members cs" if "u \<in> set us" for u
    using that hwf_in_bucket [OF w idx_bound [OF w], of u nm] s by simp
  have off: "mem ?l a = mem ht a" if "a \<notin> members cs \<or> a = x" for a using L(4) [of a] that us s(2) by auto
  let ?h = "?l\<lparr>stats := (case scan ?l of None \<Rightarrow> stats ?l
      | Some d \<Rightarrow> (stats ?l)[d := scan_remove x (hnext (the (mem ht x))) (stats ?l ! d)])\<rparr>"
  have "removed ht cs nm x ?h ?c"
    unfolding removed_def using L(1-3) g off by (auto simp: hwf_stats lf split: option.splits)
  then show ?thesis using remove_hit [OF w x s(1)] upd_scan_ok [OF so'] by auto
qed

lemma removed_get:
  assumes w: "hwf ht cs" and r: "removed ht cs nm old ht' cs'"
  shows "gethashnode2 ht' s = (if cmpnodes ht nm s = 0 then Some 0 else gethashnode2 ht s)"
proof -
  have w': "hwf ht' cs'" and m: "members cs' = members cs - {old}" and c: "cmpnodes ht' = cmpnodes ht"
    and st: "strip (mem ht') = strip (mem ht)" and g: "gethashnode2 ht nm = Some old"
    using r by (simp_all add: removed_def)
  have k: "same_key ht' a t = same_key ht a t" for a t
    using hname_strip [of "mem ht'" a "mem ht"] st c by (simp add: same_key_def)
  note K = key_okD [OF hwfD(1) [OF w]]
  show ?thesis
  proof (cases "cmpnodes ht nm s = 0")
    case True
    have "\<not> same_key ht' a s" if "a \<in> members cs'" for a
    proof
      assume "same_key ht' a s"
      then have "same_key ht a s" unfolding k .
      then have "same_key ht a nm" using K(3) [OF _ K(2) [OF True]] unfolding same_key_def by blast
      then have "a = old" using g hwf_get [OF w, of nm old] hwf_keys [OF w, of a old nm] that m by (auto split: if_splits)
      with that m show False by simp
    qed
    then show ?thesis using hwf_get [OF w', of s 0] True by auto
  next
    case False
    obtain r where r: "gethashnode2 ht s = Some r"
      "if \<exists>a\<in>members cs. same_key ht a s then r \<in> members cs \<and> same_key ht r s else r = 0"
      using hwf_get [OF w, of s] by (metis (full_types))
    have ok: "old \<in> members cs \<Longrightarrow> \<not> same_key ht old s"
    proof
      assume a: "old \<in> members cs" "same_key ht old s"
      have "same_key ht old nm" using g a(1) hwf_get [OF w, of nm old] hwf_member [OF w a(1)] by (auto split: if_splits)
      with a(2) have "cmpnodes ht nm s = 0" unfolding same_key_def using K(2,3) by blast
      with False show False by simp
    qed
    have "if \<exists>a\<in>members cs'. same_key ht' a s then r \<in> members cs' \<and> same_key ht' r s else r = 0"
      using r(2) ok unfolding k m by (auto split: if_splits)
    then show ?thesis using hwf_get [OF w', of s r] r(1) False by simp
  qed
qed

section \<open>Flags\<close>

lemma gethashnode_spec:
  assumes w: "hwf ht cs"
  shows "\<exists>r. gethashnode2 ht s = Some r \<and> gethashnode ht s =
    Some (if r \<noteq> 0 \<and> flags (the (mem ht r)) AND DISABLED \<noteq> 0 then 0 else r)"
proof -
  let ?i = "unat (hash ht s) mod hsize ht"
  have i: "?i < hsize ht" using hwfD(2) [OF w] by simp
  obtain r where r: "gethashnode2 ht s = Some r" "r = 0 \<or> r \<in> members cs"
    using hwf_get [OF w, of s] by (metis (full_types))
  have "find_node ht s (nodes ht ! ?i) = Some r"
    using r(1) hashidx_simp [OF w] i hwfD(3) [OF w] by (simp add: gethashnode2_def get_bucket_def)
  moreover have "r \<noteq> 0 \<Longrightarrow> \<exists>n. node ht r = Some n \<and> mem ht r = Some n"
    using r(2) hwf_member [OF w, of r] by (auto simp: node_def)
  ultimately show ?thesis
    using r(1) hashidx_simp [OF w] i hwfD(3) [OF w] by (cases "r = 0") (auto simp: gethashnode_def get_bucket_def)
qed

text \<open>Changing the flags of a node leaves the table as it is.\<close>

lemma hwf_flags:
  assumes w: "hwf ht cs" and n: "mem ht a = Some n"
  shows "hwf (ht\<lparr>mem := (mem ht)(a \<mapsto> n\<lparr>flags := fl\<rparr>)\<rparr>) cs"
    and "gethashnode2 (ht\<lparr>mem := (mem ht)(a \<mapsto> n\<lparr>flags := fl\<rparr>)\<rparr>) s = gethashnode2 ht s"
proof -
  let ?h = "ht\<lparr>mem := (mem ht)(a \<mapsto> n\<lparr>flags := fl\<rparr>)\<rparr>"
  have hn: "hname ((mem ht)(a \<mapsto> n\<lparr>flags := fl\<rparr>)) b = hname (mem ht) b" for b using n by (simp add: hname_def)
  have k: "same_key ?h b t = same_key ht b t" "idx ?h b = idx ht b" for b t by (simp_all add: same_key_def idx_def hn)
  have c: "hchain (mem ?h) b xs = hchain (mem ht) b xs" for b xs
    by (induction xs arbitrary: b) (use n in auto)
  have bo: "bucket_ok ?h i xs = bucket_ok ht i xs" for i xs
    unfolding bucket_ok_def c k by (simp add: hn)
  show w': "hwf ?h cs" using w unfolding hwf_def bo by simp
  obtain r where r: "gethashnode2 ht s = Some r"
    "if \<exists>a\<in>members cs. same_key ht a s then r \<in> members cs \<and> same_key ht r s else r = 0"
    using hwf_get [OF w, of s] by (metis (full_types))
  then show "gethashnode2 ?h s = gethashnode2 ht s" using hwf_get [OF w', of s r] unfolding k by simp
qed

lemma disabled_bit: "((x :: 32 word) OR DISABLED) AND DISABLED \<noteq> 0" "(x AND NOT DISABLED) AND DISABLED = 0"
  by (simp_all add: DISABLED_def word_bw_assocs word_oa_dist word_ao_dist)

section \<open>Emptying\<close>

lemma free_chain_spec:
  "hchain (mem ht) a xs \<Longrightarrow> distinct xs \<Longrightarrow>
   free_chain ht a = Some (ht\<lparr>mem := (\<lambda>b. if b \<in> set xs then None else mem ht b), freed := freed ht @ xs\<rparr>)"
proof (induction xs arbitrary: a ht)
  case (Cons x xs)
  obtain n where n: "a = x" "x \<noteq> 0" "mem ht x = Some n" "hchain (mem ht) (hnext n) xs" using Cons.prems(1) by auto
  let ?h = "ht\<lparr>mem := (mem ht)(x := None), freed := freed ht @ [x]\<rparr>"
  have "free_chain ?h (hnext n) = Some (?h\<lparr>mem := (\<lambda>b. if b \<in> set xs then None else mem ?h b), freed := freed ?h @ xs\<rparr>)"
  proof (rule Cons.IH)
    show "hchain (mem ?h) (hnext n) xs" using n(4) Cons.prems(2) hchain_upd [of x xs "mem ht" None] by simp
  qed (use Cons.prems(2) in simp)
  moreover have "(\<lambda>b. if b \<in> set xs then None else mem ?h b) = (\<lambda>b. if b \<in> set (x # xs) then None else mem ht b)"
    by auto
  ultimately show ?case using n by (subst free_chain.simps) (simp add: node_def freenode_def)
qed (subst free_chain.simps, simp)

lemma free_all_spec:
  "list_all2 (hchain (mem ht)) bs xss \<Longrightarrow> distinct (concat xss) \<Longrightarrow>
   free_all ht bs = Some (ht\<lparr>mem := (\<lambda>b. if b \<in> set (concat xss) then None else mem ht b),
     freed := freed ht @ concat xss\<rparr>)"
proof (induction xss arbitrary: bs ht)
  case (Cons xs xss)
  obtain b bs' where bs: "bs = b # bs'" "hchain (mem ht) b xs" "list_all2 (hchain (mem ht)) bs' xss"
    using Cons.prems(1) by (auto simp: list_all2_Cons2)
  let ?h = "ht\<lparr>mem := (\<lambda>b. if b \<in> set xs then None else mem ht b), freed := freed ht @ xs\<rparr>"
  have f: "free_chain ht b = Some ?h" using free_chain_spec [OF bs(2)] Cons.prems(2) by simp
  have c: "hchain (mem ?h) d ds = hchain (mem ht) d ds" if "ds \<in> set xss" for d ds
    using that Cons.prems(2) by (intro hchain_cong) auto
  have "list_all2 (hchain (mem ?h)) bs' xss"
    using bs(3) c by (auto simp: list_all2_conv_all_nth)
  from Cons.IH [OF this] Cons.prems(2) have
    "free_all ?h bs' = Some (?h\<lparr>mem := (\<lambda>b. if b \<in> set (concat xss) then None else mem ?h b),
       freed := freed ?h @ concat xss\<rparr>)" by simp
  moreover have "(\<lambda>b. if b \<in> set (concat xss) then None else mem ?h b) =
      (\<lambda>b. if b \<in> set (concat (xs # xss)) then None else mem ht b)" by auto
  ultimately show ?case using bs(1) f by simp
qed simp

lemma emptyhashtable_spec:
  assumes w: "hwf ht cs"
  shows "emptyhashtable ht = Some (ht\<lparr>mem := (\<lambda>b. if b \<in> members cs then None else mem ht b),
      freed := freed ht @ concat cs, nodes := replicate (hsize ht) 0, ct := 0\<rparr>)"
    "hwf (ht\<lparr>mem := (\<lambda>b. if b \<in> members cs then None else mem ht b),
      freed := freed ht @ concat cs, nodes := replicate (hsize ht) 0, ct := 0\<rparr>) (replicate (hsize ht) [])"
proof -
  have l: "list_all2 (hchain (mem ht)) (nodes ht) cs"
    using hwfD(3,4,7) [OF w] by (simp add: list_all2_conv_all_nth)
  show "emptyhashtable ht = Some (ht\<lparr>mem := (\<lambda>b. if b \<in> members cs then None else mem ht b),
      freed := freed ht @ concat cs, nodes := replicate (hsize ht) 0, ct := 0\<rparr>)"
    unfolding emptyhashtable_def resizehashtable_def free_all_spec [OF l hwf_distinct [OF w]]
    by (simp add: members_def)
  show "hwf (ht\<lparr>mem := (\<lambda>b. if b \<in> members cs then None else mem ht b),
      freed := freed ht @ concat cs, nodes := replicate (hsize ht) 0, ct := 0\<rparr>) (replicate (hsize ht) [])"
    using empty_hwf [of "ht\<lparr>mem := (\<lambda>b. if b \<in> members cs then None else mem ht b),
      freed := freed ht @ concat cs, nodes := replicate (hsize ht) 0, ct := 0\<rparr>"] hwfD(1,2) [OF w] by simp
qed

section \<open>Dictionaries\<close>

text \<open>
  \<open>inv s N\<close>: the dictionary is well formed and holds the values of \<open>N\<close>; \<open>ready s v\<close>: the
  value \<open>v\<close> may be stored; \<open>nil\<close> is what a lookup gives for no value.
\<close>

locale dict =
  fixes inv :: "'s \<Rightarrow> 'v set \<Rightarrow> bool" and ready :: "'s \<Rightarrow> 'v \<Rightarrow> bool" and nil :: 'v
    and get :: "'s \<Rightarrow> 'k \<Rightarrow> 'v option" and put :: "'s \<Rightarrow> 'k \<Rightarrow> 'v \<Rightarrow> 's option"
    and del :: "'s \<Rightarrow> 'k \<Rightarrow> ('v \<times> 's) option" and same :: "'k \<Rightarrow> 'k \<Rightarrow> bool"
  assumes put_law: "inv s N \<Longrightarrow> ready s v \<Longrightarrow> v \<notin> N \<Longrightarrow> \<exists>s' old. put s k v = Some s' \<and>
      get s k = Some old \<and> inv s' (insert v (N - {old})) \<and> (old = nil \<or> old \<in> N) \<and>
      (\<forall>j. get s' j = (if same k j then Some v else get s j)) \<and>
      (\<forall>u. ready s u \<longrightarrow> u \<notin> N \<longrightarrow> ready s' u)"
    and del_law: "inv s N \<Longrightarrow> \<exists>s' old. del s k = Some (old, s') \<and>
      get s k = Some old \<and> inv s' (N - {old}) \<and>
      (\<forall>j. get s' j = (if same k j then Some nil else get s j)) \<and> (\<forall>u. ready s u \<longrightarrow> u \<notin> N \<longrightarrow> ready s' u)"
begin

primrec puts :: "('k \<times> 'v) list \<Rightarrow> 's \<Rightarrow> 's option" where
  "puts [] s = Some s"
| "puts (kv # kvs) s = do { t \<leftarrow> put s (fst kv) (snd kv); puts kvs t }"

lemma puts_get:
  "inv s N \<Longrightarrow> distinct (map snd kvs) \<Longrightarrow> \<forall>(k, v) \<in> set kvs. ready s v \<and> v \<notin> N \<Longrightarrow>
   \<exists>t. puts kvs s = Some t \<and> (\<exists>M. inv t M \<and> M \<subseteq> N \<union> snd ` set kvs) \<and>
     (\<forall>j. get t j = (case find (\<lambda>(k, v). same k j) (rev kvs) of None \<Rightarrow> get s j | Some (k, v) \<Rightarrow> Some v))"
proof (induction kvs arbitrary: s N)
  case (Cons kv kvs)
  obtain k v where kv: "kv = (k, v)" by (cases kv)
  have v: "ready s v" "v \<notin> N" using Cons.prems(3) kv by auto
  from put_law [OF Cons.prems(1) v, of k] obtain t old where
    t: "put s k v = Some t" "inv t (insert v (N - {old}))"
      "\<And>j. get t j = (if same k j then Some v else get s j)" "\<And>u. ready s u \<Longrightarrow> u \<notin> N \<Longrightarrow> ready t u" by blast
  have "\<forall>(k, v') \<in> set kvs. ready t v' \<and> v' \<notin> insert v (N - {old})"
    using Cons.prems(2,3) t(4) kv by (force simp: image_iff)
  then obtain u M where u: "puts kvs t = Some u" "inv u M" "M \<subseteq> insert v (N - {old}) \<union> snd ` set kvs"
    "\<And>j. get u j = (case find (\<lambda>(k, v). same k j) (rev kvs) of None \<Rightarrow> get t j | Some (k, v) \<Rightarrow> Some v)"
    using Cons.IH [OF t(2)] Cons.prems(2) by auto
  have "find (\<lambda>(k, v). same k j) (rev (kv # kvs)) =
      (case find (\<lambda>(k, v). same k j) (rev kvs) of None \<Rightarrow> if same k j then Some kv else None | Some x \<Rightarrow> Some x)" for j
    using kv by (simp add: find_append split: option.splits)
  then have "get u j = (case find (\<lambda>(k, v). same k j) (rev (kv # kvs)) of None \<Rightarrow> get s j | Some (k, v) \<Rightarrow> Some v)" for j
    unfolding u(4) t(3) using kv by (simp split: option.splits)
  moreover have "M \<subseteq> N \<union> snd ` set (kv # kvs)" using u(3) kv by auto
  ultimately show ?case using u(1,2) t(1) kv by auto
qed auto

lemma put_del:
  assumes "inv s N" "ready s v" "v \<notin> N" "same k k"
  shows "\<exists>t u M. put s k v = Some t \<and> del t k = Some (v, u) \<and> inv u M \<and>
    (\<forall>j. get u j = (if same k j then Some nil else get s j))"
proof -
  from put_law [OF assms(1-3), of k] obtain t old where
    t: "put s k v = Some t" "inv t (insert v (N - {old}))" "\<And>j. get t j = (if same k j then Some v else get s j)" by blast
  from del_law [OF t(2), of k] obtain u w where
    u: "del t k = Some (w, u)" "get t k = Some w" "inv u (insert v (N - {old}) - {w})"
      "\<And>j. get u j = (if same k j then Some nil else get t j)" by blast
  have "w = v" using u(2) t(3) assms(4) by simp
  then show ?thesis using t(1,3) u(1,3,4) by auto
qed

end

end
