(* ===== verification/HashTable_Scan.thy ===== *)
theory HashTable_Scan
  imports HashTable_Remove "HOL-Library.Multiset"
begin

text \<open>
  Scanning a hash table: \<open>scanmatchtable\<close> with its status, which lives outside the table and
  is reached through the pointer \<open>scan\<close>, so that the function called on every node may add,
  replace and remove nodes.  The state of that function is a parameter \<open>'s\<close> next to the table.
\<close>

section \<open>Comparing names\<close>

definition schar :: "char \<Rightarrow> int" where
  "schar c = (if of_char c < (128 :: int) then of_char c else of_char c - 256)"

text \<open>A terminating NUL reads as 0; \<open>char\<close> is signed, as on x86.\<close>

definition chr0 :: "string \<Rightarrow> int" where
  "chr0 s = (case s of [] \<Rightarrow> 0 | c # _ \<Rightarrow> schar c)"

definition zcoll :: "string \<Rightarrow> int" where
  "zcoll s = (let c1 = chr0 s in if c1 = 0 then - 1
     else if c1 = 131 then sint ((word_of_int (chr0 (tl s)) :: 32 word) XOR 32) else c1)"

fun ztrcmp :: "string \<Rightarrow> string \<Rightarrow> int" where
  "ztrcmp (a # s1) (b # s2) =
     (if a = b then ztrcmp s1 s2
      else let c1 = zcoll (a # s1); c2 = zcoll (b # s2) in if c1 = c2 then 0 else if c1 < c2 then - 1 else 1)"
| "ztrcmp s1 s2 = (let c1 = zcoll s1; c2 = zcoll s2 in if c1 = c2 then 0 else if c1 < c2 then - 1 else 1)"

definition hnamcmp :: "'v htab \<Rightarrow> addr \<Rightarrow> addr \<Rightarrow> int" where
  "hnamcmp ht a b = ztrcmp (hname (mem ht) a) (hname (mem ht) b)"

section \<open>The scan\<close>

type_synonym ('s, 'v) scanfunc = "addr \<Rightarrow> 's \<times> 'v htab \<Rightarrow> ('s \<times> 'v htab) option"

definition wanted :: "(string \<Rightarrow> bool) option \<Rightarrow> 32 word \<Rightarrow> 32 word \<Rightarrow> 'v hnode \<Rightarrow> bool" where
  "wanted pprog flags1 flags2 n \<longleftrightarrow> (flags1 = 0 \<or> flags n AND flags1 \<noteq> 0) \<and> flags n AND flags2 = 0 \<and>
     (case pprog of None \<Rightarrow> True | Some p \<Rightarrow> p (nam n))"

definition status :: "nat \<Rightarrow> 'v htab \<Rightarrow> scanstatus option" where
  "status d ht = (if d < length (stats ht) then Some (stats ht ! d) else None)"

definition set_status :: "nat \<Rightarrow> scanstatus \<Rightarrow> 'v htab \<Rightarrow> 'v htab" where
  "set_status d st ht = ht\<lparr>stats := (stats ht)[d := st]\<rparr>"

text \<open>The chain of one bucket; \<open>d\<close> is the status of this scan.\<close>

partial_function (option) unsorted_chain ::
    "('v hnode \<Rightarrow> bool) \<Rightarrow> ('s, 'v) scanfunc \<Rightarrow> nat \<Rightarrow> nat \<Rightarrow> 's \<times> 'v htab \<Rightarrow>
     (nat \<times> 's \<times> 'v htab) option" where
  "unsorted_chain want scanfunc d match s =
     do { st \<leftarrow> status d (snd s);
          (case st of Sorted _ \<Rightarrow> None
           | Unsorted u \<Rightarrow>
             if u = 0 then Some (match, s)
             else do { n \<leftarrow> node (snd s) u;
                       let s' = (fst s, set_status d (Unsorted (hnext n)) (snd s));
                       if want n
                       then do { t \<leftarrow> scanfunc u s'; unsorted_chain want scanfunc d (match + 1) t }
                       else unsorted_chain want scanfunc d match s' }) }"

text \<open>
  The buckets from \<open>i\<close> on, \<open>k\<close> of them.  The code keeps a pointer to the array it started
  with: reading it after another array took its place is \<open>None\<close>.
\<close>

fun unsorted_buckets ::
    "('v hnode \<Rightarrow> bool) \<Rightarrow> ('s, 'v) scanfunc \<Rightarrow> nat \<Rightarrow> nat \<Rightarrow> nat \<Rightarrow> nat \<Rightarrow> nat \<Rightarrow> 's \<times> 'v htab \<Rightarrow>
     (nat \<times> 's \<times> 'v htab) option" where
  "unsorted_buckets want scanfunc d arr i 0 match s = Some (match, s)"
| "unsorted_buckets want scanfunc d arr i (Suc k) match s =
     (if nodesid (snd s) \<noteq> arr then None
      else do { u \<leftarrow> get_bucket (snd s) i;
                (match, s) \<leftarrow> unsorted_chain want scanfunc d match (fst s, set_status d (Unsorted u) (snd s));
                unsorted_buckets want scanfunc d arr (i + 1) k match s })"

partial_function (option) collect_chain :: "'v htab \<Rightarrow> addr \<Rightarrow> addr list option" where
  "collect_chain ht hn =
     (if hn = 0 then Some []
      else do { n \<leftarrow> node ht hn; rest \<leftarrow> collect_chain ht (hnext n); Some (hn # rest) })"

fun collect_all :: "'v htab \<Rightarrow> addr list \<Rightarrow> addr list option" where
  "collect_all ht [] = Some []"
| "collect_all ht (b # bs) = do { xs \<leftarrow> collect_chain ht b; ys \<leftarrow> collect_all ht bs; Some (xs @ ys) }"

text \<open>The sorted array is the one of the status, where nodes are replaced and removed.\<close>

fun sorted_loop ::
    "('v hnode \<Rightarrow> bool) \<Rightarrow> ('s, 'v) scanfunc \<Rightarrow> nat \<Rightarrow> nat \<Rightarrow> nat \<Rightarrow> nat \<Rightarrow> 's \<times> 'v htab \<Rightarrow>
     (nat \<times> 's \<times> 'v htab) option" where
  "sorted_loop want scanfunc d i 0 match s = Some (match, s)"
| "sorted_loop want scanfunc d i (Suc k) match s =
     do { st \<leftarrow> status d (snd s);
          (case st of Unsorted _ \<Rightarrow> None
           | Sorted hashtab \<Rightarrow>
             if i < length hashtab
             then do { n \<leftarrow> node (snd s) (hashtab ! i);
                       if want n
                       then do { t \<leftarrow> scanfunc (hashtab ! i) s;
                                 sorted_loop want scanfunc d (i + 1) k (match + 1) t }
                       else sorted_loop want scanfunc d (i + 1) k match s }
             else None) }"

text \<open>A status is made on the stack of the scan and vanishes with it.\<close>

definition enter :: "scanstatus \<Rightarrow> 'v htab \<Rightarrow> nat \<times> 'v htab" where
  "enter st ht = (length (stats ht), ht\<lparr>stats := stats ht @ [st], scan := Some (length (stats ht))\<rparr>)"

definition leave :: "nat \<Rightarrow> 'v htab \<Rightarrow> 'v htab" where
  "leave d ht = ht\<lparr>stats := take d (stats ht), scan := None\<rparr>"

text \<open>
  \<open>qsort\<close> is the library's; \<open>scantab\<close> the method of tables whose nodes are made on the fly.
  The array of a sorted scan has room for \<open>ct\<close> nodes and is sorted as a whole: a count that
  is not the number of nodes is \<open>None\<close>.
\<close>

definition scanmatchtable ::
    "((addr \<Rightarrow> addr \<Rightarrow> int) \<Rightarrow> addr list \<Rightarrow> addr list) \<Rightarrow> ('s \<times> 'v htab \<Rightarrow> ('s \<times> 'v htab) option) option \<Rightarrow>
     (string \<Rightarrow> bool) option \<Rightarrow> bool \<Rightarrow> 32 word \<Rightarrow> 32 word \<Rightarrow> ('s, 'v) scanfunc \<Rightarrow> 's \<times> 'v htab \<Rightarrow>
     (nat \<times> 's \<times> 'v htab) option" where
  "scanmatchtable qsort scantab pprog srt flags1 flags2 scanfunc s =
     (case (pprog, scantab) of
        (None, Some f) \<Rightarrow> do { s \<leftarrow> f s; Some (ct (snd s), s) }
      | _ \<Rightarrow>
        if srt
        then do { ns \<leftarrow> collect_all (snd s) (nodes (snd s));
                  if length ns \<noteq> ct (snd s) then None
                  else (case enter (Sorted (qsort (hnamcmp (snd s)) ns)) (snd s) of (d, ht) \<Rightarrow>
                    do { (match, s) \<leftarrow> sorted_loop (wanted pprog flags1 flags2) scanfunc d 0 (length ns) 0 (fst s, ht);
                         Some (match, fst s, leave d (snd s)) }) }
        else (case enter (Unsorted 0) (snd s) of (d, ht) \<Rightarrow>
               do { (match, s) \<leftarrow> unsorted_buckets (wanted pprog flags1 flags2) scanfunc d
                                    (nodesid ht) 0 (hsize ht) 0 (fst s, ht);
                    Some (match, fst s, leave d (snd s)) }))"

definition scanhashtable ::
    "((addr \<Rightarrow> addr \<Rightarrow> int) \<Rightarrow> addr list \<Rightarrow> addr list) \<Rightarrow> ('s \<times> 'v htab \<Rightarrow> ('s \<times> 'v htab) option) option \<Rightarrow>
     bool \<Rightarrow> 32 word \<Rightarrow> 32 word \<Rightarrow> ('s, 'v) scanfunc \<Rightarrow> 's \<times> 'v htab \<Rightarrow> (nat \<times> 's \<times> 'v htab) option" where
  "scanhashtable qsort scantab srt flags1 flags2 scanfunc s =
     scanmatchtable qsort scantab None srt flags1 flags2 scanfunc s"

section \<open>Scans whose function leaves the table alone\<close>

lemma collect_chain_spec: "hchain (mem ht) a xs \<Longrightarrow> collect_chain ht a = Some xs"
proof (induction xs arbitrary: a)
  case (Cons x xs)
  then obtain n where "a = x" "x \<noteq> 0" "mem ht x = Some n" "hchain (mem ht) (hnext n) xs" by auto
  with Cons.IH show ?case by (subst collect_chain.simps) (simp add: node_def)
qed (subst collect_chain.simps, simp)

lemma collect_all_spec: "list_all2 (hchain (mem ht)) bs xss \<Longrightarrow> collect_all ht bs = Some (concat xss)"
  by (induction bs xss rule: list_all2_induct) (simp_all add: collect_chain_spec)

definition quiet :: "(addr \<Rightarrow> 's \<Rightarrow> 's) \<Rightarrow> ('s, 'v) scanfunc" where
  "quiet g a s = Some (g a (fst s), snd s)"

lemma quiet_step: "quiet g a (x, ht) = Some (g a x, ht)"
  by (simp add: quiet_def)

text \<open>On the nodes \<open>want\<close> selects, \<open>f\<close> leaves alone a table with the nodes \<open>m\<close>, which it may read.\<close>

definition reads ::
    "('v hnode \<Rightarrow> bool) \<Rightarrow> (addr \<rightharpoonup> 'v hnode) \<Rightarrow> ('s, 'v) scanfunc \<Rightarrow> (addr \<Rightarrow> 's \<Rightarrow> 's) \<Rightarrow> bool" where
  "reads want m f g \<longleftrightarrow>
     (\<forall>a n x h. mem h = m \<longrightarrow> a \<noteq> 0 \<longrightarrow> m a = Some n \<longrightarrow> want n \<longrightarrow> f a (x, h) = Some (g a x, h))"

lemma readsD: "reads want m f g \<Longrightarrow> mem h = m \<Longrightarrow> a \<noteq> 0 \<Longrightarrow> m a = Some n \<Longrightarrow> want n \<Longrightarrow> f a (x, h) = Some (g a x, h)"
  unfolding reads_def by blast

lemma reads_quiet: "reads want m (quiet g) g"
  by (simp add: reads_def quiet_step)

definition wants :: "('v hnode \<Rightarrow> bool) \<Rightarrow> 'v htab \<Rightarrow> addr \<Rightarrow> bool" where
  "wants want ht a \<longleftrightarrow> want (the (mem ht a))"

lemma wants_node: "mem ht a = Some n \<Longrightarrow> wants want ht a = want n"
  by (simp add: wants_def)

lemma sorted_loop_quiet:
  "reads want (mem ht) f g \<Longrightarrow> d < length (stats ht) \<Longrightarrow> stats ht ! d = Sorted (xs @ ys) \<Longrightarrow> (\<And>a. a \<in> set ys \<Longrightarrow> a \<noteq> 0 \<and> mem ht a \<noteq> None) \<Longrightarrow>
   sorted_loop want f d (length xs) (length ys) m (x, ht) =
     Some (m + length (filter (wants want ht) ys), fold g (filter (wants want ht) ys) x, ht)"
proof (induction ys arbitrary: xs m x)
  case (Cons y ys)
  obtain n where n: "node ht y = Some n" "mem ht y = Some n" using Cons.prems(4) [of y] by (auto simp: node_def)
  have nth: "(xs @ y # ys) ! length xs = y" by simp
  have s: "stats ht ! d = Sorted ((xs @ [y]) @ ys)" using Cons.prems(3) by simp
  have step: "want n \<Longrightarrow> f y (x, ht) = Some (g y x, ht)"
    using readsD [OF Cons.prems(1) refl _ n(2)] Cons.prems(4) [of y] by simp
  have IH: "sorted_loop want f d (length (xs @ [y])) (length ys) m' (x', ht) =
     Some (m' + length (filter (wants want ht) ys), fold g (filter (wants want ht) ys) x', ht)" for m' x'
    using Cons.IH [OF Cons.prems(1,2) s] Cons.prems(4) by simp
  show ?case
    using IH [of "Suc m" "g y x"] IH [of m x] n(1) wants_node [OF n(2), of want] Cons.prems(2,3) step
    by (simp add: status_def nth)
qed simp

lemma mem_set_status [simp]: "mem (set_status d st ht) = mem ht" "node (set_status d st ht) a = node ht a"
  "set_status d st (set_status d st' ht) = set_status d st ht" "nodes (set_status d st ht) = nodes ht"
  "nodesid (set_status d st ht) = nodesid ht" "get_bucket (set_status d st ht) i = get_bucket ht i"
  by (auto simp: set_status_def node_def get_bucket_def)

lemma status_set [simp]: "d < length (stats ht) \<Longrightarrow> status d (set_status d st ht) = Some st"
  "length (stats (set_status d st ht)) = length (stats ht)"
  by (simp_all add: status_def set_status_def)

lemma wants_set_status [simp]: "wants want (set_status d st ht) = wants want ht"
  by (rule ext) (simp add: wants_def)

lemma unsorted_chain_quiet:
  "reads want (mem ht) f g \<Longrightarrow> d < length (stats ht) \<Longrightarrow> hchain (mem ht) u xs \<Longrightarrow>
   unsorted_chain want f d m (x, set_status d (Unsorted u) ht) =
     Some (m + length (filter (wants want ht) xs), fold g (filter (wants want ht) xs) x, set_status d (Unsorted 0) ht)"
proof (induction xs arbitrary: u m x)
  case Nil
  then show ?case by (subst unsorted_chain.simps) simp
next
  case (Cons y ys)
  obtain n where n: "u = y" "y \<noteq> 0" "mem ht y = Some n" "hchain (mem ht) (hnext n) ys" using Cons.prems(3) by auto
  then have "node ht y = Some n" by (simp add: node_def)
  moreover have "want n \<Longrightarrow> f y (x, set_status d st ht) = Some (g y x, set_status d st ht)" for st
    using n by (intro readsD [OF Cons.prems(1)]) simp_all
  ultimately show ?case
    using n Cons.IH [OF Cons.prems(1,2) n(4)] Cons.prems(2) wants_node [OF n(3), of want]
    by (subst unsorted_chain.simps) (simp add: Let_def)
qed

lemma unsorted_buckets_quiet:
  "reads want (mem ht) f g \<Longrightarrow> d < length (stats ht) \<Longrightarrow> list_all2 (hchain (mem ht)) (drop i (nodes ht)) css \<Longrightarrow> arr = nodesid ht \<Longrightarrow>
   \<exists>u'. unsorted_buckets want f d arr i (length css) m (x, set_status d u ht) =
     Some (m + length (filter (wants want ht) (concat css)), fold g (filter (wants want ht) (concat css)) x, set_status d u' ht)"
proof (induction css arbitrary: i m x u)
  case (Cons c cs)
  have i: "i < length (nodes ht)" using list_all2_lengthD [OF Cons.prems(3)] by simp
  have ds: "hchain (mem ht) (nodes ht ! i) c" "list_all2 (hchain (mem ht)) (drop (Suc i) (nodes ht)) cs"
    using Cons.prems(3) Cons_nth_drop_Suc [OF i] by (metis list_all2_Cons)+
  have gb: "get_bucket ht i = Some (nodes ht ! i)" using i by (simp add: get_bucket_def)
  show ?case
    using unsorted_chain_quiet [OF Cons.prems(1,2) ds(1), of m x] gb Cons.prems(4)
      Cons.IH [OF Cons.prems(1,2) ds(2) Cons.prems(4), of "m + length (filter (wants want ht) c)"]
    by (simp add: add.assoc)
qed auto

lemma leave_enter:
  assumes "scan ht = None" "enter st ht = (d, h)"
  shows "leave d h = ht" "leave d (set_status d st' h) = ht" "d < length (stats h)" "stats h ! d = st"
    "mem h = mem ht" "nodes h = nodes ht" "nodesid h = nodesid ht" "hsize h = hsize ht" "ct h = ct ht"
    "wants want h = wants want ht" "h = set_status d st h"
  using assms by (auto simp: enter_def leave_def set_status_def wants_def fun_eq_iff)

text \<open>
  A scan with a function that leaves the table alone calls it on exactly the nodes that
  pass the flags and the pattern: in bucket order, or in the order of the sort.
\<close>

lemma scan_reads:
  fixes flags1 flags2 :: "32 word" and srt :: bool and qsort :: "(addr \<Rightarrow> addr \<Rightarrow> int) \<Rightarrow> addr list \<Rightarrow> addr list"
  assumes w: "hwf ht cs" and sc: "scan ht = None" and q: "mset (qsort (hnamcmp ht) (concat cs)) = mset (concat cs)"
    and nt: "scantab = None \<or> pprog \<noteq> None" and f: "reads (wanted pprog flags1 flags2) (mem ht) f g"
  defines "order \<equiv> filter (wants (wanted pprog flags1 flags2) ht) (if srt then qsort (hnamcmp ht) (concat cs) else concat cs)"
  shows "scanmatchtable qsort scantab pprog srt flags1 flags2 f (x, ht) =
    Some (length order, fold g order x, ht)"
proof -
  let ?w = "wanted pprog flags1 flags2"
  have l: "list_all2 (hchain (mem ht)) (nodes ht) cs"
    using hwfD(3,4,7) [OF w] by (simp add: list_all2_conv_all_nth)
  have cs: "collect_all ht (nodes ht) = Some (concat cs)" using collect_all_spec [OF l] .
  have ct: "length (concat cs) = ct ht" using hwfD(5) [OF w] by (simp add: length_concat)
  have case_nt: "(case (pprog, scantab) of (None, Some f) \<Rightarrow> A f | _ \<Rightarrow> B) = B" for A and B :: 'z
    using nt by (auto split: option.splits)
  show ?thesis
  proof (cases srt)
    case True
    let ?o = "qsort (hnamcmp ht) (concat cs)"
    have lo: "length ?o = ct ht" "set ?o = members cs"
      using q ct mset_eq_length mset_eq_setD
      unfolding members_def by metis+
    obtain d h where e: "enter (Sorted ?o) ht = (d, h)" by fastforce
    note E = leave_enter [OF sc e]
    have "a \<noteq> 0 \<and> mem h a \<noteq> None" if "a \<in> set ?o" for a using that lo(2) hwf_member [OF w, of a] E(5) by auto
    then have "sorted_loop ?w f d (length ([] :: addr list)) (length ?o) 0 (x, h) =
        Some (0 + length (filter (wants ?w h) ?o), fold g (filter (wants ?w h) ?o) x, h)"
      using E(3,4,5) f by (intro sorted_loop_quiet) auto
    then show ?thesis
      unfolding scanmatchtable_def case_nt using True cs ct e E lo(1) by (simp add: order_def)
  next
    case False
    obtain d h where e: "enter (Unsorted 0) ht = (d, h)" by fastforce
    note E = leave_enter [OF sc e]
    have "list_all2 (hchain (mem h)) (drop 0 (nodes h)) cs" using l E(5,6) by simp
    from unsorted_buckets_quiet [OF f [folded E(5)] E(3) this refl, of 0 x "Unsorted 0"] obtain u' where
      "unsorted_buckets ?w f d (nodesid h) 0 (length cs) 0 (x, h) =
       Some (0 + length (filter (wants ?w h) (concat cs)), fold g (filter (wants ?w h) (concat cs)) x, set_status d u' h)"
      using E(11) by auto
    moreover have "leave d (set_status d u' h) = ht" using E(1) by (simp add: leave_def set_status_def)
    ultimately show ?thesis
      unfolding scanmatchtable_def case_nt using False e E hwfD(4) [OF w] by (simp add: order_def)
  qed
qed

lemmas scan_quiet = scan_reads [OF _ _ _ _ reads_quiet]

section \<open>Scans whose function changes the table\<close>

text \<open>
  A sorted scan whose next node was removed reads the flags of NULL: the slots of removed
  nodes are cleared but not skipped.
\<close>

lemma sorted_loop_null:
  "status d (snd s) = Some (Sorted hashtab) \<Longrightarrow> i < length hashtab \<Longrightarrow> hashtab ! i = 0 \<Longrightarrow>
   sorted_loop want f d i (Suc k) m s = None"
  by (simp add: node_def)

text \<open>
  The steps a scan function may take: adding a node that is not in the table, removing a
  name, changing flags.  \<open>P\<close> holds the nodes that are neither replaced nor removed.
\<close>

definition linked :: "'v htab \<Rightarrow> addr \<Rightarrow> bool" where
  "linked ht a \<longleftrightarrow> gethashnode2 ht (hname (mem ht) a) = Some a"

lemma linked_member: "hwf ht cs \<Longrightarrow> linked ht a \<longleftrightarrow> a \<in> members cs \<or> a = 0 \<and> gethashnode2 ht (hname (mem ht) 0) = Some 0"
  using hwf_get [of ht cs "hname (mem ht) a" a] key_ok_refl [of ht cs a] hwf_member [of ht cs a]
  by (auto simp: linked_def split: if_splits)

inductive hstep :: "addr set \<Rightarrow> 'v htab \<Rightarrow> 'v htab \<Rightarrow> bool" for P where
  add: "mem ht hn = Some n0 \<Longrightarrow> hn \<noteq> 0 \<Longrightarrow> \<not> linked ht hn \<Longrightarrow> gethashnode2 ht nm = Some old \<Longrightarrow> old \<notin> P \<Longrightarrow>
    addhashnode k ht nm hn = Some ht' \<Longrightarrow> hstep P ht ht'"
| rem: "gethashnode2 ht nm = Some old \<Longrightarrow> old \<notin> P \<Longrightarrow> removehashnode ht nm = Some (r, ht') \<Longrightarrow> hstep P ht ht'"

text \<open>
  An unsorted scan at bucket \<open>i\<close> with the nodes \<open>R\<close> of it still to come: however the table
  changed, the status points to the first of them.
\<close>

definition scanning ::
    "addr set \<Rightarrow> nat \<Rightarrow> nat \<Rightarrow> nat \<Rightarrow> nat \<Rightarrow> addr list \<Rightarrow> 'v htab \<Rightarrow> addr list list \<Rightarrow> bool" where
  "scanning P H arr d i R ht cs \<longleftrightarrow> hwf ht cs \<and> scan ht = Some d \<and> Suc d = length (stats ht) \<and> hsize ht = H \<and>
     nodesid ht = arr \<and> P \<subseteq> members cs \<and> i < H \<and> (\<exists>pre. cs ! i = pre @ R) \<and> stats ht ! d = Unsorted (hd (R @ [0]))"

text \<open>What stays of the nodes in \<open>P\<close>.\<close>

definition kept :: "addr set \<Rightarrow> 'v htab \<Rightarrow> 'v htab \<Rightarrow> bool" where
  "kept P ht ht' \<longleftrightarrow> (\<forall>p\<in>P. strip (mem ht') p = strip (mem ht) p \<and> idx ht' p = idx ht p)"

lemma keptI:
  "(\<And>p. p \<in> P \<Longrightarrow> strip (mem ht') p = strip (mem ht) p) \<Longrightarrow> hash ht' = hash ht \<Longrightarrow> hsize ht' = hsize ht \<Longrightarrow> kept P ht ht'"
  using hname_strip by (fastforce simp: kept_def idx_def)

lemma kept_trans: "kept P a b \<Longrightarrow> kept P b c \<Longrightarrow> kept P a c"
  by (simp add: kept_def)

lemma kept_refl: "kept P a a"
  by (simp add: kept_def)

lemma hd_map_upd: "x \<noteq> 0 \<Longrightarrow> hd (map (\<lambda>a. if a = x then y else a) R @ [0]) =
    (if hd (R @ [0]) = x then y else hd (R @ [0 :: addr]))"
  by (cases R) auto

lemma map_upd_split: "distinct (us @ x # vs) \<Longrightarrow> map (\<lambda>a. if a = x then y else a) (us @ x # vs) = us @ y # vs"
  by (auto intro: map_idI)

lemma filter_neq_split: "distinct (us @ x # vs) \<Longrightarrow> filter (\<lambda>a. a \<noteq> x) (us @ x # vs) = us @ vs"
proof -
  assume "distinct (us @ x # vs)"
  then have "filter (\<lambda>a. a \<noteq> x) us = us" "filter (\<lambda>a. a \<noteq> x) vs = vs" by (auto intro: filter_True)
  then show ?thesis by simp
qed

lemma hd_filter_neq:
  "hchain m b (pre @ R) \<Longrightarrow> distinct R \<Longrightarrow>
   hd (filter (\<lambda>a. a \<noteq> x) R @ [0]) = (if hd (R @ [0]) = x \<and> x \<noteq> 0 then hnext (the (m x)) else hd (R @ [0]))"
proof (cases R)
  case (Cons r rs)
  assume c: "hchain m b (pre @ R)" "distinct R"
  then have n: "hchain m (hnext (the (m r))) rs" using hchain_next [of m b pre r rs] Cons by simp
  have r: "r \<noteq> 0" using hchain_mem [OF c(1), of r] Cons by auto
  show ?thesis
  proof (cases "r = x")
    case True
    then have "filter (\<lambda>a. a \<noteq> x) R = rs" using c(2) Cons by (auto intro: filter_True)
    then show ?thesis using True n Cons r by (cases rs) auto
  next
    case False
    then show ?thesis using Cons by simp
  qed
qed auto

lemma hstep_scanning:
  assumes s: "scanning P H arr d i R ht cs" and st: "hstep P ht ht'"
  shows "\<exists>R' cs'. scanning P H arr d i R' ht' cs' \<and> P \<inter> set R' = P \<inter> set R \<and> length R' \<le> length R \<and> kept P ht ht'"
proof -
  note S = s [unfolded scanning_def]
  have w: "hwf ht cs" and PM: "P \<subseteq> members cs" and iH: "i < hsize ht" using S by auto
  obtain pre where pre: "cs ! i = pre @ R" using S by blast
  have dis: "distinct (cs ! i)" using hwfD(8) [OF w iH] .
  have so: "d < length (stats ht)" using S by simp
  have il: "i < length cs" using iH hwfD(4) [OF w] by simp
  from st show ?thesis
  proof cases
    case (add hn n0 nm old k)
    have hn: "hn \<notin> members cs" using linked_member [OF w, of hn] add(2,3) by auto
    have hP: "hn \<notin> P" using hn PM by blast
    obtain k' where k: "k = Suc k'" using add(6) by (cases k) auto
    let ?j = "unat (hash ht nm) mod hsize ht"
    show ?thesis
    proof (cases "\<exists>x\<in>members cs. same_key ht x nm")
      case False
      then have miss: "\<And>a. a \<in> members cs \<Longrightarrow> \<not> same_key ht a nm" by blast
      let ?h = "(link_front ht n0 nm hn)\<lparr>ct := ct ht + 1\<rparr>" and ?c = "cs[?j := hn # cs ! ?j]"
      have h': "ht' = ?h"
        using add(6) k add_miss [OF w add(1,2) hn miss, of "addhashnode k'"] S
        by (simp add: count_up_def link_front_def Let_def)
      note L = link_front_hwf [OF w add(1,2) hn miss]
      have "\<exists>p. ?c ! i = p @ R" using pre il by (cases "?j = i") (auto intro: exI [of _ "hn # pre"])
      then have "scanning P H arr d i R ht' ?c"
        unfolding scanning_def h' using S L PM by (auto simp: link_front_def Let_def)
      moreover have "kept P ht ht'"
        unfolding h' using hP by (intro keptI) (auto simp: link_front_def Let_def strip_def)
      ultimately show ?thesis by blast
    next
      case True
      then obtain x where x: "x \<in> members cs" "same_key ht x nm" by blast
      have old: "old = x" using add(4) hwf_get [OF w, of nm old] hwf_keys [OF w, of old x nm] x by (auto split: if_splits)
      obtain us vs where b: "cs ! ?j = us @ x # vs" "x \<noteq> 0" using bucket_split [OF w x] by metis
      let ?f = "\<lambda>a. if a = x then hn else a"
      let ?l = "link_replace ht n0 nm hn us x" and ?c = "cs[?j := us @ hn # vs]"
      let ?m = "?l\<lparr>stats := (stats ht)[d := scan_replace x hn (stats ht ! d)]\<rparr>"
      let ?h = "?m\<lparr>mem := (mem ?m)(x := None), freed := freed ?m @ [x]\<rparr>"
      note L = link_replace_hwf [OF w add(1,2) hn x b(1)]
      have lx: "mem ?l x = mem ht x" using L(4) [of x] x(1) hn b hwfD(8) [OF w idx_bound [OF w], of nm] by auto
      obtain nx where nx: "mem ht x = Some nx" using hwf_member [OF w x(1)] by blast
      have h': "ht' = ?h"
        using add(6) k add_hit [OF w add(1,2) hn x b(1), of "addhashnode k'"] S b(2) lx nx so
        by (auto simp: upd_scan_def link_replace_def Let_def freenode_def node_def)
      have ci: "?c ! i = map ?f (cs ! i)"
      proof (cases "?j = i")
        case True
        then show ?thesis using b(1) il dis map_upd_split [of us x vs hn] by simp
      next
        case False
        have "x \<notin> set (cs ! i)" using hwfD(9) [OF w iH, of x] key_idx [OF w x(2)] False by auto
        then have "map ?f (cs ! i) = cs ! i" by (intro map_idI) auto
        with False show ?thesis by simp
      qed
      have nx': "x \<notin> members ?c" using L(2) hn x(1) by auto
      have hw: "hwf ?h ?c" using hwf_drop [OF _ nx', of ?m] L(1) hwf_stats [where ht = ?l] by simp
      have M: "P \<subseteq> members ?c" using L(2) PM add(5) old by auto
      have "scanning P H arr d i (map ?f R) ht' ?c"
        unfolding scanning_def h' using S hw M ci pre so hd_map_upd [OF b(2), of hn R]
        by (auto simp: link_replace_def Let_def)
      moreover have "P \<inter> set (map ?f R) = P \<inter> set R" using add(5) old hP by auto
      moreover have "kept P ht ht'"
      proof (rule keptI)
        show "strip (mem ht') p = strip (mem ht) p" if "p \<in> P" for p
        proof -
          have "p \<noteq> x" "p \<noteq> hn" using that add(5) old hP by auto
          then have "strip (mem ?h) p = strip (mem ?l) p" by (simp add: strip_def)
          then show ?thesis using L(3) \<open>p \<noteq> hn\<close> unfolding h' by simp
        qed
      qed (simp_all add: h' link_replace_def Let_def)
      moreover have "length (map ?f R) \<le> length R" by simp
      ultimately show ?thesis by (intro exI conjI)
    qed
  next
    case (rem nm old r)
    let ?j = "unat (hash ht nm) mod hsize ht"
    show ?thesis
    proof (cases "\<exists>x\<in>members cs. same_key ht x nm")
      case False
      then have "ht' = ht" using remove_miss [OF w, of nm] rem(3) by auto
      then show ?thesis using s kept_refl by blast
    next
      case True
      then obtain x where x: "x \<in> members cs" "same_key ht x nm" by blast
      have old: "old = x" using rem(1) hwf_get [OF w, of nm old] hwf_keys [OF w, of old x nm] x by (auto split: if_splits)
      obtain us vs where b: "cs ! ?j = us @ x # vs" "x \<noteq> 0" using bucket_split [OF w x] by metis
      let ?l = "unlink ht nm us x" and ?c = "cs[?j := us @ vs]" and ?R = "filter (\<lambda>a. a \<noteq> x) R"
      let ?h = "?l\<lparr>stats := (stats ht)[d := scan_remove x (hnext (the (mem ht x))) (stats ht ! d)]\<rparr>"
      note L = unlink_hwf [OF w x b(1)]
      have h': "ht' = ?h"
        using rem(3) remove_hit [OF w x b(1)] S so by (auto simp: upd_scan_def unlink_def Let_def)
      have ci: "?c ! i = filter (\<lambda>a. a \<noteq> x) (cs ! i)"
      proof (cases "?j = i")
        case True
        then show ?thesis using b(1) il dis filter_neq_split [of us x vs] by simp
      next
        case False
        have "x \<notin> set (cs ! i)" using hwfD(9) [OF w iH, of x] key_idx [OF w x(2)] False by auto
        then have "filter (\<lambda>a. a \<noteq> x) (cs ! i) = cs ! i" by (intro filter_True) auto
        with False show ?thesis by simp
      qed
      have hw: "hwf ?h ?c" using L(1) hwf_stats [where ht = ?l] by simp
      have M: "P \<subseteq> members ?c" using L(2) PM rem(2) old by auto
      have hd: "hd (?R @ [0]) = (if hd (R @ [0]) = x \<and> x \<noteq> 0 then hnext (the (mem ht x)) else hd (R @ [0]))"
        using hwfD(7) [OF w iH] dis pre by (intro hd_filter_neq) auto
      have "scanning P H arr d i ?R ht' ?c"
        unfolding scanning_def h' using S hw M ci pre so hd b(2) by (auto simp: unlink_def Let_def)
      moreover have "P \<inter> set ?R = P \<inter> set R" using rem(2) old by auto
      moreover have "kept P ht ht'" unfolding h' using L(3) by (intro keptI) (auto simp: unlink_def Let_def)
      ultimately show ?thesis using length_filter_le by blast
    qed
  qed
qed

lemma hsteps_scanning:
  "(hstep P)\<^sup>*\<^sup>* ht ht' \<Longrightarrow> scanning P H arr d i R ht cs \<Longrightarrow>
   \<exists>R' cs'. scanning P H arr d i R' ht' cs' \<and> P \<inter> set R' = P \<inter> set R \<and> length R' \<le> length R \<and> kept P ht ht'"
proof (induction rule: rtranclp_induct)
  case base
  then show ?case using kept_refl by blast
next
  case (step y z)
  then obtain R1 c1 where 1: "scanning P H arr d i R1 y c1" "P \<inter> set R1 = P \<inter> set R" "length R1 \<le> length R" "kept P ht y"
    by blast
  from hstep_scanning [OF 1(1) step(2)] obtain R2 c2 where
    2: "scanning P H arr d i R2 z c2" "P \<inter> set R2 = P \<inter> set R1" "length R2 \<le> length R1" "kept P y z" by blast
  from 1 2 show ?case using kept_trans [OF 1(4) 2(4)] order_trans [OF 2(3) 1(3)] by (metis (no_types))
qed

text \<open>A scan function that notes the node it is called on and then changes the table.\<close>

definition noting :: "addr set \<Rightarrow> (addr list, 'v) scanfunc \<Rightarrow> bool" where
  "noting P f \<longleftrightarrow> (\<forall>a l ht. \<exists>ht'. f a (l, ht) = Some (l @ [a], ht') \<and> (hstep P)\<^sup>*\<^sup>* ht ht')"

lemma scanning_next:
  assumes s: "scanning P H arr d i (r # R) ht cs"
  obtains n where "mem ht r = Some n" "r \<noteq> 0" "scanning P H arr d i R (set_status d (Unsorted (hnext n)) ht) cs"
    "kept P ht (set_status d (Unsorted (hnext n)) ht)"
proof -
  note S = s [unfolded scanning_def]
  obtain pre where pre: "cs ! i = pre @ r # R" using S by blast
  have ch: "hchain (mem ht) (nodes ht ! i) (pre @ r # R)" using hwfD(7) [of ht cs i] S pre by simp
  obtain n where n: "mem ht r = Some n" "r \<noteq> 0" using hchain_mem [OF ch, of r] by auto
  have hn: "hnext n = hd (R @ [0])" using hchain_next [OF ch] n(1) by (cases R) auto
  have "hwf (set_status d (Unsorted (hnext n)) ht) cs" using S hwf_stats [where ht = ht] by (simp add: set_status_def)
  then have "scanning P H arr d i R (set_status d (Unsorted (hnext n)) ht) cs"
    unfolding scanning_def using S pre hn by (auto simp: set_status_def intro!: exI [of _ "pre @ [r]"])
  moreover have "kept P ht (set_status d (Unsorted (hnext n)) ht)" by (rule keptI) (simp_all add: set_status_def)
  ultimately show ?thesis using that n by blast
qed

lemma unsorted_chain_step:
  assumes s: "scanning P H arr d i (r # R) ht cs" and f: "noting P f"
  shows "\<exists>ht' R' cs' n. mem ht r = Some n \<and> scanning P H arr d i R' ht' cs' \<and> kept P ht ht' \<and>
    P \<inter> set R' = P \<inter> set R \<and> length R' \<le> length R \<and>
    unsorted_chain want f d m (l, ht) =
      (if want n then unsorted_chain want f d (m + 1) (l @ [r], ht') else unsorted_chain want f d m (l, ht'))"
proof -
  note S = s [unfolded scanning_def]
  from scanning_next [OF s] obtain n where n: "mem ht r = Some n" "r \<noteq> 0"
    "scanning P H arr d i R (set_status d (Unsorted (hnext n)) ht) cs"
    "kept P ht (set_status d (Unsorted (hnext n)) ht)" by blast
  let ?h = "set_status d (Unsorted (hnext n)) ht"
  have st: "status d ht = Some (Unsorted r)" "node ht r = Some n" using S n by (simp_all add: status_def node_def)
  show ?thesis
  proof (cases "want n")
    case True
    obtain ht' where h': "f r (l, ?h) = Some (l @ [r], ht')" "(hstep P)\<^sup>*\<^sup>* ?h ht'"
      using f unfolding noting_def by blast
    from hsteps_scanning [OF h'(2) n(3)] obtain R' cs' where
      R': "scanning P H arr d i R' ht' cs'" "P \<inter> set R' = P \<inter> set R" "length R' \<le> length R" "kept P ?h ht'" by blast
    have "unsorted_chain want f d m (l, ht) = unsorted_chain want f d (m + 1) (l @ [r], ht')"
      using st n(2) h'(1) True by (subst unsorted_chain.simps) (simp add: Let_def)
    then show ?thesis using R' n(1) kept_trans [OF n(4) R'(4)] True by auto
  next
    case False
    have "unsorted_chain want f d m (l, ht) = unsorted_chain want f d m (l, ?h)"
      using st n(2) False by (subst unsorted_chain.simps) (simp add: Let_def)
    then show ?thesis using n False by auto
  qed
qed

lemma wants_strip: "mem ht a = Some n \<Longrightarrow> wants (wanted p f1 f2) ht a = wanted p f1 f2 (n\<lparr>hnext := 0\<rparr>)"
  by (cases p) (simp_all add: wants_def wanted_def)

lemma kept_wants:
  assumes "kept P ht ht'" "a \<in> P" "mem ht a \<noteq> None"
  shows "wants (wanted p f1 f2) ht' a = wants (wanted p f1 f2) ht a" "mem ht' a \<noteq> None"
proof -
  obtain n where n: "mem ht a = Some n" using assms(3) by blast
  have e: "strip (mem ht') a = strip (mem ht) a" using assms(1,2) by (simp add: kept_def)
  then obtain n' where n': "mem ht' a = Some n'" "n'\<lparr>hnext := 0\<rparr> = n\<lparr>hnext := 0\<rparr>" using n by (auto simp: strip_def)
  then show "wants (wanted p f1 f2) ht' a = wants (wanted p f1 f2) ht a" "mem ht' a \<noteq> None"
    using wants_strip [OF n] wants_strip [OF n'(1)] by auto
qed

lemma scanning_mem: "scanning P H arr d i R ht cs \<Longrightarrow> a \<in> P \<Longrightarrow> mem ht a \<noteq> None"
  using hwf_member unfolding scanning_def by blast

lemma scanning_distinct: "scanning P H arr d i R ht cs \<Longrightarrow> distinct R"
  using hwfD(8) [of ht cs i] unfolding scanning_def by fastforce

text \<open>One bucket: every lasting node still to come is noted once if it is wanted.\<close>

lemma unsorted_chain_notes:
  assumes f: "noting P f" and want: "want = wanted pprog f1 f2"
  shows "scanning P H arr d i R ht cs \<Longrightarrow>
    \<exists>m' l' ht' cs'. unsorted_chain want f d m (l, ht) = Some (m', l @ l', ht') \<and> scanning P H arr d i [] ht' cs' \<and>
      kept P ht ht' \<and> (\<forall>p\<in>P. count_list l' p = (if p \<in> set R \<and> wants want ht p then 1 else 0)) \<and> m' = m + length l'"
proof (induction "length R" arbitrary: R ht cs m l rule: less_induct)
  case less
  show ?case
  proof (cases R)
    case Nil
    note S = less.prems [unfolded scanning_def]
    have "status d ht = Some (Unsorted 0)" using S Nil by (simp add: status_def)
    then have "unsorted_chain want f d m (l, ht) = Some (m, l @ [], ht)" by (subst unsorted_chain.simps) simp
    then show ?thesis using less.prems Nil kept_refl by fastforce
  next
    case (Cons r R1)
    from unsorted_chain_step [OF less.prems [unfolded Cons] f, of want m l] obtain h1 R2 c2 n where
      1: "mem ht r = Some n" "scanning P H arr d i R2 h1 c2" "kept P ht h1" "P \<inter> set R2 = P \<inter> set R1"
        "length R2 \<le> length R1"
      and run: "unsorted_chain want f d m (l, ht) =
        (if want n then unsorted_chain want f d (m + 1) (l @ [r], h1) else unsorted_chain want f d m (l, h1))"
      by blast
    let ?m = "if want n then m + 1 else m" and ?l = "if want n then l @ [r] else l"
    have "length R2 < length R" using 1(5) Cons by simp
    from less.hyps [OF this 1(2), of ?m ?l] obtain m' l' h' c' where
      2: "unsorted_chain want f d ?m (?l, h1) = Some (m', ?l @ l', h')" "scanning P H arr d i [] h' c'"
        "kept P h1 h'" "\<And>p. p \<in> P \<Longrightarrow> count_list l' p = (if p \<in> set R2 \<and> wants want h1 p then 1 else 0)"
        "m' = ?m + length l'"
      by blast
    let ?l' = "(if want n then [r] else []) @ l'"
    have "unsorted_chain want f d m (l, ht) = Some (m', l @ ?l', h')" using run 2(1) by (auto split: if_splits)
    moreover have "count_list ?l' p = (if p \<in> set R \<and> wants want ht p then 1 else 0)" if p: "p \<in> P" for p
    proof -
      have k: "wants want h1 p = wants want ht p"
        unfolding want using kept_wants(1) [OF 1(3) p scanning_mem [OF less.prems p]] .
      have r: "p \<in> set R2 \<longleftrightarrow> p \<in> set R1" using 1(4) p by blast
      have "r \<notin> set R1" using scanning_distinct [OF less.prems] Cons by simp
      then show ?thesis using 2(4) [OF p] k r Cons 1(1) wants_node [OF 1(1), of want] by auto
    qed
    moreover have "m' = m + length ?l'" using 2(5) by simp
    ultimately show ?thesis using 2(2) kept_trans [OF 1(3) 2(3)] by blast
  qed
qed

text \<open>Between two buckets.\<close>

definition in_scan :: "addr set \<Rightarrow> nat \<Rightarrow> nat \<Rightarrow> nat \<Rightarrow> 'v htab \<Rightarrow> addr list list \<Rightarrow> bool" where
  "in_scan P H arr d ht cs \<longleftrightarrow> hwf ht cs \<and> scan ht = Some d \<and> Suc d = length (stats ht) \<and> hsize ht = H \<and>
     nodesid ht = arr \<and> P \<subseteq> members cs"

lemma in_scan_bucket:
  assumes "in_scan P H arr d ht cs" "i < H"
  shows "get_bucket ht i = Some (nodes ht ! i)"
    "scanning P H arr d i (cs ! i) (set_status d (Unsorted (nodes ht ! i)) ht) cs"
    "kept P ht (set_status d (Unsorted (nodes ht ! i)) ht)"
proof -
  note S = assms [unfolded in_scan_def]
  have w: "hwf ht cs" and i: "i < hsize ht" using S by auto
  show "get_bucket ht i = Some (nodes ht ! i)" using hwfD(3) [OF w] i by (simp add: get_bucket_def)
  have "nodes ht ! i = hd (cs ! i @ [0])" using hwfD(7) [OF w i] by (cases "cs ! i") auto
  moreover have "hwf (set_status d (Unsorted (nodes ht ! i)) ht) cs"
    using w hwf_stats [where ht = ht] by (simp add: set_status_def)
  ultimately show "scanning P H arr d i (cs ! i) (set_status d (Unsorted (nodes ht ! i)) ht) cs"
    unfolding scanning_def using S by (auto simp: set_status_def)
  show "kept P ht (set_status d (Unsorted (nodes ht ! i)) ht)" by (rule keptI) (simp_all add: set_status_def)
qed

lemma unsorted_buckets_notes:
  assumes f: "noting P f" and want: "want = wanted pprog f1 f2"
  shows "in_scan P H arr d ht cs \<Longrightarrow> i + k = H \<Longrightarrow>
    \<exists>m' l' ht' cs'. unsorted_buckets want f d arr i k m (l, ht) = Some (m', l @ l', ht') \<and>
      in_scan P H arr d ht' cs' \<and> kept P ht ht' \<and>
      (\<forall>p\<in>P. count_list l' p = (if i \<le> idx ht p \<and> wants want ht p then 1 else 0)) \<and> m' = m + length l'"
proof (induction k arbitrary: i m l ht cs)
  case 0
  have "\<not> i \<le> idx ht p" if "p \<in> P" for p
    using that 0 hwf_member [of ht cs p] unfolding in_scan_def by fastforce
  then show ?case using 0(1) kept_refl by fastforce
next
  case (Suc k)
  have iH: "i < H" using Suc.prems(2) by simp
  note S = Suc.prems(1) [unfolded in_scan_def] and B = in_scan_bucket [OF Suc.prems(1) iH]
  let ?h = "set_status d (Unsorted (nodes ht ! i)) ht"
  from unsorted_chain_notes [OF f want B(2), of m l] obtain m1 l1 h1 c1 where
    1: "unsorted_chain want f d m (l, ?h) = Some (m1, l @ l1, h1)" "scanning P H arr d i [] h1 c1" "kept P ?h h1"
      "\<And>p. p \<in> P \<Longrightarrow> count_list l1 p = (if p \<in> set (cs ! i) \<and> wants want ?h p then 1 else 0)"
      "m1 = m + length l1"
    by blast
  have is1: "in_scan P H arr d h1 c1" using 1(2) by (simp add: scanning_def in_scan_def)
  have k1: "kept P ht h1" using kept_trans [OF B(3) 1(3)] .
  from Suc.IH [OF is1, of "Suc i" m1 "l @ l1"] Suc.prems(2) obtain m2 l2 h2 c2 where
    2: "unsorted_buckets want f d arr (Suc i) k m1 (l @ l1, h1) = Some (m2, (l @ l1) @ l2, h2)"
      "in_scan P H arr d h2 c2" "kept P h1 h2"
      "\<And>p. p \<in> P \<Longrightarrow> count_list l2 p = (if Suc i \<le> idx h1 p \<and> wants want h1 p then 1 else 0)"
      "m2 = m1 + length l2"
    by auto
  have "unsorted_buckets want f d arr i (Suc k) m (l, ht) = Some (m2, l @ (l1 @ l2), h2)"
    using S B(1) 1(1) 2(1) by simp
  moreover have "count_list (l1 @ l2) p = (if i \<le> idx ht p \<and> wants want ht p then 1 else 0)" if p: "p \<in> P" for p
  proof -
    have pm: "p \<in> members cs" "mem ht p \<noteq> None" using S p hwf_member by blast+
    have "wants want h1 p = wants want ht p" unfolding want using kept_wants(1) [OF k1 p pm(2)] .
    moreover have "idx h1 p = idx ht p" using k1 p by (simp add: kept_def)
    moreover have "p \<in> set (cs ! i) \<longleftrightarrow> idx ht p = i" using hwf_in_bucket [of ht cs i p] S iH pm(1) by auto
    ultimately show ?thesis using 1(4) [OF p] 2(4) [OF p] by auto
  qed
  moreover have "m2 = m + length (l1 @ l2)" using 1(5) 2(5) by simp
  ultimately show ?case using 2(2) kept_trans [OF k1 2(3)] by blast
qed

lemma hwf_scan: "hwf (ht\<lparr>stats := st, scan := sc\<rparr>) cs = hwf ht cs"
  by (simp add: hwf_def bucket_ok_def idx_def same_key_def)

lemma scan_notes:
  assumes w: "hwf ht cs" and sc: "scan ht = None" and P: "P \<subseteq> members cs" and f: "noting P f"
    and nt: "scantab = None \<or> pprog \<noteq> None"
  shows "\<exists>l ht' cs'. scanmatchtable qsort scantab pprog False flags1 flags2 f ([], ht) = Some (length l, l, ht') \<and>
    (\<forall>p\<in>P. count_list l p = (if wants (wanted pprog flags1 flags2) ht p then 1 else 0)) \<and>
    hwf ht' cs' \<and> P \<subseteq> members cs' \<and> scan ht' = None \<and> length (stats ht') = length (stats ht)"
proof -
  let ?w = "wanted pprog flags1 flags2"
  have case_nt: "(case (pprog, scantab) of (None, Some f) \<Rightarrow> A f | _ \<Rightarrow> B) = B" for A and B :: 'z
    using nt by (auto split: option.splits)
  obtain d h where e: "enter (Unsorted 0) ht = (d, h)" by fastforce
  note E = leave_enter [OF sc e]
  have h: "h = ht\<lparr>stats := stats ht @ [Unsorted 0], scan := Some d\<rparr>" "d = length (stats ht)" using e by (auto simp: enter_def)
  have wh: "hwf h cs" using w unfolding h by (simp add: hwf_scan)
  have "in_scan P (hsize h) (nodesid h) d h cs" using wh P h by (simp add: in_scan_def)
  from unsorted_buckets_notes [OF f refl this, of 0 "hsize h" pprog flags1 flags2 0 "[]"] obtain m l h' c' where
    r: "unsorted_buckets ?w f d (nodesid h) 0 (hsize h) 0 ([], h) = Some (m, l, h')"
      "in_scan P (hsize h) (nodesid h) d h' c'" "\<And>p. p \<in> P \<Longrightarrow> count_list l p = (if wants ?w h p then 1 else 0)"
      "m = length l"
    by auto
  have "hwf (leave d h') c'"
    using r(2) unfolding in_scan_def leave_def by (simp add: hwf_scan)
  moreover have "scanmatchtable qsort scantab pprog False flags1 flags2 f ([], ht) = Some (length l, l, leave d h')"
    unfolding scanmatchtable_def case_nt using e r(1,4) by simp
  moreover have "length (stats (leave d h')) = length (stats ht)"
    using r(2) h(2) by (simp add: in_scan_def leave_def)
  ultimately show ?thesis using r(2,3) E(10) by (auto simp: in_scan_def leave_def)
qed

end
