(* ===== verification/Hash_Keys.thy ===== *)
theory Hash_Keys
  imports HashTable_Scan
begin

text \<open>
  The pairs of hash function and comparison the shell's tables use (\<open>hasher\<close> with \<open>strcmp\<close>,
  \<open>histhasher\<close> with \<open>histstrcmp\<close>), the contract between them, and the dictionary laws of
  the tables that keep it.
\<close>

section \<open>Plain names\<close>

lemma of_char_0 [simp]: "of_char c = (0 :: int) \<longleftrightarrow> c = NUL"
  using of_char_eq_iff [of c NUL, where ?'a = int] by (simp add: NUL_def)

lemma cstr_Nil [simp]: "cstr [] = []" and cstr_Cons [simp]: "cstr (c # s) = (if c = NUL then [] else c # cstr s)"
  by (simp_all add: cstr_def)

lemma strcmp_0: "strcmp s t = 0 \<longleftrightarrow> cstr s = cstr t"
  by (induction s t rule: strcmp.induct) auto

lemma hash_loop_cstr: "hash_loop h s = hash_loop h (cstr s)"
  by (induction h s rule: hash_loop.induct) auto

lemma key_ok_str: "key_ok hasher strcmp"
  unfolding key_ok_def strcmp_0 hasher_def using hash_loop_cstr by metis

section \<open>History lines\<close>

text \<open>The end of a C string.\<close>

definition at_end :: "string \<Rightarrow> bool" where
  "at_end s \<longleftrightarrow> s = [] \<or> hd s = NUL"

function histhash_loop :: "32 word \<Rightarrow> string \<Rightarrow> 32 word" where
  "histhash_loop hashval [] = hashval"
| "histhash_loop hashval (c # str) =
     (if c = NUL then hashval
      else if inblank c
      then let str = dropWhile inblank str
           in histhash_loop (if at_end str then hashval else hashval + (push_bit 5 hashval + 32)) str
      else histhash_loop (hashval + (push_bit 5 hashval + of_nat (of_char c))) str)"
  by pat_completeness auto
termination
  by (relation "measure (length \<circ> snd)") (auto simp: length_dropWhile_le less_Suc_eq_le)

definition histhasher :: "string \<Rightarrow> 32 word" where
  "histhasher str = histhash_loop 0 (dropWhile inblank str)"

definition c0 :: "string \<Rightarrow> int" where
  "c0 s = (case s of [] \<Rightarrow> 0 | c # _ \<Rightarrow> schar c)"

function histcmp_loop :: "string \<Rightarrow> string \<Rightarrow> int" where
  "histcmp_loop s1 s2 =
     (if at_end s1 \<or> at_end s2 then c0 s1 - c0 s2
      else if inblank (hd s1)
      then if \<not> inblank (hd s2) then c0 s1 - c0 s2
           else histcmp_loop (dropWhile inblank (tl s1)) (dropWhile inblank (tl s2))
      else if hd s1 \<noteq> hd s2 then c0 s1 - c0 s2
      else histcmp_loop (tl s1) (tl s2))"
  by pat_completeness auto
termination
proof (relation "measure (length \<circ> fst)")
  fix s1 s2 :: string
  assume "\<not> (at_end s1 \<or> at_end s2)"
  then obtain c s where s: "s1 = c # s" by (cases s1) (auto simp: at_end_def)
  then show "((dropWhile inblank (tl s1), dropWhile inblank (tl s2)), s1, s2) \<in> measure (length \<circ> fst)"
    "((tl s1, tl s2), s1, s2) \<in> measure (length \<circ> fst)"
    using length_dropWhile_le [of inblank s] by auto
qed simp

text \<open>\<open>reduce\<close> is the option HIST_REDUCE_BLANKS.\<close>

definition histstrcmp :: "bool \<Rightarrow> string \<Rightarrow> string \<Rightarrow> int" where
  "histstrcmp reduce str1 str2 =
     (let str1 = dropWhile inblank str1; str2 = dropWhile inblank str2
      in if reduce then strcmp str1 str2 else histcmp_loop str1 str2)"

text \<open>Every run of blanks is one space.\<close>

function collapse :: "string \<Rightarrow> string" where
  "collapse [] = []"
| "collapse (c # s) = (if inblank c then CHR '' '' # collapse (dropWhile inblank s) else c # collapse s)"
  by pat_completeness auto
termination
  by (relation "measure length") (auto simp: length_dropWhile_le less_Suc_eq_le)

lemma inblank_space [simp]: "inblank (CHR '' '')" and inblank_NUL [simp]: "\<not> inblank NUL"
  by (simp_all add: inblank_def NUL_def)

lemma dropWhile_cstr: "cstr (dropWhile inblank s) = dropWhile inblank (cstr s)"
  by (induction s) auto

lemma at_end_cstr: "at_end s \<longleftrightarrow> cstr s = []"
  by (cases s) (auto simp: at_end_def)

lemma schar_inj: "schar a = schar b \<longleftrightarrow> a = b"
proof
  have lt: "(of_char c :: int) < 256" "0 \<le> (of_char c :: int)" for c :: char by (cases c; simp)+
  assume "schar a = schar b"
  then have "of_char a = (of_char b :: int)" using lt [of a] lt [of b] by (auto simp: schar_def split: if_splits)
  then show "a = b" by simp
qed simp

lemma c0_eq: "c0 s = c0 t \<longleftrightarrow> (at_end s \<and> at_end t) \<or> (\<not> at_end s \<and> \<not> at_end t \<and> hd s = hd t)"
proof -
  have z: "schar NUL = 0" by (simp add: schar_def NUL_def)
  have n: "schar c = 0 \<longleftrightarrow> c = NUL" for c using schar_inj [of c NUL] z by simp
  show ?thesis using z n schar_inj by (cases s; cases t) (auto simp: c0_def at_end_def)
qed

declare histcmp_loop.simps [simp del]

lemma collapse_Nil_iff [simp]: "collapse s = [] \<longleftrightarrow> s = []" "[] = collapse s \<longleftrightarrow> s = []"
  by (cases s; auto)+

lemma collapse_hd: "\<not> inblank a \<Longrightarrow> a # xs = collapse (b # t) \<longleftrightarrow> a = b \<and> xs = collapse t"
  by (auto simp: inblank_def)

lemma histcmp_loop_0: "histcmp_loop s t = 0 \<longleftrightarrow> collapse (cstr s) = collapse (cstr t)"
proof (induction s t rule: histcmp_loop.induct)
  case (1 s t)
  show ?case
  proof (cases "at_end s \<or> at_end t")
    case True
    then have "histcmp_loop s t = 0 \<longleftrightarrow> c0 s = c0 t" by (subst histcmp_loop.simps) simp
    with True show ?thesis by (auto simp: c0_eq at_end_cstr)
  next
    case False
    then obtain a s' b t' where st: "s = a # s'" "t = b # t'" "a \<noteq> NUL" "b \<noteq> NUL"
      by (cases s; cases t) (auto simp: at_end_def)
    have ne: "c0 s = c0 t \<longleftrightarrow> a = b" using False st by (simp add: c0_eq)
    consider (both) "inblank a" "inblank b" | (left) "inblank a" "\<not> inblank b"
      | (diff) "\<not> inblank a" "a \<noteq> b" | (eq) "\<not> inblank a" "a = b" by blast
    then show ?thesis
    proof cases
      case both
      then have "histcmp_loop s t = histcmp_loop (dropWhile inblank s') (dropWhile inblank t')"
        using False st by (subst histcmp_loop.simps) simp
      with 1(1) False both st show ?thesis by (simp add: dropWhile_cstr)
    next
      case left
      then have "histcmp_loop s t = c0 s - c0 t" "a \<noteq> b" using False st by (subst histcmp_loop.simps, auto)
      moreover have "collapse (cstr s) \<noteq> collapse (cstr t)" using left st by (auto simp: inblank_def)
      ultimately show ?thesis using ne by simp
    next
      case diff
      then have "histcmp_loop s t = c0 s - c0 t" using False st by (subst histcmp_loop.simps) simp
      moreover have "collapse (cstr s) \<noteq> collapse (cstr t)" using diff st by (auto simp: inblank_def)
      ultimately show ?thesis using ne diff by simp
    next
      case eq
      then have "histcmp_loop s t = histcmp_loop s' t'" using False st by (subst histcmp_loop.simps) simp
      with 1(2) False eq st show ?thesis by simp
    qed
  qed
qed

fun collapsed_hash :: "32 word \<Rightarrow> string \<Rightarrow> 32 word" where
  "collapsed_hash h [] = h"
| "collapsed_hash h (c # s) =
     (if c = CHR '' '' then if s = [] then h else collapsed_hash (h + (push_bit 5 h + 32)) s
      else collapsed_hash (h + (push_bit 5 h + of_nat (of_char c))) s)"

lemma histhash_loop_collapse: "histhash_loop h s = collapsed_hash h (collapse (cstr s))"
proof (induction h s rule: histhash_loop.induct)
  case (2 h c s)
  consider "c = NUL" | (blank) "inblank c" "c \<noteq> NUL" | (other) "\<not> inblank c" "c \<noteq> NUL" by blast
  then show ?case
  proof cases
    case blank
    have "histhash_loop h (c # s) = collapsed_hash (if at_end (dropWhile inblank s) then h else h + (push_bit 5 h + 32))
        (collapse (cstr (dropWhile inblank s)))"
      using blank 2(1) [OF blank(2,1) refl] by (simp add: Let_def)
    then show ?thesis using blank
      by (cases "dropWhile inblank (cstr s) = []") (simp_all add: dropWhile_cstr at_end_cstr del: dropWhile_eq_Nil_conv)
  next
    case other
    then have "c \<noteq> CHR '' ''" by auto
    then show ?thesis using other 2(2) by simp
  qed simp
qed simp

text \<open>What the comparison of history lines identifies.\<close>

definition hist_norm :: "bool \<Rightarrow> string \<Rightarrow> string" where
  "hist_norm reduce s = (let u = cstr (dropWhile inblank s) in if reduce then u else collapse u)"

lemma histstrcmp_0: "histstrcmp reduce s t = 0 \<longleftrightarrow> hist_norm reduce s = hist_norm reduce t"
  by (simp add: histstrcmp_def hist_norm_def Let_def strcmp_0 histcmp_loop_0)

lemma key_ok_hist: "key_ok histhasher (histstrcmp reduce)"
proof -
  have "histhasher s = histhasher t" if "hist_norm reduce s = hist_norm reduce t" for s t
    using that by (cases reduce) (simp_all add: histhasher_def histhash_loop_collapse hist_norm_def Let_def)
  then show ?thesis unfolding key_ok_def histstrcmp_0 by metis
qed

section \<open>The tables as dictionaries\<close>

definition table :: "(string \<Rightarrow> 32 word) \<Rightarrow> (string \<Rightarrow> string \<Rightarrow> int) \<Rightarrow> 'v htab \<Rightarrow> addr set \<Rightarrow> bool" where
  "table h c ht N \<longleftrightarrow> (\<exists>cs. hwf ht cs \<and> members cs = N) \<and> hash ht = h \<and> cmpnodes ht = c \<and> scan_ok ht"

definition ready :: "'v htab \<Rightarrow> addr \<Rightarrow> bool" where
  "ready ht a \<longleftrightarrow> a \<noteq> 0 \<and> mem ht a \<noteq> None"

text \<open>\<open>addhashnode\<close>, with room for the deepest nesting of expansions the table can need.\<close>

definition addnode :: "'v htab \<Rightarrow> string \<Rightarrow> addr \<Rightarrow> 'v htab option" where
  "addnode ht nm hn = addhashnode (ct ht + 2) ht nm hn"

locale hashed =
  fixes h :: "string \<Rightarrow> 32 word" and c :: "string \<Rightarrow> string \<Rightarrow> int"
  assumes keys: "key_ok h c"

sublocale hashed \<subseteq> dict "table h c" ready "0 :: addr" gethashnode2 addnode removehashnode "\<lambda>s t. c s t = 0"
proof (unfold_locales, goal_cases)
  case (1 s N v k)
  then obtain cs where s: "hwf s cs" "members cs = N" "hash s = h" "cmpnodes s = c" "scan_ok s" by (auto simp: table_def)
  obtain n where v: "mem s v = Some n" "v \<noteq> 0" "v \<notin> members cs" using 1(2,3) s(2) by (auto simp: ready_def)
  from addhashnode_spec [OF s(1) v s(5), of "ct s + 2" k] obtain old s' cs' where
    a: "addhashnode (ct s + 2) s k v = Some s'" "stored s cs k v old s' cs'" by auto
  have t: "table h c s' (insert v (N - {old}))"
    using a(2) s unfolding table_def stored_def scan_ok_def by auto
  have o: "old = 0 \<or> old \<in> N" "gethashnode2 s k = Some old"
    using a(2) hwf_get [OF s(1), of k old] s(2) by (auto simp: stored_def split: if_splits)
  have r: "ready s' u" if "ready s u" "u \<notin> N" for u
  proof (cases "u = v")
    case True
    have "v \<noteq> old \<or> old = 0" using o(1) v(3) s(2) by auto
    then have "strip (mem s') v \<noteq> None" using a(2) unfolding stored_def by auto
    then show ?thesis using True v(2) by (auto simp: ready_def strip_def)
  next
    case False
    then show ?thesis using a(2) that s(2) by (auto simp: stored_def ready_def)
  qed
  show ?case using a(1) t o r stored_get [OF s(1) a(2) v(3,2)] s(4) by (auto simp: addnode_def)
next
  case (2 s N k)
  then obtain cs where s: "hwf s cs" "members cs = N" "hash s = h" "cmpnodes s = c" "scan_ok s" by (auto simp: table_def)
  from removehashnode_spec [OF s(1,5), of k] obtain old s' cs' where
    a: "removehashnode s k = Some (old, s')" "removed s cs k old s' cs'" by blast
  have "table h c s' (N - {old})" using a(2) s unfolding table_def removed_def scan_ok_def by auto
  moreover have "gethashnode2 s k = Some old" using a(2) by (simp add: removed_def)
  moreover have "ready s' u" if "ready s u" "u \<notin> N" for u using a(2) that s(2) by (auto simp: removed_def ready_def)
  ultimately show ?case using a(1) removed_get [OF s(1) a(2)] s(4) by auto
qed

interpretation plain: hashed hasher strcmp
  by unfold_locales (rule key_ok_str)

text \<open>
  The table of history lines has a method of its own for additions (\<open>Hash_History\<close>); of the pair
  it is kept by, \<open>key_ok_hist\<close> is the contract.
\<close>

end
