(* ===== verification/Hash_Tables.thy ===== *)
theory Hash_Tables
  imports Hash_Keys
begin

text \<open>
  The tables of reserved words and of aliases, as \<open>Src/hashtable.c\<close> creates them, and the
  words the lexer then finds in them.
\<close>

section \<open>Reserved words\<close>

datatype (plugins only:) lextok =
  NULLTOK | SEPER | NEWLIN | SEMI | DSEMI | AMPER | INPAR | OUTPAR | DBAR | DAMPER | OUTANG
  | OUTANGBANG | DOUTANG | DOUTANGBANG | INANG | INOUTANG | DINANG | DINANGDASH | INANGAMP
  | OUTANGAMP | AMPOUTANG | OUTANGAMPBANG | DOUTANGAMP | DOUTANGAMPBANG | TRINANG | BAR
  | BARAMP | INOUTPAR | DINPAR | DOUTPAR | AMPERBANG | SEMIAMP | SEMIBAR | DOUTBRACK
  | STRING | ENVSTRING | ENVARRAY | ENDINPUT | LEXERR | BANG | DINBRACK | INBRACE | OUTBRACE
  | CASE | COPROC | DOLOOP | DONE | ELIF | ELSE | ZEND | ESAC | FI | FOR | FOREACH | FUNC
  | IF | NOCORRECT | REPEAT | SELECT | THEN | TIME | UNTIL | WHILE | TYPESET

definition reswds :: "(string \<times> lextok) list" where
  "reswds =
    [(''!'', BANG), (''[['', DINBRACK), (''{'', INBRACE), (''}'', OUTBRACE),
     (''case'', CASE), (''coproc'', COPROC), (''declare'', TYPESET), (''do'', DOLOOP),
     (''done'', DONE), (''elif'', ELIF), (''else'', ELSE), (''end'', ZEND), (''esac'', ESAC),
     (''export'', TYPESET), (''fi'', FI), (''float'', TYPESET), (''for'', FOR),
     (''foreach'', FOREACH), (''function'', FUNC), (''if'', IF), (''integer'', TYPESET),
     (''local'', TYPESET), (''nocorrect'', NOCORRECT), (''readonly'', TYPESET),
     (''repeat'', REPEAT), (''select'', SELECT), (''then'', THEN), (''time'', TIME),
     (''typeset'', TYPESET), (''until'', UNTIL), (''while'', WHILE)]"

text \<open>The static array \<open>reswds\<close> in memory: element \<open>i\<close> is the cell \<open>i + 1\<close>.\<close>

definition reswd_mem :: "addr \<rightharpoonup> lextok hnode" where
  "reswd_mem a = (if 0 < a \<and> a \<le> length reswds
     then Some \<lparr>hnext = 0, nam = fst (reswds ! (a - 1)), flags = 0, body = snd (reswds ! (a - 1))\<rparr> else None)"

text \<open>The loop that adds the elements of an array, from the cell \<open>rw\<close> on.\<close>

fun add_words :: "string list \<Rightarrow> addr \<Rightarrow> 'v htab \<Rightarrow> 'v htab option" where
  "add_words [] rw ht = Some ht"
| "add_words (nm # nms) rw ht = do { ht \<leftarrow> addnode ht nm rw; add_words nms (rw + 1) ht }"

definition createreswdtable :: "lextok htab option" where
  "createreswdtable = add_words (map fst reswds) 1 ((newhashtable 23 hasher strcmp)\<lparr>mem := reswd_mem\<rparr>)"

section \<open>Aliases\<close>

record alias_body =
  al_text :: string
  inuse :: nat

definition ALIAS_GLOBAL :: "32 word" where "ALIAS_GLOBAL = 2"
definition ALIAS_SUFFIX :: "32 word" where "ALIAS_SUFFIX = 4"

definition createaliasnode :: "string \<Rightarrow> 32 word \<Rightarrow> alias_body hnode" where
  "createaliasnode tx fl = \<lparr>hnext = 0, nam = [], flags = fl, body = \<lparr>al_text = tx, inuse = 0\<rparr>\<rparr>"

text \<open>A new alias in the cell \<open>al\<close> the allocator gave.\<close>

definition add_alias :: "addr \<Rightarrow> string \<Rightarrow> string \<Rightarrow> 32 word \<Rightarrow> alias_body htab \<Rightarrow> alias_body htab option" where
  "add_alias al nm tx fl ht = addnode (ht\<lparr>mem := (mem ht)(al \<mapsto> createaliasnode tx fl)\<rparr>) nm al"

definition createaliastables :: "addr \<Rightarrow> addr \<Rightarrow> (alias_body htab \<times> alias_body htab) option" where
  "createaliastables a1 a2 =
     do { aliastab \<leftarrow> add_alias a1 ''run-help'' ''man'' 0 (newhashtable 23 hasher strcmp);
          aliastab \<leftarrow> add_alias a2 ''which-command'' ''whence'' 0 aliastab;
          Some (aliastab, newhashtable 11 hasher strcmp) }"

section \<open>Tables right after their creation\<close>

lemma new_hwf:
  "0 < n \<Longrightarrow> key_ok h c \<Longrightarrow> hwf ((newhashtable n h c)\<lparr>mem := m\<rparr>) (replicate n []) \<and> members (replicate n []) = {}"
  using empty_hwf [of "(newhashtable n h c)\<lparr>mem := m\<rparr>"] by (simp add: newhashtable_def)

lemma new_table: "0 < n \<Longrightarrow> key_ok h c \<Longrightarrow> table h c ((newhashtable n h c)\<lparr>mem := m\<rparr>) {}"
  unfolding table_def using new_hwf [of n h c m] by (auto simp: newhashtable_def scan_ok_def)

lemma new_get: "0 < n \<Longrightarrow> key_ok h c \<Longrightarrow> gethashnode2 ((newhashtable n h c)\<lparr>mem := m\<rparr>) s = Some 0"
  using new_hwf [of n h c m] hwf_get [of "(newhashtable n h c)\<lparr>mem := m\<rparr>" "replicate n []" s 0] by simp

lemma add_words_puts:
  fixes ht :: "'v htab"
  shows "add_words nms rw ht = plain.puts (zip nms [rw..<rw + length nms]) ht"
proof (induction nms arbitrary: rw ht)
  case (Cons nm nms)
  have "[rw..<rw + length (nm # nms)] = rw # [rw + 1..<rw + 1 + length nms]" by (subst upt_conv_Cons) simp_all
  then have "zip (nm # nms) [rw..<rw + length (nm # nms)] = (nm, rw) # zip nms [rw + 1..<rw + 1 + length nms]"
    by (simp only: zip_Cons_Cons)
  moreover have "(add_words nms (rw + 1) :: 'v htab \<Rightarrow> _) = plain.puts (zip nms [rw + 1..<rw + 1 + length nms])"
    by (rule ext) (rule Cons.IH)
  ultimately show ?case by (simp only: add_words.simps plain.puts.simps fst_conv snd_conv)
qed simp

lemma find_zip_upt:
  assumes "distinct nms" "find (\<lambda>(k, v). P k) (rev (zip nms [rw..<rw + length nms])) = r"
    and "\<And>k j. k \<in> set nms \<Longrightarrow> j \<in> set nms \<Longrightarrow> P k \<Longrightarrow> P j \<Longrightarrow> k = j"
  shows "i < length nms \<Longrightarrow> P (nms ! i) \<Longrightarrow> r = Some (nms ! i, rw + i)" "(\<And>k. k \<in> set nms \<Longrightarrow> \<not> P k) \<Longrightarrow> r = None"
proof -
  let ?z = "zip nms [rw..<rw + length nms]"
  have z: "(k, v) \<in> set ?z \<longleftrightarrow> (\<exists>i < length nms. k = nms ! i \<and> v = rw + i)" for k v
    by (auto simp: set_zip)
  show "(\<And>k. k \<in> set nms \<Longrightarrow> \<not> P k) \<Longrightarrow> r = None"
    using assms(2) by (auto simp: find_None_iff z)
  assume i: "i < length nms" "P (nms ! i)"
  have in_z: "(nms ! i, rw + i) \<in> set (rev ?z)" using i z by auto
  have "find (\<lambda>(k, v). P k) (rev ?z) \<noteq> None"
  proof
    assume "find (\<lambda>(k, v). P k) (rev ?z) = None"
    with in_z i(2) show False unfolding find_None_iff by auto
  qed
  then obtain k v where kv: "r = Some (k, v)" unfolding assms(2) by fast
  have "find (\<lambda>(k, v). P k) (rev ?z) = Some (k, v)" using kv assms(2) by simp
  then obtain m where "m < length (rev ?z)" "rev ?z ! m = (k, v)" "P k" by (auto simp: find_Some_iff)
  then have "(k, v) \<in> set ?z" "P k" using nth_mem [of m "rev ?z"] by simp_all
  then obtain j where j: "j < length nms" "k = nms ! j" "v = rw + j" "P k" using z by blast
  then have "nms ! j = nms ! i" using assms(3) i by simp
  then have "j = i" using assms(1) i(1) j(1) nth_eq_iff_index_eq by blast
  with j kv show "r = Some (nms ! i, rw + i)" by simp
qed

section \<open>Tables filled from a static array\<close>

text \<open>Distinct names all go in: no node is replaced, and none loses its flags or its body.\<close>

lemma storedD:
  assumes "stored ht cs nm hn old ht' cs'"
  shows "hwf ht' cs'" "gethashnode2 ht nm = Some old" "members cs' = insert hn (members cs - {old})"
    "cmpnodes ht' = cmpnodes ht" "scan ht' = scan ht"
    "a \<noteq> old \<or> old = 0 \<Longrightarrow> strip (mem ht') a = ((strip (mem ht))(hn \<mapsto> (the (mem ht hn))\<lparr>nam := nm, hnext := 0\<rparr>)) a"
    "a \<notin> insert hn (members cs) \<Longrightarrow> mem ht' a = mem ht a"
  using assms unfolding stored_def by (elim conjE, blast)+

lemma add_words_keeps:
  fixes ht :: "'v htab"
  shows "hwf ht cs \<Longrightarrow> scan ht = None \<Longrightarrow> cmpnodes ht = strcmp \<Longrightarrow> 0 < rw \<Longrightarrow> members cs \<inter> {rw..} = {} \<Longrightarrow>
    (\<And>i. i < length nms \<Longrightarrow> mem ht (rw + i) \<noteq> None) \<Longrightarrow> distinct nms \<Longrightarrow>
    (\<And>w. w \<in> set nms \<Longrightarrow> cstr w = w \<and> gethashnode2 ht w = Some 0) \<Longrightarrow>
    \<exists>ht' cs'. add_words nms rw ht = Some ht' \<and> hwf ht' cs' \<and> members cs' = members cs \<union> {rw..<rw + length nms} \<and>
      scan ht' = None \<and> (\<forall>a. a \<notin> {rw..<rw + length nms} \<longrightarrow> strip (mem ht') a = strip (mem ht) a) \<and>
      (\<forall>i < length nms. strip (mem ht') (rw + i) = Some ((the (mem ht (rw + i)))\<lparr>nam := nms ! i, hnext := 0\<rparr>))"
proof (induction nms arbitrary: rw ht cs)
  case Nil
  then show ?case by auto
next
  case (Cons nm nms)
  obtain n0 where n0: "mem ht rw = Some n0" using Cons.prems(6) [of 0] by auto
  have rw: "rw \<noteq> 0" "rw \<notin> members cs" using Cons.prems(4,5) by auto
  have so: "scan_ok ht" using Cons.prems(2) by (simp add: scan_ok_def)
  from addhashnode_spec [OF Cons.prems(1) n0 rw so, of "ct ht + 2" nm] obtain old h cs1 where
    a: "addhashnode (ct ht + 2) ht nm rw = Some h" "stored ht cs nm rw old h cs1" by auto
  note s = storedD [OF a(2)]
  have o: "old = 0" using s(2) Cons.prems(8) [of nm] by simp
  have w: "hwf h cs1" "scan h = None" "cmpnodes h = strcmp" using s(1,4,5) Cons.prems(2,3) by simp_all
  have m: "members cs1 = insert rw (members cs)" using s(3) o hwf_member [OF Cons.prems(1), of 0] by auto
  have sm: "strip (mem h) b = (if b = rw then Some (n0\<lparr>nam := nm, hnext := 0\<rparr>) else strip (mem ht) b)" for b
    using s(6) [of b] n0 o by simp
  have other: "mem h b = mem ht b" if "b \<notin> insert rw (members cs)" for b using s(7) [OF that] .
  have up: "members cs1 \<inter> {rw + 1..} = {}" using Cons.prems(5) m by auto
  have up2: "rw + Suc i \<notin> insert rw (members cs)" for i using Cons.prems(5) by auto
  have ms: "mem h (rw + 1 + i) = mem ht (rw + Suc i)" for i using other [OF up2] by simp
  have fresh: "cstr v = v \<and> gethashnode2 h v = Some 0" if "v \<in> set nms" for v
  proof -
    have "nm \<noteq> v" "cstr v = v" "cstr nm = nm" "gethashnode2 ht v = Some 0" using that Cons.prems(7,8) by auto
    then show ?thesis using stored_get [OF Cons.prems(1) a(2) rw(2,1), of v] Cons.prems(3) by (simp add: strcmp_0)
  qed
  have "\<exists>ht' cs'. add_words nms (rw + 1) h = Some ht' \<and> hwf ht' cs' \<and>
      members cs' = members cs1 \<union> {rw + 1..<rw + 1 + length nms} \<and> scan ht' = None \<and>
      (\<forall>a. a \<notin> {rw + 1..<rw + 1 + length nms} \<longrightarrow> strip (mem ht') a = strip (mem h) a) \<and>
      (\<forall>i < length nms. strip (mem ht') (rw + 1 + i) = Some ((the (mem h (rw + 1 + i)))\<lparr>nam := nms ! i, hnext := 0\<rparr>))"
  proof (rule Cons.IH [OF w _ up])
    show "mem h (rw + 1 + i) \<noteq> None" if "i < length nms" for i using Cons.prems(6) [of "Suc i"] that ms [of i] by simp
  qed (use Cons.prems(7) fresh in auto)
  then obtain t ds where t: "add_words nms (rw + 1) h = Some t" "hwf t ds"
    "members ds = members cs1 \<union> {rw + 1..<rw + 1 + length nms}" "scan t = None"
    "\<forall>a. a \<notin> {rw + 1..<rw + 1 + length nms} \<longrightarrow> strip (mem t) a = strip (mem h) a"
    "\<forall>i < length nms. strip (mem t) (rw + 1 + i) = Some ((the (mem h (rw + 1 + i)))\<lparr>nam := nms ! i, hnext := 0\<rparr>)"
    by (elim exE conjE) (rule that)
  have "{rw..<rw + length (nm # nms)} = insert rw {rw + 1..<rw + 1 + length nms}" by auto
  then have "members ds = members cs \<union> {rw..<rw + length (nm # nms)}" unfolding t(3) m by simp
  moreover have "strip (mem t) (rw + i) = Some ((the (mem ht (rw + i)))\<lparr>nam := (nm # nms) ! i, hnext := 0\<rparr>)"
    if "i < length (nm # nms)" for i
  proof (cases i)
    case 0
    then show ?thesis using t(5) [THEN spec, of rw] sm n0 by simp
  next
    case (Suc j)
    then show ?thesis using t(6) [THEN spec, of j] that ms [of j] by simp
  qed
  moreover have "strip (mem t) b = strip (mem ht) b" if "b \<notin> {rw..<rw + length (nm # nms)}" for b
  proof -
    have "b \<noteq> rw" "b \<notin> {rw + 1..<rw + 1 + length nms}" using that by auto
    then show ?thesis using t(5) sm by simp
  qed
  moreover have "add_words (nm # nms) rw ht = Some t" using a(1) t(1) by (simp add: addnode_def)
  ultimately show ?case using t(2,4) by blast
qed

lemma static_table:
  fixes m :: "addr \<rightharpoonup> 'v hnode"
  assumes sz: "0 < sz" and d: "distinct nms" and nul: "\<forall>w \<in> set nms. cstr w = w"
    and m: "\<forall>i < length nms. m (1 + i) \<noteq> None"
  defines "ht0 \<equiv> (newhashtable sz hasher strcmp)\<lparr>mem := m\<rparr>"
  shows "\<exists>ht cs. add_words nms 1 ht0 = Some ht \<and> table hasher strcmp ht (members cs) \<and>
    hwf ht cs \<and> members cs = {1..<1 + length nms} \<and> scan ht = None \<and>
    (\<forall>i s. i < length nms \<longrightarrow> cstr s = nms ! i \<longrightarrow> gethashnode2 ht s = Some (i + 1)) \<and>
    (\<forall>s. cstr s \<notin> set nms \<longrightarrow> gethashnode2 ht s = Some 0) \<and>
    (\<forall>i < length nms. strip (mem ht) (i + 1) = Some ((the (m (i + 1)))\<lparr>nam := nms ! i, hnext := 0\<rparr>)) \<and>
    (\<forall>a. a \<notin> {1..<1 + length nms} \<longrightarrow> strip (mem ht) a = strip m a)"
proof -
  let ?z = "zip nms [1..<1 + length nms]"
  have t0: "table hasher strcmp ht0 {}" unfolding ht0_def by (rule new_table [OF sz key_ok_str])
  have w0: "hwf ht0 (replicate sz [])" "members (replicate sz []) = {}"
    unfolding ht0_def using new_hwf [OF sz key_ok_str] by blast+
  have g0: "gethashnode2 ht0 s = Some 0" for s unfolding ht0_def by (rule new_get [OF sz key_ok_str])
  have r0: "mem ht0 (1 + i) = m (1 + i)" "scan ht0 = None" "cmpnodes ht0 = strcmp" for i
    by (simp_all add: ht0_def newhashtable_def)
  have "\<exists>ht cs. add_words nms 1 ht0 = Some ht \<and> hwf ht cs \<and> members cs = members (replicate sz []) \<union> {1..<1 + length nms} \<and>
      scan ht = None \<and> (\<forall>a. a \<notin> {1..<1 + length nms} \<longrightarrow> strip (mem ht) a = strip (mem ht0) a) \<and>
      (\<forall>i < length nms. strip (mem ht) (1 + i) = Some ((the (mem ht0 (1 + i)))\<lparr>nam := nms ! i, hnext := 0\<rparr>))"
    by (rule add_words_keeps [OF w0(1)]) (use r0 w0(2) m d nul g0 in auto)
  then obtain ht cs where k: "add_words nms 1 ht0 = Some ht" "hwf ht cs" "members cs = {1..<1 + length nms}" "scan ht = None"
    "\<forall>a. a \<notin> {1..<1 + length nms} \<longrightarrow> strip (mem ht) a = strip (mem ht0) a"
    "\<forall>i < length nms. strip (mem ht) (1 + i) = Some ((the (mem ht0 (1 + i)))\<lparr>nam := nms ! i, hnext := 0\<rparr>)"
    unfolding w0(2) by (elim exE conjE) (simp add: that)
  have "\<forall>(k, v) \<in> set ?z. ready ht0 v \<and> v \<notin> {}"
  proof clarify
    fix k v assume "(k, v) \<in> set ?z"
    then obtain i where "i < length nms" "v = 1 + i" by (auto simp: set_zip simp del: upt.simps)
    then show "ready ht0 v \<and> v \<notin> {}" using m r0(1) [of i] by (simp add: ready_def)
  qed
  moreover have "distinct (map snd ?z)" by simp
  ultimately obtain t M where p: "plain.puts ?z ht0 = Some t" "table hasher strcmp t M"
    "\<And>j. gethashnode2 t j = (case find (\<lambda>(k, v). strcmp k j = 0) (rev ?z) of None \<Rightarrow> gethashnode2 ht0 j | Some (k, v) \<Rightarrow> Some v)"
    using plain.puts_get [OF t0, of ?z] by blast
  have "t = ht" using p(1) k(1) by (simp add: add_words_puts)
  note p = p [unfolded this]
  have T: "table hasher strcmp ht (members cs)" using p(2) k(2) by (auto simp: table_def)
  have inj: "k = j" if "k \<in> set nms" "j \<in> set nms" "strcmp k s = 0" "strcmp j s = 0" for k j s
    using that nul unfolding strcmp_0 by metis
  have "gethashnode2 ht s = Some (i + 1)" if i: "i < length nms" "cstr s = nms ! i" for i s
  proof -
    have "strcmp (nms ! i) s = 0" using i nul by (simp add: strcmp_0)
    then have "find (\<lambda>(k, v). strcmp k s = 0) (rev ?z) = Some (nms ! i, 1 + i)"
      using find_zip_upt(1) [where P = "\<lambda>k. strcmp k s = 0" and rw = 1, OF d refl inj i(1)] by simp
    then show ?thesis unfolding p(3) by simp
  qed
  moreover have "gethashnode2 ht s = Some 0" if s: "cstr s \<notin> set nms" for s
  proof -
    have "strcmp k s \<noteq> 0" if "k \<in> set nms" for k using that s nul unfolding strcmp_0 by metis
    then have "find (\<lambda>(k, v). strcmp k s = 0) (rev ?z) = None"
      using find_zip_upt(2) [where P = "\<lambda>k. strcmp k s = 0" and rw = 1, OF d refl inj] by simp
    then show ?thesis unfolding p(3) using g0 by simp
  qed
  moreover have "strip (mem ht) (i + 1) = Some ((the (m (i + 1)))\<lparr>nam := nms ! i, hnext := 0\<rparr>)" if "i < length nms" for i
    using k(6) that r0(1) [of i] by (simp add: add.commute)
  moreover have "\<forall>a. a \<notin> {1..<1 + length nms} \<longrightarrow> strip (mem ht) a = strip m a"
    using k(5) by (simp add: ht0_def)
  ultimately show ?thesis using k(1-4) T by blast
qed

section \<open>What the lexer finds\<close>

lemma reswds_facts: "distinct (map fst reswds)" "\<forall>w \<in> set (map fst reswds). cstr w = w" "length reswds = 31"
proof -
  show "distinct (map fst reswds)" by (simp add: reswds_def)
  have "\<forall>w \<in> set (map fst reswds). NUL \<notin> set w" by code_simp
  then show "\<forall>w \<in> set (map fst reswds). cstr w = w" by simp
  show "length reswds = 31" by (simp add: reswds_def)
qed

lemma createreswdtable_spec:
  "\<exists>ht N. createreswdtable = Some ht \<and> table hasher strcmp ht N \<and>
    (\<forall>i < length reswds. gethashnode2 ht (fst (reswds ! i)) = Some (i + 1)) \<and>
    (\<forall>s. cstr s \<notin> fst ` set reswds \<longrightarrow> gethashnode2 ht s = Some 0)"
proof -
  have m: "\<forall>i < length (map fst reswds). reswd_mem (1 + i) \<noteq> None"
    by (simp add: reswd_mem_def)
  from static_table [where sz = 23 and m = reswd_mem, OF _ reswds_facts(1,2) m] obtain ht cs where
    c: "createreswdtable = Some ht" "table hasher strcmp ht (members cs)"
    "\<And>i s. i < length reswds \<Longrightarrow> cstr s = fst (reswds ! i) \<Longrightarrow> gethashnode2 ht s = Some (i + 1)"
    "\<And>s. cstr s \<notin> fst ` set reswds \<Longrightarrow> gethashnode2 ht s = Some 0"
    unfolding createreswdtable_def by auto
  moreover have "cstr (fst (reswds ! i)) = fst (reswds ! i)" if "i < length reswds" for i
    using reswds_facts(2) that by simp
  ultimately show ?thesis by blast
qed

end
