(* ===== verification/Hash_History.thy ===== *)
theory Hash_History
  imports Hash_Keys
begin

text \<open>
  The table of history lines of \<open>Src/hashtable.c\<close>: its method \<open>addhistnode\<close>, which may give the
  name back to the entry that had it, and \<open>freehistnode\<close>, which takes an entry out of the ring
  of history lines.
\<close>

section \<open>Entries and the ring\<close>

text \<open>\<open>struct histent\<close> without the text being edited, the times and the positions of words.\<close>

record histent =
  up :: addr
  down :: addr

definition HIST_MAKEUNIQUE :: "32 word" where "HIST_MAKEUNIQUE = 1"
definition HIST_DUP :: "32 word" where "HIST_DUP = 8"
definition HIST_FOREIGN :: "32 word" where "HIST_FOREIGN = 0x10"
definition HIST_TMPSTORE :: "32 word" where "HIST_TMPSTORE = 0x20"

text \<open>\<open>curline\<close> is a variable; its address stands for it.\<close>

record history =
  histtab :: "histent htab"
  hist_ring :: addr
  histlinect :: int
  curline :: addr
  hist_ignore_all_dups :: bool

definition createhisttable :: "bool \<Rightarrow> histent htab" where
  "createhisttable reduce = newhashtable 599 histhasher (histstrcmp reduce)"

section \<open>Freeing an entry\<close>

text \<open>\<open>he->up->down = he->down; he->down->up = he->up\<close>.\<close>

definition unlink_ring :: "addr \<Rightarrow> histent htab \<Rightarrow> histent htab option" where
  "unlink_ring he ht = do {
     n \<leftarrow> node ht he;
     ht \<leftarrow> upd_node (body_update (down_update (\<lambda>_. down (body n)))) ht (up (body n));
     n \<leftarrow> node ht he;
     upd_node (body_update (up_update (\<lambda>_. up (body n)))) ht (down (body n)) }"

definition freehistdata :: "addr \<Rightarrow> bool \<Rightarrow> history \<Rightarrow> history option" where
  "freehistdata he unlinking st =
     (if he = 0 \<or> he = curline st then Some st
      else do {
        n \<leftarrow> node (histtab st) he;
        st \<leftarrow> (if flags n AND (HIST_DUP OR HIST_TMPSTORE) = 0
          then do { (_, ht) \<leftarrow> removehashnode (histtab st) (nam n); Some (st\<lparr>histtab := ht\<rparr>) }
          else Some st);
        if unlinking
        then (let st = st\<lparr>histlinect := histlinect st - 1\<rparr>
              in if histlinect st = 0 then Some (st\<lparr>hist_ring := 0\<rparr>)
              else do {
                n \<leftarrow> node (histtab st) he;
                let st = (if he = hist_ring st then st\<lparr>hist_ring := up (body n)\<rparr> else st);
                ht \<leftarrow> unlink_ring he (histtab st);
                Some (st\<lparr>histtab := ht\<rparr>) })
        else Some st })"

definition freehistnode :: "addr \<Rightarrow> history \<Rightarrow> history option" where
  "freehistnode he st = do {
     st \<leftarrow> freehistdata he True st;
     ht \<leftarrow> freenode (histtab st) he;
     Some (st\<lparr>histtab := ht\<rparr>) }"

section \<open>Addition\<close>

text \<open>
  \<open>addhistnode\<close> is the method \<open>addnode\<close> of the table, so that an expansion calls it for every
  node.  As for \<open>addhashnode\<close> the first argument bounds the nesting.  An expansion that freed
  an entry, and so changed the ring, would be \<open>None\<close>; the specification shows that there is none.
\<close>

fun addhistnode :: "nat \<Rightarrow> history \<Rightarrow> string \<Rightarrow> addr \<Rightarrow> history option" where
  "addhistnode 0 st nm he = None"
| "addhistnode (Suc k) st nm he = do {
     let addnode = (\<lambda>ht nm hn. do {
       st' \<leftarrow> addhistnode k (st\<lparr>histtab := ht\<rparr>) nm hn;
       if hist_ring st' = hist_ring st \<and> histlinect st' = histlinect st then Some (histtab st') else None });
     (oldnode, ht) \<leftarrow> addhashnode2 addnode (histtab st) nm he;
     n \<leftarrow> node ht he;
     if oldnode \<noteq> 0 \<and> oldnode \<noteq> he
     then if flags n AND HIST_MAKEUNIQUE \<noteq> 0 \<or> (flags n AND HIST_FOREIGN \<noteq> 0 \<and> oldnode = up (body n))
       then do {
         o' \<leftarrow> node ht oldnode;
         (_, ht) \<leftarrow> addhashnode2 addnode ht (nam o') oldnode;
         ht \<leftarrow> upd_node (flags_update (\<lambda>f. f OR HIST_DUP)) ht he;
         ht \<leftarrow> upd_node (flags_update (\<lambda>f. f AND NOT HIST_MAKEUNIQUE)) ht he;
         Some (st\<lparr>histtab := ht\<rparr>) }
       else do {
         ht \<leftarrow> upd_node (flags_update (\<lambda>f. f OR HIST_DUP)) ht oldnode;
         let st = st\<lparr>histtab := ht\<rparr>;
         if hist_ignore_all_dups st then freehistnode oldnode st else Some st }
     else do {
       ht \<leftarrow> upd_node (flags_update (\<lambda>f. f AND NOT HIST_MAKEUNIQUE)) ht he;
       Some (st\<lparr>histtab := ht\<rparr>) } }"

text \<open>With room for the deepest nesting of expansions the table can need.\<close>

definition addhist :: "history \<Rightarrow> string \<Rightarrow> addr \<Rightarrow> history option" where
  "addhist st nm he = addhistnode (ct (histtab st) + 2) st nm he"

section \<open>Cells and the invariant\<close>

text \<open>The invariant depends on names and links only.\<close>

definition same_links :: "(addr \<rightharpoonup> 'v hnode) \<Rightarrow> (addr \<rightharpoonup> 'v hnode) \<Rightarrow> bool" where
  "same_links m m' \<longleftrightarrow> (\<forall>a. map_option (\<lambda>n. (nam n, hnext n)) (m' a) = map_option (\<lambda>n. (nam n, hnext n)) (m a))"

lemma same_linksD:
  assumes "same_links m m'"
  shows "hname m' a = hname m a" "m a = Some n \<Longrightarrow> \<exists>n'. m' a = Some n' \<and> nam n' = nam n \<and> hnext n' = hnext n"
    "m' a = None \<longleftrightarrow> m a = None"
proof -
  have e: "map_option (\<lambda>n. (nam n, hnext n)) (m' a) = map_option (\<lambda>n. (nam n, hnext n)) (m a)"
    using assms by (simp add: same_links_def)
  show "hname m' a = hname m a" "m a = Some n \<Longrightarrow> \<exists>n'. m' a = Some n' \<and> nam n' = nam n \<and> hnext n' = hnext n"
    "m' a = None \<longleftrightarrow> m a = None"
    using e by (cases "m a"; cases "m' a"; simp add: hname_def)+
qed

lemma hwf_links:
  assumes w: "hwf ht cs" and l: "same_links (mem ht) m'"
  shows "hwf (ht\<lparr>mem := m'\<rparr>) cs"
proof -
  let ?h = "ht\<lparr>mem := m'\<rparr>"
  note hn = same_linksD(1) [OF l]
  have k: "same_key ?h b t = same_key ht b t" "idx ?h b = idx ht b" for b t by (simp_all add: same_key_def idx_def hn)
  have c: "hchain (mem ht) b xs \<Longrightarrow> hchain m' b xs" for b xs
    by (induction xs arbitrary: b) (auto dest: same_linksD(2) [OF l])
  have "bucket_ok ?h i (cs ! i)" if "i < hsize ht" for i
    using hwfD(6) [OF w that] c unfolding bucket_ok_def k by (simp add: hn)
  then show ?thesis using w by (simp add: hwf_def)
qed

lemma same_links_upd: "m a = Some n \<Longrightarrow> nam n' = nam n \<Longrightarrow> hnext n' = hnext n \<Longrightarrow> same_links m (m(a \<mapsto> n'))"
  by (simp add: same_links_def)

lemma same_links_trans: "same_links a b \<Longrightarrow> same_links b c \<Longrightarrow> same_links a c"
  by (simp add: same_links_def)

text \<open>\<open>addhistnode\<close> changes the flags of the node it adds.\<close>

definition settle :: "'v hnode \<Rightarrow> 'v hnode" where
  "settle n = n\<lparr>flags := flags n AND NOT HIST_MAKEUNIQUE\<rparr>"

lemma settle_simps [simp]: "nam (settle n) = nam n" "hnext (settle n) = hnext n" "body (settle n) = body n"
  "flags (settle n) = flags n AND NOT HIST_MAKEUNIQUE"
  by (simp_all add: settle_def)

lemma tame_settle: "tame settle"
  by (simp add: tame_def settle_def word_bw_assocs)

lemma settle_settled: "flags n AND HIST_MAKEUNIQUE = 0 \<Longrightarrow> settle n = n"
proof -
  assume a: "flags n AND HIST_MAKEUNIQUE = 0"
  have "flags n AND NOT HIST_MAKEUNIQUE = flags n"
    using a by (metis and.right_neutral bit.conj_disj_distrib bit.disj_cancel_right or.left_neutral)
  then show ?thesis by (simp add: settle_def)
qed

section \<open>A new name\<close>

definition hist_method :: "nat \<Rightarrow> history \<Rightarrow> histent htab \<Rightarrow> string \<Rightarrow> addr \<Rightarrow> histent htab option" where
  "hist_method k st ht nm hn = do {
     st' \<leftarrow> addhistnode k (st\<lparr>histtab := ht\<rparr>) nm hn;
     if hist_ring st' = hist_ring st \<and> histlinect st' = histlinect st then Some (histtab st') else None }"


declare addhistnode.simps [simp del]

lemma hist_method_fold: "(\<lambda>ht nm hn. do {
     st' \<leftarrow> addhistnode k (st\<lparr>histtab := ht\<rparr>) nm hn;
     if hist_ring st' = hist_ring st \<and> histlinect st' = histlinect st then Some (histtab st') else None }) = hist_method k st"
  by (intro ext) (simp add: hist_method_def)

text \<open>Changing the flags of a node.\<close>

lemma upd_flags:
  assumes "mem ht a = Some n" "a \<noteq> 0"
  shows "upd_node (flags_update g) ht a = Some (ht\<lparr>mem := (mem ht)(a \<mapsto> n\<lparr>flags := g (flags n)\<rparr>)\<rparr>)"
proof -
  have e: "n\<lparr>flags := g (flags n)\<rparr> = flags_update g n" by (cases n) simp
  show ?thesis unfolding e using assms by (simp add: upd_node_def node_def)
qed

lemma strip_node: "strip m a = Some n' \<Longrightarrow> \<exists>n. m a = Some n \<and> n' = n\<lparr>hnext := 0\<rparr>"
  by (auto simp: strip_def)

lemma settle_hnext: "settle (n\<lparr>hnext := x\<rparr>) = (settle n)\<lparr>hnext := x\<rparr>"
  by (simp add: settle_def)

lemma up_to_settle:
  assumes "up_to settle X (strip m)" "m a = Some n"
  shows "up_to settle X (strip (m(a \<mapsto> settle n)))" "strip (m(a \<mapsto> settle n)) a = map_option settle (X a)"
proof -
  have i: "settle (settle k) = settle k" for k :: "'a hnode" using tame_settle by (simp add: tame_def)
  have "strip m a = X a \<or> strip m a = map_option settle (X a)" using assms(1) by (simp add: up_to_def)
  then show s: "strip (m(a \<mapsto> settle n)) a = map_option settle (X a)"
    using assms(2) by (cases "X a") (auto simp: strip_def settle_hnext [symmetric] i)
  show "up_to settle X (strip (m(a \<mapsto> settle n)))"
    unfolding up_to_def
  proof
    fix b
    show "strip (m(a \<mapsto> settle n)) b = X b \<or> strip (m(a \<mapsto> settle n)) b = map_option settle (X b)"
      using s assms(1) by (cases "b = a") (simp_all add: up_to_def strip_def)
  qed
qed

lemma addhist_new:
  assumes A: "adds settle (hist_method k st) B" and w: "hwf (histtab st) cs"
    and hn: "mem (histtab st) v = Some n0" "v \<noteq> 0" "v \<notin> members cs"
    and c: "scan (histtab st) = None \<Longrightarrow> ct (histtab st) + 1 < max 2 (4 * B) * hsize (histtab st)"
    and so: "scan_ok (histtab st)" and g: "gethashnode2 (histtab st) nm = Some 0"
  obtains ht' cs' where "addhistnode (Suc k) st nm v = Some (st\<lparr>histtab := ht'\<rparr>)"
    "added settle (histtab st) cs nm v 0 ht' cs'" "strip (mem ht') v = Some (settle (n0\<lparr>nam := nm, hnext := 0\<rparr>))"
proof -
  let ?ht = "histtab st"
  obtain old h1 c1 where h1: "addhashnode2 (hist_method k st) ?ht nm v = Some (old, h1)"
    "added settle ?ht cs nm v old h1 c1"
    using addhashnode2_spec [OF tame_settle A w hn c so, of nm] by blast
  have o: "old = 0" using h1(2) g by (simp add: added_def)
  note a = h1(2) [unfolded added_def o]
  have m: "v \<in> members c1" using a by simp
  then obtain n where n: "mem h1 v = Some n" using hwf_member [of h1 c1 v] a by blast
  let ?h = "h1\<lparr>mem := (mem h1)(v \<mapsto> settle n)\<rparr>"
  have l: "same_links (mem h1) ((mem h1)(v \<mapsto> settle n))" by (rule same_links_upd [where m = "mem h1", OF n]) simp_all
  have u: "up_to settle ((strip (mem ?ht))(v \<mapsto> (the (mem ?ht v))\<lparr>nam := nm, hnext := 0\<rparr>)) (strip (mem h1))"
    using a by simp
  have "addhistnode (Suc k) st nm v = Some (st\<lparr>histtab := ?h\<rparr>)"
    using h1(1) o n hn(2) by (simp add: addhistnode.simps(2) Let_def hist_method_fold node_def upd_flags settle_def)
  moreover have "added settle ?ht cs nm v 0 ?h c1"
    unfolding added_def using a hwf_links [of h1 c1, OF _ l] up_to_settle(1) [OF u n] m by simp
  moreover have "strip (mem ?h) v = Some (settle (n0\<lparr>nam := nm, hnext := 0\<rparr>))"
    using up_to_settle(2) [OF u n] hn(1) by simp
  ultimately show thesis by (rule that)
qed

lemma adds_hist: "adds settle (hist_method k st) (bnd k)"
proof (induction k arbitrary: st)
  case 0
  show ?case by (simp add: adds_def)
next
  case (Suc k)
  show ?case
    unfolding adds_def
  proof (intro allI impI)
    fix ht :: "histent htab" and cs nm hn n0
    assume p: "hwf ht cs" "scan ht = None" "mem ht hn = Some n0" "hn \<noteq> 0" "hn \<notin> members cs"
      "\<forall>a\<in>members cs. \<not> same_key ht a nm" "ct ht + 1 < bnd (Suc k) * hsize ht"
    let ?s = "st\<lparr>histtab := ht\<rparr>"
    have g: "gethashnode2 (histtab ?s) nm = Some 0" using hwf_get [OF p(1), of nm 0] p(6) by auto
    have so: "scan_ok (histtab ?s)" using p(2) by (simp add: scan_ok_def)
    obtain ht' cs' where h': "addhistnode (Suc k) ?s nm hn = Some (?s\<lparr>histtab := ht'\<rparr>)"
      "added settle ht cs nm hn 0 ht' cs'"
      by (rule addhist_new [OF Suc [of ?s], of cs hn n0 nm]) (use p(1,3-5,7) so g in simp_all)
    note a = h'(2) [unfolded added_def]
    have z: "members cs - {0} = members cs" using hwf_member [OF p(1)] by blast
    have m: "members cs' = insert hn (members cs)" using a z by simp
    have "moved ht cs {hn} ht' cs'"
      using a p(2) m unfolding moved_def same_rest_def by auto
    moreover have "hist_method (Suc k) st ht nm hn = Some ht'"
      using h'(1) by (simp add: hist_method_def)
    ultimately show "\<exists>ht' cs'. hist_method (Suc k) st ht nm hn = Some ht' \<and> moved ht cs {hn} ht' cs' \<and>
        up_to settle ((strip (mem ht))(hn \<mapsto> n0\<lparr>nam := nm, hnext := 0\<rparr>)) (strip (mem ht'))"
      using a p(3) by (intro exI [of _ ht'] exI [of _ cs']) simp
  qed
qed

section \<open>A line that is there\<close>

lemma strip_None [simp]: "strip m a = None \<longleftrightarrow> m a = None"
  by (simp add: strip_def)

lemma strip_fields:
  assumes "strip m a = Some n'"
  shows "\<exists>n. m a = Some n \<and> nam n = nam n' \<and> flags n = flags n' \<and> body n = body n'"
  using strip_node [OF assms] by auto

text \<open>The first addition takes the name over.\<close>

lemma addhist_hit:
  assumes A: "adds settle (hist_method k st) B" and w: "hwf (histtab st) cs"
    and hn: "mem (histtab st) v = Some n0" "v \<noteq> 0" "v \<notin> members cs"
    and c: "scan (histtab st) = None \<Longrightarrow> ct (histtab st) + 1 < max 2 (4 * B) * hsize (histtab st)"
    and so: "scan_ok (histtab st)" and g: "gethashnode2 (histtab st) nm = Some old" "old \<noteq> 0"
  obtains h1 c1 n1 o1 where "addhashnode2 (hist_method k st) (histtab st) nm v = Some (old, h1)"
    "hwf h1 c1" "members c1 = insert v (members cs - {old})" "old \<in> members cs" "old \<noteq> v"
    "strip (mem h1) = (strip (mem (histtab st)))(v \<mapsto> n0\<lparr>nam := nm, hnext := 0\<rparr>)"
    "mem h1 v = Some n1" "nam n1 = nm" "flags n1 = flags n0" "body n1 = body n0"
    "mem h1 old = Some o1" "mem (histtab st) old = Some o1" "cmpnodes (histtab st) (nam o1) nm = 0"
    "hash h1 = hash (histtab st)" "cmpnodes h1 = cmpnodes (histtab st)" "scan h1 = scan (histtab st)"
    "scan_ok h1" "ct h1 = ct (histtab st)" "hsize (histtab st) \<le> hsize h1" "freed h1 = freed (histtab st)"
proof -
  let ?ht = "histtab st"
  obtain x h1 c1 where h1: "addhashnode2 (hist_method k st) ?ht nm v = Some (x, h1)" "added settle ?ht cs nm v x h1 c1"
    using addhashnode2_spec [OF tame_settle A w hn c so, of nm] by blast
  have x: "x = old" using h1(2) g(1) by (simp add: added_def)
  note a = h1(2) [unfolded added_def x]
  have om: "old \<in> members cs" "same_key ?ht old nm"
    using hwf_get [OF w, of nm old] g by (auto split: if_splits)
  then obtain o1 where o1: "mem ?ht old = Some o1" using hwf_member [OF w] by blast
  have st: "strip (mem h1) = (strip (mem ?ht))(v \<mapsto> n0\<lparr>nam := nm, hnext := 0\<rparr>)" using a g(2) hn(1) by simp
  then have "strip (mem h1) v = Some (n0\<lparr>nam := nm, hnext := 0\<rparr>)" by simp
  then obtain n1 where n1: "mem h1 v = Some n1" "nam n1 = nm" "flags n1 = flags n0" "body n1 = body n0"
    using strip_fields [of "mem h1" v] by fastforce
  have ov: "old \<noteq> v" using om(1) hn(3) by auto
  have f: "finite (members cs)" by (simp add: members_def)
  have "card (members c1) = card (members cs)" using a om(1) hn(3) f
    by (simp add: card.insert_remove card_Diff_singleton)
      (metis Suc_pred card_gt_0_iff empty_iff)
  then have ct: "ct h1 = ct ?ht" using hwf_ct [OF w] hwf_ct [of h1 c1] a by simp
  have "scan_ok h1" using so a by (simp add: scan_ok_def)
  moreover have "mem h1 old = Some o1" using a g(2) o1 by simp
  moreover have "cmpnodes ?ht (nam o1) nm = 0" using om(2) o1 by (simp add: same_key_def hname_def)
  ultimately show thesis
    using that [of h1 c1 n1 o1] h1(1) x a om(1) ov st n1 o1 ct by blast
qed

definition keeps :: "histent hnode \<Rightarrow> addr \<Rightarrow> bool" where
  "keeps n old \<longleftrightarrow> flags n AND HIST_MAKEUNIQUE \<noteq> 0 \<or> (flags n AND HIST_FOREIGN \<noteq> 0 \<and> old = up (body n))"

text \<open>The entry that had the line gets it back.\<close>

lemma addhist_keep:
  assumes A: "adds settle (hist_method k st) B" and w: "hwf (histtab st) cs"
    and hn: "mem (histtab st) v = Some n0" "v \<noteq> 0" "v \<notin> members cs"
    and c: "scan (histtab st) = None \<Longrightarrow> ct (histtab st) + 1 < max 2 (4 * B) * hsize (histtab st)"
    and so: "scan_ok (histtab st)" and g: "gethashnode2 (histtab st) nm = Some old" "old \<noteq> 0"
    and kp: "keeps n0 old"
  obtains ht' cs' where "addhistnode (Suc k) st nm v = Some (st\<lparr>histtab := ht'\<rparr>)" "hwf ht' cs'"
    "members cs' = members cs" "\<And>a. a \<noteq> v \<Longrightarrow> strip (mem ht') a = strip (mem (histtab st)) a"
    "strip (mem ht') v = Some (settle (n0\<lparr>nam := nm, hnext := 0, flags := flags n0 OR HIST_DUP\<rparr>))"
    "hash ht' = hash (histtab st)" "cmpnodes ht' = cmpnodes (histtab st)" "scan_ok ht'" "freed ht' = freed (histtab st)"
proof -
  let ?ht = "histtab st"
  obtain h1 c1 n1 o1 where 1: "addhashnode2 (hist_method k st) ?ht nm v = Some (old, h1)"
    "hwf h1 c1" "members c1 = insert v (members cs - {old})" "old \<in> members cs" "old \<noteq> v"
    "strip (mem h1) = (strip (mem ?ht))(v \<mapsto> n0\<lparr>nam := nm, hnext := 0\<rparr>)"
    "mem h1 v = Some n1" "nam n1 = nm" "flags n1 = flags n0" "body n1 = body n0"
    "mem h1 old = Some o1" "mem ?ht old = Some o1" "cmpnodes ?ht (nam o1) nm = 0"
    "hash h1 = hash ?ht" "cmpnodes h1 = cmpnodes ?ht" "scan h1 = scan ?ht"
    "scan_ok h1" "ct h1 = ct ?ht" "hsize ?ht \<le> hsize h1" "freed h1 = freed ?ht"
    by (rule addhist_hit [OF A w hn c so g]) (assumption, rule that)
  have oc: "old \<notin> members c1" using 1(3,5) by simp
  have c': "ct h1 + 1 < max 2 (4 * B) * hsize h1" if "scan h1 = None"
    using bound_mono [OF c 1(19)] that 1(16,18) by simp
  obtain y h2 c2 where h2: "addhashnode2 (hist_method k st) h1 (nam o1) old = Some (y, h2)"
    "added settle h1 c1 (nam o1) old y h2 c2"
    using addhashnode2_spec [OF tame_settle A 1(2,11) g(2) oc c' 1(17), of "nam o1"] by blast
  have "same_key h1 v (nam o1)"
    using 1(7,8,13,15) key_okD(2) [OF hwfD(1) [OF w]] by (simp add: same_key_def hname_def)
  moreover have "v \<in> members c1" using 1(3) by simp
  ultimately have "gethashnode2 h1 (nam o1) = Some v" using hwf_get [OF 1(2), of "nam o1" v] by auto
  then have y: "y = v" using h2(2) by (simp add: added_def)
  note a = h2(2) [unfolded added_def y]
  have s2: "strip (mem h2) = (strip (mem h1))(old \<mapsto> o1\<lparr>hnext := 0\<rparr>)"
    using a hn(2) 1(11) by simp
  have so: "strip (mem h1) old = Some (o1\<lparr>hnext := 0\<rparr>)" using 1(11) by (simp add: strip_def)
  then have s2: "strip (mem h2) = strip (mem h1)" using s2 by auto
  have v2: "mem h2 v = Some n1" using a hn(2) 1(7) by simp
  let ?n = "settle (n1\<lparr>flags := flags n1 OR HIST_DUP\<rparr>)"
  let ?h = "h2\<lparr>mem := (mem h2)(v \<mapsto> ?n)\<rparr>"
  have l: "same_links (mem h2) ((mem h2)(v \<mapsto> ?n))"
    by (rule same_links_upd [where m = "mem h2", OF v2]) simp_all
  have "addhistnode (Suc k) st nm v = Some (st\<lparr>histtab := ?h\<rparr>)"
    using 1(1,5,7,9,10,11) h2(1) y v2 hn(2) g(2) kp
    by (simp add: addhistnode.simps(2) Let_def hist_method_fold node_def upd_flags settle_def keeps_def)
  moreover have "hwf ?h c2" using hwf_links [of h2 c2, OF _ l] a by simp
  moreover have "members c2 = members cs" using a 1(3,4,5) hn(3) by auto
  moreover have "strip (mem ?h) b = strip (mem ?ht) b" if "b \<noteq> v" for b
    using that s2 1(6) by (simp add: strip_fun_upd)
  moreover have "strip (mem ?h) v = Some (settle (n0\<lparr>nam := nm, hnext := 0, flags := flags n0 OR HIST_DUP\<rparr>))"
  proof -
    have "n1\<lparr>hnext := 0\<rparr> = n0\<lparr>nam := nm, hnext := 0\<rparr>" using 1(6,7) by (auto simp: strip_def dest: fun_cong [of _ _ v])
    then show ?thesis using 1(8,9,10) by (simp add: strip_fun_upd settle_def)
  qed
  ultimately show thesis using that [of ?h c2] a 1(14,15,16,17,20) by (simp add: scan_ok_def)
qed

section \<open>Leaving the ring\<close>

text \<open>The neighbours of an entry in the ring are cells.\<close>

definition in_ring :: "(addr \<rightharpoonup> histent hnode) \<Rightarrow> addr \<Rightarrow> bool" where
  "in_ring m a \<longleftrightarrow> (\<exists>n. m a = Some n \<and> up (body n) \<noteq> 0 \<and> m (up (body n)) \<noteq> None
     \<and> down (body n) \<noteq> 0 \<and> m (down (body n)) \<noteq> None)"

text \<open>Cells agree but for their places in the ring.\<close>

definition off_ring :: "(addr \<rightharpoonup> histent hnode) \<Rightarrow> (addr \<rightharpoonup> histent hnode) \<Rightarrow> bool" where
  "off_ring m m' \<longleftrightarrow> (\<forall>a. map_option (\<lambda>n. (nam n, hnext n, flags n)) (m' a) = map_option (\<lambda>n. (nam n, hnext n, flags n)) (m a))"

lemma off_ring_links: "off_ring m m' \<Longrightarrow> same_links m m'"
  unfolding off_ring_def same_links_def
proof (intro allI)
  fix a
  assume "\<forall>a. map_option (\<lambda>n. (nam n, hnext n, flags n)) (m' a) = map_option (\<lambda>n. (nam n, hnext n, flags n)) (m a)"
  then have "map_option (\<lambda>n. (nam n, hnext n, flags n)) (m' a) = map_option (\<lambda>n. (nam n, hnext n, flags n)) (m a)" ..
  then show "map_option (\<lambda>n. (nam n, hnext n)) (m' a) = map_option (\<lambda>n. (nam n, hnext n)) (m a)"
    by (cases "m a"; cases "m' a") simp_all
qed

lemma off_ring_upd: "m a = Some n \<Longrightarrow> off_ring m (m(a \<mapsto> body_update g n))"
  by (simp add: off_ring_def)

lemma off_ring_trans: "off_ring a b \<Longrightarrow> off_ring b c \<Longrightarrow> off_ring a c"
  by (simp add: off_ring_def)

lemma upd_body: "mem ht a = Some n \<Longrightarrow> a \<noteq> 0 \<Longrightarrow>
   upd_node (body_update g) ht a = Some (ht\<lparr>mem := (mem ht)(a \<mapsto> body_update g n)\<rparr>)"
  by (simp add: upd_node_def node_def)

lemma unlink_ring_spec:
  assumes "in_ring (mem ht) a" "a \<noteq> 0"
  obtains m' where "unlink_ring a ht = Some (ht\<lparr>mem := m'\<rparr>)" "off_ring (mem ht) m'"
proof -
  obtain n p q where n: "mem ht a = Some n" "up (body n) \<noteq> 0" "mem ht (up (body n)) = Some p"
    "down (body n) \<noteq> 0" "mem ht (down (body n)) = Some q" using assms(1) by (auto simp: in_ring_def)
  let ?m = "(mem ht)(up (body n) \<mapsto> body_update (down_update (\<lambda>_. down (body n))) p)"
  obtain n' where n': "?m a = Some n'" "down (body n') = down (body n)"
    using n(1,3) by (cases "a = up (body n)") auto
  obtain q' where q': "?m (down (body n)) = Some q'" using n(3,5) by (cases "down (body n) = up (body n)") auto
  let ?m' = "?m(down (body n) \<mapsto> body_update (up_update (\<lambda>_. up (body n'))) q')"
  have "unlink_ring a ht = Some (ht\<lparr>mem := ?m'\<rparr>)"
    unfolding unlink_ring_def using n n' q' assms(2)
    by (simp add: node_def upd_body del: fun_upd_apply)
  moreover have "off_ring (mem ht) ?m'"
    by (rule off_ring_trans [OF off_ring_upd [where m = "mem ht", OF n(3)] off_ring_upd [where m = ?m, OF q']])
  ultimately show thesis by (rule that)
qed

lemma freehistnode_spec:
  assumes w: "hwf (histtab st) cs" and a: "a \<notin> members cs" "a \<noteq> 0" "a \<noteq> curline st"
    and r: "in_ring (mem (histtab st)) a" and d: "mem (histtab st) a = Some n" "flags n AND HIST_DUP \<noteq> 0"
  obtains st' m' where "freehistnode a st = Some st'" "hwf (histtab st') cs" "off_ring (mem (histtab st)) m'"
    "histtab st' = (histtab st)\<lparr>mem := m'(a := None), freed := freed (histtab st) @ [a]\<rparr>"
    "histlinect st' = histlinect st - 1"
    "hist_ring st' = (if histlinect st = 1 then 0 else if a = hist_ring st then up (body n) else hist_ring st)"
proof -
  let ?ht = "histtab st"
  have f: "flags n AND (HIST_DUP OR HIST_TMPSTORE) \<noteq> 0"
  proof
    assume "flags n AND (HIST_DUP OR HIST_TMPSTORE) = 0"
    then have "(flags n AND (HIST_DUP OR HIST_TMPSTORE)) AND HIST_DUP = 0" by simp
    then show False using d(2) by (simp add: word_bw_assocs HIST_DUP_def HIST_TMPSTORE_def)
  qed
  have l: "same_links (mem ?ht) (mem ?ht)" by (simp add: same_links_def)
  have fr: "freenode (?ht\<lparr>mem := m'\<rparr>) a = Some (?ht\<lparr>mem := m'(a := None), freed := freed ?ht @ [a]\<rparr>)
      \<and> hwf (?ht\<lparr>mem := m'(a := None), freed := freed ?ht @ [a]\<rparr>) cs" if "off_ring (mem ?ht) m'" for m'
  proof -
    have "m' a \<noteq> None" using same_linksD(3) [OF off_ring_links [OF that], of a] d(1) by simp
    then have "freenode (?ht\<lparr>mem := m'\<rparr>) a = Some (?ht\<lparr>mem := m'(a := None), freed := freed ?ht @ [a]\<rparr>)"
      using a(2) by (auto simp: freenode_def node_def)
    moreover have "hwf (?ht\<lparr>mem := m'\<rparr>) cs" using hwf_links [OF w off_ring_links [OF that]] .
    ultimately show ?thesis using hwf_drop [of "?ht\<lparr>mem := m'\<rparr>" cs a] a(1) by simp
  qed
  show thesis
  proof (cases "histlinect st = 1")
    case True
    have o: "off_ring (mem ?ht) (mem ?ht)" by (simp add: off_ring_def)
    let ?s = "st\<lparr>histlinect := 0, hist_ring := 0, histtab := ?ht\<lparr>mem := (mem ?ht)(a := None), freed := freed ?ht @ [a]\<rparr>\<rparr>"
    have "freehistnode a st = Some ?s"
      using f fr [OF o] d(1) a True by (simp add: freehistnode_def freehistdata_def node_def Let_def)
    then show thesis by (rule that [OF _ _ o]) (use fr [OF o] True in simp_all)
  next
    case False
    obtain m' where m': "unlink_ring a ?ht = Some (?ht\<lparr>mem := m'\<rparr>)" "off_ring (mem ?ht) m'"
      using unlink_ring_spec [OF r a(2)] by blast
    let ?s = "st\<lparr>histlinect := histlinect st - 1, hist_ring := (if a = hist_ring st then up (body n) else hist_ring st),
        histtab := ?ht\<lparr>mem := m'(a := None), freed := freed ?ht @ [a]\<rparr>\<rparr>"
    have "freehistnode a st = Some ?s"
      using f fr [OF m'(2)] d(1) a False m'(1)
      by (cases "a = hist_ring st") (auto simp: freehistnode_def freehistdata_def node_def Let_def)
    then show thesis by (rule that [OF _ _ m'(2)]) (use fr [OF m'(2)] False in simp_all)
  qed
qed

section \<open>What an addition does\<close>

text \<open>The name and the flags of a node.\<close>

definition face :: "(addr \<rightharpoonup> histent hnode) \<Rightarrow> addr \<Rightarrow> (string \<times> 32 word) option" where
  "face m a = map_option (\<lambda>n. (nam n, flags n)) (m a)"

lemma face_strip: "strip m a = strip m' a \<Longrightarrow> face m a = face m' a"
proof -
  assume e: "strip m a = strip m' a"
  have "face m a = map_option (\<lambda>n. (nam n, flags n)) (strip m a)" for m
    by (cases "m a") (simp_all add: face_def strip_def)
  then show ?thesis using e by metis
qed

lemma face_off_ring: "off_ring m m' \<Longrightarrow> face m' a = face m a"
proof -
  assume "off_ring m m'"
  then have e: "map_option (\<lambda>n. (nam n, hnext n, flags n)) (m' a) = map_option (\<lambda>n. (nam n, hnext n, flags n)) (m a)"
    unfolding off_ring_def ..
  show ?thesis using e by (cases "m a"; cases "m' a") (simp_all add: face_def)
qed

lemma face_hname: "face m a = face m' a \<Longrightarrow> hname m a = hname m' a"
  by (cases "m a"; cases "m' a") (simp_all add: face_def hname_def)

text \<open>
  \<open>w\<close> has the line afterwards.  If another entry lost it, that entry is marked as a duplicate, or
  freed when it is an old one and duplicates are to go.
\<close>

definition line_added :: "history \<Rightarrow> addr set \<Rightarrow> string \<Rightarrow> addr \<Rightarrow> addr \<Rightarrow> history \<Rightarrow> bool" where
  "line_added st N nm v old st' \<longleftrightarrow>
     (let ht = histtab st; ht' = histtab st'; n = the (mem ht v);
          w = (if old \<noteq> 0 \<and> keeps n old then old else v)
      in (\<exists>cs'. hwf ht' cs' \<and> members cs' = insert w (N - {old})) \<and> scan_ok ht'
       \<and> hash ht' = hash ht \<and> cmpnodes ht' = cmpnodes ht
       \<and> (\<forall>a. a \<noteq> v \<and> a \<noteq> old \<longrightarrow> face (mem ht') a = face (mem ht) a)
       \<and> (if old = 0 then face (mem ht') v = Some (nm, flags n AND NOT HIST_MAKEUNIQUE)
          else if keeps n old
          then face (mem ht') v = Some (nm, (flags n OR HIST_DUP) AND NOT HIST_MAKEUNIQUE)
            \<and> face (mem ht') old = face (mem ht) old
          else face (mem ht') v = Some (nm, flags n)
            \<and> (if hist_ignore_all_dups st then mem ht' old = None
               else face (mem ht') old = map_option (\<lambda>(s, f). (s, f OR HIST_DUP)) (face (mem ht) old)))
       \<and> (if old \<noteq> 0 \<and> \<not> keeps n old \<and> hist_ignore_all_dups st
          then freed ht' = freed ht @ [old] \<and> histlinect st' = histlinect st - 1
            \<and> hist_ring st' = (if histlinect st = 1 then 0
                else if old = hist_ring st then up (body (the (mem ht old))) else hist_ring st)
          else freed ht' = freed ht \<and> histlinect st' = histlinect st \<and> hist_ring st' = hist_ring st))"

lemma addhist_drop:
  assumes A: "adds settle (hist_method k st) B" and w: "hwf (histtab st) cs"
    and hn: "mem (histtab st) v = Some n0" "v \<noteq> 0" "v \<notin> members cs"
    and c: "scan (histtab st) = None \<Longrightarrow> ct (histtab st) + 1 < max 2 (4 * B) * hsize (histtab st)"
    and so: "scan_ok (histtab st)" and g: "gethashnode2 (histtab st) nm = Some old" "old \<noteq> 0"
    and kp: "\<not> keeps n0 old" and r: "in_ring (mem (histtab st)) old" "old \<noteq> curline st"
  shows "\<exists>st'. addhistnode (Suc k) st nm v = Some st' \<and> line_added st (members cs) nm v old st'"
proof -
  let ?ht = "histtab st"
  obtain h1 c1 n1 o1 where 1: "addhashnode2 (hist_method k st) ?ht nm v = Some (old, h1)"
    "hwf h1 c1" "members c1 = insert v (members cs - {old})" "old \<in> members cs" "old \<noteq> v"
    "strip (mem h1) = (strip (mem ?ht))(v \<mapsto> n0\<lparr>nam := nm, hnext := 0\<rparr>)"
    "mem h1 v = Some n1" "nam n1 = nm" "flags n1 = flags n0" "body n1 = body n0"
    "mem h1 old = Some o1" "mem ?ht old = Some o1" "cmpnodes ?ht (nam o1) nm = 0"
    "hash h1 = hash ?ht" "cmpnodes h1 = cmpnodes ?ht" "scan h1 = scan ?ht"
    "scan_ok h1" "ct h1 = ct ?ht" "hsize ?ht \<le> hsize h1" "freed h1 = freed ?ht"
    by (rule addhist_hit [OF A w hn c so g]) (assumption, rule that)
  let ?o = "o1\<lparr>flags := flags o1 OR HIST_DUP\<rparr>"
  let ?h = "h1\<lparr>mem := (mem h1)(old \<mapsto> ?o)\<rparr>"
  let ?s = "st\<lparr>histtab := ?h\<rparr>"
  have wh: "hwf (histtab ?s) c1"
    using hwf_links [OF 1(2) same_links_upd [where m = "mem h1", OF 1(11)], of ?o] by simp
  have fa: "face (mem h1) a = face (mem ?ht) a" if "a \<noteq> v" for a
    by (rule face_strip) (use that 1(6) in simp)
  have run: "addhistnode (Suc k) st nm v = (if hist_ignore_all_dups st then freehistnode old ?s else Some ?s)"
    using 1(1,5,7,9,10,11) hn(2) g(2) kp
    by (auto simp: addhistnode.simps(2) Let_def hist_method_fold node_def upd_flags keeps_def)
  have fv: "face (mem ?h) v = Some (nm, flags n0)" "face (mem ?h) old = Some (nam o1, flags o1 OR HIST_DUP)"
    "face (mem ?ht) old = Some (nam o1, flags o1)"
    using 1(5,7,8,9,12) by (simp_all add: face_def)
  have fo: "face (mem ?h) a = face (mem ?ht) a" if "a \<noteq> v" "a \<noteq> old" for a
    using fa [OF that(1)] that(2) by (simp add: face_def)
  show ?thesis
  proof (cases "hist_ignore_all_dups st")
    case False
    have "line_added st (members cs) nm v old ?s"
      unfolding line_added_def Let_def
      using False 1(3,14,15,17,20) wh fv fo hn(1) kp g(2) by (auto simp: scan_ok_def)
    then show ?thesis using run False by simp
  next
    case True
    have ao: "mem ?h b \<noteq> None" if "mem ?ht b \<noteq> None" for b
    proof (cases "b = old \<or> b = v")
      case False
      then have "strip (mem ?h) b = strip (mem ?ht) b" using 1(6) by (simp add: strip_fun_upd)
      then show ?thesis using that strip_None by metis
    qed (use 1(5,7) in auto)
    have nb: "up (body o1) \<noteq> 0" "mem ?ht (up (body o1)) \<noteq> None" "down (body o1) \<noteq> 0" "mem ?ht (down (body o1)) \<noteq> None"
      using r(1) 1(12) by (auto simp: in_ring_def)
    have "mem ?h old = Some ?o" by simp
    then have ring: "in_ring (mem ?h) old"
      unfolding in_ring_def using nb(1,3) ao [OF nb(2)] ao [OF nb(4)]
      by (intro exI [of _ ?o]) (simp del: fun_upd_apply)
    have "flags ?o AND HIST_DUP \<noteq> 0"
      by (simp add: word_ao_dist HIST_DUP_def)
    then obtain st' m' where f: "freehistnode old ?s = Some st'" "hwf (histtab st') c1" "off_ring (mem ?h) m'"
      "histtab st' = ?h\<lparr>mem := m'(old := None), freed := freed ?h @ [old]\<rparr>"
      "histlinect st' = histlinect ?s - 1"
      "hist_ring st' = (if histlinect ?s = 1 then 0 else if old = hist_ring ?s then up (body ?o) else hist_ring ?s)"
      using freehistnode_spec [OF wh, of old ?o] 1(3,5) g(2) r(2) ring by auto
    have "face (mem (histtab st')) a = face (mem ?h) a" if "a \<noteq> old" for a
      using face_off_ring [OF f(3), of a] that f(4) by (simp add: face_def)
    then have "line_added st (members cs) nm v old st'"
      unfolding line_added_def Let_def
      using True 1(3,5,12,14,15,17,20) f(2,4,5,6) fv fo hn(1) kp g(2) by (auto simp: scan_ok_def)
    then show ?thesis using run True f(1) by simp
  qed
qed

lemma addhist_fresh:
  assumes A: "adds settle (hist_method k st) B" and w: "hwf (histtab st) cs"
    and hn: "mem (histtab st) v = Some n0" "v \<noteq> 0" "v \<notin> members cs"
    and c: "scan (histtab st) = None \<Longrightarrow> ct (histtab st) + 1 < max 2 (4 * B) * hsize (histtab st)"
    and so: "scan_ok (histtab st)" and g: "gethashnode2 (histtab st) nm = Some 0"
    and s: "\<forall>a \<in> members cs. flags (the (mem (histtab st) a)) AND HIST_MAKEUNIQUE = 0"
  shows "\<exists>st'. addhistnode (Suc k) st nm v = Some st' \<and> line_added st (members cs) nm v 0 st'"
proof -
  let ?ht = "histtab st"
  obtain ht' cs' where h: "addhistnode (Suc k) st nm v = Some (st\<lparr>histtab := ht'\<rparr>)"
    "added settle ?ht cs nm v 0 ht' cs'" "strip (mem ht') v = Some (settle (n0\<lparr>nam := nm, hnext := 0\<rparr>))"
    using addhist_new [OF A w hn c so g] by blast
  note a = h(2) [unfolded added_def]
  have fv: "face (mem ht') v = Some (nm, flags n0 AND NOT HIST_MAKEUNIQUE)"
    using strip_fields [OF h(3)] by (auto simp: face_def)
  have "face (mem ht') b = face (mem ?ht) b" if b: "b \<noteq> v" for b
  proof (cases "b \<in> members cs")
    case True
    then obtain n where n: "mem ?ht b = Some n" using hwf_member [OF w] by blast
    then have "flags n AND HIST_MAKEUNIQUE = 0" using bspec [OF s True] by simp
    then have i: "settle n = n" by (rule settle_settled)
    have nb: "strip (mem ?ht) b = Some (n\<lparr>hnext := 0\<rparr>)" using n by (simp add: strip_def)
    have "up_to settle ((strip (mem ?ht))(v \<mapsto> (the (mem ?ht v))\<lparr>nam := nm, hnext := 0\<rparr>)) (strip (mem ht'))"
      using a by blast
    from this [unfolded up_to_def, rule_format, of b]
    have "strip (mem ht') b = Some (n\<lparr>hnext := 0\<rparr>) \<or> strip (mem ht') b = Some (settle (n\<lparr>hnext := 0\<rparr>))"
      using b nb by simp
    then show ?thesis using nb i by (intro face_strip) (auto simp: settle_hnext)
  next
    case False
    then have "mem ht' b = mem ?ht b" using a b by blast
    then show ?thesis by (simp add: face_def)
  qed
  then have "line_added st (members cs) nm v 0 (st\<lparr>histtab := ht'\<rparr>)"
    unfolding line_added_def Let_def using a fv so hn(1) by (auto simp: scan_ok_def)
  then show ?thesis using h(1) by blast
qed

lemma line_added_keep:
  assumes "adds settle (hist_method k st) B" and w: "hwf (histtab st) cs"
    and hn: "mem (histtab st) v = Some n0" "v \<noteq> 0" "v \<notin> members cs"
    and "scan (histtab st) = None \<Longrightarrow> ct (histtab st) + 1 < max 2 (4 * B) * hsize (histtab st)"
    and "scan_ok (histtab st)" and g: "gethashnode2 (histtab st) nm = Some old" "old \<noteq> 0" and kp: "keeps n0 old"
  shows "\<exists>st'. addhistnode (Suc k) st nm v = Some st' \<and> line_added st (members cs) nm v old st'"
proof -
  obtain ht' cs' where h: "addhistnode (Suc k) st nm v = Some (st\<lparr>histtab := ht'\<rparr>)" "hwf ht' cs'"
    "members cs' = members cs" "\<And>a. a \<noteq> v \<Longrightarrow> strip (mem ht') a = strip (mem (histtab st)) a"
    "strip (mem ht') v = Some (settle (n0\<lparr>nam := nm, hnext := 0, flags := flags n0 OR HIST_DUP\<rparr>))"
    "hash ht' = hash (histtab st)" "cmpnodes ht' = cmpnodes (histtab st)" "scan_ok ht'" "freed ht' = freed (histtab st)"
    using addhist_keep [OF assms] by blast
  have om: "old \<in> members cs" using hwf_get [OF w, of nm old] g by (auto split: if_splits)
  then have "old \<noteq> v" "insert old (members cs - {old}) = members cs" using hn(3) by auto
  moreover have "face (mem ht') a = face (mem (histtab st)) a" if "a \<noteq> v" for a
    by (rule face_strip) (rule h(4) [OF that])
  moreover have "face (mem ht') v = Some (nm, (flags n0 OR HIST_DUP) AND NOT HIST_MAKEUNIQUE)"
    using strip_fields [OF h(5)] by (auto simp: face_def)
  ultimately have "line_added st (members cs) nm v old (st\<lparr>histtab := ht'\<rparr>)"
    unfolding line_added_def Let_def using h(2,3,6-9) g(2) kp hn(1) by auto
  then show ?thesis using h(1) by blast
qed

lemma addhist_spec:
  assumes w: "hwf (histtab st) cs" and hn: "mem (histtab st) v \<noteq> None" "v \<noteq> 0" "v \<notin> members cs"
    and so: "scan_ok (histtab st)"
    and s: "\<forall>a \<in> members cs. flags (the (mem (histtab st) a)) AND HIST_MAKEUNIQUE = 0"
    and r: "\<forall>a \<in> members cs. in_ring (mem (histtab st)) a \<and> a \<noteq> curline st"
  obtains st' old where "addhist st nm v = Some st'" "gethashnode2 (histtab st) nm = Some old"
    "line_added st (members cs) nm v old st'"
proof -
  let ?ht = "histtab st" and ?k = "ct (histtab st) + 1"
  obtain n0 where n0: "mem ?ht v = Some n0" using hn(1) by blast
  have "ct ?ht + 1 < bnd (Suc ?k)" using bnd_gt [of ?k] by simp
  also have "\<dots> \<le> bnd (Suc ?k) * hsize ?ht" using hwfD(2) [OF w] by (cases "hsize ?ht") simp_all
  finally have c: "ct ?ht + 1 < max 2 (4 * bnd ?k) * hsize ?ht" by simp
  obtain old where g: "gethashnode2 ?ht nm = Some old" using hwf_get [OF w, of nm] by (metis (full_types))
  have "\<exists>st'. addhistnode (Suc ?k) st nm v = Some st' \<and> line_added st (members cs) nm v old st'"
  proof (cases "old = 0")
    case True
    then show ?thesis using addhist_fresh [OF adds_hist w n0 hn(2,3) c so _ s] g by simp
  next
    case False
    have om: "old \<in> members cs" using hwf_get [OF w, of nm old] g False by (auto split: if_splits)
    show ?thesis
    proof (cases "keeps n0 old")
      case True
      show ?thesis by (rule line_added_keep [OF adds_hist w n0 hn(2,3) c so g False True])
    next
      case no: False
      show ?thesis by (rule addhist_drop [OF adds_hist w n0 hn(2,3) c so g False no]) (use r om in auto)
    qed
  qed
  then show thesis using that g by (auto simp: addhist_def)
qed

text \<open>The entry with the line afterwards is found under it; other lookups are as before.\<close>

definition line_owner :: "history \<Rightarrow> addr \<Rightarrow> addr \<Rightarrow> addr" where
  "line_owner st v old = (if old \<noteq> 0 \<and> keeps (the (mem (histtab st) v)) old then old else v)"

lemma line_added_table:
  assumes t: "table h c (histtab st) N" and v: "v \<notin> N" and g: "gethashnode2 (histtab st) nm = Some old"
    and s: "\<forall>a \<in> N. flags (the (mem (histtab st) a)) AND HIST_MAKEUNIQUE = 0" and l: "line_added st N nm v old st'"
  shows "table h c (histtab st') (insert (line_owner st v old) (N - {old}))"
    "gethashnode2 (histtab st') j = (if c nm j = 0 then Some (line_owner st v old) else gethashnode2 (histtab st) j)"
    "a \<in> insert (line_owner st v old) (N - {old}) \<Longrightarrow> flags (the (mem (histtab st') a)) AND HIST_MAKEUNIQUE = 0"
proof -
  let ?ht = "histtab st" and ?ht' = "histtab st'" and ?n = "the (mem (histtab st) v)" and ?w = "line_owner st v old"
  obtain cs where cs: "hwf ?ht cs" "members cs = N" "hash ?ht = h" "cmpnodes ?ht = c" "scan_ok ?ht"
    using t by (auto simp: table_def)
  have w: "?w = (if old \<noteq> 0 \<and> keeps ?n old then old else v)" by (simp add: line_owner_def)
  note a = l [unfolded line_added_def Let_def, folded w]
  obtain cs' where cs': "hwf ?ht' cs'" "members cs' = insert ?w (N - {old})" using a by blast
  have eq: "hash ?ht' = h" "cmpnodes ?ht' = c" "scan_ok ?ht'" using a cs(3,4) by simp_all
  show "table h c ?ht' (insert ?w (N - {old}))" using cs' eq unfolding table_def by blast
  have om: "old \<noteq> 0 \<Longrightarrow> old \<in> N \<and> same_key ?ht old nm" using hwf_get [OF cs(1), of nm old] g cs(2) by (auto split: if_splits)
  have oth: "face (mem ?ht') b = face (mem ?ht) b" if "b \<noteq> v" "b \<noteq> old" for b using a that by blast
  have fv: "\<exists>f. face (mem ?ht') v = Some (nm, f)" if "?w = v"
    using a by (cases "old = 0"; cases "keeps ?n old") auto
  have fo: "face (mem ?ht') old = face (mem ?ht) old" if "old \<noteq> 0" "keeps ?n old" using a that by auto
  note K = key_okD [OF hwfD(1) [OF cs(1)]]
  have nw: "cmpnodes ?ht nm (hname (mem ?ht') ?w) = 0"
  proof (cases "old \<noteq> 0 \<and> keeps ?n old")
    case True
    then have "hname (mem ?ht') ?w = hname (mem ?ht) old" using fo w face_hname by metis
    then show ?thesis using om True K(2) by (simp add: same_key_def)
  next
    case False
    then obtain f where "face (mem ?ht') v = Some (nm, f)" using fv w by auto
    then have "hname (mem ?ht') v = nm" by (auto simp: face_def hname_def)
    moreover have "?w = v" using False w by auto
    ultimately show ?thesis using K(1) by simp
  qed
  have on: "hname (mem ?ht') b = hname (mem ?ht) b" if "b \<in> members cs" "b \<noteq> old" for b
    by (rule face_hname, rule oth) (use that v cs(2) in auto)
  show "gethashnode2 ?ht' j = (if c nm j = 0 then Some ?w else gethashnode2 ?ht j)"
    using winner_get [OF cs(1) cs'(1), of ?w old nm j] cs'(2) cs(2,4) eq(2) g nw on by simp
  have fl: "flags (the (m b)) AND HIST_MAKEUNIQUE = 0" if "face m b = Some (x, f)" "f AND HIST_MAKEUNIQUE = 0" for m b x f
    using that by (auto simp: face_def)
  have same: "flags (the (mem ?ht' b)) AND HIST_MAKEUNIQUE = 0"
    if b: "b \<in> N" and e: "face (mem ?ht') b = face (mem ?ht) b" for b
  proof -
    obtain n where "mem ?ht b = Some n" using hwf_member [OF cs(1)] cs(2) b by blast
    then show ?thesis using fl [of "mem ?ht'" b "nam n" "flags n"] e bspec [OF s b] by (simp add: face_def)
  qed
  have nn: "(f AND NOT HIST_MAKEUNIQUE) AND HIST_MAKEUNIQUE = 0" for f by (simp add: word_bw_assocs)
  assume m: "a \<in> insert ?w (N - {old})"
  show "flags (the (mem ?ht' a)) AND HIST_MAKEUNIQUE = 0"
  proof (cases "a = ?w")
    case True
    show ?thesis
    proof (cases "old \<noteq> 0 \<and> keeps ?n old")
      case k: True
      then show ?thesis using same [of old] om fo True w by simp
    next
      case k: False
      then have "a = v" using True w by auto
      moreover obtain f where "face (mem ?ht') v = Some (nm, f)" "f AND HIST_MAKEUNIQUE = 0"
        using a k nn [of "flags ?n"] by (cases "old = 0") (auto simp: keeps_def)
      ultimately show ?thesis using fl by simp
    qed
  next
    case False
    then have "a \<in> N" "a \<noteq> v" "a \<noteq> old" using m v by auto
    then show ?thesis using same oth by blast
  qed
qed

end
