(* ===== verification/Dir_Cache.thy ===== *)
theory Dir_Cache
  imports Prelude "HOL-Library.Monad_Syntax"
begin

text \<open>
  The cache of directory names of \<open>Src/hashtable.c\<close> (\<open>dircache_set\<close>): strings shared by
  the structures that name a directory, with reference counts.  The strings live in a heap;
  freeing one that is not allocated is \<open>None\<close>.
\<close>

section \<open>The cache\<close>

record dircache_entry =
  de_name :: addr
  refs :: int

text \<open>\<open>lastentry\<close> is a pointer into the array \<open>entries\<close>; \<open>brk\<close> the next address to hand out.\<close>

record dircache =
  strings :: "addr \<rightharpoonup> string"
  top :: addr
  entries :: "dircache_entry list"
  lastentry :: "nat option"

definition dircache_init :: dircache where
  "dircache_init = \<lparr>strings = Map.empty, top = 1, entries = [], lastentry = None\<rparr>"

definition zsfree :: "addr \<Rightarrow> dircache \<Rightarrow> dircache option" where
  "zsfree p dc = (if p = 0 then Some dc
     else if strings dc p = None then None else Some (dc\<lparr>strings := (strings dc)(p := None)\<rparr>))"

definition ztrdup :: "string \<Rightarrow> dircache \<Rightarrow> addr \<times> dircache" where
  "ztrdup s dc = (top dc, dc\<lparr>strings := (strings dc)(top dc \<mapsto> s), top := top dc + 1\<rparr>)"

fun find_entry :: "(dircache_entry \<Rightarrow> bool option) \<Rightarrow> dircache_entry list \<Rightarrow> nat \<Rightarrow> nat option option" where
  "find_entry p [] i = Some None"
| "find_entry p (e # es) i = do { b \<leftarrow> p e; if b then Some (Some i) else find_entry p es (i + 1) }"

definition same_string :: "dircache \<Rightarrow> string \<Rightarrow> dircache_entry \<Rightarrow> bool option" where
  "same_string dc value e = map_option (\<lambda>s. value = s) (strings dc (de_name e))"

definition bump :: "nat \<Rightarrow> int \<Rightarrow> dircache \<Rightarrow> dircache" where
  "bump i d dc = dc\<lparr>entries := (entries dc)[i := (entries dc ! i)\<lparr>refs := refs (entries dc ! i) + d\<rparr>]\<rparr>"

text \<open>\<open>value\<close> is NULL: give back the reference \<open>*name\<close>; the result is the new \<open>*name\<close>.\<close>

definition dircache_drop :: "addr \<Rightarrow> dircache \<Rightarrow> (addr \<times> dircache) option" where
  "dircache_drop name dc =
     (if name = 0 then Some (0, dc)
      else if entries dc = [] then do { dc \<leftarrow> zsfree name dc; Some (0, dc) }
      else do { f \<leftarrow> find_entry (\<lambda>e. Some (name = de_name e)) (entries dc) 0;
        (case f of
           None \<Rightarrow> do { dc \<leftarrow> zsfree name dc; Some (0, dc) }
         | Some ind \<Rightarrow>
           (let dc = bump ind (- 1) dc in
            if refs (entries dc ! ind) = 0
            then do { dc \<leftarrow> zsfree (de_name (entries dc ! ind)) dc;
                      Some (0, dc\<lparr>entries := take ind (entries dc) @ drop (ind + 1) (entries dc), lastentry := None\<rparr>) }
            else Some (0, dc))) })"

text \<open>\<open>resolve\<close> makes a relative path absolute (\<open>zgetcwd\<close> and \<open>xsymlink\<close>).\<close>

definition abs_path :: "(string \<Rightarrow> string) \<Rightarrow> string \<Rightarrow> string" where
  "abs_path resolve value = (if value = [] \<or> hd value \<noteq> CHR ''/'' then resolve value else value)"

definition dircache_use :: "(string \<Rightarrow> string) \<Rightarrow> string \<Rightarrow> dircache \<Rightarrow> (addr \<times> dircache) option" where
  "dircache_use resolve value dc =
     (let value = abs_path resolve value;
          fresh = (\<lambda>dc. case ztrdup value dc of (p, dc) \<Rightarrow>
             Some (p, dc\<lparr>entries := entries dc @ [\<lparr>de_name = p, refs = 1\<rparr>], lastentry := Some (length (entries dc))\<rparr>))
      in do { hit \<leftarrow> (case lastentry dc of None \<Rightarrow> Some False
                 | Some i \<Rightarrow> if i < length (entries dc) then same_string dc value (entries dc ! i) else None);
        if hit
        then (case lastentry dc of None \<Rightarrow> None
              | Some i \<Rightarrow> Some (de_name (entries dc ! i), bump i 1 dc))
        else if entries dc = [] then fresh dc
        else do { f \<leftarrow> find_entry (same_string dc value) (entries dc) 0;
          (case f of Some i \<Rightarrow> Some (de_name (entries dc ! i), bump i 1 dc) | None \<Rightarrow> fresh dc) } })"

definition dircache_set :: "(string \<Rightarrow> string) \<Rightarrow> addr \<Rightarrow> string option \<Rightarrow> dircache \<Rightarrow> (addr \<times> dircache) option" where
  "dircache_set resolve name value dc =
     (case value of None \<Rightarrow> dircache_drop name dc | Some v \<Rightarrow> dircache_use resolve v dc)"

section \<open>Counting references\<close>

text \<open>
  \<open>vars\<close> are the variables that hold a name: a shared string of the cache, a string of
  their own, or NULL.
\<close>

definition cached :: "dircache \<Rightarrow> addr set" where
  "cached dc = de_name ` set (entries dc)"

definition dc_inv :: "addr list \<Rightarrow> dircache \<Rightarrow> bool" where
  "dc_inv vars dc \<longleftrightarrow> distinct (map (\<lambda>e. strings dc (de_name e)) (entries dc)) \<and>
     (\<forall>e \<in> set (entries dc). de_name e \<noteq> 0 \<and> strings dc (de_name e) \<noteq> None \<and> 0 < refs e \<and>
        refs e = int (count_list vars (de_name e))) \<and>
     (\<forall>i. lastentry dc = Some i \<longrightarrow> i < length (entries dc)) \<and>
     (\<forall>v \<in> set vars. v \<noteq> 0 \<longrightarrow> strings dc v \<noteq> None \<and> (v \<in> cached dc \<or> count_list vars v = 1)) \<and>
     0 < top dc \<and> (\<forall>a. strings dc a \<noteq> None \<longrightarrow> 0 < a \<and> a < top dc)"

lemma count_list_update:
  "i < length xs \<Longrightarrow> count_list (xs[i := y]) a + (if xs ! i = a then 1 else 0) = count_list xs a + (if y = a then 1 else 0)"
proof (induction xs arbitrary: i)
  case (Cons x xs)
  show ?case
  proof (cases i)
    case (Suc j)
    then show ?thesis using Cons.IH [of j] Cons.prems by auto
  qed auto
qed simp

lemma find_entry_spec:
  "(\<And>e. e \<in> set es \<Longrightarrow> p e = Some (q e)) \<Longrightarrow>
   \<exists>r. find_entry p es i = Some r \<and>
     (case r of None \<Rightarrow> \<forall>e \<in> set es. \<not> q e | Some j \<Rightarrow> i \<le> j \<and> j - i < length es \<and> q (es ! (j - i)))"
proof (induction es arbitrary: i)
  case (Cons e es)
  show ?case
  proof (cases "q e")
    case False
    from Cons.IH [of "i + 1"] Cons.prems obtain r where r: "find_entry p es (i + 1) = Some r"
      "case r of None \<Rightarrow> \<forall>e \<in> set es. \<not> q e | Some j \<Rightarrow> i + 1 \<le> j \<and> j - (i + 1) < length es \<and> q (es ! (j - (i + 1)))"
      by auto
    have "find_entry p (e # es) i = Some r" using r(1) Cons.prems False by simp
    moreover have "case r of None \<Rightarrow> \<forall>x \<in> set (e # es). \<not> q x
        | Some j \<Rightarrow> i \<le> j \<and> j - i < length (e # es) \<and> q ((e # es) ! (j - i))"
      using r(2) False by (cases r) (auto simp: nth_Cons' Suc_diff_Suc)
    ultimately show ?thesis by blast
  qed (use Cons.prems in simp)
qed simp

lemma dc_invD:
  assumes "dc_inv vars dc"
  shows "distinct (map (\<lambda>e. strings dc (de_name e)) (entries dc))"
    "e \<in> set (entries dc) \<Longrightarrow> de_name e \<noteq> 0 \<and> strings dc (de_name e) \<noteq> None \<and> 0 < refs e \<and>
        refs e = int (count_list vars (de_name e))"
    "lastentry dc = Some i \<Longrightarrow> i < length (entries dc)"
    "v \<in> set vars \<Longrightarrow> v \<noteq> 0 \<Longrightarrow> strings dc v \<noteq> None \<and> (v \<in> cached dc \<or> count_list vars v = 1)"
    "0 < top dc" "strings dc a \<noteq> None \<Longrightarrow> 0 < a \<and> a < top dc"
  using assms unfolding dc_inv_def by blast+

lemma dc_names:
  assumes "dc_inv vars dc" "i < length (entries dc)" "j < length (entries dc)"
    "strings dc (de_name (entries dc ! i)) = strings dc (de_name (entries dc ! j))"
  shows "i = j"
  using assms nth_eq_iff_index_eq [of "map (\<lambda>e. strings dc (de_name e)) (entries dc)" i j]
  by (simp add: dc_inv_def)

text \<open>A cache with one count changed.\<close>

lemma bump_simps [simp]: "strings (bump i d dc) = strings dc" "top (bump i d dc) = top dc"
  "lastentry (bump i d dc) = lastentry dc" "length (entries (bump i d dc)) = length (entries dc)"
  "map de_name (entries (bump i d dc)) = map de_name (entries dc)"
proof -
  let ?es = "entries dc" and ?e = "(entries dc ! i)\<lparr>refs := refs (entries dc ! i) + d\<rparr>"
  have "map de_name (?es[i := ?e]) = (map de_name ?es)[i := de_name (?es ! i)]" by (simp add: map_update)
  also have "\<dots> = map de_name ?es"
    using list_update_id [of "map de_name ?es" i] by (cases "i < length ?es") (simp_all add: list_update_beyond)
  finally show "map de_name (entries (bump i d dc)) = map de_name ?es" by (simp add: bump_def)
qed (simp_all add: bump_def)

lemma bump_nth: "i < length (entries dc) \<Longrightarrow> j < length (entries dc) \<Longrightarrow>
   entries (bump i d dc) ! j = (if j = i then (entries dc ! i)\<lparr>refs := refs (entries dc ! i) + d\<rparr> else entries dc ! j)"
  by (simp add: bump_def)

lemma bump_cached: "cached (bump i d dc) = cached dc"
  unfolding cached_def set_map [symmetric] bump_simps(5) ..

lemma dc_entry:
  assumes "dc_inv vars dc" "i < length (entries dc)"
  shows "de_name (entries dc ! i) \<noteq> 0" "strings dc (de_name (entries dc ! i)) \<noteq> None" "0 < refs (entries dc ! i)"
    "refs (entries dc ! i) = int (count_list vars (de_name (entries dc ! i)))"
  using dc_invD(2) [OF assms(1) nth_mem [OF assms(2)]] by simp_all

lemma dc_invI:
  assumes "\<And>i j. i < length (entries dc) \<Longrightarrow> j < length (entries dc) \<Longrightarrow>
      strings dc (de_name (entries dc ! i)) = strings dc (de_name (entries dc ! j)) \<Longrightarrow> i = j"
    and "\<And>i. i < length (entries dc) \<Longrightarrow> de_name (entries dc ! i) \<noteq> 0 \<and> strings dc (de_name (entries dc ! i)) \<noteq> None \<and>
      0 < refs (entries dc ! i) \<and> refs (entries dc ! i) = int (count_list vars (de_name (entries dc ! i)))"
    and "\<And>i. lastentry dc = Some i \<Longrightarrow> i < length (entries dc)"
    and "\<And>v. v \<in> set vars \<Longrightarrow> v \<noteq> 0 \<Longrightarrow> strings dc v \<noteq> None \<and> (v \<in> cached dc \<or> count_list vars v = 1)"
    and "0 < top dc" "\<And>a. strings dc a \<noteq> None \<Longrightarrow> 0 < a \<and> a < top dc"
  shows "dc_inv vars dc"
proof -
  have "distinct (map (\<lambda>e. strings dc (de_name e)) (entries dc))"
    unfolding distinct_conv_nth using assms(1) by auto
  moreover have "\<forall>e \<in> set (entries dc). de_name e \<noteq> 0 \<and> strings dc (de_name e) \<noteq> None \<and> 0 < refs e \<and>
        refs e = int (count_list vars (de_name e))"
    using assms(2) by (metis in_set_conv_nth)
  ultimately show ?thesis using assms(3-6) unfolding dc_inv_def by blast
qed

section \<open>Giving a name\<close>

lemma fresh_entry:
  assumes I: "dc_inv vars dc" and k: "k < length vars" "vars ! k = 0"
    and n: "\<And>e. e \<in> set (entries dc) \<Longrightarrow> strings dc (de_name e) \<noteq> Some value"
  defines "dc' \<equiv> dc\<lparr>strings := (strings dc)(top dc \<mapsto> value), top := top dc + 1,
      entries := entries dc @ [\<lparr>de_name = top dc, refs = 1\<rparr>], lastentry := Some (length (entries dc))\<rparr>"
  shows "dc_inv (vars[k := top dc]) dc'"
proof -
  have t: "strings dc (top dc) = None" using dc_invD(6) [OF I, of "top dc"] by (cases "strings dc (top dc)") auto
  have tv: "top dc \<notin> set vars" using dc_invD(4) [OF I, of "top dc"] dc_invD(5) [OF I] t by auto
  then have ct: "count_list vars (top dc) = 0" by (simp add: count_list_0_iff)
  have c: "count_list (vars[k := top dc]) a = (if a = top dc then 1 else count_list vars a)" if "a \<noteq> 0" for a
    using count_list_update [OF k(1), of "top dc" a] k(2) ct that by (auto split: if_splits)
  have old: "strings dc' a = strings dc a" if "a \<noteq> top dc" for a using that by (simp add: dc'_def)
  have nt: "de_name (entries dc ! i) \<noteq> top dc" if "i < length (entries dc)" for i using dc_entry(2) [OF I that] t by metis
  show ?thesis
  proof (rule dc_invI)
    show "i = j" if "i < length (entries dc')" "j < length (entries dc')"
      "strings dc' (de_name (entries dc' ! i)) = strings dc' (de_name (entries dc' ! j))" for i j
    proof -
      have v: "strings dc (de_name (entries dc ! i)) \<noteq> Some value" if "i < length (entries dc)" for i using n that by simp
      show ?thesis
        using that v [of i] v [of j] dc_names [OF I, of i j] nt [of i] nt [of j]
        by (auto simp: dc'_def nth_append less_Suc_eq split: if_splits)
    qed
    show "de_name (entries dc' ! i) \<noteq> 0 \<and> strings dc' (de_name (entries dc' ! i)) \<noteq> None \<and> 0 < refs (entries dc' ! i) \<and>
        refs (entries dc' ! i) = int (count_list (vars[k := top dc]) (de_name (entries dc' ! i)))"
      if "i < length (entries dc')" for i
    proof (cases "i < length (entries dc)")
      case True
      then show ?thesis using dc_entry [OF I True] nt [OF True] c by (simp add: dc'_def nth_append)
    next
      case False
      then have "entries dc' ! i = \<lparr>de_name = top dc, refs = 1\<rparr>" using that by (simp add: dc'_def nth_append)
      then show ?thesis using c [of "top dc"] dc_invD(5) [OF I] by (simp add: dc'_def)
    qed
    show "i < length (entries dc')" if "lastentry dc' = Some i" for i using that by (simp add: dc'_def)
    show "strings dc' v \<noteq> None \<and> (v \<in> cached dc' \<or> count_list (vars[k := top dc]) v = 1)"
      if "v \<in> set (vars[k := top dc])" "v \<noteq> 0" for v
    proof (cases "v = top dc")
      case False
      then have "v \<in> set vars" using that(1) set_update_subset_insert [of vars k "top dc"] by auto
      then have "strings dc v \<noteq> None" "v \<in> cached dc \<or> count_list vars v = 1"
        using dc_invD(4) [OF I _ that(2)] by auto
      then show ?thesis using False c [OF that(2)] old [OF False] by (auto simp: dc'_def cached_def)
    qed (simp add: dc'_def cached_def)
    show "0 < top dc'" by (simp add: dc'_def)
    show "0 < a \<and> a < top dc'" if "strings dc' a \<noteq> None" for a
    proof (cases "a = top dc")
      case False
      then show ?thesis using that dc_invD(6) [OF I, of a] old by (fastforce simp: dc'_def)
    qed (use dc_invD(5) [OF I] in \<open>simp add: dc'_def\<close>)
  qed
qed

lemma bump_up:
  assumes I: "dc_inv vars dc" and k: "k < length vars" "vars ! k = 0" and i: "i < length (entries dc)"
  shows "dc_inv (vars[k := de_name (entries dc ! i)]) (bump i 1 dc)"
proof -
  let ?p = "de_name (entries dc ! i)" and ?dc = "bump i 1 dc"
  have p: "?p \<noteq> 0" "strings dc ?p \<noteq> None" "?p \<in> cached dc" using dc_entry [OF I i] i by (auto simp: cached_def)
  have c: "count_list (vars[k := ?p]) a = count_list vars a + (if a = ?p then 1 else 0)" if "a \<noteq> 0" for a
    using count_list_update [OF k(1), of ?p a] k(2) that by (auto split: if_splits)
  have dn: "de_name (entries ?dc ! j) = de_name (entries dc ! j)" if "j < length (entries dc)" for j
    using bump_nth [OF i that] by simp
  show ?thesis
  proof (rule dc_invI)
    show "a = b" if "a < length (entries ?dc)" "b < length (entries ?dc)"
      "strings ?dc (de_name (entries ?dc ! a)) = strings ?dc (de_name (entries ?dc ! b))" for a b
      using that dc_names [OF I, of a b] dn by simp
    show "de_name (entries ?dc ! j) \<noteq> 0 \<and> strings ?dc (de_name (entries ?dc ! j)) \<noteq> None \<and> 0 < refs (entries ?dc ! j) \<and>
        refs (entries ?dc ! j) = int (count_list (vars[k := ?p]) (de_name (entries ?dc ! j)))"
      if "j < length (entries ?dc)" for j
    proof -
      have j: "j < length (entries dc)" using that by simp
      note e = dc_entry [OF I j]
      have "j \<noteq> i \<Longrightarrow> de_name (entries dc ! j) \<noteq> ?p" using dc_names [OF I j i] by auto
      then show ?thesis using e c [OF e(1)] bump_nth [OF i j, of 1] by auto
    qed
    show "j < length (entries ?dc)" if "lastentry ?dc = Some j" for j
      using that dc_invD(3) [OF I] by simp
    show "strings ?dc v \<noteq> None \<and> (v \<in> cached ?dc \<or> count_list (vars[k := ?p]) v = 1)"
      if "v \<in> set (vars[k := ?p])" "v \<noteq> 0" for v
    proof (cases "v = ?p")
      case False
      then have "v \<in> set vars" using that(1) set_update_subset_insert [of vars k ?p] by auto
      then show ?thesis using dc_invD(4) [OF I _ that(2)] c [OF that(2)] False by (auto simp: bump_cached)
    qed (use p in \<open>simp add: bump_cached\<close>)
    show "0 < top ?dc" using dc_invD(5) [OF I] by simp
    show "0 < a \<and> a < top ?dc" if "strings ?dc a \<noteq> None" for a using that dc_invD(6) [OF I, of a] by simp
  qed
qed

lemma dircache_use_spec:
  assumes I: "dc_inv vars dc" and k: "k < length vars" "vars ! k = 0"
  shows "\<exists>p dc'. dircache_use resolve v dc = Some (p, dc') \<and> dc_inv (vars[k := p]) dc' \<and>
    strings dc' p = Some (abs_path resolve v) \<and> (\<forall>a. strings dc a \<noteq> None \<longrightarrow> strings dc' a = strings dc a) \<and>
    (\<forall>e \<in> set (entries dc). strings dc (de_name e) = Some (abs_path resolve v) \<longrightarrow> p = de_name e)"
proof -
  let ?v = "abs_path resolve v"
  have found: "\<exists>p dc'. Some (de_name (entries dc ! i), bump i 1 dc) = Some (p, dc') \<and> dc_inv (vars[k := p]) dc' \<and>
      strings dc' p = Some ?v \<and> (\<forall>a. strings dc a \<noteq> None \<longrightarrow> strings dc' a = strings dc a) \<and>
      (\<forall>e \<in> set (entries dc). strings dc (de_name e) = Some ?v \<longrightarrow> p = de_name e)"
    if "i < length (entries dc)" "strings dc (de_name (entries dc ! i)) = Some ?v" for i
  proof -
    have "de_name (entries dc ! i) = de_name e" if "e \<in> set (entries dc)" "strings dc (de_name e) = Some ?v" for e
    proof -
      obtain j where "j < length (entries dc)" "entries dc ! j = e" using \<open>e \<in> set (entries dc)\<close> by (auto simp: in_set_conv_nth)
      then show ?thesis using dc_names [OF I \<open>i < length (entries dc)\<close>, of j] \<open>strings dc (de_name e) = Some ?v\<close>
          \<open>strings dc (de_name (entries dc ! i)) = Some ?v\<close> by auto
    qed
    then show ?thesis using bump_up [OF I k that(1)] that(2) by auto
  qed
  let ?fresh = "case ztrdup ?v dc of (p, dc) \<Rightarrow>
     Some (p, dc\<lparr>entries := entries dc @ [\<lparr>de_name = p, refs = 1\<rparr>], lastentry := Some (length (entries dc))\<rparr>)"
  have fresh: "\<exists>p dc'. ?fresh = Some (p, dc') \<and> dc_inv (vars[k := p]) dc' \<and>
      strings dc' p = Some ?v \<and> (\<forall>a. strings dc a \<noteq> None \<longrightarrow> strings dc' a = strings dc a) \<and>
      (\<forall>e \<in> set (entries dc). strings dc (de_name e) = Some ?v \<longrightarrow> p = de_name e)"
    if "\<And>e. e \<in> set (entries dc) \<Longrightarrow> strings dc (de_name e) \<noteq> Some ?v"
  proof -
    have "\<forall>a. strings dc a \<noteq> None \<longrightarrow> a \<noteq> top dc" using dc_invD(6) [OF I] by auto
    then show ?thesis using fresh_entry [OF I k that] that by (auto simp: ztrdup_def)
  qed
  have ss: "same_string dc ?v e = Some (strings dc (de_name e) = Some ?v)" if "e \<in> set (entries dc)" for e
    using that dc_invD(2) [OF I, of e] by (auto simp: same_string_def)
  have search: "\<exists>p dc'. do { f \<leftarrow> find_entry (same_string dc ?v) (entries dc) 0;
          (case f of Some i \<Rightarrow> Some (de_name (entries dc ! i), bump i 1 dc) | None \<Rightarrow> ?fresh) } = Some (p, dc') \<and>
      dc_inv (vars[k := p]) dc' \<and>
      strings dc' p = Some ?v \<and> (\<forall>a. strings dc a \<noteq> None \<longrightarrow> strings dc' a = strings dc a) \<and>
      (\<forall>e \<in> set (entries dc). strings dc (de_name e) = Some ?v \<longrightarrow> p = de_name e)"
  proof -
    from find_entry_spec [where p = "same_string dc ?v" and es = "entries dc" and i = 0, OF ss]
    obtain r where r: "find_entry (same_string dc ?v) (entries dc) 0 = Some r"
      "case r of None \<Rightarrow> \<forall>e \<in> set (entries dc). strings dc (de_name e) \<noteq> Some ?v
         | Some j \<Rightarrow> 0 \<le> j \<and> j - 0 < length (entries dc) \<and> strings dc (de_name (entries dc ! (j - 0))) = Some ?v"
      by blast
    show ?thesis
    proof (cases r)
      case None
      then show ?thesis using r fresh by simp
    next
      case (Some j)
      then show ?thesis using r found [of j] by simp
    qed
  qed
  show ?thesis
  proof (cases "lastentry dc")
    case None
    then show ?thesis
      using search fresh by (cases "entries dc = []") (simp_all add: dircache_use_def Let_def)
  next
    case (Some i)
    then have i: "i < length (entries dc)" using dc_invD(3) [OF I] by blast
    then have ne: "entries dc \<noteq> []" by auto
    show ?thesis
    proof (cases "strings dc (de_name (entries dc ! i)) = Some ?v")
      case True
      then show ?thesis using found [OF i True] Some i ss [of "entries dc ! i"]
        by (simp add: dircache_use_def Let_def)
    next
      case False
      then show ?thesis using search Some i ne ss [of "entries dc ! i"]
        by (simp add: dircache_use_def Let_def)
    qed
  qed
qed

section \<open>Giving a name back\<close>

lemma count_drop:
  "k < length vars \<Longrightarrow> a \<noteq> 0 \<Longrightarrow>
   count_list (vars[k := 0]) a + (if vars ! k = a then 1 else 0) = count_list vars a"
  using count_list_update [of k vars 0 a] by simp

lemma count_one: "k < length vars \<Longrightarrow> count_list vars (vars ! k) = 1 \<Longrightarrow> vars ! k \<noteq> 0 \<Longrightarrow> vars ! k \<notin> set (vars[k := 0])"
  using count_drop [of k vars "vars ! k"] by (simp add: count_list_0_iff)

lemma in_upd0: "v \<in> set (vars[k := 0]) \<Longrightarrow> v \<noteq> 0 \<Longrightarrow> v \<in> set vars"
  using set_update_subset_insert [of vars k 0] by auto

lemma refs_pos: "0 < refs e \<Longrightarrow> refs e = int c \<Longrightarrow> 0 < c"
  by simp

text \<open>A string of its own is freed.\<close>

lemma drop_own:
  assumes I: "dc_inv vars dc" and k: "k < length vars" "vars ! k \<noteq> 0" "vars ! k \<notin> cached dc"
  defines "dc' \<equiv> dc\<lparr>strings := (strings dc)(vars ! k := None)\<rparr>"
  shows "zsfree (vars ! k) dc = Some dc'" "dc_inv (vars[k := 0]) dc'"
    "\<And>v. v \<in> set (vars[k := 0]) \<Longrightarrow> v \<noteq> 0 \<Longrightarrow> strings dc' v = strings dc v" "strings dc' (vars ! k) = None"
proof -
  let ?n = "vars ! k"
  have nv: "?n \<in> set vars" using k(1) by simp
  have s: "strings dc ?n \<noteq> None" "count_list vars ?n = 1" using dc_invD(4) [OF I nv k(2)] k(3) by auto
  then show "zsfree ?n dc = Some dc'" using k(2) by (simp add: zsfree_def dc'_def)
  have o: "?n \<notin> set (vars[k := 0])" using count_one [OF k(1) s(2) k(2)] .
  show oth: "\<And>v. v \<in> set (vars[k := 0]) \<Longrightarrow> v \<noteq> 0 \<Longrightarrow> strings dc' v = strings dc v" using o by (auto simp: dc'_def)
  show "strings dc' ?n = None" by (simp add: dc'_def)
  have en: "de_name (entries dc ! i) \<noteq> ?n" if "i < length (entries dc)" for i
    using imageI [OF nth_mem [OF that], of de_name] k(3) unfolding cached_def by metis
  have c: "count_list (vars[k := 0]) a = count_list vars a" if "a \<noteq> 0" "a \<noteq> ?n" for a
    using count_drop [OF k(1) that(1)] that(2) by simp
  have f: "entries dc' = entries dc" "top dc' = top dc" "lastentry dc' = lastentry dc" "cached dc' = cached dc"
    by (simp_all add: dc'_def cached_def)
  show "dc_inv (vars[k := 0]) dc'"
  proof (rule dc_invI, unfold f)
    show "i = j" if "i < length (entries dc)" "j < length (entries dc)"
      "strings dc' (de_name (entries dc ! i)) = strings dc' (de_name (entries dc ! j))" for i j
      using that en [OF that(1)] en [OF that(2)] dc_names [OF I that(1,2)] by (simp add: dc'_def)
    show "de_name (entries dc ! i) \<noteq> 0 \<and> strings dc' (de_name (entries dc ! i)) \<noteq> None \<and> 0 < refs (entries dc ! i) \<and>
        refs (entries dc ! i) = int (count_list (vars[k := 0]) (de_name (entries dc ! i)))" if "i < length (entries dc)" for i
      using dc_entry [OF I that] en [OF that] c by (simp add: dc'_def)
    show "i < length (entries dc)" if "lastentry dc = Some i" for i using dc_invD(3) [OF I that] .
    show "strings dc' v \<noteq> None \<and> (v \<in> cached dc \<or> count_list (vars[k := 0]) v = 1)"
      if "v \<in> set (vars[k := 0])" "v \<noteq> 0" for v
    proof -
      have "v \<noteq> ?n" using o that(1) by metis
      then show ?thesis using oth [OF that] dc_invD(4) [OF I in_upd0 [OF that] that(2)] c [OF that(2)] by simp
    qed
    show "0 < top dc" using dc_invD(5) [OF I] .
    show "0 < a \<and> a < top dc" if "strings dc' a \<noteq> None" for a
      using that dc_invD(6) [OF I, of a] by (auto simp: dc'_def split: if_splits)
  qed
qed

text \<open>A shared string that is still used keeps its place.\<close>

lemma drop_shared:
  assumes I: "dc_inv vars dc" and k: "k < length vars" and i: "i < length (entries dc)" "vars ! k = de_name (entries dc ! i)"
    and r: "refs (entries dc ! i) \<noteq> 1"
  shows "dc_inv (vars[k := 0]) (bump i (- 1) dc)"
proof -
  let ?p = "de_name (entries dc ! i)" and ?dc = "bump i (- 1) dc"
  have c: "int (count_list (vars[k := 0]) a) = int (count_list vars a) - (if a = ?p then 1 else 0)" if "a \<noteq> 0" for a
    using count_drop [OF k that] i(2) by (auto split: if_splits)
  have dn: "de_name (entries ?dc ! j) = de_name (entries dc ! j)" if "j < length (entries dc)" for j
    using bump_nth [OF i(1) that] by simp
  show ?thesis
  proof (rule dc_invI)
    show "a = b" if "a < length (entries ?dc)" "b < length (entries ?dc)"
      "strings ?dc (de_name (entries ?dc ! a)) = strings ?dc (de_name (entries ?dc ! b))" for a b
      using that dc_names [OF I, of a b] dn by simp
    show "de_name (entries ?dc ! j) \<noteq> 0 \<and> strings ?dc (de_name (entries ?dc ! j)) \<noteq> None \<and> 0 < refs (entries ?dc ! j) \<and>
        refs (entries ?dc ! j) = int (count_list (vars[k := 0]) (de_name (entries ?dc ! j)))"
      if "j < length (entries ?dc)" for j
    proof -
      have j: "j < length (entries dc)" using that by simp
      note e = dc_entry [OF I j]
      have "j \<noteq> i \<Longrightarrow> de_name (entries dc ! j) \<noteq> ?p" using dc_names [OF I j i(1)] by auto
      then show ?thesis using e c [OF e(1)] bump_nth [OF i(1) j, of "- 1"] r by auto
    qed
    show "j < length (entries ?dc)" if "lastentry ?dc = Some j" for j using that dc_invD(3) [OF I] by simp
    show "strings ?dc v \<noteq> None \<and> (v \<in> cached ?dc \<or> count_list (vars[k := 0]) v = 1)"
      if "v \<in> set (vars[k := 0])" "v \<noteq> 0" for v
    proof -
      have "strings dc v \<noteq> None \<and> (v \<in> cached dc \<or> count_list vars v = 1)"
        using dc_invD(4) [OF I in_upd0 [OF that] that(2)] .
      moreover have "v = ?p \<Longrightarrow> v \<in> cached dc" using i by (auto simp: cached_def)
      ultimately show ?thesis using c [OF that(2)] by (cases "v = ?p") (auto simp: bump_cached)
    qed
    show "0 < top ?dc" using dc_invD(5) [OF I] by simp
    show "0 < a \<and> a < top ?dc" if "strings ?dc a \<noteq> None" for a using that dc_invD(6) [OF I, of a] by simp
  qed
qed

lemma nth_remove: "i < length xs \<Longrightarrow> j < length xs - 1 \<Longrightarrow>
    (take i xs @ drop (i + 1) xs) ! j = xs ! (if j < i then j else j + 1)"
  by (simp add: nth_append min_def)

text \<open>The last reference to a shared string frees it.\<close>

lemma drop_last:
  assumes I: "dc_inv vars dc" and k: "k < length vars" and i: "i < length (entries dc)" "vars ! k = de_name (entries dc ! i)"
    and r: "refs (entries dc ! i) = 1"
  defines "dc' \<equiv> dc\<lparr>strings := (strings dc)(vars ! k := None),
      entries := take i (entries dc) @ drop (i + 1) (entries dc), lastentry := None\<rparr>"
  shows "dc_inv (vars[k := 0]) dc'" "\<And>v. v \<in> set (vars[k := 0]) \<Longrightarrow> v \<noteq> 0 \<Longrightarrow> strings dc' v = strings dc v"
proof -
  let ?n = "vars ! k" and ?s = "\<lambda>j. if j < i then j else j + 1"
  note e = dc_entry [OF I i(1)]
  have one: "count_list vars ?n = 1" "?n \<noteq> 0" using e r i(2) by simp_all
  have o: "?n \<notin> set (vars[k := 0])" using count_one [OF k one] .
  show oth: "\<And>v. v \<in> set (vars[k := 0]) \<Longrightarrow> v \<noteq> 0 \<Longrightarrow> strings dc' v = strings dc v" using o by (auto simp: dc'_def)
  have len: "length (entries dc') = length (entries dc) - 1" using i by (simp add: dc'_def)
  have nth: "entries dc' ! j = entries dc ! ?s j" "?s j < length (entries dc)" "?s j \<noteq> i" if "j < length (entries dc')" for j
    using that nth_remove [OF i(1), of j] unfolding len by (auto simp: dc'_def)
  have en: "de_name (entries dc ! ?s j) \<noteq> ?n" if "j < length (entries dc')" for j
    using dc_names [OF I nth(2) [OF that] i(1)] nth(3) [OF that] i(2) by metis
  have c: "count_list (vars[k := 0]) a = count_list vars a" if "a \<noteq> 0" "a \<noteq> ?n" for a
    using count_drop [OF k that(1)] that(2) by simp
  show "dc_inv (vars[k := 0]) dc'"
  proof (rule dc_invI)
    show "a = b" if "a < length (entries dc')" "b < length (entries dc')"
      "strings dc' (de_name (entries dc' ! a)) = strings dc' (de_name (entries dc' ! b))" for a b
    proof -
      have "strings dc (de_name (entries dc ! ?s a)) = strings dc (de_name (entries dc ! ?s b))"
        using that(3) en [OF that(1)] en [OF that(2)] nth(1) [OF that(1)] nth(1) [OF that(2)] by (simp add: dc'_def)
      then have "?s a = ?s b" using dc_names [OF I nth(2) [OF that(1)] nth(2) [OF that(2)]] by blast
      then show "a = b" by (auto split: if_splits)
    qed
    show "de_name (entries dc' ! j) \<noteq> 0 \<and> strings dc' (de_name (entries dc' ! j)) \<noteq> None \<and> 0 < refs (entries dc' ! j) \<and>
        refs (entries dc' ! j) = int (count_list (vars[k := 0]) (de_name (entries dc' ! j)))"
      if "j < length (entries dc')" for j
      using dc_entry [OF I nth(2) [OF that]] en [OF that] c unfolding nth(1) [OF that] by (simp add: dc'_def)
    show "j < length (entries dc')" if "lastentry dc' = Some j" for j using that by (simp add: dc'_def)
    show "strings dc' v \<noteq> None \<and> (v \<in> cached dc' \<or> count_list (vars[k := 0]) v = 1)"
      if v: "v \<in> set (vars[k := 0])" "v \<noteq> 0" for v
    proof -
      have vn: "v \<noteq> ?n" using o v(1) by auto
      have "v \<in> cached dc \<Longrightarrow> v \<in> cached dc'"
      proof -
        assume "v \<in> cached dc"
        then obtain j where j: "j < length (entries dc)" "de_name (entries dc ! j) = v"
          by (auto simp: cached_def in_set_conv_nth)
        then have ji: "j \<noteq> i" using vn i(2) by auto
        let ?t = "if j < i then j else j - 1"
        have "?t < length (entries dc')" "?s ?t = j" using j ji len i(1) by auto
        then show "v \<in> cached dc'" using nth(1) [of ?t] j(2) nth_mem [of ?t "entries dc'"] by (auto simp: cached_def)
      qed
      then show ?thesis using oth [OF v] dc_invD(4) [OF I in_upd0 [OF v] v(2)] c [OF v(2) vn] by auto
    qed
    show "0 < top dc'" using dc_invD(5) [OF I] by (simp add: dc'_def)
    show "0 < a \<and> a < top dc'" if "strings dc' a \<noteq> None" for a
      using that dc_invD(6) [OF I, of a] by (auto simp: dc'_def split: if_splits)
  qed
qed

lemma dircache_drop_spec:
  assumes I: "dc_inv vars dc" and k: "k < length vars"
  shows "\<exists>dc'. dircache_drop (vars ! k) dc = Some (0, dc') \<and> dc_inv (vars[k := 0]) dc' \<and>
    (\<forall>v \<in> set (vars[k := 0]). v \<noteq> 0 \<longrightarrow> strings dc' v = strings dc v) \<and>
    (vars ! k \<noteq> 0 \<and> vars ! k \<notin> set (vars[k := 0]) \<longrightarrow> strings dc' (vars ! k) = None)"
proof -
  let ?n = "vars ! k"
  have fe: "\<exists>r. find_entry (\<lambda>e. Some (?n = de_name e)) (entries dc) 0 = Some r \<and>
      (case r of None \<Rightarrow> ?n \<notin> cached dc | Some j \<Rightarrow> j < length (entries dc) \<and> ?n = de_name (entries dc ! j))"
    using find_entry_spec [where es = "entries dc" and p = "\<lambda>e. Some (?n = de_name e)" and q = "\<lambda>e. ?n = de_name e" and i = 0]
    by (auto simp: cached_def split: option.splits)
  show ?thesis
  proof (cases "?n = 0")
    case True
    then have "vars[k := 0] = vars" by (metis list_update_id)
    then show ?thesis using True I by (simp add: dircache_drop_def)
  next
    case nz: False
    show ?thesis
    proof (cases "?n \<in> cached dc")
      case False
      then show ?thesis using drop_own [OF I k nz False] fe nz
        by (auto simp: dircache_drop_def split: option.splits) (auto simp: cached_def)
    next
      case True
      then obtain j where j: "find_entry (\<lambda>e. Some (?n = de_name e)) (entries dc) 0 = Some (Some j)"
        "j < length (entries dc)" "?n = de_name (entries dc ! j)" and ne: "entries dc \<noteq> []"
        using fe by (fastforce split: option.splits)
      have bj: "entries (bump j (- 1) dc) ! j = (entries dc ! j)\<lparr>refs := refs (entries dc ! j) - 1\<rparr>"
        using bump_nth [OF j(2,2)] by simp
      show ?thesis
      proof (cases "refs (entries dc ! j) = 1")
        case True
        let ?dc = "dc\<lparr>strings := (strings dc)(?n := None),
            entries := take j (entries dc) @ drop (j + 1) (entries dc), lastentry := None\<rparr>"
        have "dircache_drop ?n dc = Some (0, ?dc)"
          using nz ne j bj True dc_entry(2) [OF I j(2)]
          by (auto simp: dircache_drop_def Let_def zsfree_def bump_def take_update_cancel drop_update_cancel)
        with drop_last [OF I k j(2,3) True] show ?thesis by auto
      next
        case False
        have "dircache_drop ?n dc = Some (0, bump j (- 1) dc)"
          using nz ne j bj False by (simp add: dircache_drop_def Let_def)
        moreover have "?n \<in> set (vars[k := 0])"
        proof -
          have "1 < count_list vars ?n" using dc_entry(3,4) [OF I j(2)] False j(3) by simp
          then have "count_list (vars[k := 0]) ?n \<noteq> 0" using count_drop [OF k nz] by simp
          then show ?thesis by (metis count_list_0_iff)
        qed
        ultimately show ?thesis using drop_shared [OF I k j(2,3) False] by simp
      qed
    qed
  qed
qed

section \<open>Runs\<close>

text \<open>
  Variables take a name (when they hold none), give it back, or are given a string of their
  own, as the file of a function that was loaded.
\<close>

inductive dc_step :: "(string \<Rightarrow> string) \<Rightarrow> addr list \<times> dircache \<Rightarrow> addr list \<times> dircache \<Rightarrow> bool" for resolve where
  set_name: "k < length vars \<Longrightarrow> vars ! k = 0 \<Longrightarrow> dircache_set resolve (vars ! k) (Some v) dc = Some (p, dc') \<Longrightarrow>
    dc_step resolve (vars, dc) (vars[k := p], dc')"
| clear_name: "k < length vars \<Longrightarrow> dircache_set resolve (vars ! k) None dc = Some (p, dc') \<Longrightarrow>
    dc_step resolve (vars, dc) (vars[k := p], dc')"
| own_name: "k < length vars \<Longrightarrow> vars ! k = 0 \<Longrightarrow> ztrdup s dc = (p, dc') \<Longrightarrow> dc_step resolve (vars, dc) (vars[k := p], dc')"

inductive_cases dc_stepE: "dc_step resolve (vars, dc) t"

lemma own_inv:
  assumes I: "dc_inv vars dc" and k: "k < length vars" "vars ! k = 0" and z: "ztrdup s dc = (p, dc')"
  shows "dc_inv (vars[k := p]) dc'"
proof -
  have p: "p = top dc" and d: "dc' = dc\<lparr>strings := (strings dc)(top dc \<mapsto> s), top := top dc + 1\<rparr>"
    using z by (auto simp: ztrdup_def)
  have t: "strings dc p = None" using dc_invD(6) [OF I, of p] p by (cases "strings dc p") auto
  have tv: "p \<notin> set vars" using dc_invD(4) [OF I, of p] dc_invD(5) [OF I] t p by auto
  then have ct: "count_list vars p = 0" by (simp add: count_list_0_iff)
  have c: "count_list (vars[k := p]) a = (if a = p then 1 else count_list vars a)" if "a \<noteq> 0" for a
    using count_list_update [OF k(1), of p a] k(2) ct that by (auto split: if_splits)
  have nt: "de_name (entries dc ! i) \<noteq> p" if "i < length (entries dc)" for i using dc_entry(2) [OF I that] t by metis
  have f: "entries dc' = entries dc" "lastentry dc' = lastentry dc" "cached dc' = cached dc" "top dc' = top dc + 1"
    "\<And>a. a \<noteq> p \<Longrightarrow> strings dc' a = strings dc a" "strings dc' p = Some s"
    by (simp_all add: d cached_def p)
  show ?thesis
  proof (rule dc_invI, unfold f(1-4))
    show "i = j" if "i < length (entries dc)" "j < length (entries dc)"
      "strings dc' (de_name (entries dc ! i)) = strings dc' (de_name (entries dc ! j))" for i j
      using that dc_names [OF I that(1,2)] f(5) [OF nt [OF that(1)]] f(5) [OF nt [OF that(2)]] by simp
    show "de_name (entries dc ! i) \<noteq> 0 \<and> strings dc' (de_name (entries dc ! i)) \<noteq> None \<and> 0 < refs (entries dc ! i) \<and>
        refs (entries dc ! i) = int (count_list (vars[k := p]) (de_name (entries dc ! i)))" if "i < length (entries dc)" for i
      using dc_entry [OF I that] nt [OF that] c f(5) [OF nt [OF that]] by simp
    show "i < length (entries dc)" if "lastentry dc = Some i" for i using dc_invD(3) [OF I that] .
    show "strings dc' v \<noteq> None \<and> (v \<in> cached dc \<or> count_list (vars[k := p]) v = 1)"
      if "v \<in> set (vars[k := p])" "v \<noteq> 0" for v
    proof (cases "v = p")
      case False
      then have "v \<in> set vars" using that(1) set_update_subset_insert [of vars k p] by auto
      then show ?thesis using dc_invD(4) [OF I _ that(2)] c [OF that(2)] f(5) [OF False] False by simp
    qed (use c [OF that(2)] f(6) in simp)
    show "0 < top dc + 1" by simp
    show "0 < a \<and> a < top dc + 1" if "strings dc' a \<noteq> None" for a
    proof (cases "a = p")
      case False
      then show ?thesis using that dc_invD(6) [OF I, of a] f(5) [OF False] by simp
    qed (use p dc_invD(5) [OF I] in simp)
  qed
qed

lemma dc_step_inv: "dc_step resolve s t \<Longrightarrow> dc_inv (fst s) (snd s) \<Longrightarrow> dc_inv (fst t) (snd t)"
proof (induction rule: dc_step.induct)
  case (set_name k vars v dc p dc')
  then show ?case using dircache_use_spec [of vars dc k resolve v] by (auto simp: dircache_set_def)
next
  case (clear_name k vars dc p dc')
  then show ?case using dircache_drop_spec [of vars dc k] by (auto simp: dircache_set_def)
next
  case (own_name k vars s dc p dc')
  then show ?case using own_inv by simp
qed

lemma dc_init_inv: "dc_inv (replicate n 0) dircache_init"
  by (rule dc_invI) (auto simp: dircache_init_def)

lemma dc_reach_inv: "(dc_step resolve)\<^sup>*\<^sup>* s t \<Longrightarrow> dc_inv (fst s) (snd s) \<Longrightarrow> dc_inv (fst t) (snd t)"
  by (induction rule: rtranclp_induct) (auto intro: dc_step_inv)

end
