(* ===== verification/HashTable_Props.thy ===== *)
theory HashTable_Props
  imports Hash_Tables Hash_History Dir_Cache
begin

text \<open>
  The properties of the hash tables of \<open>Src/hashtable.c\<close>, of the tables built from them and
  of the directory-name cache, with a small table to show each at work.
\<close>

section \<open>A small table\<close>

text \<open>Three buckets hashed by \<open>hasher\<close>; nodes ''a'', ''b'', ''c'' in cells 1 to 3, cells 4 and 5 free.\<close>

definition cell :: "string \<Rightarrow> 32 word \<Rightarrow> addr \<Rightarrow> unit hnode" where
  "cell s fl nx = \<lparr>hnext = nx, nam = s, flags = fl, body = ()\<rparr>"

definition demo_tab :: "unit htab" where
  "demo_tab = (newhashtable 3 hasher strcmp)\<lparr>ct := 3, nodes := [3, 1, 2],
     mem := [1 \<mapsto> cell ''a'' 0 0, 2 \<mapsto> cell ''b'' 1 0, 3 \<mapsto> cell ''c'' 0 0,
             4 \<mapsto> cell ''x'' 0 0, 5 \<mapsto> cell ''x'' 0 0]\<rparr>"

lemma demo_hash: "unat (hasher ''a'') mod 3 = 1" "unat (hasher ''b'') mod 3 = 2" "unat (hasher ''c'') mod 3 = 0"
  by (simp_all add: hasher_def NUL_def)

lemma demo_hwf: "hwf demo_tab [[3], [1], [2]]" "members [[3], [1], [2]] = {1, 2, 3}"
proof -
  have m: "mem demo_tab 1 = Some (cell ''a'' 0 0)" "mem demo_tab 2 = Some (cell ''b'' 1 0)"
    "mem demo_tab 3 = Some (cell ''c'' 0 0)" "hash demo_tab = hasher" "hsize demo_tab = 3" "nodes demo_tab = [3, 1, 2]"
    by (simp_all add: demo_tab_def newhashtable_def)
  have b1: "bucket_ok demo_tab i [a]" if "mem demo_tab a = Some (cell s fl 0)" "unat (hasher s) mod 3 = i"
    "nodes demo_tab ! i = a" "a \<noteq> 0" for i a s fl
    using that m(4,5) by (simp add: bucket_ok_def idx_def hname_def cell_def)
  have b: "bucket_ok demo_tab i ([[3], [1], [2]] ! i)" if i3: "i < 3" for i
  proof -
    consider "i = 0" | "i = 1" | "i = 2" using i3 by linarith
    then show ?thesis
    proof cases
      case 1
      then show ?thesis using b1 [OF m(3) demo_hash(3)] m(6) by simp
    next
      case 2
      then show ?thesis using b1 [OF m(1) demo_hash(1)] m(6) by simp
    next
      case 3
      then show ?thesis using b1 [OF m(2) demo_hash(2)] m(6) by simp
    qed
  qed
  then show "hwf demo_tab [[3], [1], [2]]"
    using key_ok_str unfolding hwf_def by (simp add: demo_tab_def newhashtable_def)
  show "members [[3], [1], [2]] = {1, 2, 3}" by (auto simp: members_def)
qed

lemma demo_table: "table hasher strcmp demo_tab {1, 2, 3}"
  unfolding table_def using demo_hwf by (auto simp: demo_tab_def newhashtable_def scan_ok_def)

section \<open>Properties\<close>

text \<open>C4: A table hashed by hasher and compared by strcmp is a dictionary from names to nodes.
  Adding a node always returns, however deep expansions nest, puts the node under its
  name, keeps every other name's node and frees the one node the name had; removing the
  name then gives back just that node.  Well-formedness (every node in the bucket of its
  name, no name twice, the count exact) is kept.\<close>

theorem table_store_remove:
  assumes "table hasher strcmp ht N" "ready ht v" "v \<notin> N"
  shows "\<exists>t old. addnode ht k v = Some t \<and> gethashnode2 ht k = Some old \<and>
     table hasher strcmp t (insert v (N - {old})) \<and>
     (\<forall>j. gethashnode2 t j = (if cstr k = cstr j then Some v else gethashnode2 ht j)) \<and>
     (\<exists>u. removehashnode t k = Some (v, u) \<and> table hasher strcmp u (N - {old} - {v}) \<and>
        (\<forall>j. gethashnode2 u j = (if cstr k = cstr j then Some 0 else gethashnode2 ht j)))"
proof -
  from plain.put_law [OF assms, of k] obtain t old where
    t: "addnode ht k v = Some t" "gethashnode2 ht k = Some old" "table hasher strcmp t (insert v (N - {old}))"
      "\<And>j. gethashnode2 t j = (if cstr k = cstr j then Some v else gethashnode2 ht j)"
    unfolding strcmp_0 by blast
  from plain.del_law [OF t(3), of k] obtain u w where
    u: "removehashnode t k = Some (w, u)" "gethashnode2 t k = Some w"
      "table hasher strcmp u (insert v (N - {old}) - {w})"
      "\<And>j. gethashnode2 u j = (if cstr k = cstr j then Some 0 else gethashnode2 t j)"
    unfolding strcmp_0 by blast
  have w: "w = v" using u(2) t(4) by simp
  have "insert v (N - {old}) - {v} = N - {old} - {v}" by auto
  then show ?thesis using t u(1,3,4) unfolding w by auto
qed

theorem table_store_remove_witness:
  "\<exists>t. addnode demo_tab ''b'' 4 = Some t \<and> table hasher strcmp t {1, 3, 4} \<and> gethashnode2 t ''b'' = Some 4 \<and>
     gethashnode2 t ''a'' = gethashnode2 demo_tab ''a'' \<and>
     (\<exists>u. removehashnode t ''b'' = Some (4, u) \<and> gethashnode2 u ''b'' = Some 0)"
proof -
  have r: "ready demo_tab 4" "(4 :: nat) \<notin> {1, 2, 3}" by (simp_all add: ready_def demo_tab_def)
  have "2 \<in> members [[3], [1], [2]]" unfolding demo_hwf(2) by simp
  moreover have "same_key demo_tab 2 ''b''"
    by (simp add: same_key_def hname_def demo_tab_def cell_def newhashtable_def)
  ultimately have g: "gethashnode2 demo_tab ''b'' = Some 2" using hwf_get [OF demo_hwf(1), of "''b''" 2] by auto
  have n: "insert 4 ({1, 2, 3} - {2}) = {1, 3, 4 :: nat}" by auto
  have c: "cstr ''b'' = ''b''" "cstr ''a'' = ''a''" by (simp_all add: NUL_def)
  show ?thesis
    using table_store_remove [OF demo_table r, of "''b''"] g n c by auto
qed





text \<open>C29: A scan with a function that leaves the table alone calls it on every node that passes
  the flags and the pattern, once each: a sorted scan in the order of the names as ztrcmp
  compares them, an unsorted one bucket by bucket.  It returns their number and leaves the
  table as it was.\<close>

theorem scan_order:
  assumes "hwf ht cs" "scan ht = None" "scantab = None \<or> pprog \<noteq> None"
    and "mset (qsort (hnamcmp ht) (concat cs)) = mset (concat cs)"
    and "sorted_wrt (\<lambda>a b. hnamcmp ht a b \<le> 0) (qsort (hnamcmp ht) (concat cs))"
  shows "\<exists>order. scanmatchtable qsort scantab pprog srt flags1 flags2 (quiet (\<lambda>a l. l @ [a])) ([], ht) =
       Some (length order, order, ht) \<and> distinct order \<and>
     set order = {a \<in> members cs. wanted pprog flags1 flags2 (the (mem ht a))} \<and>
     (srt \<longrightarrow> sorted_wrt (\<lambda>a b. ztrcmp (hname (mem ht) a) (hname (mem ht) b) \<le> 0) order) \<and>
     (\<not> srt \<longrightarrow> order = filter (\<lambda>a. wanted pprog flags1 flags2 (the (mem ht a))) (concat cs))"
proof -
  let ?f = "wants (wanted pprog flags1 flags2) ht"
  let ?all = "if srt then qsort (hnamcmp ht) (concat cs) else concat cs"
  have wf: "?f = (\<lambda>a. wanted pprog flags1 flags2 (the (mem ht a)))" by (rule ext) (simp add: wants_def)
  have fo: "fold (\<lambda>a l. l @ [a]) xs l = l @ xs" for xs l :: "addr list" by (induction xs arbitrary: l) simp_all
  have "scanmatchtable qsort scantab pprog srt flags1 flags2 (quiet (\<lambda>a l. l @ [a])) ([], ht) =
      Some (length (filter ?f ?all), filter ?f ?all, ht)"
    using scan_quiet [where qsort = qsort and cs = cs and ht = ht and ?flags1.0 = flags1 and ?flags2.0 = flags2 and srt = srt
        and g = "\<lambda>a l. l @ [a]" and x = "[]", OF assms(1,2,4,3)] by (simp add: fo)
  moreover have "distinct ?all" "set ?all = members cs"
    using hwf_distinct [OF assms(1)] mset_eq_imp_distinct_iff [OF assms(4)] mset_eq_setD [OF assms(4)]
    by (simp_all add: members_def)
  moreover have "srt \<longrightarrow> sorted_wrt (\<lambda>a b. hnamcmp ht a b \<le> 0) (filter ?f ?all)"
    using assms(5) by (simp add: sorted_wrt_filter)
  ultimately show ?thesis
    unfolding wf by (intro exI [of _ "filter (\<lambda>a. wanted pprog flags1 flags2 (the (mem ht a))) ?all"]) (auto simp: hnamcmp_def)
qed

theorem scan_order_witness:
  "\<exists>order. scanmatchtable (\<lambda>c xs. [1, 2, 3]) None None True 0 DISABLED (quiet (\<lambda>a l. l @ [a])) ([], demo_tab) =
     Some (length order, order, demo_tab) \<and> set order = {1, 3}"
proof -
  have s: "mem demo_tab 1 = Some (cell ''a'' 0 0)" "mem demo_tab 2 = Some (cell ''b'' 1 0)"
    "mem demo_tab 3 = Some (cell ''c'' 0 0)" by (simp_all add: demo_tab_def)
  have "{a \<in> {1, 2, 3}. wanted None 0 DISABLED (the (mem demo_tab a))} = {1, 3}"
    using s by (auto simp: wanted_def cell_def DISABLED_def)
  moreover have "sorted_wrt (\<lambda>a b. hnamcmp demo_tab a b \<le> 0) [1, 2, 3]"
    using s by (simp add: hnamcmp_def hname_def cell_def zcoll_def chr0_def schar_def Let_def)
  moreover have "scan demo_tab = None" by (simp add: demo_tab_def newhashtable_def)
  ultimately show ?thesis
    using scan_order [OF demo_hwf(1), of None None "\<lambda>c xs. [1, 2, 3]" True 0 DISABLED] demo_hwf(2) by auto
qed

text \<open>C30: The function an unsorted scan calls may add, replace and remove nodes: the scan ends,
  faults nowhere, calls it exactly once on every wanted node that is neither replaced nor
  removed meanwhile, and leaves a well-formed table that holds those nodes.\<close>

theorem scan_lasting:
  assumes "hwf ht cs" "scan ht = None" "P \<subseteq> members cs" "noting P f" "scantab = None \<or> pprog \<noteq> None"
  shows "\<exists>l ht' cs'. scanmatchtable qsort scantab pprog False flags1 flags2 f ([], ht) = Some (length l, l, ht') \<and>
    (\<forall>p\<in>P. count_list l p = (if wants (wanted pprog flags1 flags2) ht p then 1 else 0)) \<and>
    hwf ht' cs' \<and> P \<subseteq> members cs' \<and> scan ht' = None"
  using scan_notes [OF assms] by blast

text \<open>A function that removes ''b'' unless its node is in \<open>P\<close>.\<close>

definition drop_b :: "addr set \<Rightarrow> (addr list, unit) scanfunc" where
  "drop_b P a s = (case s of (l, ht) \<Rightarrow> Some (l @ [a],
     (case (gethashnode2 ht ''b'', removehashnode ht ''b'') of
        (Some old, Some (r, ht')) \<Rightarrow> if old \<in> P then ht else ht' | _ \<Rightarrow> ht)))"

lemma noting_drop_b: "noting P (drop_b P)"
  unfolding noting_def
proof (intro allI)
  fix a l and ht :: "unit htab"
  show "\<exists>ht'. drop_b P a (l, ht) = Some (l @ [a], ht') \<and> (hstep P)\<^sup>*\<^sup>* ht ht'"
    using hstep.rem [of ht "''b''" _ P] by (auto simp: drop_b_def split: option.splits)
qed

theorem scan_lasting_witness:
  "\<exists>l ht' cs'. scanmatchtable (\<lambda>c xs. xs) None None False 0 0 (drop_b {1, 3}) ([], demo_tab) = Some (length l, l, ht') \<and>
     count_list l 1 = 1 \<and> count_list l 3 = 1 \<and> hwf ht' cs' \<and> {1, 3} \<subseteq> members cs'"
proof -
  have P: "{1, 3} \<subseteq> members [[3], [1], [2]]" unfolding demo_hwf(2) by simp
  have "scan demo_tab = None" by (simp add: demo_tab_def newhashtable_def)
  from scan_lasting [OF demo_hwf(1) this P noting_drop_b disjI1 [OF refl], of "\<lambda>c xs. xs" None 0 0] obtain l ht' cs' where
    r: "scanmatchtable (\<lambda>c xs. xs) None None False 0 0 (drop_b {1, 3}) ([], demo_tab) = Some (length l, l, ht')"
      "\<forall>p\<in>{1, 3}. count_list l p = (if wants (wanted None 0 0) demo_tab p then 1 else 0)"
      "hwf ht' cs'" "{1, 3} \<subseteq> members cs'" by blast
  have "wants (wanted None 0 0) demo_tab a" for a by (simp add: wants_def wanted_def)
  with r show ?thesis by auto
qed

text \<open>C31: A sorted scan does not survive the removal of a node it has not reached: when the function
  called on the first node removes the second, the scan reads the flags of the cleared
  slot, a NULL pointer.\<close>

theorem sorted_scan_null:
  assumes "hwf ht cs" "scan ht = None" "qsort (hnamcmp ht) (concat cs) = a # b # ns"
    and "mset (a # b # ns) = mset (concat cs)" "scantab = None \<or> pprog \<noteq> None"
    and "wanted pprog flags1 flags2 (the (mem ht a))"
    and "\<And>h. f a (x, h) = map_option (\<lambda>r. (x, snd r)) (removehashnode h (hname (mem ht) b))"
  shows "scanmatchtable qsort scantab pprog True flags1 flags2 f (x, ht) = None"
proof -
  note w = assms(1)
  have l: "list_all2 (hchain (mem ht)) (nodes ht) cs" using hwfD(3,4,7) [OF w] by (simp add: list_all2_conv_all_nth)
  have cs: "collect_all ht (nodes ht) = Some (concat cs)" using collect_all_spec [OF l] .
  have ct: "length (concat cs) = ct ht" using hwfD(5) [OF w] by (simp add: length_concat)
  have case_nt: "(case (pprog, scantab) of (None, Some f) \<Rightarrow> A f | _ \<Rightarrow> B) = B" for A and B :: 'z
    using assms(5) by (auto split: option.splits)
  have mem: "a \<in> members cs" "b \<in> members cs" "distinct (a # b # ns)"
    using mset_eq_setD [OF assms(4)] mset_eq_imp_distinct_iff [OF assms(4)] hwf_distinct [OF w]
    by (auto simp: members_def)
  obtain d h where e: "enter (Sorted (a # b # ns)) ht = (d, h)" by fastforce
  note E = leave_enter [OF assms(2) e]
  have h: "h = ht\<lparr>stats := stats ht @ [Sorted (a # b # ns)], scan := Some d\<rparr>" "d = length (stats ht)"
    using e by (auto simp: enter_def)
  have wh: "hwf h cs" "scan_ok h" using w h by (simp_all add: hwf_scan scan_ok_def)
  obtain na where na: "mem ht a = Some na" "a \<noteq> 0" using hwf_member [OF w mem(1)] by blast
  have kb: "same_key h b (hname (mem ht) b)" using key_ok_refl [OF wh(1), of b] h by simp
  let ?nm = "hname (mem ht) b"
  obtain us vs where s: "cs ! (unat (hash h ?nm) mod hsize h) = us @ b # vs"
    using bucket_split [OF wh(1) mem(2) kb] by metis
  let ?st = "Sorted (map (\<lambda>x. if x = b then 0 else x) (a # b # ns))"
  have rm: "\<exists>h'. removehashnode h ?nm = Some (b, h') \<and> status d h' = Some ?st"
    unfolding remove_hit [OF wh(1) mem(2) kb s] using h
    by (auto simp: upd_scan_def unlink_def Let_def status_def)
  then obtain h' where h': "removehashnode h ?nm = Some (b, h')" "status d h' = Some ?st" by blast
  have st0: "status d h = Some (Sorted (a # b # ns))" "node h a = Some na"
    using h na by (simp_all add: status_def node_def)
  have "f a (x, h) = Some (x, h')" using assms(7) [of h] h'(1) by simp
  then have "sorted_loop (wanted pprog flags1 flags2) f d 0 (Suc (Suc (length ns))) 0 (x, h) =
      sorted_loop (wanted pprog flags1 flags2) f d 1 (Suc (length ns)) 1 (x, h')"
    using st0 na assms(6) by simp
  also have "\<dots> = None" using sorted_loop_null [of d "(x, h')" _ 1 "wanted pprog flags1 flags2" f "length ns" 1] h'(2) by simp
  finally have none: "sorted_loop (wanted pprog flags1 flags2) f d 0 (Suc (Suc (length ns))) 0 (x, h) = None" .
  have "length (concat cs) = Suc (Suc (length ns))" using mset_eq_length [OF assms(4)] by simp
  with none have "sorted_loop (wanted pprog flags1 flags2) f d 0 (length (concat cs)) 0 (x, h) = None" by (simp only:)
  then show ?thesis
    unfolding scanmatchtable_def case_nt using cs ct assms(3) e by simp
qed

theorem sorted_scan_null_witness:
  "scanmatchtable (\<lambda>c xs. [1, 2, 3]) None None True 0 0
     (\<lambda>a s. map_option (\<lambda>r. (fst s, snd r)) (removehashnode (snd s) (hname (mem demo_tab) 2))) ((), demo_tab) = None"
proof -
  have m: "mset (1 # 2 # [3]) = mset (concat [[3], [1], [2 :: nat]])" by simp
  have s: "scan demo_tab = None" by (simp add: demo_tab_def newhashtable_def)
  have "wanted None 0 0 (the (mem demo_tab 1))" by (simp add: wanted_def)
  then show ?thesis
    using sorted_scan_null [OF demo_hwf(1) s refl m disjI1 [OF refl], where x = "()" and pprog = None] by simp
qed

text \<open>Emptying a table gives every node of it to the free method exactly once, touches no other
  cell, and leaves a well-formed table of the same size in which no name is found.\<close>

theorem empty_frees_once:
  assumes "hwf ht cs"
  shows "\<exists>ht'. emptyhashtable ht = Some ht' \<and> freed ht' = freed ht @ concat cs \<and> distinct (concat cs) \<and>
    set (concat cs) = members cs \<and> (\<forall>a. mem ht' a = (if a \<in> members cs then None else mem ht a)) \<and>
    hsize ht' = hsize ht \<and> ct ht' = 0 \<and> hwf ht' (replicate (hsize ht) []) \<and> (\<forall>s. gethashnode2 ht' s = Some 0)"
proof -
  note E = emptyhashtable_spec [OF assms]
  have "gethashnode2 ht' s = Some 0" if "hwf ht' (replicate (hsize ht) [])" for ht' :: "'a htab" and s
    using hwf_get [OF that, of s 0] by (auto simp: members_def)
  then show ?thesis using E hwf_distinct [OF assms] by (simp add: members_def)
qed

theorem empty_frees_once_witness:
  "\<exists>ht'. emptyhashtable demo_tab = Some ht' \<and> freed ht' = [3, 1, 2] \<and> mem ht' 4 = mem demo_tab 4 \<and>
     gethashnode2 ht' ''a'' = Some 0"
proof -
  have "freed demo_tab = []" by (simp add: demo_tab_def newhashtable_def)
  then show ?thesis using empty_frees_once [OF demo_hwf(1)] unfolding demo_hwf(2) by auto
qed

text \<open>A disabled node is still in the table but gethashnode does not show it; enabling it again
  brings it back, with the other flag bits as they were.\<close>

theorem disable_enable:
  assumes "hwf ht cs" "gethashnode2 ht s = Some a" "a \<noteq> 0"
  shows "\<exists>ht1 ht2. disablehashnode ht a = Some ht1 \<and> hwf ht1 cs \<and> gethashnode ht1 s = Some 0 \<and>
     gethashnode2 ht1 s = Some a \<and> enablehashnode ht1 a = Some ht2 \<and> hwf ht2 cs \<and> gethashnode ht2 s = Some a \<and>
     flags (the (mem ht2 a)) = flags (the (mem ht a)) AND NOT DISABLED"
proof -
  have "a \<in> members cs" using hwf_get [OF assms(1), of s a] assms(2,3) by (auto split: if_splits)
  then obtain n where n: "mem ht a = Some n" using hwf_member [OF assms(1)] by blast
  let ?n1 = "n\<lparr>flags := flags n OR DISABLED\<rparr>"
  let ?h1 = "ht\<lparr>mem := (mem ht)(a \<mapsto> ?n1)\<rparr>"
  let ?h2 = "?h1\<lparr>mem := (mem ?h1)(a \<mapsto> ?n1\<lparr>flags := flags ?n1 AND NOT DISABLED\<rparr>)\<rparr>"
  have r: "disablehashnode ht a = Some ?h1" "enablehashnode ?h1 a = Some ?h2"
    using n assms(3) by (simp_all add: disablehashnode_def enablehashnode_def upd_node_def node_def)
  note H1 = hwf_flags [OF assms(1) n, of "flags n OR DISABLED"]
  have m1: "mem ?h1 a = Some ?n1" by simp
  note H2 = hwf_flags [OF H1(1) m1, of "flags ?n1 AND NOT DISABLED"]
  have "gethashnode ?h1 s = Some 0" "gethashnode ?h2 s = Some a"
    using gethashnode_spec [OF H1(1), of s] gethashnode_spec [OF H2(1), of s] H1(2) [of s] H2(2) [of s] assms(2) disabled_bit
    by auto
  moreover have "(flags n OR DISABLED) AND NOT DISABLED = flags n AND NOT DISABLED"
    by (simp add: word_ao_dist)
  ultimately show ?thesis using r H1 H2 assms(2) n by auto
qed

theorem disable_enable_witness:
  "\<exists>ht1 ht2. disablehashnode demo_tab 1 = Some ht1 \<and> gethashnode ht1 ''a'' = Some 0 \<and>
     enablehashnode ht1 1 = Some ht2 \<and> gethashnode ht2 ''a'' = Some 1"
proof -
  have "1 \<in> members [[3], [1], [2]]" unfolding demo_hwf(2) by simp
  moreover have "same_key demo_tab 1 ''a''"
    by (simp add: same_key_def hname_def demo_tab_def cell_def newhashtable_def)
  ultimately have "gethashnode2 demo_tab ''a'' = Some 1" using hwf_get [OF demo_hwf(1), of "''a''" 1] by auto
  from disable_enable [OF demo_hwf(1) this] show ?thesis by auto
qed

text \<open>C32: After createreswdtable every reserved word of the static array is found under its name, as
  the element of the array with its token, and no other word is found.\<close>

theorem reserved_words_found:
  "\<exists>ht N. createreswdtable = Some ht \<and> table hasher strcmp ht N \<and>
    (\<forall>i < length reswds. gethashnode2 ht (fst (reswds ! i)) = Some (i + 1) \<and>
       map_option body (reswd_mem (i + 1)) = Some (snd (reswds ! i))) \<and>
    (\<forall>s. cstr s \<notin> fst ` set reswds \<longrightarrow> gethashnode2 ht s = Some 0)"
  using createreswdtable_spec by (auto simp: reswd_mem_def)

theorem reserved_words_found_witness:
  "\<exists>ht. createreswdtable = Some ht \<and> gethashnode2 ht ''while'' = Some 31 \<and> gethashnode2 ht ''whale'' = Some 0"
proof -
  have i: "30 < length reswds" "fst (reswds ! 30) = ''while''" by (simp_all add: reswds_def)
  have "cstr ''whale'' \<notin> fst ` set reswds" by (simp add: reswds_def NUL_def)
  moreover obtain ht N where "createreswdtable = Some ht"
    "\<forall>i < length reswds. gethashnode2 ht (fst (reswds ! i)) = Some (i + 1) \<and>
       map_option body (reswd_mem (i + 1)) = Some (snd (reswds ! i))"
    "\<forall>s. cstr s \<notin> fst ` set reswds \<longrightarrow> gethashnode2 ht s = Some 0" using reserved_words_found by blast
  moreover have "30 + 1 = (31 :: nat)" by simp
  ultimately show ?thesis using i by metis
qed

text \<open>C10: However functions share and give back directory names, the cache counts the holders of
  every name exactly, holds no name twice and points to an entry with lastentry.  Giving a
  name back never frees a string another holder still has, and frees it with the last
  holder; setting a name never faults and shares the string of an equal path.\<close>

theorem dircache_counts:
  assumes "(dc_step resolve)\<^sup>*\<^sup>* (replicate n 0, dircache_init) (vars, dc)" "k < length vars"
  shows "dc_inv vars dc \<and>
    (\<exists>dc'. dircache_set resolve (vars ! k) None dc = Some (0, dc') \<and>
       (\<forall>v \<in> set (vars[k := 0]). v \<noteq> 0 \<longrightarrow> strings dc' v = strings dc v) \<and>
       (vars ! k \<noteq> 0 \<and> vars ! k \<notin> set (vars[k := 0]) \<longrightarrow> strings dc' (vars ! k) = None)) \<and>
    (vars ! k = 0 \<longrightarrow> (\<forall>v. \<exists>p dc'. dircache_set resolve 0 (Some v) dc = Some (p, dc') \<and>
       strings dc' p = Some (abs_path resolve v) \<and>
       (\<forall>a. strings dc a \<noteq> None \<longrightarrow> strings dc' a = strings dc a) \<and>
       (\<forall>e \<in> set (entries dc). strings dc (de_name e) = Some (abs_path resolve v) \<longrightarrow> p = de_name e)))"
proof -
  have I: "dc_inv vars dc" using dc_reach_inv [OF assms(1)] dc_init_inv [of n] by simp
  show ?thesis
    using I dircache_drop_spec [OF I assms(2)] dircache_use_spec [OF I assms(2), of resolve]
    unfolding dircache_set_def option.case by blast
qed

theorem dircache_counts_witness:
  "\<exists>dc. (dc_step id)\<^sup>*\<^sup>* (replicate 2 0, dircache_init) ([1, 0], dc) \<and> strings dc 1 = Some ''/a'' \<and>
     (\<exists>p dc'. dircache_set id 0 (Some ''/a'') dc = Some (p, dc') \<and> p = 1)"
proof -
  let ?dc = "dircache_init\<lparr>strings := [1 \<mapsto> ''/a''], top := 2, entries := [\<lparr>de_name = 1, refs = 1\<rparr>], lastentry := Some 0\<rparr>"
  have "dircache_set id ([0, 0] ! 0) (Some ''/a'') dircache_init = Some (1, ?dc)"
    by (simp add: dircache_set_def dircache_use_def abs_path_def dircache_init_def ztrdup_def Let_def)
  from dc_step.set_name [OF _ _ this] have s: "dc_step id ([0, 0], dircache_init) ([1, 0], ?dc)" by simp
  have r: "replicate 2 0 = [0, 0 :: nat]" by (simp add: numeral_2_eq_2)
  have reach: "(dc_step id)\<^sup>*\<^sup>* (replicate 2 0, dircache_init) ([1, 0], ?dc)" unfolding r using s by simp
  have "abs_path id ''/a'' = ''/a''" by (simp add: abs_path_def)
  then have "\<exists>p dc'. dircache_set id 0 (Some ''/a'') ?dc = Some (p, dc') \<and> p = 1"
    using dircache_counts [OF reach, of 1] by (auto dest!: spec [of _ "''/a''"])
  moreover have "strings ?dc 1 = Some ''/a''" by simp
  ultimately show ?thesis using reach by blast
qed

end
