(* ===== verification/Math_Env.thy ===== *)
theory Math_Env
  imports Prelude
begin

text \<open>
  The data of \<open>Src/math.c\<close> and its surroundings: numbers (\<open>mnumber\<close> of \<open>Src/bsh.h\<close>),
  the globals the evaluator shares with the rest of the shell, and the error report
  \<open>zerr\<close> of \<open>Src/utils.c\<close>.

  The rest of the shell is the record \<open>mshell\<close>: what \<open>math.c\<close> calls in the parameter
  code, in the table of mathematical functions, in the multibyte library and in the
  floating-point unit.  An operation there works on \<open>mglob\<close>, the globals it may
  read and change; \<open>'d\<close> is the type \<open>double\<close>, \<open>'v\<close> a reference to a parameter
  (\<open>Value\<close>) and \<open>'e\<close> the state of the shell outside this file.
\<close>

type_synonym zlong = "64 word"

text \<open>A value of type \<open>zlong\<close> assigned to an \<open>int\<close>.\<close>

definition c_int :: "zlong \<Rightarrow> int" where
  "c_int w = sint (ucast w :: 32 word)"

text \<open>The union is read only under its tag, so the tag and the member are one constructor.\<close>

datatype 'd mnumber = MN_INTEGER zlong | MN_FLOAT 'd | MN_UNSET

definition zero_mnumber :: "'d mnumber" where
  "zero_mnumber = MN_INTEGER 0"

section \<open>Error reports\<close>

text \<open>One constructor for each format string given to \<open>zerr\<close>, with its arguments.\<close>

datatype (plugins only: code) mmsg =
    Invalid_base int | Number_truncated nat string
  | Parameter_not_set string | Recursion_limit string | Unexpected_paren
  | Bad_float | Bad_base_syntax | Bad_output_format
  | Missing_after_hash | Bad_after_hash
  | Stack_overflow | Lvalue_required | Division_by_zero | Stack_empty
  | Imaginary_power | Colon_without_quest | Out_of_integers
  | Unknown_function string | Wrong_argc string | No_such_function string
  | Illegal_character char | Empty_string
  | Expected string string bool
  | Expected_at_end string | Paren_expected | Colon_expected

section \<open>The globals\<close>

record mopts =
  UNSET :: bool
  FORCEFLOAT :: bool
  OCTALZEROES :: bool
  CPRECEDENCES :: bool
  MULTIBYTE :: bool
  POSIXIDENTIFIERS :: bool
  emulate_sh :: bool
  emulate_ksh :: bool

record ('d, 'e) mglob =
  errflag :: bool
  noerrs :: nat
  msgs :: "mmsg list"
  opts :: mopts
  lastbase :: int
  outputradix :: int
  outputunderscore :: int
  lastmathval :: "'d mnumber"
  env :: 'e

text \<open>
  \<open>zerr\<close>: with \<open>noerrs\<close> at 1 nothing is printed, at 2 not even \<open>errflag\<close> is set.
\<close>

definition zerr :: "mmsg \<Rightarrow> ('d, 'e) mglob \<Rightarrow> ('d, 'e) mglob" where
  "zerr m g =
     (if errflag g \<or> noerrs g \<noteq> 0
      then (if noerrs g < 2 then g\<lparr>errflag := True\<rparr> else g)
      else g\<lparr>errflag := True, msgs := msgs g @ [m]\<rparr>)"

definition zwarn :: "mmsg \<Rightarrow> ('d, 'e) mglob \<Rightarrow> ('d, 'e) mglob" where
  "zwarn m g = (if errflag g \<or> noerrs g \<noteq> 0 then g else g\<lparr>msgs := msgs g @ [m]\<rparr>)"

section \<open>The rest of the shell\<close>

text \<open>The type of a parameter, as \<open>PM_TYPE\<close> gives it.\<close>

datatype pmtype = PM_INTEGER | PM_FLOAT | PM_OTHER

text \<open>An entry of the table of mathematical functions (\<open>struct mathfunc\<close>).\<close>

record ('d, 'e) mathfunc =
  MFF_STR :: bool
  MFF_USERFUNC :: bool
  fmodule :: "string option"
  minargs :: int
  maxargs :: int
  nfunc :: "string \<Rightarrow> 'd mnumber list \<Rightarrow> ('d, 'e) mglob \<Rightarrow> 'd mnumber \<times> ('d, 'e) mglob"
  sfunc :: "string \<Rightarrow> string \<Rightarrow> ('d, 'e) mglob \<Rightarrow> 'd mnumber \<times> ('d, 'e) mglob"

text \<open>
  What \<open>mbrtowc\<close> says to one more byte: \<open>MB_INVALID\<close>, \<open>MB_INCOMPLETE\<close> or a wide character.  Its
  shift state is given by the bytes since it was last at its start, where it is again after
  every character: the encodings are those without shift sequences.
\<close>

datatype mbresult = MB_INVALID | MB_INCOMPLETE | MB_WIDE int

record ('d, 'v, 'e) mshell =
  d_of :: "zlong \<Rightarrow> 'd"
  d_to :: "'d \<Rightarrow> zlong"
  d_add :: "'d \<Rightarrow> 'd \<Rightarrow> 'd"
  d_sub :: "'d \<Rightarrow> 'd \<Rightarrow> 'd"
  d_mul :: "'d \<Rightarrow> 'd \<Rightarrow> 'd"
  d_div :: "'d \<Rightarrow> 'd \<Rightarrow> 'd"
  d_fmod :: "'d \<Rightarrow> 'd \<Rightarrow> 'd"
  d_pow :: "'d \<Rightarrow> 'd \<Rightarrow> 'd"
  d_neg :: "'d \<Rightarrow> 'd"
  d_lt :: "'d \<Rightarrow> 'd \<Rightarrow> bool"
  d_le :: "'d \<Rightarrow> 'd \<Rightarrow> bool"
  d_eq :: "'d \<Rightarrow> 'd \<Rightarrow> bool"
  strtod :: "string \<Rightarrow> 'd \<times> string"
  mbrtowc :: "string \<Rightarrow> char \<Rightarrow> mbresult"
  iswalnum :: "int \<Rightarrow> bool"
  getkeystring :: "string \<Rightarrow> ('d, 'e) mglob \<Rightarrow> (int \<times> string) option \<times> ('d, 'e) mglob"
  pparams_len :: "('d, 'e) mglob \<Rightarrow> zlong"
  mypid :: "('d, 'e) mglob \<Rightarrow> zlong"
  lastval :: "('d, 'e) mglob \<Rightarrow> zlong"
  getvalue :: "string \<Rightarrow> ('d, 'e) mglob \<Rightarrow> 'v option \<times> ('d, 'e) mglob"
  getnumvalue :: "'v \<Rightarrow> ('d, 'e) mglob \<Rightarrow> 'd mnumber \<times> ('d, 'e) mglob"
  same_param :: "string \<Rightarrow> 'v \<Rightarrow> ('d, 'e) mglob \<Rightarrow> bool"
  setnumvalue :: "'v \<Rightarrow> 'd mnumber \<Rightarrow> ('d, 'e) mglob \<Rightarrow> ('d, 'e) mglob"
  setnparam :: "string \<Rightarrow> 'd mnumber \<Rightarrow> ('d, 'e) mglob \<Rightarrow> pmtype option \<times> ('d, 'e) mglob"
  getsparam :: "string \<Rightarrow> ('d, 'e) mglob \<Rightarrow> string option \<times> ('d, 'e) mglob"
  getmathfunc :: "string \<Rightarrow> ('d, 'e) mglob \<Rightarrow> ('d, 'e) mathfunc option \<times> ('d, 'e) mglob"
  doshfunc :: "string \<Rightarrow> string list \<Rightarrow> ('d, 'e) mglob \<Rightarrow> ('d, 'e) mglob option"
  convfloat :: "'d \<Rightarrow> string"
  convbase10 :: "zlong \<Rightarrow> string"

text \<open>The constant 0.0 and 1.0.\<close>

definition d_zero :: "('d, 'v, 'e) mshell \<Rightarrow> 'd" where
  "d_zero P = d_of P 0"

definition d_one :: "('d, 'v, 'e) mshell \<Rightarrow> 'd" where
  "d_one P = d_of P 1"

text \<open>
  What is relied on of the rest of the shell: an error that was reported stays
  reported, the suppression of errors is left as it was found, what is read of
  a parameter is a number, and reading a key name changes nothing but the globals here.
\<close>

definition steady :: "('d, 'e) mglob \<Rightarrow> ('d, 'e) mglob \<Rightarrow> bool" where
  "steady g g' \<longleftrightarrow> (errflag g \<longrightarrow> errflag g') \<and> (noerrs g < 2 \<longrightarrow> noerrs g' < 2)"

definition steady_func :: "('d, 'e) mathfunc \<Rightarrow> bool" where
  "steady_func f \<longleftrightarrow>
     (\<forall>n as g. fst (nfunc f n as g) \<noteq> MN_UNSET \<and> steady g (snd (nfunc f n as g))) \<and>
     (\<forall>n a g. fst (sfunc f n a g) \<noteq> MN_UNSET \<and> steady g (snd (sfunc f n a g)))"

definition steady_shell :: "('d, 'v, 'e) mshell \<Rightarrow> bool" where
  "steady_shell P \<longleftrightarrow>
     (\<forall>s. length (snd (strtod P s)) \<le> length s) \<and>
     (\<forall>s g. steady g (snd (getkeystring P s g)) \<and> env (snd (getkeystring P s g)) = env g \<and>
        (\<forall>v r. fst (getkeystring P s g) = Some (v, r) \<longrightarrow> length r \<le> length s)) \<and>
     (\<forall>s g. steady g (snd (getvalue P s g))) \<and>
     (\<forall>v g. fst (getnumvalue P v g) \<noteq> MN_UNSET \<and> steady g (snd (getnumvalue P v g))) \<and>
     (\<forall>v m g. steady g (setnumvalue P v m g)) \<and>
     (\<forall>s m g. steady g (snd (setnparam P s m g))) \<and>
     (\<forall>s g. steady g (snd (getsparam P s g))) \<and>
     (\<forall>s g. steady g (snd (getmathfunc P s g)) \<and>
        (\<forall>f. fst (getmathfunc P s g) = Some f \<longrightarrow> steady_func f)) \<and>
     (\<forall>f as g g'. doshfunc P f as g = Some g' \<longrightarrow>
        steady g g' \<and> lastmathval g' \<noteq> MN_UNSET)"

lemma steady_refl [simp, intro]: "steady g g"
  by (simp add: steady_def)

lemma steady_trans: "steady g g' \<Longrightarrow> steady g' g'' \<Longrightarrow> steady g g''"
  by (auto simp: steady_def)

lemma steady_zerr [simp, intro]: "steady g (zerr m g)"
  by (simp add: steady_def zerr_def)

lemma steady_zwarn [simp, intro]: "steady g (zwarn m g)"
  by (simp add: steady_def zwarn_def)

lemma errflag_zerr: "noerrs g < 2 \<Longrightarrow> errflag (zerr m g)"
  by (simp add: zerr_def)

lemma zerr_frame [simp]:
  "opts (zerr m g) = opts g" "env (zerr m g) = env g" "noerrs (zerr m g) = noerrs g"
  "lastbase (zerr m g) = lastbase g" "lastmathval (zerr m g) = lastmathval g"
  "errflag (zwarn m g) = errflag g" "noerrs (zwarn m g) = noerrs g"
  "opts (zwarn m g) = opts g" "env (zwarn m g) = env g"
  "lastmathval (zwarn m g) = lastmathval g"
  by (simp_all add: zerr_def zwarn_def)

end
