(* ===== verification/Ztype.thy ===== *)
theory Ztype
  imports Math_Env
begin

text \<open>
  The character classes and the number reader of \<open>Src/utils.c\<close> the arithmetic code
  uses: \<open>typtab\<close> as \<open>inittyptab\<close> fills it for the classes at hand, \<open>itype_end\<close> for
  names (\<open>INAMESPC\<close>), \<open>mb_metacharlenconv\<close>, \<open>zstrtol\<close> and \<open>zstrtol_underscore\<close>, and
  \<open>untokenize\<close> of \<open>Src/exec.c\<close>.  A pointer into a string is the suffix it points to;
  the character there is \<open>pk\<close>, NUL at the end.
\<close>

abbreviation Meta :: char where "Meta \<equiv> CHR 0x83"
abbreviation Pound :: char where "Pound \<equiv> CHR 0x84"
abbreviation Dash :: char where "Dash \<equiv> CHR 0x9b"
abbreviation Dnull :: char where "Dnull \<equiv> CHR 0x9e"
abbreviation Nularg :: char where "Nularg \<equiv> CHR 0xa1"
abbreviation Marker :: char where "Marker \<equiv> CHR 0xa2"

definition pk :: "string \<Rightarrow> char" where
  "pk s = (case s of [] \<Rightarrow> NUL | c # _ \<Rightarrow> c)"

lemma pk_simps [simp]: "pk [] = NUL" "pk (c # s) = c"
  by (simp_all add: pk_def)

lemma pk_neq_NUL: "pk s \<noteq> NUL \<Longrightarrow> \<exists>c cs. s = c # cs"
  by (cases s) auto

section \<open>Character classes\<close>

definition between :: "char \<Rightarrow> char \<Rightarrow> char \<Rightarrow> bool" where
  "between a b c \<longleftrightarrow> of_char a \<le> (of_char c :: nat) \<and> (of_char c :: nat) \<le> of_char b"

definition idigit :: "char \<Rightarrow> bool" where
  "idigit c \<longleftrightarrow> between (CHR ''0'') (CHR ''9'') c"

definition iident :: "char \<Rightarrow> bool" where
  "iident c \<longleftrightarrow> idigit c \<or> between (CHR ''a'') (CHR ''z'') c
     \<or> between (CHR ''A'') (CHR ''Z'') c \<or> c = CHR ''_''"

definition iblank :: "char \<Rightarrow> bool" where
  "iblank c \<longleftrightarrow> c = CHR '' '' \<or> c = CHR 0x09"

definition itok :: "char \<Rightarrow> bool" where
  "itok c \<longleftrightarrow> between Pound Nularg c"

definition is_dash :: "char \<Rightarrow> bool" where
  "is_dash c \<longleftrightarrow> c = CHR ''-'' \<or> c = Dash"

text \<open>\<open>c ^ 32\<close>: the character a \<open>Meta\<close> stands before.\<close>

definition xor32 :: "char \<Rightarrow> char" where
  "xor32 c = char_of ((of_char c :: nat) XOR 32)"

definition isascii :: "char \<Rightarrow> bool" where
  "isascii c \<longleftrightarrow> (of_char c :: nat) \<le> 127"

lemma classes_NUL [simp]:
  "\<not> idigit NUL" "\<not> iident NUL" "\<not> inblank NUL" "\<not> iblank NUL" "\<not> is_dash NUL" "\<not> itok NUL"
  "\<not> iident (xor32 NUL)"
  by (simp_all add: idigit_def iident_def inblank_def iblank_def is_dash_def itok_def between_def
      NUL_def xor32_def char_of_def)

lemma iident_ascii: "iident c \<Longrightarrow> isascii c \<and> \<not> itok c"
  by (auto simp: iident_def idigit_def between_def isascii_def itok_def)

text \<open>The table of the characters the tokens stand for (\<open>Src/lex.c\<close>).\<close>

definition ztokens :: string where
  "ztokens = ''#$^*(())$=|{}[]`<>>?~`,-!'' @ [CHR 0x27, CHR 0x22, CHR 0x5C, CHR 0x5C]"

definition untokenize :: "string \<Rightarrow> string" where
  "untokenize s = concat (map (\<lambda>c.
     if itok c
     then (if c \<noteq> Nularg then [ztokens ! (of_char c - of_char Pound)] else [])
     else [c]) s)"

section \<open>Names\<close>

definition imeta :: "char \<Rightarrow> bool" where
  "imeta c \<longleftrightarrow> c = NUL \<or> c = Meta \<or> c = Marker \<or> itok c"

text \<open>
  The loop of \<open>mb_metacharlenconv_r\<close>: \<open>fed\<close> are the bytes given to \<open>mbrtowc\<close>, \<open>n\<close> is \<open>ptr - s\<close>.
  \<open>None\<close> when it ends without a character.
\<close>

function mb_conv :: "('d, 'v, 'e) mshell \<Rightarrow> string \<Rightarrow> nat \<Rightarrow> string \<Rightarrow> (nat \<times> int) option" where
  "mb_conv P fed n ptr =
     (if pk ptr = NUL \<or> (pk ptr \<noteq> Meta \<and> imeta (pk ptr)) then None
      else let len = (if pk ptr = Meta then 2 else 1);
               inchar = (if pk ptr = Meta then xor32 (pk (tl ptr)) else pk ptr)
           in case mbrtowc P fed inchar of
             MB_INVALID \<Rightarrow> None
           | MB_INCOMPLETE \<Rightarrow> mb_conv P (fed @ [inchar]) (n + len) (drop len ptr)
           | MB_WIDE wc \<Rightarrow> Some (n + len, wc))"
  by pat_completeness auto
termination
  by (relation "measure (\<lambda>(P, fed, n, ptr). length ptr)") (auto simp: pk_def split: list.splits)

declare mb_conv.simps [simp del]

definition mb_metacharlenconv_r :: "('d, 'v, 'e) mshell \<Rightarrow> string \<Rightarrow> nat \<times> int option" where
  "mb_metacharlenconv_r P s =
     (if isascii (pk s) then (1, Some (of_char (pk s)))
      else case mb_conv P [] 0 s of
        Some (len, wc) \<Rightarrow> (len, Some wc)
      | None \<Rightarrow> (if pk s \<noteq> Meta \<and> imeta (pk s) then 0 else if pk s = Meta then 2 else 1, None))"

definition mb_metacharlenconv ::
  "('d, 'v, 'e) mshell \<Rightarrow> mopts \<Rightarrow> string \<Rightarrow> nat \<times> int option" where
  "mb_metacharlenconv P ops s =
     (if \<not> MULTIBYTE ops \<or> isascii (pk s)
      then (if pk s = Meta then 2 else 1,
            Some (of_char (if pk s = Meta then xor32 (pk (tl s)) else pk s)))
      else if itok (pk s) then (1, None)
      else mb_metacharlenconv_r P s)"

text \<open>The loop of \<open>itype_end\<close> over wide characters.\<close>

function mb_ident :: "('d, 'v, 'e) mshell \<Rightarrow> mopts \<Rightarrow> string \<Rightarrow> string" where
  "mb_ident P ops s =
     (if pk s = NUL then s
      else if itok (pk s) then (if iident (pk s) then mb_ident P ops (tl s) else s)
      else let (len, wc) = mb_metacharlenconv P ops s in
        if len = 0 then s
        else case wc of
          None \<Rightarrow>
            (let chr = (if pk s = Meta then xor32 (pk (tl s)) else pk s)
             in if \<not> isascii chr \<or> \<not> iident chr then s else mb_ident P ops (drop len s))
        | Some w \<Rightarrow>
            if len = 1 \<and> isascii (pk s)
            then (if \<not> iident (pk s) then s else mb_ident P ops (drop len s))
            else if \<not> iswalnum P w then s else mb_ident P ops (drop len s))"
  by pat_completeness auto
termination
  by (relation "measure (\<lambda>(P, ops, s). length s)") (auto simp: pk_def split: list.splits)

declare mb_ident.simps [simp del]

text \<open>The loop over bytes.\<close>

function sb_ident :: "string \<Rightarrow> string" where
  "sb_ident s =
     (let chr = (if pk s = Meta then xor32 (pk (tl s)) else pk s)
      in if \<not> iident chr then s
         else sb_ident (drop (if pk s = Meta then 2 else 1) s))"
  by pat_completeness auto
termination
  by (relation "measure length") (auto simp: pk_def split: list.splits if_splits)

declare sb_ident.simps [simp del]

definition iident_end :: "('d, 'v, 'e) mshell \<Rightarrow> mopts \<Rightarrow> string \<Rightarrow> string" where
  "iident_end P ops s =
     (if MULTIBYTE ops \<and> \<not> POSIXIDENTIFIERS ops then mb_ident P ops s else sb_ident s)"

text \<open>\<open>itype_end (s, INAMESPC, 0)\<close>.\<close>

definition namespc_end :: "('d, 'v, 'e) mshell \<Rightarrow> mopts \<Rightarrow> string \<Rightarrow> string" where
  "namespc_end P ops s =
     (if \<not> POSIXIDENTIFIERS ops \<or> emulate_ksh ops
      then let q = (if pk s = CHR ''.'' then tl s else s);
               t = iident_end P ops q
           in if length t < length q
              then (if pk t = CHR ''.'' then iident_end P ops (tl t) else t)
              else iident_end P ops s
      else iident_end P ops s)"

lemma length_mb_ident: "length (mb_ident P ops s) \<le> length s"
proof (induction s rule: measure_induct_rule [where f = length])
  case (less s)
  show ?case
  proof (cases "pk s = NUL")
    case True
    then show ?thesis by (subst mb_ident.simps) simp
  next
    case False
    then obtain c cs where s: "s = c # cs" using pk_neq_NUL by blast
    have 1: "length (mb_ident P ops (tl s)) \<le> length s"
      using less.IH [of "tl s"] by (simp add: s)
    have 2: "length (mb_ident P ops (drop n s)) \<le> length s" if "n \<noteq> 0" for n
      using less.IH [of "drop n s"] that by (simp add: s)
    obtain len wc where m: "mb_metacharlenconv P ops s = (len, wc)" by fastforce
    show ?thesis
      by (subst mb_ident.simps) (simp add: m 1 2 Let_def split: option.splits)
  qed
qed

lemma length_sb_ident: "length (sb_ident s) \<le> length s"
proof (induction s rule: sb_ident.induct)
  case (1 s)
  then show ?case by (subst sb_ident.simps) (auto simp: Let_def intro: order.trans)
qed

lemma length_iident_end: "length (iident_end P ops s) \<le> length s"
  by (simp add: iident_end_def length_mb_ident length_sb_ident)

lemma length_namespc_end: "length (namespc_end P ops s) \<le> length s"
proof -
  have "length (iident_end P ops (tl s)) \<le> length s"
    using length_iident_end [of P ops "tl s"] by simp
  moreover have "length (iident_end P ops (tl (iident_end P ops r))) \<le> length s"
    if "length r \<le> length s" for r
    using length_iident_end [of P ops "tl (iident_end P ops r)"] length_iident_end [of P ops r] that
    by simp
  ultimately show ?thesis
    by (simp add: namespc_end_def Let_def length_iident_end)
qed

section \<open>Numbers\<close>

text \<open>
  The digit loops of \<open>zstrtol_underscore\<close>: \<open>dv\<close> is the value of a digit of the base,
  \<open>i\<close> the index of the character, \<open>calc\<close> the number so far and \<open>trunc\<close> the index at which
  it no longer fitted.
\<close>

fun zdigits :: "(char \<Rightarrow> nat option) \<Rightarrow> bool \<Rightarrow> zlong \<Rightarrow> string \<Rightarrow> nat \<Rightarrow> zlong \<Rightarrow> nat option
                  \<Rightarrow> string \<times> nat \<times> zlong \<times> nat option" where
  "zdigits dv und base [] i calc trunc = ([], i, calc, trunc)"
| "zdigits dv und base (c # s) i calc trunc =
     (if dv c \<noteq> None \<or> (und \<and> c = CHR ''_'')
      then if trunc \<noteq> None \<or> c = CHR ''_'' then zdigits dv und base s (i + 1) calc trunc
           else let newcalc = calc * base + of_nat (the (dv c))
                in if newcalc < calc then zdigits dv und base s (i + 1) calc (Some i)
                   else zdigits dv und base s (i + 1) newcalc None
      else (c # s, i, calc, trunc))"

definition digit_low :: "int \<Rightarrow> char \<Rightarrow> nat option" where
  "digit_low base c =
     (if 48 \<le> (of_char c :: int) \<and> of_char c < 48 + base then Some (of_char c - 48) else None)"

definition digit_high :: "int \<Rightarrow> char \<Rightarrow> nat option" where
  "digit_high base c =
     (if idigit c then Some (of_char c - 48)
      else if (97 \<le> (of_char c :: int) \<and> of_char c < 97 + base - 10)
           \<or> (65 \<le> (of_char c :: int) \<and> of_char c < 65 + base - 10)
      then Some (((of_char c :: nat) AND 31) + 9) else None)"

text \<open>The base and the digits, for base 0 from the prefix.\<close>

definition zbase :: "int \<Rightarrow> string \<Rightarrow> int \<times> string" where
  "zbase base s =
     (if base = 0
      then if pk s \<noteq> CHR ''0'' then (10, s)
           else if pk (tl s) = CHR ''x'' \<or> pk (tl s) = CHR ''X'' then (16, tl (tl s))
           else if pk (tl s) = CHR ''b'' \<or> pk (tl s) = CHR ''B'' then (2, tl (tl s))
           else (8, tl s)
      else (base, s))"

text \<open>
  The value and the pointer left in \<open>*t\<close>; a base out of range leaves \<open>*t\<close> where it was.
\<close>

definition zstrtol_underscore ::
  "string \<Rightarrow> int \<Rightarrow> bool \<Rightarrow> ('d, 'e) mglob \<Rightarrow> zlong \<times> string \<times> ('d, 'e) mglob" where
  "zstrtol_underscore s0 base0 und g =
     (let s1 = dropWhile inblank s0;
          neg = is_dash (pk s1);
          s2 = (if neg \<or> pk s1 = CHR ''+'' then tl s1 else s1);
          (base, inp) = zbase base0 s2
      in if base < 2 \<or> 36 < base then (0, s0, zerr (Invalid_base base) g)
         else
           let (s, i, calc, trunc) =
                 zdigits (if base \<le> 10 then digit_low base else digit_high base) und
                   (of_int base) inp 0 0 None;
               (calc', trunc') =
                 (if trunc = None \<and> calc <s 0 \<and> (\<not> neg \<or> calc AND NOT (push_bit 63 1) \<noteq> 0)
                  then (calc div of_int base, Some (i - 1)) else (calc, trunc));
               g' = (case trunc' of None \<Rightarrow> g | Some k \<Rightarrow> zwarn (Number_truncated k inp) g)
           in (if neg then - calc' else calc', s, g'))"

definition zstrtol :: "string \<Rightarrow> int \<Rightarrow> ('d, 'e) mglob \<Rightarrow> zlong \<times> string \<times> ('d, 'e) mglob" where
  "zstrtol s base g = zstrtol_underscore s base False g"

end
