(* ===== verification/Math_Lex.thy ===== *)
theory Math_Lex
  imports Ztype
begin

text \<open>
  Tokens, precedence tables, the evaluator's state and the lexer of \<open>Src/math.c\<close>
  (\<open>lexconstant\<close>, \<open>zzlex\<close>).  A token is the number the \<open>#define\<close> gives it.  The C
  statics \<open>ptr\<close>, \<open>yyval\<close>, \<open>yylval\<close>, \<open>noeval\<close>, \<open>unary\<close>, \<open>mtok\<close>, \<open>sp\<close> and
  \<open>stack\<close> are the fields of \<open>mst\<close>; the globals other files see are in \<open>gl\<close>.
\<close>

section \<open>Tokens\<close>

type_synonym token = nat

abbreviation (input) "M_INPAR \<equiv> 0 :: token"
abbreviation (input) "M_OUTPAR \<equiv> 1 :: token"
abbreviation (input) "T_NOT \<equiv> 2 :: token"
abbreviation (input) "T_COMP \<equiv> 3 :: token"
abbreviation (input) "T_POSTPLUS \<equiv> 4 :: token"
abbreviation (input) "T_POSTMINUS \<equiv> 5 :: token"
abbreviation (input) "T_UPLUS \<equiv> 6 :: token"
abbreviation (input) "T_UMINUS \<equiv> 7 :: token"
abbreviation (input) "T_AND \<equiv> 8 :: token"
abbreviation (input) "T_XOR \<equiv> 9 :: token"
abbreviation (input) "T_OR \<equiv> 10 :: token"
abbreviation (input) "T_MUL \<equiv> 11 :: token"
abbreviation (input) "T_DIV \<equiv> 12 :: token"
abbreviation (input) "T_MOD \<equiv> 13 :: token"
abbreviation (input) "T_PLUS \<equiv> 14 :: token"
abbreviation (input) "T_MINUS \<equiv> 15 :: token"
abbreviation (input) "T_SHLEFT \<equiv> 16 :: token"
abbreviation (input) "T_SHRIGHT \<equiv> 17 :: token"
abbreviation (input) "T_LES \<equiv> 18 :: token"
abbreviation (input) "T_LEQ \<equiv> 19 :: token"
abbreviation (input) "T_GRE \<equiv> 20 :: token"
abbreviation (input) "T_GEQ \<equiv> 21 :: token"
abbreviation (input) "T_DEQ \<equiv> 22 :: token"
abbreviation (input) "T_NEQ \<equiv> 23 :: token"
abbreviation (input) "T_DAND \<equiv> 24 :: token"
abbreviation (input) "T_DOR \<equiv> 25 :: token"
abbreviation (input) "T_DXOR \<equiv> 26 :: token"
abbreviation (input) "T_QUEST \<equiv> 27 :: token"
abbreviation (input) "T_COLON \<equiv> 28 :: token"
abbreviation (input) "T_EQ \<equiv> 29 :: token"
abbreviation (input) "T_PLUSEQ \<equiv> 30 :: token"
abbreviation (input) "T_MINUSEQ \<equiv> 31 :: token"
abbreviation (input) "T_MULEQ \<equiv> 32 :: token"
abbreviation (input) "T_DIVEQ \<equiv> 33 :: token"
abbreviation (input) "T_MODEQ \<equiv> 34 :: token"
abbreviation (input) "T_ANDEQ \<equiv> 35 :: token"
abbreviation (input) "T_XOREQ \<equiv> 36 :: token"
abbreviation (input) "T_OREQ \<equiv> 37 :: token"
abbreviation (input) "T_SHLEFTEQ \<equiv> 38 :: token"
abbreviation (input) "T_SHRIGHTEQ \<equiv> 39 :: token"
abbreviation (input) "T_DANDEQ \<equiv> 40 :: token"
abbreviation (input) "T_DOREQ \<equiv> 41 :: token"
abbreviation (input) "T_DXOREQ \<equiv> 42 :: token"
abbreviation (input) "T_COMMA \<equiv> 43 :: token"
abbreviation (input) "T_EOI \<equiv> 44 :: token"
abbreviation (input) "T_PREPLUS \<equiv> 45 :: token"
abbreviation (input) "T_PREMINUS \<equiv> 46 :: token"
abbreviation (input) "T_NUM \<equiv> 47 :: token"
abbreviation (input) "T_ID \<equiv> 48 :: token"
abbreviation (input) "T_POWER \<equiv> 49 :: token"
abbreviation (input) "T_CID \<equiv> 50 :: token"
abbreviation (input) "T_POWEREQ \<equiv> 51 :: token"
abbreviation (input) "T_FUNC \<equiv> 52 :: token"
abbreviation (input) "TOKCOUNT \<equiv> 53 :: token"

definition c_prec :: "int list" where
  "c_prec =
    [ 1, 137,  2,  2,  2,
      2,   2,  2,  9, 10,
     11,   4,  4,  4,  5,
      5,   6,  6,  7,  7,
      7,   7,  8,  8, 12,
     14,  13, 15, 16, 17,
     17,  17, 17, 17, 17,
     17,  17, 17, 17, 17,
     17,  17, 17, 18, 200,
      2,   2,  0,  0,  3,
      0,  17,  0]"

definition z_prec :: "int list" where
  "z_prec =
    [ 1, 137,  2,  2,  2,
      2,   2,  2,  4,  5,
      6,   8,  8,  8,  9,
      9,   3,  3, 10, 10,
     10,  10, 11, 11, 12,
     13,  13, 14, 15, 16,
     16,  16, 16, 16, 16,
     16,  16, 16, 16, 16,
     16,  16, 16, 17, 200,
      2,   2,  0,  0,  7,
      0,  16,  0]"

definition top_prec :: "int list \<Rightarrow> int" where
  "top_prec pr = pr ! T_COMMA + 1"

definition arg_prec :: "int list \<Rightarrow> int" where
  "arg_prec pr = pr ! T_COMMA - 1"

section \<open>Kinds of token\<close>

abbreviation (input) "LR \<equiv> 0 :: nat"
abbreviation (input) "RL \<equiv> 1 :: nat"
abbreviation (input) "BOOL \<equiv> 2 :: nat"
abbreviation (input) "OP_A2 \<equiv> 4 :: nat"
abbreviation (input) "OP_A2IR \<equiv> 8 :: nat"
abbreviation (input) "OP_A2IO \<equiv> 16 :: nat"
abbreviation (input) "OP_E2 \<equiv> 32 :: nat"
abbreviation (input) "OP_E2IO \<equiv> 64 :: nat"
abbreviation (input) "OP_OP \<equiv> 128 :: nat"
abbreviation (input) "OP_OPF \<equiv> 256 :: nat"

definition op_type :: "nat list" where
  "op_type =
    [LR, LR OR OP_OP OR OP_OPF, RL, RL, RL OR OP_OP OR OP_OPF,
     RL OR OP_OP OR OP_OPF, RL, RL, LR OR OP_A2IO, LR OR OP_A2IO,
     LR OR OP_A2IO, LR OR OP_A2, LR OR OP_A2, LR OR OP_A2, LR OR OP_A2,
     LR OR OP_A2, LR OR OP_A2IO, LR OR OP_A2IO, LR OR OP_A2IR, LR OR OP_A2IR,
     LR OR OP_A2IR, LR OR OP_A2IR, LR OR OP_A2IR, LR OR OP_A2IR, BOOL OR OP_A2IO,
     BOOL OR OP_A2IO, LR OR OP_A2IO, RL OR OP_OP, RL OR OP_OP, RL OR OP_E2,
     RL OR OP_E2, RL OR OP_E2, RL OR OP_E2, RL OR OP_E2, RL OR OP_E2,
     RL OR OP_E2IO, RL OR OP_E2IO, RL OR OP_E2IO, RL OR OP_E2IO, RL OR OP_E2IO,
     BOOL OR OP_E2IO, BOOL OR OP_E2IO, RL OR OP_A2IO, RL OR OP_A2, RL OR OP_OP,
     RL, RL, LR OR OP_OPF, LR OR OP_OPF, RL OR OP_A2,
     LR OR OP_OPF, RL OR OP_E2, LR OR OP_OPF]"

text \<open>The flags added up, for evaluation.\<close>

lemma op_type_code [code]:
  "op_type =
    [0, 384, 1, 1, 385, 385, 1, 1, 16, 16, 16, 4, 4, 4, 4, 4, 16, 16, 8, 8, 8, 8, 8, 8, 18,
     18, 16, 129, 129, 33, 33, 33, 33, 33, 33, 65, 65, 65, 65, 65, 66, 66, 17, 5, 129, 1,
     1, 256, 256, 5, 256, 33, 256]"
  by (simp add: op_type_def)

definition tok_has :: "token \<Rightarrow> nat \<Rightarrow> bool" where
  "tok_has t m \<longleftrightarrow> op_type ! t AND m \<noteq> 0"

definition MTYPE :: "token \<Rightarrow> nat" where
  "MTYPE t = op_type ! t AND 3"

section \<open>The evaluator's state\<close>

text \<open>One entry of the value stack (\<open>struct mathvalue\<close>).\<close>

record ('d, 'v) slot =
  lval :: "string option"
  pval :: "'v option"
  sval :: "'d mnumber"

text \<open>An entry of the stack that was never written is \<open>None\<close>.\<close>

record ('d, 'v, 'e) mst =
  ptr :: string
  yyval :: "'d mnumber"
  yylval :: string
  noeval :: int
  unary :: bool
  mtok :: token
  sp :: int
  stk :: "('d, 'v) slot option list"
  gl :: "('d, 'e) mglob"

abbreviation err :: "('d, 'v, 'e) mst \<Rightarrow> bool" where
  "err st \<equiv> errflag (gl st)"

definition merr :: "mmsg \<Rightarrow> ('d, 'v, 'e) mst \<Rightarrow> ('d, 'v, 'e) mst" where
  "merr m st = st\<lparr>gl := zerr m (gl st)\<rparr>"

section \<open>Constants\<close>

definition set_lastbase :: "int \<Rightarrow> ('d, 'v, 'e) mst \<Rightarrow> ('d, 'v, 'e) mst" where
  "set_lastbase n st = st\<lparr>gl := (gl st)\<lparr>lastbase := n\<rparr>\<rparr>"

definition read_zlong :: "bool \<Rightarrow> int \<Rightarrow> ('d, 'v, 'e) mst \<Rightarrow> zlong \<times> ('d, 'v, 'e) mst" where
  "read_zlong und base st =
     (let (v, r, g) = (if und then zstrtol_underscore (ptr st) base True (gl st)
                       else zstrtol (ptr st) base (gl st))
      in (v, st\<lparr>ptr := r, gl := g\<rparr>))"

definition set_const :: "('d, 'v, 'e) mshell \<Rightarrow> zlong \<Rightarrow> ('d, 'v, 'e) mst \<Rightarrow> ('d, 'v, 'e) mst" where
  "set_const P v st =
     st\<lparr>yyval := if FORCEFLOAT (opts (gl st)) then MN_FLOAT (d_of P v) else MN_INTEGER v\<rparr>"

definition skip_num :: "string \<Rightarrow> string" where
  "skip_num s = dropWhile (\<lambda>c. idigit c \<or> c = CHR ''_'') s"

definition is_e :: "char \<Rightarrow> bool" where
  "is_e c \<longleftrightarrow> c = CHR ''e'' \<or> c = CHR ''E''"

definition lex_float ::
  "('d, 'v, 'e) mshell \<Rightarrow> string \<Rightarrow> ('d, 'v, 'e) mst \<Rightarrow> token \<times> ('d, 'v, 'e) mst" where
  "lex_float P nptr st =
     (let n1 = (if pk nptr = CHR ''.'' then skip_num (tl nptr) else nptr);
          n2 = (if is_e (pk n1)
                then skip_num (if pk (tl n1) = CHR ''+'' \<or> is_dash (pk (tl n1))
                               then tl (tl n1) else tl n1)
                else n1);
          len = length (ptr st) - length n2;
          p = (if CHR ''_'' \<in> set (take len (ptr st))
               then filter (\<lambda>c. c \<noteq> CHR ''_'') (take len (ptr st)) @ drop len (ptr st)
               else ptr st);
          (d, r) = strtod P p;
          st1 = st\<lparr>ptr := p, yyval := MN_FLOAT d\<rparr>
      in if length p = length r \<or> pk r = CHR ''.'' then (T_EOI, merr Bad_float st1)
         else (T_NUM, st1\<lparr>ptr := r\<rparr>))"

definition lex_integer ::
  "('d, 'v, 'e) mshell \<Rightarrow> ('d, 'v, 'e) mst \<Rightarrow> token \<times> ('d, 'v, 'e) mst" where
  "lex_integer P st =
     (let (v, st1) = read_zlong True 10 st
      in if pk (ptr st1) = CHR ''#''
         then let (v2, st2) = read_zlong True (c_int v)
                                (set_lastbase (c_int v) (st1\<lparr>ptr := tl (ptr st1)\<rparr>))
              in (T_NUM, set_const P v2 st2)
         else (T_NUM, set_const P v st1))"

definition lex_decimal ::
  "('d, 'v, 'e) mshell \<Rightarrow> string \<Rightarrow> ('d, 'v, 'e) mst \<Rightarrow> token \<times> ('d, 'v, 'e) mst" where
  "lex_decimal P nptr st =
     (let n = skip_num nptr
      in if pk n = CHR ''.'' \<or> is_e (pk n) then lex_float P n st else lex_integer P st)"

definition lexconstant ::
  "('d, 'v, 'e) mshell \<Rightarrow> ('d, 'v, 'e) mst \<Rightarrow> token \<times> ('d, 'v, 'e) mst" where
  "lexconstant P st =
     (let nptr = (if is_dash (pk (ptr st)) then tl (ptr st) else ptr st);
          n1 = tl nptr; low = pk n1; ptr2 = skip_num n1
      in if pk nptr \<noteq> CHR ''0'' then lex_decimal P nptr st
         else if low \<in> {CHR ''x'', CHR ''X'', CHR ''b'', CHR ''B''}
         then let (v, st1) = read_zlong True 0 st
              in (T_NUM, set_const P v
                   (set_lastbase (if low \<in> {CHR ''b'', CHR ''B''} then 2 else 16) st1))
         else if OCTALZEROES (opts (gl st))
         then if length ptr2 < length n1 \<and> pk ptr2 \<noteq> CHR ''.'' \<and> \<not> is_e (pk ptr2) \<and>
                 pk ptr2 \<noteq> CHR ''#''
              then let (v, st1) = read_zlong True 0 st
                   in (T_NUM, set_const P v (set_lastbase 8 st1))
              else lex_decimal P ptr2 st
         else lex_decimal P n1 st)"

section \<open>Operators and punctuation\<close>

text \<open>An operator that may be doubled, and followed by \<open>=\<close>.\<close>

definition op4 ::
  "char \<Rightarrow> token \<Rightarrow> token \<Rightarrow> token \<Rightarrow> token \<Rightarrow> string \<Rightarrow> token \<times> string" where
  "op4 c tcceq tcc tceq tc s =
     (if pk s = c
      then (if pk (tl s) = CHR ''='' then (tcceq, tl (tl s)) else (tcc, tl s))
      else if pk s = CHR ''='' then (tceq, tl s) else (tc, s))"

definition op2 :: "token \<Rightarrow> token \<Rightarrow> string \<Rightarrow> token \<times> string" where
  "op2 tceq tc s = (if pk s = CHR ''='' then (tceq, tl s) else (tc, s))"

definition lex_plus_paren_bits :: "bool \<Rightarrow> char \<Rightarrow> string \<Rightarrow> (token \<times> string) option" where
  "lex_plus_paren_bits un c s =
     (if c = CHR ''+''
      then (if pk s = CHR ''+'' then Some (if un then T_PREPLUS else T_POSTPLUS, tl s)
            else if pk s = CHR ''='' then Some (T_PLUSEQ, tl s)
            else Some (if un then T_UPLUS else T_PLUS, s))
      else if c = CHR ''('' then Some (M_INPAR, s)
      else if c = CHR '')'' then Some (M_OUTPAR, s)
      else if c = CHR ''!'' then Some (op2 T_NEQ T_NOT s)
      else if c = CHR ''~'' then Some (T_COMP, s)
      else if c = CHR ''&'' then Some (op4 c T_DANDEQ T_DAND T_ANDEQ T_AND s)
      else if c = CHR ''|'' then Some (op4 c T_DOREQ T_DOR T_OREQ T_OR s)
      else if c = CHR ''^'' then Some (op4 c T_DXOREQ T_DXOR T_XOREQ T_XOR s)
      else None)"

definition lex_mul_cmp :: "char \<Rightarrow> string \<Rightarrow> (token \<times> string) option" where
  "lex_mul_cmp c s =
     (if c = CHR ''*'' then Some (op4 c T_POWEREQ T_POWER T_MULEQ T_MUL s)
      else if c = CHR ''/'' then Some (op2 T_DIVEQ T_DIV s)
      else if c = CHR ''%'' then Some (op2 T_MODEQ T_MOD s)
      else if c = CHR ''<'' then Some (op4 c T_SHLEFTEQ T_SHLEFT T_LEQ T_LES s)
      else if c = CHR ''>'' then Some (op4 c T_SHRIGHTEQ T_SHRIGHT T_GEQ T_GRE s)
      else if c = CHR ''='' then Some (op2 T_DEQ T_EQ s)
      else if c = CHR '':'' then Some (T_COLON, s)
      else if c = CHR '','' then Some (T_COMMA, s)
      else None)"

text \<open>
  A constant starts here.  The third test of the code, \<open>!itype_end (ptr, INAMESPC, 0)\<close>,
  is the negation of a pointer that is never NULL.
\<close>

definition const_start :: "string \<Rightarrow> bool" where
  "const_start s \<longleftrightarrow> idigit (pk s) \<or> (pk s = CHR ''.'' \<and> idigit (pk (tl s)))"

definition neg_number :: "('d, 'v, 'e) mshell \<Rightarrow> 'd mnumber \<Rightarrow> 'd mnumber" where
  "neg_number P a =
     (case a of MN_FLOAT d \<Rightarrow> MN_FLOAT (d_neg P d) | MN_INTEGER l \<Rightarrow> MN_INTEGER (- l)
      | MN_UNSET \<Rightarrow> MN_UNSET)"

text \<open>After a \<open>-\<close>.\<close>

definition lex_minus ::
  "('d, 'v, 'e) mshell \<Rightarrow> ('d, 'v, 'e) mst \<Rightarrow> token \<times> ('d, 'v, 'e) mst" where
  "lex_minus P st =
     (if is_dash (pk (ptr st))
      then (if unary st then T_PREMINUS else T_POSTMINUS, st\<lparr>ptr := tl (ptr st)\<rparr>)
      else if pk (ptr st) = CHR ''='' then (T_MINUSEQ, st\<lparr>ptr := tl (ptr st)\<rparr>)
      else if unary st
      then (if const_start (ptr st)
            then let (t, st1) = lexconstant P st
                 in (t, if t = T_NUM then st1\<lparr>yyval := neg_number P (yyval st1)\<rparr> else st1)
            else (T_UMINUS, st))
      else (T_MINUS, st))"

section \<open>Brackets\<close>

definition bofs :: "('d, 'v, 'e) mst \<Rightarrow> token option \<times> ('d, 'v, 'e) mst" where
  "bofs st = (Some T_EOI, merr Bad_output_format st)"

definition set_outputradix :: "int \<Rightarrow> ('d, 'v, 'e) mst \<Rightarrow> ('d, 'v, 'e) mst" where
  "set_outputradix n st = st\<lparr>gl := (gl st)\<lparr>outputradix := n\<rparr>\<rparr>"

definition set_outputunderscore :: "int \<Rightarrow> ('d, 'v, 'e) mst \<Rightarrow> ('d, 'v, 'e) mst" where
  "set_outputunderscore n st = st\<lparr>gl := (gl st)\<lparr>outputunderscore := n\<rparr>\<rparr>"

text \<open>\<open>[#base_groups]\<close>: the base, the group size, and the whole after the first \<open>#\<close>.\<close>

definition fmt_radix :: "zlong \<Rightarrow> ('d, 'v, 'e) mst \<Rightarrow> ('d, 'v, 'e) mst" where
  "fmt_radix n st =
     (if idigit (pk (ptr st))
      then let (v, st1) = read_zlong False 10 st in set_outputradix (c_int (n * v)) st1
      else st)"

definition fmt_groups :: "('d, 'v, 'e) mst \<Rightarrow> ('d, 'v, 'e) mst" where
  "fmt_groups st =
     (if pk (ptr st) = CHR ''_''
      then let st1 = st\<lparr>ptr := tl (ptr st)\<rparr>
           in if idigit (pk (ptr st1))
              then let (v, st2) = read_zlong False 10 st1 in set_outputunderscore (c_int v) st2
              else set_outputunderscore 3 st1
      else st)"

definition lex_output_format ::
  "('d, 'v, 'e) mst \<Rightarrow> token option \<times> ('d, 'v, 'e) mst" where
  "lex_output_format st =
     (let dbl = (pk (ptr st) = CHR ''#'');
          st1 = (if dbl then st\<lparr>ptr := tl (ptr st)\<rparr> else st);
          checkradix = idigit (pk (ptr st1))
      in if \<not> idigit (pk (ptr st1)) \<and> pk (ptr st1) \<noteq> CHR ''_'' then bofs st1
         else
           let st3 = fmt_groups (fmt_radix (if dbl then -1 else 1) st1);
               n' = \<bar>outputradix (gl st3)\<bar>
           in if pk (ptr st3) \<noteq> CHR '']'' then bofs st3
              else if checkradix \<and> (n' < 2 \<or> 36 < n')
              then (Some T_EOI, merr (Invalid_base (outputradix (gl st3))) st3)
              else (None, st3\<lparr>ptr := tl (ptr st3)\<rparr>))"

text \<open>After a \<open>[\<close>: \<open>[base]number\<close>, or an output format, after which lexing goes on.\<close>

definition lex_bracket :: "('d, 'v, 'e) mst \<Rightarrow> token option \<times> ('d, 'v, 'e) mst" where
  "lex_bracket st =
     (if idigit (pk (ptr st))
      then let (v, st1) = read_zlong False 10 st;
               n = c_int v
           in if pk (ptr st1) \<noteq> CHR '']'' then (Some T_EOI, merr Bad_base_syntax st1)
              else let st2 = st1\<lparr>ptr := tl (ptr st1)\<rparr>
                   in if \<not> idigit (pk (ptr st2)) then (Some T_EOI, merr Bad_base_syntax st2)
                      else let (v2, st3) = read_zlong False n (set_lastbase n st2)
                           in (Some T_NUM, st3\<lparr>yyval := MN_INTEGER v2\<rparr>)
      else if pk (ptr st) = CHR ''#'' then lex_output_format (st\<lparr>ptr := tl (ptr st)\<rparr>)
      else bofs st)"

section \<open>Names\<close>

fun skip_brackets :: "char \<Rightarrow> char \<Rightarrow> int \<Rightarrow> string \<Rightarrow> string" where
  "skip_brackets opn cls l [] = []"
| "skip_brackets opn cls l (c # s) =
     (if l = 0 then c # s
      else skip_brackets opn cls
             ((l + (if c = opn then 1 else 0)) - (if c = cls then 1 else 0))
             (if c = CHR 0x5C \<and> s \<noteq> [] then tl s else s))"

definition is_nan_name :: "string \<Rightarrow> bool" where
  "is_nan_name s \<longleftrightarrow> s ! 0 \<in> {CHR ''N'', CHR ''n''} \<and> s ! 1 \<in> {CHR ''A'', CHR ''a''} \<and>
     s ! 2 \<in> {CHR ''N'', CHR ''n''}"

definition is_inf_name :: "string \<Rightarrow> bool" where
  "is_inf_name s \<longleftrightarrow> s ! 0 \<in> {CHR ''I'', CHR ''i''} \<and> s ! 1 \<in> {CHR ''N'', CHR ''n''} \<and>
     s ! 2 \<in> {CHR ''F'', CHR ''f''}"

text \<open>A name, \<open>cct\<close> when a \<open>#\<close> stood before it: with its subscript or its arguments.\<close>

definition lex_name ::
  "('d, 'v, 'e) mshell \<Rightarrow> bool \<Rightarrow> ('d, 'v, 'e) mst \<Rightarrow> token \<times> ('d, 'v, 'e) mst" where
  "lex_name P cct st =
     (let p = ptr st; ie = namespc_end P (opts (gl st)) p; len = length p - length ie
      in if len \<noteq> 0
         then if len = 3 \<and> \<not> emulate_sh (opts (gl st)) \<and> is_nan_name p
              then (T_NUM, st\<lparr>ptr := ie, yyval := MN_FLOAT (d_div P (d_zero P) (d_zero P))\<rparr>)
              else if len = 3 \<and> \<not> emulate_sh (opts (gl st)) \<and> is_inf_name p
              then (T_NUM, st\<lparr>ptr := ie, yyval := MN_FLOAT (d_div P (d_one P) (d_zero P))\<rparr>)
              else
                let func = (\<not> cct \<and> pk ie = CHR ''('');
                    q = (if pk ie = CHR ''['' \<or> func
                         then skip_brackets (pk ie)
                                (if pk ie = CHR ''['' then CHR '']'' else CHR '')'') 1 (tl ie)
                         else ie)
                in (if func then T_FUNC else if cct then T_CID else T_ID,
                    st\<lparr>ptr := q, yylval := take (length p - length q) p\<rparr>)
         else if cct then (T_NUM, st\<lparr>yyval := MN_INTEGER (pparams_len P (gl st))\<rparr>)
         else (T_EOI, st))"

definition lex_default ::
  "('d, 'v, 'e) mshell \<Rightarrow> ('d, 'v, 'e) mst \<Rightarrow> token \<times> ('d, 'v, 'e) mst" where
  "lex_default P st =
     (let s = ptr st; p = tl s; p1 = tl p
      in if const_start s then lexconstant P st
         else if pk s = CHR ''#''
         then if pk p = CHR 0x5C \<or> pk p = CHR ''#''
              then if pk p1 = NUL then (T_EOI, merr Missing_after_hash (st\<lparr>ptr := p1\<rparr>))
                   else case getkeystring P p1 (gl st) of
                     (None, g) \<Rightarrow> (T_EOI, merr Bad_after_hash (st\<lparr>ptr := p, gl := g\<rparr>))
                   | (Some (v, r), g) \<Rightarrow>
                       (T_NUM, st\<lparr>ptr := r, gl := g, yyval := MN_INTEGER (of_int v)\<rparr>)
              else lex_name P True (st\<lparr>ptr := p\<rparr>)
         else lex_name P False st)"

section \<open>The lexer\<close>

text \<open>One round of the \<open>switch\<close>; without a token the loop goes on.\<close>

definition zzlex1 ::
  "('d, 'v, 'e) mshell \<Rightarrow> ('d, 'v, 'e) mst \<Rightarrow> token option \<times> ('d, 'v, 'e) mst" where
  "zzlex1 P st =
     (let c = pk (ptr st); s = tl (ptr st); st1 = st\<lparr>ptr := s\<rparr>
      in if c = NUL then (Some T_EOI, st)
         else case lex_plus_paren_bits (unary st) c s of
           Some (t, r) \<Rightarrow> (Some t, st\<lparr>ptr := r\<rparr>)
         | None \<Rightarrow>
           (case lex_mul_cmp c s of
              Some (t, r) \<Rightarrow> (Some t, st\<lparr>ptr := r\<rparr>)
            | None \<Rightarrow>
              if is_dash c then apfst Some (lex_minus P st1)
              else if c = CHR ''$''
              then (Some T_NUM, st1\<lparr>yyval := MN_INTEGER (mypid P (gl st))\<rparr>)
              else if c = CHR ''?''
              then (if unary st then (Some T_NUM, st1\<lparr>yyval := MN_INTEGER (lastval P (gl st))\<rparr>)
                    else (Some T_QUEST, st1))
              else if c = CHR ''['' then lex_bracket st1
              else if inblank c \<or> c = CHR 0x22 \<or> c = Dnull then (None, st1)
              else apfst Some (lex_default P st)))"

end
