(* ===== verification/Math_Expr.thy ===== *)
theory Math_Expr
  imports Math_Lex "HOL-Library.Signed_Division"
begin

text \<open>
  What an arithmetic expression means, independently of \<open>Src/math.c\<close>: its abstract
  syntax, a reference semantics over integers of 64 bits, and the text that stands for it
  under a table of precedences, with the parentheses that table asks for and no others.
\<close>

section \<open>Abstract syntax\<close>

datatype unop = Lnot | Bnot | Upos | Uneg

datatype binop =
  Band | Bxor | Bor | Bmul | Bdiv | Bmod | Badd | Bsub | Bshl | Bshr | Blt | Ble | Bgt | Bge | Beq | Bne
  | Land | Lor | Lxor | Bpow | Bcomma

datatype expr = Lit nat | Unary unop expr | Binary binop expr expr | Cond expr expr expr

section \<open>Meaning\<close>

text \<open>Two's complement of 64 bits.\<close>

definition wrap :: "int \<Rightarrow> int" where
  "wrap x = signed_take_bit 63 x"

fun unop_val :: "unop \<Rightarrow> int \<Rightarrow> int" where
  "unop_val Lnot x = of_bool (x = 0)"
| "unop_val Bnot x = NOT x"
| "unop_val Upos x = x"
| "unop_val Uneg x = wrap (- x)"

text \<open>
  The operators that take both operands; \<open>None\<close> for a division by zero, a negative exponent
  (whose result is a floating point number) and a shift count out of range.
\<close>

fun binop_val :: "binop \<Rightarrow> int \<Rightarrow> int \<Rightarrow> int option" where
  "binop_val Band x y = Some (x AND y)"
| "binop_val Bxor x y = Some (x XOR y)"
| "binop_val Bor x y = Some (x OR y)"
| "binop_val Bmul x y = Some (wrap (x * y))"
| "binop_val Bdiv x y = (if y = 0 then None else Some (wrap (x sdiv y)))"
| "binop_val Bmod x y = (if y = 0 then None else Some (x smod y))"
| "binop_val Badd x y = Some (wrap (x + y))"
| "binop_val Bsub x y = Some (wrap (x - y))"
| "binop_val Bshl x y = (if 0 \<le> y \<and> y < 64 then Some (wrap (push_bit (nat y) x)) else None)"
| "binop_val Bshr x y = (if 0 \<le> y \<and> y < 64 then Some (drop_bit (nat y) x) else None)"
| "binop_val Blt x y = Some (of_bool (x < y))"
| "binop_val Ble x y = Some (of_bool (x \<le> y))"
| "binop_val Bgt x y = Some (of_bool (x > y))"
| "binop_val Bge x y = Some (of_bool (x \<ge> y))"
| "binop_val Beq x y = Some (of_bool (x = y))"
| "binop_val Bne x y = Some (of_bool (x \<noteq> y))"
| "binop_val Land x y = Some (of_bool (x \<noteq> 0 \<and> y \<noteq> 0))"
| "binop_val Lor x y = Some (of_bool (x \<noteq> 0 \<or> y \<noteq> 0))"
| "binop_val Lxor x y = Some (of_bool ((x \<noteq> 0) \<noteq> (y \<noteq> 0)))"
| "binop_val Bpow x y = (if y < 0 then None else Some (wrap (x ^ nat y)))"
| "binop_val Bcomma x y = Some y"

text \<open>
  The left operand settles the result; the right one is not looked at.
\<close>

fun settled :: "binop \<Rightarrow> int \<Rightarrow> bool" where
  "settled Land x \<longleftrightarrow> x = 0"
| "settled Lor x \<longleftrightarrow> x \<noteq> 0"
| "settled _ x \<longleftrightarrow> False"

text \<open>
  \<open>&&\<close> and \<open>||\<close> on a left operand that is a nonzero multiple of 2 to the 32: the code
  takes it for zero when it decides whether to evaluate the right one, and nothing is said then.
\<close>

fun odd_truth :: "binop \<Rightarrow> int \<Rightarrow> bool" where
  "odd_truth Land x \<longleftrightarrow> x \<noteq> 0 \<and> x mod 2 ^ 32 = 0"
| "odd_truth Lor x \<longleftrightarrow> x \<noteq> 0 \<and> x mod 2 ^ 32 = 0"
| "odd_truth _ x \<longleftrightarrow> False"

fun value_of :: "expr \<Rightarrow> int option" where
  "value_of (Lit n) = (if int n < 2 ^ 63 then Some (int n) else None)"
| "value_of (Unary u a) = map_option (unop_val u) (value_of a)"
| "value_of (Binary b x y) =
     (case value_of x of None \<Rightarrow> None
      | Some v \<Rightarrow>
          if odd_truth b v then None
          else if settled b v then Some (of_bool (b = Lor))
          else case value_of y of None \<Rightarrow> None | Some w \<Rightarrow> binop_val b v w)"
| "value_of (Cond c x y) =
     (case value_of c of None \<Rightarrow> None
      | Some v \<Rightarrow> if v \<noteq> 0 then value_of x else value_of y)"

text \<open>The constants are in range, also where they are not looked at.\<close>

fun consts_ok :: "expr \<Rightarrow> bool" where
  "consts_ok (Lit n) \<longleftrightarrow> int n < 2 ^ 63"
| "consts_ok (Unary u a) \<longleftrightarrow> consts_ok a"
| "consts_ok (Binary b x y) \<longleftrightarrow> consts_ok x \<and> consts_ok y"
| "consts_ok (Cond c x y) \<longleftrightarrow> consts_ok c \<and> consts_ok x \<and> consts_ok y"

text \<open>Entries of the value stack an expression takes.\<close>

fun depth :: "expr \<Rightarrow> int" where
  "depth (Lit n) = 1"
| "depth (Unary u a) = depth a"
| "depth (Binary b x y) = max (depth x) (1 + depth y)"
| "depth (Cond c x y) = max (depth c) (max (1 + depth x) (2 + depth y))"

section \<open>Text\<close>

fun unop_text :: "unop \<Rightarrow> string" where
  "unop_text Lnot = ''!''"
| "unop_text Bnot = ''~''"
| "unop_text Upos = ''+''"
| "unop_text Uneg = ''-''"

fun binop_text :: "binop \<Rightarrow> string" where
  "binop_text Band = ''&''" | "binop_text Bxor = ''^''" | "binop_text Bor = ''|''"
| "binop_text Bmul = ''*''" | "binop_text Bdiv = ''/''" | "binop_text Bmod = ''%''"
| "binop_text Badd = ''+''" | "binop_text Bsub = ''-''" | "binop_text Bshl = ''<<''"
| "binop_text Bshr = ''>>''" | "binop_text Blt = ''<''" | "binop_text Ble = ''<=''"
| "binop_text Bgt = ''>''" | "binop_text Bge = ''>=''" | "binop_text Beq = ''==''"
| "binop_text Bne = ''!=''" | "binop_text Land = ''&&''" | "binop_text Lor = ''||''"
| "binop_text Lxor = ''^^''" | "binop_text Bpow = ''**''" | "binop_text Bcomma = '',''"

fun unop_tok :: "unop \<Rightarrow> token" where
  "unop_tok Lnot = T_NOT" | "unop_tok Bnot = T_COMP" | "unop_tok Upos = T_UPLUS"
| "unop_tok Uneg = T_UMINUS"

fun binop_tok :: "binop \<Rightarrow> token" where
  "binop_tok Band = T_AND" | "binop_tok Bxor = T_XOR" | "binop_tok Bor = T_OR"
| "binop_tok Bmul = T_MUL" | "binop_tok Bdiv = T_DIV" | "binop_tok Bmod = T_MOD"
| "binop_tok Badd = T_PLUS" | "binop_tok Bsub = T_MINUS" | "binop_tok Bshl = T_SHLEFT"
| "binop_tok Bshr = T_SHRIGHT" | "binop_tok Blt = T_LES" | "binop_tok Ble = T_LEQ"
| "binop_tok Bgt = T_GRE" | "binop_tok Bge = T_GEQ" | "binop_tok Beq = T_DEQ"
| "binop_tok Bne = T_NEQ" | "binop_tok Land = T_DAND" | "binop_tok Lor = T_DOR"
| "binop_tok Lxor = T_DXOR" | "binop_tok Bpow = T_POWER" | "binop_tok Bcomma = T_COMMA"

text \<open>The precedence of an expression's main operator; a bigger number binds less.\<close>

fun level :: "int list \<Rightarrow> expr \<Rightarrow> int" where
  "level pr (Lit n) = 0"
| "level pr (Unary u a) = pr ! unop_tok u"
| "level pr (Binary b x y) = pr ! binop_tok b"
| "level pr (Cond c x y) = pr ! T_QUEST"

text \<open>
  The words of an expression where one of level at most \<open>lim\<close> may stand. The operators of
  two operands group to the left, but \<open>**\<close> and the comma to the right.
\<close>

definition right_assoc :: "binop \<Rightarrow> bool" where
  "right_assoc b \<longleftrightarrow> b = Bpow \<or> b = Bcomma"

definition left_lim :: "int list \<Rightarrow> binop \<Rightarrow> int" where
  "left_lim pr b = pr ! binop_tok b - (if right_assoc b then 1 else 0)"

definition right_lim :: "int list \<Rightarrow> binop \<Rightarrow> int" where
  "right_lim pr b = pr ! binop_tok b - (if right_assoc b then 0 else 1)"

fun render :: "int list \<Rightarrow> int \<Rightarrow> expr \<Rightarrow> string list" where
  "render pr lim (Lit n) = [dec n]"
| "render pr lim (Unary u a) =
     (let ws = unop_text u # render pr (pr ! unop_tok u) a
      in if pr ! unop_tok u > lim then ''('' # ws @ ['')''] else ws)"
| "render pr lim (Binary b x y) =
     (let ws = render pr (left_lim pr b) x @ binop_text b # render pr (right_lim pr b) y
      in if pr ! binop_tok b > lim then ''('' # ws @ ['')''] else ws)"
| "render pr lim (Cond c x y) =
     (let ws = render pr (pr ! T_QUEST - 1) c @ ''?'' # render pr (pr ! T_COLON - 1) x @
                 '':'' # render pr (pr ! T_QUEST) y
      in if pr ! T_QUEST > lim then ''('' # ws @ ['')''] else ws)"

definition words :: "string list \<Rightarrow> string" where
  "words ws = concat (map (\<lambda>w. CHR '' '' # w) ws)"

definition expr_text :: "int list \<Rightarrow> expr \<Rightarrow> string" where
  "expr_text pr e = words (render pr (top_prec pr) e)"

lemma words_simps [simp]:
  "words [] = []" "words (w # ws) = CHR '' '' # w @ words ws" "words (xs @ ys) = words xs @ words ys"
  by (simp_all add: words_def)

section \<open>Values stay in range\<close>

definition in_range :: "int \<Rightarrow> bool" where
  "in_range x \<longleftrightarrow> - (2 ^ 63) \<le> x \<and> x < 2 ^ 63"

lemma in_range_simps [simp]: "in_range 0" "in_range 1" "in_range (of_bool p)"
  by (simp_all add: in_range_def)

lemma in_range_wrap [simp]: "in_range (wrap x)"
  using signed_take_bit_int_greater_eq_minus_exp [of 63 x] signed_take_bit_int_less_exp [of 63 x]
  by (simp add: in_range_def wrap_def)

lemma sint_in_range [simp]: "in_range x \<Longrightarrow> sint (word_of_int x :: 64 word) = x"
  by (simp add: in_range_def signed_of_int signed_take_bit_int_eq_self)

lemma word_wrap [simp]: "(word_of_int (wrap x) :: 64 word) = word_of_int x"
proof -
  have "sint (word_of_int x :: 64 word) = wrap x" by (simp add: wrap_def signed_of_int)
  then show ?thesis by (metis of_int_sint scast_id)
qed

lemma in_range_sint: "in_range (sint (w :: 64 word))"
  using sint_ge [of w] sint_lt [of w] by (simp add: in_range_def)

lemma word_inj: "in_range x \<Longrightarrow> in_range y \<Longrightarrow> (word_of_int x :: 64 word) = word_of_int y \<longleftrightarrow> x = y"
  by (metis sint_in_range)

text \<open>The integers of 64 bits are the values of their words.\<close>

lemma in_range_word: "in_range x \<longleftrightarrow> (\<exists>w :: 64 word. x = sint w)"
  using in_range_sint sint_in_range by metis

lemma in_range_not: "in_range x \<Longrightarrow> in_range (NOT x)"
  by (simp add: in_range_def not_int_def)

lemma in_range_sint_op:
  "in_range x \<Longrightarrow> in_range y \<Longrightarrow> in_range (x AND y)"
  "in_range x \<Longrightarrow> in_range y \<Longrightarrow> in_range (x OR y)"
  "in_range x \<Longrightarrow> in_range y \<Longrightarrow> in_range (x XOR y)"
  unfolding in_range_word by (metis signed_and_eq signed_or_eq signed_xor_eq)+

lemma in_range_drop_bit: "in_range x \<Longrightarrow> in_range (drop_bit n x)"
  unfolding in_range_word by (metis sint_signed_drop_bit_eq)

lemma in_range_smod: "in_range x \<Longrightarrow> in_range y \<Longrightarrow> y \<noteq> 0 \<Longrightarrow> in_range (x smod y)"
  using smod_int_range [of y x] by (auto simp: in_range_def split: if_splits)

lemma unop_val_range: "in_range x \<Longrightarrow> in_range (unop_val u x)"
  by (cases u) (simp_all add: in_range_not)

lemma binop_val_range: "in_range x \<Longrightarrow> in_range y \<Longrightarrow> binop_val b x y = Some v \<Longrightarrow> in_range v"
  by (cases b) (auto simp: in_range_sint_op in_range_drop_bit in_range_smod split: if_splits)

lemma value_of_range: "value_of e = Some v \<Longrightarrow> in_range v"
proof (induction e arbitrary: v)
  case (Lit n)
  then show ?case by (auto simp: in_range_def split: if_splits)
next
  case (Unary u e)
  then show ?case by (auto simp: unop_val_range)
next
  case (Binary b x y)
  then show ?case by (auto split: option.splits if_splits dest: binop_val_range)
next
  case (Cond c x y)
  then show ?case by (auto split: option.splits if_splits)
qed

end
