(* ===== verification/Math_Scan.thy ===== *)
theory Math_Scan
  imports Math_Lex
begin

text \<open>
  The lexer's loop \<open>zzlex\<close> of \<open>Src/math.c\<close>, which ends because every round consumes
  input, and what lexing leaves alone: the value stack and the parser's flags.
\<close>

section \<open>The frame of the lexer\<close>

definition lexes :: "('d, 'v, 'e) mst \<Rightarrow> ('d, 'v, 'e) mst \<Rightarrow> bool" where
  "lexes st st' \<longleftrightarrow>
     length (ptr st') \<le> length (ptr st) \<and> stk st' = stk st \<and> sp st' = sp st \<and>
     noeval st' = noeval st \<and> unary st' = unary st \<and> steady (gl st) (gl st') \<and>
     (yyval st \<noteq> MN_UNSET \<longrightarrow> yyval st' \<noteq> MN_UNSET) \<and> env (gl st') = env (gl st)"

lemma lexes_refl [simp, intro]: "lexes st st"
  by (simp add: lexes_def)

lemma lexes_trans: "lexes st st' \<Longrightarrow> lexes st' st'' \<Longrightarrow> lexes st st''"
  by (auto simp: lexes_def intro: steady_trans)

lemma lexes_updates [simp]:
  "length s \<le> length (ptr st) \<Longrightarrow> lexes st (st\<lparr>ptr := s\<rparr>)"
  "lexes st (st\<lparr>yylval := y\<rparr>)"
  "v \<noteq> MN_UNSET \<Longrightarrow> lexes st (st\<lparr>yyval := v\<rparr>)"
  "lexes st (st\<lparr>mtok := t\<rparr>)"
  "steady (gl st) g \<Longrightarrow> env g = env (gl st) \<Longrightarrow> lexes st (st\<lparr>gl := g\<rparr>)"
  by (simp_all add: lexes_def)

lemma lexes_merr [simp, intro]: "lexes st (merr m st)"
  by (simp add: merr_def)

lemma lexes_globals [simp]:
  "lexes st (set_lastbase n st)" "lexes st (set_outputradix n st)"
  "lexes st (set_outputunderscore n st)"
  by (simp_all add: set_lastbase_def set_outputradix_def set_outputunderscore_def steady_def)

lemma lexes_set_const [simp]: "lexes st (set_const P v st)"
  by (simp add: set_const_def)

lemma ptr_globals [simp]:
  "ptr (set_lastbase n st) = ptr st" "ptr (set_outputradix n st) = ptr st"
  "ptr (set_outputunderscore n st) = ptr st" "ptr (merr m st) = ptr st"
  "ptr (set_const P v st) = ptr st"
  by (simp_all add: set_lastbase_def set_outputradix_def set_outputunderscore_def merr_def
      set_const_def)

section \<open>Reading numbers\<close>

lemma length_dropWhile_le': "length (dropWhile Q s) \<le> length s"
  by (induction s) auto

lemma length_skip_num: "length (skip_num s) \<le> length s"
  by (simp add: skip_num_def length_dropWhile_le')

lemma of_char_int: "(of_char c :: int) = int (of_char c)"
  by (rule of_nat_of_char [symmetric])

lemma digit_low_nat:
  "digit_low (int b) c =
     (if 48 \<le> (of_char c :: nat) \<and> of_char c < 48 + b then Some (of_char c - 48) else None)"
  by (simp add: digit_low_def of_char_int)

lemma zdigits_length:
  "zdigits dv und base s i calc tr = (r, j, v, tr') \<Longrightarrow> length r \<le> length s"
  by (induction dv und base s i calc tr rule: zdigits.induct)
    (fastforce simp: Let_def split: if_splits)+

lemma zdigits_first:
  assumes "zdigits dv und base (c # s) i calc tr = (r, j, v, tr')" "dv c \<noteq> None"
  shows "length r \<le> length s"
  using assms zdigits_length by (fastforce simp: Let_def split: if_splits)

lemma zbase_length: "zbase b s = (b', r) \<Longrightarrow> length r \<le> length s"
  by (auto simp: zbase_def split: if_splits)

lemma zstrtol_underscore_length:
  assumes "zstrtol_underscore s base und g = (v, r, g')"
  shows "length r \<le> length s" and "steady g g'" and "env g' = env g"
proof -
  define s1 where "s1 = dropWhile inblank s"
  define s2 where "s2 = (if is_dash (pk s1) \<or> pk s1 = CHR ''+'' then tl s1 else s1)"
  obtain b inp where b: "zbase base s2 = (b, inp)" by fastforce
  obtain r' i c tr where
    z: "zdigits (if b \<le> 10 then digit_low b else digit_high b) und (of_int b) inp 0 0 None
          = (r', i, c, tr)"
    by (metis prod_cases4)
  have "length s1 \<le> length s" unfolding s1_def by (rule length_dropWhile_le')
  then have "length s2 \<le> length s" by (auto simp: s2_def)
  with zbase_length [OF b] zdigits_length [OF z] have "length r' \<le> length s" by simp
  moreover have "(v, r, g') = zstrtol_underscore s base und g" using assms by simp
  ultimately show "length r \<le> length s" "steady g g'" "env g' = env g"
    by (auto simp: zstrtol_underscore_def Let_def s1_def [symmetric] s2_def [symmetric] b z
        split: if_splits option.splits)
qed

lemma zstrtol_underscore_digit:
  assumes "zstrtol_underscore s base und g = (v, r, g')" and d: "idigit (pk s)"
    and "base = 0 \<or> base = 10"
  shows "length r < length s"
proof -
  obtain c cs where s: "s = c # cs" using d classes_NUL(1) pk_neq_NUL by metis
  have c: "\<not> inblank c" "\<not> is_dash c" "c \<noteq> CHR ''+''"
    using d by (auto simp: s inblank_def is_dash_def idigit_def between_def)
  have dv: "digit_low 10 c \<noteq> None"
    using d digit_low_nat [of 10 c] by (simp add: s idigit_def between_def)
  obtain b inp where b: "zbase base s = (b, inp)" by fastforce
  obtain r' i n tr where
    z: "zdigits (if b \<le> 10 then digit_low b else digit_high b) und (of_int b) inp 0 0 None
          = (r', i, n, tr)"
    by (metis prod_cases4)
  have b': "b = 10 \<and> inp = s \<or> length inp < length s"
    using b \<open>base = 0 \<or> base = 10\<close> by (auto simp: zbase_def s split: if_splits)
  have le: "length r' < length s"
  proof (cases "b = 10 \<and> inp = s")
    case True
    then have "zdigits (digit_low 10) und 10 (c # cs) 0 0 None = (r', i, n, tr)" using z by (simp add: s)
    from zdigits_first [OF this dv] show ?thesis by (simp add: s)
  next
    case False
    then show ?thesis using b' zdigits_length [OF z] by auto
  qed
  have b2: "\<not> (b < 2 \<or> 36 < b)"
    using b \<open>base = 0 \<or> base = 10\<close> by (auto simp: zbase_def split: if_splits)
  have "dropWhile inblank s = s" by (simp add: s c)
  then show ?thesis
    using assms(1) le b2
    by (auto simp: zstrtol_underscore_def Let_def s c b [unfolded s] z [unfolded s]
        split: if_splits option.splits)
qed

lemma read_zlong_lexes:
  assumes "read_zlong und base st = (v, st')"
  shows "lexes st st'"
  using assms
  using zstrtol_underscore_length
  by (fastforce simp: read_zlong_def zstrtol_def lexes_def split: prod.splits if_splits)

lemma read_zlong_digit:
  assumes "read_zlong True base st = (v, st')" "idigit (pk (ptr st))" "base = 0 \<or> base = 10"
  shows "length (ptr st') < length (ptr st)"
  using assms zstrtol_underscore_digit
  by (fastforce simp: read_zlong_def split: prod.splits)

section \<open>Constants\<close>

lemma read_zlong_lexes' [simp]: "lexes st (snd (read_zlong und base st))"
  by (rule read_zlong_lexes [OF prod.collapse [symmetric]])

lemma lex_integer_lexes: "lexes st (snd (lex_integer P st))"
proof -
  obtain v st1 where r: "read_zlong True 10 st = (v, st1)" by fastforce
  let ?st = "set_lastbase (c_int v) (st1\<lparr>ptr := tl (ptr st1)\<rparr>)"
  obtain v2 st2 where r2: "read_zlong True (c_int v) ?st = (v2, st2)" by fastforce
  have 1: "lexes st st1" by (rule read_zlong_lexes [OF r])
  have 2: "lexes st1 ?st" by (rule lexes_trans [of _ "st1\<lparr>ptr := tl (ptr st1)\<rparr>"]) simp_all
  have 3: "lexes ?st st2" by (rule read_zlong_lexes [OF r2])
  have 4: "lexes st (set_const P v2 st2)" "lexes st (set_const P v st1)"
    by (rule lexes_trans [OF 1 lexes_trans [OF 2 lexes_trans [OF 3 lexes_set_const]]],
        rule lexes_trans [OF 1 lexes_set_const])
  show ?thesis using 4 by (simp add: lex_integer_def Let_def r r2)
qed

lemma lex_integer_consumes:
  assumes "idigit (pk (ptr st))"
  shows "length (ptr (snd (lex_integer P st))) < length (ptr st)"
proof -
  obtain v st1 where r: "read_zlong True 10 st = (v, st1)" by fastforce
  let ?st = "set_lastbase (c_int v) (st1\<lparr>ptr := tl (ptr st1)\<rparr>)"
  obtain v2 st2 where r2: "read_zlong True (c_int v) ?st = (v2, st2)" by fastforce
  have 1: "length (ptr st1) < length (ptr st)" by (rule read_zlong_digit [OF r assms]) simp
  have 3: "length (ptr st2) \<le> length (ptr ?st)"
    using read_zlong_lexes [OF r2] unfolding lexes_def by blast
  show ?thesis using 1 3 by (auto simp: lex_integer_def Let_def r r2)
qed

lemma lex_float_lexes:
  assumes "steady_shell P"
  shows "lexes st (snd (lex_float P n st))"
    and "fst (lex_float P n st) \<noteq> T_EOI \<Longrightarrow> length (ptr (snd (lex_float P n st))) < length (ptr st)"
    and "fst (lex_float P n st) < TOKCOUNT"
proof -
  define n1 where "n1 = (if pk n = CHR ''.'' then skip_num (tl n) else n)"
  define n2 where "n2 = (if is_e (pk n1)
                then skip_num (if pk (tl n1) = CHR ''+'' \<or> is_dash (pk (tl n1))
                               then tl (tl n1) else tl n1) else n1)"
  define k where "k = length (ptr st) - length n2"
  define p where "p = (if CHR ''_'' \<in> set (take k (ptr st))
               then filter (\<lambda>c. c \<noteq> CHR ''_'') (take k (ptr st)) @ drop k (ptr st) else ptr st)"
  obtain d r where r: "strtod P p = (d, r)" by fastforce
  have "length (filter Q (take k s)) + length (drop k s) \<le> length s" for Q and s :: string
    using length_filter_le [of Q "take k s"] by (metis add_mono append_take_drop_id le_refl length_append)
  then have p: "length p \<le> length (ptr st)" by (simp add: p_def)
  have rp: "length r \<le> length p" using assms r unfolding steady_shell_def by (metis snd_conv)
  have eq: "lex_float P n st = (if length p = length r \<or> pk r = CHR ''.''
      then (T_EOI, merr Bad_float (st\<lparr>ptr := p, yyval := MN_FLOAT d\<rparr>))
      else (T_NUM, st\<lparr>ptr := r, yyval := MN_FLOAT d\<rparr>))"
    unfolding lex_float_def Let_def n1_def [symmetric] n2_def [symmetric] k_def [symmetric]
      p_def [symmetric] by (simp add: r)
  have u: "lexes st (st\<lparr>ptr := q, yyval := MN_FLOAT d\<rparr>)" if "length q \<le> length (ptr st)" for q
    using that by (simp add: lexes_def)
  show "lexes st (snd (lex_float P n st))"
    using u [OF p] u [of r] p rp by (auto simp: eq intro: lexes_trans)
  show "length (ptr (snd (lex_float P n st))) < length (ptr st)" if "fst (lex_float P n st) \<noteq> T_EOI"
    using that p rp by (auto simp: eq split: if_splits)
  show "fst (lex_float P n st) < TOKCOUNT" by (simp add: eq)
qed

lemma lex_decimal_lexes:
  assumes "steady_shell P"
  shows "lexes st (snd (lex_decimal P n st))"
  using assms by (simp add: lex_decimal_def Let_def lex_float_lexes lex_integer_lexes)

lemma lex_decimal_consumes:
  assumes "steady_shell P" and "fst (lex_decimal P n st) \<noteq> T_EOI"
    and "idigit (pk (ptr st)) \<or> pk n = CHR ''.''"
  shows "length (ptr (snd (lex_decimal P n st))) < length (ptr st)"
proof (cases "pk (skip_num n) = CHR ''.'' \<or> is_e (pk (skip_num n))")
  case True
  then show ?thesis using assms lex_float_lexes(2) by (auto simp: lex_decimal_def Let_def)
next
  case False
  have "skip_num n = n" if "pk n = CHR ''.''"
    using that by (cases n) (simp_all add: skip_num_def idigit_def between_def)
  with False assms have "idigit (pk (ptr st))" by auto
  from lex_integer_consumes [OF this] False show ?thesis
    by (simp add: lex_decimal_def Let_def del: One_nat_def)
qed

lemma lexconstant_lexes:
  assumes "steady_shell P"
  shows "lexes st (snd (lexconstant P st))"
proof -
  obtain v st1 where r: "read_zlong True 0 st = (v, st1)" by fastforce
  have 1: "lexes st (set_const P v (set_lastbase n st1))" for n
    by (rule lexes_trans [OF read_zlong_lexes [OF r] lexes_trans [OF lexes_globals(1) lexes_set_const]])
  show ?thesis
    unfolding lexconstant_def Let_def r by (simp add: 1 lex_decimal_lexes [OF assms])
qed

lemma const_start_neq: "const_start s \<Longrightarrow> \<not> is_dash (pk s) \<and> pk s \<noteq> NUL"
  by (auto simp: const_start_def is_dash_def idigit_def between_def NUL_def)

lemma lexconstant_consumes:
  assumes P: "steady_shell P" and c: "const_start (ptr st)" and t: "fst (lexconstant P st) \<noteq> T_EOI"
  shows "length (ptr (snd (lexconstant P st))) < length (ptr st)"
proof (cases "pk (ptr st) = CHR ''0''")
  case False
  have d: "\<not> is_dash (pk (ptr st))" using const_start_neq [OF c] by blast
  have eq: "lexconstant P st = lex_decimal P (ptr st) st"
    using False d by (simp add: lexconstant_def Let_def)
  show ?thesis
    using lex_decimal_consumes [OF P, of "ptr st" st] c t unfolding eq const_start_def by blast
next
  case True
  then have d: "idigit (pk (ptr st))" and nd: "\<not> is_dash (pk (ptr st))"
    by (simp_all add: idigit_def between_def is_dash_def)
  obtain v st1 where r: "read_zlong True 0 st = (v, st1)" by fastforce
  have 1: "length (ptr st1) < length (ptr st)" by (rule read_zlong_digit [OF r d]) simp
  have 2: "length (ptr (snd (lex_decimal P n st))) < length (ptr st)"
    if "fst (lex_decimal P n st) \<noteq> T_EOI" for n
    by (rule lex_decimal_consumes [OF P that]) (simp add: d)
  show ?thesis
    using t unfolding lexconstant_def Let_def r by (auto simp: 1 2 nd split: if_splits)
qed

section \<open>Names and brackets\<close>

lemma length_skip_brackets: "length (skip_brackets a b l s) \<le> length s"
  by (induction a b l s rule: skip_brackets.induct) (fastforce simp: le_Suc_eq split: if_splits)+

lemma lex_name_lexes: "lexes st (snd (lex_name P cct st))"
proof -
  let ?p = "ptr st" and ?ie = "namespc_end P (opts (gl st)) (ptr st)"
  have 1: "length ?ie \<le> length ?p" by (rule length_namespc_end)
  have 2: "length (skip_brackets a b l (tl ?ie)) \<le> length ?p" for a b l
    using length_skip_brackets [of a b l "tl ?ie"] 1 by simp
  show ?thesis using 1 2 by (simp add: lex_name_def Let_def lexes_def)
qed

lemma lex_name_consumes:
  assumes "fst (lex_name P False st) \<noteq> T_EOI"
  shows "length (ptr (snd (lex_name P False st))) < length (ptr st)"
proof -
  let ?p = "ptr st" and ?ie = "namespc_end P (opts (gl st)) (ptr st)"
  have 2: "length (skip_brackets a b l (tl ?ie)) < length ?p" if "length ?ie < length ?p" for a b l
    using length_skip_brackets [of a b l "tl ?ie"] that by simp
  show ?thesis using assms 2 by (auto simp: lex_name_def Let_def split: if_splits)
qed

lemma fmt_radix_lexes: "lexes st (fmt_radix n st)"
  by (auto simp: fmt_radix_def split: prod.splits
      intro: lexes_trans [OF read_zlong_lexes lexes_globals(2)])

lemma fmt_groups_lexes: "lexes st (fmt_groups st)"
proof -
  have t: "lexes st (st\<lparr>ptr := tl (ptr st)\<rparr>)" by simp
  show ?thesis
    by (auto simp: fmt_groups_def Let_def split: prod.splits
        intro: lexes_trans [OF t lexes_trans [OF read_zlong_lexes lexes_globals(3)]]
          lexes_trans [OF t lexes_globals(3)])
qed

lemma lex_output_format_lexes: "lexes st (snd (lex_output_format st))"
proof -
  define st1 where "st1 = (if pk (ptr st) = CHR ''#'' then st\<lparr>ptr := tl (ptr st)\<rparr> else st)"
  define st3 where "st3 = fmt_groups (fmt_radix (if pk (ptr st) = CHR ''#'' then -1 else 1) st1)"
  have 1: "lexes st st1" by (simp add: st1_def)
  have 3: "lexes st st3"
    unfolding st3_def by (rule lexes_trans [OF 1 lexes_trans [OF fmt_radix_lexes fmt_groups_lexes]])
  have "lexes st (st3\<lparr>ptr := tl (ptr st3)\<rparr>)" by (rule lexes_trans [OF 3]) simp
  moreover have "lexes st (merr m st1)" "lexes st (merr m st3)" for m
    by (rule lexes_trans [OF 1 lexes_merr], rule lexes_trans [OF 3 lexes_merr])
  ultimately show ?thesis
    unfolding lex_output_format_def Let_def st1_def [symmetric] st3_def [symmetric]
    by (simp add: bofs_def)
qed

lemma lex_bracket_lexes: "lexes st (snd (lex_bracket st))"
proof -
  obtain v st1 where r: "read_zlong False 10 st = (v, st1)" by fastforce
  let ?st2 = "st1\<lparr>ptr := tl (ptr st1)\<rparr>"
  obtain v2 st3 where r2: "read_zlong False (c_int v) (set_lastbase (c_int v) ?st2) = (v2, st3)"
    by fastforce
  have 1: "lexes st st1" by (rule read_zlong_lexes [OF r])
  have 2: "lexes st ?st2" by (rule lexes_trans [OF 1]) simp
  have 3: "lexes st (st3\<lparr>yyval := MN_INTEGER v2\<rparr>)"
    by (rule lexes_trans [OF 2 lexes_trans [OF lexes_globals(1)
          lexes_trans [OF read_zlong_lexes [OF r2]]]]) simp
  have 4: "lexes st (merr m st1)" "lexes st (merr m ?st2)" for m
    by (rule lexes_trans [OF 1 lexes_merr], rule lexes_trans [OF 2 lexes_merr])
  have 5: "lexes st (snd (lex_output_format (st\<lparr>ptr := tl (ptr st)\<rparr>)))"
    by (rule lexes_trans [OF _ lex_output_format_lexes]) simp
  show ?thesis
    unfolding lex_bracket_def Let_def r prod.case r2 using 3 4 5 by (simp add: bofs_def)
qed

lemma lex_minus_lexes:
  assumes "steady_shell P"
  shows "lexes st (snd (lex_minus P st))"
proof -
  obtain t st1 where l: "lexconstant P st = (t, st1)" by fastforce
  have 1: "lexes st st1" using lexconstant_lexes [OF assms, of st] by (simp add: l)
  have "lexes st1 (st1\<lparr>yyval := neg_number P (yyval st1)\<rparr>)"
    by (simp add: lexes_def neg_number_def split: mnumber.split)
  with 1 have "lexes st (st1\<lparr>yyval := neg_number P (yyval st1)\<rparr>)" by (rule lexes_trans)
  with 1 show ?thesis by (simp add: lex_minus_def Let_def l)
qed

lemma lex_default_lexes:
  assumes P: "steady_shell P"
  shows "lexes st (snd (lex_default P st))"
proof -
  let ?p = "tl (ptr st)"
  obtain o' g where k: "getkeystring P (tl ?p) (gl st) = (o', g)" by fastforce
  have g: "steady (gl st) g" and r: "\<And>v r. o' = Some (v, r) \<Longrightarrow> length r \<le> length (tl ?p)"
    and ge: "env g = env (gl st)"
    using P k unfolding steady_shell_def by (metis fst_conv snd_conv)+
  have 1: "lexes st (merr m (st\<lparr>ptr := q\<rparr>))" if "length q \<le> length (ptr st)" for m q
    by (rule lexes_trans [OF lexes_updates(1) [OF that] lexes_merr])
  have 2: "lexes st (merr m (st\<lparr>ptr := ?p, gl := g\<rparr>))" for m
    by (rule lexes_trans [OF _ lexes_merr]) (simp add: lexes_def g ge)
  have 3: "lexes st (st\<lparr>ptr := q, gl := g, yyval := MN_INTEGER v\<rparr>)"
    if "o' = Some (x, q)" for x q v
    using r [OF that] by (simp add: lexes_def g ge)
  have 4: "lexes st (snd (lex_name P True (st\<lparr>ptr := ?p\<rparr>)))"
    by (rule lexes_trans [OF _ lex_name_lexes]) simp
  show ?thesis
    unfolding lex_default_def Let_def k using 1 2 3 4
    by (simp add: lexconstant_lexes [OF P] lex_name_lexes split: option.split prod.split)
qed

lemma lex_default_consumes:
  assumes P: "steady_shell P" and "fst (lex_default P st) \<noteq> T_EOI"
  shows "length (ptr (snd (lex_default P st))) < length (ptr st)"
proof -
  let ?p = "tl (ptr st)"
  consider (c) "const_start (ptr st)" | (h) "\<not> const_start (ptr st)" "pk (ptr st) = CHR ''#''"
    | (n) "\<not> const_start (ptr st)" "pk (ptr st) \<noteq> CHR ''#''" by blast
  then show ?thesis
  proof cases
    case c
    then show ?thesis using lexconstant_consumes [OF P c] assms(2) by (simp add: lex_default_def)
  next
    case n
    then show ?thesis using lex_name_consumes [of P st] assms(2)
      by (simp add: lex_default_def Let_def del: One_nat_def)
  next
    case h
    then obtain c cs where s: "ptr st = c # cs" using pk_neq_NUL [of "ptr st"] by (auto simp: NUL_def)
    obtain o' g where k: "getkeystring P (tl ?p) (gl st) = (o', g)" by fastforce
    have r: "\<And>v r. o' = Some (v, r) \<Longrightarrow> length r \<le> length (tl ?p)"
      using P k unfolding steady_shell_def by (metis fst_conv)
    have 4: "length (ptr (snd (lex_name P True (st\<lparr>ptr := ?p\<rparr>)))) \<le> length ?p"
      using lex_name_lexes [of "st\<lparr>ptr := ?p\<rparr>" P True] by (simp add: lexes_def)
    show ?thesis
      using h r 4 assms(2) unfolding lex_default_def Let_def k
      by (auto simp: s less_Suc_eq_le split: option.splits if_splits dest!: r)
  qed
qed

section \<open>One round\<close>

lemma op_lengths:
  "length (snd (op2 a b s)) \<le> length s" "length (snd (op4 c a b d e s)) \<le> length s"
  by (simp_all add: op2_def op4_def)

lemma lex_punct_length:
  "lex_plus_paren_bits un c s = Some (t, r) \<Longrightarrow> length r \<le> length s"
  "lex_mul_cmp c s = Some (t, r) \<Longrightarrow> length r \<le> length s"
proof -
  have o: "op2 a b s = (t, r) \<Longrightarrow> length r \<le> length s"
    "op4 c' a b d e s = (t, r) \<Longrightarrow> length r \<le> length s" for a b c' d e
    using op_lengths [where s = s] by (metis snd_conv)+
  show "lex_plus_paren_bits un c s = Some (t, r) \<Longrightarrow> length r \<le> length s"
    "lex_mul_cmp c s = Some (t, r) \<Longrightarrow> length r \<le> length s"
    by (auto simp: lex_plus_paren_bits_def lex_mul_cmp_def dest: o split: if_splits)
qed

lemma zzlex1_spec:
  assumes P: "steady_shell P" and z: "zzlex1 P st = (t, st')"
  shows zzlex1_lexes: "lexes st st'"
    and zzlex1_consumes: "t \<noteq> Some T_EOI \<Longrightarrow> length (ptr st') < length (ptr st)"
proof -
  let ?c = "pk (ptr st)" and ?s = "tl (ptr st)"
  have both: "lexes st st' \<and> (t \<noteq> Some T_EOI \<longrightarrow> length (ptr st') < length (ptr st))"
  proof (cases "?c = NUL")
    case True
    then show ?thesis using z by (auto simp: zzlex1_def)
  next
    case False
    then obtain c cs where s: "ptr st = c # cs" using pk_neq_NUL by blast
    let ?st1 = "st\<lparr>ptr := cs\<rparr>"
    have via: "lexes st st' \<and> length (ptr st') < length (ptr st)"
      if "st' = snd (f ?st1)" "lexes ?st1 (snd (f ?st1))" for f :: "_ \<Rightarrow> 'x \<times> _"
      using that by (auto simp: s lexes_def)
    have upd: "lexes st (st\<lparr>ptr := r\<rparr>) \<and> length r < length (ptr st)" if "length r \<le> length cs" for r
      using that by (simp add: s)
    show ?thesis
    proof (cases "lex_plus_paren_bits (unary st) c cs")
      case (Some p)
      then show ?thesis
        using z upd lex_punct_length(1) [of "unary st" c cs "fst p" "snd p"] False
        by (auto simp: zzlex1_def Let_def s split: prod.splits)
    next
      case N1: None
      show ?thesis
      proof (cases "lex_mul_cmp c cs")
        case (Some p)
        then show ?thesis
          using z N1 upd lex_punct_length(2) [of c cs "fst p" "snd p"] False
          by (auto simp: zzlex1_def Let_def s split: prod.splits)
      next
        case N2: None
        have eq: "zzlex1 P st =
          (if is_dash c then apfst Some (lex_minus P ?st1)
           else if c = CHR ''$'' then (Some T_NUM, ?st1\<lparr>yyval := MN_INTEGER (mypid P (gl st))\<rparr>)
           else if c = CHR ''?''
           then (if unary st then (Some T_NUM, ?st1\<lparr>yyval := MN_INTEGER (lastval P (gl st))\<rparr>)
                 else (Some T_QUEST, ?st1))
           else if c = CHR ''['' then lex_bracket ?st1
           else if inblank c \<or> c = CHR 0x22 \<or> c = Dnull then (None, ?st1)
           else apfst Some (lex_default P st))"
          using False unfolding zzlex1_def Let_def s pk_simps list.sel N1 N2 option.case by simp
        have yy: "lexes st (?st1\<lparr>yyval := MN_INTEGER v\<rparr>)" for v by (simp add: lexes_def s)
        have s1: "lexes st ?st1" by (simp add: s)
        consider (d) "is_dash c" | (br) "\<not> is_dash c" "c = CHR ''[''"
          | (u) "\<not> is_dash c" "\<not> (c = CHR ''$'' \<or> c = CHR ''?'' \<or> inblank c \<or> c = CHR 0x22 \<or> c = Dnull)"
              "c \<noteq> CHR ''[''"
          | (v) "\<not> is_dash c" "c = CHR ''$'' \<or> c = CHR ''?'' \<or> inblank c \<or> c = CHR 0x22 \<or> c = Dnull"
              "c \<noteq> CHR ''[''"
          by blast
        then show ?thesis
        proof cases
          case d
          then show ?thesis using z via [of "lex_minus P"] lex_minus_lexes [OF P, of ?st1]
            by (simp add: eq apfst_def map_prod_def split: prod.splits)
        next
          case br
          then show ?thesis using z via [of lex_bracket] lex_bracket_lexes [of ?st1]
            by (simp add: eq is_dash_def)
        next
          case u
          then show ?thesis
            using z lex_default_lexes [OF P, of st] lex_default_consumes [OF P, of st]
            by (cases "lex_default P st") (auto simp: eq)
        next
          case v
          then have "st' = ?st1 \<or> (\<exists>q. st' = ?st1\<lparr>yyval := MN_INTEGER q\<rparr>)"
            using z unfolding eq by (auto split: if_splits)
          then show ?thesis using yy s1 by (auto simp: s)
        qed
      qed
    qed
  qed
  then show "lexes st st'" "t \<noteq> Some T_EOI \<Longrightarrow> length (ptr st') < length (ptr st)" by auto
qed

section \<open>The loop\<close>

lemma zzlex1_None:
  assumes "zzlex1 P st = (None, st')"
  shows "length (ptr st') < length (ptr st)"
proof -
  have nn: "pk (ptr st) \<noteq> NUL" using assms by (auto simp: zzlex1_def)
  then obtain c cs where s: "ptr st = c # cs" using pk_neq_NUL by blast
  let ?st1 = "st\<lparr>ptr := cs\<rparr>"
  have ap: "apfst Some x \<noteq> (None, st')" for x :: "token \<times> _" by (cases x) simp
  have "lex_bracket ?st1 = (None, st') \<or> st' = ?st1"
    using assms nn unfolding zzlex1_def Let_def s
    by (simp add: ap split: option.splits if_splits prod.splits)
  then have "length (ptr st') \<le> length cs"
    using lex_bracket_lexes [of ?st1] by (auto simp: lexes_def)
  then show ?thesis by (simp add: s)
qed

function zzlex :: "('d, 'v, 'e) mshell \<Rightarrow> ('d, 'v, 'e) mst \<Rightarrow> token \<times> ('d, 'v, 'e) mst" where
  "zzlex P st =
     (case zzlex1 P st of
        (Some t, st') \<Rightarrow> (t, st')
      | (None, st') \<Rightarrow> zzlex P st')"
  by pat_completeness auto
termination
  by (relation "measure (\<lambda>(P, st). length (ptr st))") (auto dest: zzlex1_None [OF sym])

declare zzlex.simps [simp del]

lemma zzlex_spec:
  assumes P: "steady_shell P"
  shows "lexes st (snd (zzlex P st)) \<and>
    (fst (zzlex P st) \<noteq> T_EOI \<longrightarrow> length (ptr (snd (zzlex P st))) < length (ptr st))"
proof (induction "length (ptr st)" arbitrary: st rule: less_induct)
  case less
  obtain t st' where z: "zzlex1 P st = (t, st')" by fastforce
  note f = zzlex1_lexes [OF P z] zzlex1_consumes [OF P z]
  show ?case
  proof (cases t)
    case None
    then have "length (ptr st') < length (ptr st)" using zzlex1_None z by blast
    from less [OF this] this f(1) show ?thesis
      by (subst (1 2 3) zzlex.simps) (auto simp: z None intro: lexes_trans)
  next
    case (Some a)
    then show ?thesis using f by (subst (1 2 3) zzlex.simps) (simp add: z)
  qed
qed

text \<open>The token is one of those that have a precedence.\<close>

lemma zzlex_token:
  assumes P: "steady_shell P"
  shows "fst (zzlex P st) < TOKCOUNT"
proof (induction "length (ptr st)" arbitrary: st rule: less_induct)
  case less
  obtain t st' where z: "zzlex1 P st = (t, st')" by fastforce
  show ?case
  proof (cases t)
    case None
    then have "length (ptr st') < length (ptr st)" using zzlex1_None z by blast
    from less [OF this] show ?thesis by (subst zzlex.simps) (simp add: z None)
  next
    case (Some a)
    have fi: "fst (lex_float P nm st) < 53" "fst (lex_integer P st) < 53" for nm st
      by (rule lex_float_lexes(3) [OF P]) (simp add: lex_integer_def Let_def split: prod.split)
    have de: "fst (lex_decimal P nm st) < 53" for nm st
      by (simp add: lex_decimal_def Let_def fi)
    have n: "fst (lexconstant P st) < 53" "fst (lex_name P cct st) < 53" for st cct
      by (simp_all add: lexconstant_def lex_name_def Let_def de split: prod.split)
    have o: "fst (op2 a b s) < 53 \<longleftrightarrow> (if pk s = CHR ''='' then a < 53 else b < 53)"
      "fst (op4 ch a b d e s) < 53 \<longleftrightarrow>
        (if pk s = ch then (if pk (tl s) = CHR ''='' then a < 53 else b < 53)
         else if pk s = CHR ''='' then d < 53 else e < 53)" for ch a b d e s
      by (simp_all add: op2_def op4_def)
    have p: "pred_option (\<lambda>q. fst q < 53) (lex_plus_paren_bits un c s)"
      "pred_option (\<lambda>q. fst q < 53) (lex_mul_cmp c s)" for un c s
      by (simp_all add: lex_plus_paren_bits_def lex_mul_cmp_def o)
    have m1: "fst (lex_minus P st) < 53" for st
      using n(1) [of st] by (cases "lexconstant P st") (simp add: lex_minus_def Let_def)
    have m: "fst (lex_default P st) < 53" for st
      by (simp add: lex_default_def Let_def n split: prod.split option.split)
    have f: "pred_option (\<lambda>t. t < 53) (fst (lex_output_format st))" for st
      by (simp add: lex_output_format_def bofs_def Let_def)
    have g: "pred_option (\<lambda>t. t < 53) (fst (lex_bracket st))" for st
      by (simp add: lex_bracket_def f bofs_def Let_def split: prod.split)
    have ap: "fst (apfst Some x) = Some (fst x)" for x :: "token \<times> _" by (cases x) simp
    have "pred_option (\<lambda>t. t < 53) (fst (zzlex1 P st))"
      unfolding zzlex1_def Let_def
      using p(1) [of "unary st" "pk (ptr st)" "tl (ptr st)"] p(2) [of "pk (ptr st)" "tl (ptr st)"]
      by (cases "lex_plus_paren_bits (unary st) (pk (ptr st)) (tl (ptr st))";
          cases "lex_mul_cmp (pk (ptr st)) (tl (ptr st))")
        (simp_all add: m1 m g ap case_prod_beta)
    then show ?thesis by (subst zzlex.simps) (simp add: z Some)
  qed
qed

end
