(* ===== verification/Math_Ops.thy ===== *)
theory Math_Ops
  imports Math_Scan "HOL-Library.Monad_Syntax" "HOL-Library.Signed_Division"
begin

text \<open>
  The value stack and the operators of \<open>Src/math.c\<close>: \<open>push\<close>, \<open>pop\<close>, the access to
  parameters (\<open>getmathparam\<close>, \<open>setmathvar\<close>, \<open>getcvar\<close>), \<open>op\<close> and \<open>bop\<close>.

  The result \<open>None\<close> stands for undefined behaviour: an index outside the stack, an
  entry that was never written, a NULL name, a member of a union read under the wrong
  tag.  The shift count is taken modulo 64, as the shift instructions of 64-bit
  machines do; signed arithmetic wraps.
\<close>

definition STACKSZ :: int where
  "STACKSZ = 100"

definition slot_at :: "('d, 'v, 'e) mst \<Rightarrow> int \<Rightarrow> ('d, 'v) slot option" where
  "slot_at st i = (if 0 \<le> i \<and> i < STACKSZ then stk st ! nat i else None)"

definition set_slot :: "int \<Rightarrow> ('d, 'v) slot \<Rightarrow> ('d, 'v, 'e) mst \<Rightarrow> ('d, 'v, 'e) mst" where
  "set_slot i mv st = st\<lparr>stk := (stk st)[nat i := Some mv]\<rparr>"

definition is_unset :: "'d mnumber \<Rightarrow> bool" where
  "is_unset a \<longleftrightarrow> (case a of MN_UNSET \<Rightarrow> True | _ \<Rightarrow> False)"

section \<open>Parameters\<close>

definition force_float :: "('d, 'v, 'e) mshell \<Rightarrow> ('d, 'e) mglob \<Rightarrow> 'd mnumber \<Rightarrow> 'd mnumber" where
  "force_float P g r =
     (case r of MN_INTEGER l \<Rightarrow> if FORCEFLOAT (opts g) then MN_FLOAT (d_of P l) else r | _ \<Rightarrow> r)"

definition getmathparam ::
  "('d, 'v, 'e) mshell \<Rightarrow> ('d, 'v) slot \<Rightarrow> ('d, 'e) mglob
     \<Rightarrow> ('d mnumber \<times> ('d, 'v) slot \<times> ('d, 'e) mglob) option" where
  "getmathparam P mv g =
     (let result = (\<lambda>v mv g. let (r, g1) = getnumvalue P v g in Some (force_float P g1 r, mv, g1))
      in case pval mv of
        Some v \<Rightarrow> result v mv g
      | None \<Rightarrow>
          do { s \<leftarrow> lval mv;
               case getvalue P s g of
                 (None, g1) \<Rightarrow>
                   let g2 = (if \<not> UNSET (opts g1) then zerr (Parameter_not_set s) g1 else g1)
                   in Some (if FORCEFLOAT (opts g2) then MN_FLOAT (d_zero P) else zero_mnumber,
                            mv, g2)
               | (Some v, g1) \<Rightarrow>
                   if errflag g1 then Some (zero_mnumber, mv\<lparr>pval := Some v\<rparr>, g1)
                   else result v (mv\<lparr>pval := Some v\<rparr>) g1 })"

text \<open>\<open>if (stack[i].val.type == MN_UNSET) stack[i].val = getmathparam (stack + i)\<close>.\<close>

definition load_slot ::
  "('d, 'v, 'e) mshell \<Rightarrow> int \<Rightarrow> ('d, 'v, 'e) mst \<Rightarrow> ('d, 'v, 'e) mst option" where
  "load_slot P i st =
     do { mv \<leftarrow> slot_at st i;
          if is_unset (sval mv)
          then do { (r, mv', g) \<leftarrow> getmathparam P mv (gl st);
                    Some (set_slot i (mv'\<lparr>sval := r\<rparr>) (st\<lparr>gl := g\<rparr>)) }
          else Some st }"

definition push ::
  "'d mnumber \<Rightarrow> string option \<Rightarrow> bool \<Rightarrow> ('d, 'v, 'e) mst \<Rightarrow> ('d, 'v, 'e) mst option" where
  "push v lv getme st =
     (let st1 = (if sp st = STACKSZ - 1 then merr Stack_overflow st else st\<lparr>sp := sp st + 1\<rparr>)
      in if 0 \<le> sp st1 \<and> sp st1 < STACKSZ
         then Some (set_slot (sp st1)
                \<lparr>lval = lv, pval = None, sval = if getme then MN_UNSET else v\<rparr> st1)
         else None)"

definition pop ::
  "('d, 'v, 'e) mshell \<Rightarrow> bool \<Rightarrow> ('d, 'v, 'e) mst \<Rightarrow> ('d mnumber \<times> ('d, 'v, 'e) mst) option" where
  "pop P noget st =
     do { st1 \<leftarrow> (if noget then Some st else load_slot P (sp st) st);
          mv \<leftarrow> slot_at st1 (sp st1);
          let st2 = st1\<lparr>sp := sp st1 - 1\<rparr> in
          Some (if err st2 then zero_mnumber else sval mv, st2) }"

definition getcvar ::
  "('d, 'v, 'e) mshell \<Rightarrow> string \<Rightarrow> ('d, 'e) mglob \<Rightarrow> 'd mnumber \<times> ('d, 'e) mglob" where
  "getcvar P s g =
     (case getsparam P s g of
        (None, g1) \<Rightarrow> (MN_INTEGER 0, g1)
      | (Some t, g1) \<Rightarrow>
          let byte = MN_INTEGER (of_char (if pk t = Meta then xor32 (pk (tl t)) else pk t))
          in (if MULTIBYTE (opts g1)
              then case snd (mb_metacharlenconv P (opts g1) t) of
                     Some wc \<Rightarrow> MN_INTEGER (of_int wc) | None \<Rightarrow> byte
              else byte, g1))"

text \<open>The number with the type of the parameter it was assigned to.\<close>

definition as_param :: "('d, 'v, 'e) mshell \<Rightarrow> pmtype option \<Rightarrow> 'd mnumber \<Rightarrow> 'd mnumber" where
  "as_param P pm v =
     (case (pm, v) of
        (Some PM_INTEGER, MN_FLOAT d) \<Rightarrow> MN_INTEGER (d_to P d)
      | (Some PM_FLOAT, MN_INTEGER l) \<Rightarrow> MN_FLOAT (d_of P l)
      | _ \<Rightarrow> v)"

definition setmathvar_new ::
  "('d, 'v, 'e) mshell \<Rightarrow> int \<Rightarrow> ('d, 'v) slot \<Rightarrow> 'd mnumber \<Rightarrow> ('d, 'e) mglob
     \<Rightarrow> 'd mnumber \<times> ('d, 'v) slot \<times> ('d, 'e) mglob" where
  "setmathvar_new P ne mv v g =
     (case lval mv of
        None \<Rightarrow> (MN_INTEGER 0, mv, zerr Lvalue_required g)
      | Some s \<Rightarrow>
          if ne \<noteq> 0 then (v, mv, g)
          else let (pm, g1) = setnparam P (untokenize s) v g
               in (as_param P pm v, mv\<lparr>lval := Some (untokenize s)\<rparr>, g1))"

definition setmathvar ::
  "('d, 'v, 'e) mshell \<Rightarrow> int \<Rightarrow> ('d, 'v) slot \<Rightarrow> 'd mnumber \<Rightarrow> ('d, 'e) mglob
     \<Rightarrow> ('d mnumber \<times> ('d, 'v) slot \<times> ('d, 'e) mglob) option" where
  "setmathvar P ne mv v g =
     (case pval mv of
        Some pv \<Rightarrow>
          do { s \<leftarrow> lval mv;
               if same_param P (takeWhile (\<lambda>c. c \<noteq> CHR ''['') s) pv g
               then Some (v, mv, if ne \<noteq> 0 then g else setnumvalue P pv v g)
               else Some (setmathvar_new P ne (mv\<lparr>pval := None\<rparr>) v g) }
      | None \<Rightarrow> Some (setmathvar_new P ne mv v g))"

section \<open>Arithmetic\<close>

definition notzero :: "'d mnumber \<Rightarrow> bool" where
  "notzero a \<longleftrightarrow> (case a of MN_INTEGER l \<Rightarrow> l \<noteq> 0 | _ \<Rightarrow> True)"

definition to_integer :: "('d, 'v, 'e) mshell \<Rightarrow> 'd mnumber \<Rightarrow> 'd mnumber" where
  "to_integer P a = (case a of MN_FLOAT d \<Rightarrow> MN_INTEGER (d_to P d) | _ \<Rightarrow> a)"

definition to_float :: "('d, 'v, 'e) mshell \<Rightarrow> 'd mnumber \<Rightarrow> 'd mnumber" where
  "to_float P a = (case a of MN_INTEGER l \<Rightarrow> MN_FLOAT (d_of P l) | _ \<Rightarrow> a)"

definition same_type :: "'d mnumber \<Rightarrow> 'd mnumber \<Rightarrow> bool" where
  "same_type a b \<longleftrightarrow>
     (case (a, b) of (MN_INTEGER _, MN_INTEGER _) \<Rightarrow> True | (MN_FLOAT _, MN_FLOAT _) \<Rightarrow> True
      | (MN_UNSET, MN_UNSET) \<Rightarrow> True | _ \<Rightarrow> False)"

definition coerce_args ::
  "('d, 'v, 'e) mshell \<Rightarrow> token \<Rightarrow> 'd mnumber \<Rightarrow> 'd mnumber \<Rightarrow> 'd mnumber \<times> 'd mnumber" where
  "coerce_args P what a b =
     (if tok_has what (OP_A2IO OR OP_E2IO) then (to_integer P a, to_integer P b)
      else if \<not> same_type a b \<and> what \<noteq> T_COMMA \<and> (\<not> is_unset a \<or> what \<noteq> T_EQ)
      then (to_float P a, to_float P b)
      else (a, b))"

definition zbool :: "bool \<Rightarrow> zlong" where
  "zbool p = (if p then 1 else 0)"

text \<open>\<open>for (c = 1; b--; c *= a)\<close>.\<close>

primrec ipow :: "zlong \<Rightarrow> nat \<Rightarrow> zlong \<Rightarrow> zlong" where
  "ipow a 0 c = c"
| "ipow a (Suc n) c = ipow a n (c * a)"

definition bit_logic :: "token \<Rightarrow> zlong \<Rightarrow> zlong \<Rightarrow> zlong option" where
  "bit_logic what x y =
     (if what = T_AND \<or> what = T_ANDEQ then Some (x AND y)
      else if what = T_XOR \<or> what = T_XOREQ then Some (x XOR y)
      else if what = T_OR \<or> what = T_OREQ then Some (x OR y)
      else if what = T_SHLEFT \<or> what = T_SHLEFTEQ then Some (push_bit (unat (y AND 63)) x)
      else if what = T_SHRIGHT \<or> what = T_SHRIGHTEQ
      then Some (signed_drop_bit (unat (y AND 63)) x)
      else if what = T_DAND \<or> what = T_DANDEQ then Some (zbool (x \<noteq> 0 \<and> y \<noteq> 0))
      else if what = T_DOR \<or> what = T_DOREQ then Some (zbool (x \<noteq> 0 \<or> y \<noteq> 0))
      else if what = T_DXOR \<or> what = T_DXOREQ
      then Some (zbool ((x \<noteq> 0 \<and> y = 0) \<or> (x = 0 \<and> y \<noteq> 0)))
      else None)"

definition c_div :: "zlong \<Rightarrow> zlong \<Rightarrow> zlong" where
  "c_div x y = word_of_int (sint x sdiv sint y)"

definition c_mod :: "zlong \<Rightarrow> zlong \<Rightarrow> zlong" where
  "c_mod x y = word_of_int (sint x smod sint y)"

definition pow_float ::
  "('d, 'v, 'e) mshell \<Rightarrow> 'd \<Rightarrow> 'd \<Rightarrow> mmsg + 'd mnumber" where
  "pow_float P x y =
     (if d_le P y (d_zero P) \<and> \<not> notzero (MN_FLOAT x) then Inl Division_by_zero
      else if d_lt P x (d_zero P) \<and> \<not> d_eq P (d_of P (d_to P y)) y then Inl Imaginary_power
      else Inr (MN_FLOAT (d_pow P x y)))"

definition int_arith ::
  "('d, 'v, 'e) mshell \<Rightarrow> token \<Rightarrow> zlong \<Rightarrow> zlong \<Rightarrow> (mmsg + 'd mnumber) option" where
  "int_arith P what x y =
     (let int = (\<lambda>v. Some (Inr (MN_INTEGER v)))
      in if what = T_MUL \<or> what = T_MULEQ then int (x * y)
      else if what = T_DIV \<or> what = T_DIVEQ
      then (if \<not> notzero (MN_INTEGER y :: 'd mnumber) then Some (Inl Division_by_zero)
            else if y = -1 then int (- x) else int (c_div x y))
      else if what = T_MOD \<or> what = T_MODEQ
      then (if \<not> notzero (MN_INTEGER y :: 'd mnumber) then Some (Inl Division_by_zero)
            else if y = -1 then int 0 else int (c_mod x y))
      else if what = T_PLUS \<or> what = T_PLUSEQ then int (x + y)
      else if what = T_MINUS \<or> what = T_MINUSEQ then int (x - y)
      else if what = T_LES then int (zbool (x <s y))
      else if what = T_LEQ then int (zbool (x \<le>s y))
      else if what = T_GRE then int (zbool (y <s x))
      else if what = T_GEQ then int (zbool (y \<le>s x))
      else if what = T_DEQ then int (zbool (x = y))
      else if what = T_NEQ then int (zbool (x \<noteq> y))
      else if what = T_POWER \<or> what = T_POWEREQ
      then (if y <s 0 then Some (pow_float P (d_of P x) (d_of P y)) else int (ipow x (unat y) 1))
      else do { v \<leftarrow> bit_logic what x y; int v })"

definition float_arith ::
  "('d, 'v, 'e) mshell \<Rightarrow> token \<Rightarrow> 'd \<Rightarrow> 'd \<Rightarrow> (mmsg + 'd mnumber) option" where
  "float_arith P what x y =
     (let int = (\<lambda>p. Some (Inr (MN_INTEGER (zbool p)))); flt = (\<lambda>v. Some (Inr (MN_FLOAT v)))
      in if what = T_MUL \<or> what = T_MULEQ then flt (d_mul P x y)
      else if what = T_DIV \<or> what = T_DIVEQ then flt (d_div P x y)
      else if what = T_MOD \<or> what = T_MODEQ then flt (d_fmod P x y)
      else if what = T_PLUS \<or> what = T_PLUSEQ then flt (d_add P x y)
      else if what = T_MINUS \<or> what = T_MINUSEQ then flt (d_sub P x y)
      else if what = T_LES then int (d_lt P x y)
      else if what = T_LEQ then int (d_le P x y)
      else if what = T_GRE then int (d_lt P y x)
      else if what = T_GEQ then int (d_le P y x)
      else if what = T_DEQ then int (d_eq P x y)
      else if what = T_NEQ then int (\<not> d_eq P x y)
      else if what = T_POWER \<or> what = T_POWEREQ then Some (pow_float P x y)
      else None)"

definition arith ::
  "('d, 'v, 'e) mshell \<Rightarrow> token \<Rightarrow> 'd mnumber \<Rightarrow> 'd mnumber \<Rightarrow> (mmsg + 'd mnumber) option" where
  "arith P what a b =
     (if what = T_COMMA \<or> what = T_EQ then Some (Inr b)
      else case (a, b) of
        (MN_INTEGER x, MN_INTEGER y) \<Rightarrow> int_arith P what x y
      | (MN_FLOAT x, MN_FLOAT y) \<Rightarrow> float_arith P what x y
      | _ \<Rightarrow> None)"

section \<open>Operators on the stack\<close>

definition op_store ::
  "('d, 'v, 'e) mshell \<Rightarrow> token \<Rightarrow> 'd mnumber \<Rightarrow> ('d, 'v, 'e) mst \<Rightarrow> ('d, 'v, 'e) mst option" where
  "op_store P what c st =
     (if tok_has what (OP_E2 OR OP_E2IO)
      then do { mv \<leftarrow> slot_at st (sp st + 1);
                (c', mv', g) \<leftarrow> setmathvar P (noeval st) mv c (gl st);
                push c' (lval mv') False (set_slot (sp st + 1) mv' (st\<lparr>gl := g\<rparr>)) }
      else push c None False st)"

definition op_binary ::
  "('d, 'v, 'e) mshell \<Rightarrow> token \<Rightarrow> ('d, 'v, 'e) mst \<Rightarrow> ('d, 'v, 'e) mst option" where
  "op_binary P what st =
     do { (b, st1) \<leftarrow> pop P False st;
          (a, st2) \<leftarrow> pop P (what = T_EQ) st1;
          if err st2 then Some st2
          else let (a', b') = coerce_args P what a b in
            if noeval st2 \<noteq> 0 then op_store P what (MN_INTEGER 0) st2
            else do { r \<leftarrow> arith P what a' b';
                      case r of Inl m \<Rightarrow> Some (merr m st2) | Inr c \<Rightarrow> op_store P what c st2 } }"

definition num_not :: "('d, 'v, 'e) mshell \<Rightarrow> 'd mnumber \<Rightarrow> 'd mnumber" where
  "num_not P a = (case a of MN_FLOAT d \<Rightarrow> MN_INTEGER (zbool (d_eq P d (d_zero P)))
     | MN_INTEGER l \<Rightarrow> MN_INTEGER (zbool (l = 0)) | MN_UNSET \<Rightarrow> MN_UNSET)"

definition num_comp :: "('d, 'v, 'e) mshell \<Rightarrow> 'd mnumber \<Rightarrow> 'd mnumber" where
  "num_comp P a = (case a of MN_FLOAT d \<Rightarrow> MN_INTEGER (NOT (d_to P d))
     | MN_INTEGER l \<Rightarrow> MN_INTEGER (NOT l) | MN_UNSET \<Rightarrow> MN_UNSET)"

definition num_inc :: "('d, 'v, 'e) mshell \<Rightarrow> 'd mnumber \<Rightarrow> 'd mnumber" where
  "num_inc P a = (case a of MN_FLOAT d \<Rightarrow> MN_FLOAT (d_add P d (d_one P))
     | MN_INTEGER l \<Rightarrow> MN_INTEGER (l + 1) | MN_UNSET \<Rightarrow> MN_UNSET)"

definition num_dec :: "('d, 'v, 'e) mshell \<Rightarrow> 'd mnumber \<Rightarrow> 'd mnumber" where
  "num_dec P a = (case a of MN_FLOAT d \<Rightarrow> MN_FLOAT (d_sub P d (d_one P))
     | MN_INTEGER l \<Rightarrow> MN_INTEGER (l - 1) | MN_UNSET \<Rightarrow> MN_UNSET)"

definition truthy :: "('d, 'v, 'e) mshell \<Rightarrow> 'd mnumber \<Rightarrow> bool" where
  "truthy P a = (case a of MN_FLOAT d \<Rightarrow> \<not> d_eq P d (d_zero P) | MN_INTEGER l \<Rightarrow> l \<noteq> 0
     | MN_UNSET \<Rightarrow> False)"

text \<open>The top of the stack keeps its value and loses its name.\<close>

definition drop_lval :: "('d, 'v, 'e) mst \<Rightarrow> ('d, 'v, 'e) mst option" where
  "drop_lval st =
     do { mv \<leftarrow> slot_at st (sp st); Some (set_slot (sp st) (mv\<lparr>lval := None, pval := None\<rparr>) st) }"

text \<open>\<open>x++\<close> and \<open>x--\<close> (\<open>post\<close>), \<open>++x\<close> and \<open>--x\<close>.\<close>

definition op_step ::
  "('d, 'v, 'e) mshell \<Rightarrow> bool \<Rightarrow> 'd mnumber \<Rightarrow> ('d, 'v, 'e) mst \<Rightarrow> ('d, 'v, 'e) mst option" where
  "op_step P post a st =
     do { mv0 \<leftarrow> slot_at st (sp st);
          let mv = (if post then mv0 else mv0\<lparr>sval := a\<rparr>) in
          do { (_, mv', g) \<leftarrow> setmathvar P (noeval st) mv a (gl st);
               drop_lval (set_slot (sp st) mv' (st\<lparr>gl := g\<rparr>)) } }"

definition op_quest ::
  "('d, 'v, 'e) mshell \<Rightarrow> ('d, 'v, 'e) mst \<Rightarrow> ('d, 'v, 'e) mst option" where
  "op_quest P st =
     do { (c, st1) \<leftarrow> pop P False st;
          (b, st2) \<leftarrow> pop P False st1;
          (a, st3) \<leftarrow> pop P False st2;
          if err st3 then Some st3
          else do { st4 \<leftarrow> push (if truthy P a then b else c) None False st3; drop_lval st4 } }"

definition op_unary ::
  "('d, 'v, 'e) mshell \<Rightarrow> token \<Rightarrow> ('d, 'v, 'e) mst \<Rightarrow> ('d, 'v, 'e) mst option" where
  "op_unary P what st =
     do { st1 \<leftarrow> load_slot P (sp st) st;
          if err st1 then Some st1
          else do { mv \<leftarrow> slot_at st1 (sp st1);
            let v = sval mv; upd = (\<lambda>v. drop_lval (set_slot (sp st1) (mv\<lparr>sval := v\<rparr>) st1)) in
            if what = T_NOT then upd (num_not P v)
            else if what = T_COMP then upd (num_comp P v)
            else if what = T_POSTPLUS then op_step P True (num_inc P v) st1
            else if what = T_POSTMINUS then op_step P True (num_dec P v) st1
            else if what = T_UPLUS then drop_lval st1
            else if what = T_UMINUS then upd (neg_number P v)
            else if what = T_QUEST then op_quest P st1
            else if what = T_COLON then drop_lval (merr Colon_without_quest st1)
            else if what = T_PREPLUS then op_step P False (num_inc P v) st1
            else if what = T_PREMINUS then op_step P False (num_dec P v) st1
            else Some (merr Out_of_integers st1) } }"

definition exec_op ::
  "('d, 'v, 'e) mshell \<Rightarrow> token \<Rightarrow> ('d, 'v, 'e) mst \<Rightarrow> ('d, 'v, 'e) mst option" where
  "exec_op P what st =
     (if err st then Some st
      else if sp st < 0 then Some (merr Stack_empty st)
      else if tok_has what (OP_A2 OR OP_A2IR OR OP_A2IO OR OP_E2 OR OP_E2IO)
      then op_binary P what st
      else op_unary P what st)"

text \<open>The short-circuiting operators; the value is tested as an \<open>int\<close>.\<close>

definition zlong_of :: "('d, 'v, 'e) mshell \<Rightarrow> 'd mnumber \<Rightarrow> zlong" where
  "zlong_of P a = (case a of MN_FLOAT d \<Rightarrow> d_to P d | MN_INTEGER l \<Rightarrow> l | MN_UNSET \<Rightarrow> 0)"

definition bop ::
  "('d, 'v, 'e) mshell \<Rightarrow> token \<Rightarrow> ('d, 'v, 'e) mst \<Rightarrow> ('d, 'v, 'e) mst option" where
  "bop P tk st =
     do { st1 \<leftarrow> load_slot P (sp st) st;
          mv \<leftarrow> slot_at st1 (sp st1);
          let tst = c_int (zlong_of P (sval mv)) in
          Some (if (tk = T_DAND \<or> tk = T_DANDEQ) \<and> tst = 0
                   \<or> (tk = T_DOR \<or> tk = T_DOREQ) \<and> tst \<noteq> 0
                then st1\<lparr>noeval := noeval st1 + 1\<rparr> else st1) }"

end
