(* ===== verification/Math_Arith.thy ===== *)
theory Math_Arith
  imports Math_Expr Math_Ops
begin

text \<open>
  The operators of \<open>Src/math.c\<close> on 64-bit integers compute the values of the reference
  semantics in \<open>Math_Expr\<close>.
\<close>

lemma word_of_int_ops:
  "(word_of_int x :: 64 word) AND word_of_int y = word_of_int (x AND y)"
  "(word_of_int x :: 64 word) OR word_of_int y = word_of_int (x OR y)"
  "(word_of_int x :: 64 word) XOR word_of_int y = word_of_int (x XOR y)"
  "NOT (word_of_int x :: 64 word) = word_of_int (NOT x)"
  by (simp_all add: of_int_and_eq of_int_or_eq of_int_xor_eq of_int_not_eq)

lemma ipow_eq: "ipow a n c = c * a ^ n"
  by (induction n arbitrary: c) (simp_all add: algebra_simps)

lemma word_le_iff:
  assumes "in_range x" "in_range y"
  shows "(word_of_int x :: 64 word) <s word_of_int y \<longleftrightarrow> x < y"
    and "(word_of_int x :: 64 word) \<le>s word_of_int y \<longleftrightarrow> x \<le> y"
  using assms by (simp_all add: word_sless_alt word_sle_eq)

lemma zbool_word: "zbool p = word_of_int (of_bool p)"
  by (simp add: zbool_def)

lemma shift_count:
  assumes "0 \<le> y" "y < 64"
  shows "unat ((word_of_int y :: 64 word) AND 63) = nat y"
proof -
  have "uint (word_of_int y :: 64 word) = y"
    using assms by (simp add: unsigned_of_int take_bit_int_eq_self)
  moreover have "y AND 63 = y"
  proof -
    have "y AND 63 = take_bit 6 y" by (simp add: take_bit_eq_mask mask_eq_exp_minus_1)
    then show ?thesis using assms by (simp add: take_bit_int_eq_self)
  qed
  ultimately show ?thesis by (simp add: unsigned_and_eq unat_eq_nat_uint)
qed

lemma unat_nonneg: "in_range y \<Longrightarrow> 0 \<le> y \<Longrightarrow> unat (word_of_int y :: 64 word) = nat y"
  by (simp add: unat_eq_nat_uint unsigned_of_int take_bit_int_eq_self in_range_def)

lemma int_arith_val:
  assumes x: "in_range x" and y: "in_range y" and b: "b \<noteq> Bcomma" and v: "binop_val b x y = Some v"
  shows "int_arith P (binop_tok b) (word_of_int x) (word_of_int y) = Some (Inr (MN_INTEGER (word_of_int v)))"
proof -
  have z: "(word_of_int y :: 64 word) = 0 \<longleftrightarrow> y = 0" "(word_of_int y :: 64 word) = -1 \<longleftrightarrow> y = -1"
    "(word_of_int x :: 64 word) = 0 \<longleftrightarrow> x = 0" "(word_of_int x :: 64 word) = word_of_int y \<longleftrightarrow> x = y"
    using word_inj [OF y, of 0] word_inj [OF y, of "-1"] word_inj [OF x, of 0] word_inj [OF x y]
    by (simp_all add: in_range_def)
  note s = sint_in_range [OF x] sint_in_range [OF y]
  note d = int_arith_def bit_logic_def Let_def zbool_word z
  show ?thesis
  proof (cases b)
    case Bpow
    then have n: "0 \<le> y" and v: "v = wrap (x ^ nat y)" using v by (auto split: if_splits)
    have "\<not> (word_of_int y :: 64 word) <s 0" using n s by (simp add: word_sless_alt)
    then show ?thesis using Bpow unat_nonneg [OF y n] by (simp add: d v ipow_eq)
  next
    case Bshl
    then have n: "0 \<le> y" "y < 64" and v: "v = wrap (push_bit (nat y) x)" using v by (auto split: if_splits)
    show ?thesis using Bshl shift_count [OF n] by (simp add: d v push_bit_eq_mult)
  next
    case Bshr
    then have n: "0 \<le> y" "y < 64" and v: "v = drop_bit (nat y) x" using v by (auto split: if_splits)
    have "signed_drop_bit (nat y) (word_of_int x :: 64 word) = word_of_int (drop_bit (nat y) x)"
      using sint_signed_drop_bit_eq [of "nat y" "word_of_int x :: 64 word"] s(1)
      by (metis of_int_sint scast_id)
    then show ?thesis using Bshr shift_count [OF n] by (simp add: d v)
  next
    case Bdiv
    then show ?thesis using v s by (auto simp: d notzero_def c_div_def split: if_splits)
  next
    case Bmod
    moreover have "x smod 1 = 0" using smod_int_range [of 1 x] by simp
    ultimately show ?thesis using v s by (auto simp: d notzero_def c_mod_def split: if_splits)
  next
    case Lxor
    then show ?thesis using v by (auto simp: d)
  qed (use v b in \<open>auto simp: d word_of_int_ops word_le_iff [OF x y] word_le_iff [OF y x]\<close>)
qed

lemma num_unop:
  assumes x: "in_range x"
  shows "num_not P (MN_INTEGER (word_of_int x)) = MN_INTEGER (word_of_int (unop_val Lnot x))"
    and "num_comp P (MN_INTEGER (word_of_int x)) = MN_INTEGER (word_of_int (unop_val Bnot x))"
    and "neg_number P (MN_INTEGER (word_of_int x)) = MN_INTEGER (word_of_int (unop_val Uneg x))"
  using word_inj [OF x, of 0]
  by (simp_all add: num_not_def num_comp_def neg_number_def zbool_word word_of_int_ops)

text \<open>The test of \<open>bop\<close>.\<close>

lemma c_int_0: "c_int (word_of_int x) = 0 \<longleftrightarrow> x mod 2 ^ 32 = 0"
proof -
  have "ucast (word_of_int x :: 64 word) = (word_of_int x :: 32 word)"
    by (rule bit_word_eqI) (simp add: bit_simps)
  then have "c_int (word_of_int x) = 0 \<longleftrightarrow> sint (word_of_int x :: 32 word) = 0" by (simp only: c_int_def)
  also have "\<dots> \<longleftrightarrow> (word_of_int x :: 32 word) = 0" by (rule signed_eq_0_iff)
  also have "\<dots> \<longleftrightarrow> 2 ^ LENGTH(32) dvd x" by (rule word_of_int_eq_0_iff)
  also have "\<dots> \<longleftrightarrow> x mod 2 ^ 32 = 0" by (simp add: dvd_eq_mod_eq_0)
  finally show ?thesis .
qed

lemma bop_test:
  "\<not> odd_truth b x \<Longrightarrow> b = Land \<or> b = Lor \<Longrightarrow> c_int (word_of_int x) = 0 \<longleftrightarrow> x = 0"
  by (auto simp: c_int_0)

end
