(* ===== verification/Math_Parse.thy ===== *)
theory Math_Parse
  imports Math_Ops
begin

text \<open>
  The operator-precedence parser of \<open>Src/math.c\<close>, which evaluates as it parses:
  \<open>checkunary\<close>, \<open>mathparse\<close>, the calls of mathematical functions, and the entry
  points \<open>mathevall\<close>, \<open>matheval\<close>, \<open>mathevali\<close> and \<open>mathevalarg\<close>.

  \<open>mathparse\<close> and its loop take fuel, one unit for each call and each round;
  \<open>mathevall\<close> gives twice the length of the text plus 3.  A nested evaluation
  (\<open>callmathfunc\<close>) saves and restores the statics: here it has a state of its own, and
  \<open>mathevall\<close> recurses on the levels that \<open>MAX_MLEVEL\<close> leaves.
\<close>

section \<open>Operand or operator\<close>

text \<open>The length in bytes of the first \<open>n\<close> characters.\<close>

fun mb_prefix :: "('d, 'v, 'e) mshell \<Rightarrow> mopts \<Rightarrow> nat \<Rightarrow> string \<Rightarrow> nat" where
  "mb_prefix P ops 0 s = 0"
| "mb_prefix P ops (Suc n) s =
     (if pk s = NUL then 0
      else let len = (if MULTIBYTE ops then fst (mb_metacharlenconv P ops s)
                      else if pk s = Meta then 2 else 1)
           in len + mb_prefix P ops n (drop len s))"

definition expected :: "('d, 'v, 'e) mshell \<Rightarrow> mopts \<Rightarrow> string \<Rightarrow> string \<Rightarrow> mmsg" where
  "expected P ops errtype s =
     (let m = dropWhile inblank s;
          len = mb_prefix P ops 10 m;
          over = pk (drop len m) \<noteq> NUL;
          txt = (if pk (drop len m) = Meta then take (len + 1) m else take len m)
      in if pk m = NUL then Expected_at_end errtype else Expected errtype txt over)"

definition checkunary ::
  "('d, 'v, 'e) mshell \<Rightarrow> token \<Rightarrow> string \<Rightarrow> ('d, 'v, 'e) mst \<Rightarrow> ('d, 'v, 'e) mst" where
  "checkunary P t s st =
     (let binary = tok_has t (OP_A2 OR OP_A2IR OR OP_A2IO OR OP_E2 OR OP_E2IO OR OP_OP);
          st1 = (if binary \<and> unary st then merr (expected P (opts (gl st)) ''operand'' s) st
                 else if \<not> binary \<and> \<not> unary st
                 then merr (expected P (opts (gl st)) ''operator'' s) st
                 else st)
      in st1\<lparr>unary := \<not> tok_has t OP_OPF\<rparr>)"

text \<open>\<open>optr = ptr; mtok = zzlex (); checkunary (mtok, optr)\<close>.\<close>

definition lex_check ::
  "('d, 'v, 'e) mshell \<Rightarrow> ('d, 'v, 'e) mst \<Rightarrow> ('d, 'v, 'e) mst" where
  "lex_check P st = (let (t, st1) = zzlex P st in checkunary P t (ptr st) (st1\<lparr>mtok := t\<rparr>))"

section \<open>The parser\<close>

definition add_noeval :: "bool \<Rightarrow> int \<Rightarrow> ('d, 'v, 'e) mst \<Rightarrow> ('d, 'v, 'e) mst" where
  "add_noeval p i st = (if p then st\<lparr>noeval := noeval st + i\<rparr> else st)"

text \<open>A function call, given what it does to the globals.\<close>

type_synonym ('d, 'e) caller = "string \<Rightarrow> ('d, 'e) mglob \<Rightarrow> ('d mnumber \<times> ('d, 'e) mglob) option"

text \<open>The operands: a number, a variable, the code of a character, a function call.\<close>

definition push_operand ::
  "('d, 'v, 'e) mshell \<Rightarrow> ('d, 'e) caller \<Rightarrow> ('d, 'v, 'e) mst \<Rightarrow> ('d, 'v, 'e) mst option" where
  "push_operand P cf st =
     (let t = mtok st; s = yylval st
      in if t = T_NUM then push (yyval st) None False st
         else if t = T_ID then push zero_mnumber (Some s) (noeval st = 0) st
         else if t = T_CID
         then let (v, g) = (if noeval st \<noteq> 0 then (zero_mnumber, gl st) else getcvar P s (gl st))
              in push v (Some s) False (st\<lparr>gl := g\<rparr>)
         else do { (v, g) \<leftarrow> (if noeval st \<noteq> 0 then Some (zero_mnumber, gl st) else cf s (gl st));
                   push v (Some s) False (st\<lparr>gl := g\<rparr>) })"

fun mathparse ::
  "('d, 'v, 'e) mshell \<Rightarrow> int list \<Rightarrow> ('d, 'e) caller \<Rightarrow> nat \<Rightarrow> int \<Rightarrow> ('d, 'v, 'e) mst
     \<Rightarrow> ('d, 'v, 'e) mst option"
and mathloop ::
  "('d, 'v, 'e) mshell \<Rightarrow> int list \<Rightarrow> ('d, 'e) caller \<Rightarrow> nat \<Rightarrow> int \<Rightarrow> ('d, 'v, 'e) mst
     \<Rightarrow> ('d, 'v, 'e) mst option" where
  "mathparse P pr cf 0 pc st = None"
| "mathparse P pr cf (Suc n) pc st =
     (if err st then Some st
      else let (t, st1) = zzlex P st; st2 = st1\<lparr>mtok := t\<rparr>
           in if pc = top_prec pr \<and> t = T_EOI then Some st2
              else mathloop P pr cf n pc (checkunary P t (ptr st) st2))"
| "mathloop P pr cf 0 pc st = None"
| "mathloop P pr cf (Suc n) pc st =
     (let t = mtok st
      in if pc < pr ! t then Some st
         else if err st then Some st
         else if t = T_NUM \<or> t = T_ID \<or> t = T_CID \<or> t = T_FUNC
         then do { st1 \<leftarrow> push_operand P cf st; mathloop P pr cf n pc (lex_check P st1) }
         else if t = M_INPAR
         then do { st1 \<leftarrow> mathparse P pr cf n (top_prec pr) st;
                   if mtok st1 \<noteq> M_OUTPAR
                   then Some (if err st1 then st1 else merr Paren_expected st1)
                   else mathloop P pr cf n pc (lex_check P st1) }
         else if t = T_QUEST
         then do { st1 \<leftarrow> load_slot P (sp st) st;
                   mv \<leftarrow> slot_at st1 (sp st1);
                   let q = truthy P (sval mv) in
                   do { st2 \<leftarrow> mathparse P pr cf n (pr ! T_COLON - 1) (add_noeval (\<not> q) 1 st1);
                        let st3 = add_noeval (\<not> q) (-1) st2 in
                        if mtok st3 \<noteq> T_COLON
                        then Some (if err st3 then st3 else merr Colon_expected st3)
                        else do {
                          st4 \<leftarrow> mathparse P pr cf n (pr ! T_QUEST) (add_noeval q 1 st3);
                          st5 \<leftarrow> exec_op P T_QUEST (add_noeval q (-1) st4);
                          mathloop P pr cf n pc st5 } } }
         else do { st1 \<leftarrow> (if MTYPE t = BOOL then bop P t st else Some st);
                   st2 \<leftarrow> mathparse P pr cf n (pr ! t - (if MTYPE t \<noteq> RL then 1 else 0)) st1;
                   st3 \<leftarrow> exec_op P t (st2\<lparr>noeval := noeval st\<rparr>);
                   mathloop P pr cf n pc st3 })"

section \<open>Function calls\<close>

text \<open>An evaluation of an argument: the value, the text left, the last token, the globals.\<close>

type_synonym ('d, 'e) evaluator =
  "token \<Rightarrow> string \<Rightarrow> ('d, 'e) mglob \<Rightarrow> ('d mnumber \<times> string \<times> token \<times> ('d, 'e) mglob) option"

fun math_args ::
  "('d, 'e) evaluator \<Rightarrow> nat \<Rightarrow> string \<Rightarrow> token \<Rightarrow> ('d, 'e) mglob \<Rightarrow> 'd mnumber list
     \<Rightarrow> ('d mnumber list \<times> string \<times> ('d, 'e) mglob) option" where
  "math_args ev 0 a mt g args = None"
| "math_args ev (Suc n) a mt g args =
     (if pk a = NUL then Some (args, a, g)
      else do { (v, a', mt', g') \<leftarrow> ev mt a g;
                if errflag g' \<or> mt' \<noteq> T_COMMA then Some (args @ [v], a', g')
                else math_args ev n a' mt' g' (args @ [v]) })"

definition num_str :: "('d, 'v, 'e) mshell \<Rightarrow> 'd mnumber \<Rightarrow> string" where
  "num_str P a = (case a of MN_FLOAT d \<Rightarrow> convfloat P d | MN_INTEGER l \<Rightarrow> convbase10 P l
     | MN_UNSET \<Rightarrow> '''')"

definition call_with ::
  "('d, 'v, 'e) mshell \<Rightarrow> ('d, 'e) mathfunc \<Rightarrow> string \<Rightarrow> string \<Rightarrow> 'd mnumber list \<Rightarrow> string list
     \<Rightarrow> int \<Rightarrow> string \<Rightarrow> ('d, 'e) mglob \<Rightarrow> 'd mnumber \<times> ('d, 'e) mglob" where
  "call_with P f o1 n nums strs argc rest g =
     (let g1 = (if pk rest \<noteq> NUL \<and> \<not> errflag g then zerr (Illegal_character (pk rest)) g else g)
      in if errflag g1 then (zero_mnumber, g1)
         else if minargs f \<le> argc \<and> (maxargs f < 0 \<or> argc \<le> maxargs f)
         then if MFF_USERFUNC f
              then let shfnam = (case fmodule f of Some m \<Rightarrow> m | None \<Rightarrow> n)
                   in case doshfunc P shfnam (n # strs) g1 of
                        None \<Rightarrow> (zero_mnumber, zerr (No_such_function shfnam) g1)
                      | Some g2 \<Rightarrow> (lastmathval g2, g2)
              else nfunc f n nums g1
         else (zero_mnumber, zerr (Wrong_argc o1) g1))"

definition callmathfunc ::
  "('d, 'v, 'e) mshell \<Rightarrow> ('d, 'e) evaluator \<Rightarrow> ('d, 'e) caller" where
  "callmathfunc P ev o1 g =
     (let n = takeWhile (\<lambda>c. c \<noteq> CHR ''('') o1;
          a = butlast (tl (dropWhile (\<lambda>c. c \<noteq> CHR ''('') o1))
      in case getmathfunc P n g of
           (None, g1) \<Rightarrow> Some (zero_mnumber, zerr (Unknown_function n) g1)
         | (Some f, g1) \<Rightarrow>
             if MFF_STR f \<and> \<not> MFF_USERFUNC f then Some (sfunc f n a g1)
             else if MFF_STR f then Some (call_with P f o1 n [] [a] 1 '''' g1)
             else let a1 = dropWhile iblank a in
               do { (nums, rest, g2) \<leftarrow> math_args ev (length a1 + 1) a1 T_FUNC g1 [];
                    Some (call_with P f o1 n nums (map (num_str P) nums)
                            (int (length nums)) rest g2) })"

section \<open>Evaluation\<close>

definition MAX_MLEVEL :: nat where
  "MAX_MLEVEL = 256"

definition nstack :: "('d, 'v) slot option list" where
  "nstack = Some \<lparr>lval = None, pval = None, sval = zero_mnumber\<rparr> # replicate 99 None"

definition start_state ::
  "int \<Rightarrow> token \<Rightarrow> string \<Rightarrow> ('d, 'e) mglob \<Rightarrow> ('d, 'v, 'e) mst" where
  "start_state ne mt s g =
     \<lparr>ptr = s, yyval = zero_mnumber, yylval = '''', noeval = ne, unary = True, mtok = mt,
      sp = -1, stk = nstack, gl = g\<lparr>lastbase := -1\<rparr>\<rparr>"

definition math_fuel :: "string \<Rightarrow> nat" where
  "math_fuel s = 2 * length s + 3"

text \<open>The value of a finished evaluation, at the bottom of the stack.\<close>

definition math_result ::
  "('d, 'v, 'e) mshell \<Rightarrow> ('d, 'v, 'e) mst \<Rightarrow> ('d mnumber \<times> ('d, 'e) mglob) option" where
  "math_result P st =
     (if err st then Some (MN_INTEGER 0, gl st)
      else do { mv \<leftarrow> slot_at st 0;
                if is_unset (sval mv)
                then do { (r, _, g) \<leftarrow> getmathparam P mv (gl st); Some (r, g) }
                else Some (sval mv, gl st) })"

text \<open>
  \<open>mathevall\<close> with \<open>MAX_MLEVEL - mlevel\<close> levels left; \<open>arg\<close> for \<open>MPREC_ARG\<close>.
\<close>

fun mathevall ::
  "('d, 'v, 'e) mshell \<Rightarrow> nat \<Rightarrow> bool \<Rightarrow> int \<Rightarrow> ('d, 'e) evaluator" where
  "mathevall P 0 arg ne mt s g = Some (MN_INTEGER 0, s, mt, zerr (Recursion_limit s) g)"
| "mathevall P (Suc n) arg ne mt s g =
     (let pr = (if CPRECEDENCES (opts g) then c_prec else z_prec);
          cf = callmathfunc P (mathevall P n True 0)
      in do { st1 \<leftarrow> mathparse P pr cf (math_fuel s) (if arg then arg_prec pr else top_prec pr)
                        (start_state ne mt s g);
              let st2 = (if mtok st1 = M_OUTPAR \<and> \<not> err st1 then merr Unexpected_paren st1
                         else st1) in
              do { (ret, g2) \<leftarrow> math_result P st2;
                   let g3 = (if Suc n = MAX_MLEVEL then g2 else g2\<lparr>lastbase := lastbase g\<rparr>) in
                   Some (ret, ptr st2, mtok st2, g3\<lparr>lastmathval := ret\<rparr>) } })"

definition matheval ::
  "('d, 'v, 'e) mshell \<Rightarrow> nat \<Rightarrow> int \<Rightarrow> token \<Rightarrow> string \<Rightarrow> ('d, 'e) mglob
     \<Rightarrow> ('d mnumber \<times> ('d, 'e) mglob) option" where
  "matheval P mlevel ne mt s g =
     (let g1 = (if mlevel = 0 then g\<lparr>outputradix := 0, outputunderscore := 0\<rparr> else g);
          s1 = (if pk s = Nularg then tl s else s)
      in if pk s1 = NUL then Some (MN_INTEGER 0, g1)
         else do { (x, junk, _, g2) \<leftarrow> mathevall P (MAX_MLEVEL - mlevel) False ne mt s1 g1;
                   Some (x, if pk junk \<noteq> NUL then zerr (Illegal_character (pk junk)) g2 else g2) })"

definition mathevali ::
  "('d, 'v, 'e) mshell \<Rightarrow> nat \<Rightarrow> int \<Rightarrow> token \<Rightarrow> string \<Rightarrow> ('d, 'e) mglob
     \<Rightarrow> (zlong \<times> ('d, 'e) mglob) option" where
  "mathevali P mlevel ne mt s g =
     do { (x, g1) \<leftarrow> matheval P mlevel ne mt s g; Some (zlong_of P x, g1) }"

text \<open>
  The value and the text after it; a comma that ended it is left there.  For an empty
  text \<open>*ss\<close> is not assigned.
\<close>

definition mathevalarg ::
  "('d, 'v, 'e) mshell \<Rightarrow> nat \<Rightarrow> int \<Rightarrow> token \<Rightarrow> string \<Rightarrow> ('d, 'e) mglob
     \<Rightarrow> (zlong \<times> string option \<times> ('d, 'e) mglob) option" where
  "mathevalarg P mlevel ne mt s g =
     (let s1 = (if pk s = Nularg then tl s else s)
      in if pk s1 = NUL then Some (0, None, zerr Empty_string g)
         else do { (x, ss, mt', g1) \<leftarrow> mathevall P (MAX_MLEVEL - mlevel) True ne mt s1 g;
                   Some (zlong_of P x, Some (if mt' = T_COMMA then CHR '','' # ss else ss), g1) })"

end
