(* ===== verification/Math_Safe.thy ===== *)
theory Math_Safe
  imports Math_Parse
begin

text \<open>
  The evaluator never leaves its stack, never reads an entry that was not written and
  never runs out of fuel: the invariant of the stack, what each operation does to it,
  and the induction over the parser.  The height of the stack follows the alternation of
  operands and operators that \<open>checkunary\<close> enforces.
\<close>

section \<open>The invariant\<close>

text \<open>A slot whose value is still to be fetched, or was fetched, has the name.\<close>

definition slot_ok :: "('d, 'v) slot \<Rightarrow> bool" where
  "slot_ok mv \<longleftrightarrow> (is_unset (sval mv) \<or> pval mv \<noteq> None \<longrightarrow> lval mv \<noteq> None)"

definition mwf :: "('d, 'v, 'e) mst \<Rightarrow> bool" where
  "mwf st \<longleftrightarrow>
     length (stk st) = 100 \<and> -1 \<le> sp st \<and> sp st < 100 \<and> noerrs (gl st) < 2 \<and>
     yyval st \<noteq> MN_UNSET \<and>
     (\<forall>i mv. i < 100 \<longrightarrow> stk st ! i = Some mv \<longrightarrow> slot_ok mv) \<and>
     (\<forall>i. int i \<le> max (sp st) 0 \<longrightarrow> stk st ! i \<noteq> None)"

text \<open>What the operations on the stack leave alone.\<close>

definition keeps :: "('d, 'v, 'e) mst \<Rightarrow> ('d, 'v, 'e) mst \<Rightarrow> bool" where
  "keeps st st' \<longleftrightarrow>
     ptr st' = ptr st \<and> mtok st' = mtok st \<and> unary st' = unary st \<and> noeval st' = noeval st \<and>
     steady (gl st) (gl st')"

text \<open>The entries below index \<open>k\<close> are the same.\<close>

definition same_below :: "int \<Rightarrow> ('d, 'v, 'e) mst \<Rightarrow> ('d, 'v, 'e) mst \<Rightarrow> bool" where
  "same_below k st st' \<longleftrightarrow> (\<forall>i. int i < k \<longrightarrow> stk st' ! i = stk st ! i)"

lemma keeps_refl [simp, intro]: "keeps st st"
  by (simp add: keeps_def)

lemma keeps_trans: "keeps st st' \<Longrightarrow> keeps st' st'' \<Longrightarrow> keeps st st''"
  by (auto simp: keeps_def intro: steady_trans)

lemma same_below_refl [simp, intro]: "same_below k st st"
  by (simp add: same_below_def)

lemma same_below_trans:
  "same_below k st st' \<Longrightarrow> same_below k' st' st'' \<Longrightarrow> j \<le> k \<Longrightarrow> j \<le> k' \<Longrightarrow> same_below j st st''"
  by (simp add: same_below_def)

lemma is_unset_iff [simp]: "is_unset a \<longleftrightarrow> a = MN_UNSET"
  by (simp add: is_unset_def split: mnumber.split)

lemma mwf_slot: "mwf st \<Longrightarrow> 0 \<le> i \<Longrightarrow> i \<le> sp st \<Longrightarrow> \<exists>mv. slot_at st i = Some mv \<and> slot_ok mv"
proof -
  assume m: "mwf st" and i: "0 \<le> i" "i \<le> sp st"
  then have "stk st ! nat i \<noteq> None" unfolding mwf_def by auto
  then obtain mv where mv: "stk st ! nat i = Some mv" by blast
  moreover have "nat i < 100" using m i unfolding mwf_def by linarith
  ultimately show ?thesis using m i unfolding mwf_def slot_at_def STACKSZ_def by auto
qed

lemma mwf_set_slot:
  assumes "mwf st" "slot_ok mv" "0 \<le> i" "i < 100"
  shows "mwf (set_slot i mv st)"
  using assms by (auto simp: mwf_def set_slot_def nth_list_update)

lemma set_slot_frame [simp]:
  "sp (set_slot i mv st) = sp st" "gl (set_slot i mv st) = gl st"
  "ptr (set_slot i mv st) = ptr st" "mtok (set_slot i mv st) = mtok st"
  "unary (set_slot i mv st) = unary st" "noeval (set_slot i mv st) = noeval st"
  "yyval (set_slot i mv st) = yyval st"
  by (simp_all add: set_slot_def)

lemma set_slot_keeps [simp]: "keeps st (set_slot i mv st)"
  by (simp add: keeps_def)

lemma set_slot_below: "k \<le> i \<Longrightarrow> same_below k st (set_slot i mv st)"
  by (auto simp: same_below_def set_slot_def)

lemma mwf_gl: "mwf st \<Longrightarrow> steady (gl st) g \<Longrightarrow> mwf (st\<lparr>gl := g\<rparr>)"
  by (simp add: mwf_def steady_def)

lemma keeps_gl: "steady (gl st) g \<Longrightarrow> keeps st (st\<lparr>gl := g\<rparr>)"
  by (simp add: keeps_def)

lemma merr_spec:
  "mwf st \<Longrightarrow> mwf (merr m st)" "keeps st (merr m st)" "mwf st \<Longrightarrow> err (merr m st)"
  "sp (merr m st) = sp st" "stk (merr m st) = stk st"
  by (auto simp: merr_def mwf_gl keeps_gl errflag_zerr mwf_def)

lemma noerrs_mwf: "mwf st \<Longrightarrow> noerrs (gl st) < 2"
  by (simp add: mwf_def)

section \<open>Parameters\<close>

lemma force_float_unset: "r \<noteq> MN_UNSET \<Longrightarrow> force_float P g r \<noteq> MN_UNSET"
  by (auto simp: force_float_def split: mnumber.splits)

lemma getmathparam_spec:
  assumes P: "steady_shell P" and ok: "slot_ok mv" and u: "is_unset (sval mv)"
  shows "\<exists>r mv' g'. getmathparam P mv g = Some (r, mv', g') \<and> r \<noteq> MN_UNSET \<and> steady g g' \<and>
    lval mv' = lval mv \<and> lval mv' \<noteq> None"
proof -
  have l: "lval mv \<noteq> None" using ok u by (simp add: slot_ok_def)
  then obtain s where s: "lval mv = Some s" by blast
  have n: "\<And>v g. fst (getnumvalue P v g) \<noteq> MN_UNSET \<and> steady g (snd (getnumvalue P v g))"
    using P by (simp add: steady_shell_def)
  have gv: "steady g (snd (getvalue P s g))" using P by (simp add: steady_shell_def)
  have fin: "\<exists>r g'. (let (r, g1) = getnumvalue P v g0 in Some (force_float P g1 r, mv0, g1))
      = Some (r, mv0, g') \<and> r \<noteq> MN_UNSET \<and> steady g0 g'" for v g0 and mv0 :: "('a, 'b) slot"
    using n [of v g0] by (auto simp: force_float_unset split: prod.split)
  show ?thesis
  proof (cases "pval mv")
    case (Some v)
    then show ?thesis using fin [of v g mv] l by (auto simp: getmathparam_def)
  next
    case None
    obtain o1 g1 where g1: "getvalue P s g = (o1, g1)" by fastforce
    then have st: "steady g g1" using gv by simp
    show ?thesis
    proof (cases o1)
      case None
      then show ?thesis using \<open>pval mv = None\<close> s g1 st l
        by (auto simp: getmathparam_def Let_def zero_mnumber_def intro: steady_trans)
    next
      case (Some v)
      then show ?thesis
        using \<open>pval mv = None\<close> s g1 st fin [of v g1 "mv\<lparr>pval := Some v\<rparr>"] l
        by (auto simp: getmathparam_def zero_mnumber_def intro: steady_trans)
    qed
  qed
qed

lemma setmathvar_spec:
  assumes P: "steady_shell P" and ok: "pval mv \<noteq> None \<longrightarrow> lval mv \<noteq> None" and v: "v \<noteq> MN_UNSET"
  shows "\<exists>v' mv' g'. setmathvar P ne mv v g = Some (v', mv', g') \<and> v' \<noteq> MN_UNSET \<and> steady g g' \<and>
    sval mv' = sval mv \<and> (lval mv \<noteq> None \<longrightarrow> lval mv' \<noteq> None) \<and>
    (pval mv' \<noteq> None \<longrightarrow> lval mv' \<noteq> None)"
proof -
  have sn: "\<And>s a g. steady g (snd (setnparam P s a g))" and sv: "\<And>x a g. steady g (setnumvalue P x a g)"
    using P by (simp_all add: steady_shell_def)
  have as: "as_param P pm v \<noteq> MN_UNSET" for pm
    using v by (simp add: as_param_def split: option.splits pmtype.splits mnumber.splits)
  have new: "\<exists>v' mv' g'. setmathvar_new P ne m v g = (v', mv', g') \<and> v' \<noteq> MN_UNSET \<and> steady g g' \<and>
    sval mv' = sval m \<and> (lval m \<noteq> None \<longrightarrow> lval mv' \<noteq> None) \<and> (pval mv' \<noteq> None \<longrightarrow> lval mv' \<noteq> None)"
    if "pval m \<noteq> None \<longrightarrow> lval m \<noteq> None" for m
  proof (cases "lval m")
    case None
    then show ?thesis using that by (simp add: setmathvar_new_def)
  next
    case (Some s)
    then show ?thesis using sn [of g "untokenize s" v] v as
      by (auto simp: setmathvar_new_def split: prod.split)
  qed
  show ?thesis
  proof (cases "pval mv")
    case None
    then show ?thesis using new [of mv] by (auto simp: setmathvar_def)
  next
    case (Some x)
    then show ?thesis using ok v sv new [of "mv\<lparr>pval := None\<rparr>"]
      by (auto simp: setmathvar_def)
  qed
qed

section \<open>Stack operations\<close>

lemma load_slot_spec:
  assumes P: "steady_shell P" and m: "mwf st" and i: "0 \<le> i" "i \<le> sp st"
  shows "\<exists>st' mv. load_slot P i st = Some st' \<and> mwf st' \<and> keeps st st' \<and> sp st' = sp st \<and>
    same_below i st st' \<and> slot_at st' i = Some mv \<and> slot_ok mv \<and> sval mv \<noteq> MN_UNSET"
proof -
  obtain mv where mv: "slot_at st i = Some mv" "slot_ok mv" using mwf_slot [OF m i] by blast
  have i2: "i < 100" using m i by (simp add: mwf_def)
  have len: "length (stk st) = 100" using m by (simp add: mwf_def)
  show ?thesis
  proof (cases "is_unset (sval mv)")
    case False
    then show ?thesis using mv m by (auto simp: load_slot_def)
  next
    case True
    obtain r mv' g' where g: "getmathparam P mv (gl st) = Some (r, mv', g')" "r \<noteq> MN_UNSET"
      "steady (gl st) g'" "lval mv' \<noteq> None"
      using getmathparam_spec [OF P mv(2) True] by metis
    let ?mv = "mv'\<lparr>sval := r\<rparr>" and ?st = "set_slot i (mv'\<lparr>sval := r\<rparr>) (st\<lparr>gl := g'\<rparr>)"
    have ok: "slot_ok ?mv" using g by (simp add: slot_ok_def)
    have "mwf ?st" by (rule mwf_set_slot [OF mwf_gl [OF m g(3)] ok i(1) i2])
    moreover have "keeps st ?st" using keeps_gl [OF g(3)] keeps_trans set_slot_keeps by blast
    moreover have "same_below i st ?st" using i by (auto simp: same_below_def set_slot_def)
    moreover have "slot_at ?st i = Some ?mv"
      using i i2 len by (simp add: slot_at_def set_slot_def STACKSZ_def)
    ultimately show ?thesis using mv True g ok by (auto simp: load_slot_def)
  qed
qed

lemma push_spec:
  assumes m: "mwf st" and ok: "v \<noteq> MN_UNSET" "getme \<longrightarrow> lv \<noteq> None"
  shows "\<exists>st'. push v lv getme st = Some st' \<and> mwf st' \<and> keeps st st' \<and>
    (err st' \<or> (sp st' = sp st + 1 \<and> same_below (sp st + 1) st st'))"
proof -
  let ?mv = "\<lparr>lval = lv, pval = None, sval = if getme then MN_UNSET else v\<rparr>"
  have sok: "slot_ok ?mv" using ok by (simp add: slot_ok_def)
  show ?thesis
  proof (cases "sp st = 99")
    case True
    have "mwf (set_slot 99 ?mv (merr Stack_overflow st))"
      by (rule mwf_set_slot [OF merr_spec(1) [OF m] sok]) simp_all
    moreover have "keeps st (set_slot 99 ?mv (merr Stack_overflow st))"
      using keeps_trans merr_spec(2) set_slot_keeps by blast
    moreover have "err (set_slot 99 ?mv (merr Stack_overflow st))"
      using merr_spec(3) [OF m] by simp
    ultimately show ?thesis using True by (simp add: push_def Let_def STACKSZ_def merr_spec(4))
  next
    case False
    then have b: "0 \<le> sp st + 1" "sp st + 1 < 100" using m unfolding mwf_def by linarith+
    let ?st = "set_slot (sp st + 1) ?mv (st\<lparr>sp := sp st + 1\<rparr>)"
    have "mwf ?st"
      unfolding mwf_def
    proof (intro conjI allI impI)
      fix i assume i: "int i \<le> max (sp ?st) 0"
      have len: "length (stk st) = 100" using m by (simp add: mwf_def)
      show "stk ?st ! i \<noteq> None"
      proof (cases "int i = sp st + 1")
        case True
        then have "nat (sp st + 1) = i" by linarith
        then show ?thesis using b len by (simp add: set_slot_def)
      next
        case ne: False
        then have "int i \<le> max (sp st) 0" using i b by auto
        then have "stk st ! i \<noteq> None" using m by (simp add: mwf_def)
        moreover have "nat (sp st + 1) \<noteq> i" using ne b by linarith
        ultimately show ?thesis by (simp add: set_slot_def)
      qed
    qed (use m sok b in \<open>auto simp: mwf_def set_slot_def nth_list_update split: if_splits\<close>)
    moreover have "keeps st ?st" by (simp add: keeps_def)
    moreover have "same_below (sp st + 1) st ?st" by (auto simp: same_below_def set_slot_def)
    ultimately show ?thesis using False b by (simp add: push_def Let_def STACKSZ_def)
  qed
qed

lemma mwf_pop: "mwf st \<Longrightarrow> 0 \<le> sp st \<Longrightarrow> mwf (st\<lparr>sp := sp st - 1\<rparr>)"
  by (auto simp: mwf_def)

lemma pop_spec:
  assumes P: "steady_shell P" and m: "mwf st" and s: "0 \<le> sp st"
  shows "\<exists>v st' mv. pop P noget st = Some (v, st') \<and> mwf st' \<and> keeps st st' \<and> sp st' = sp st - 1 \<and>
    same_below (sp st) st st' \<and> (noget \<or> v \<noteq> MN_UNSET) \<and>
    slot_at st' (sp st) = Some mv \<and> slot_ok mv"
proof -
  obtain st1 mv where st1: "(if noget then Some st else load_slot P (sp st) st) = Some st1"
    "mwf st1" "keeps st st1" "sp st1 = sp st" "same_below (sp st) st st1"
    "slot_at st1 (sp st) = Some mv" "slot_ok mv" "noget \<or> sval mv \<noteq> MN_UNSET"
  proof (cases noget)
    case True
    then show ?thesis using that [of st] mwf_slot [OF m s] m by auto
  next
    case False
    then show ?thesis using that load_slot_spec [OF P m s] by auto
  qed
  let ?st = "st1\<lparr>sp := sp st1 - 1\<rparr>"
  have "mwf ?st" using mwf_pop [OF st1(2)] st1(4) s by simp
  moreover have "keeps st ?st" using st1(3) by (simp add: keeps_def)
  moreover have "same_below (sp st) st ?st" using st1(5) by (simp add: same_below_def)
  moreover have "slot_at ?st (sp st) = Some mv" using st1(6) by (simp add: slot_at_def split: if_splits)
  moreover have "pop P noget st = Some (if err ?st then zero_mnumber else sval mv, ?st)"
    using st1 unfolding pop_def Let_def by simp
  ultimately show ?thesis using st1 by (auto simp: zero_mnumber_def)
qed

lemma drop_lval_spec:
  assumes m: "mwf st" and s: "0 \<le> sp st"
    and u: "\<And>mv. slot_at st (sp st) = Some mv \<Longrightarrow> sval mv \<noteq> MN_UNSET"
  shows "\<exists>st'. drop_lval st = Some st' \<and> mwf st' \<and> keeps st st' \<and> sp st' = sp st \<and>
    same_below (sp st) st st'"
proof -
  obtain mv where mv: "slot_at st (sp st) = Some mv" "slot_ok mv" using mwf_slot [OF m s] by blast
  have "sp st < 100" using m by (simp add: mwf_def)
  then have "mwf (set_slot (sp st) (mv\<lparr>lval := None, pval := None\<rparr>) st)"
    using mwf_set_slot [OF m _ s] u [OF mv(1)] by (simp add: slot_ok_def)
  then show ?thesis using mv set_slot_below by (auto simp: drop_lval_def)
qed

lemma slot_at_set [simp]:
  "length (stk st) = 100 \<Longrightarrow> 0 \<le> i \<Longrightarrow> i < 100 \<Longrightarrow> slot_at (set_slot i mv st) i = Some mv"
  by (simp add: slot_at_def set_slot_def STACKSZ_def)

lemma mwf_len: "mwf st \<Longrightarrow> length (stk st) = 100" "mwf st \<Longrightarrow> sp st < 100"
  by (simp_all add: mwf_def)

text \<open>A value is put into the top slot and the slot loses its name.\<close>

lemma put_spec:
  assumes m: "mwf st" and s: "0 \<le> sp st" and v: "v \<noteq> MN_UNSET"
  shows "\<exists>st'. drop_lval (set_slot (sp st) (mv\<lparr>sval := v\<rparr>) st) = Some st' \<and> mwf st' \<and>
    keeps st st' \<and> sp st' = sp st \<and> same_below (sp st) st st'"
proof -
  let ?mv = "mv\<lparr>sval := v, lval := None, pval := None\<rparr>"
  have b: "sp st < 100" "length (stk st) = 100" using mwf_len [OF m] by auto
  have "drop_lval (set_slot (sp st) (mv\<lparr>sval := v\<rparr>) st) = Some (set_slot (sp st) ?mv st)"
    using b s by (simp add: drop_lval_def) (simp add: set_slot_def)
  moreover have "mwf (set_slot (sp st) ?mv st)"
    by (rule mwf_set_slot [OF m _ s b(1)]) (simp add: slot_ok_def v)
  ultimately show ?thesis using set_slot_below [of "sp st" "sp st" st ?mv] by auto
qed

section \<open>Operators\<close>

lemma op_store_spec:
  assumes P: "steady_shell P" and m: "mwf st" and c: "c \<noteq> MN_UNSET"
    and mv: "slot_at st (sp st + 1) = Some mv" "slot_ok mv"
  shows "\<exists>st'. op_store P what c st = Some st' \<and> mwf st' \<and> keeps st st' \<and>
    (err st' \<or> (sp st' = sp st + 1 \<and> same_below (sp st + 1) st st'))"
proof (cases "tok_has what (OP_E2 OR OP_E2IO)")
  case False
  then show ?thesis using push_spec [OF m c, of False None] by (simp add: op_store_def)
next
  case True
  obtain c' mv' g' where sm: "setmathvar P (noeval st) mv c (gl st) = Some (c', mv', g')"
    "c' \<noteq> MN_UNSET" "steady (gl st) g'" "sval mv' = sval mv"
    "lval mv \<noteq> None \<longrightarrow> lval mv' \<noteq> None" "pval mv' \<noteq> None \<longrightarrow> lval mv' \<noteq> None"
    using setmathvar_spec [OF P _ c, of mv "noeval st" "gl st"] mv(2) unfolding slot_ok_def by auto
  have b: "0 \<le> sp st + 1" "sp st + 1 < 100"
    using mv(1) by (auto simp: slot_at_def STACKSZ_def split: if_splits)
  let ?st = "set_slot (sp st + 1) mv' (st\<lparr>gl := g'\<rparr>)"
  have w: "mwf ?st"
    by (rule mwf_set_slot [OF mwf_gl [OF m sm(3)] _ b]) (use sm mv in \<open>auto simp: slot_ok_def\<close>)
  have k: "keeps st ?st" using keeps_gl [OF sm(3)] keeps_trans set_slot_keeps by blast
  have sb: "same_below (sp st + 1) st ?st" by (auto simp: same_below_def set_slot_def)
  obtain st' where st': "push c' (lval mv') False ?st = Some st'" "mwf st'" "keeps ?st st'"
    "err st' \<or> (sp st' = sp st + 1 \<and> same_below (sp st + 1) ?st st')"
    using push_spec [OF w sm(2), of False "lval mv'"] by auto
  have "same_below (sp st + 1) st st'" if "same_below (sp st + 1) ?st st'"
    using same_below_trans [OF sb that] by simp
  then show ?thesis using True mv(1) sm(1) st' keeps_trans [OF k st'(3)]
    by (auto simp: op_store_def)
qed

section \<open>The tables\<close>

abbreviation op2tok :: "token \<Rightarrow> bool" where
  "op2tok t \<equiv> tok_has t (OP_A2 OR OP_A2IR OR OP_A2IO OR OP_E2 OR OP_E2IO)"

text \<open>Where an operator is expected.\<close>

definition opr :: "token \<Rightarrow> bool" where
  "opr t \<longleftrightarrow> t < 53 \<and> tok_has t (OP_A2 OR OP_A2IR OR OP_A2IO OR OP_E2 OR OP_E2IO OR OP_OP)"

lemma upt_53: "[0..<53] =
    [0, 1, 2, 3, 4, 5, 6, 7, 8, 9, 10, 11, 12, 13, 14, 15, 16, 17, 18, 19,
     20, 21, 22, 23, 24, 25, 26, 27, 28, 29, 30, 31, 32, 33, 34, 35, 36, 37, 38, 39,
     40, 41, 42, 43, 44, 45, 46, 47, 48, 49, 50, 51, 52]"
  by (simp add: upt_rec)

lemma all_tokens: "list_all Q [0..<53] \<Longrightarrow> t < (53::nat) \<Longrightarrow> Q t"
  by (simp only: list_all_iff set_upt) simp

lemmas table_simps = upt_53 tok_has_def op_type_def

lemma io_tokens:
  assumes "t < 53"
  shows "tok_has t (OP_A2IO OR OP_E2IO) \<longleftrightarrow>
    t \<in> {T_AND, T_XOR, T_OR, T_SHLEFT, T_SHRIGHT, T_DAND, T_DOR, T_DXOR, T_ANDEQ, T_XOREQ, T_OREQ,
      T_SHLEFTEQ, T_SHRIGHTEQ, T_DANDEQ, T_DOREQ, T_DXOREQ}"
proof -
  have "list_all (\<lambda>t. tok_has t (OP_A2IO OR OP_E2IO) \<longleftrightarrow>
    t \<in> {T_AND, T_XOR, T_OR, T_SHLEFT, T_SHRIGHT, T_DAND, T_DOR, T_DXOR, T_ANDEQ, T_XOREQ, T_OREQ,
      T_SHLEFTEQ, T_SHRIGHTEQ, T_DANDEQ, T_DOREQ, T_DXOREQ}) [0..<53]"
    by (simp add: table_simps)
  from all_tokens [OF this assms] show ?thesis .
qed

lemma op2_tokens:
  assumes "t < 53"
  shows "op2tok t \<longleftrightarrow> tok_has t (OP_A2IO OR OP_E2IO) \<or>
    t \<in> {T_MUL, T_DIV, T_MOD, T_PLUS, T_MINUS, T_LES, T_LEQ, T_GRE, T_GEQ, T_DEQ, T_NEQ, T_EQ,
      T_PLUSEQ, T_MINUSEQ, T_MULEQ, T_DIVEQ, T_MODEQ, T_COMMA, T_POWER, T_POWEREQ}"
proof -
  have "list_all (\<lambda>t. op2tok t \<longleftrightarrow> tok_has t (OP_A2IO OR OP_E2IO) \<or>
    t \<in> {T_MUL, T_DIV, T_MOD, T_PLUS, T_MINUS, T_LES, T_LEQ, T_GRE, T_GEQ, T_DEQ, T_NEQ, T_EQ,
      T_PLUSEQ, T_MINUSEQ, T_MULEQ, T_DIVEQ, T_MODEQ, T_COMMA, T_POWER, T_POWEREQ}) [0..<53]"
    by (simp add: table_simps)
  from all_tokens [OF this assms] show ?thesis .
qed

lemma op2_opr:
  assumes "t < 53" "op2tok t"
  shows "opr t \<and> \<not> tok_has t OP_OPF"
proof -
  have "list_all (\<lambda>t. op2tok t \<longrightarrow> opr t \<and> \<not> tok_has t OP_OPF) [0..<53]"
    by (simp add: table_simps opr_def)
  from all_tokens [OF this assms(1)] assms(2) show ?thesis by simp
qed

lemma opr_other:
  assumes "opr t" "\<not> op2tok t"
  shows "t \<in> {M_OUTPAR, T_EOI, T_QUEST, T_COLON, T_POSTPLUS, T_POSTMINUS}"
proof -
  have "list_all (\<lambda>t. opr t \<longrightarrow> \<not> op2tok t \<longrightarrow>
    t \<in> {M_OUTPAR, T_EOI, T_QUEST, T_COLON, T_POSTPLUS, T_POSTMINUS}) [0..<53]"
    by (simp add: table_simps opr_def)
  from all_tokens [OF this] assms show ?thesis by (simp add: opr_def)
qed

lemma operand_tokens:
  assumes "t < 53" "\<not> opr t"
  shows "t \<in> {M_INPAR, T_NUM, T_ID, T_CID, T_FUNC} \<or>
    t \<in> {T_NOT, T_COMP, T_UPLUS, T_UMINUS, T_PREPLUS, T_PREMINUS}"
proof -
  have "list_all (\<lambda>t. \<not> opr t \<longrightarrow> t \<in> {M_INPAR, T_NUM, T_ID, T_CID, T_FUNC} \<or>
    t \<in> {T_NOT, T_COMP, T_UPLUS, T_UMINUS, T_PREPLUS, T_PREMINUS}) [0..<53]"
    by (simp add: table_simps opr_def)
  from all_tokens [OF this assms(1)] assms(2) show ?thesis by simp
qed

section \<open>Arithmetic\<close>

definition good_result :: "(mmsg + 'd mnumber) option \<Rightarrow> bool" where
  "good_result r \<longleftrightarrow> (case r of None \<Rightarrow> False | Some (Inl _) \<Rightarrow> True | Some (Inr c) \<Rightarrow> c \<noteq> MN_UNSET)"

lemma pow_float_good [simp]: "good_result (Some (pow_float P x y))"
  by (simp add: pow_float_def good_result_def)

lemma good_simps [simp]:
  "good_result (Some (Inl m))" "good_result (Some (Inr c)) \<longleftrightarrow> c \<noteq> MN_UNSET"
  by (simp_all add: good_result_def)

lemma bit_logic_some:
  assumes "t < 53" "tok_has t (OP_A2IO OR OP_E2IO)"
  shows "\<exists>v. bit_logic t x y = Some v"
  using assms(2) unfolding io_tokens [OF assms(1)] insert_iff
  by (elim disjE) (simp_all add: bit_logic_def)

lemma int_arith_good:
  assumes "t < 53" "op2tok t" "t \<noteq> T_COMMA" "t \<noteq> T_EQ"
  shows "good_result (int_arith P t x y)"
proof (cases "tok_has t (OP_A2IO OR OP_E2IO)")
  case True
  obtain v where v: "bit_logic t x y = Some v" using bit_logic_some [OF assms(1) True] by blast
  have "int_arith P t x y = Some (Inr (MN_INTEGER v))"
    using True v unfolding io_tokens [OF assms(1)] insert_iff
    by (elim disjE) (simp_all add: int_arith_def Let_def)
  then show ?thesis by simp
next
  case False
  with assms have "t \<in> {T_MUL, T_DIV, T_MOD, T_PLUS, T_MINUS, T_LES, T_LEQ, T_GRE, T_GEQ, T_DEQ,
      T_NEQ, T_PLUSEQ, T_MINUSEQ, T_MULEQ, T_DIVEQ, T_MODEQ, T_POWER, T_POWEREQ}"
    using op2_tokens by blast
  then show ?thesis unfolding insert_iff by (elim disjE) (simp_all add: int_arith_def Let_def)
qed

lemma float_arith_good:
  assumes "t < 53" "op2tok t" "t \<noteq> T_COMMA" "t \<noteq> T_EQ" "\<not> tok_has t (OP_A2IO OR OP_E2IO)"
  shows "good_result (float_arith P t x y)"
proof -
  have "t \<in> {T_MUL, T_DIV, T_MOD, T_PLUS, T_MINUS, T_LES, T_LEQ, T_GRE, T_GEQ, T_DEQ,
      T_NEQ, T_PLUSEQ, T_MINUSEQ, T_MULEQ, T_DIVEQ, T_MODEQ, T_POWER, T_POWEREQ}"
    using op2_tokens assms by blast
  then show ?thesis unfolding insert_iff by (elim disjE) (simp_all add: float_arith_def Let_def)
qed

lemma arith_good:
  assumes t: "t < 53" "op2tok t" and b: "b \<noteq> MN_UNSET" and a: "t \<noteq> T_EQ \<longrightarrow> a \<noteq> MN_UNSET"
  shows "good_result (arith P t (fst (coerce_args P t a b)) (snd (coerce_args P t a b)))"
proof (cases "t = T_COMMA \<or> t = T_EQ")
  case True
  have "snd (coerce_args P t a b) \<noteq> MN_UNSET"
    using b by (auto simp: coerce_args_def to_integer_def to_float_def split: mnumber.split)
  with True show ?thesis by (simp add: arith_def)
next
  case False
  then have a: "a \<noteq> MN_UNSET" using a by blast
  have ig: "good_result (int_arith P t x y)" for x y using int_arith_good t False by blast
  have ar: "arith P t (MN_INTEGER x) (MN_INTEGER y) = int_arith P t x y"
    "arith P t (MN_FLOAT d) (MN_FLOAT e) = float_arith P t d e" for x y d e
    using False by (simp_all add: arith_def)
  show ?thesis
  proof (cases "tok_has t (OP_A2IO OR OP_E2IO)")
    case True
    have "\<exists>x y. coerce_args P t a b = (MN_INTEGER x, MN_INTEGER y)"
      unfolding coerce_args_def if_P [OF True] to_integer_def
      using a b by (cases a; cases b) simp_all
    then show ?thesis using ig by (auto simp: ar)
  next
    case nio: False
    have fg: "good_result (float_arith P t x y)" for x y
      by (rule float_arith_good [OF t _ _ nio]) (use False in simp_all)
    have "(\<exists>x y. coerce_args P t a b = (MN_INTEGER x, MN_INTEGER y)) \<or>
        (\<exists>x y. coerce_args P t a b = (MN_FLOAT x, MN_FLOAT y))"
      unfolding coerce_args_def if_not_P [OF nio] to_float_def same_type_def
      using a b False by (cases a; cases b) simp_all
    then show ?thesis using ig fg by (auto simp: ar)
  qed
qed

end
