(* ===== verification/Math_Total.thy ===== *)
theory Math_Total
  imports Math_Safe
begin

text \<open>
  The operators keep the invariant of the stack, and the parser of \<open>Src/math.c\<close>
  returns: with fuel of twice the length of the text it never gives \<open>None\<close>, pushes one
  value over what was on the stack, and leaves \<open>noeval\<close> as it was.
\<close>

section \<open>Operators\<close>

lemma op_binary_spec:
  assumes P: "steady_shell P" and m: "mwf st" and e: "1 \<le> sp st" and t: "t < 53" "op2tok t"
  shows "\<exists>st'. op_binary P t st = Some st' \<and> mwf st' \<and> keeps st st' \<and>
    (err st' \<or> (sp st' = sp st - 1 \<and> same_below (sp st - 1) st st'))"
proof -
  obtain b st1 mv1 where p1: "pop P False st = Some (b, st1)" "mwf st1" "keeps st st1"
    "sp st1 = sp st - 1" "same_below (sp st) st st1" "b \<noteq> MN_UNSET"
    using pop_spec [OF P m, of False] e by auto
  obtain a st2 mv where p2: "pop P (t = T_EQ) st1 = Some (a, st2)" "mwf st2" "keeps st1 st2"
    "sp st2 = sp st1 - 1" "same_below (sp st1) st1 st2" "t = T_EQ \<or> a \<noteq> MN_UNSET"
    "slot_at st2 (sp st1) = Some mv" "slot_ok mv"
    using pop_spec [OF P p1(2), of "t = T_EQ"] e p1(4) by auto
  have k2: "keeps st st2" by (rule keeps_trans [OF p1(3) p2(3)])
  have sb2: "same_below (sp st - 1) st st2"
    using same_below_trans [OF p1(5) p2(5)] p1(4) by simp
  have mv: "slot_at st2 (sp st2 + 1) = Some mv" using p2 by simp
  have store: "\<exists>st'. op_store P t c st2 = Some st' \<and> mwf st' \<and> keeps st st' \<and>
      (err st' \<or> (sp st' = sp st - 1 \<and> same_below (sp st - 1) st st'))" if c: "c \<noteq> MN_UNSET" for c
  proof -
    obtain st' where st': "op_store P t c st2 = Some st'" "mwf st'" "keeps st2 st'"
      "err st' \<or> (sp st' = sp st2 + 1 \<and> same_below (sp st2 + 1) st2 st')"
      using op_store_spec [OF P p2(2) c mv p2(8)] by blast
    have "same_below (sp st - 1) st st'" if "same_below (sp st2 + 1) st2 st'"
      using same_below_trans [OF sb2 that] p1(4) p2(4) by simp
    then show ?thesis using st' keeps_trans [OF k2 st'(3)] p1(4) p2(4) by auto
  qed
  obtain a' b' where ab: "coerce_args P t a b = (a', b')" by fastforce
  have "good_result (arith P t a' b')"
    using arith_good [OF t p1(6), of a P] p2(6) ab by auto
  then consider (l) q where "arith P t a' b' = Some (Inl q)"
    | (r) c where "arith P t a' b' = Some (Inr c)" "c \<noteq> MN_UNSET"
    unfolding good_result_def by (auto split: option.splits sum.splits)
  then have fin: "\<exists>st'. do { r \<leftarrow> arith P t a' b';
      case r of Inl q \<Rightarrow> Some (merr q st2) | Inr c \<Rightarrow> op_store P t c st2 } = Some st' \<and> mwf st' \<and>
      keeps st st' \<and> (err st' \<or> (sp st' = sp st - 1 \<and> same_below (sp st - 1) st st'))"
  proof cases
    case l
    then show ?thesis
      using merr_spec [where st = st2 and m = q] p2(2) keeps_trans [OF k2] by auto
  next
    case r
    then show ?thesis using store by simp
  qed
  have eq: "op_binary P t st =
     (if err st2 then Some st2
      else if noeval st2 \<noteq> 0 then op_store P t (MN_INTEGER 0) st2
      else do { r \<leftarrow> arith P t a' b';
                case r of Inl q \<Rightarrow> Some (merr q st2) | Inr c \<Rightarrow> op_store P t c st2 })"
    unfolding op_binary_def by (simp add: p1(1) p2(1) ab)
  show ?thesis
  proof (cases "err st2")
    case True
    then show ?thesis using eq p2(2) k2 by simp
  next
    case False
    then show ?thesis using eq store [of "MN_INTEGER 0"] fin by (cases "noeval st2 = 0") auto
  qed
qed

lemma op_step_spec:
  assumes P: "steady_shell P" and m: "mwf st" and s: "0 \<le> sp st" and a: "a \<noteq> MN_UNSET"
    and u: "\<And>mv. slot_at st (sp st) = Some mv \<Longrightarrow> sval mv \<noteq> MN_UNSET"
  shows "\<exists>st'. op_step P post a st = Some st' \<and> mwf st' \<and> keeps st st' \<and> sp st' = sp st \<and>
    same_below (sp st) st st'"
proof -
  obtain mv0 where mv0: "slot_at st (sp st) = Some mv0" "slot_ok mv0" using mwf_slot [OF m s] by blast
  define mv where "mv = (if post then mv0 else mv0\<lparr>sval := a\<rparr>)"
  have mvok: "pval mv \<noteq> None \<longrightarrow> lval mv \<noteq> None" and mvu: "sval mv \<noteq> MN_UNSET"
    using mv0 u [OF mv0(1)] a by (auto simp: mv_def slot_ok_def)
  obtain v' mv' g' where sm: "setmathvar P (noeval st) mv a (gl st) = Some (v', mv', g')"
    "steady (gl st) g'" "sval mv' = sval mv" "pval mv' \<noteq> None \<longrightarrow> lval mv' \<noteq> None"
    using setmathvar_spec [OF P mvok a] by blast
  have b: "sp st < 100" using m by (simp add: mwf_def)
  let ?st = "st\<lparr>gl := g'\<rparr>"
  have mg: "mwf ?st" by (rule mwf_gl [OF m sm(2)])
  have w: "mwf (set_slot (sp st) mv' ?st)"
    by (rule mwf_set_slot [OF mg _ s b]) (use sm mvu in \<open>simp add: slot_ok_def\<close>)
  have un: "\<And>x. slot_at (set_slot (sp st) mv' ?st) (sp st) = Some x \<Longrightarrow> sval x \<noteq> MN_UNSET"
    using sm(3) mvu s b mwf_len(1) [OF mg] by auto
  obtain st' where st': "drop_lval (set_slot (sp st) mv' ?st) = Some st'" "mwf st'"
    "keeps (set_slot (sp st) mv' ?st) st'" "sp st' = sp st" "same_below (sp st) (set_slot (sp st) mv' ?st) st'"
    using drop_lval_spec [OF w] s un by auto
  have k: "keeps st (set_slot (sp st) mv' ?st)" using keeps_gl [OF sm(2)] keeps_trans set_slot_keeps by blast
  have sb: "same_below (sp st) st (set_slot (sp st) mv' ?st)" by (auto simp: same_below_def set_slot_def)
  have "op_step P post a st = Some st'"
    unfolding op_step_def using mv0(1) sm(1) st'(1) by (simp add: mv_def Let_def)
  then show ?thesis using st' keeps_trans [OF k st'(3)] same_below_trans [OF sb st'(5)] by simp
qed

lemma op_quest_spec:
  assumes P: "steady_shell P" and m: "mwf st" and s: "2 \<le> sp st"
  shows "\<exists>st'. op_quest P st = Some st' \<and> mwf st' \<and> keeps st st' \<and>
    (err st' \<or> (sp st' = sp st - 2 \<and> same_below (sp st - 2) st st'))"
proof -
  obtain c st1 where p1: "pop P False st = Some (c, st1)" "mwf st1" "keeps st st1"
    "sp st1 = sp st - 1" "same_below (sp st) st st1" "c \<noteq> MN_UNSET"
    using pop_spec [OF P m, of False] s by auto
  obtain b st2 where p2: "pop P False st1 = Some (b, st2)" "mwf st2" "keeps st1 st2"
    "sp st2 = sp st - 2" "same_below (sp st1) st1 st2" "b \<noteq> MN_UNSET"
    using pop_spec [OF P p1(2), of False] s p1(4) by auto
  obtain a st3 where p3: "pop P False st2 = Some (a, st3)" "mwf st3" "keeps st2 st3"
    "sp st3 = sp st - 3" "same_below (sp st2) st2 st3"
    using pop_spec [OF P p2(2), of False] s p2(4) by auto
  have k3: "keeps st st3" by (rule keeps_trans [OF p1(3) keeps_trans [OF p2(3) p3(3)]])
  have sb3: "same_below (sp st - 2) st st3"
    using p1(5,4) p2(5,4) p3(5) by (simp add: same_below_def)
  let ?v = "if truthy P a then b else c"
  have v: "?v \<noteq> MN_UNSET" using p1(6) p2(6) by simp
  obtain st4 where p4: "push ?v None False st3 = Some st4" "mwf st4" "keeps st3 st4"
    "err st4 \<or> (sp st4 = sp st3 + 1 \<and> same_below (sp st3 + 1) st3 st4)"
    using push_spec [OF p3(2) v, of False None] by auto
  have eq: "op_quest P st = (if err st3 then Some st3 else drop_lval st4)"
    unfolding op_quest_def by (simp add: p1(1) p2(1) p3(1) p4(1))
  show ?thesis
  proof (cases "err st3")
    case True
    then show ?thesis using eq p3(2) k3 by simp
  next
    case False
    have sp4: "sp st4 = sp st - 2"
      using p4(1) p3(4) p3(2) s m by (auto simp: push_def Let_def STACKSZ_def mwf_def split: if_splits)
    have un: "\<And>x. slot_at st4 (sp st4) = Some x \<Longrightarrow> sval x \<noteq> MN_UNSET"
      using p4(1) v mwf_len(1) [OF p3(2)]
      by (auto simp: push_def Let_def slot_at_def set_slot_def STACKSZ_def merr_def split: if_splits)
    have "0 \<le> sp st4" using sp4 s by simp
    then obtain st5 where p5: "drop_lval st4 = Some st5" "mwf st5" "keeps st4 st5" "sp st5 = sp st4"
      "same_below (sp st4) st4 st5"
      using drop_lval_spec [OF p4(2) _ un] by blast
    have "err st5 \<or> same_below (sp st - 2) st st5"
      using p4(4) p5(3,5) sb3 sp4 p3(4)
      by (auto simp: keeps_def steady_def same_below_def)
    then show ?thesis
      using eq False p5 sp4 keeps_trans [OF k3 keeps_trans [OF p4(3) p5(3)]] by auto
  qed
qed

text \<open>How far an operator lowers the stack.\<close>

definition op_drop :: "token \<Rightarrow> int" where
  "op_drop t = (if op2tok t then 1 else if t = T_QUEST then 2 else 0)"

lemma slot_at_merr: "slot_at (merr m st) i = slot_at st i"
  by (simp add: slot_at_def merr_def)

lemma unary_num_unset:
  assumes "v \<noteq> MN_UNSET"
  shows "num_not P v \<noteq> MN_UNSET" "num_comp P v \<noteq> MN_UNSET" "num_inc P v \<noteq> MN_UNSET"
    "num_dec P v \<noteq> MN_UNSET" "neg_number P v \<noteq> MN_UNSET"
  using assms
  by (simp_all add: num_not_def num_comp_def num_inc_def num_dec_def neg_number_def
      split: mnumber.split)

lemma op_unary_spec:
  assumes P: "steady_shell P" and m: "mwf st" and s: "0 \<le> sp st" and q: "t = T_QUEST \<longrightarrow> 2 \<le> sp st"
    and t: "\<not> op2tok t"
  shows "\<exists>st'. op_unary P t st = Some st' \<and> mwf st' \<and> keeps st st' \<and>
    (err st' \<or> (sp st' = sp st - op_drop t \<and> same_below (sp st - op_drop t) st st'))"
proof -
  obtain st1 mv where l: "load_slot P (sp st) st = Some st1" "mwf st1" "keeps st st1" "sp st1 = sp st"
    "same_below (sp st) st st1" "slot_at st1 (sp st) = Some mv" "slot_ok mv" "sval mv \<noteq> MN_UNSET"
    using load_slot_spec [OF P m s order.refl] by blast
  have s1: "0 \<le> sp st1" using l(4) s by simp
  have un: "\<And>x. slot_at st1 (sp st1) = Some x \<Longrightarrow> sval x \<noteq> MN_UNSET"
    using l(4,6,8) by simp
  define Q where "Q d r \<longleftrightarrow> (\<exists>st'. r = Some st' \<and> mwf st' \<and> keeps st1 st' \<and>
    (err st' \<or> (sp st' = sp st1 - d \<and> same_below (sp st1 - d) st1 st')))"
    for d :: int and r :: "('a, 'b, 'c) mst option"
  have put: "Q 0 (drop_lval (set_slot (sp st1) (mv\<lparr>sval := v\<rparr>) st1))" if "v \<noteq> MN_UNSET" for v
    using put_spec [OF l(2) s1 that] by (auto simp: Q_def)
  have step: "Q 0 (op_step P post v st1)" if "v \<noteq> MN_UNSET" for v post
    using op_step_spec [OF P l(2) s1 that un] by (auto simp: Q_def)
  have drop: "Q 0 (drop_lval st1)" using drop_lval_spec [OF l(2) s1 un] by (auto simp: Q_def)
  have colon: "Q 0 (drop_lval (merr Colon_without_quest st1))"
  proof -
    have un': "\<And>x. slot_at (merr Colon_without_quest st1) (sp (merr Colon_without_quest st1)) = Some x
        \<Longrightarrow> sval x \<noteq> MN_UNSET"
      using un by (simp add: slot_at_merr merr_spec(4))
    obtain st' where "drop_lval (merr Colon_without_quest st1) = Some st'" "mwf st'"
      "keeps (merr Colon_without_quest st1) st'" "sp st' = sp st1"
      "same_below (sp st1) (merr Colon_without_quest st1) st'"
      using drop_lval_spec [OF merr_spec(1) [OF l(2)] _ un'] s1 by (auto simp: merr_spec)
    then show ?thesis
      using keeps_trans [OF merr_spec(2)] by (auto simp: Q_def same_below_def merr_spec)
  qed
  have quest: "Q 2 (op_quest P st1)" if "t = T_QUEST"
    using op_quest_spec [OF P l(2)] q l(4) that by (auto simp: Q_def)
  have bad: "Q 0 (Some (merr Out_of_integers st1))"
    using merr_spec [where st = st1 and m = Out_of_integers] l(2) by (auto simp: Q_def same_below_def)
  define body where "body = (let v = sval mv; upd = (\<lambda>v. drop_lval (set_slot (sp st1) (mv\<lparr>sval := v\<rparr>) st1)) in
            if t = T_NOT then upd (num_not P v)
            else if t = T_COMP then upd (num_comp P v)
            else if t = T_POSTPLUS then op_step P True (num_inc P v) st1
            else if t = T_POSTMINUS then op_step P True (num_dec P v) st1
            else if t = T_UPLUS then drop_lval st1
            else if t = T_UMINUS then upd (neg_number P v)
            else if t = T_QUEST then op_quest P st1
            else if t = T_COLON then drop_lval (merr Colon_without_quest st1)
            else if t = T_PREPLUS then op_step P False (num_inc P v) st1
            else if t = T_PREMINUS then op_step P False (num_dec P v) st1
            else Some (merr Out_of_integers st1))"
  have eq: "op_unary P t st = (if err st1 then Some st1 else body)"
    unfolding op_unary_def body_def by (simp add: l(1,4,6))
  have "Q (op_drop t) body"
  proof (cases "t = T_QUEST")
    case True
    then show ?thesis using quest by (simp add: body_def op_drop_def table_simps)
  next
    case False
    then have d: "op_drop t = 0" using t by (simp add: op_drop_def)
    show ?thesis
      unfolding d body_def Let_def using False
      by (simp add: put step drop colon bad unary_num_unset [OF l(8)])
  qed
  then show ?thesis
    using eq l(2,3,4,5) keeps_trans [OF l(3)]
    by (cases "err st1") (auto simp: Q_def same_below_def op_drop_def)
qed

lemma exec_op_spec:
  assumes P: "steady_shell P" and m: "mwf st" and s: "err st \<or> op_drop t \<le> sp st" and t: "t < 53"
  shows "\<exists>st'. exec_op P t st = Some st' \<and> mwf st' \<and> keeps st st' \<and>
    (err st' \<or> (sp st' = sp st - op_drop t \<and> same_below (sp st - op_drop t) st st'))"
proof (cases "err st")
  case True
  then show ?thesis using m by (simp add: exec_op_def)
next
  case False
  then have s: "op_drop t \<le> sp st" using s by simp
  then have s0: "0 \<le> sp st" by (auto simp: op_drop_def split: if_splits)
  show ?thesis
  proof (cases "op2tok t")
    case True
    then show ?thesis using False s0 s op_binary_spec [OF P m _ t True]
      by (simp add: exec_op_def op_drop_def)
  next
    case un: False
    then have q: "t = T_QUEST \<longrightarrow> 2 \<le> sp st" using s by (auto simp: op_drop_def)
    show ?thesis using False s0 un op_unary_spec [OF P m s0 q un] by (simp add: exec_op_def)
  qed
qed

lemma bop_spec:
  assumes P: "steady_shell P" and m: "mwf st" and s: "0 \<le> sp st"
  shows "\<exists>st' st1. bop P t st = Some st' \<and> mwf st' \<and> keeps st st1 \<and> sp st' = sp st \<and>
    same_below (sp st) st st' \<and> (st' = st1 \<or> st' = st1\<lparr>noeval := noeval st1 + 1\<rparr>)"
proof -
  obtain st1 mv where l: "load_slot P (sp st) st = Some st1" "mwf st1" "keeps st st1" "sp st1 = sp st"
    "same_below (sp st) st st1" "slot_at st1 (sp st) = Some mv"
    using load_slot_spec [OF P m s order.refl] by blast
  have "mwf (st1\<lparr>noeval := noeval st1 + 1\<rparr>)" using l(2) by (simp add: mwf_def)
  moreover have "same_below (sp st) st (st1\<lparr>noeval := noeval st1 + 1\<rparr>)"
    using l(5) by (simp add: same_below_def)
  ultimately show ?thesis using l by (fastforce simp: bop_def Let_def)
qed

section \<open>Tokens and operands\<close>

text \<open>What the shell's mathematical functions are relied on for.\<close>

definition caller_ok :: "('d, 'e) caller \<Rightarrow> bool" where
  "caller_ok cf \<longleftrightarrow>
     (\<forall>s g. noerrs g < 2 \<longrightarrow> (\<exists>v g'. cf s g = Some (v, g') \<and> v \<noteq> MN_UNSET \<and> steady g g'))"

text \<open>What every part of the parser leaves alone.\<close>

definition mframe :: "('d, 'v, 'e) mst \<Rightarrow> ('d, 'v, 'e) mst \<Rightarrow> bool" where
  "mframe st st' \<longleftrightarrow>
     mwf st' \<and> steady (gl st) (gl st') \<and> length (ptr st') \<le> length (ptr st) \<and>
     noeval st' = noeval st"

lemma mframe_refl: "mwf st \<Longrightarrow> mframe st st"
  by (simp add: mframe_def)

lemma mframe_trans: "mframe st st' \<Longrightarrow> mframe st' st'' \<Longrightarrow> mframe st st''"
  by (auto simp: mframe_def intro: steady_trans)

lemma keeps_mframe: "keeps st st' \<Longrightarrow> mwf st' \<Longrightarrow> mframe st st'"
  by (simp add: mframe_def keeps_def)

lemma steady_err: "steady (gl st) (gl st') \<Longrightarrow> err st \<Longrightarrow> err st'"
  by (simp add: steady_def)

lemma mwf_lexes: "mwf st \<Longrightarrow> lexes st st' \<Longrightarrow> mwf st'"
  by (simp add: mwf_def lexes_def steady_def)

lemma mwf_unary: "mwf (st\<lparr>unary := b\<rparr>) \<longleftrightarrow> mwf st"
  by (simp add: mwf_def)

lemma checkunary_spec:
  assumes m: "mwf st" and t: "t < 53"
  shows "mframe st (checkunary P t s st)" "stk (checkunary P t s st) = stk st"
    "sp (checkunary P t s st) = sp st" "ptr (checkunary P t s st) = ptr st"
    "mtok (checkunary P t s st) = mtok st" "unary (checkunary P t s st) = (\<not> tok_has t OP_OPF)"
    "err (checkunary P t s st) \<or> (opr t \<longleftrightarrow> \<not> unary st)"
proof -
  have o: "opr t \<longleftrightarrow> tok_has t (OP_A2 OR OP_A2IR OR OP_A2IO OR OP_E2 OR OP_E2IO OR OP_OP)"
    using t by (simp add: opr_def)
  have e: "errflag (zerr q (gl st))" for q using m by (simp add: errflag_zerr mwf_def)
  have mm: "mwf (merr q st)" for q by (rule merr_spec(1) [OF m])
  show "mframe st (checkunary P t s st)"
    using m mm by (auto simp: checkunary_def Let_def mframe_def mwf_unary merr_def)
  show "err (checkunary P t s st) \<or> (opr t \<longleftrightarrow> \<not> unary st)"
    using e by (simp add: checkunary_def Let_def o merr_def)
qed (simp_all add: checkunary_def Let_def merr_def)

lemma next_token_spec:
  assumes P: "steady_shell P" and m: "mwf st" and z: "zzlex P st = (t, st1)"
  defines "st2 \<equiv> checkunary P t (ptr st) (st1\<lparr>mtok := t\<rparr>)"
  shows "t < 53" "mframe st (st1\<lparr>mtok := t\<rparr>)" "mframe st st2" "stk st2 = stk st" "sp st2 = sp st"
    "mtok st2 = t" "unary st2 = (\<not> tok_has t OP_OPF)" "err st2 \<or> (opr t \<longleftrightarrow> \<not> unary st)"
    "t \<noteq> T_EOI \<Longrightarrow> length (ptr st2) < length (ptr st)" "stk st1 = stk st" "sp st1 = sp st"
proof -
  have l: "lexes st st1" and c: "t \<noteq> T_EOI \<Longrightarrow> length (ptr st1) < length (ptr st)"
    using zzlex_spec [OF P, of st] z by auto
  show t: "t < 53" using zzlex_token [OF P, of st] z by simp
  have m1: "mwf (st1\<lparr>mtok := t\<rparr>)" using mwf_lexes [OF m l] by (simp add: mwf_def)
  show f1: "mframe st (st1\<lparr>mtok := t\<rparr>)" using m1 l by (simp add: mframe_def lexes_def)
  note ch = checkunary_spec [OF m1 t, of P "ptr st", folded st2_def]
  show "mframe st st2" by (rule mframe_trans [OF f1 ch(1)])
  show "stk st2 = stk st" "sp st2 = sp st" "stk st1 = stk st" "sp st1 = sp st"
    using ch l by (simp_all add: lexes_def)
  show "mtok st2 = t" "unary st2 = (\<not> tok_has t OP_OPF)" "err st2 \<or> (opr t \<longleftrightarrow> \<not> unary st)"
    using ch l by (simp_all add: lexes_def)
  show "t \<noteq> T_EOI \<Longrightarrow> length (ptr st2) < length (ptr st)" using c ch by simp
qed

lemma push_operand_spec:
  assumes P: "steady_shell P" and cf: "caller_ok cf" and m: "mwf st"
  shows "\<exists>st'. push_operand P cf st = Some st' \<and> mwf st' \<and> keeps st st' \<and>
    (err st' \<or> (sp st' = sp st + 1 \<and> same_below (sp st + 1) st st'))"
proof -
  have y: "yyval st \<noteq> MN_UNSET" using m by (simp add: mwf_def)
  have push_gl: "\<exists>st'. push v (Some s) False (st\<lparr>gl := g\<rparr>) = Some st' \<and> mwf st' \<and> keeps st st' \<and>
    (err st' \<or> (sp st' = sp st + 1 \<and> same_below (sp st + 1) st st'))"
    if v: "v \<noteq> MN_UNSET" and g: "steady (gl st) g" for v s g
  proof -
    obtain st' where "push v (Some s) False (st\<lparr>gl := g\<rparr>) = Some st'" "mwf st'"
      "keeps (st\<lparr>gl := g\<rparr>) st'"
      "err st' \<or> (sp st' = sp st + 1 \<and> same_below (sp st + 1) (st\<lparr>gl := g\<rparr>) st')"
      using push_spec [OF mwf_gl [OF m g] v, of False "Some s"] by auto
    then show ?thesis using keeps_trans [OF keeps_gl [OF g]] by (auto simp: same_below_def)
  qed
  have cv: "fst (getcvar P s g) \<noteq> MN_UNSET \<and> steady g (snd (getcvar P s g))" for s g
  proof -
    obtain o1 g1 where g1: "getsparam P s g = (o1, g1)" by fastforce
    have "steady g g1" using P g1 unfolding steady_shell_def by (metis snd_conv)
    then show ?thesis by (simp add: getcvar_def g1 Let_def split: option.split)
  qed
  obtain c g2 where c: "cf (yylval st) (gl st) = Some (c, g2)" "c \<noteq> MN_UNSET" "steady (gl st) g2"
    using cf m unfolding caller_ok_def mwf_def by blast
  have z: "zero_mnumber \<noteq> MN_UNSET" by (simp add: zero_mnumber_def)
  obtain v g where vg: "getcvar P (yylval st) (gl st) = (v, g)" by fastforce
  have v: "v \<noteq> MN_UNSET" "steady (gl st) g" using cv [of "yylval st" "gl st"] vg by auto
  have id: "st\<lparr>gl := gl st\<rparr> = st" by simp
  show ?thesis
  proof (cases "mtok st = T_NUM \<or> mtok st = T_ID")
    case True
    then show ?thesis
      using push_spec [OF m y, of False None] push_spec [OF m z, of "noeval st = 0" "Some (yylval st)"]
      by (auto simp: push_operand_def Let_def)
  next
    case False
    then show ?thesis
      using push_gl [OF z, of "gl st" "yylval st"] push_gl [OF v, of "yylval st"]
        push_gl [OF c(2,3), of "yylval st"]
      by (cases "noeval st = 0") (simp_all add: push_operand_def Let_def vg c(1))
  qed
qed

section \<open>The tables again\<close>

definition prec_ok :: "int list \<Rightarrow> bool" where
  "prec_ok pr \<longleftrightarrow>
     top_prec pr < pr ! T_EOI \<and> top_prec pr < pr ! M_OUTPAR \<and> 3 \<le> pr ! T_COLON \<and>
     (\<forall>t<53. t \<noteq> T_EOI \<and> t \<noteq> M_OUTPAR \<longrightarrow> pr ! t < top_prec pr) \<and>
     (\<forall>t<53. \<not> opr t \<longrightarrow> pr ! t \<le> 2) \<and>
     (\<forall>t<53. opr t \<longrightarrow> 2 \<le> pr ! t - (if MTYPE t \<noteq> RL then 1 else 0)) \<and>
     (\<forall>t\<in>{T_NOT, T_COMP, T_UPLUS, T_UMINUS, T_PREPLUS, T_PREMINUS}. pr ! t = 2 \<and> MTYPE t = RL)"

text \<open>The limits \<open>mathparse\<close> is called with.\<close>

definition pc_ok :: "int list \<Rightarrow> int \<Rightarrow> bool" where
  "pc_ok pr pc \<longleftrightarrow> 2 \<le> pc \<and> pc \<le> top_prec pr"

lemma prec_ok_tables: "prec_ok c_prec" "prec_ok z_prec"
proof -
  have 1: "list_all (\<lambda>t. t \<noteq> T_EOI \<and> t \<noteq> M_OUTPAR \<longrightarrow> c_prec ! t < top_prec c_prec) [0..<53]"
    "list_all (\<lambda>t. t \<noteq> T_EOI \<and> t \<noteq> M_OUTPAR \<longrightarrow> z_prec ! t < top_prec z_prec) [0..<53]"
    by (simp_all add: upt_53 c_prec_def z_prec_def top_prec_def)
  have 2: "list_all (\<lambda>t. \<not> opr t \<longrightarrow> c_prec ! t \<le> 2) [0..<53]"
    "list_all (\<lambda>t. \<not> opr t \<longrightarrow> z_prec ! t \<le> 2) [0..<53]"
    by (simp_all add: table_simps c_prec_def z_prec_def opr_def)
  have 3: "list_all (\<lambda>t. opr t \<longrightarrow> 2 \<le> c_prec ! t - (if MTYPE t \<noteq> RL then 1 else 0)) [0..<53]"
    "list_all (\<lambda>t. opr t \<longrightarrow> 2 \<le> z_prec ! t - (if MTYPE t \<noteq> RL then 1 else 0)) [0..<53]"
    by (simp_all add: table_simps c_prec_def z_prec_def opr_def MTYPE_def)
  have a: "\<forall>t<53. t \<noteq> T_EOI \<and> t \<noteq> M_OUTPAR \<longrightarrow> c_prec ! t < top_prec c_prec"
    "\<forall>t<53. t \<noteq> T_EOI \<and> t \<noteq> M_OUTPAR \<longrightarrow> z_prec ! t < top_prec z_prec"
    using 1 [THEN all_tokens] by simp_all
  have b: "\<forall>t<53. \<not> opr t \<longrightarrow> c_prec ! t \<le> 2" "\<forall>t<53. \<not> opr t \<longrightarrow> z_prec ! t \<le> 2"
    using 2 [THEN all_tokens] by simp_all
  have c: "\<forall>t<53. opr t \<longrightarrow> 2 \<le> c_prec ! t - (if MTYPE t \<noteq> RL then 1 else 0)"
    "\<forall>t<53. opr t \<longrightarrow> 2 \<le> z_prec ! t - (if MTYPE t \<noteq> RL then 1 else 0)"
    using 3 [THEN all_tokens] by simp_all
  have 4: "\<forall>t\<in>{T_NOT, T_COMP, T_UPLUS, T_UMINUS, T_PREPLUS, T_PREMINUS}. c_prec ! t = 2 \<and> MTYPE t = RL"
    "\<forall>t\<in>{T_NOT, T_COMP, T_UPLUS, T_UMINUS, T_PREPLUS, T_PREMINUS}. z_prec ! t = 2 \<and> MTYPE t = RL"
    by (simp_all add: c_prec_def z_prec_def MTYPE_def op_type_def)
  have 5: "top_prec c_prec < c_prec ! T_EOI \<and> top_prec c_prec < c_prec ! M_OUTPAR \<and> 3 \<le> c_prec ! T_COLON"
    "top_prec z_prec < z_prec ! T_EOI \<and> top_prec z_prec < z_prec ! M_OUTPAR \<and> 3 \<le> z_prec ! T_COLON"
    by (simp_all add: c_prec_def z_prec_def top_prec_def)
  show "prec_ok c_prec" unfolding prec_ok_def by (intro conjI a b c 4 5 [THEN conjunct1]
      5 [THEN conjunct2, THEN conjunct1] 5 [THEN conjunct2, THEN conjunct2])
  show "prec_ok z_prec" unfolding prec_ok_def by (intro conjI a b c 4 5 [THEN conjunct1]
      5 [THEN conjunct2, THEN conjunct1] 5 [THEN conjunct2, THEN conjunct2])
qed

lemma tok_facts [simp]:
  "opr T_QUEST" "opr T_COLON" "\<not> opr T_NUM" "\<not> opr T_ID" "\<not> opr T_CID" "\<not> opr T_FUNC" "\<not> opr M_INPAR"
  "tok_has T_NUM OP_OPF" "tok_has T_ID OP_OPF" "tok_has T_CID OP_OPF" "tok_has T_FUNC OP_OPF"
  "tok_has (Suc 0) OP_OPF" "\<not> tok_has T_QUEST OP_OPF" "\<not> tok_has T_COLON OP_OPF"
  "\<not> tok_has M_INPAR OP_OPF"
  by (simp_all add: opr_def tok_has_def op_type_def)

lemma pc_ok_top:
  assumes "prec_ok pr"
  shows "pc_ok pr (top_prec pr)"
proof -
  have "3 \<le> pr ! 28" "pr ! 28 < top_prec pr" using assms unfolding prec_ok_def by simp_all
  then show ?thesis by (simp add: pc_ok_def)
qed

lemma pc_ok_branch:
  assumes "prec_ok pr"
  shows "pc_ok pr (pr ! T_COLON - 1)" "pr ! T_COLON - 1 < top_prec pr"
    "pc_ok pr (pr ! T_QUEST)" "pr ! T_QUEST < top_prec pr"
proof -
  have "3 \<le> pr ! 28" "pr ! 28 < top_prec pr" "pr ! 27 < top_prec pr"
    using assms unfolding prec_ok_def by simp_all
  moreover have "2 \<le> pr ! 27 - (if MTYPE 27 \<noteq> RL then 1 else 0)"
    using assms unfolding prec_ok_def
    by (metis (no_types, lifting) numeral_less_iff opr_def tok_facts(1))
  ultimately show "pc_ok pr (pr ! T_COLON - 1)" "pr ! T_COLON - 1 < top_prec pr"
    "pc_ok pr (pr ! T_QUEST)" "pr ! T_QUEST < top_prec pr"
    by (simp_all add: pc_ok_def split: if_splits)
qed

lemma pc_ok_default:
  assumes pr: "prec_ok pr" and t: "t < 53"
    "t \<notin> {T_NUM, T_ID, T_CID, T_FUNC, M_INPAR, T_QUEST, M_OUTPAR, T_EOI}"
  defines "pc \<equiv> pr ! t - (if MTYPE t \<noteq> RL then 1 else 0)"
  shows "pc_ok pr pc" "pc < top_prec pr"
proof -
  have "pc \<le> pr ! t" by (simp add: pc_def)
  also have "pr ! t < top_prec pr" using pr t unfolding prec_ok_def by blast
  finally show lt: "pc < top_prec pr" .
  have "2 \<le> pc"
  proof (cases "opr t")
    case True
    then show ?thesis using pr t(1) unfolding prec_ok_def pc_def by blast
  next
    case False
    then have "t \<in> {T_NOT, T_COMP, T_UPLUS, T_UMINUS, T_PREPLUS, T_PREMINUS}"
      using operand_tokens [OF t(1)] t(2) by blast
    then have "pr ! t = 2 \<and> MTYPE t = RL" using pr unfolding prec_ok_def by blast
    then show ?thesis by (simp add: pc_def)
  qed
  with lt show "pc_ok pr pc" by (simp add: pc_ok_def)
qed

lemma go_on_token:
  assumes "prec_ok pr" "pc_ok pr pc" "\<not> pc < pr ! t"
  shows "t \<noteq> T_EOI" "t \<noteq> M_OUTPAR"
  using assms unfolding prec_ok_def pc_ok_def by auto

text \<open>A token at which the loop stops is an operator.\<close>

lemma stop_opr:
  assumes "prec_ok pr" "pc_ok pr pc" "t < 53" "pc < pr ! t"
  shows "opr t"
  using assms unfolding prec_ok_def pc_ok_def by (meson leD order.trans)

text \<open>A token that an operand or another token follows moves the stack by this balance.\<close>

lemma token_balance:
  assumes "t < 53" "t \<notin> {M_OUTPAR, T_EOI, T_COLON, T_QUEST, T_NUM, T_ID, T_CID, T_FUNC, M_INPAR}"
  shows "(if opr t then 0 else -1) + (if tok_has t OP_OPF then 0 else 1) - op_drop t = 0"
proof -
  have "list_all (\<lambda>t. t \<notin> {M_OUTPAR, T_EOI, T_COLON, T_QUEST, T_NUM, T_ID, T_CID, T_FUNC, M_INPAR} \<longrightarrow>
      (if opr t then 0 else -1) + (if tok_has t OP_OPF then 0 else 1) - op_drop t = 0) [0..<53]"
    by (simp add: table_simps opr_def op_drop_def)
  from all_tokens [OF this assms(1)] assms(2) show ?thesis by blast
qed

lemma bool_opr:
  assumes "t < 53" "MTYPE t = BOOL"
  shows "opr t"
proof -
  have "list_all (\<lambda>t. MTYPE t = BOOL \<longrightarrow> opr t) [0..<53]"
    by (simp add: table_simps opr_def MTYPE_def)
  from all_tokens [OF this assms(1)] assms(2) show ?thesis by blast
qed

lemma op_drop_simps [simp]: "op_drop T_QUEST = 2" "op_drop T_COLON = 0"
  by (simp_all add: op_drop_def tok_has_def op_type_def)

lemma exec_op_colon:
  assumes P: "steady_shell P" and m: "mwf st" and x: "exec_op P T_COLON st = Some st'"
  shows "err st'"
proof (cases "err st \<or> sp st < 0")
  case True
  then show ?thesis using x merr_spec(3) [OF m] by (cases "err st") (auto simp: exec_op_def)
next
  case False
  obtain st1 mv where l: "load_slot P (sp st) st = Some st1" "mwf st1" "sp st1 = sp st"
    "slot_at st1 (sp st) = Some mv"
    using load_slot_spec [OF P m _ order.refl] False by force
  have "op_unary P T_COLON st = Some st'"
    using x False by (simp add: exec_op_def tok_has_def op_type_def)
  then have "err st1 \<and> st' = st1 \<or> drop_lval (merr Colon_without_quest st1) = Some st'"
    using l by (auto simp: op_unary_def Let_def split: if_splits)
  moreover have "err st'" if "drop_lval (merr Colon_without_quest st1) = Some st'"
    using that merr_spec(3) [OF l(2), of Colon_without_quest]
    by (auto simp: drop_lval_def bind_eq_Some_conv)
  ultimately show ?thesis by auto
qed

section \<open>The parser\<close>

text \<open>
  The token read fits the stack: where an operator was read there are \<open>T + 1\<close> entries,
  where an operand was read one fewer.
\<close>

definition fits :: "int \<Rightarrow> ('d, 'v, 'e) mst \<Rightarrow> bool" where
  "fits T st \<longleftrightarrow>
     mtok st < 53 \<and> unary st = (\<not> tok_has (mtok st) OP_OPF) \<and>
     sp st = (if opr (mtok st) then T else T - 1)"

text \<open>A value was pushed as entry \<open>T\<close>, and an operator read.\<close>

definition pushed :: "int \<Rightarrow> ('d, 'v, 'e) mst \<Rightarrow> ('d, 'v, 'e) mst \<Rightarrow> bool" where
  "pushed T st st' \<longleftrightarrow>
     sp st' = T \<and> opr (mtok st') \<and> unary st' = (\<not> tok_has (mtok st') OP_OPF) \<and> same_below T st st'"

definition loop_post :: "int \<Rightarrow> ('d, 'v, 'e) mst \<Rightarrow> ('d, 'v, 'e) mst \<Rightarrow> bool" where
  "loop_post T st st' \<longleftrightarrow> mframe st st' \<and> (err st' \<or> pushed T st st')"

definition new_top :: "('d, 'v, 'e) mst \<Rightarrow> int" where
  "new_top st = sp st + (if unary st then 1 else 0)"

definition parse_post :: "int list \<Rightarrow> int \<Rightarrow> ('d, 'v, 'e) mst \<Rightarrow> ('d, 'v, 'e) mst \<Rightarrow> bool" where
  "parse_post pr pc st st' \<longleftrightarrow>
     mframe st st' \<and>
     (err st' \<or> pushed (new_top st) st st' \<or>
        pc = top_prec pr \<and> mtok st' = T_EOI \<and> sp st' = sp st \<and> stk st' = stk st) \<and>
     (err st' \<or> mtok st' = T_EOI \<or> length (ptr st') < length (ptr st))"

text \<open>The fuel needed.\<close>

definition parse_need :: "('d, 'v, 'e) mst \<Rightarrow> nat" where
  "parse_need st = (if err st then 1 else 2 * length (ptr st) + 2)"

definition loop_need :: "('d, 'v, 'e) mst \<Rightarrow> nat" where
  "loop_need st = (if err st \<or> mtok st = T_EOI then 1 else 2 * length (ptr st) + 3)"

definition parse_ok ::
  "('d, 'v, 'e) mshell \<Rightarrow> int list \<Rightarrow> ('d, 'e) caller \<Rightarrow> nat \<Rightarrow> bool" where
  "parse_ok P pr cf n \<longleftrightarrow>
     (\<forall>pc st :: ('d, 'v, 'e) mst. mwf st \<longrightarrow> pc_ok pr pc \<longrightarrow> err st \<or> unary st \<or> 0 \<le> sp st \<longrightarrow>
        parse_need st \<le> n \<longrightarrow>
        (\<exists>st'. mathparse P pr cf n pc st = Some st' \<and> parse_post pr pc st st'))"

definition loop_ok ::
  "('d, 'v, 'e) mshell \<Rightarrow> int list \<Rightarrow> ('d, 'e) caller \<Rightarrow> nat \<Rightarrow> bool" where
  "loop_ok P pr cf n \<longleftrightarrow>
     (\<forall>pc T. \<forall>st :: ('d, 'v, 'e) mst. mwf st \<longrightarrow> pc_ok pr pc \<longrightarrow> 0 \<le> T \<longrightarrow> err st \<or> fits T st \<longrightarrow>
        loop_need st \<le> n \<longrightarrow>
        (\<exists>st'. mathloop P pr cf n pc st = Some st' \<and> loop_post T st st' \<and>
           (mtok st = T_EOI \<longrightarrow> st' = st)))"

lemma add_noeval_simps [simp]:
  "ptr (add_noeval p i st) = ptr st" "mtok (add_noeval p i st) = mtok st"
  "unary (add_noeval p i st) = unary st" "sp (add_noeval p i st) = sp st"
  "stk (add_noeval p i st) = stk st" "gl (add_noeval p i st) = gl st"
  "noeval (add_noeval p i st) = noeval st + (if p then i else 0)"
  "mwf (add_noeval p i st) = mwf st"
  by (simp_all add: add_noeval_def mwf_def)

lemma loop_postI:
  assumes "mframe st st1" "err st1 \<or> same_below T st st1" "loop_post T st1 st'"
  shows "loop_post T st st'"
proof -
  have "err st1 \<longrightarrow> err st'" using assms(3) by (auto simp: loop_post_def mframe_def steady_def)
  then show ?thesis
    using assms mframe_trans [OF assms(1)]
    by (auto simp: loop_post_def pushed_def same_below_def)
qed

lemma mathparse_step:
  assumes P: "steady_shell P" and pr: "prec_ok pr" and L: "loop_ok P pr cf n"
  shows "parse_ok P pr cf (Suc n)"
  unfolding parse_ok_def
proof (intro allI impI)
  fix pc and st :: "('a, 'b, 'c) mst"
  assume m: "mwf st" and pc: "pc_ok pr pc" and u: "err st \<or> unary st \<or> 0 \<le> sp st"
    and need: "parse_need st \<le> Suc n"
  show "\<exists>st'. mathparse P pr cf (Suc n) pc st = Some st' \<and> parse_post pr pc st st'"
  proof (cases "err st")
    case True
    then show ?thesis using mframe_refl [OF m] by (simp add: parse_post_def)
  next
    case False
    obtain t st1 where z: "zzlex P st = (t, st1)" by fastforce
    let ?st2 = "st1\<lparr>mtok := t\<rparr>" and ?st3 = "checkunary P t (ptr st) (st1\<lparr>mtok := t\<rparr>)"
    note nt = next_token_spec [OF P m z]
    show ?thesis
    proof (cases "pc = top_prec pr \<and> t = T_EOI")
      case True
      then show ?thesis using False z nt by (simp add: parse_post_def)
    next
      case ne: False
      have T: "0 \<le> new_top st" using u False m by (auto simp: new_top_def mwf_def)
      have f: "err ?st3 \<or> fits (new_top st) ?st3"
        using nt by (auto simp: fits_def new_top_def)
      have "loop_need ?st3 \<le> n"
        using need False nt by (auto simp: loop_need_def parse_need_def)
      then obtain st' where st': "mathloop P pr cf n pc ?st3 = Some st'" "loop_post (new_top st) ?st3 st'"
        "mtok ?st3 = T_EOI \<longrightarrow> st' = ?st3"
        using L nt(3) pc T f unfolding loop_ok_def mframe_def by blast
      have "loop_post (new_top st) st st'"
        by (rule loop_postI [OF nt(3) _ st'(2)]) (simp add: same_below_def nt)
      moreover have "mtok st' = T_EOI \<or> length (ptr st') < length (ptr st)"
        using st' nt by (cases "t = T_EOI") (auto simp: loop_post_def mframe_def)
      ultimately show ?thesis
        using False ne z st' by (auto simp: parse_post_def loop_post_def)
    qed
  qed
qed

lemma loop_next:
  fixes st st2 :: "('d, 'v, 'e) mst"
  assumes L: "loop_ok P pr cf n" and pc: "pc_ok pr pc" and T: "0 \<le> T"
    and f: "mframe st st2" "err st2 \<or> fits T st2 \<and> same_below T st st2" and need: "loop_need st2 \<le> n"
  shows "\<exists>st'. mathloop P pr cf n pc st2 = Some st' \<and> loop_post T st st'"
proof -
  have "mwf st2" "err st2 \<or> fits T st2" using f by (auto simp: mframe_def)
  then obtain st' where "mathloop P pr cf n pc st2 = Some st'" "loop_post T st2 st'"
    using L pc T need unfolding loop_ok_def by blast
  moreover have "loop_post T st st'"
    by (rule loop_postI [OF f(1) _ \<open>loop_post T st2 st'\<close>]) (use f in auto)
  ultimately show ?thesis by blast
qed

lemma parse_okD:
  fixes st :: "('d, 'v, 'e) mst"
  assumes "parse_ok P pr cf n" "mwf st" "pc_ok pr pc" "err st \<or> unary st \<or> 0 \<le> sp st"
    and "2 * length (ptr st) + 2 \<le> n"
  shows "\<exists>st'. mathparse P pr cf n pc st = Some st' \<and> parse_post pr pc st st'"
proof -
  have "parse_need st \<le> n" using assms(5) by (simp add: parse_need_def)
  with assms(1-4) show ?thesis unfolding parse_ok_def by blast
qed

text \<open>After an operand the next token is read.\<close>

lemma loop_after_operand:
  fixes st st1 :: "('d, 'v, 'e) mst"
  assumes P: "steady_shell P" and L: "loop_ok P pr cf n" and pc: "pc_ok pr pc" and T: "0 \<le> T"
    and f: "mframe st st1" "err st1 \<or> sp st1 = T \<and> \<not> unary st1 \<and> same_below T st st1"
    and need: "2 * length (ptr st) + 2 \<le> n"
  shows "\<exists>st'. mathloop P pr cf n pc (lex_check P st1) = Some st' \<and> loop_post T st st'"
proof -
  have m1: "mwf st1" using f by (simp add: mframe_def)
  obtain t st2 where z: "zzlex P st1 = (t, st2)" by fastforce
  note nt = next_token_spec [OF P m1 z]
  have eq: "lex_check P st1 = checkunary P t (ptr st1) (st2\<lparr>mtok := t\<rparr>)"
    by (simp add: lex_check_def z)
  have fr: "mframe st (lex_check P st1)" unfolding eq by (rule mframe_trans [OF f(1) nt(3)])
  have e1: "err st1 \<longrightarrow> err (lex_check P st1)"
    using nt(3) unfolding eq by (auto simp: mframe_def steady_def)
  have "err (lex_check P st1) \<or> fits T (lex_check P st1) \<and> same_below T st (lex_check P st1)"
    using f(2) e1 nt unfolding eq by (auto simp: fits_def same_below_def)
  moreover have "loop_need (lex_check P st1) \<le> n"
    using need f(1) nt unfolding eq by (auto simp: loop_need_def mframe_def)
  ultimately show ?thesis using loop_next [OF L pc T fr] by blast
qed

lemma loop_operand:
  fixes st :: "('d, 'v, 'e) mst"
  assumes P: "steady_shell P" and cf: "caller_ok cf" and L: "loop_ok P pr cf n"
    and m: "mwf st" and pc: "pc_ok pr pc" and T: "0 \<le> T" and f: "fits T st"
    and need: "2 * length (ptr st) + 2 \<le> n" and t: "mtok st \<in> {T_NUM, T_ID, T_CID, T_FUNC}"
  shows "\<exists>st'. do { st1 \<leftarrow> push_operand P cf st; mathloop P pr cf n pc (lex_check P st1) } = Some st' \<and>
    loop_post T st st'"
proof -
  obtain st1 where p: "push_operand P cf st = Some st1" "mwf st1" "keeps st st1"
    "err st1 \<or> (sp st1 = sp st + 1 \<and> same_below (sp st + 1) st st1)"
    using push_operand_spec [OF P cf m] by blast
  have s: "sp st = T - 1" "\<not> unary st" using f t by (auto simp: fits_def)
  have "err st1 \<or> sp st1 = T \<and> \<not> unary st1 \<and> same_below T st st1"
    using p s by (auto simp: keeps_def)
  from loop_after_operand [OF P L pc T keeps_mframe [OF p(3,2)] this need] p(1)
  show ?thesis by simp
qed

lemma loop_paren:
  fixes st :: "('d, 'v, 'e) mst"
  assumes P: "steady_shell P" and pr: "prec_ok pr" and A: "parse_ok P pr cf n" and L: "loop_ok P pr cf n"
    and m: "mwf st" and pc: "pc_ok pr pc" and T: "0 \<le> T" and f: "fits T st"
    and need: "2 * length (ptr st) + 2 \<le> n" and t: "mtok st = M_INPAR"
  shows "\<exists>st'. do { st1 \<leftarrow> mathparse P pr cf n (top_prec pr) st;
       if mtok st1 \<noteq> M_OUTPAR then Some (if err st1 then st1 else merr Paren_expected st1)
       else mathloop P pr cf n pc (lex_check P st1) } = Some st' \<and> loop_post T st st'"
proof -
  have s: "sp st = T - 1" "unary st" using f t by (auto simp: fits_def)
  obtain st1 where p: "mathparse P pr cf n (top_prec pr) st = Some st1" "parse_post pr (top_prec pr) st st1"
    using parse_okD [OF A m pc_ok_top [OF pr] _ need] s by blast
  have fr: "mframe st st1" "mwf st1" using p(2) by (auto simp: parse_post_def mframe_def)
  show ?thesis
  proof (cases "mtok st1 = M_OUTPAR")
    case False
    have "loop_post T st (if err st1 then st1 else merr Paren_expected st1)"
      using fr merr_spec(1,3) [OF fr(2), of Paren_expected] merr_spec(2) mframe_trans [OF fr(1) keeps_mframe]
      by (auto simp: loop_post_def)
    then show ?thesis using p(1) False by auto
  next
    case True
    have "err st1 \<or> sp st1 = T \<and> \<not> unary st1 \<and> same_below T st st1"
      using p(2) s True by (auto simp: parse_post_def pushed_def new_top_def)
    from loop_after_operand [OF P L pc T fr(1) this need] p(1) True
    show ?thesis by simp
  qed
qed

lemma loop_default:
  fixes st :: "('d, 'v, 'e) mst"
  assumes P: "steady_shell P" and pr: "prec_ok pr" and A: "parse_ok P pr cf n" and L: "loop_ok P pr cf n"
    and m: "mwf st" and pc: "pc_ok pr pc" and T: "0 \<le> T" and f: "fits T st"
    and need: "2 * length (ptr st) + 2 \<le> n"
    and t: "mtok st \<notin> {T_NUM, T_ID, T_CID, T_FUNC, M_INPAR, T_QUEST, M_OUTPAR, T_EOI}"
  shows "\<exists>st'. do { st1 \<leftarrow> (if MTYPE (mtok st) = BOOL then bop P (mtok st) st else Some st);
       st2 \<leftarrow> mathparse P pr cf n (pr ! mtok st - (if MTYPE (mtok st) \<noteq> RL then 1 else 0)) st1;
       st3 \<leftarrow> exec_op P (mtok st) (st2\<lparr>noeval := noeval st\<rparr>);
       mathloop P pr cf n pc st3 } = Some st' \<and> loop_post T st st'"
proof -
  let ?t = "mtok st" and ?pc = "pr ! mtok st - (if MTYPE (mtok st) \<noteq> RL then 1 else 0)"
  have t53: "?t < 53" and un: "unary st = (\<not> tok_has ?t OP_OPF)"
    and s: "sp st = (if opr ?t then T else T - 1)" using f by (simp_all add: fits_def)
  note pc1 = pc_ok_default [OF pr t53 t]
  obtain st1 sta where b: "(if MTYPE ?t = BOOL then bop P ?t st else Some st) = Some st1" "mwf st1"
    "keeps st sta" "sp st1 = sp st" "same_below (min (sp st) T) st st1"
    "st1 = sta \<or> st1 = sta\<lparr>noeval := noeval sta + 1\<rparr>"
  proof (cases "MTYPE ?t = BOOL")
    case True
    then have "0 \<le> sp st" "sp st = T" using bool_opr [OF t53] s T by auto
    then show ?thesis using that bop_spec [OF P m, of ?t] True by auto
  next
    case False
    then show ?thesis using that [of st st] m by auto
  qed
  have st1: "ptr st1 = ptr st" "mtok st1 = ?t" "unary st1 = unary st" "steady (gl st) (gl st1)"
    using b(3,6) by (auto simp: keeps_def)
  have sb1: "same_below T st st1 \<or> sp st = T - 1 \<and> st1 = st"
    using b(1,5) s bool_opr [OF t53] by (cases "MTYPE ?t = BOOL") auto
  then have sb1: "same_below T st st1" by auto
  have "err st1 \<or> unary st1 \<or> 0 \<le> sp st1"
    using s T b(4) m un st1(3) by (cases "opr ?t") (auto, insert operand_tokens [OF t53] t, auto simp: table_simps)
  then obtain st2 where p: "mathparse P pr cf n ?pc st1 = Some st2" "parse_post pr ?pc st1 st2"
    using parse_okD [OF A b(2) pc1(1)] need st1(1) by auto
  let ?st2 = "st2\<lparr>noeval := noeval st\<rparr>"
  have m2: "mwf ?st2" using p(2) by (simp add: parse_post_def mframe_def mwf_def)
  have f2: "steady (gl st) (gl st2)" "length (ptr st2) \<le> length (ptr st)"
    using p(2) st1 steady_trans by (auto simp: parse_post_def mframe_def)
  have fr2: "mframe st ?st2" using m2 f2 by (simp add: mframe_def)
  have r2: "err st2 \<or> pushed (new_top st1) st1 st2"
    using p(2) pc1(2) by (auto simp: parse_post_def)
  have tgt: "new_top st1 - op_drop ?t = T" if "?t \<noteq> T_COLON"
    using token_balance [OF t53] t that s un st1(3) b(4) by (auto simp: new_top_def split: if_splits)
  have tgt': "T \<le> new_top st1" if "?t = T_COLON"
    using that s b(4) by (simp add: new_top_def)
  have od: "0 \<le> op_drop ?t" by (simp add: op_drop_def)
  have "err ?st2 \<or> op_drop ?t \<le> sp ?st2"
    using r2 tgt tgt' T od by (cases "?t = T_COLON") (auto simp: pushed_def)
  then obtain st3 where x: "exec_op P ?t ?st2 = Some st3" "mwf st3" "keeps ?st2 st3"
    "err st3 \<or> (sp st3 = sp ?st2 - op_drop ?t \<and> same_below (sp ?st2 - op_drop ?t) ?st2 st3)"
    using exec_op_spec [OF P m2 _ t53] by blast
  have fr3: "mframe st st3" by (rule mframe_trans [OF fr2 keeps_mframe [OF x(3,2)]])
  have e23: "err st2 \<longrightarrow> err st3" using x(3) by (simp add: keeps_def steady_def)
  have "err st3 \<or> fits T st3 \<and> same_below T st st3"
  proof (cases "?t = T_COLON")
    case True
    then show ?thesis using exec_op_colon [OF P m2] x(1) by simp
  next
    case False
    show ?thesis
    proof (cases "err st3")
      case ne: False
      then have pu: "pushed (new_top st1) st1 st2" using r2 e23 by blast
      then have "sp ?st2 - op_drop ?t = T" using tgt [OF False] by (simp add: pushed_def)
      then have "sp st3 = T" "same_below T st2 st3" using x(4) ne by (simp_all add: same_below_def)
      moreover have "T \<le> new_top st1" using tgt [OF False] od by linarith
      moreover have "mtok st3 = mtok st2" "unary st3 = unary st2" using x(3) by (simp_all add: keeps_def)
      ultimately show ?thesis using pu sb1
        by (auto simp: fits_def pushed_def opr_def same_below_def)
    qed simp
  qed
  moreover have "loop_need st3 \<le> n"
    using p(2) e23 need st1(1) x(3) by (auto simp: loop_need_def parse_post_def keeps_def)
  ultimately obtain st' where "mathloop P pr cf n pc st3 = Some st'" "loop_post T st st'"
    using loop_next [OF L pc T fr3] by blast
  then show ?thesis using b(1) p(1) x(1) by simp
qed

text \<open>The two branches of a condition.\<close>

lemma quest_branch:
  fixes st :: "('d, 'v, 'e) mst"
  assumes A: "parse_ok P pr cf n" and m: "mwf st" and pc: "pc_ok pr pc" "pc < top_prec pr"
    and u: "err st \<or> unary st" and need: "2 * length (ptr st) + 2 \<le> n"
  shows "\<exists>st1 st2. mathparse P pr cf n pc (add_noeval p 1 st) = Some st1 \<and>
    st2 = add_noeval p (-1) st1 \<and> mframe st st2 \<and>
    (err st2 \<or> pushed (sp st + 1) st st2) \<and>
    (err st2 \<or> mtok st2 = T_EOI \<or> length (ptr st2) < length (ptr st))"
proof -
  obtain st1 where p1: "mathparse P pr cf n pc (add_noeval p 1 st) = Some st1"
    "parse_post pr pc (add_noeval p 1 st) st1"
    using parse_okD [OF A, of "add_noeval p 1 st" pc] m pc u need by auto
  have "mframe st (add_noeval p (-1) st1)"
    using p1(2) by (auto simp: parse_post_def mframe_def)
  moreover have "err st1 \<or> pushed (sp st + 1) st (add_noeval p (-1) st1)"
    using p1(2) pc u by (auto simp: parse_post_def pushed_def new_top_def same_below_def mframe_def
        steady_def)
  ultimately show ?thesis using p1 by (auto simp: parse_post_def)
qed

lemma loop_quest:
  fixes st :: "('d, 'v, 'e) mst"
  assumes P: "steady_shell P" and pr: "prec_ok pr" and A: "parse_ok P pr cf n" and L: "loop_ok P pr cf n"
    and m: "mwf st" and pc: "pc_ok pr pc" and T: "0 \<le> T" and f: "fits T st"
    and need: "2 * length (ptr st) + 2 \<le> n" and t: "mtok st = T_QUEST"
  shows "\<exists>st'. do { st1 \<leftarrow> load_slot P (sp st) st;
       mv \<leftarrow> slot_at st1 (sp st1);
       let q = truthy P (sval mv) in
       do { st2 \<leftarrow> mathparse P pr cf n (pr ! T_COLON - 1) (add_noeval (\<not> q) 1 st1);
            let st3 = add_noeval (\<not> q) (-1) st2 in
            if mtok st3 \<noteq> T_COLON
            then Some (if err st3 then st3 else merr Colon_expected st3)
            else do {
              st4 \<leftarrow> mathparse P pr cf n (pr ! T_QUEST) (add_noeval q 1 st3);
              st5 \<leftarrow> exec_op P T_QUEST (add_noeval q (-1) st4);
              mathloop P pr cf n pc st5 } } } = Some st' \<and> loop_post T st st'"
proof -
  have s: "sp st = T" "unary st" using f t by (simp_all add: fits_def)
  note pcs = pc_ok_branch [OF pr]
  obtain st1 mv where l: "load_slot P (sp st) st = Some st1" "mwf st1" "keeps st st1" "sp st1 = T"
    "same_below T st st1" "slot_at st1 T = Some mv"
    using load_slot_spec [OF P m _ order.refl] T s by auto
  define q where "q = truthy P (sval mv)"
  have st1: "ptr st1 = ptr st" "unary st1" using l(3) s by (simp_all add: keeps_def)
  have f1: "mframe st st1" by (rule keeps_mframe [OF l(3,2)])
  obtain st2 st3 where p2: "mathparse P pr cf n (pr ! T_COLON - 1) (add_noeval (\<not> q) 1 st1) = Some st2"
    "st3 = add_noeval (\<not> q) (-1) st2" "mframe st1 st3" "err st3 \<or> pushed (T + 1) st1 st3"
    using quest_branch [OF A l(2) pcs(1,2), of "\<not> q"] st1 need l(4) by auto
  have f3: "mframe st st3" by (rule mframe_trans [OF f1 p2(3)])
  have m3: "mwf st3" using f3 by (simp add: mframe_def)
  show ?thesis
  proof (cases "mtok st3 = T_COLON")
    case False
    have "loop_post T st (if err st3 then st3 else merr Colon_expected st3)"
      using f3 merr_spec(1,3) [OF m3, of Colon_expected] merr_spec(2) mframe_trans [OF f3 keeps_mframe]
      by (auto simp: loop_post_def)
    then show ?thesis
      using l(1,4,6) p2(1,2) False by (auto simp: q_def Let_def)
  next
    case True
    have u3: "err st3 \<or> unary st3" using p2(4) True by (auto simp: pushed_def)
    have n3: "2 * length (ptr st3) + 2 \<le> n" using f3 need by (simp add: mframe_def)
    obtain st4 st4' where p4: "mathparse P pr cf n (pr ! T_QUEST) (add_noeval q 1 st3) = Some st4"
      "st4' = add_noeval q (-1) st4" "mframe st3 st4'" "err st4' \<or> pushed (sp st3 + 1) st3 st4'"
      "err st4' \<or> mtok st4' = T_EOI \<or> length (ptr st4') < length (ptr st3)"
      using quest_branch [OF A m3 pcs(3,4) u3 n3, of q] by blast
    have m4: "mwf st4'" and e34: "err st3 \<longrightarrow> err st4'" using p4(3) by (auto simp: mframe_def steady_def)
    have "err st4' \<or> op_drop T_QUEST \<le> sp st4'"
      using p4(4) p2(4) e34 T by (auto simp: pushed_def)
    then obtain st5 where x: "exec_op P T_QUEST st4' = Some st5" "mwf st5" "keeps st4' st5"
      "err st5 \<or> (sp st5 = sp st4' - 2 \<and> same_below (sp st4' - 2) st4' st5)"
      using exec_op_spec [OF P m4, of T_QUEST] by auto
    have e45: "err st4' \<longrightarrow> err st5" using x(3) by (simp add: keeps_def steady_def)
    have f5: "mframe st st5"
      by (rule mframe_trans [OF f3 mframe_trans [OF p4(3) keeps_mframe [OF x(3,2)]]])
    have "err st5 \<or> fits T st5 \<and> same_below T st st5"
    proof (cases "err st5")
      case False
      then have "pushed (T + 1) st1 st3" "pushed (sp st3 + 1) st3 st4'"
        using p2(4) p4(4) e34 e45 by auto
      then show ?thesis
        using x(3,4) l(5) by (auto simp: fits_def pushed_def opr_def same_below_def keeps_def)
    qed simp
    moreover have "loop_need st5 \<le> n"
      using p4(5) e45 x(3) n3 by (auto simp: loop_need_def keeps_def)
    ultimately obtain st' where "mathloop P pr cf n pc st5 = Some st'" "loop_post T st st'"
      using loop_next [OF L pc T f5] by blast
    then show ?thesis
      using l(1,4,6) p2(1,2) p4(1,2) x(1) True by (auto simp: q_def Let_def)
  qed
qed

lemma mathloop_step:
  assumes P: "steady_shell P" and pr: "prec_ok pr" and cf: "caller_ok cf"
    and A: "parse_ok P pr cf n" and L: "loop_ok P pr cf n"
  shows "loop_ok P pr cf (Suc n)"
  unfolding loop_ok_def
proof (intro allI impI)
  fix pc T and st :: "('a, 'b, 'c) mst"
  assume m: "mwf st" and pc: "pc_ok pr pc" and T: "0 \<le> T" and f: "err st \<or> fits T st"
    and need: "loop_need st \<le> Suc n"
  show "\<exists>st'. mathloop P pr cf (Suc n) pc st = Some st' \<and> loop_post T st st' \<and>
      (mtok st = T_EOI \<longrightarrow> st' = st)"
  proof (cases "pc < pr ! mtok st \<or> err st")
    case True
    have "err st \<or> pushed T st st"
    proof (cases "err st")
      case False
      then have "pc < pr ! mtok st" "fits T st" using True f by auto
      then show ?thesis
        using stop_opr [OF pr pc] by (auto simp: fits_def pushed_def)
    qed simp
    moreover have "mathloop P pr cf (Suc n) pc st = Some st"
      using True by (cases "pc < pr ! mtok st") (simp_all add: Let_def)
    ultimately show ?thesis using mframe_refl [OF m] by (auto simp: loop_post_def)
  next
    case False
    then have fit: "fits T st" and ne: "mtok st \<noteq> T_EOI" and no: "mtok st \<noteq> M_OUTPAR"
      and nd: "2 * length (ptr st) + 2 \<le> n"
      using f go_on_token [OF pr pc] need by (auto simp: loop_need_def)
    consider (o) "mtok st \<in> {T_NUM, T_ID, T_CID, T_FUNC}" | (p) "mtok st = M_INPAR"
      | (q) "mtok st = T_QUEST"
      | (d) "mtok st \<notin> {T_NUM, T_ID, T_CID, T_FUNC, M_INPAR, T_QUEST, M_OUTPAR, T_EOI}"
      using ne no by auto
    then show ?thesis
    proof cases
      case o
      then show ?thesis using loop_operand [OF P cf L m pc T fit nd o] False ne by (auto simp: Let_def)
    next
      case p
      then show ?thesis using loop_paren [OF P pr A L m pc T fit nd p] False ne by (simp add: Let_def)
    next
      case q
      then show ?thesis using loop_quest [OF P pr A L m pc T fit nd q] False ne by (simp add: Let_def)
    next
      case d
      then show ?thesis using loop_default [OF P pr A L m pc T fit nd d] False ne by (simp add: Let_def)
    qed
  qed
qed

theorem parser_total:
  assumes P: "steady_shell P" and pr: "prec_ok pr" and cf: "caller_ok cf"
  shows "parse_ok P pr cf n \<and> loop_ok P pr cf n"
proof (induction n)
  case 0
  show ?case by (auto simp: parse_ok_def loop_ok_def parse_need_def loop_need_def)
next
  case (Suc n)
  then show ?case
    using mathparse_step [OF P pr, of cf n] mathloop_step [OF P pr cf, of n] by blast
qed

section \<open>Evaluation\<close>

definition eval_ok :: "('d, 'e) evaluator \<Rightarrow> bool" where
  "eval_ok ev \<longleftrightarrow>
     (\<forall>mt s g. noerrs g < 2 \<longrightarrow>
        (\<exists>v r t g'. ev mt s g = Some (v, r, t, g') \<and> v \<noteq> MN_UNSET \<and> steady g g' \<and>
           (errflag g' \<or> t \<noteq> T_COMMA \<or> length r < length s)))"

lemma math_args_ok:
  assumes ev: "eval_ok ev"
  shows "noerrs g < 2 \<Longrightarrow> length a < n \<Longrightarrow>
    \<exists>vs r g'. math_args ev n a mt g args = Some (vs, r, g') \<and> steady g g'"
proof (induction n arbitrary: a mt g args)
  case (Suc n)
  obtain v r t g' where e: "ev mt a g = Some (v, r, t, g')" "steady g g'"
    "errflag g' \<or> t \<noteq> T_COMMA \<or> length r < length a"
    using ev Suc.prems(1) unfolding eval_ok_def by blast
  show ?case
  proof (cases "errflag g' \<or> t \<noteq> T_COMMA")
    case True
    then show ?thesis using e by auto
  next
    case False
    then have "length r < n" using e(3) Suc.prems(2) by auto
    moreover have "noerrs g' < 2" using e(2) Suc.prems(1) by (simp add: steady_def)
    ultimately obtain vs r' g'' where "math_args ev n r t g' (args @ [v]) = Some (vs, r', g'')"
      "steady g' g''" using Suc.IH by blast
    then show ?thesis using e False steady_trans by (cases "pk a = NUL") auto
  qed
qed simp

lemma call_with_ok:
  assumes P: "steady_shell P" and f: "steady_func f"
  shows "fst (call_with P f o1 n nums strs argc rest g) \<noteq> MN_UNSET"
    and "steady g (snd (call_with P f o1 n nums strs argc rest g))"
proof -
  define g1 where "g1 = (if pk rest \<noteq> NUL \<and> \<not> errflag g then zerr (Illegal_character (pk rest)) g else g)"
  have s1: "steady g g1" by (simp add: g1_def)
  have nf: "fst (nfunc f n nums g1) \<noteq> MN_UNSET" "steady g1 (snd (nfunc f n nums g1))"
    using f by (simp_all add: steady_func_def)
  have sh: "doshfunc P x y g1 = Some g2 \<Longrightarrow> steady g1 g2 \<and> lastmathval g2 \<noteq> MN_UNSET" for x y g2
    using P unfolding steady_shell_def by blast
  have z: "zero_mnumber \<noteq> MN_UNSET" by (simp add: zero_mnumber_def)
  have "fst (call_with P f o1 n nums strs argc rest g) \<noteq> MN_UNSET \<and>
    steady g1 (snd (call_with P f o1 n nums strs argc rest g))"
    unfolding call_with_def g1_def [symmetric] Let_def
    using nf z by (auto dest: sh split: option.split)
  then show "fst (call_with P f o1 n nums strs argc rest g) \<noteq> MN_UNSET"
    "steady g (snd (call_with P f o1 n nums strs argc rest g))"
    using steady_trans [OF s1] by auto
qed

lemma callmathfunc_ok:
  assumes P: "steady_shell P" and ev: "eval_ok ev"
  shows "caller_ok (callmathfunc P ev)"
  unfolding caller_ok_def
proof (intro allI impI)
  fix o1 and g :: "('a, 'c) mglob"
  assume n: "noerrs g < 2"
  define nm where "nm = takeWhile (\<lambda>c. c \<noteq> CHR ''('') o1"
  define a where "a = butlast (tl (dropWhile (\<lambda>c. c \<noteq> CHR ''('') o1))"
  obtain mf g1 where m: "getmathfunc P nm g = (mf, g1)" by fastforce
  have gm: "steady g (snd (getmathfunc P nm g)) \<and>
      (\<forall>f. fst (getmathfunc P nm g) = Some f \<longrightarrow> steady_func f)"
    using P by (simp add: steady_shell_def)
  then have s1: "steady g g1" and fk: "\<And>f. mf = Some f \<Longrightarrow> steady_func f" by (simp_all add: m)
  have z: "zero_mnumber \<noteq> MN_UNSET" by (simp add: zero_mnumber_def)
  have eq: "callmathfunc P ev o1 g =
     (case mf of None \<Rightarrow> Some (zero_mnumber, zerr (Unknown_function nm) g1)
      | Some f \<Rightarrow>
          if MFF_STR f \<and> \<not> MFF_USERFUNC f then Some (sfunc f nm a g1)
          else if MFF_STR f then Some (call_with P f o1 nm [] [a] 1 '''' g1)
          else do { (nums, rest, g2) \<leftarrow> math_args ev (length (dropWhile iblank a) + 1)
                                        (dropWhile iblank a) T_FUNC g1 [];
                    Some (call_with P f o1 nm nums (map (num_str P) nums)
                            (int (length nums)) rest g2) })"
    unfolding callmathfunc_def Let_def nm_def [symmetric] a_def [symmetric] m
    by (cases mf) simp_all
  show "\<exists>v g'. callmathfunc P ev o1 g = Some (v, g') \<and> v \<noteq> MN_UNSET \<and> steady g g'"
  proof (cases mf)
    case None
    then show ?thesis using z s1 steady_trans by (fastforce simp: eq)
  next
    case (Some f)
    have f: "steady_func f" by (rule fk [OF Some])
    have sf: "fst (sfunc f nm a g1) \<noteq> MN_UNSET" "steady g1 (snd (sfunc f nm a g1))"
      using f by (simp_all add: steady_func_def)
    have "noerrs g1 < 2" using s1 n by (simp add: steady_def)
    then obtain vs r g2 where ma: "math_args ev (length (dropWhile iblank a) + 1)
        (dropWhile iblank a) T_FUNC g1 [] = Some (vs, r, g2)" "steady g1 g2"
      using math_args_ok [OF ev] by (meson less_add_one)
    note cw = call_with_ok [OF P f]
    have pair: "\<exists>v g'. Some x = Some (v, g') \<and> v \<noteq> MN_UNSET \<and> steady g g'"
      if "fst x \<noteq> MN_UNSET" "steady g (snd x)" for x :: "'a mnumber \<times> ('a, 'c) mglob"
      using that by (cases x) auto
    show ?thesis
      unfolding eq Some option.case ma(1)
      using pair [OF sf(1) steady_trans [OF s1 sf(2)]]
        pair [OF cw(1) steady_trans [OF s1 cw(2)], of o1 nm "[]" "[a]" 1 "''''"]
        pair [OF cw(1) steady_trans [OF s1 steady_trans [OF ma(2) cw(2)]],
          of o1 nm vs "map (num_str P) vs" "int (length vs)" r]
      by simp
  qed
qed

lemma start_state_mwf: "noerrs g < 2 \<Longrightarrow> mwf (start_state ne mt s g)"
  by (auto simp: mwf_def start_state_def nstack_def zero_mnumber_def slot_ok_def nth_Cons'
      split: if_splits)

lemma math_result_ok:
  assumes P: "steady_shell P" and m: "mwf st"
  shows "\<exists>v g. math_result P st = Some (v, g) \<and> v \<noteq> MN_UNSET \<and> steady (gl st) g"
proof (cases "err st")
  case True
  then show ?thesis by (simp add: math_result_def)
next
  case False
  obtain mv where mv0: "stk st ! 0 = Some mv" using m by (force simp: mwf_def)
  then have "slot_ok mv" using m unfolding mwf_def by (meson zero_less_numeral)
  with mv0 have mv: "slot_at st 0 = Some mv" "slot_ok mv" by (simp_all add: slot_at_def STACKSZ_def)
  show ?thesis
  proof (cases "is_unset (sval mv)")
    case True
    from getmathparam_spec [OF P mv(2) this, of "gl st"] show ?thesis
      using False mv(1) True by (auto simp: math_result_def)
  next
    case set: False
    then show ?thesis using False mv(1) by (simp add: math_result_def)
  qed
qed

lemma mathevall_ok:
  assumes P: "steady_shell P"
  shows "eval_ok (mathevall P n arg ne)"
proof (induction n arbitrary: arg ne)
  case 0
  show ?case by (simp add: eval_ok_def errflag_zerr)
next
  case (Suc n)
  show ?case
    unfolding eval_ok_def
  proof (intro allI impI)
    fix mt s and g :: "('a, 'c) mglob"
    assume n: "noerrs g < 2"
    define pr where "pr = (if CPRECEDENCES (opts g) then c_prec else z_prec)"
    define cf where "cf = callmathfunc P (mathevall P n True 0)"
    define pc where "pc = (if arg then arg_prec pr else top_prec pr)"
    define st where "st = (start_state ne mt s g :: ('a, 'b, 'c) mst)"
    have pr: "prec_ok pr" using prec_ok_tables by (simp add: pr_def)
    have cf: "caller_ok cf" unfolding cf_def by (rule callmathfunc_ok [OF P Suc.IH])
    have pc: "pc_ok pr pc"
    proof -
      have "pc_ok pr (arg_prec pr)"
        by (simp add: pr_def pc_ok_def arg_prec_def top_prec_def c_prec_def z_prec_def)
      then show ?thesis using pc_ok_top [OF pr] by (simp add: pc_def)
    qed
    have m: "mwf st" unfolding st_def by (rule start_state_mwf [OF n])
    have A: "parse_ok P pr cf (math_fuel s)" using parser_total [OF P pr cf] by blast
    have "unary st" "length (ptr st) = length s" by (simp_all add: st_def start_state_def)
    then obtain st1 where p1: "mathparse P pr cf (math_fuel s) pc st = Some st1" "parse_post pr pc st st1"
      using parse_okD [OF A m pc] by (auto simp: math_fuel_def)
    define st2 where "st2 = (if mtok st1 = M_OUTPAR \<and> \<not> err st1 then merr Unexpected_paren st1 else st1)"
    have m1: "mwf st1" and s1: "steady (gl st) (gl st1)"
      using p1(2) by (auto simp: parse_post_def mframe_def)
    have m2: "mwf st2" "steady (gl st1) (gl st2)" "ptr st2 = ptr st1" "mtok st2 = mtok st1"
      using m1 merr_spec(1) [OF m1] merr_spec(2) [of st1]
      by (auto simp: st2_def keeps_def)
    obtain v g2 where r: "math_result P st2 = Some (v, g2)" "v \<noteq> MN_UNSET" "steady (gl st2) g2"
      using math_result_ok [OF P m2(1)] by blast
    have gst: "steady g (gl st)" by (simp add: st_def start_state_def steady_def)
    have s2: "steady g g2" by (rule steady_trans [OF gst steady_trans [OF s1 steady_trans [OF m2(2) r(3)]]])
    have len: "errflag g2 \<or> mtok st2 \<noteq> T_COMMA \<or> length (ptr st2) < length s"
    proof -
      have "err st1 \<longrightarrow> errflag g2" using m2(2) r(3) by (simp add: steady_def)
      moreover have "err st1 \<or> mtok st1 = T_EOI \<or> length (ptr st1) < length (ptr st)"
        using p1(2) by (simp add: parse_post_def)
      ultimately show ?thesis using m2 by (auto simp: st_def start_state_def)
    qed
    define g3 where "g3 = (if Suc n = MAX_MLEVEL then g2 else g2\<lparr>lastbase := lastbase g\<rparr>)\<lparr>lastmathval := v\<rparr>"
    have g3: "errflag g3 = errflag g2" "noerrs g3 = noerrs g2" by (simp_all add: g3_def)
    have "mathevall P (Suc n) arg ne mt s g = Some (v, ptr st2, mtok st2, g3)"
      unfolding mathevall.simps Let_def pr_def [symmetric] cf_def [symmetric] pc_def [symmetric]
        st_def [symmetric] p1(1) Option.bind.bind_lunit st2_def [symmetric]
      using r(1) by (simp add: g3_def)
    then show "\<exists>v r t g'. mathevall P (Suc n) arg ne mt s g = Some (v, r, t, g') \<and> v \<noteq> MN_UNSET \<and>
        steady g g' \<and> (errflag g' \<or> t \<noteq> T_COMMA \<or> length r < length s)"
      using r(2) s2 len g3 by (auto simp: steady_def)
  qed
qed

end
