(* ===== verification/Ztype_Num.thy ===== *)
theory Ztype_Num
  imports Ztype
begin

text \<open>
  \<open>zstrtol\<close> of \<open>Src/utils.c\<close> reads back the digits of a number in any base, and what it
  does with a number that does not fit into 63 bits.
\<close>

text \<open>The usual digits, small letters from ten on, and the number they stand for.\<close>

definition digit_char :: "nat \<Rightarrow> char" where
  "digit_char d = char_of (if d < 10 then 48 + d else 87 + d)"

definition digits_val :: "nat \<Rightarrow> nat list \<Rightarrow> nat" where
  "digits_val b ds = foldl (\<lambda>v d. v * b + d) 0 ds"

text \<open>The text after the digits does not go on with a digit or a \<open>_\<close>.\<close>

definition number_ends :: "nat \<Rightarrow> string \<Rightarrow> bool" where
  "number_ends b r \<longleftrightarrow>
     (case r of [] \<Rightarrow> True
      | c # _ \<Rightarrow> digit_low (int b) c = None \<and> (10 < b \<longrightarrow> digit_high (int b) c = None) \<and> c \<noteq> CHR ''_'')"

abbreviation digit_of :: "nat \<Rightarrow> char \<Rightarrow> nat option" where
  "digit_of b \<equiv> (if int b \<le> 10 then digit_low (int b) else digit_high (int b))"

lemma digit_char_code: "d < 36 \<Longrightarrow> of_char (digit_char d) = (if d < 10 then 48 + d else 87 + d)"
  by (simp add: digit_char_def)

lemma digit_char_neq:
  assumes "d < 36"
  shows "digit_char d \<noteq> CHR ''_''" "\<not> inblank (digit_char d)" "\<not> is_dash (digit_char d)"
    "digit_char d \<noteq> CHR ''+''" "digit_char d \<noteq> NUL"
proof -
  have "digit_char d = c \<Longrightarrow> of_char c = (if d < 10 then 48 + d else 87 + d)" for c
    using digit_char_code [OF assms] by auto
  then show "digit_char d \<noteq> CHR ''_''" "\<not> inblank (digit_char d)" "\<not> is_dash (digit_char d)"
    "digit_char d \<noteq> CHR ''+''" "digit_char d \<noteq> NUL"
    using assms by (fastforce simp: inblank_def is_dash_def NUL_def split: if_splits)+
qed

lemma and_31: "(n :: nat) AND 31 = n mod 32"
  using take_bit_eq_mask [of 5 n] by (simp add: take_bit_eq_mod mask_eq_exp_minus_1)

lemma digit_of_char:
  assumes "d < b" "b \<le> 36"
  shows "digit_of b (digit_char d) = Some d"
proof -
  have c: "of_char (digit_char d) = (if d < 10 then 48 + d else 87 + d)"
    using assms by (intro digit_char_code) simp
  have i: "(of_char (digit_char d) :: int) = (if d < 10 then 48 + int d else 87 + int d)"
    by (subst of_nat_of_char [symmetric], subst c) simp
  show ?thesis
  proof (cases "d < 10")
    case True
    then show ?thesis using assms c i by (simp add: digit_low_def digit_high_def idigit_def between_def)
  next
    case False
    have "87 + d = d - 9 + 32 * 3" using False by simp
    then have "(87 + d) mod 32 = (d - 9) mod 32" by (simp only: mod_mult_self2)
    then have "(87 + d) mod 32 + 9 = d" using assms False by simp
    then have m: "((of_char (digit_char d) :: nat) AND 31) + 9 = d"
      using False c by (simp only: and_31 if_False)
    have "\<not> idigit (digit_char d)" using False c by (simp add: idigit_def between_def)
    moreover have "97 \<le> (of_char (digit_char d) :: int)" "(of_char (digit_char d) :: int) < 97 + int b - 10"
      using False assms unfolding i by simp_all
    moreover have "\<not> b \<le> 10" using False assms by simp
    ultimately show ?thesis using m by (simp add: digit_high_def)
  qed
qed

lemma of_nat_less_iff64: "v < 2 ^ 64 \<Longrightarrow> w < 2 ^ 64 \<Longrightarrow> (of_nat v :: zlong) < of_nat w \<longleftrightarrow> v < w"
  by (simp add: word_less_nat_alt unat_of_nat)

lemma foldl_mono:
  fixes b c :: nat
  assumes "0 < b"
  shows "c \<le> foldl (\<lambda>v d. v * b + d) c ds"
proof (induction ds arbitrary: c)
  case (Cons d ds)
  have "c \<le> c * b + d" using assms by (cases b) simp_all
  then show ?case using Cons.IH [of "c * b + d"] by simp
qed simp

lemma zdigits_number:
  assumes "0 < b" "\<forall>d \<in> set ds. dv (digit_char d) = Some d \<and> digit_char d \<noteq> CHR ''_''"
    and "r = [] \<or> dv (hd r) = None \<and> hd r \<noteq> CHR ''_''"
    and "foldl (\<lambda>v d. v * b + d) c ds < 2 ^ 64"
  shows "zdigits dv und (of_nat b) (map digit_char ds @ r) i (of_nat c) None =
    (r, i + length ds, of_nat (foldl (\<lambda>v d. v * b + d) c ds), None)"
  using assms(2-)
proof (induction ds arbitrary: i c)
  case Nil
  then show ?case by (cases r) auto
next
  case (Cons d ds)
  have "c * b + d < 2 ^ 64"
    using foldl_mono [OF \<open>0 < b\<close>, of "c * b + d" ds] Cons.prems(3) by simp
  moreover have "c \<le> c * b + d" using \<open>0 < b\<close> by (cases b) simp_all
  ultimately have "\<not> (of_nat (c * b + d) :: zlong) < of_nat c"
    using of_nat_less_iff64 [of "c * b + d" c] by simp
  moreover have n: "(of_nat c :: zlong) * of_nat b + of_nat d = of_nat (c * b + d)" by simp
  ultimately have "zdigits dv und (of_nat b) (map digit_char (d # ds) @ r) i (of_nat c) None =
      zdigits dv und (of_nat b) (map digit_char ds @ r) (i + 1) (of_nat (c * b + d)) None"
    using Cons.prems(1) by (simp add: Let_def del: of_nat_add of_nat_mult)
  also have "\<dots> = (r, i + 1 + length ds, of_nat (foldl (\<lambda>v d. v * b + d) (c * b + d) ds), None)"
    by (rule Cons.IH) (use Cons.prems in simp_all)
  finally show ?case by simp
qed

text \<open>The number as the loops leave it, before the test for the sign.\<close>

lemma zstrtol_number:
  fixes b ds
  defines "v \<equiv> digits_val b ds"
  assumes b: "2 \<le> b" "b \<le> 36" and ds: "ds \<noteq> []" "\<forall>d \<in> set ds. d < b"
    and r: "number_ends b r" and v: "v < 2 ^ 64"
  shows "zstrtol_underscore ((if neg then ''-'' else '''') @ map digit_char ds @ r) (int b) und g =
    (if (of_nat v :: zlong) <s 0 \<and> (\<not> neg \<or> (of_nat v :: zlong) AND NOT (push_bit 63 1) \<noteq> 0)
     then (if neg then - (of_nat v div of_nat b) else of_nat v div of_nat b, r,
           zwarn (Number_truncated (length ds - 1) (map digit_char ds @ r)) g)
     else (if neg then - of_nat v else of_nat v, r, g))"
proof -
  let ?t = "map digit_char ds @ r"
  obtain d ds' where d: "ds = d # ds'" using ds by (cases ds) auto
  have "d < 36" using ds b d by simp
  note c = digit_char_neq [OF this]
  have "zdigits (digit_of b) und (of_nat b) ?t 0 (of_nat 0) None = (r, 0 + length ds, of_nat v, None)"
    unfolding v_def digits_val_def
  proof (rule zdigits_number)
    show "\<forall>d \<in> set ds. digit_of b (digit_char d) = Some d \<and> digit_char d \<noteq> CHR ''_''"
      using ds b digit_of_char digit_char_neq(1) by fastforce
    show "r = [] \<or> digit_of b (hd r) = None \<and> hd r \<noteq> CHR ''_''"
      using r by (auto simp: number_ends_def split: list.splits)
  qed (use b v in \<open>simp_all add: v_def digits_val_def\<close>)
  then have z: "zdigits (digit_of b) und (of_nat b) ?t 0 0 None = (r, length ds, of_nat v, None)" by simp
  have s: "dropWhile inblank (CHR ''-'' # ?t) = CHR ''-'' # ?t" "dropWhile inblank ?t = ?t"
    "\<not> is_dash (pk ?t)" "pk ?t \<noteq> CHR ''+''" "is_dash CHR ''-''"
    using c by (simp_all add: d inblank_def is_dash_def)
  have "\<not> (int b < 2 \<or> 36 < int b)" "zbase (int b) ?t = (int b, ?t)" using b by (simp_all add: zbase_def)
  then show ?thesis
    using s z by (cases neg) (simp_all add: zstrtol_underscore_def Let_def d)
qed

lemma word_sign:
  assumes v: "v < 2 ^ 64"
  shows "(of_nat v :: zlong) <s 0 \<longleftrightarrow> 2 ^ 63 \<le> v"
proof -
  have s: "sint (of_nat v :: zlong) = (int v + 2 ^ 63) mod 2 ^ 64 - 2 ^ 63"
    using int_word_sint [where 'a = 64, of "int v"] by simp
  show ?thesis
  proof (cases "2 ^ 63 \<le> v")
    case True
    have "int v + 2 ^ 63 = int v - 2 ^ 63 + 2 ^ 64" by simp
    then have "(int v + 2 ^ 63) mod 2 ^ 64 = (int v - 2 ^ 63) mod 2 ^ 64" by (metis mod_add_self2)
    also have "\<dots> = int v - 2 ^ 63" using True v by (intro mod_pos_pos_trivial) auto
    finally show ?thesis using s True v by (simp add: word_sless_alt)
  next
    case False
    then have "(int v + 2 ^ 63) mod 2 ^ 64 = int v + 2 ^ 63" by (intro mod_pos_pos_trivial) auto
    then show ?thesis using s False by (simp add: word_sless_alt)
  qed
qed

lemma low_bits:
  assumes "v < 2 ^ 64" "2 ^ 63 \<le> v"
  shows "(of_nat v :: zlong) AND NOT (push_bit 63 1) = 0 \<longleftrightarrow> v = 2 ^ 63"
proof -
  have "NOT (push_bit 63 1) = (mask 63 :: zlong)"
    by code_simp
  then have "(of_nat v :: zlong) AND NOT (push_bit 63 1) = take_bit 63 (of_nat v)"
    by (simp only: take_bit_eq_mask)
  also have "\<dots> = of_nat (take_bit 63 v)" by (rule bit_word_eqI) (auto simp: bit_simps)
  also have "\<dots> = of_nat (v mod 2 ^ 63)" by (simp only: take_bit_eq_mod)
  also have "\<dots> = 0 \<longleftrightarrow> v mod 2 ^ 63 = 0"
  proof -
    have "unat (of_nat (v mod 2 ^ 63) :: zlong) = v mod 2 ^ 63"
      using mod_less_divisor [of "2 ^ 63" v] by (simp add: unat_of_nat)
    then show ?thesis by (simp only: word_unat_eq_iff unat_0)
  qed
  also have "\<dots> \<longleftrightarrow> v = 2 ^ 63"
    using assms by (auto elim!: dvdE simp: mod_eq_0_iff_dvd)
  finally show ?thesis .
qed

end
