(* ===== verification/Math_Words.thy ===== *)
theory Math_Words
  imports Math_Arith Math_Total Ztype_Num
begin

text \<open>
  The lexer of \<open>Src/math.c\<close> reads the words of a printed expression one by one, and the
  operators work on the top of the value stack as \<open>Math_Arith\<close> says.
\<close>

section \<open>Words\<close>

definition brk :: "string \<Rightarrow> bool" where
  "brk r \<longleftrightarrow> pk r = NUL \<or> pk r = CHR '' ''"

lemma brk_simps [simp]: "brk []" "brk (CHR '' '' # r)" "brk (words ws)" "brk (words ws @ CHR '' '' # r)"
  by (simp_all add: brk_def words_def pk_def split: list.splits)
    (cases ws; simp)+

lemma brk_words: "brk r \<Longrightarrow> brk (words ws @ r)"
  by (cases ws) (simp_all add: brk_def)

lemma brk_neq: "brk r \<Longrightarrow> c \<noteq> NUL \<Longrightarrow> c \<noteq> CHR '' '' \<Longrightarrow> pk r \<noteq> c"
  by (auto simp: brk_def)

lemma lex_blank:
  assumes "ptr st = CHR '' '' # s"
  shows "zzlex P st = zzlex P (st\<lparr>ptr := s\<rparr>)"
  using assms
  by (subst zzlex.simps)
    (simp add: zzlex1_def Let_def lex_plus_paren_bits_def lex_mul_cmp_def is_dash_def inblank_def NUL_def)

lemmas lex_defs = zzlex1_def Let_def lex_plus_paren_bits_def lex_mul_cmp_def is_dash_def op4_def op2_def

lemma zzlex_word:
  assumes "ptr st = CHR '' '' # w @ r" "zzlex1 P (st\<lparr>ptr := w @ r\<rparr>) = (Some t, st\<lparr>ptr := r\<rparr>)"
  shows "zzlex P st = (t, st\<lparr>ptr := r\<rparr>)"
  using assms(2) unfolding lex_blank [OF assms(1)] by (subst zzlex.simps) simp

lemma lex_binop:
  assumes "ptr st = CHR '' '' # binop_text b @ r" "brk r" "\<not> unary st"
  shows "zzlex P st = (binop_tok b, st\<lparr>ptr := r\<rparr>)"
proof (rule zzlex_word [OF assms(1)])
  have r: "pk r = NUL \<or> pk r = CHR '' ''" using assms(2) by (simp add: brk_def)
  show "zzlex1 P (st\<lparr>ptr := binop_text b @ r\<rparr>) = (Some (binop_tok b), st\<lparr>ptr := r\<rparr>)"
    using r assms(3) by (cases b) (auto simp: lex_defs NUL_def lex_minus_def)
qed

lemma lex_unop:
  assumes "ptr st = CHR '' '' # unop_text u @ r" "brk r" "unary st"
  shows "zzlex P st = (unop_tok u, st\<lparr>ptr := r\<rparr>)"
proof (rule zzlex_word [OF assms(1)])
  have r: "pk r = NUL \<or> pk r = CHR '' ''" using assms(2) by (simp add: brk_def)
  show "zzlex1 P (st\<lparr>ptr := unop_text u @ r\<rparr>) = (Some (unop_tok u), st\<lparr>ptr := r\<rparr>)"
    using r assms(3)
    by (cases u) (auto simp: lex_defs NUL_def lex_minus_def const_start_def idigit_def between_def)
qed

lemma lex_paren:
  "ptr st = CHR '' '' # ''('' @ r \<Longrightarrow> zzlex P st = (M_INPAR, st\<lparr>ptr := r\<rparr>)"
  "ptr st = CHR '' '' # '')'' @ r \<Longrightarrow> zzlex P st = (M_OUTPAR, st\<lparr>ptr := r\<rparr>)"
  "ptr st = CHR '' '' # '':'' @ r \<Longrightarrow> zzlex P st = (T_COLON, st\<lparr>ptr := r\<rparr>)"
  "ptr st = CHR '' '' # ''?'' @ r \<Longrightarrow> \<not> unary st \<Longrightarrow> zzlex P st = (T_QUEST, st\<lparr>ptr := r\<rparr>)"
  by (erule zzlex_word, simp add: lex_defs NUL_def)+

lemma lex_end: "ptr st = [] \<Longrightarrow> zzlex P st = (T_EOI, st)"
  by (subst zzlex.simps) (simp add: zzlex1_def Let_def)

section \<open>Numbers\<close>

lemma digit_char_10: "d < 10 \<Longrightarrow> digit d = digit_char d"
  by (simp add: digit_def digit_char_def)

lemma dec_digits:
  "\<exists>ds. dec n = map digit_char ds \<and> ds \<noteq> [] \<and> (\<forall>d \<in> set ds. d < 10) \<and> digits_val 10 ds = n \<and>
     (hd ds = 0 \<longrightarrow> n = 0 \<and> ds = [0])"
proof (induction n rule: dec.induct)
  case (1 n)
  show ?case
  proof (cases "n < 10")
    case True
    then show ?thesis
      by (intro exI [of _ "[n]"]) (subst dec.simps, simp add: digit_char_10 digits_val_def)
  next
    case False
    then obtain ds where ds: "dec (n div 10) = map digit_char ds" "ds \<noteq> []" "\<forall>d \<in> set ds. d < 10"
      "digits_val 10 ds = n div 10" "hd ds = 0 \<longrightarrow> n div 10 = 0 \<and> ds = [0]"
      using 1 [OF False] by (elim exE conjE) (rule that)
    have "digits_val 10 (ds @ [n mod 10]) = n div 10 * 10 + n mod 10" using ds(4) by (simp add: digits_val_def)
    moreover have "n div 10 \<noteq> 0" using False by (simp add: div_eq_0_iff)
    moreover have "dec n = map digit_char (ds @ [n mod 10])"
      using False ds(1) by (subst dec.simps) (simp add: digit_char_10)
    moreover have "hd (ds @ [n mod 10]) \<noteq> 0" using ds calculation by auto
    ultimately show ?thesis using ds(3) by (intro exI [of _ "ds @ [n mod 10]"]) simp
  qed
qed

lemma digit_char_0: "digit_char 0 = CHR ''0''"
  by code_simp

lemma idigit_char: "d < 10 \<Longrightarrow> idigit (digit_char d)"
  by (simp add: idigit_def between_def digit_char_def)

lemma brk_number_ends: "brk r \<Longrightarrow> number_ends 10 r"
  by (auto simp: brk_def number_ends_def digit_low_def NUL_def split: list.splits)

lemma lex_integer_dec:
  assumes r: "brk r" and n: "int n < 2 ^ 63" and f: "\<not> FORCEFLOAT (opts (gl st))" and p: "ptr st = dec n @ r"
  shows "lex_integer P st = (T_NUM, st\<lparr>ptr := r, yyval := MN_INTEGER (of_nat n)\<rparr>)"
proof -
  obtain ds where ds: "dec n = map digit_char ds" "ds \<noteq> []" "\<forall>d \<in> set ds. d < 10" "digits_val 10 ds = n"
    using dec_digits [of n] by (elim exE conjE) (rule that)
  have n': "n < 2 ^ 63" using n by simp
  have "digits_val 10 ds < 2 ^ 64" using n' ds(4) by simp
  then have z: "zstrtol_underscore (map digit_char ds @ r) 10 True (gl st) = (of_nat n, r, gl st)"
    using zstrtol_number [of 10 ds r False True "gl st"] word_sign [of n] n' ds brk_number_ends [OF r] by simp
  have e: "st\<lparr>ptr := r, gl := gl st\<rparr> = st\<lparr>ptr := r\<rparr>" by (cases st) simp
  have "pk r \<noteq> CHR ''#''" using r by (auto simp: brk_def NUL_def)
  then show ?thesis
    using f e by (simp add: lex_integer_def read_zlong_def p ds(1) z set_const_def)
qed

lemma lexconstant_dec:
  assumes r: "brk r" and n: "int n < 2 ^ 63" and f: "\<not> FORCEFLOAT (opts (gl st))" and p: "ptr st = dec n @ r"
  shows "lexconstant P st = (T_NUM, st\<lparr>ptr := r, yyval := MN_INTEGER (of_nat n)\<rparr>)"
proof -
  obtain ds where ds: "dec n = map digit_char ds" "ds \<noteq> []" "\<forall>d \<in> set ds. d < 10"
    "hd ds = 0 \<longrightarrow> n = 0 \<and> ds = [0]"
    using dec_digits [of n] by (elim exE conjE) (rule that)
  obtain d ds' where d: "ds = d # ds'" using ds by (cases ds) auto
  have d10: "d < 10" using ds d by simp
  have sk: "skip_num r = r" "pk r \<noteq> CHR ''.''" "\<not> is_e (pk r)" "pk r \<notin> {CHR ''x'', CHR ''X'', CHR ''b'', CHR ''B''}"
    using r by (cases r; auto simp: skip_num_def brk_def is_e_def NUL_def idigit_def between_def)+
  have skd: "skip_num (map digit_char es @ r) = r" if "\<forall>d \<in> set es. d < 10" for es
    using that by (induction es) (simp_all add: sk, simp_all add: skip_num_def idigit_char)
  note i = lex_integer_dec [OF r n f p]
  have dash: "\<not> is_dash (digit_char d)" using d10 by (intro digit_char_neq) simp
  show ?thesis
  proof (cases "d = 0")
    case True
    then have "ptr st = CHR ''0'' # r" using ds p d digit_char_0 by simp
    then show ?thesis
      using i sk by (simp add: lexconstant_def Let_def is_dash_def lex_decimal_def)
  next
    case False
    have "digit_char d \<noteq> CHR ''0''"
    proof
      assume "digit_char d = CHR ''0''"
      then have "(of_char (digit_char d) :: nat) = 48" by simp
      then show False using digit_char_code [of d] d10 False by simp
    qed
    then show ?thesis
      using i sk skd [of ds] ds p dash by (simp add: lexconstant_def Let_def lex_decimal_def d)
  qed
qed

lemma lex_num:
  assumes p: "ptr st = CHR '' '' # dec n @ r" and r: "brk r" and n: "int n < 2 ^ 63"
    and f: "\<not> FORCEFLOAT (opts (gl st))"
  shows "zzlex P st = (T_NUM, st\<lparr>ptr := r, yyval := MN_INTEGER (of_nat n)\<rparr>)"
proof -
  obtain ds where ds: "dec n = map digit_char ds" "ds \<noteq> []" "\<forall>d \<in> set ds. d < 10"
    using dec_digits [of n] by (elim exE conjE) (rule that)
  obtain d ds' where d: "ds = d # ds'" using ds by (cases ds) auto
  define c where "c = digit_char d"
  have c: "idigit c" using ds d by (simp add: c_def idigit_char)
  have neq: "c \<noteq> x" if "\<not> idigit x" for x using c that by auto
  have l: "lexconstant P (st\<lparr>ptr := dec n @ r\<rparr>) = (T_NUM, st\<lparr>ptr := r, yyval := MN_INTEGER (of_nat n)\<rparr>)"
    using lexconstant_dec [OF r n, of "st\<lparr>ptr := dec n @ r\<rparr>" P] f by simp
  have e: "dec n @ r = c # map digit_char ds' @ r" by (simp add: ds d c_def)
  have "zzlex1 P (st\<lparr>ptr := dec n @ r\<rparr>) = apfst Some (lexconstant P (st\<lparr>ptr := dec n @ r\<rparr>))"
    unfolding e using c
    by (simp add: lex_defs neq idigit_def between_def inblank_def lex_default_def const_start_def NUL_def)
  then have "zzlex1 P (st\<lparr>ptr := dec n @ r\<rparr>) =
      (Some T_NUM, st\<lparr>ptr := r, yyval := MN_INTEGER (of_nat n)\<rparr>)"
    using l by simp
  then show ?thesis unfolding lex_blank [OF p] by (subst zzlex.simps) simp
qed

section \<open>Tokens of operators\<close>

text \<open>The sets of flags as numbers: an operator of two operands (124), or any after an operand (252),
  an assignment (96), a token after which an operator is expected (256).\<close>

lemma binop_flags [simp]:
  "tok_has (binop_tok b) 124"
  "tok_has (binop_tok b) 252"
  "\<not> tok_has (binop_tok b) 256" "\<not> tok_has (binop_tok b) 96"
  "binop_tok b \<noteq> T_EQ"
  by (cases b; simp add: tok_has_def op_type_def)+

lemma binop_type:
  "MTYPE (binop_tok b) = (if b = Land \<or> b = Lor then BOOL else if right_assoc b then RL else LR)"
  by (cases b) (simp_all add: MTYPE_def op_type_def right_assoc_def)

lemma unop_flags [simp]:
  "\<not> tok_has (unop_tok u) 124"
  "\<not> tok_has (unop_tok u) 252"
  "\<not> tok_has (unop_tok u) 256" "MTYPE (unop_tok u) = RL"
  by (cases u; simp add: tok_has_def op_type_def MTYPE_def)+

section \<open>The top of the stack\<close>

text \<open>The entry at index \<open>i\<close> holds an integer.\<close>

definition int_at :: "('d, 'v, 'e) mst \<Rightarrow> int \<Rightarrow> zlong \<Rightarrow> bool" where
  "int_at st i w \<longleftrightarrow> (\<exists>mv. slot_at st i = Some mv \<and> sval mv = MN_INTEGER w)"

lemma int_at_pop:
  "int_at st (sp st) w \<Longrightarrow> \<not> err st \<Longrightarrow> pop P False st = Some (MN_INTEGER w, st\<lparr>sp := sp st - 1\<rparr>)"
  by (auto simp: int_at_def pop_def load_slot_def is_unset_def)

lemma int_at_sp [simp]: "int_at (st\<lparr>sp := k\<rparr>) i w = int_at st i w"
  by (simp add: int_at_def slot_at_def)

definition put :: "int \<Rightarrow> 'd mnumber \<Rightarrow> ('d, 'v, 'e) mst \<Rightarrow> ('d, 'v, 'e) mst" where
  "put i v st = set_slot i \<lparr>lval = None, pval = None, sval = v\<rparr> (st\<lparr>sp := i\<rparr>)"

lemma put_fields [simp]:
  "ptr (put i v st) = ptr st" "mtok (put i v st) = mtok st" "unary (put i v st) = unary st"
  "noeval (put i v st) = noeval st" "gl (put i v st) = gl st" "sp (put i v st) = i"
  "length (stk (put i v st)) = length (stk st)"
  by (simp_all add: put_def set_slot_def)

lemma put_at: "length (stk st) = 100 \<Longrightarrow> 0 \<le> i \<Longrightarrow> i < 100 \<Longrightarrow> int_at (put i (MN_INTEGER w) st) i w"
  by (simp add: int_at_def slot_at_def put_def set_slot_def STACKSZ_def)

lemma put_below: "0 \<le> i \<Longrightarrow> same_below i st (put i v st)"
  by (auto simp: same_below_def put_def set_slot_def nth_list_update)

lemma push_put: "-1 \<le> sp st \<Longrightarrow> sp st < 99 \<Longrightarrow> push v None False st = Some (put (sp st + 1) v st)"
  by (simp add: push_def Let_def STACKSZ_def put_def)

lemma int_at_below:
  "int_at st i w \<Longrightarrow> same_below k st st' \<Longrightarrow> i < k \<Longrightarrow> length (stk st') = 100 \<Longrightarrow> int_at st' i w"
  by (auto simp: int_at_def slot_at_def same_below_def STACKSZ_def split: if_splits)

section \<open>Operators\<close>

lemma exec_binop:
  assumes e: "\<not> err st" and s: "1 \<le> sp st" "sp st < 100"
    and a: "int_at st (sp st - 1) (word_of_int x)" and b: "int_at st (sp st) (word_of_int y)"
    and r: "in_range x" "in_range y" and v: "noeval st = 0 \<longrightarrow> binop_val bo x y = Some v"
  shows "exec_op P (binop_tok bo) st =
    Some (put (sp st - 1) (MN_INTEGER (if noeval st = 0 then word_of_int v else 0)) st)"
proof -
  let ?t = "binop_tok bo"
  let ?st = "st\<lparr>sp := sp st - 2\<rparr>"
  have pops: "pop P False st = Some (MN_INTEGER (word_of_int y), st\<lparr>sp := sp st - 1\<rparr>)"
    "pop P (?t = T_EQ) (st\<lparr>sp := sp st - 1\<rparr>) = Some (MN_INTEGER (word_of_int x), ?st)"
    using int_at_pop [OF b e, of P] int_at_pop [of "st\<lparr>sp := sp st - 1\<rparr>" "word_of_int x" P] a e by simp_all
  have co: "coerce_args P ?t (MN_INTEGER (word_of_int x)) (MN_INTEGER (word_of_int y)) =
      (MN_INTEGER (word_of_int x), MN_INTEGER (word_of_int y))"
    by (simp add: coerce_args_def to_integer_def same_type_def)
  have st: "op_store P ?t c ?st = Some (put (sp st - 1) c st)" for c
    using s push_put [of ?st c] by (simp add: op_store_def put_def)
  have ar: "arith P ?t (MN_INTEGER (word_of_int x)) (MN_INTEGER (word_of_int y)) =
      Some (Inr (MN_INTEGER (word_of_int v)))" if "noeval st = 0"
  proof (cases "bo = Bcomma")
    case True
    then show ?thesis using v that by (simp add: arith_def)
  next
    case False
    then have "arith P ?t (MN_INTEGER (word_of_int x)) (MN_INTEGER (word_of_int y)) =
        int_arith P ?t (word_of_int x) (word_of_int y)"
      by (cases bo) (simp_all add: arith_def)
    also have "\<dots> = Some (Inr (MN_INTEGER (word_of_int v)))"
      by (rule int_arith_val [OF r False]) (use v that in simp)
    finally show ?thesis .
  qed
  have "op_binary P ?t st = Some (put (sp st - 1) (MN_INTEGER (if noeval st = 0 then word_of_int v else 0)) st)"
    unfolding op_binary_def using pops e co st ar by (cases "noeval st = 0") (simp_all add: Let_def)
  then show ?thesis using e s unfolding exec_op_def by simp
qed

lemma exec_unop:
  assumes e: "\<not> err st" and s: "0 \<le> sp st" "sp st < 100" "length (stk st) = 100"
    and a: "int_at st (sp st) (word_of_int x)" and r: "in_range x"
  shows "exec_op P (unop_tok u) st = Some (put (sp st) (MN_INTEGER (word_of_int (unop_val u x))) st)"
proof -
  obtain mv where mv: "slot_at st (sp st) = Some mv" "sval mv = MN_INTEGER (word_of_int x)"
    using a by (auto simp: int_at_def)
  have l: "load_slot P (sp st) st = Some st" by (simp add: load_slot_def mv is_unset_def)
  have d: "drop_lval (set_slot (sp st) (mv\<lparr>sval := v\<rparr>) st) = Some (put (sp st) v st)"
    "drop_lval st = Some (put (sp st) (sval mv) st)" for v
    using s mv(1) by (cases mv; simp add: drop_lval_def set_slot_def slot_at_def put_def STACKSZ_def)+
  have "op_unary P (unop_tok u) st = Some (put (sp st) (MN_INTEGER (word_of_int (unop_val u x))) st)"
    using e l mv num_unop [OF r, of P] by (cases u) (simp_all add: op_unary_def Let_def d)
  then show ?thesis using e s unfolding exec_op_def by simp
qed

lemma exec_quest:
  assumes e: "\<not> err st" and s: "2 \<le> sp st" "sp st < 100" "length (stk st) = 100"
    and a: "int_at st (sp st - 2) u" and b: "int_at st (sp st - 1) v" and c: "int_at st (sp st) w"
  shows "exec_op P T_QUEST st = Some (put (sp st - 2) (MN_INTEGER (if u \<noteq> 0 then v else w)) st)"
proof -
  let ?v = "MN_INTEGER (if u \<noteq> 0 then v else w)"
  let ?s1 = "st\<lparr>sp := sp st - 1\<rparr>" and ?s2 = "st\<lparr>sp := sp st - 2\<rparr>" and ?s3 = "st\<lparr>sp := sp st - 3\<rparr>"
  obtain mv where mv: "slot_at st (sp st) = Some mv" "sval mv = MN_INTEGER w"
    using c by (auto simp: int_at_def)
  have l: "load_slot P (sp st) st = Some st" by (simp add: load_slot_def mv is_unset_def)
  have pops: "pop P False st = Some (MN_INTEGER w, ?s1)" "pop P False ?s1 = Some (MN_INTEGER v, ?s2)"
    "pop P False ?s2 = Some (MN_INTEGER u, ?s3)"
    using int_at_pop [OF c e, of P] int_at_pop [of ?s1 v P] int_at_pop [of ?s2 u P] a b e by simp_all
  have p: "push ?v None False ?s3 = Some (put (sp st - 2) ?v st)"
    using s push_put [of ?s3 ?v] by (simp add: put_def)
  have d: "drop_lval (put (sp st - 2) ?v st) = Some (put (sp st - 2) ?v st)"
    using s by (simp add: drop_lval_def put_def set_slot_def slot_at_def STACKSZ_def)
  have t: "truthy P (MN_INTEGER u) = (u \<noteq> 0)" by (simp add: truthy_def)
  have "op_quest P st = Some (put (sp st - 2) ?v st)"
    unfolding op_quest_def using pops p d e t by (cases "u = 0") simp_all
  moreover have "op_unary P T_QUEST st = op_quest P st"
    using e l mv by (simp add: op_unary_def Let_def)
  ultimately show ?thesis using e s by (simp add: exec_op_def tok_has_def op_type_def)
qed

end
