(* ===== verification/Math_Refine.thy ===== *)
theory Math_Refine
  imports Math_Words
begin

text \<open>
  The parser of \<open>Src/math.c\<close> on the text of an expression: \<open>mathparse\<close> reads the words up to
  the operator that follows, and pushes the value of the reference semantics.
\<close>

section \<open>The token that follows\<close>

definition follows :: "('d, 'v, 'e) mshell \<Rightarrow> string \<Rightarrow> token \<Rightarrow> string \<Rightarrow> bool" where
  "follows P r t r2 \<longleftrightarrow> brk r \<and> length r2 \<le> length r \<and>
     (\<forall>st :: ('d, 'v, 'e) mst. ptr st = r \<longrightarrow> \<not> unary st \<longrightarrow>
        lex_check P st = st\<lparr>ptr := r2, mtok := t, unary := \<not> tok_has t 256\<rparr>)"

lemma followsI:
  assumes "brk r" "length r2 \<le> length r" "tok_has t 252"
    and "\<And>st :: ('d, 'v, 'e) mst. ptr st = r \<Longrightarrow> \<not> unary st \<Longrightarrow> zzlex P st = (t, st\<lparr>ptr := r2\<rparr>)"
  shows "follows P r t r2"
  using assms by (simp add: follows_def lex_check_def checkunary_def Let_def)

lemma follows_binop: "brk r \<Longrightarrow> follows P (CHR '' '' # binop_text b @ r) (binop_tok b) r"
  by (rule followsI) (simp_all add: lex_binop)

lemma follows_words:
  "follows P (CHR '' '' # '')'' @ r) M_OUTPAR r"
  "follows P (CHR '' '' # '':'' @ r) T_COLON r"
  "follows P (CHR '' '' # ''?'' @ r) T_QUEST r"
  "follows P [] T_EOI []"
  by (rule followsI; simp add: lex_binop lex_paren [simplified] lex_end tok_has_def op_type_def)+

section \<open>Reading an operand\<close>

definition ready :: "('d, 'v, 'e) mst \<Rightarrow> bool" where
  "ready st \<longleftrightarrow> length (stk st) = 100 \<and> \<not> err st \<and> 0 \<le> noeval st \<and> -1 \<le> sp st \<and>
     \<not> FORCEFLOAT (opts (gl st))"

text \<open>One integer more on the stack; the one given where expressions are evaluated.\<close>

definition pushed_int :: "('d, 'v, 'e) mst \<Rightarrow> ('d, 'v, 'e) mst \<Rightarrow> int option \<Rightarrow> bool" where
  "pushed_int st st' s \<longleftrightarrow>
     gl st' = gl st \<and> noeval st' = noeval st \<and> sp st' = sp st + 1 \<and> length (stk st') = 100 \<and>
     same_below (sp st + 1) st st' \<and>
     (\<exists>x. in_range x \<and> int_at st' (sp st') (word_of_int x) \<and> (noeval st = 0 \<longrightarrow> s = Some x))"

text \<open>What the lexer changes does not matter to the stack.\<close>

lemma stack_fields [simp]:
  "int_at (st\<lparr>ptr := p\<rparr>) i w = int_at st i w" "int_at (st\<lparr>mtok := t\<rparr>) i w = int_at st i w"
  "int_at (st\<lparr>unary := b\<rparr>) i w = int_at st i w" "int_at (st\<lparr>yyval := v\<rparr>) i w = int_at st i w"
  "int_at (st\<lparr>noeval := k\<rparr>) i w = int_at st i w"
  "same_below j (st\<lparr>ptr := p\<rparr>) st' = same_below j st st'" "same_below j (st\<lparr>mtok := t\<rparr>) st' = same_below j st st'"
  "same_below j (st\<lparr>unary := b\<rparr>) st' = same_below j st st'" "same_below j (st\<lparr>yyval := v\<rparr>) st' = same_below j st st'"
  "same_below j (st\<lparr>noeval := k\<rparr>) st' = same_below j st st'"
  "same_below j st (st'\<lparr>ptr := p\<rparr>) = same_below j st st'" "same_below j st (st'\<lparr>mtok := t\<rparr>) = same_below j st st'"
  "same_below j st (st'\<lparr>unary := b\<rparr>) = same_below j st st'" "same_below j st (st'\<lparr>noeval := k\<rparr>) = same_below j st st'"
  by (simp_all add: int_at_def slot_at_def same_below_def)

lemma pushed_int_fields [simp]:
  "pushed_int (st\<lparr>ptr := p\<rparr>) st' s = pushed_int st st' s" "pushed_int (st\<lparr>mtok := t\<rparr>) st' s = pushed_int st st' s"
  "pushed_int (st\<lparr>unary := b\<rparr>) st' s = pushed_int st st' s" "pushed_int (st\<lparr>yyval := v\<rparr>) st' s = pushed_int st st' s"
  "pushed_int st (st'\<lparr>ptr := p\<rparr>) s = pushed_int st st' s" "pushed_int st (st'\<lparr>mtok := t\<rparr>) s = pushed_int st st' s"
  "pushed_int st (st'\<lparr>unary := b\<rparr>) s = pushed_int st st' s"
  by (simp_all add: pushed_int_def)

lemma ready_fields [simp]:
  "ready (st\<lparr>ptr := p\<rparr>) = ready st" "ready (st\<lparr>mtok := t\<rparr>) = ready st"
  "ready (st\<lparr>unary := b\<rparr>) = ready st" "ready (st\<lparr>yyval := v\<rparr>) = ready st"
  by (simp_all add: ready_def)

text \<open>An integer put on top of what is there.\<close>

lemma pushed_put:
  assumes "ready st" "sp st < 99" "in_range x" "noeval st = 0 \<longrightarrow> s = Some x"
  shows "pushed_int st (put (sp st + 1) (MN_INTEGER (word_of_int x)) st) s"
  using assms put_at [of st "sp st + 1" "word_of_int x"]
    put_below [of "sp st + 1" st "MN_INTEGER (word_of_int x)"]
  by (auto simp: pushed_int_def ready_def)

definition at_token :: "string \<Rightarrow> token \<Rightarrow> ('d, 'v, 'e) mst \<Rightarrow> bool" where
  "at_token r t st \<longleftrightarrow> ptr st = r \<and> mtok st = t \<and> unary st = (\<not> tok_has t 256)"

text \<open>
  The words \<open>ws\<close> are an operand of value \<open>s\<close> that takes \<open>k\<close> entries of the stack, wherever the
  limit is at least \<open>lim\<close> and a token follows that \<open>F\<close> allows: parsing them amounts to
  being at that token with the value pushed.
\<close>

definition parses ::
  "('d, 'v, 'e) mshell \<Rightarrow> int list \<Rightarrow> ('d, 'e) caller \<Rightarrow> string list \<Rightarrow> int \<Rightarrow> (token \<Rightarrow> bool) \<Rightarrow> int
     \<Rightarrow> int option \<Rightarrow> bool" where
  "parses P pr cf ws lim F k s \<longleftrightarrow>
     (\<forall>n pc (st :: ('d, 'v, 'e) mst) r t r2.
        lim \<le> pc \<longrightarrow> ptr st = words ws @ r \<longrightarrow> follows P r t r2 \<longrightarrow> F t \<longrightarrow> ready st \<longrightarrow> unary st \<longrightarrow>
        sp st + k < 100 \<longrightarrow> 2 * length (ptr st) + 3 \<le> n \<longrightarrow> (noeval st = 0 \<longrightarrow> s \<noteq> None) \<longrightarrow>
        (\<exists>m st'. mathparse P pr cf n pc st = mathloop P pr cf m pc st' \<and> 2 * length r + 3 \<le> m \<and>
           pushed_int st st' s \<and> at_token r2 t st'))"

lemma parsesD:
  fixes st :: "('d, 'v, 'e) mst"
  assumes "parses P pr cf ws lim F k s" "lim \<le> pc" "ptr st = words ws @ r" "follows P r t r2" "F t"
    "ready st" "unary st" "sp st + k < 100" "2 * length (ptr st) + 3 \<le> n" "noeval st = 0 \<longrightarrow> s \<noteq> None"
  obtains m st' where "mathparse P pr cf n pc st = mathloop P pr cf m pc st'" "2 * length r + 3 \<le> m"
    "pushed_int st st' s" "at_token r2 t st'"
  using assms(1) [unfolded parses_def, rule_format, OF assms(2-9)] assms(10) that by blast

lemma mathloop_returns: "pc < pr ! mtok st \<Longrightarrow> 0 < n \<Longrightarrow> mathloop P pr cf n pc st = Some st"
  by (cases n) (simp_all add: Let_def)

text \<open>An operand on its own: the token that follows ends the loop.\<close>

lemma parses_returns:
  fixes st :: "('d, 'v, 'e) mst"
  assumes "parses P pr cf ws lim F k s" "ptr st = words ws @ r" "follows P r t r2" "F t"
    "ready st" "unary st" "sp st + k < 100" "2 * length (ptr st) + 3 \<le> n" "noeval st = 0 \<longrightarrow> s \<noteq> None"
    and t: "lim < pr ! t"
  obtains st' where "mathparse P pr cf n lim st = Some st'" "pushed_int st st' s" "at_token r2 t st'"
proof -
  obtain m st' where m: "mathparse P pr cf n lim st = mathloop P pr cf m lim st'" "2 * length r + 3 \<le> m"
    "pushed_int st st' s" "at_token r2 t st'"
    by (rule parsesD [OF assms(1) order_refl assms(2-9)])
  have "mathloop P pr cf m lim st' = Some st'"
    by (rule mathloop_returns) (use m(2,4) t in \<open>simp_all add: at_token_def\<close>)
  then show ?thesis using m that by simp
qed

lemma parses_mono:
  assumes "parses P pr cf ws lim F k s" "\<And>t. G t \<Longrightarrow> F t"
  shows "parses P pr cf ws lim G k s"
  using assms unfolding parses_def by blast

text \<open>The start of \<open>mathparse\<close>, at a token where an operand is expected.\<close>

lemma mathparse_token:
  assumes z: "zzlex P st = (t, st1)" and e: "\<not> err st" "\<not> err st1" and u: "unary st1"
    and t: "t \<noteq> T_EOI" "\<not> tok_has t 252" and n: "0 < n"
  shows "mathparse P pr cf n pc st = mathloop P pr cf (n - 1) pc (st1\<lparr>mtok := t, unary := \<not> tok_has t 256\<rparr>)"
  using assms by (cases n) (simp_all add: Let_def checkunary_def)

lemma mathloop_operand:
  assumes "mtok st = T_NUM" "pr ! T_NUM \<le> pc" "\<not> err st" "0 < n"
  shows "mathloop P pr cf n pc st =
    (push_operand P cf st \<bind> (\<lambda>st1. mathloop P pr cf (n - 1) pc (lex_check P st1)))"
  using assms by (cases n) (simp_all add: Let_def)

lemma mathloop_paren:
  assumes "mtok st = M_INPAR" "pr ! M_INPAR \<le> pc" "\<not> err st" "0 < n"
    and "mathparse P pr cf (n - 1) (top_prec pr) st = Some st1" "mtok st1 = M_OUTPAR"
  shows "mathloop P pr cf n pc st = mathloop P pr cf (n - 1) pc (lex_check P st1)"
  using assms by (cases n) (simp_all add: Let_def)

lemma mathloop_operator:
  assumes "mtok st \<notin> {T_NUM, T_ID, T_CID, T_FUNC, M_INPAR, T_QUEST}" "pr ! mtok st \<le> pc" "\<not> err st" "0 < n"
    and "(if MTYPE (mtok st) = BOOL then bop P (mtok st) st else Some st) = Some st1"
    and "mathparse P pr cf (n - 1) (pr ! mtok st - (if MTYPE (mtok st) \<noteq> RL then 1 else 0)) st1 = Some st2"
    and "exec_op P (mtok st) (st2\<lparr>noeval := noeval st\<rparr>) = Some st3"
  shows "mathloop P pr cf n pc st = mathloop P pr cf (n - 1) pc st3"
proof -
  obtain k where n: "n = Suc k" using assms(4) by (cases n) auto
  have c: "\<not> pc < pr ! mtok st"
    "\<not> (mtok st = T_NUM \<or> mtok st = T_ID \<or> mtok st = T_CID \<or> mtok st = T_FUNC)"
    "mtok st \<noteq> M_INPAR" "mtok st \<noteq> T_QUEST"
    using assms(1,2) by auto
  show ?thesis
    unfolding n mathloop.simps Let_def
    using assms(5-7) by (simp only: c assms(3) if_False bind.bind_lunit n diff_Suc_1)
qed

section \<open>Operands\<close>

lemma parses_num:
  assumes n: "int k < 2 ^ 63" and pr: "pr ! T_NUM \<le> lim"
  shows "parses P pr cf [dec k] lim F 1 (Some (int k))"
  unfolding parses_def
proof (intro allI impI)
  fix n pc r t r2 and st :: "('a, 'b, 'c) mst"
  assume a: "lim \<le> pc" "ptr st = words [dec k] @ r" "follows P r t r2" "F t" "ready st" "unary st"
    "sp st + 1 < 100" "2 * length (ptr st) + 3 \<le> n" "noeval st = 0 \<longrightarrow> Some (int k) \<noteq> None"
  define st1 where "st1 = st\<lparr>ptr := r, yyval := MN_INTEGER (of_nat k), mtok := T_NUM, unary := False\<rparr>"
  define st2 where "st2 = put (sp st + 1) (MN_INTEGER (of_nat k)) st1"
  have b: "brk r" using a(3) by (simp add: follows_def)
  have rd: "\<not> err st" "length (stk st) = 100" "-1 \<le> sp st" "\<not> FORCEFLOAT (opts (gl st))"
    using a(5) by (simp_all add: ready_def)
  have p: "ptr st = CHR '' '' # dec k @ r" using a(2) by simp
  have len: "length r + 2 \<le> length (ptr st)" using length_dec_pos [of k] unfolding p by (simp add: Suc_le_eq)
  have z: "zzlex P st = (T_NUM, st\<lparr>ptr := r, yyval := MN_INTEGER (of_nat k)\<rparr>)"
    by (rule lex_num [OF p b n rd(4)])
  have "mathparse P pr cf n pc st = mathloop P pr cf (n - 1) pc st1"
    using mathparse_token [OF z rd(1), where n = n and pr = pr and cf = cf and pc = pc] rd a(6,8)
    by (simp add: tok_has_def op_type_def st1_def)
  also have "\<dots> = (push_operand P cf st1 \<bind> (\<lambda>st1. mathloop P pr cf (n - 1 - 1) pc (lex_check P st1)))"
    by (rule mathloop_operand) (use a len pr rd in \<open>simp_all add: st1_def\<close>)
  also have "push_operand P cf st1 = Some st2"
    using push_put [of st1 "MN_INTEGER (of_nat k)"] rd a(7)
    by (simp add: push_operand_def st1_def st2_def)
  finally have m: "mathparse P pr cf n pc st = mathloop P pr cf (n - 2) pc (lex_check P st2)" by (simp add: numeral_2_eq_2)
  have "lex_check P st2 = st2\<lparr>ptr := r2, mtok := t, unary := \<not> tok_has t 256\<rparr>"
    using a(3) by (simp add: follows_def st2_def st1_def)
  moreover have "pushed_int st st2 (Some (int k))"
    using pushed_put [of st1 "int k" "Some (int k)"] a(5,7) n by (simp add: st1_def st2_def in_range_def)
  ultimately have "pushed_int st (lex_check P st2) (Some (int k)) \<and> at_token r2 t (lex_check P st2)"
    by (simp add: at_token_def)
  then show "\<exists>m st'. mathparse P pr cf n pc st = mathloop P pr cf m pc st' \<and> 2 * length r + 3 \<le> m \<and>
      pushed_int st st' (Some (int k)) \<and> at_token r2 t st'"
    using m len a(8) by (intro exI [of _ "n - 2"] exI [of _ "lex_check P st2"]) simp
qed

lemma pushed_int_ready:
  "pushed_int st st' s \<Longrightarrow> ready st \<Longrightarrow> ready st'"
  by (simp add: pushed_int_def ready_def)

lemma parses_paren:
  assumes A: "parses P pr cf ws (top_prec pr) F k s" and F: "F M_OUTPAR"
    and pr: "pr ! M_INPAR \<le> lim" "top_prec pr < pr ! M_OUTPAR"
  shows "parses P pr cf (''('' # ws @ ['')'']) lim G k s"
  unfolding parses_def
proof (intro allI impI)
  fix n pc r t r2 and st :: "('a, 'b, 'c) mst"
  assume a: "lim \<le> pc" "ptr st = words (''('' # ws @ ['')'']) @ r" "follows P r t r2" "G t" "ready st"
    "unary st" "sp st + k < 100" "2 * length (ptr st) + 3 \<le> n" "noeval st = 0 \<longrightarrow> s \<noteq> None"
  let ?r1 = "words ws @ CHR '' '' # '')'' @ r"
  define st1 where "st1 = st\<lparr>ptr := ?r1, mtok := M_INPAR, unary := True\<rparr>"
  have rd: "\<not> err st" "ready st1" using a(5) by (simp_all add: ready_def st1_def)
  have p: "ptr st = CHR '' '' # ''('' @ ?r1" using a(2) by simp
  have "mathparse P pr cf n pc st = mathloop P pr cf (n - 1) pc st1"
    using mathparse_token [OF lex_paren(1) [OF p] rd(1), where n = n and pr = pr and cf = cf and pc = pc] rd a(6,8)
    by (simp add: tok_has_def op_type_def st1_def)
  moreover
  have p1: "ptr st1 = words ws @ CHR '' '' # '')'' @ r" "unary st1" "sp st1 + k < 100"
    "noeval st1 = 0 \<longrightarrow> s \<noteq> None" "2 * length (ptr st1) + 3 \<le> n - 1 - 1"
    using a(7-9) p by (simp_all add: st1_def)
  obtain st2 where st2: "mathparse P pr cf (n - 1 - 1) (top_prec pr) st1 = Some st2"
    "pushed_int st1 st2 s" "at_token r M_OUTPAR st2"
    by (rule parses_returns [OF A p1(1) follows_words(1) F rd(2) p1(2,3,5,4) pr(2)])
  moreover have "mathloop P pr cf (n - 1) pc st1 = mathloop P pr cf (n - 1 - 1) pc (lex_check P st2)"
    by (rule mathloop_paren [OF _ _ _ _ st2(1)])
      (use st2(3) a(1,8) pr p rd(1) in \<open>simp_all add: st1_def at_token_def\<close>)
  ultimately have m: "mathparse P pr cf n pc st = mathloop P pr cf (n - 2) pc (lex_check P st2)" by (simp add: numeral_2_eq_2)
  have "\<not> unary st2" using st2(3) by (simp add: at_token_def tok_has_def op_type_def)
  then have "lex_check P st2 = st2\<lparr>ptr := r2, mtok := t, unary := \<not> tok_has t 256\<rparr>"
    using a(3) st2(3) by (simp add: follows_def at_token_def)
  then have "pushed_int st (lex_check P st2) s \<and> at_token r2 t (lex_check P st2)"
    using st2(2) by (simp add: at_token_def st1_def)
  then show "\<exists>m st'. mathparse P pr cf n pc st = mathloop P pr cf m pc st' \<and> 2 * length r + 3 \<le> m \<and>
      pushed_int st st' s \<and> at_token r2 t st'"
    using m p a(8) by (intro exI [of _ "n - 2"] exI [of _ "lex_check P st2"]) simp
qed

section \<open>Operators\<close>

lemma pushed_put_over:
  assumes "ready st" "sp st < 99" "gl st2 = gl st" "noeval st2 = noeval st" "length (stk st2) = 100"
    and "same_below (sp st + 1) st st2" "in_range x" "noeval st = 0 \<longrightarrow> s = Some x"
  shows "pushed_int st (put (sp st + 1) (MN_INTEGER (word_of_int x)) st2) s"
  using assms put_at [of st2 "sp st + 1" "word_of_int x"]
    put_below [of "sp st + 1" st2 "MN_INTEGER (word_of_int x)"]
  by (auto simp: pushed_int_def ready_def same_below_def)

lemma parses_un:
  assumes A: "parses P pr cf ws (pr ! unop_tok u) F k s" and pr: "pr ! unop_tok u \<le> lim" "1 \<le> k"
  shows "parses P pr cf (unop_text u # ws) lim (\<lambda>t. F t \<and> pr ! unop_tok u < pr ! t) k (map_option (unop_val u) s)"
  unfolding parses_def
proof (intro allI impI)
  fix n pc r t r2 and st :: "('a, 'b, 'c) mst"
  assume a: "lim \<le> pc" "ptr st = words (unop_text u # ws) @ r" "follows P r t r2" "F t \<and> pr ! unop_tok u < pr ! t"
    "ready st" "unary st" "sp st + k < 100" "2 * length (ptr st) + 3 \<le> n"
    "noeval st = 0 \<longrightarrow> map_option (unop_val u) s \<noteq> None"
  let ?t = "unop_tok u" and ?r1 = "words ws @ r"
  define st1 where "st1 = st\<lparr>ptr := ?r1, mtok := ?t, unary := True\<rparr>"
  have rd: "\<not> err st" "ready st1" using a(5) by (simp_all add: ready_def st1_def)
  have p: "ptr st = CHR '' '' # unop_text u @ ?r1" using a(2) by simp
  have l: "2 + length ?r1 \<le> length (ptr st)" unfolding p by (cases u) simp_all
  have b: "brk ?r1" using a(3) by (simp add: follows_def brk_words)
  have neq: "?t \<noteq> T_EOI" "?t \<notin> {T_NUM, T_ID, T_CID, T_FUNC, M_INPAR, T_QUEST}" by (cases u; simp)+
  have p0: "mathparse P pr cf n pc st = mathloop P pr cf (n - 1) pc st1"
    using mathparse_token [OF lex_unop [OF p b a(6)] rd(1), where n = n and pr = pr and cf = cf and pc = pc]
      rd a(6,8) neq(1) by (simp add: st1_def)
  have p1: "ptr st1 = ?r1" "unary st1" "sp st1 + k < 100"
    "noeval st1 = 0 \<longrightarrow> s \<noteq> None" "2 * length (ptr st1) + 3 \<le> n - 1 - 1"
    using a(7-9) l by (auto simp: st1_def)
  obtain st2 where st2: "mathparse P pr cf (n - 1 - 1) (pr ! ?t) st1 = Some st2"
    "pushed_int st1 st2 s" "at_token r2 t st2"
    by (rule parses_returns [OF A p1(1) a(3) conjunct1 [OF a(4)] rd(2) p1(2,3,5,4) conjunct2 [OF a(4)]])
  obtain x where x: "in_range x" "int_at st2 (sp st2) (word_of_int x)" "noeval st = 0 \<longrightarrow> s = Some x"
    using st2(2) by (auto simp: pushed_int_def st1_def)
  have s2: "gl st2 = gl st" "noeval st2 = noeval st" "sp st2 = sp st + 1" "length (stk st2) = 100"
    "same_below (sp st + 1) st st2"
    using st2(2) by (simp_all add: pushed_int_def st1_def)
  define st3 where "st3 = put (sp st + 1) (MN_INTEGER (word_of_int (unop_val u x))) st2"
  have "exec_op P ?t st2 = Some st3"
    using exec_unop [of st2 x P u] x s2 rd a(5,7) pr(2) by (simp add: st3_def ready_def)
  moreover have "st2\<lparr>noeval := noeval st1\<rparr> = st2" using s2(2) by (cases st2) (simp add: st1_def)
  ultimately have ex: "exec_op P ?t (st2\<lparr>noeval := noeval st1\<rparr>) = Some st3" by simp
  have "mtok st1 = ?t" by (simp add: st1_def)
  then have "mathloop P pr cf (n - 1) pc st1 = mathloop P pr cf (n - 1 - 1) pc st3"
    using ex by (intro mathloop_operator)
      (use st2(1) a(1,8) l neq pr rd(1) in \<open>simp_all add: st1_def\<close>)
  with p0 have m: "mathparse P pr cf n pc st = mathloop P pr cf (n - 2) pc st3"
    by (simp add: numeral_2_eq_2)
  have "pushed_int st st3 (map_option (unop_val u) s)"
    unfolding st3_def using a(5,7) pr(2) s2 x by (intro pushed_put_over) (auto simp: unop_val_range)
  moreover have "at_token r2 t st3" using st2(3) by (simp add: at_token_def st3_def)
  ultimately show "\<exists>m st'. mathparse P pr cf n pc st = mathloop P pr cf m pc st' \<and> 2 * length r + 3 \<le> m \<and>
      pushed_int st st' (map_option (unop_val u) s) \<and> at_token r2 t st'"
    using m l a(8) by (intro exI [of _ "n - 2"] exI [of _ st3]) simp
qed

lemma bop_int:
  assumes "int_at st (sp st) (word_of_int x)" "in_range x" "b = Land \<or> b = Lor"
  shows "\<exists>k \<ge> 0. bop P (binop_tok b) st = Some (st\<lparr>noeval := noeval st + k\<rparr>) \<and>
    (\<not> odd_truth b x \<longrightarrow> k = of_bool (settled b x))"
proof -
  obtain mv where mv: "slot_at st (sp st) = Some mv" "sval mv = MN_INTEGER (word_of_int x)"
    using assms(1) by (auto simp: int_at_def)
  define k :: int where "k = of_bool ((c_int (word_of_int x) = 0) = (b = Land))"
  have "load_slot P (sp st) st = Some st" by (simp add: load_slot_def mv is_unset_def)
  then have "bop P (binop_tok b) st = Some (st\<lparr>noeval := noeval st + k\<rparr>)"
    using mv assms(3) by (auto simp: bop_def zlong_of_def k_def Let_def)
  moreover have "k = of_bool (settled b x)" if "\<not> odd_truth b x"
    using bop_test [OF that assms(3)] assms(3) by (auto simp: k_def)
  ultimately show ?thesis by (intro exI [of _ k]) (simp add: k_def)
qed

lemma settled_val: "settled b x \<Longrightarrow> binop_val b x y = Some (of_bool (b = Lor))"
  by (cases b) simp_all

lemma binary_defined:
  assumes "value_of (Binary b x y) \<noteq> None"
  shows "value_of x \<noteq> None" "value_of x = Some v \<Longrightarrow> \<not> odd_truth b v"
    "value_of x = Some v \<Longrightarrow> \<not> settled b v \<Longrightarrow> value_of y \<noteq> None"
  using assms by (auto split: option.splits if_splits)

lemma binary_value:
  assumes "value_of (Binary b x y) \<noteq> None" "value_of x = Some v" "settled b v \<or> value_of y = Some w"
  obtains u where "value_of (Binary b x y) = Some u" "binop_val b v w = Some u"
  using assms settled_val [of b v w] by (auto split: option.splits if_splits)

text \<open>The short circuit leaves \<open>noeval\<close> alone, or raises it.\<close>

lemma short_circuit:
  assumes x: "in_range x" "int_at st (sp st) (word_of_int x)" "noeval st = 0 \<longrightarrow> \<not> odd_truth b x"
  obtains j where "0 \<le> j" "noeval st = 0 \<longrightarrow> j = of_bool (settled b x)"
    "(if MTYPE (binop_tok b) = BOOL then bop P (binop_tok b) st else Some st)
       = Some (st\<lparr>noeval := noeval st + j\<rparr>)"
proof (cases "b = Land \<or> b = Lor")
  case True
  obtain j where "0 \<le> j" "bop P (binop_tok b) st = Some (st\<lparr>noeval := noeval st + j\<rparr>)"
    "\<not> odd_truth b x \<longrightarrow> j = of_bool (settled b x)"
    using bop_int [OF x(2,1) True] by blast
  then show ?thesis using that [of j] True x(3) by (auto simp: binop_type)
next
  case False
  then have "\<not> settled b x" by (cases b) simp_all
  then show ?thesis using that [of 0] False by (simp add: binop_type)
qed

text \<open>The operator on its two operands, with \<open>noeval\<close> as it was before them.\<close>

lemma binop_pushed:
  assumes st: "ready st" "sp st < 98" and d: "noeval st = 0 \<longrightarrow> value_of (Binary b x y) \<noteq> None"
    and s1: "pushed_int st st1 (value_of x)" and s3: "pushed_int (st1\<lparr>noeval := noeval st1 + j\<rparr>) st3 (value_of y)"
    and j: "\<And>v. noeval st = 0 \<Longrightarrow> value_of x = Some v \<Longrightarrow> settled b v \<or> j = 0"
  obtains st5 where "exec_op P (binop_tok b) (st3\<lparr>noeval := noeval st1\<rparr>) = Some st5"
    "pushed_int st st5 (value_of (Binary b x y))" "at_token r t st3 \<Longrightarrow> at_token r t st5"
proof -
  let ?s = "value_of (Binary b x y)"
  obtain vx where vx: "in_range vx" "int_at st1 (sp st1) (word_of_int vx)" "noeval st = 0 \<longrightarrow> value_of x = Some vx"
    using s1 by (auto simp: pushed_int_def)
  obtain vy where vy: "in_range vy" "int_at st3 (sp st3) (word_of_int vy)"
    "noeval st1 + j = 0 \<longrightarrow> value_of y = Some vy"
    using s3 by (auto simp: pushed_int_def)
  have f1: "gl st1 = gl st" "noeval st1 = noeval st" "sp st1 = sp st + 1" "same_below (sp st + 1) st st1"
    using s1 by (simp_all add: pushed_int_def)
  have f3: "gl st3 = gl st" "sp st3 = sp st + 2" "length (stk st3) = 100" "same_below (sp st + 2) st1 st3"
    using s3 f1 by (simp_all add: pushed_int_def add.commute)
  obtain v where v: "noeval st = 0 \<longrightarrow> binop_val b vx vy = Some v \<and> ?s = Some v" "in_range v"
  proof (cases "noeval st = 0")
    case True
    then have "settled b vx \<or> value_of y = Some vy" using j vx(3) vy(3) f1(2) by fastforce
    then obtain v where "?s = Some v" "binop_val b vx vy = Some v"
      using binary_value True d vx(3) by blast
    then show ?thesis using that binop_val_range [OF vx(1) vy(1)] by blast
  next
    case False
    then show ?thesis using that [of 0] by simp
  qed
  define st4 where "st4 = st3\<lparr>noeval := noeval st1\<rparr>"
  define st5 where "st5 = put (sp st + 1) (MN_INTEGER (word_of_int (if noeval st = 0 then v else 0))) st4"
  have e: "sp st4 - 1 = sp st1" "sp st4 = sp st3" "sp st1 = sp st + 1" using f1(3) f3(2) by (simp_all add: st4_def)
  have "int_at st3 (sp st1) (word_of_int vx)"
    by (rule int_at_below [OF vx(2) f3(4)]) (use f1(3) f3(3) in simp_all)
  then have i1: "int_at st4 (sp st4 - 1) (word_of_int vx)" unfolding e(1) by (simp add: st4_def)
  have i2: "int_at st4 (sp st4) (word_of_int vy)" unfolding e(2) using vy(2) by (simp add: st4_def)
  have "exec_op P (binop_tok b) st4 =
      Some (put (sp st4 - 1) (MN_INTEGER (if noeval st4 = 0 then word_of_int v else 0)) st4)"
    by (rule exec_binop [OF _ _ _ i1 i2 vx(1) vy(1)])
      (use st v(1) f1(2) f3 in \<open>auto simp: st4_def ready_def\<close>)
  then have "exec_op P (binop_tok b) st4 = Some st5"
    unfolding e(1,3) using f1(2) by (simp add: st5_def st4_def)
  moreover have "pushed_int st st5 ?s"
    unfolding st5_def
  proof (rule pushed_put_over [OF st(1)])
    show "same_below (sp st + 1) st st4"
      unfolding st4_def using same_below_trans [OF f1(4) f3(4)] by simp
  qed (use st(2) f1 f3 v in \<open>auto simp: st4_def\<close>)
  moreover have "at_token r t st5" if "at_token r t st3" using that by (simp add: at_token_def st5_def st4_def)
  ultimately show ?thesis using that by (simp add: st4_def)
qed

lemma parses_bin:
  assumes A: "parses P pr cf wx lx Fx kx (value_of x)" and B: "parses P pr cf wy (right_lim pr b) Fy ky (value_of y)"
    and x: "lx \<le> pr ! binop_tok b" "Fx (binop_tok b)" and pr: "pr ! binop_tok b \<le> lim"
    and y: "\<And>t. right_lim pr b < pr ! t \<Longrightarrow> Fy t" and k: "1 \<le> kx" "1 \<le> ky"
  shows "parses P pr cf (wx @ binop_text b # wy) lim (\<lambda>t. right_lim pr b < pr ! t) (max kx (1 + ky))
    (value_of (Binary b x y))"
  unfolding parses_def
proof (intro allI impI)
  fix n pc r t r2 and st :: "('a, 'b, 'c) mst"
  let ?t = "binop_tok b" and ?s = "value_of (Binary b x y)" and ?r1 = "words wy @ r"
  assume a: "lim \<le> pc" "ptr st = words (wx @ binop_text b # wy) @ r" "follows P r t r2"
    "right_lim pr b < pr ! t" "ready st" "unary st" "sp st + max kx (1 + ky) < 100"
    "2 * length (ptr st) + 3 \<le> n" "noeval st = 0 \<longrightarrow> ?s \<noteq> None"
  have b: "brk ?r1" using a(3) by (simp add: follows_def brk_words)
  have p: "ptr st = words wx @ CHR '' '' # binop_text b @ ?r1" using a(2) by simp
  have sx: "noeval st = 0 \<longrightarrow> value_of x \<noteq> None" using a(9) binary_defined(1) by blast
  have ks: "sp st + kx < 100" "lx \<le> pc" using a(1,7) x pr by simp_all
  obtain m st1 where m: "mathparse P pr cf n pc st = mathloop P pr cf m pc st1"
    "2 * length (CHR '' '' # binop_text b @ ?r1) + 3 \<le> m"
    and s1: "pushed_int st st1 (value_of x)" "at_token ?r1 ?t st1"
    by (rule parsesD [OF A ks(2) p follows_binop [OF b] x(2) a(5,6) ks(1) a(8) sx])
  have f1: "gl st1 = gl st" "noeval st1 = noeval st" "sp st1 = sp st + 1" "length (stk st1) = 100"
    using s1(1) by (simp_all add: pushed_int_def)
  have tk: "mtok st1 = ?t" "ptr st1 = ?r1" "unary st1" using s1(2) by (simp_all add: at_token_def)
  obtain vx where vx: "in_range vx" "int_at st1 (sp st1) (word_of_int vx)" "noeval st = 0 \<longrightarrow> value_of x = Some vx"
    using s1(1) by (auto simp: pushed_int_def)
  have od: "noeval st1 = 0 \<longrightarrow> \<not> odd_truth b vx" using a(9) vx(3) f1(2) binary_defined(2) by metis
  obtain j where j: "0 \<le> j" "noeval st1 = 0 \<longrightarrow> j = of_bool (settled b vx)"
    "(if MTYPE ?t = BOOL then bop P ?t st1 else Some st1) = Some (st1\<lparr>noeval := noeval st1 + j\<rparr>)"
    by (rule short_circuit [OF vx(1,2) od])
  define st2 where "st2 = st1\<lparr>noeval := noeval st1 + j\<rparr>"
  have p2: "ready st2" "ptr st2 = ?r1" "unary st2" "sp st2 + ky < 100" "2 * length (ptr st2) + 3 \<le> m - 1"
    using tk a(5,7) f1 m(2) j(1) by (simp_all add: st2_def ready_def)
  have sy: "noeval st2 = 0 \<longrightarrow> value_of y \<noteq> None"
  proof
    assume "noeval st2 = 0"
    then have n0: "noeval st = 0" "j = 0" using j(1) a(5) f1(2) by (simp_all add: st2_def ready_def)
    then have "\<not> settled b vx" using j(2) f1(2) by simp
    then show "value_of y \<noteq> None" using n0(1) a(9) vx(3) binary_defined(3) by blast
  qed
  obtain st3 where s3: "mathparse P pr cf (m - 1) (right_lim pr b) st2 = Some st3"
    "pushed_int st2 st3 (value_of y)" "at_token r2 t st3"
    by (rule parses_returns [OF B p2(2) a(3) y [OF a(4)] p2(1,3-5) sy a(4)])
  have k98: "sp st < 98" using a(7) k(2) by simp
  obtain st5 where ex: "exec_op P ?t (st3\<lparr>noeval := noeval st1\<rparr>) = Some st5"
    and s5: "pushed_int st st5 ?s" "at_token r2 t st5"
  proof (rule binop_pushed [OF a(5) k98 a(9) s1(1) s3(2) [unfolded st2_def]])
    show "settled b v \<or> j = 0" if "noeval st = 0" "value_of x = Some v" for v
      using that j(2) vx(3) f1(2) by auto
  qed (use s3(3) in blast)
  have neq: "?t \<notin> {T_NUM, T_ID, T_CID, T_FUNC, M_INPAR, T_QUEST}" by (cases b; simp)
  have rl: "pr ! ?t - (if MTYPE ?t \<noteq> RL then 1 else 0) = right_lim pr b"
    by (simp add: binop_type right_lim_def right_assoc_def)
  have "mathloop P pr cf m pc st1 = mathloop P pr cf (m - 1) pc st5"
  proof (rule mathloop_operator)
    show "(if MTYPE (mtok st1) = BOOL then bop P (mtok st1) st1 else Some st1) = Some st2"
      unfolding tk(1) st2_def by (rule j(3))
    show "mathparse P pr cf (m - 1) (pr ! mtok st1 - (if MTYPE (mtok st1) \<noteq> RL then 1 else 0)) st2 = Some st3"
      unfolding tk(1) rl by (rule s3(1))
    show "exec_op P (mtok st1) (st3\<lparr>noeval := noeval st1\<rparr>) = Some st5"
      unfolding tk(1) by (rule ex)
  qed (use tk(1) neq a(1,5) pr f1(1) m(2) in \<open>simp_all add: ready_def\<close>)
  then show "\<exists>m st'. mathparse P pr cf n pc st = mathloop P pr cf m pc st' \<and> 2 * length r + 3 \<le> m \<and>
      pushed_int st st' ?s \<and> at_token r2 t st'"
    using m s5 by (intro exI [of _ "m - 1"] exI [of _ st5]) simp
qed

section \<open>The conditional\<close>

lemma mathloop_quest:
  assumes "mtok st = T_QUEST" "pr ! T_QUEST \<le> pc" "\<not> err st" "0 < n"
    and "load_slot P (sp st) st = Some st" "slot_at st (sp st) = Some mv" "q = truthy P (sval mv)"
    and "mathparse P pr cf (n - 1) (pr ! T_COLON - 1) (add_noeval (\<not> q) 1 st) = Some st2"
    and "st3 = add_noeval (\<not> q) (-1) st2" "mtok st3 = T_COLON"
    and "mathparse P pr cf (n - 1) (pr ! T_QUEST) (add_noeval q 1 st3) = Some st4"
    and "exec_op P T_QUEST (add_noeval q (-1) st4) = Some st5"
  shows "mathloop P pr cf n pc st = mathloop P pr cf (n - 1) pc st5"
proof -
  obtain k where n: "n = Suc k" using assms(4) by (cases n) auto
  have c: "\<not> pc < pr ! mtok st" using assms(1,2) by simp
  show ?thesis
    using assms(1,3,5-) c unfolding n by (simp add: Let_def)
qed

lemma add_noeval_fields [simp]:
  "gl (add_noeval b i st) = gl st" "ptr (add_noeval b i st) = ptr st" "unary (add_noeval b i st) = unary st"
  "sp (add_noeval b i st) = sp st" "stk (add_noeval b i st) = stk st" "mtok (add_noeval b i st) = mtok st"
  "noeval (add_noeval b i st) = noeval st + (if b then i else 0)"
  "int_at (add_noeval b i st) k w = int_at st k w" "at_token r t (add_noeval b i st) = at_token r t st"
  by (simp_all add: add_noeval_def at_token_def)

lemma int_at_slot:
  assumes "int_at st (sp st) w"
  obtains mv where "slot_at st (sp st) = Some mv" "sval mv = MN_INTEGER w" "load_slot P (sp st) st = Some st"
  using assms by (auto simp: int_at_def load_slot_def)

lemma cond_pushed:
  assumes st: "ready st" "sp st < 97" and q: "q \<longleftrightarrow> vc \<noteq> 0"
    and c: "gl st1 = gl st" "noeval st1 = noeval st" "sp st1 = sp st + 1" "same_below (sp st + 1) st st1"
      "in_range vc" "int_at st1 (sp st + 1) (word_of_int vc)"
    and x: "pushed_int (add_noeval (\<not> q) 1 st1) st2 sx" and st3: "st3 = add_noeval (\<not> q) (-1) st2"
    and y: "pushed_int (add_noeval q 1 st3) st4 sy"
    and s: "noeval st = 0 \<Longrightarrow> s = (if vc \<noteq> 0 then sx else sy)"
  obtains st5 where "exec_op P T_QUEST (add_noeval q (-1) st4) = Some st5"
    "pushed_int st st5 s" "at_token r t st4 \<Longrightarrow> at_token r t st5"
proof -
  obtain vx where vx: "in_range vx" "int_at st2 (sp st2) (word_of_int vx)"
    "noeval (add_noeval (\<not> q) 1 st1) = 0 \<longrightarrow> sx = Some vx"
    using x unfolding pushed_int_def by blast
  obtain vy where vy: "in_range vy" "int_at st4 (sp st4) (word_of_int vy)"
    "noeval (add_noeval q 1 st3) = 0 \<longrightarrow> sy = Some vy"
    using y unfolding pushed_int_def by blast
  have f2: "gl st2 = gl st" "sp st2 = sp st + 2" "length (stk st2) = 100" "same_below (sp st + 2) st1 st2"
    "noeval st2 = noeval st + (if q then 0 else 1)"
    using x c by (auto simp: pushed_int_def same_below_def)
  have f3: "noeval st3 = noeval st" "stk st3 = stk st2" "sp st3 = sp st + 2" "gl st3 = gl st"
    using f2 by (simp_all add: st3)
  have f4: "gl st4 = gl st" "sp st4 = sp st + 3" "length (stk st4) = 100" "same_below (sp st + 3) st2 st4"
    "noeval st4 = noeval st + (if q then 1 else 0)"
    using y f3 by (auto simp: pushed_int_def same_below_def)
  define st4' where "st4' = add_noeval q (-1) st4"
  define u where "u = (if vc \<noteq> 0 then vx else vy)"
  define st5 where "st5 = put (sp st + 1) (MN_INTEGER (word_of_int u)) st4'"
  have f: "sp st4' = sp st + 3" "length (stk st4') = 100" "gl st4' = gl st" "noeval st4' = noeval st"
    using f4 by (simp_all add: st4'_def)
  have "int_at st2 (sp st + 1) (word_of_int vc)"
    by (rule int_at_below [OF c(6) f2(4)]) (use f2(3) in simp_all)
  then have "int_at st4 (sp st + 1) (word_of_int vc)"
    by (rule int_at_below [OF _ f4(4)]) (use f4(3) in simp_all)
  then have i1: "int_at st4' (sp st4' - 2) (word_of_int vc)" using f(1) by (simp add: st4'_def add.commute)
  have "int_at st4 (sp st + 2) (word_of_int vx)"
    using vx(2) f2(2) by (intro int_at_below [OF _ f4(4)]) (use f4(3) in simp_all)
  then have i2: "int_at st4' (sp st4' - 1) (word_of_int vx)" using f(1) by (simp add: st4'_def add.commute)
  have i3: "int_at st4' (sp st4') (word_of_int vy)" using vy(2) f4(2) by (simp add: st4'_def)
  have "(word_of_int vc :: zlong) = 0 \<longleftrightarrow> vc = 0" using word_inj [OF c(5), of 0] by simp
  moreover have "exec_op P T_QUEST st4' = Some (put (sp st4' - 2)
      (MN_INTEGER (if (word_of_int vc :: zlong) \<noteq> 0 then word_of_int vx else word_of_int vy)) st4')"
    by (rule exec_quest [OF _ _ _ _ i1 i2 i3]) (use st f in \<open>auto simp: ready_def\<close>)
  ultimately have "exec_op P T_QUEST st4' = Some st5"
    using f(1) by (simp add: st5_def u_def add.commute)
  moreover have "pushed_int st st5 s"
    unfolding st5_def
  proof (rule pushed_put_over [OF st(1)])
    have "same_below (sp st + 1) st st2" using same_below_trans [OF c(4) f2(4)] by simp
    from same_below_trans [OF this f4(4), of "sp st + 1"] show "same_below (sp st + 1) st st4'"
      by (simp add: st4'_def same_below_def)
    show "noeval st = 0 \<longrightarrow> s = Some u"
      using s vx(3) vy(3) c(2) f3(1) q by (auto simp: u_def)
  qed (use st(2) f vx(1) vy(1) in \<open>simp_all add: u_def\<close>)
  moreover have "at_token r t st5" if "at_token r t st4"
    using that by (simp add: at_token_def st5_def st4'_def)
  ultimately show ?thesis using that by (simp add: st4'_def)
qed

lemma parses_cond:
  assumes C: "parses P pr cf wc lc Fc kc (value_of c)" and X: "parses P pr cf wx (pr ! T_COLON - 1) Fx kx (value_of x)"
    and Y: "parses P pr cf wy (pr ! T_QUEST) Fy ky (value_of y)"
    and c: "lc \<le> pr ! T_QUEST" "Fc T_QUEST" and x: "Fx T_COLON" and pr: "pr ! T_QUEST \<le> lim"
    and y: "\<And>t. pr ! T_QUEST < pr ! t \<Longrightarrow> Fy t" and k: "1 \<le> kc" "1 \<le> kx" "1 \<le> ky"
  shows "parses P pr cf (wc @ ''?'' # wx @ '':'' # wy) lim (\<lambda>t. pr ! T_QUEST < pr ! t)
    (max kc (max (1 + kx) (2 + ky))) (value_of (Cond c x y))"
  unfolding parses_def
proof (intro allI impI)
  fix n pc r t r2 and st :: "('a, 'b, 'c) mst"
  let ?s = "value_of (Cond c x y)" and ?ry = "words wy @ r"
  let ?rx = "words wx @ CHR '' '' # '':'' @ ?ry"
  assume a: "lim \<le> pc" "ptr st = words (wc @ ''?'' # wx @ '':'' # wy) @ r" "follows P r t r2"
    "pr ! T_QUEST < pr ! t" "ready st" "unary st" "sp st + max kc (max (1 + kx) (2 + ky)) < 100"
    "2 * length (ptr st) + 3 \<le> n" "noeval st = 0 \<longrightarrow> ?s \<noteq> None"
  have p: "ptr st = words wc @ CHR '' '' # ''?'' @ ?rx" using a(2) by simp
  have sc: "noeval st = 0 \<longrightarrow> value_of c \<noteq> None" using a(9) by (auto split: option.splits)
  have ks: "sp st + kc < 100" "lc \<le> pc" using a(1,7) c pr by simp_all
  obtain m st1 where m: "mathparse P pr cf n pc st = mathloop P pr cf m pc st1"
    "2 * length (CHR '' '' # ''?'' @ ?rx) + 3 \<le> m"
    and s1: "pushed_int st st1 (value_of c)" "at_token ?rx T_QUEST st1"
    by (rule parsesD [OF C ks(2) p follows_words(3) c(2) a(5,6) ks(1) a(8) sc])
  obtain vc where vc: "in_range vc" "int_at st1 (sp st1) (word_of_int vc)" "noeval st = 0 \<longrightarrow> value_of c = Some vc"
    using s1(1) by (auto simp: pushed_int_def)
  have f1: "gl st1 = gl st" "noeval st1 = noeval st" "sp st1 = sp st + 1" "length (stk st1) = 100"
    "same_below (sp st + 1) st st1"
    using s1(1) by (simp_all add: pushed_int_def)
  have tk: "mtok st1 = T_QUEST" "ptr st1 = ?rx" "unary st1"
    using s1(2) by (simp_all add: at_token_def tok_has_def op_type_def)
  define q where "q \<longleftrightarrow> vc \<noteq> 0"
  obtain mv where mv: "slot_at st1 (sp st1) = Some mv" "sval mv = MN_INTEGER (word_of_int vc)"
    "load_slot P (sp st1) st1 = Some st1"
    by (rule int_at_slot [OF vc(2)])
  have tr: "q = truthy P (sval mv)" using word_inj [OF vc(1), of 0] by (simp add: q_def truthy_def mv(2))
  let ?st2 = "add_noeval (\<not> q) 1 st1"
  have p2: "ptr ?st2 = ?rx" "ready ?st2" "unary ?st2" "sp ?st2 + kx < 100" "2 * length (ptr ?st2) + 3 \<le> m - 1"
    "noeval ?st2 = 0 \<longrightarrow> value_of x \<noteq> None"
    using tk a(5,7,9) f1 m(2) vc(3) by (auto simp: ready_def q_def split: if_splits)
  obtain st2 where s2: "mathparse P pr cf (m - 1) (pr ! T_COLON - 1) ?st2 = Some st2"
    "pushed_int ?st2 st2 (value_of x)" "at_token ?ry T_COLON st2"
    by (rule parses_returns [OF X p2(1) follows_words(2) x p2(2-6)]) simp
  define st3 where "st3 = add_noeval (\<not> q) (-1) st2"
  let ?st4 = "add_noeval q 1 st3"
  have f2: "gl st2 = gl st" "sp st2 = sp st + 2" "length (stk st2) = 100" "noeval st3 = noeval st"
    using s2(2) f1 by (auto simp: pushed_int_def st3_def)
  have tk3: "mtok st3 = T_COLON" "ptr st3 = ?ry" "unary st3"
    using s2(3) by (simp_all add: st3_def at_token_def tok_has_def op_type_def)
  have p4: "ptr ?st4 = ?ry" "ready ?st4" "unary ?st4" "sp ?st4 + ky < 100" "2 * length (ptr ?st4) + 3 \<le> m - 1"
    "noeval ?st4 = 0 \<longrightarrow> value_of y \<noteq> None"
    using tk3 a(5,7,9) f2 m(2) vc(3) by (auto simp: ready_def q_def st3_def split: if_splits)
  obtain st4 where s4: "mathparse P pr cf (m - 1) (pr ! T_QUEST) ?st4 = Some st4"
    "pushed_int ?st4 st4 (value_of y)" "at_token r2 t st4"
    by (rule parses_returns [OF Y p4(1) a(3) y [OF a(4)] p4(2-6) a(4)])
  have k97: "sp st < 97" using a(7) k(3) by simp
  obtain st5 where ex: "exec_op P T_QUEST (add_noeval q (-1) st4) = Some st5"
    and s5: "pushed_int st st5 ?s" "at_token r2 t st5"
  proof (rule cond_pushed [OF a(5) k97 q_def f1(1-3,5) vc(1) vc(2) [unfolded f1(3)] s2(2) st3_def s4(2)])
    show "?s = (if vc \<noteq> 0 then value_of x else value_of y)" if "noeval st = 0"
      using that vc(3) by simp
  qed (use s4(3) in blast)
  have "mathloop P pr cf m pc st1 = mathloop P pr cf (m - 1) pc st5"
    by (rule mathloop_quest [OF tk(1) _ _ _ mv(3,1) tr s2(1) st3_def tk3(1) s4(1) ex])
      (use a(1,5) pr f1(1) m(2) in \<open>simp_all add: ready_def\<close>)
  then show "\<exists>m st'. mathparse P pr cf n pc st = mathloop P pr cf m pc st' \<and> 2 * length r + 3 \<le> m \<and>
      pushed_int st st' ?s \<and> at_token r2 t st'"
    using m s5 by (intro exI [of _ "m - 1"] exI [of _ st5]) simp
qed

section \<open>The two tables of precedences\<close>

definition fol :: "int list \<Rightarrow> expr \<Rightarrow> token \<Rightarrow> bool" where
  "fol pr e t \<longleftrightarrow>
     (case e of Lit n \<Rightarrow> True | Unary u a \<Rightarrow> pr ! unop_tok u < pr ! t
      | Binary b x y \<Rightarrow> right_lim pr b < pr ! t | Cond c x y \<Rightarrow> pr ! T_QUEST < pr ! t)"

definition prec_table :: "int list \<Rightarrow> bool" where
  "prec_table pr \<longleftrightarrow>
     pr ! T_NUM = 0 \<and> pr ! M_INPAR = 1 \<and> top_prec pr < pr ! M_OUTPAR \<and> top_prec pr < pr ! T_EOI \<and>
     (\<forall>u. pr ! unop_tok u = 2) \<and> 3 \<le> pr ! T_QUEST \<and> pr ! T_QUEST < pr ! T_COLON \<and>
     pr ! T_COLON \<le> top_prec pr \<and>
     (\<forall>b. 3 \<le> pr ! binop_tok b \<and> pr ! binop_tok b \<le> top_prec pr \<and> pr ! binop_tok b \<noteq> pr ! T_QUEST) \<and>
     (\<forall>b b'. pr ! binop_tok b = pr ! binop_tok b' \<longrightarrow> right_assoc b = right_assoc b')"

lemma prec_tables: "prec_table c_prec" "prec_table z_prec"
proof -
  have u: "c_prec ! unop_tok u = 2 \<and> z_prec ! unop_tok u = 2" for u
    by (cases u) (simp_all add: c_prec_def z_prec_def)
  have b: "3 \<le> c_prec ! binop_tok b \<and> c_prec ! binop_tok b \<le> 19 \<and> c_prec ! binop_tok b \<noteq> 15 \<and>
      3 \<le> z_prec ! binop_tok b \<and> z_prec ! binop_tok b \<le> 18 \<and> z_prec ! binop_tok b \<noteq> 14" for b
    by (cases b) (simp_all add: c_prec_def z_prec_def)
  have a: "right_assoc b \<longleftrightarrow> c_prec ! binop_tok b = 3 \<or> c_prec ! binop_tok b = 18"
    "right_assoc b \<longleftrightarrow> z_prec ! binop_tok b = 7 \<or> z_prec ! binop_tok b = 17" for b
    by (cases b; simp add: c_prec_def z_prec_def right_assoc_def)+
  have k: "c_prec ! T_NUM = 0" "c_prec ! M_INPAR = 1" "c_prec ! M_OUTPAR = 137" "c_prec ! T_EOI = 200"
    "c_prec ! T_QUEST = 15" "c_prec ! T_COLON = 16" "top_prec c_prec = 19"
    "z_prec ! T_NUM = 0" "z_prec ! M_INPAR = 1" "z_prec ! M_OUTPAR = 137" "z_prec ! T_EOI = 200"
    "z_prec ! T_QUEST = 14" "z_prec ! T_COLON = 15" "top_prec z_prec = 18"
    by (simp_all add: c_prec_def z_prec_def top_prec_def)
  show "prec_table c_prec" unfolding prec_table_def k using u b by (auto simp: a(1))
  show "prec_table z_prec" unfolding prec_table_def k using u b by (auto simp: a(2))
qed

lemma prec_tableD:
  assumes "prec_table pr"
  shows "pr ! T_NUM = 0" "pr ! M_INPAR = 1" "top_prec pr < pr ! M_OUTPAR" "top_prec pr < pr ! T_EOI"
    "pr ! unop_tok u = 2" "3 \<le> pr ! T_QUEST" "pr ! T_QUEST < pr ! T_COLON" "pr ! T_COLON \<le> top_prec pr"
    "3 \<le> pr ! binop_tok b" "pr ! binop_tok b \<le> top_prec pr" "pr ! binop_tok b \<noteq> pr ! T_QUEST"
  using assms by (simp_all add: prec_table_def)

lemma prec_table_assoc:
  "prec_table pr \<Longrightarrow> pr ! binop_tok b = pr ! binop_tok b' \<Longrightarrow> right_assoc b = right_assoc b'"
  unfolding prec_table_def by (elim conjE) (erule allE [of _ b], erule allE [of _ b'], erule mp)

lemma right_lim_le: "right_lim pr b \<le> pr ! binop_tok b"
  by (simp add: right_lim_def)

lemma fol_lim: "level pr e < pr ! t \<Longrightarrow> fol pr e t"
  using right_lim_le by (cases e) (auto simp: fol_def intro: le_less_trans)

lemma fol_or: "l < pr ! t \<Longrightarrow> l < level pr e \<or> fol pr e t"
  using fol_lim [of pr e t] by (cases "level pr e < pr ! t") auto

lemma fol_left:
  assumes T: "prec_table pr" and l: "level pr x \<le> left_lim pr b"
  shows "fol pr x (binop_tok b)"
proof (cases "level pr x = pr ! binop_tok b")
  case True
  then have "\<not> right_assoc b" using l by (auto simp: left_lim_def)
  moreover have "\<not> right_assoc b'" if "pr ! binop_tok b' = pr ! binop_tok b" for b'
    using prec_table_assoc [OF T that] calculation by simp
  ultimately show ?thesis
    using True prec_tableD(9,11) [OF T, of b]
    by (cases x) (simp_all add: fol_def right_lim_def prec_tableD(5) [OF T])
next
  case False
  then show ?thesis using l by (intro fol_lim) (auto simp: left_lim_def split: if_splits)
qed

lemma depth_pos: "1 \<le> depth e"
  by (induction e) auto

text \<open>An operand in parentheses where it is asked for, and bare where it is not.\<close>

lemma parses_wrap:
  assumes "\<And>lim. lvl \<le> lim \<Longrightarrow> parses P pr cf ws lim F k s" and T: "prec_table pr"
    and lv: "lvl \<le> top_prec pr" and F: "F M_OUTPAR" and lim: "1 \<le> lim"
  shows "parses P pr cf (if lvl > lim then ''('' # ws @ ['')''] else ws) lim (\<lambda>t. lim < lvl \<or> F t) k s"
proof (cases "lim < lvl")
  case True
  have "parses P pr cf (''('' # ws @ ['')'']) lim (\<lambda>t. lim < lvl \<or> F t) k s"
    by (rule parses_paren [OF assms(1) [OF lv] F]) (use T lim in \<open>simp_all add: prec_table_def\<close>)
  then show ?thesis using True by simp
next
  case False
  then show ?thesis using assms(1) [of lim] by simp
qed

theorem render_parses:
  assumes T: "prec_table pr" and c: "consts_ok e" and lim: "1 \<le> lim"
  shows "parses P pr cf (render pr lim e) lim (\<lambda>t. lim < level pr e \<or> fol pr e t) (depth e) (value_of e)"
  using c lim
proof (induction e arbitrary: lim)
  case (Lit n)
  then show ?case using parses_num [of n pr lim] T by (simp add: prec_table_def)
next
  case (Unary u a)
  let ?p = "pr ! unop_tok u"
  have p: "?p = 2" "top_prec pr \<ge> 3" using prec_tableD [OF T] by (auto intro: order.trans)
  have A: "parses P pr cf (render pr ?p a) ?p (\<lambda>t. ?p < level pr a \<or> fol pr a t) (depth a) (value_of a)"
    using Unary p by simp
  have "parses P pr cf (unop_text u # render pr ?p a) l (\<lambda>t. ?p < pr ! t) (depth a)
      (map_option (unop_val u) (value_of a))" if "?p \<le> l" for l
  proof (rule parses_mono [OF parses_un [OF A that depth_pos]])
    fix t
    assume "?p < pr ! t"
    then show "(?p < level pr a \<or> fol pr a t) \<and> ?p < pr ! t" using fol_or [of ?p pr t a] by auto
  qed
  from parses_wrap [where lvl = ?p, OF this T _ _ Unary.prems(2)] show ?case
    using p prec_tableD(3) [OF T] by (cases "lim < ?p") (simp_all add: fol_def Let_def)
next
  case (Binary b x y)
  let ?p = "pr ! binop_tok b"
  have p: "3 \<le> ?p" "?p \<le> top_prec pr" using prec_tableD [OF T] by auto
  have l: "1 \<le> left_lim pr b" "1 \<le> right_lim pr b" "left_lim pr b \<le> ?p"
    using p by (simp_all add: left_lim_def right_lim_def)
  have A: "parses P pr cf (render pr (left_lim pr b) x) (left_lim pr b)
      (\<lambda>t. left_lim pr b < level pr x \<or> fol pr x t) (depth x) (value_of x)"
    using Binary l by simp
  have B: "parses P pr cf (render pr (right_lim pr b) y) (right_lim pr b)
      (\<lambda>t. right_lim pr b < level pr y \<or> fol pr y t) (depth y) (value_of y)"
    using Binary l by simp
  have "parses P pr cf (render pr (left_lim pr b) x @ binop_text b # render pr (right_lim pr b) y) lm
      (\<lambda>t. right_lim pr b < pr ! t) (max (depth x) (1 + depth y)) (value_of (Binary b x y))" if "?p \<le> lm" for lm
  proof (rule parses_bin [OF A B l(3) _ that _ depth_pos depth_pos])
    show "left_lim pr b < level pr x \<or> fol pr x (binop_tok b)" using fol_left [OF T] by force
    show "right_lim pr b < level pr y \<or> fol pr y t" if "right_lim pr b < pr ! t" for t
      by (rule fol_or [OF that])
  qed
  from parses_wrap [where lvl = ?p, OF this T p(2) _ Binary.prems(2)] show ?case
    using p prec_tableD(3) [OF T] right_lim_le [of pr b] by (cases "lim < ?p") (simp_all add: fol_def Let_def)
next
  case (Cond c x y)
  let ?q = "pr ! T_QUEST" and ?cl = "pr ! T_COLON"
  have p: "3 \<le> ?q" "?q < ?cl" "?q \<le> top_prec pr" using prec_tableD [OF T] by auto
  have C: "parses P pr cf (render pr (?q - 1) c) (?q - 1) (\<lambda>t. ?q - 1 < level pr c \<or> fol pr c t) (depth c) (value_of c)"
    and X: "parses P pr cf (render pr (?cl - 1) x) (?cl - 1) (\<lambda>t. ?cl - 1 < level pr x \<or> fol pr x t) (depth x) (value_of x)"
    and Y: "parses P pr cf (render pr ?q y) ?q (\<lambda>t. ?q < level pr y \<or> fol pr y t) (depth y) (value_of y)"
    using Cond p by simp_all
  have "parses P pr cf (render pr (?q - 1) c @ ''?'' # render pr (?cl - 1) x @ '':'' # render pr ?q y) lm
      (\<lambda>t. ?q < pr ! t) (max (depth c) (max (1 + depth x) (2 + depth y))) (value_of (Cond c x y))"
    if "?q \<le> lm" for lm
  proof (rule parses_cond [OF C X Y _ _ _ that _ depth_pos depth_pos depth_pos])
    show "?q - 1 < level pr c \<or> fol pr c T_QUEST" by (rule fol_or) simp
    show "?cl - 1 < level pr x \<or> fol pr x T_COLON" by (rule fol_or) simp
    show "?q < level pr y \<or> fol pr y t" if "?q < pr ! t" for t
      by (rule fol_or [OF that])
  qed simp
  from parses_wrap [where lvl = ?q, OF this T p(3) _ Cond.prems(2)] show ?case
    using p prec_tableD(3) [OF T] by (cases "lim < ?q") (simp_all add: fol_def Let_def)
qed

section \<open>Evaluation\<close>

text \<open>What is left of an evaluation once \<open>mathparse\<close> has come to the end of the text.\<close>

lemma mathevall_end:
  assumes p: "mathparse P (if CPRECEDENCES (opts g) then c_prec else z_prec)
      (callmathfunc P (mathevall P n True 0)) (math_fuel s)
      (top_prec (if CPRECEDENCES (opts g) then c_prec else z_prec)) (start_state 0 mt s g) = Some st"
    and e: "pushed_int (start_state 0 mt s g) st (Some v)" "at_token [] T_EOI st" "\<not> errflag g"
  shows "mathevall P (Suc n) False 0 mt s g = Some (MN_INTEGER (word_of_int v), [], T_EOI,
     (if Suc n = MAX_MLEVEL then g\<lparr>lastbase := -1\<rparr> else g)\<lparr>lastmathval := MN_INTEGER (word_of_int v)\<rparr>)"
proof -
  have st: "gl st = g\<lparr>lastbase := -1\<rparr>" "sp st = 0" "int_at st 0 (word_of_int v)"
    using e(1) by (auto simp: pushed_int_def start_state_def)
  then have "math_result P st = Some (MN_INTEGER (word_of_int v), g\<lparr>lastbase := -1\<rparr>)"
    using e(3) by (auto simp: math_result_def int_at_def)
  then show ?thesis
    using p e(2) st by (simp add: at_token_def Let_def)
qed

lemma start_ready:
  "\<not> errflag g \<Longrightarrow> \<not> FORCEFLOAT (opts g) \<Longrightarrow> ready (start_state 0 mt s g)"
  by (simp add: ready_def start_state_def nstack_def)

lemma matheval_text:
  fixes P :: "('d, 'v, 'e) mshell" and g :: "('d, 'e) mglob"
  assumes g: "\<not> errflag g" "\<not> FORCEFLOAT (opts g)" and e: "consts_ok e" "depth e \<le> 100" "value_of e = Some v"
    and pr: "pr = (if CPRECEDENCES (opts g) then c_prec else z_prec)"
  shows "mathevall P (Suc n) False 0 mt (expr_text pr e) g = Some (MN_INTEGER (word_of_int v), [], T_EOI,
     (if Suc n = MAX_MLEVEL then g\<lparr>lastbase := -1\<rparr> else g)\<lparr>lastmathval := MN_INTEGER (word_of_int v)\<rparr>)"
proof -
  let ?cf = "callmathfunc P (mathevall P n True 0)"
  define st :: "('d, 'v, 'e) mst" where "st = start_state 0 mt (expr_text pr e) g"
  have T: "prec_table pr" using prec_tables by (simp add: pr)
  have "1 \<le> top_prec pr" using prec_tableD(6-8) [OF T] by simp
  note R = render_parses [OF T e(1) this, of P ?cf]
  have st: "ptr st = words (render pr (top_prec pr) e) @ []" "ready st" "unary st" "sp st + depth e < 100"
    "2 * length (ptr st) + 3 \<le> math_fuel (expr_text pr e)" "noeval st = 0 \<longrightarrow> value_of e \<noteq> None"
    using e start_ready [OF g] by (simp_all add: st_def start_state_def expr_text_def math_fuel_def)
  have F: "top_prec pr < level pr e \<or> fol pr e T_EOI" by (rule fol_or) (rule prec_tableD(4) [OF T])
  obtain st' where "mathparse P pr ?cf (math_fuel (expr_text pr e)) (top_prec pr) st = Some st'"
    "pushed_int st st' (value_of e)" "at_token [] T_EOI st'"
    by (rule parses_returns [OF R st(1) follows_words(4) F st(2-6) prec_tableD(4) [OF T]])
  then show ?thesis
    using mathevall_end [of P g n "expr_text pr e" mt st' v] g e(3) unfolding st_def pr by simp
qed

lemma render_words: "render pr lim e \<noteq> []"
  by (induction e arbitrary: lim) (simp_all add: Let_def)

lemma expr_text_pk: "pk (expr_text pr e) = CHR '' ''"
  using render_words [of pr "top_prec pr" e] by (cases "render pr (top_prec pr) e") (simp_all add: expr_text_def)

end
