(* ===== verification/Math_Quiet.thy ===== *)
theory Math_Quiet
  imports Math_Total
begin

text \<open>
  With \<open>noeval\<close> positive the parser of \<open>Src/math.c\<close> evaluates nothing: no parameter is
  read or assigned, no function called.  This is what the operand of \<open>&&\<close>, \<open>||\<close> or
  \<open>?:\<close> that is not wanted goes through.  The rest of the shell is arbitrary here, so
  that its state \<open>env\<close> is unchanged means that none of its operations was called.
\<close>

definition quiet_state :: "'e \<Rightarrow> ('d, 'v, 'e) mst \<Rightarrow> bool" where
  "quiet_state e st \<longleftrightarrow>
     0 < noeval st \<and> env (gl st) = e \<and> length (stk st) = 100 \<and> yyval st \<noteq> MN_UNSET \<and>
     (\<forall>i mv. i < 100 \<longrightarrow> stk st ! i = Some mv \<longrightarrow> sval mv \<noteq> MN_UNSET)"

text \<open>The step keeps the state quiet and \<open>noeval\<close> as it was.\<close>

definition quiet_step :: "'e \<Rightarrow> ('d, 'v, 'e) mst \<Rightarrow> ('d, 'v, 'e) mst \<Rightarrow> bool" where
  "quiet_step e st st' \<longleftrightarrow> quiet_state e st' \<and> noeval st' = noeval st"

lemma quiet_step_refl: "quiet_state e st \<Longrightarrow> quiet_step e st st"
  by (simp add: quiet_step_def)

lemma quiet_step_trans: "quiet_step e st st' \<Longrightarrow> quiet_step e st' st'' \<Longrightarrow> quiet_step e st st''"
  by (simp add: quiet_step_def)

lemma quiet_slot: "quiet_state e st \<Longrightarrow> slot_at st i = Some mv \<Longrightarrow> sval mv \<noteq> MN_UNSET"
proof -
  assume q: "quiet_state e st" and s: "slot_at st i = Some mv"
  then have "nat i < 100" "stk st ! nat i = Some mv"
    by (auto simp: slot_at_def STACKSZ_def split: if_splits)
  with q show ?thesis unfolding quiet_state_def by blast
qed

lemma quiet_set:
  assumes "quiet_state e st" "sval mv \<noteq> MN_UNSET"
  shows "quiet_step e st (set_slot i mv st)"
proof -
  have "sval x \<noteq> MN_UNSET" if "k < 100" "(stk st)[nat i := Some mv] ! k = Some x" for k x
  proof (cases "nat i = k")
    case True
    then show ?thesis using that assms by (auto simp: quiet_state_def)
  next
    case False
    then show ?thesis using that assms by (auto simp: quiet_state_def)
  qed
  then show ?thesis using assms(1) by (simp add: quiet_step_def quiet_state_def set_slot_def)
qed

lemma quiet_fields [simp]:
  "quiet_state e (st\<lparr>sp := k\<rparr>) = quiet_state e st"
  "quiet_state e (st\<lparr>unary := b\<rparr>) = quiet_state e st"
  "quiet_state e (st\<lparr>mtok := t\<rparr>) = quiet_state e st"
  by (simp_all add: quiet_state_def)

lemma quiet_merr: "quiet_state e st \<Longrightarrow> quiet_step e st (merr m st)"
  by (simp add: quiet_step_def quiet_state_def merr_def)

lemma quiet_gl: "quiet_state e st \<Longrightarrow> env g = env (gl st) \<Longrightarrow> quiet_step e st (st\<lparr>gl := g\<rparr>)"
  by (simp add: quiet_step_def quiet_state_def)

lemma quiet_lexes: "quiet_state e st \<Longrightarrow> lexes st st' \<Longrightarrow> quiet_step e st st'"
  by (simp add: quiet_step_def quiet_state_def lexes_def)

lemma quiet_load: "quiet_state e st \<Longrightarrow> load_slot P i st = Some st' \<Longrightarrow> st' = st"
  using quiet_slot by (fastforce simp: load_slot_def bind_eq_Some_conv)

lemma quiet_push:
  assumes q: "quiet_state e st" and v: "v \<noteq> MN_UNSET" and p: "push v lv False st = Some st'"
  shows "quiet_step e st st'"
proof -
  define st1 where "st1 = (if sp st = STACKSZ - 1 then merr Stack_overflow st else st\<lparr>sp := sp st + 1\<rparr>)"
  have q1: "quiet_step e st st1"
    using quiet_merr [OF q] q by (simp add: st1_def quiet_step_def)
  have "st' = set_slot (sp st1) \<lparr>lval = lv, pval = None, sval = v\<rparr> st1"
    using p unfolding push_def Let_def st1_def [symmetric] by (simp split: if_splits)
  then show ?thesis
    using quiet_step_trans [OF q1 quiet_set] q1 v by (simp add: quiet_step_def)
qed

lemma quiet_pop:
  assumes q: "quiet_state e st" and p: "pop P noget st = Some (v, st')"
  shows "quiet_step e st st' \<and> v \<noteq> MN_UNSET"
proof -
  obtain st1 mv where s: "(if noget then Some st else load_slot P (sp st) st) = Some st1"
    "slot_at st1 (sp st1) = Some mv" "st' = st1\<lparr>sp := sp st1 - 1\<rparr>"
    "v = (if err (st1\<lparr>sp := sp st1 - 1\<rparr>) then zero_mnumber else sval mv)"
    using p unfolding pop_def bind_eq_Some_conv Let_def by auto
  have "st1 = st" using s(1) quiet_load [OF q] by (auto split: if_splits)
  then show ?thesis using s quiet_slot [OF q s(2) [unfolded \<open>st1 = st\<close>]] q
    by (auto simp: quiet_step_def zero_mnumber_def)
qed

lemma quiet_setmathvar:
  assumes "setmathvar P ne mv v g = Some (v', mv', g')" "ne \<noteq> 0" "v \<noteq> MN_UNSET"
  shows "env g' = env g \<and> v' \<noteq> MN_UNSET \<and> sval mv' = sval mv"
  using assms
  by (auto simp: setmathvar_def setmathvar_new_def bind_eq_Some_conv split: option.splits if_splits)

lemma quiet_drop_lval:
  assumes q: "quiet_state e st" and p: "drop_lval st = Some st'"
  shows "quiet_step e st st'"
proof -
  obtain mv where "slot_at st (sp st) = Some mv"
    "st' = set_slot (sp st) (mv\<lparr>lval := None, pval := None\<rparr>) st"
    using p by (auto simp: drop_lval_def bind_eq_Some_conv)
  then show ?thesis using quiet_set [OF q] quiet_slot [OF q] by simp
qed

section \<open>Operators\<close>

lemma quiet_op_store:
  assumes q: "quiet_state e st" and v: "v \<noteq> MN_UNSET" and p: "op_store P t v st = Some st'"
  shows "quiet_step e st st'"
proof (cases "tok_has t (OP_E2 OR OP_E2IO)")
  case False
  then show ?thesis using quiet_push [OF q v] p by (simp add: op_store_def)
next
  case True
  obtain mv c' mv' g where s: "slot_at st (sp st + 1) = Some mv"
    "setmathvar P (noeval st) mv v (gl st) = Some (c', mv', g)"
    "push c' (lval mv') False (set_slot (sp st + 1) mv' (st\<lparr>gl := g\<rparr>)) = Some st'"
    using p True by (auto simp: op_store_def bind_eq_Some_conv)
  have ne: "noeval st \<noteq> 0" using q by (simp add: quiet_state_def)
  note sm = quiet_setmathvar [OF s(2) ne v]
  have 1: "quiet_step e st (st\<lparr>gl := g\<rparr>)" using quiet_gl [OF q] sm by blast
  have 2: "quiet_step e (st\<lparr>gl := g\<rparr>) (set_slot (sp st + 1) mv' (st\<lparr>gl := g\<rparr>))"
    by (rule quiet_set) (use 1 sm quiet_slot [OF q s(1)] in \<open>simp_all add: quiet_step_def\<close>)
  have 3: "quiet_step e (set_slot (sp st + 1) mv' (st\<lparr>gl := g\<rparr>)) st'"
    by (rule quiet_push [OF _ _ s(3)]) (use 2 sm in \<open>simp_all add: quiet_step_def\<close>)
  show ?thesis by (rule quiet_step_trans [OF 1 quiet_step_trans [OF 2 3]])
qed

lemma quiet_op_binary:
  assumes q: "quiet_state e st" and p: "op_binary P t st = Some st'"
  shows "quiet_step e st st'"
proof -
  obtain b st1 a st2 where s: "pop P False st = Some (b, st1)" "pop P (t = T_EQ) st1 = Some (a, st2)"
    using p by (auto simp: op_binary_def bind_eq_Some_conv)
  have 1: "quiet_step e st st1" using quiet_pop [OF q s(1)] by blast
  then have 2: "quiet_step e st1 st2" using quiet_pop [of e, OF _ s(2)] by (simp add: quiet_step_def)
  have 3: "quiet_step e st st2" by (rule quiet_step_trans [OF 1 2])
  have ne: "noeval st2 \<noteq> 0" using 3 by (simp add: quiet_step_def quiet_state_def)
  have "st' = st2 \<or> op_store P t (MN_INTEGER 0) st2 = Some st'"
    using p s ne by (auto simp: op_binary_def case_prod_beta split: if_splits)
  then show ?thesis
    using 3 quiet_op_store [of e st2 "MN_INTEGER 0"] quiet_step_trans [OF 3]
    by (auto simp: quiet_step_def)
qed

lemma quiet_op_step:
  assumes q: "quiet_state e st" and a: "a \<noteq> MN_UNSET" and p: "op_step P post a st = Some st'"
  shows "quiet_step e st st'"
proof -
  obtain mv0 v' mv' g where s: "slot_at st (sp st) = Some mv0"
    "setmathvar P (noeval st) (if post then mv0 else mv0\<lparr>sval := a\<rparr>) a (gl st) = Some (v', mv', g)"
    "drop_lval (set_slot (sp st) mv' (st\<lparr>gl := g\<rparr>)) = Some st'"
    using p by (auto simp: op_step_def bind_eq_Some_conv Let_def)
  have ne: "noeval st \<noteq> 0" using q by (simp add: quiet_state_def)
  note sm = quiet_setmathvar [OF s(2) ne a]
  have u: "sval mv' \<noteq> MN_UNSET" using sm quiet_slot [OF q s(1)] a by auto
  have 1: "quiet_step e st (st\<lparr>gl := g\<rparr>)" using quiet_gl [OF q] sm by blast
  have 2: "quiet_step e (st\<lparr>gl := g\<rparr>) (set_slot (sp st) mv' (st\<lparr>gl := g\<rparr>))"
    by (rule quiet_set [OF _ u]) (use 1 in \<open>simp add: quiet_step_def\<close>)
  have 3: "quiet_step e (set_slot (sp st) mv' (st\<lparr>gl := g\<rparr>)) st'"
    by (rule quiet_drop_lval [OF _ s(3)]) (use 2 in \<open>simp add: quiet_step_def\<close>)
  show ?thesis by (rule quiet_step_trans [OF 1 quiet_step_trans [OF 2 3]])
qed

lemma quiet_op_quest:
  assumes q: "quiet_state e st" and p: "op_quest P st = Some st'"
  shows "quiet_step e st st'"
proof -
  obtain c st1 b st2 a st3 where s: "pop P False st = Some (c, st1)" "pop P False st1 = Some (b, st2)"
    "pop P False st2 = Some (a, st3)"
    using p by (auto simp: op_quest_def bind_eq_Some_conv)
  have 1: "quiet_step e st st1 \<and> c \<noteq> MN_UNSET" using quiet_pop [OF q s(1)] .
  then have 2: "quiet_step e st1 st2 \<and> b \<noteq> MN_UNSET"
    using quiet_pop [of e, OF _ s(2)] by (simp add: quiet_step_def)
  then have 3: "quiet_step e st2 st3" using quiet_pop [of e, OF _ s(3)] by (simp add: quiet_step_def)
  have q3: "quiet_step e st st3"
    by (rule quiet_step_trans [OF conjunct1 [OF 1] quiet_step_trans [OF conjunct1 [OF 2] 3]])
  show ?thesis
  proof (cases "err st3")
    case True
    then show ?thesis using p s q3 by (simp add: op_quest_def)
  next
    case False
    then obtain st4 where s4: "push (if truthy P a then b else c) None False st3 = Some st4"
      "drop_lval st4 = Some st'"
      using p s by (auto simp: op_quest_def bind_eq_Some_conv)
    have 4: "quiet_step e st3 st4"
      by (rule quiet_push [OF _ _ s4(1)]) (use q3 1 2 in \<open>auto simp: quiet_step_def\<close>)
    have 5: "quiet_step e st4 st'"
      by (rule quiet_drop_lval [OF _ s4(2)]) (use 4 in \<open>simp add: quiet_step_def\<close>)
    show ?thesis by (rule quiet_step_trans [OF q3 quiet_step_trans [OF 4 5]])
  qed
qed

lemma quiet_op_unary:
  assumes q: "quiet_state e st" and p: "op_unary P t st = Some st'"
  shows "quiet_step e st st'"
proof -
  have l: "load_slot P (sp st) st = Some st"
    using p quiet_load [OF q] by (auto simp: op_unary_def bind_eq_Some_conv)
  show ?thesis
  proof (cases "err st")
    case True
    then show ?thesis using p l quiet_step_refl [OF q] by (simp add: op_unary_def)
  next
    case False
    then obtain mv where mv: "slot_at st (sp st) = Some mv"
      using p l by (auto simp: op_unary_def bind_eq_Some_conv)
    note u = unary_num_unset [OF quiet_slot [OF q mv]]
    define Q where "Q r \<longleftrightarrow> (\<forall>st'. r = Some st' \<longrightarrow> quiet_step e st st')" for r
    have upd: "Q (drop_lval (set_slot (sp st) (mv\<lparr>sval := v\<rparr>) st))" if "v \<noteq> MN_UNSET" for v
    proof -
      have 1: "quiet_step e st (set_slot (sp st) (mv\<lparr>sval := v\<rparr>) st)"
        by (rule quiet_set [OF q]) (simp add: that)
      then have q1: "quiet_state e (set_slot (sp st) (mv\<lparr>sval := v\<rparr>) st)" by (simp add: quiet_step_def)
      show ?thesis
        unfolding Q_def using quiet_step_trans [OF 1 quiet_drop_lval [OF q1]] by simp
    qed
    have others: "Q (op_step P post v st)" if "v \<noteq> MN_UNSET" for post v
      using quiet_op_step [OF q that] by (auto simp: Q_def)
    have qm: "quiet_state e (merr m st)" for m using quiet_merr [OF q] by (simp add: quiet_step_def)
    have rest: "Q (drop_lval st)" "Q (op_quest P st)" "Q (Some (merr m st))"
      "Q (drop_lval (merr m st))" for m
      unfolding Q_def
      using quiet_drop_lval [OF q] quiet_op_quest [OF q] quiet_merr [OF q]
        quiet_step_trans [OF quiet_merr [OF q] quiet_drop_lval [OF qm]]
      by simp_all
    have eq: "op_unary P t st =
        (if t = T_NOT then drop_lval (set_slot (sp st) (mv\<lparr>sval := num_not P (sval mv)\<rparr>) st)
         else if t = T_COMP then drop_lval (set_slot (sp st) (mv\<lparr>sval := num_comp P (sval mv)\<rparr>) st)
         else if t = T_POSTPLUS then op_step P True (num_inc P (sval mv)) st
         else if t = T_POSTMINUS then op_step P True (num_dec P (sval mv)) st
         else if t = T_UPLUS then drop_lval st
         else if t = T_UMINUS then drop_lval (set_slot (sp st) (mv\<lparr>sval := neg_number P (sval mv)\<rparr>) st)
         else if t = T_QUEST then op_quest P st
         else if t = T_COLON then drop_lval (merr Colon_without_quest st)
         else if t = T_PREPLUS then op_step P False (num_inc P (sval mv)) st
         else if t = T_PREMINUS then op_step P False (num_dec P (sval mv)) st
         else Some (merr Out_of_integers st))"
      unfolding op_unary_def using l False mv by (simp add: Let_def)
    have "Q (op_unary P t st)" unfolding eq by (simp add: upd others rest u)
    then show ?thesis using p by (simp add: Q_def)
  qed
qed

lemma quiet_exec_op:
  assumes "quiet_state e st" "exec_op P t st = Some st'"
  shows "quiet_step e st st'"
  using assms quiet_merr quiet_step_refl quiet_op_binary quiet_op_unary
  unfolding exec_op_def by (metis (no_types, lifting) option.inject)

section \<open>The parser\<close>

lemma quiet_checkunary: "quiet_state e st \<Longrightarrow> quiet_step e st (checkunary P t s st)"
  using quiet_merr [of e st] by (simp add: checkunary_def Let_def quiet_step_def)

lemma quiet_next:
  assumes P: "steady_shell P" and q: "quiet_state e st" and z: "zzlex P st = (t, st1)"
  shows "quiet_step e st (st1\<lparr>mtok := t\<rparr>)"
    and "quiet_step e st (checkunary P t s (st1\<lparr>mtok := t\<rparr>))"
proof -
  have "lexes st st1" using zzlex_spec [OF P, of st] z by simp
  then have 1: "quiet_step e st st1" by (rule quiet_lexes [OF q])
  then show 2: "quiet_step e st (st1\<lparr>mtok := t\<rparr>)" by (simp add: quiet_step_def)
  then have "quiet_state e (st1\<lparr>mtok := t\<rparr>)" by (simp add: quiet_step_def)
  then show "quiet_step e st (checkunary P t s (st1\<lparr>mtok := t\<rparr>))"
    using quiet_step_trans [OF 2 quiet_checkunary] by blast
qed

lemma quiet_lex_check:
  assumes "steady_shell P" "quiet_state e st"
  shows "quiet_step e st (lex_check P st)"
  using quiet_next(2) [OF assms] by (cases "zzlex P st") (simp add: lex_check_def)

lemma quiet_push_operand:
  assumes q: "quiet_state e st" and p: "push_operand P cf st = Some st'"
  shows "quiet_step e st st'"
proof -
  have ne: "noeval st \<noteq> 0" and y: "yyval st \<noteq> MN_UNSET" using q by (simp_all add: quiet_state_def)
  have id: "st\<lparr>gl := gl st\<rparr> = st" by simp
  have "push (yyval st) None False st = Some st' \<or> push zero_mnumber (Some (yylval st)) False st = Some st'"
    using p ne by (auto simp: push_operand_def Let_def split: if_splits)
  then show ?thesis using quiet_push [OF q] y by (auto simp: zero_mnumber_def)
qed

lemma quiet_noeval:
  "quiet_state e st \<Longrightarrow> 0 < k \<Longrightarrow> quiet_state e (st\<lparr>noeval := k\<rparr>)"
  by (simp add: quiet_state_def)

lemma quiet_add: "quiet_state e st \<Longrightarrow> quiet_state e (add_noeval p 1 st)"
  by (simp add: add_noeval_def quiet_state_def)

definition quiet_parse ::
  "('d, 'v, 'e) mshell \<Rightarrow> int list \<Rightarrow> ('d, 'e) caller \<Rightarrow> 'e \<Rightarrow> nat \<Rightarrow> bool" where
  "quiet_parse P pr cf e n \<longleftrightarrow>
     (\<forall>pc st st'. quiet_state e (st :: ('d, 'v, 'e) mst) \<longrightarrow> mathparse P pr cf n pc st = Some st' \<longrightarrow>
        quiet_step e st st')"

definition quiet_loop ::
  "('d, 'v, 'e) mshell \<Rightarrow> int list \<Rightarrow> ('d, 'e) caller \<Rightarrow> 'e \<Rightarrow> nat \<Rightarrow> bool" where
  "quiet_loop P pr cf e n \<longleftrightarrow>
     (\<forall>pc st st'. quiet_state e (st :: ('d, 'v, 'e) mst) \<longrightarrow> mathloop P pr cf n pc st = Some st' \<longrightarrow>
        quiet_step e st st')"

lemma quiet_branch:
  assumes A: "quiet_parse P pr cf e n" and q: "quiet_state e st"
    and p: "mathparse P pr cf n pc (add_noeval b 1 st) = Some st'"
  shows "quiet_step e st (add_noeval b (-1) st')"
proof -
  have "quiet_step e (add_noeval b 1 st) st'"
    using A quiet_add [OF q] p unfolding quiet_parse_def by blast
  then have "quiet_state e st'" "noeval st' = noeval st + (if b then 1 else 0)"
    by (simp_all add: quiet_step_def)
  moreover have "0 < noeval st" using q by (simp add: quiet_state_def)
  ultimately show ?thesis
    by (auto simp: quiet_step_def add_noeval_def intro: quiet_noeval)
qed

lemma quiet_parse_step:
  assumes P: "steady_shell P" and L: "quiet_loop P pr cf e n"
  shows "quiet_parse P pr cf e (Suc n)"
  unfolding quiet_parse_def
proof (intro allI impI)
  fix pc and st st' :: "('a, 'b, 'c) mst"
  assume q: "quiet_state e st" and p: "mathparse P pr cf (Suc n) pc st = Some st'"
  obtain t st1 where z: "zzlex P st = (t, st1)" by fastforce
  note nx = quiet_next [OF P q z]
  have q2: "quiet_state e (checkunary P t (ptr st) (st1\<lparr>mtok := t\<rparr>))"
    using nx(2) by (simp add: quiet_step_def)
  consider (e) "st' = st" | (s) "st' = st1\<lparr>mtok := t\<rparr>"
    | (l) "mathloop P pr cf n pc (checkunary P t (ptr st) (st1\<lparr>mtok := t\<rparr>)) = Some st'"
  proof (cases "err st")
    case True
    then show ?thesis using p that(1) by simp
  next
    case F: False
    show ?thesis
    proof (cases "pc = top_prec pr \<and> t = T_EOI")
      case True
      then show ?thesis using p F that(2) by (simp add: z)
    next
      case False
      then have "mathparse P pr cf (Suc n) pc st
          = mathloop P pr cf n pc (checkunary P t (ptr st) (st1\<lparr>mtok := t\<rparr>))"
        using F by (simp only: mathparse.simps z Let_def case_prod_conv if_False)
      then show ?thesis using p that(3) by simp
    qed
  qed
  then show "quiet_step e st st'"
  proof cases
    case e
    then show ?thesis using quiet_step_refl [OF q] by simp
  next
    case s
    then show ?thesis using nx(1) by simp
  next
    case l
    then have "quiet_step e (checkunary P t (ptr st) (st1\<lparr>mtok := t\<rparr>)) st'"
      using L q2 unfolding quiet_loop_def by blast
    then show ?thesis by (rule quiet_step_trans [OF nx(2)])
  qed
qed

lemma quiet_rest_cases:
  assumes p: "mathloop P pr cf (Suc n) pc st = Some st'" and F: "\<not> (pc < pr ! mtok st \<or> err st)"
    and d: "\<not> (mtok st = T_NUM \<or> mtok st = T_ID \<or> mtok st = T_CID \<or> mtok st = T_FUNC)"
      "mtok st \<noteq> M_INPAR" "mtok st \<noteq> T_QUEST"
  obtains s1 s2 s3 where "(if MTYPE (mtok st) = BOOL then bop P (mtok st) st else Some st) = Some s1"
    "mathparse P pr cf n (pr ! mtok st - (if MTYPE (mtok st) \<noteq> RL then 1 else 0)) s1 = Some s2"
    "exec_op P (mtok st) (s2\<lparr>noeval := noeval st\<rparr>) = Some s3" "mathloop P pr cf n pc s3 = Some st'"
proof -
  have n: "\<not> pc < pr ! mtok st" "\<not> err st" using F by simp_all
  have eq: "mathloop P pr cf (Suc n) pc st =
      (do { st1 \<leftarrow> (if MTYPE (mtok st) = BOOL then bop P (mtok st) st else Some st);
            st2 \<leftarrow> mathparse P pr cf n (pr ! mtok st - (if MTYPE (mtok st) \<noteq> RL then 1 else 0)) st1;
            st3 \<leftarrow> exec_op P (mtok st) (st2\<lparr>noeval := noeval st\<rparr>);
            mathloop P pr cf n pc st3 })"
    by (simp only: mathloop.simps Let_def n d if_False)
  show ?thesis
    using p unfolding eq bind_eq_Some_conv by (elim exE conjE) (rule that)
qed

lemma quiet_loop_step:
  assumes P: "steady_shell P" and A: "quiet_parse P pr cf e n" and L: "quiet_loop P pr cf e n"
  shows "quiet_loop P pr cf e (Suc n)"
  unfolding quiet_loop_def
proof (intro allI impI)
  fix pc and st st' :: "('a, 'b, 'c) mst"
  assume q: "quiet_state e st" and p: "mathloop P pr cf (Suc n) pc st = Some st'"
  let ?t = "mtok st"
  have next': "quiet_step e st st'" if "quiet_step e st s1" "mathloop P pr cf n pc s1 = Some st'" for s1
    using L that quiet_step_trans [OF that(1)] unfolding quiet_loop_def quiet_step_def by blast
  have lexed: "quiet_step e st (lex_check P s1)" if "quiet_step e st s1" for s1
    using quiet_step_trans [OF that quiet_lex_check [OF P]] that by (simp add: quiet_step_def)
  have merr': "quiet_step e st (merr m s1)" if "quiet_step e st s1" for m s1
    using quiet_step_trans [OF that quiet_merr] that by (simp add: quiet_step_def)
  show "quiet_step e st st'"
  proof (cases "pc < pr ! ?t \<or> err st")
    case True
    then have "st' = st" using p by (auto simp: Let_def split: if_splits)
    then show ?thesis using quiet_step_refl [OF q] by simp
  next
    case F: False
    consider (o) "?t = T_NUM \<or> ?t = T_ID \<or> ?t = T_CID \<or> ?t = T_FUNC"
      | (i) "?t = M_INPAR" | (u) "?t = T_QUEST"
      | (d) "\<not> (?t = T_NUM \<or> ?t = T_ID \<or> ?t = T_CID \<or> ?t = T_FUNC)" "?t \<noteq> M_INPAR" "?t \<noteq> T_QUEST"
      by blast
    then show ?thesis
    proof cases
      case o
      then obtain s1 where "push_operand P cf st = Some s1" "mathloop P pr cf n pc (lex_check P s1) = Some st'"
        using p F by (auto simp: Let_def bind_eq_Some_conv)
      then show ?thesis using next' lexed quiet_push_operand [OF q] by blast
    next
      case i
      then obtain s1 where s1: "mathparse P pr cf n (top_prec pr) st = Some s1"
        "st' = s1 \<or> st' = merr Paren_expected s1 \<or> mathloop P pr cf n pc (lex_check P s1) = Some st'"
        using p F by (auto simp: Let_def bind_eq_Some_conv split: if_splits)
      have "quiet_step e st s1" using A q s1(1) unfolding quiet_parse_def by blast
      then show ?thesis using s1(2) next' lexed merr' by blast
    next
      case u
      have l: "load_slot P (sp st) st = Some st"
        using p F u quiet_load [OF q] by (auto simp: Let_def bind_eq_Some_conv)
      obtain mv where mv: "slot_at st (sp st) = Some mv"
        using p F u l by (auto simp: Let_def bind_eq_Some_conv)
      define b where "b = truthy P (sval mv)"
      obtain s2 where s2: "mathparse P pr cf n (pr ! T_COLON - 1) (add_noeval (\<not> b) 1 st) = Some s2"
        using p F u l mv by (auto simp: Let_def bind_eq_Some_conv b_def)
      define s3 where "s3 = add_noeval (\<not> b) (-1) s2"
      have q3: "quiet_step e st s3" unfolding s3_def by (rule quiet_branch [OF A q s2])
      show ?thesis
      proof (cases "mtok s3 = T_COLON")
        case False
        then have "st' = s3 \<or> st' = merr Colon_expected s3"
          using p F u l mv s2 by (auto simp: Let_def b_def s3_def split: if_splits)
        then show ?thesis using q3 merr' by blast
      next
        case True
        then obtain s4 s5 where s4: "mathparse P pr cf n (pr ! T_QUEST) (add_noeval b 1 s3) = Some s4"
          "exec_op P T_QUEST (add_noeval b (-1) s4) = Some s5" "mathloop P pr cf n pc s5 = Some st'"
          using p F u l mv s2 by (auto simp: Let_def bind_eq_Some_conv b_def s3_def split: if_splits)
        have q3': "quiet_state e s3" using q3 by (simp add: quiet_step_def)
        have q4: "quiet_step e s3 (add_noeval b (-1) s4)" by (rule quiet_branch [OF A q3' s4(1)])
        have q5: "quiet_step e (add_noeval b (-1) s4) s5"
          by (rule quiet_exec_op [OF _ s4(2)]) (use q4 in \<open>simp add: quiet_step_def\<close>)
        show ?thesis
          by (rule next' [OF quiet_step_trans [OF q3 quiet_step_trans [OF q4 q5]] s4(3)])
      qed
    next
      case d
      obtain s1 s2 s3 where s: "(if MTYPE ?t = BOOL then bop P ?t st else Some st) = Some s1"
        "mathparse P pr cf n (pr ! ?t - (if MTYPE ?t \<noteq> RL then 1 else 0)) s1 = Some s2"
        "exec_op P ?t (s2\<lparr>noeval := noeval st\<rparr>) = Some s3" "mathloop P pr cf n pc s3 = Some st'"
        by (rule quiet_rest_cases [OF p F d])
      have ne: "0 < noeval st" using q by (simp add: quiet_state_def)
      have q1: "quiet_state e s1"
      proof (cases "MTYPE ?t = BOOL")
        case True
        then show ?thesis
          using s(1) quiet_load [OF q] q quiet_noeval [OF q, of "noeval st + 1"] ne
          by (auto simp: bop_def Let_def bind_eq_Some_conv split: if_splits)
      next
        case False
        then show ?thesis using s(1) q by simp
      qed
      then have "quiet_state e s2" using A s(2) unfolding quiet_parse_def quiet_step_def by blast
      then have q2: "quiet_state e (s2\<lparr>noeval := noeval st\<rparr>)" using ne by (rule quiet_noeval)
      have "quiet_step e (s2\<lparr>noeval := noeval st\<rparr>) s3" by (rule quiet_exec_op [OF q2 s(3)])
      then have "quiet_step e st s3" by (simp add: quiet_step_def)
      then show ?thesis using next' s(4) by blast
    qed
  qed
qed

theorem parser_quiet:
  assumes P: "steady_shell P"
  shows "quiet_parse P pr cf e n \<and> quiet_loop P pr cf e n"
proof (induction n)
  case 0
  show ?case by (simp add: quiet_parse_def quiet_loop_def)
next
  case (Suc n)
  then show ?case using quiet_parse_step [OF P] quiet_loop_step [OF P] by blast
qed

lemma mathevall_quiet:
  assumes P: "steady_shell P" and ne: "0 < ne" and m: "mathevall P n arg ne mt s g = Some (v, r, t, g')"
  shows "env g' = env g"
proof (cases n)
  case 0
  then show ?thesis using m by auto
next
  case (Suc k)
  define pr where "pr = (if CPRECEDENCES (opts g) then c_prec else z_prec)"
  define cf where "cf = callmathfunc P (mathevall P k True 0)"
  obtain st1 ret g2 where s: "mathparse P pr cf (math_fuel s) (if arg then arg_prec pr else top_prec pr)
        (start_state ne mt s g) = Some st1"
    "math_result P (if mtok st1 = M_OUTPAR \<and> \<not> err st1 then merr Unexpected_paren st1 else st1)
       = Some (ret, g2)"
    "g' = (if Suc k = MAX_MLEVEL then g2 else g2\<lparr>lastbase := lastbase g\<rparr>)\<lparr>lastmathval := ret\<rparr>"
    using m unfolding Suc mathevall.simps Let_def pr_def [symmetric] cf_def [symmetric]
      bind_eq_Some_conv by auto
  have sv: "sval mv \<noteq> MN_UNSET" if "i < 100" "nstack ! i = Some mv" for i and mv :: "('a, 'b) slot"
    using that by (auto simp: nstack_def nth_Cons' zero_mnumber_def split: if_splits)
  have "quiet_state (env g) (start_state ne mt s g :: ('a, 'b, 'c) mst)"
    using ne sv by (auto simp: quiet_state_def start_state_def zero_mnumber_def)
      (simp add: nstack_def)
  then have "quiet_state (env g) st1"
    using parser_quiet [OF P] s(1) unfolding quiet_parse_def quiet_step_def by blast
  then have q: "quiet_state (env g) (if mtok st1 = M_OUTPAR \<and> \<not> err st1 then merr Unexpected_paren st1 else st1)"
    (is "quiet_state _ ?st2") using quiet_merr [of "env g" st1 Unexpected_paren] by (simp add: quiet_step_def)
  have "g2 = gl ?st2"
    using s(2) quiet_slot [OF q, of 0]
    by (fastforce simp: math_result_def bind_eq_Some_conv split: if_splits)
  moreover have "env (gl ?st2) = env g" using q by (simp add: quiet_state_def)
  ultimately show ?thesis using s(3) by simp
qed

lemma matheval_quiet:
  assumes P: "steady_shell P" and ne: "0 < ne" and m: "matheval P mlevel ne mt s g = Some (v, g')"
  shows "env g' = env g"
proof -
  define s1 where "s1 = (if pk s = Nularg then tl s else s)"
  define g1 where "g1 = (if mlevel = 0 then g\<lparr>outputradix := 0, outputunderscore := 0\<rparr> else g)"
  have g1: "env g1 = env g" by (simp add: g1_def)
  show ?thesis
  proof (cases "pk s1 = NUL")
    case True
    then show ?thesis using m g1 unfolding matheval_def Let_def s1_def [symmetric] g1_def [symmetric]
      by simp
  next
    case False
    then obtain x r t g2 where "mathevall P (MAX_MLEVEL - mlevel) False ne mt s1 g1 = Some (x, r, t, g2)"
      "g' = (if pk r \<noteq> NUL then zerr (Illegal_character (pk r)) g2 else g2)"
      using m unfolding matheval_def Let_def s1_def [symmetric] g1_def [symmetric] bind_eq_Some_conv
      by (cases "mathevall P (MAX_MLEVEL - mlevel) False ne mt s1 g1") (auto split: prod.splits)
    then show ?thesis using mathevall_quiet [OF P ne] g1 by auto
  qed
qed

end
