(* ===== verification/Math_Demo.thy ===== *)
theory Math_Demo
  imports Math_Parse Cdouble
begin

text \<open>
  A small shell around the arithmetic code, for the witnesses: doubles are the rationals
  of \<open>Cdouble\<close>, the parameters a map from names to numbers, and there is one
  mathematical function, \<open>max\<close> of at least one integer.
\<close>

type_synonym demo_env = "string \<Rightarrow> rat mnumber option"

definition demo_max :: "(rat, demo_env) mathfunc" where
  "demo_max = \<lparr>MFF_STR = False, MFF_USERFUNC = False, fmodule = None, minargs = 1, maxargs = -1,
     nfunc = (\<lambda>_ as g. (MN_INTEGER (foldr (\<lambda>a m. case a of MN_INTEGER l \<Rightarrow> if m <s l then l else m
                                       | _ \<Rightarrow> m) as 0), g)),
     sfunc = (\<lambda>_ _ g. (MN_INTEGER 0, g))\<rparr>"

definition demo_shell :: "(rat, string, demo_env) mshell" where
  "demo_shell =
     \<lparr>d_of = (\<lambda>l. dround (of_int (sint l))), d_to = (\<lambda>d. word_of_int (dtrunc d)),
      d_add = dadd, d_sub = (\<lambda>x y. dadd x (- y)), d_mul = dmul, d_div = ddiv,
      d_fmod = (\<lambda>x y. x - of_int (dtrunc (x / y)) * y), d_pow = (\<lambda>x y. dround (x ^ nat (dtrunc y))),
      d_neg = uminus, d_lt = (<), d_le = (\<le>), d_eq = (=),
      strtod = (\<lambda>s. (of_nat (num_val (takeWhile isdigit s)), dropWhile isdigit s)),
      mbrtowc = (\<lambda>s c. MB_INVALID), iswalnum = (\<lambda>_. False),
      getkeystring = (\<lambda>s g. (case s of [] \<Rightarrow> None | c # r \<Rightarrow> Some (of_char c, r), g)),
      pparams_len = (\<lambda>_. 0), mypid = (\<lambda>_. 4711), lastval = (\<lambda>_. 1),
      getvalue = (\<lambda>s g. (if env g s = None then None else Some s, g)),
      getnumvalue = (\<lambda>s g. (case env g s of Some (MN_INTEGER l) \<Rightarrow> MN_INTEGER l
                                | Some (MN_FLOAT d) \<Rightarrow> MN_FLOAT d | _ \<Rightarrow> zero_mnumber, g)),
      same_param = (\<lambda>s v g. s = v),
      setnumvalue = (\<lambda>s a g. g\<lparr>env := (env g)(s \<mapsto> a)\<rparr>),
      setnparam = (\<lambda>s a g. (Some PM_OTHER, g\<lparr>env := (env g)(s \<mapsto> a)\<rparr>)),
      getsparam = (\<lambda>s g. (None, g)),
      getmathfunc = (\<lambda>s g. (if s = ''max'' then Some demo_max else None, g)),
      doshfunc = (\<lambda>_ _ _. None), convfloat = (\<lambda>_. ''''),
      convbase10 = (\<lambda>l. dec (unat l))\<rparr>"

definition demo_opts :: mopts where
  "demo_opts = \<lparr>UNSET = True, FORCEFLOAT = False, OCTALZEROES = False, CPRECEDENCES = False,
     MULTIBYTE = False, POSIXIDENTIFIERS = False, emulate_sh = False, emulate_ksh = False\<rparr>"

definition demo_glob :: "(rat, demo_env) mglob" where
  "demo_glob = \<lparr>errflag = False, noerrs = 0, msgs = [], opts = demo_opts, lastbase = -1,
     outputradix = 0, outputunderscore = 0, lastmathval = zero_mnumber, env = (\<lambda>_. None)\<rparr>"

definition demo_start :: "string \<Rightarrow> (rat, string, demo_env) mst" where
  "demo_start s = start_state 0 0 s demo_glob"

text \<open>The same where the text is an operand to be skipped.\<close>

definition demo_skip :: "string \<Rightarrow> (rat, string, demo_env) mst" where
  "demo_skip s = start_state 1 0 s demo_glob"

end
