(* ===== verification/Math_Props.thy ===== *)
theory Math_Props
  imports Math_Refine Math_Quiet Math_Demo
begin

text \<open>
  The properties of the arithmetic code, over the definitions of \<open>Math_Parse\<close>, with
  their witnesses on the small shell of \<open>Math_Demo\<close>.
\<close>

section \<open>The small shell\<close>

lemma demo_steady: "steady_shell demo_shell"
proof -
  have f: "steady_func demo_max" by (simp add: steady_func_def demo_max_def)
  show ?thesis
    unfolding steady_shell_def demo_shell_def
    by (auto simp: f steady_def zero_mnumber_def length_dropWhile_le' split: option.split mnumber.split
        list.splits if_splits)
qed

section \<open>Values\<close>

text \<open>C2: The arithmetic code computes what an expression means: for every expression over
  integer constants, the unary operators, the operators of two operands and \<open>?:\<close>, written with just
  the parentheses its table of precedences (C's or the shell's own) asks for, \<open>matheval\<close> returns
  the value of the reference semantics over 64-bit two's complement, reads the whole text, reports
  nothing and touches nothing of the shell.  The value is defined where nothing that is evaluated
  divides by zero, has a negative exponent or a shift count out of range, and no left operand of
  \<open>&&\<close> or \<open>||\<close> is a nonzero multiple of 2 to the 32.\<close>

theorem matheval_value:
  fixes P :: "('d, 'v, 'e) mshell" and g :: "('d, 'e) mglob"
  assumes g: "\<not> errflag g" "\<not> FORCEFLOAT (opts g)" and e: "consts_ok e" "depth e \<le> 100"
    and v: "value_of e = Some v"
  shows "matheval P 0 0 mt (expr_text (if CPRECEDENCES (opts g) then c_prec else z_prec) e) g =
    Some (MN_INTEGER (word_of_int v),
      g\<lparr>outputradix := 0, outputunderscore := 0, lastbase := -1, lastmathval := MN_INTEGER (word_of_int v)\<rparr>)"
proof -
  define pr where "pr = (if CPRECEDENCES (opts g) then c_prec else z_prec)"
  define g1 where "g1 = g\<lparr>outputradix := 0, outputunderscore := 0\<rparr>"
  have g1: "\<not> errflag g1" "\<not> FORCEFLOAT (opts g1)" using g by (simp_all add: g1_def)
  have m: "MAX_MLEVEL - 0 = Suc 255" by (simp add: MAX_MLEVEL_def)
  have n: "pk (expr_text pr e) \<noteq> Nularg" "pk (expr_text pr e) \<noteq> NUL"
    by (simp_all add: expr_text_pk NUL_def)
  have "mathevall P (Suc 255) False 0 mt (expr_text pr e) g1 = Some (MN_INTEGER (word_of_int v), [], T_EOI,
     (if Suc 255 = MAX_MLEVEL then g1\<lparr>lastbase := -1\<rparr> else g1)\<lparr>lastmathval := MN_INTEGER (word_of_int v)\<rparr>)"
    by (rule matheval_text [OF g1 e v]) (simp add: g1_def pr_def)
  then show ?thesis
    unfolding pr_def [symmetric] matheval_def m
    using n by (simp add: Let_def g1_def [symmetric] del: mathevall.simps) (simp add: MAX_MLEVEL_def g1_def)
qed

theorem matheval_value_witness:
  "matheval demo_shell 0 0 0 (expr_text (if CPRECEDENCES (opts demo_glob) then c_prec else z_prec)
      (Binary Bmul (Binary Badd (Lit 1) (Lit 2)) (Unary Uneg (Binary Bpow (Lit 3) (Lit 4))))) demo_glob =
    Some (MN_INTEGER (word_of_int (-243)),
      demo_glob\<lparr>outputradix := 0, outputunderscore := 0, lastbase := -1,
        lastmathval := MN_INTEGER (word_of_int (-243))\<rparr>)"
  by (rule matheval_value)
    (simp_all add: demo_glob_def demo_opts_def wrap_def signed_take_bit_int_eq_self)

section \<open>Returning\<close>

text \<open>C5: An arithmetic evaluation always returns a number: whatever the text, whatever the
  shell's parameters and functions do (as long as an error they report stays reported), neither
  \<open>matheval\<close> nor \<open>mathevalarg\<close> leaves the value stack, reads an entry that was not written,
  reads the union under a wrong tag or loops; the fuel of \<open>math_fuel\<close> is enough at each of the
  256 levels of recursion.  It rests on errors setting \<open>errflag\<close>, that is on \<open>noerrs\<close>
  below 2.\<close>

theorem matheval_returns:
  assumes P: "steady_shell P" and n: "noerrs g < 2"
  shows "(\<exists>v g'. matheval P mlevel ne mt s g = Some (v, g') \<and> v \<noteq> MN_UNSET) \<and>
    (\<exists>z r g'. mathevalarg P mlevel ne mt s g = Some (z, r, g'))"
proof -
  have ev: "\<exists>v r t g'. mathevall P k arg ne mt s1 g1 = Some (v, r, t, g') \<and> v \<noteq> MN_UNSET"
    if "noerrs g1 < 2" for k arg s1 g1
    using mathevall_ok [OF P, of k arg ne] that unfolding eval_ok_def by blast
  have "\<exists>v g'. matheval P mlevel ne mt s g = Some (v, g') \<and> v \<noteq> MN_UNSET"
    using ev [of "if mlevel = 0 then g\<lparr>outputradix := 0, outputunderscore := 0\<rparr> else g"
        "MAX_MLEVEL - mlevel" False "if pk s = Nularg then tl s else s"] n
    unfolding matheval_def Let_def by fastforce
  moreover have "\<exists>z r g'. mathevalarg P mlevel ne mt s g = Some (z, r, g')"
    using ev [OF n, of "MAX_MLEVEL - mlevel" True "if pk s = Nularg then tl s else s"]
    unfolding mathevalarg_def Let_def by fastforce
  ultimately show ?thesis ..
qed

theorem matheval_returns_witness:
  "(\<exists>v g'. matheval demo_shell 0 0 0 ''x = 7, x++ * max(2, x)'' demo_glob = Some (v, g') \<and> v \<noteq> MN_UNSET) \<and>
    (\<exists>z r g'. mathevalarg demo_shell 0 0 0 ''x = 7, x++ * max(2, x)'' demo_glob = Some (z, r, g'))"
  by (rule matheval_returns [OF demo_steady]) (simp add: demo_glob_def)

text \<open>C33: One expression, one value: from a well-formed state where an operand is expected,
  \<open>mathparse\<close> leaves \<open>noeval\<close> as it was and every entry of the value stack below the new one,
  and unless an error was reported it has pushed exactly one value and read the operator after it, or
  found no expression at all.\<close>

theorem mathparse_pushes_one:
  assumes P: "steady_shell P" and pr: "pr = c_prec \<or> pr = z_prec" and m: "mwf st"
    and pc: "2 \<le> pc" "pc \<le> top_prec pr" and u: "unary st"
  shows "\<exists>st'. mathparse P pr (callmathfunc P (mathevall P k True 0)) (math_fuel (ptr st)) pc st = Some st' \<and>
    noeval st' = noeval st \<and> mwf st' \<and>
    (err st' \<or>
     sp st' = sp st + 1 \<and> opr (mtok st') \<and> (\<forall>i. int i \<le> sp st \<longrightarrow> stk st' ! i = stk st ! i) \<or>
     pc = top_prec pr \<and> mtok st' = T_EOI \<and> sp st' = sp st \<and> stk st' = stk st)"
proof -
  let ?cf = "callmathfunc P (mathevall P k True 0)"
  have pr: "prec_ok pr" using pr prec_ok_tables by blast
  have "parse_ok P pr ?cf (math_fuel (ptr st))"
    using parser_total [OF P pr callmathfunc_ok [OF P mathevall_ok [OF P]]] by blast
  then obtain st' where "mathparse P pr ?cf (math_fuel (ptr st)) pc st = Some st'" "parse_post pr pc st st'"
    using parse_okD [of P pr ?cf "math_fuel (ptr st)" st pc] m pc u by (auto simp: pc_ok_def math_fuel_def)
  then show ?thesis
    using u by (auto simp: parse_post_def mframe_def pushed_def new_top_def same_below_def)
qed

theorem mathparse_pushes_one_witness:
  "\<exists>st'. mathparse demo_shell z_prec (callmathfunc demo_shell (mathevall demo_shell 3 True 0))
      (math_fuel (ptr (demo_start ''1 ? 2 : 3''))) 17 (demo_start ''1 ? 2 : 3'') = Some st' \<and>
    noeval st' = noeval (demo_start ''1 ? 2 : 3'') \<and> mwf st' \<and>
    (err st' \<or>
     sp st' = sp (demo_start ''1 ? 2 : 3'') + 1 \<and> opr (mtok st') \<and>
       (\<forall>i. int i \<le> sp (demo_start ''1 ? 2 : 3'') \<longrightarrow> stk st' ! i = stk (demo_start ''1 ? 2 : 3'') ! i) \<or>
     17 = top_prec z_prec \<and> mtok st' = T_EOI \<and> sp st' = sp (demo_start ''1 ? 2 : 3'') \<and>
       stk st' = stk (demo_start ''1 ? 2 : 3''))"
proof (rule mathparse_pushes_one [OF demo_steady])
  show "mwf (demo_start ''1 ? 2 : 3'')"
    unfolding demo_start_def by (rule start_state_mwf) (simp add: demo_glob_def)
qed (simp_all add: top_prec_def z_prec_def demo_start_def start_state_def)

text \<open>C11: An operand that is not wanted is skipped, not evaluated: with \<open>noeval\<close> positive (the
  right side of \<open>0 && ..\<close> or \<open>1 || ..\<close>, the branch of \<open>?:\<close> not taken) and the values on
  the stack read, \<open>mathparse\<close> consumes the operand and returns with the rest of the shell as it
  was: no assignment, increment, parameter read or function call of the operand has happened, also
  where the text is in error, and \<open>noeval\<close> is what it was.\<close>

theorem skipped_operand:
  assumes P: "steady_shell P" and pr: "pr = c_prec \<or> pr = z_prec" and m: "mwf st"
    and pc: "2 \<le> pc" "pc \<le> top_prec pr" and u: "unary st" and ne: "0 < noeval st"
    and r: "\<forall>i mv. i < 100 \<longrightarrow> stk st ! i = Some mv \<longrightarrow> sval mv \<noteq> MN_UNSET"
  shows "\<exists>st'. mathparse P pr (callmathfunc P (mathevall P k True 0)) (math_fuel (ptr st)) pc st = Some st' \<and>
    env (gl st') = env (gl st) \<and> noeval st' = noeval st"
proof -
  let ?cf = "callmathfunc P (mathevall P k True 0)"
  have pk: "prec_ok pr" using pr prec_ok_tables by blast
  have "parse_ok P pr ?cf (math_fuel (ptr st))"
    using parser_total [OF P pk callmathfunc_ok [OF P mathevall_ok [OF P]]] by blast
  then obtain st' where s: "mathparse P pr ?cf (math_fuel (ptr st)) pc st = Some st'"
    using parse_okD [of P pr ?cf "math_fuel (ptr st)" st pc] m pc u by (auto simp: pc_ok_def math_fuel_def)
  have "quiet_state (env (gl st)) st" using m ne r by (simp add: quiet_state_def mwf_def)
  then have "quiet_step (env (gl st)) st st'"
    using parser_quiet [OF P] s unfolding quiet_parse_def by blast
  then show ?thesis using s by (simp add: quiet_step_def quiet_state_def)
qed

theorem skipped_operand_witness:
  "\<exists>st'. mathparse demo_shell z_prec (callmathfunc demo_shell (mathevall demo_shell 3 True 0))
      (math_fuel (ptr (demo_skip ''x = 3 + y++''))) 14
      (demo_skip ''x = 3 + y++'') = Some st' \<and>
    env (gl st') = env (gl (demo_skip ''x = 3 + y++'' )) \<and>
    noeval st' = noeval (demo_skip ''x = 3 + y++'' )"
proof (rule skipped_operand [OF demo_steady])
  show "mwf (demo_skip ''x = 3 + y++'')"
    unfolding demo_skip_def by (rule start_state_mwf) (simp add: demo_glob_def)
  show "\<forall>i mv. i < 100 \<longrightarrow>
      stk (demo_skip ''x = 3 + y++'' ) ! i = Some mv \<longrightarrow>
      sval mv \<noteq> MN_UNSET"
    by (auto simp: demo_skip_def start_state_def nstack_def nth_Cons' zero_mnumber_def split: if_splits)
qed (simp_all add: top_prec_def z_prec_def demo_skip_def start_state_def)

section \<open>Numbers\<close>

text \<open>C34: Reading a number undoes writing it: the digits of \<open>v\<close> in any base from 2 to 36, with
  an optional minus sign and whatever follows, give \<open>v\<close> or \<open>- v\<close>, leave the pointer behind the
  last digit and report nothing, for every value of 64 bits in two's complement; a value beyond
  that but below 2 to the 64 is reported as truncated at its last digit and read without it.\<close>

theorem zstrtol_reads_digits:
  assumes b: "2 \<le> b" "b \<le> 36" and ds: "ds \<noteq> []" "\<forall>d \<in> set ds. d < b" and r: "number_ends b r"
    and v: "digits_val b ds < 2 ^ 64"
  shows "zstrtol_underscore ((if neg then ''-'' else '''') @ map digit_char ds @ r) (int b) und g =
    (let v = digits_val b ds
     in if v < 2 ^ 63 \<or> neg \<and> v = 2 ^ 63
        then (if neg then - of_nat v else of_nat v, r, g)
        else (if neg then - of_nat (v div b) else of_nat (v div b), r,
              zwarn (Number_truncated (length ds - 1) (map digit_char ds @ r)) g))"
proof -
  let ?v = "digits_val b ds"
  have "(of_nat ?v :: zlong) div of_nat b = of_nat (?v div b)"
    using v b by (simp add: word_arith_nat_div unat_of_nat)
  then show ?thesis
    using zstrtol_number [OF b ds r v, of neg und g] word_sign [OF v] low_bits [OF v]
    by (auto simp: Let_def not_less)
qed

theorem zstrtol_reads_digits_witness:
  "zstrtol_underscore ((if True then ''-'' else '''') @ map digit_char [7, 15, 0] @ '' + 1'') (int 16) False demo_glob =
    (let v = digits_val 16 [7, 15, 0]
     in if v < 2 ^ 63 \<or> True \<and> v = 2 ^ 63
        then (if True then - of_nat v else of_nat v, '' + 1'', demo_glob)
        else (if True then - of_nat (v div 16) else of_nat (v div 16), '' + 1'',
              zwarn (Number_truncated (length [7, 15, 0 :: nat] - 1) (map digit_char [7, 15, 0] @ '' + 1'')) demo_glob))"
  by (rule zstrtol_reads_digits)
    (simp_all add: number_ends_def digit_low_def digit_high_def idigit_def between_def digits_val_def)

section \<open>Places where the code does not do what it means to\<close>

definition demo_eval :: "string \<Rightarrow> (rat mnumber \<times> (rat, demo_env) mglob) option" where
  "demo_eval s = matheval demo_shell 0 0 0 s demo_glob"

text \<open>\<open>bop\<close> keeps the truth of the left operand as an \<open>int\<close>: 2 to the 32 counts as
  false there, and the right operand is skipped and read as 0.\<close>

lemma bop_truncates:
  "map_option fst (demo_eval ''4294967296 && (1+1)'') = Some (MN_INTEGER 0)"
  by code_simp

text \<open>The type of \<open>^^=\<close> is that of an integer-only assignment of two operands without the
  flag that makes it one, so it assigns nothing; \<open>&&=\<close> and \<open>||=\<close> do.\<close>

lemma xor_assigns_nothing:
  "map_option (\<lambda>(v, g). (v, env g ''x'')) (demo_eval ''x ^^= 1'') = Some (MN_INTEGER 1, None)"
  "map_option (\<lambda>(v, g). (v, env g ''x'')) (demo_eval ''x ||= 1'')
     = Some (MN_INTEGER 1, Some (MN_INTEGER 1))"
  by code_simp+

text \<open>With \<open>noerrs\<close> 2 an error is not recorded in \<open>errflag\<close>, and an operator without its
  left operand makes \<open>bop\<close> read below the stack.\<close>

lemma bop_below_stack:
  "matheval demo_shell 0 0 0 ''&&'' (demo_glob\<lparr>noerrs := 2\<rparr>) = None"
  by code_simp

text \<open>The overflow test of \<open>zstrtol\<close> compares with the previous value only, so a number that
  does not fit can wrap around with no warning.\<close>

lemma zstrtol_wraps:
  "map_option (\<lambda>(v, g). (v, msgs g)) (demo_eval ''0x1234567890abcdef0'')
     = Some (MN_INTEGER 0x234567890abcdef0, [])"
  by code_simp

end
