(* ===== verification/Opt_Table.thy ===== *)
theory Opt_Table
  imports Hash_Tables
begin

text \<open>
  The shell's options: the numbers of \<open>Src/bsh.h\<close>, the table of names \<open>optns\<close> and the two
  tables of letters of \<open>Src/options.c\<close>, and the hash table \<open>optiontab\<close> made from them.
\<close>

section \<open>Emulations and flags\<close>

abbreviation (input) "EMULATE_CSH \<equiv> 2 :: 32 word"
abbreviation (input) "EMULATE_KSH \<equiv> 4 :: 32 word"
abbreviation (input) "EMULATE_SH \<equiv> 8 :: 32 word"
abbreviation (input) "EMULATE_BSH \<equiv> 16 :: 32 word"
abbreviation (input) "EMULATE_FULLY \<equiv> 32 :: 32 word"
abbreviation (input) "OPT_CSH \<equiv> 2 :: 32 word"
abbreviation (input) "OPT_KSH \<equiv> 4 :: 32 word"
abbreviation (input) "OPT_SH \<equiv> 8 :: 32 word"
abbreviation (input) "OPT_BSH \<equiv> 16 :: 32 word"
abbreviation (input) "OPT_ALL \<equiv> 30 :: 32 word"
abbreviation (input) "OPT_BOURNE \<equiv> 12 :: 32 word"
abbreviation (input) "OPT_BSHELL \<equiv> 28 :: 32 word"
abbreviation (input) "OPT_NONBOURNE \<equiv> 18 :: 32 word"
abbreviation (input) "OPT_NONBSH \<equiv> 14 :: 32 word"
abbreviation (input) "OPT_EMULATE \<equiv> 64 :: 32 word"
abbreviation (input) "OPT_SPECIAL \<equiv> 128 :: 32 word"
abbreviation (input) "OPT_ALIAS \<equiv> 256 :: 32 word"

section \<open>Option numbers\<close>

abbreviation (input) "ALIASESOPT \<equiv> 1 :: int"
abbreviation (input) "ALIASFUNCDEF \<equiv> 2 :: int"
abbreviation (input) "ALLEXPORT \<equiv> 3 :: int"
abbreviation (input) "ALWAYSLASTPROMPT \<equiv> 4 :: int"
abbreviation (input) "ALWAYSTOEND \<equiv> 5 :: int"
abbreviation (input) "APPENDHISTORY \<equiv> 6 :: int"
abbreviation (input) "AUTOCD \<equiv> 7 :: int"
abbreviation (input) "AUTOCONTINUE \<equiv> 8 :: int"
abbreviation (input) "AUTOLIST \<equiv> 9 :: int"
abbreviation (input) "AUTOMENU \<equiv> 10 :: int"
abbreviation (input) "AUTONAMEDIRS \<equiv> 11 :: int"
abbreviation (input) "AUTOPARAMKEYS \<equiv> 12 :: int"
abbreviation (input) "AUTOPARAMSLASH \<equiv> 13 :: int"
abbreviation (input) "AUTOPUSHD \<equiv> 14 :: int"
abbreviation (input) "AUTOREMOVESLASH \<equiv> 15 :: int"
abbreviation (input) "AUTORESUME \<equiv> 16 :: int"
abbreviation (input) "BADPATTERN \<equiv> 17 :: int"
abbreviation (input) "BANGHIST \<equiv> 18 :: int"
abbreviation (input) "BAREGLOBQUAL \<equiv> 19 :: int"
abbreviation (input) "BASHAUTOLIST \<equiv> 20 :: int"
abbreviation (input) "BASHREMATCH \<equiv> 21 :: int"
abbreviation (input) "BEEP \<equiv> 22 :: int"
abbreviation (input) "BGNICE \<equiv> 23 :: int"
abbreviation (input) "BRACECCL \<equiv> 24 :: int"
abbreviation (input) "BSDECHO \<equiv> 25 :: int"
abbreviation (input) "CASEGLOB \<equiv> 26 :: int"
abbreviation (input) "CASEMATCH \<equiv> 27 :: int"
abbreviation (input) "CASEPATHS \<equiv> 28 :: int"
abbreviation (input) "CBASES \<equiv> 29 :: int"
abbreviation (input) "CDABLEVARS \<equiv> 30 :: int"
abbreviation (input) "CDSILENT \<equiv> 31 :: int"
abbreviation (input) "CHASEDOTS \<equiv> 32 :: int"
abbreviation (input) "CHASELINKS \<equiv> 33 :: int"
abbreviation (input) "CHECKJOBS \<equiv> 34 :: int"
abbreviation (input) "CHECKRUNNINGJOBS \<equiv> 35 :: int"
abbreviation (input) "CLOBBER \<equiv> 36 :: int"
abbreviation (input) "CLOBBEREMPTY \<equiv> 37 :: int"
abbreviation (input) "APPENDCREATE \<equiv> 38 :: int"
abbreviation (input) "COMBININGCHARS \<equiv> 39 :: int"
abbreviation (input) "COMPLETEALIASES \<equiv> 40 :: int"
abbreviation (input) "COMPLETEINWORD \<equiv> 41 :: int"
abbreviation (input) "CORRECT \<equiv> 42 :: int"
abbreviation (input) "CORRECTALL \<equiv> 43 :: int"
abbreviation (input) "CONTINUEONERROR \<equiv> 44 :: int"
abbreviation (input) "CPRECEDENCES \<equiv> 45 :: int"
abbreviation (input) "CSHJUNKIEHISTORY \<equiv> 46 :: int"
abbreviation (input) "CSHJUNKIELOOPS \<equiv> 47 :: int"
abbreviation (input) "CSHJUNKIEQUOTES \<equiv> 48 :: int"
abbreviation (input) "CSHNULLCMD \<equiv> 49 :: int"
abbreviation (input) "CSHNULLGLOB \<equiv> 50 :: int"
abbreviation (input) "DEBUGBEFORECMD \<equiv> 51 :: int"
abbreviation (input) "EMACSMODE \<equiv> 52 :: int"
abbreviation (input) "EQUALS \<equiv> 53 :: int"
abbreviation (input) "ERREXIT \<equiv> 54 :: int"
abbreviation (input) "ERRRETURN \<equiv> 55 :: int"
abbreviation (input) "EXECOPT \<equiv> 56 :: int"
abbreviation (input) "EXTENDEDGLOB \<equiv> 57 :: int"
abbreviation (input) "EXTENDEDHISTORY \<equiv> 58 :: int"
abbreviation (input) "EVALLINENO \<equiv> 59 :: int"
abbreviation (input) "FLOWCONTROL \<equiv> 60 :: int"
abbreviation (input) "FORCEFLOAT \<equiv> 61 :: int"
abbreviation (input) "FUNCTIONARGZERO \<equiv> 62 :: int"
abbreviation (input) "GLOBOPT \<equiv> 63 :: int"
abbreviation (input) "GLOBALEXPORT \<equiv> 64 :: int"
abbreviation (input) "GLOBALRCS \<equiv> 65 :: int"
abbreviation (input) "GLOBASSIGN \<equiv> 66 :: int"
abbreviation (input) "GLOBCOMPLETE \<equiv> 67 :: int"
abbreviation (input) "GLOBDOTS \<equiv> 68 :: int"
abbreviation (input) "GLOBSTARSHORT \<equiv> 69 :: int"
abbreviation (input) "GLOBSUBST \<equiv> 70 :: int"
abbreviation (input) "HASHCMDS \<equiv> 71 :: int"
abbreviation (input) "HASHDIRS \<equiv> 72 :: int"
abbreviation (input) "HASHEXECUTABLESONLY \<equiv> 73 :: int"
abbreviation (input) "HASHLISTALL \<equiv> 74 :: int"
abbreviation (input) "HISTALLOWCLOBBER \<equiv> 75 :: int"
abbreviation (input) "HISTBEEP \<equiv> 76 :: int"
abbreviation (input) "HISTEXPIREDUPSFIRST \<equiv> 77 :: int"
abbreviation (input) "HISTFCNTLLOCK \<equiv> 78 :: int"
abbreviation (input) "HISTFINDNODUPS \<equiv> 79 :: int"
abbreviation (input) "HISTIGNOREALLDUPS \<equiv> 80 :: int"
abbreviation (input) "HISTIGNOREDUPS \<equiv> 81 :: int"
abbreviation (input) "HISTIGNORESPACE \<equiv> 82 :: int"
abbreviation (input) "HISTLEXWORDS \<equiv> 83 :: int"
abbreviation (input) "HISTNOFUNCTIONS \<equiv> 84 :: int"
abbreviation (input) "HISTNOSTORE \<equiv> 85 :: int"
abbreviation (input) "HISTREDUCEBLANKS \<equiv> 86 :: int"
abbreviation (input) "HISTSAVEBYCOPY \<equiv> 87 :: int"
abbreviation (input) "HISTSAVENODUPS \<equiv> 88 :: int"
abbreviation (input) "HISTSUBSTPATTERN \<equiv> 89 :: int"
abbreviation (input) "HISTVERIFY \<equiv> 90 :: int"
abbreviation (input) "HUP \<equiv> 91 :: int"
abbreviation (input) "IGNOREBRACES \<equiv> 92 :: int"
abbreviation (input) "IGNORECLOSEBRACES \<equiv> 93 :: int"
abbreviation (input) "IGNOREEOF \<equiv> 94 :: int"
abbreviation (input) "INCAPPENDHISTORY \<equiv> 95 :: int"
abbreviation (input) "INCAPPENDHISTORYTIME \<equiv> 96 :: int"
abbreviation (input) "INTERACTIVE \<equiv> 97 :: int"
abbreviation (input) "INTERACTIVECOMMENTS \<equiv> 98 :: int"
abbreviation (input) "KSHARRAYS \<equiv> 99 :: int"
abbreviation (input) "KSHAUTOLOAD \<equiv> 100 :: int"
abbreviation (input) "KSHGLOB \<equiv> 101 :: int"
abbreviation (input) "KSHOPTIONPRINT \<equiv> 102 :: int"
abbreviation (input) "KSHTYPESET \<equiv> 103 :: int"
abbreviation (input) "KSHZEROSUBSCRIPT \<equiv> 104 :: int"
abbreviation (input) "LISTAMBIGUOUS \<equiv> 105 :: int"
abbreviation (input) "LISTBEEP \<equiv> 106 :: int"
abbreviation (input) "LISTPACKED \<equiv> 107 :: int"
abbreviation (input) "LISTROWSFIRST \<equiv> 108 :: int"
abbreviation (input) "LISTTYPES \<equiv> 109 :: int"
abbreviation (input) "LOCALLOOPS \<equiv> 110 :: int"
abbreviation (input) "LOCALOPTIONS \<equiv> 111 :: int"
abbreviation (input) "LOCALPATTERNS \<equiv> 112 :: int"
abbreviation (input) "LOCALTRAPS \<equiv> 113 :: int"
abbreviation (input) "LOGINSHELL \<equiv> 114 :: int"
abbreviation (input) "LONGLISTJOBS \<equiv> 115 :: int"
abbreviation (input) "MAGICEQUALSUBST \<equiv> 116 :: int"
abbreviation (input) "MAILWARNING \<equiv> 117 :: int"
abbreviation (input) "MARKDIRS \<equiv> 118 :: int"
abbreviation (input) "MENUCOMPLETE \<equiv> 119 :: int"
abbreviation (input) "MONITOR \<equiv> 120 :: int"
abbreviation (input) "MULTIBYTE \<equiv> 121 :: int"
abbreviation (input) "MULTIFUNCDEF \<equiv> 122 :: int"
abbreviation (input) "MULTIOS \<equiv> 123 :: int"
abbreviation (input) "NOMATCH \<equiv> 124 :: int"
abbreviation (input) "NOTIFY \<equiv> 125 :: int"
abbreviation (input) "NULLGLOB \<equiv> 126 :: int"
abbreviation (input) "NUMERICGLOBSORT \<equiv> 127 :: int"
abbreviation (input) "OCTALZEROES \<equiv> 128 :: int"
abbreviation (input) "OVERSTRIKE \<equiv> 129 :: int"
abbreviation (input) "PATHDIRS \<equiv> 130 :: int"
abbreviation (input) "PATHSCRIPT \<equiv> 131 :: int"
abbreviation (input) "PIPEFAIL \<equiv> 132 :: int"
abbreviation (input) "POSIXALIASES \<equiv> 133 :: int"
abbreviation (input) "POSIXARGZERO \<equiv> 134 :: int"
abbreviation (input) "POSIXBUILTINS \<equiv> 135 :: int"
abbreviation (input) "POSIXCD \<equiv> 136 :: int"
abbreviation (input) "POSIXIDENTIFIERS \<equiv> 137 :: int"
abbreviation (input) "POSIXJOBS \<equiv> 138 :: int"
abbreviation (input) "POSIXSTRINGS \<equiv> 139 :: int"
abbreviation (input) "POSIXTRAPS \<equiv> 140 :: int"
abbreviation (input) "PRINTEIGHTBIT \<equiv> 141 :: int"
abbreviation (input) "PRINTEXITVALUE \<equiv> 142 :: int"
abbreviation (input) "PRIVILEGED \<equiv> 143 :: int"
abbreviation (input) "PROMPTBANG \<equiv> 144 :: int"
abbreviation (input) "PROMPTCR \<equiv> 145 :: int"
abbreviation (input) "PROMPTPERCENT \<equiv> 146 :: int"
abbreviation (input) "PROMPTSP \<equiv> 147 :: int"
abbreviation (input) "PROMPTSUBST \<equiv> 148 :: int"
abbreviation (input) "PUSHDIGNOREDUPS \<equiv> 149 :: int"
abbreviation (input) "PUSHDMINUS \<equiv> 150 :: int"
abbreviation (input) "PUSHDSILENT \<equiv> 151 :: int"
abbreviation (input) "PUSHDTOHOME \<equiv> 152 :: int"
abbreviation (input) "RCEXPANDPARAM \<equiv> 153 :: int"
abbreviation (input) "RCQUOTES \<equiv> 154 :: int"
abbreviation (input) "RCS \<equiv> 155 :: int"
abbreviation (input) "RECEXACT \<equiv> 156 :: int"
abbreviation (input) "REMATCHPCRE \<equiv> 157 :: int"
abbreviation (input) "RESTRICTED \<equiv> 158 :: int"
abbreviation (input) "RMSTARSILENT \<equiv> 159 :: int"
abbreviation (input) "RMSTARWAIT \<equiv> 160 :: int"
abbreviation (input) "SHAREHISTORY \<equiv> 161 :: int"
abbreviation (input) "SHFILEEXPANSION \<equiv> 162 :: int"
abbreviation (input) "SHGLOB \<equiv> 163 :: int"
abbreviation (input) "SHINSTDIN \<equiv> 164 :: int"
abbreviation (input) "SHNULLCMD \<equiv> 165 :: int"
abbreviation (input) "SHOPTIONLETTERS \<equiv> 166 :: int"
abbreviation (input) "SHORTLOOPS \<equiv> 167 :: int"
abbreviation (input) "SHORTREPEAT \<equiv> 168 :: int"
abbreviation (input) "SHWORDSPLIT \<equiv> 169 :: int"
abbreviation (input) "SINGLECOMMAND \<equiv> 170 :: int"
abbreviation (input) "SINGLELINEZLE \<equiv> 171 :: int"
abbreviation (input) "SOURCETRACE \<equiv> 172 :: int"
abbreviation (input) "SUNKEYBOARDHACK \<equiv> 173 :: int"
abbreviation (input) "TRANSIENTRPROMPT \<equiv> 174 :: int"
abbreviation (input) "TRAPSASYNC \<equiv> 175 :: int"
abbreviation (input) "TYPESETSILENT \<equiv> 176 :: int"
abbreviation (input) "TYPESETTOUNSET \<equiv> 177 :: int"
abbreviation (input) "UNSET \<equiv> 178 :: int"
abbreviation (input) "VERBOSE \<equiv> 179 :: int"
abbreviation (input) "VIMODE \<equiv> 180 :: int"
abbreviation (input) "WARNCREATEGLOBAL \<equiv> 181 :: int"
abbreviation (input) "WARNNESTEDVAR \<equiv> 182 :: int"
abbreviation (input) "XTRACE \<equiv> 183 :: int"
abbreviation (input) "USEZLE \<equiv> 184 :: int"
abbreviation (input) "DVORAK \<equiv> 185 :: int"
abbreviation (input) "OPT_SIZE \<equiv> 186 :: int"

section \<open>The table of names\<close>

text \<open>Name, flags and number; a negative number reverses the sense of the option it names.\<close>

definition optns :: "(string \<times> 32 word \<times> int) list" where
  "optns =
    [(''aliases'', OPT_EMULATE OR OPT_ALL, ALIASESOPT),
     (''aliasfuncdef'', OPT_EMULATE OR OPT_BOURNE, ALIASFUNCDEF),
     (''allexport'', OPT_EMULATE, ALLEXPORT),
     (''alwayslastprompt'', OPT_ALL, ALWAYSLASTPROMPT),
     (''alwaystoend'', 0, ALWAYSTOEND),
     (''appendcreate'', OPT_EMULATE OR OPT_BOURNE, APPENDCREATE),
     (''appendhistory'', OPT_ALL, APPENDHISTORY),
     (''autocd'', OPT_EMULATE, AUTOCD),
     (''autocontinue'', 0, AUTOCONTINUE),
     (''autolist'', OPT_ALL, AUTOLIST),
     (''automenu'', OPT_ALL, AUTOMENU),
     (''autonamedirs'', 0, AUTONAMEDIRS),
     (''autoparamkeys'', OPT_ALL, AUTOPARAMKEYS),
     (''autoparamslash'', OPT_ALL, AUTOPARAMSLASH),
     (''autopushd'', 0, AUTOPUSHD),
     (''autoremoveslash'', OPT_ALL, AUTOREMOVESLASH),
     (''autoresume'', 0, AUTORESUME),
     (''badpattern'', OPT_EMULATE OR OPT_NONBOURNE, BADPATTERN),
     (''banghist'', OPT_NONBOURNE, BANGHIST),
     (''bareglobqual'', OPT_EMULATE OR OPT_BSH, BAREGLOBQUAL),
     (''bashautolist'', 0, BASHAUTOLIST),
     (''bashrematch'', 0, BASHREMATCH),
     (''beep'', OPT_ALL, BEEP),
     (''bgnice'', OPT_EMULATE OR OPT_NONBOURNE, BGNICE),
     (''braceccl'', OPT_EMULATE, BRACECCL),
     (''bsdecho'', OPT_EMULATE OR OPT_SH, BSDECHO),
     (''caseglob'', OPT_ALL, CASEGLOB),
     (''casematch'', OPT_ALL, CASEMATCH),
     (''casepaths'', 0, CASEPATHS),
     (''cbases'', 0, CBASES),
     (''cprecedences'', OPT_EMULATE OR OPT_NONBSH, CPRECEDENCES),
     (''cdablevars'', OPT_EMULATE, CDABLEVARS),
     (''cdsilent'', 0, CDSILENT),
     (''chasedots'', OPT_EMULATE, CHASEDOTS),
     (''chaselinks'', OPT_EMULATE, CHASELINKS),
     (''checkjobs'', OPT_EMULATE OR OPT_BSH, CHECKJOBS),
     (''checkrunningjobs'', OPT_EMULATE OR OPT_BSH, CHECKRUNNINGJOBS),
     (''clobber'', OPT_EMULATE OR OPT_ALL, CLOBBER),
     (''clobberempty'', 0, CLOBBEREMPTY),
     (''combiningchars'', 0, COMBININGCHARS),
     (''completealiases'', 0, COMPLETEALIASES),
     (''completeinword'', 0, COMPLETEINWORD),
     (''continueonerror'', 0, CONTINUEONERROR),
     (''correct'', 0, CORRECT),
     (''correctall'', 0, CORRECTALL),
     (''cshjunkiehistory'', OPT_EMULATE OR OPT_CSH, CSHJUNKIEHISTORY),
     (''cshjunkieloops'', OPT_EMULATE OR OPT_CSH, CSHJUNKIELOOPS),
     (''cshjunkiequotes'', OPT_EMULATE OR OPT_CSH, CSHJUNKIEQUOTES),
     (''cshnullcmd'', OPT_EMULATE OR OPT_CSH, CSHNULLCMD),
     (''cshnullglob'', OPT_EMULATE OR OPT_CSH, CSHNULLGLOB),
     (''debugbeforecmd'', OPT_ALL, DEBUGBEFORECMD),
     (''emacs'', 0, EMACSMODE),
     (''equals'', OPT_EMULATE OR OPT_BSH, EQUALS),
     (''errexit'', OPT_EMULATE, ERREXIT),
     (''errreturn'', OPT_EMULATE, ERRRETURN),
     (''exec'', OPT_ALL, EXECOPT),
     (''extendedglob'', OPT_EMULATE, EXTENDEDGLOB),
     (''extendedhistory'', OPT_CSH, EXTENDEDHISTORY),
     (''evallineno'', OPT_EMULATE OR OPT_BSH, EVALLINENO),
     (''flowcontrol'', OPT_ALL, FLOWCONTROL),
     (''forcefloat'', 0, FORCEFLOAT),
     (''functionargzero'', OPT_EMULATE OR OPT_NONBOURNE, FUNCTIONARGZERO),
     (''glob'', OPT_EMULATE OR OPT_ALL, GLOBOPT),
     (''globalexport'', OPT_EMULATE OR OPT_BSH, GLOBALEXPORT),
     (''globalrcs'', OPT_ALL, GLOBALRCS),
     (''globassign'', OPT_EMULATE OR OPT_CSH, GLOBASSIGN),
     (''globcomplete'', 0, GLOBCOMPLETE),
     (''globdots'', OPT_EMULATE, GLOBDOTS),
     (''globstarshort'', OPT_EMULATE, GLOBSTARSHORT),
     (''globsubst'', OPT_EMULATE OR OPT_NONBSH, GLOBSUBST),
     (''hashcmds'', OPT_ALL, HASHCMDS),
     (''hashdirs'', OPT_ALL, HASHDIRS),
     (''hashexecutablesonly'', 0, HASHEXECUTABLESONLY),
     (''hashlistall'', OPT_ALL, HASHLISTALL),
     (''histallowclobber'', 0, HISTALLOWCLOBBER),
     (''histbeep'', OPT_ALL, HISTBEEP),
     (''histexpiredupsfirst'', 0, HISTEXPIREDUPSFIRST),
     (''histfcntllock'', 0, HISTFCNTLLOCK),
     (''histfindnodups'', 0, HISTFINDNODUPS),
     (''histignorealldups'', 0, HISTIGNOREALLDUPS),
     (''histignoredups'', 0, HISTIGNOREDUPS),
     (''histignorespace'', 0, HISTIGNORESPACE),
     (''histlexwords'', 0, HISTLEXWORDS),
     (''histnofunctions'', 0, HISTNOFUNCTIONS),
     (''histnostore'', 0, HISTNOSTORE),
     (''histsubstpattern'', OPT_EMULATE, HISTSUBSTPATTERN),
     (''histreduceblanks'', 0, HISTREDUCEBLANKS),
     (''histsavebycopy'', OPT_ALL, HISTSAVEBYCOPY),
     (''histsavenodups'', 0, HISTSAVENODUPS),
     (''histverify'', 0, HISTVERIFY),
     (''hup'', OPT_EMULATE OR OPT_BSH, HUP),
     (''ignorebraces'', OPT_EMULATE OR OPT_SH, IGNOREBRACES),
     (''ignoreclosebraces'', OPT_EMULATE, IGNORECLOSEBRACES),
     (''ignoreeof'', 0, IGNOREEOF),
     (''incappendhistory'', 0, INCAPPENDHISTORY),
     (''incappendhistorytime'', 0, INCAPPENDHISTORYTIME),
     (''interactive'', OPT_SPECIAL, INTERACTIVE),
     (''interactivecomments'', OPT_BOURNE, INTERACTIVECOMMENTS),
     (''ksharrays'', OPT_EMULATE OR OPT_BOURNE, KSHARRAYS),
     (''kshautoload'', OPT_EMULATE OR OPT_BOURNE, KSHAUTOLOAD),
     (''kshglob'', OPT_EMULATE OR OPT_KSH, KSHGLOB),
     (''kshoptionprint'', OPT_EMULATE OR OPT_KSH, KSHOPTIONPRINT),
     (''kshtypeset'', 0, KSHTYPESET),
     (''kshzerosubscript'', 0, KSHZEROSUBSCRIPT),
     (''listambiguous'', OPT_ALL, LISTAMBIGUOUS),
     (''listbeep'', OPT_ALL, LISTBEEP),
     (''listpacked'', 0, LISTPACKED),
     (''listrowsfirst'', 0, LISTROWSFIRST),
     (''listtypes'', OPT_ALL, LISTTYPES),
     (''localoptions'', OPT_EMULATE OR OPT_KSH, LOCALOPTIONS),
     (''localloops'', OPT_EMULATE, LOCALLOOPS),
     (''localpatterns'', OPT_EMULATE, LOCALPATTERNS),
     (''localtraps'', OPT_EMULATE OR OPT_KSH, LOCALTRAPS),
     (''login'', OPT_SPECIAL, LOGINSHELL),
     (''longlistjobs'', 0, LONGLISTJOBS),
     (''magicequalsubst'', OPT_EMULATE, MAGICEQUALSUBST),
     (''mailwarning'', 0, MAILWARNING),
     (''markdirs'', 0, MARKDIRS),
     (''menucomplete'', 0, MENUCOMPLETE),
     (''monitor'', OPT_SPECIAL, MONITOR),
     (''multibyte'', OPT_ALL, MULTIBYTE),
     (''multifuncdef'', OPT_EMULATE OR OPT_BSH, MULTIFUNCDEF),
     (''multios'', OPT_EMULATE OR OPT_BSH, MULTIOS),
     (''nomatch'', OPT_EMULATE OR OPT_NONBOURNE, NOMATCH),
     (''notify'', OPT_BSH, NOTIFY),
     (''nullglob'', OPT_EMULATE, NULLGLOB),
     (''numericglobsort'', OPT_EMULATE, NUMERICGLOBSORT),
     (''octalzeroes'', OPT_EMULATE OR OPT_SH, OCTALZEROES),
     (''overstrike'', 0, OVERSTRIKE),
     (''pathdirs'', OPT_EMULATE, PATHDIRS),
     (''pathscript'', OPT_EMULATE OR OPT_BOURNE, PATHSCRIPT),
     (''pipefail'', OPT_EMULATE, PIPEFAIL),
     (''posixaliases'', OPT_EMULATE OR OPT_BOURNE, POSIXALIASES),
     (''posixargzero'', OPT_EMULATE, POSIXARGZERO),
     (''posixbuiltins'', OPT_EMULATE OR OPT_BOURNE, POSIXBUILTINS),
     (''posixcd'', OPT_EMULATE OR OPT_BOURNE, POSIXCD),
     (''posixidentifiers'', OPT_EMULATE OR OPT_BOURNE, POSIXIDENTIFIERS),
     (''posixjobs'', OPT_EMULATE OR OPT_BOURNE, POSIXJOBS),
     (''posixstrings'', OPT_EMULATE OR OPT_BOURNE, POSIXSTRINGS),
     (''posixtraps'', OPT_EMULATE OR OPT_BOURNE, POSIXTRAPS),
     (''printeightbit'', 0, PRINTEIGHTBIT),
     (''printexitvalue'', 0, PRINTEXITVALUE),
     (''privileged'', OPT_SPECIAL, PRIVILEGED),
     (''promptbang'', OPT_KSH, PROMPTBANG),
     (''promptcr'', OPT_ALL, PROMPTCR),
     (''promptpercent'', OPT_NONBOURNE, PROMPTPERCENT),
     (''promptsp'', OPT_ALL, PROMPTSP),
     (''promptsubst'', OPT_BOURNE, PROMPTSUBST),
     (''pushdignoredups'', OPT_EMULATE, PUSHDIGNOREDUPS),
     (''pushdminus'', OPT_EMULATE, PUSHDMINUS),
     (''pushdsilent'', 0, PUSHDSILENT),
     (''pushdtohome'', OPT_EMULATE, PUSHDTOHOME),
     (''rcexpandparam'', OPT_EMULATE, RCEXPANDPARAM),
     (''rcquotes'', OPT_EMULATE, RCQUOTES),
     (''rcs'', OPT_ALL, RCS),
     (''recexact'', 0, RECEXACT),
     (''rematchpcre'', 0, REMATCHPCRE),
     (''rmstarsilent'', OPT_BOURNE, RMSTARSILENT),
     (''rmstarwait'', 0, RMSTARWAIT),
     (''sharehistory'', OPT_KSH, SHAREHISTORY),
     (''shfileexpansion'', OPT_EMULATE OR OPT_BOURNE, SHFILEEXPANSION),
     (''shglob'', OPT_EMULATE OR OPT_BOURNE, SHGLOB),
     (''shinstdin'', OPT_SPECIAL, SHINSTDIN),
     (''shnullcmd'', OPT_EMULATE OR OPT_BOURNE, SHNULLCMD),
     (''shoptionletters'', OPT_EMULATE OR OPT_BOURNE, SHOPTIONLETTERS),
     (''shortloops'', OPT_EMULATE OR OPT_NONBOURNE, SHORTLOOPS),
     (''shortrepeat'', OPT_EMULATE, SHORTREPEAT),
     (''shwordsplit'', OPT_EMULATE OR OPT_BOURNE, SHWORDSPLIT),
     (''singlecommand'', OPT_SPECIAL, SINGLECOMMAND),
     (''singlelinezle'', OPT_KSH, SINGLELINEZLE),
     (''sourcetrace'', 0, SOURCETRACE),
     (''sunkeyboardhack'', 0, SUNKEYBOARDHACK),
     (''transientrprompt'', 0, TRANSIENTRPROMPT),
     (''trapsasync'', 0, TRAPSASYNC),
     (''typesetsilent'', OPT_EMULATE OR OPT_BOURNE, TYPESETSILENT),
     (''typesettounset'', OPT_EMULATE OR OPT_BOURNE, TYPESETTOUNSET),
     (''unset'', OPT_EMULATE OR OPT_BSHELL, UNSET),
     (''verbose'', 0, VERBOSE),
     (''vi'', 0, VIMODE),
     (''warncreateglobal'', OPT_EMULATE, WARNCREATEGLOBAL),
     (''warnnestedvar'', OPT_EMULATE, WARNNESTEDVAR),
     (''xtrace'', 0, XTRACE),
     (''zle'', OPT_SPECIAL, USEZLE),
     (''braceexpand'', OPT_ALIAS, - IGNOREBRACES),
     (''dotglob'', OPT_ALIAS, GLOBDOTS),
     (''hashall'', OPT_ALIAS, HASHCMDS),
     (''histappend'', OPT_ALIAS, APPENDHISTORY),
     (''histexpand'', OPT_ALIAS, BANGHIST),
     (''log'', OPT_ALIAS, - HISTNOFUNCTIONS),
     (''mailwarn'', OPT_ALIAS, MAILWARNING),
     (''onecmd'', OPT_ALIAS, SINGLECOMMAND),
     (''physical'', OPT_ALIAS, CHASELINKS),
     (''promptvars'', OPT_ALIAS, PROMPTSUBST),
     (''stdin'', OPT_ALIAS, SHINSTDIN),
     (''trackall'', OPT_ALIAS, HASHCMDS),
     (''dvorak'', 0, DVORAK)]"

section \<open>Option letters\<close>

definition bshletters :: "int list" where
  "bshletters =
    [CORRECT, PRINTEXITVALUE, - BADPATTERN, - NOMATCH, GLOBDOTS, NOTIFY,
     BGNICE, IGNOREEOF, MARKDIRS, AUTOLIST, 0, 0,
     0, 0, 0, 0, 0, 0,
     - BEEP, - CLOBBER, PUSHDTOHOME, PUSHDSILENT, - GLOBOPT, NULLGLOB,
     RMSTARSILENT, IGNOREBRACES, AUTOCD, - BANGHIST, SUNKEYBOARDHACK, SINGLELINEZLE,
     AUTOPUSHD, CORRECTALL, RCEXPANDPARAM, PATHDIRS, LONGLISTJOBS, RECEXACT,
     CDABLEVARS, MAILWARNING, - PROMPTCR, AUTORESUME, LISTTYPES, MENUCOMPLETE,
     USEZLE, 0, 0, 0, 0, 0,
     0, ALLEXPORT, 0, 0, - GLOBALRCS, ERREXIT,
     - RCS, HISTIGNORESPACE, HISTIGNOREDUPS, INTERACTIVE, 0, INTERACTIVECOMMENTS,
     LOGINSHELL, MONITOR, - EXECOPT, 0, PRIVILEGED, 0,
     0, SHINSTDIN, SINGLECOMMAND, - UNSET, VERBOSE, CHASELINKS,
     XTRACE, SHWORDSPLIT]"

definition kshletters :: "int list" where
  "kshletters =
    [0, 0, 0, 0, 0, 0,
     0, 0, 0, 0, 0, 0,
     0, 0, 0, 0, 0, 0,
     0, - CLOBBER, 0, 0, 0, 0,
     0, 0, 0, 0, 0, 0,
     0, 0, 0, 0, 0, 0,
     TRAPSASYNC, 0, 0, 0, MARKDIRS, 0,
     0, 0, 0, 0, 0, 0,
     0, ALLEXPORT, NOTIFY, 0, 0, ERREXIT,
     - GLOBOPT, 0, 0, INTERACTIVE, 0, 0,
     LOGINSHELL, MONITOR, - EXECOPT, 0, PRIVILEGED, 0,
     0, SHINSTDIN, SINGLECOMMAND, - UNSET, VERBOSE, 0,
     XTRACE, 0]"

section \<open>The hash table\<close>

text \<open>The static array \<open>optns\<close>: its elements are the cells from 1 on; the body of a node is its number.\<close>

definition opt_mem :: "addr \<rightharpoonup> int hnode" where
  "opt_mem a = (if 0 < a \<and> a \<le> length optns
     then (case optns ! (a - 1) of (s, f, k) \<Rightarrow> Some \<lparr>hnext = 0, nam = s, flags = f, body = k\<rparr>)
     else None)"

definition createoptiontable :: "int htab option" where
  "createoptiontable = add_words (map fst optns) 1 ((newhashtable 101 hasher strcmp)\<lparr>mem := opt_mem\<rparr>)"

section \<open>What is in it\<close>

lemma distinct_groups:
  assumes "\<And>k. k \<in> set ks \<Longrightarrow> distinct (filter (\<lambda>x. f x = k) xs)" "\<And>x. x \<in> set xs \<Longrightarrow> f x \<in> set ks"
  shows "distinct xs"
proof (rule ccontr)
  assume "\<not> distinct xs"
  then obtain as bs cs x where x: "xs = as @ [x] @ bs @ [x] @ cs" using not_distinct_decomp by blast
  then have "\<not> distinct (filter (\<lambda>y. f y = f x) xs)" by simp
  moreover have "f x \<in> set ks" using assms(2) [of x] x by simp
  ultimately show False using assms(1) by blast
qed

definition opt_names :: "string list" where
  "opt_names = map fst optns"

lemma opt_names_eval [code]: "opt_names =
    [''aliases'', ''aliasfuncdef'', ''allexport'', ''alwayslastprompt'', ''alwaystoend'',
     ''appendcreate'', ''appendhistory'', ''autocd'', ''autocontinue'', ''autolist'',
     ''automenu'', ''autonamedirs'', ''autoparamkeys'', ''autoparamslash'', ''autopushd'',
     ''autoremoveslash'', ''autoresume'', ''badpattern'', ''banghist'', ''bareglobqual'',
     ''bashautolist'', ''bashrematch'', ''beep'', ''bgnice'', ''braceccl'',
     ''bsdecho'', ''caseglob'', ''casematch'', ''casepaths'', ''cbases'',
     ''cprecedences'', ''cdablevars'', ''cdsilent'', ''chasedots'', ''chaselinks'',
     ''checkjobs'', ''checkrunningjobs'', ''clobber'', ''clobberempty'', ''combiningchars'',
     ''completealiases'', ''completeinword'', ''continueonerror'', ''correct'', ''correctall'',
     ''cshjunkiehistory'', ''cshjunkieloops'', ''cshjunkiequotes'', ''cshnullcmd'', ''cshnullglob'',
     ''debugbeforecmd'', ''emacs'', ''equals'', ''errexit'', ''errreturn'',
     ''exec'', ''extendedglob'', ''extendedhistory'', ''evallineno'', ''flowcontrol'',
     ''forcefloat'', ''functionargzero'', ''glob'', ''globalexport'', ''globalrcs'',
     ''globassign'', ''globcomplete'', ''globdots'', ''globstarshort'', ''globsubst'',
     ''hashcmds'', ''hashdirs'', ''hashexecutablesonly'', ''hashlistall'', ''histallowclobber'',
     ''histbeep'', ''histexpiredupsfirst'', ''histfcntllock'', ''histfindnodups'', ''histignorealldups'',
     ''histignoredups'', ''histignorespace'', ''histlexwords'', ''histnofunctions'', ''histnostore'',
     ''histsubstpattern'', ''histreduceblanks'', ''histsavebycopy'', ''histsavenodups'', ''histverify'',
     ''hup'', ''ignorebraces'', ''ignoreclosebraces'', ''ignoreeof'', ''incappendhistory'',
     ''incappendhistorytime'', ''interactive'', ''interactivecomments'', ''ksharrays'', ''kshautoload'',
     ''kshglob'', ''kshoptionprint'', ''kshtypeset'', ''kshzerosubscript'', ''listambiguous'',
     ''listbeep'', ''listpacked'', ''listrowsfirst'', ''listtypes'', ''localoptions'',
     ''localloops'', ''localpatterns'', ''localtraps'', ''login'', ''longlistjobs'',
     ''magicequalsubst'', ''mailwarning'', ''markdirs'', ''menucomplete'', ''monitor'',
     ''multibyte'', ''multifuncdef'', ''multios'', ''nomatch'', ''notify'',
     ''nullglob'', ''numericglobsort'', ''octalzeroes'', ''overstrike'', ''pathdirs'',
     ''pathscript'', ''pipefail'', ''posixaliases'', ''posixargzero'', ''posixbuiltins'',
     ''posixcd'', ''posixidentifiers'', ''posixjobs'', ''posixstrings'', ''posixtraps'',
     ''printeightbit'', ''printexitvalue'', ''privileged'', ''promptbang'', ''promptcr'',
     ''promptpercent'', ''promptsp'', ''promptsubst'', ''pushdignoredups'', ''pushdminus'',
     ''pushdsilent'', ''pushdtohome'', ''rcexpandparam'', ''rcquotes'', ''rcs'',
     ''recexact'', ''rematchpcre'', ''rmstarsilent'', ''rmstarwait'', ''sharehistory'',
     ''shfileexpansion'', ''shglob'', ''shinstdin'', ''shnullcmd'', ''shoptionletters'',
     ''shortloops'', ''shortrepeat'', ''shwordsplit'', ''singlecommand'', ''singlelinezle'',
     ''sourcetrace'', ''sunkeyboardhack'', ''transientrprompt'', ''trapsasync'', ''typesetsilent'',
     ''typesettounset'', ''unset'', ''verbose'', ''vi'', ''warncreateglobal'',
     ''warnnestedvar'', ''xtrace'', ''zle'', ''braceexpand'', ''dotglob'',
     ''hashall'', ''histappend'', ''histexpand'', ''log'', ''mailwarn'',
     ''onecmd'', ''physical'', ''promptvars'', ''stdin'', ''trackall'',
     ''dvorak'']"
  unfolding opt_names_def optns_def by (simp only: list.map fst_conv)

lemma opt_names_a_c: "\<forall>k \<in> set ''abc''. distinct (filter (\<lambda>s. hd s = k) opt_names)"
  by code_simp

lemma opt_names_d_h: "\<forall>k \<in> set ''defgh''. distinct (filter (\<lambda>s. hd s = k) opt_names)"
  by code_simp

lemma opt_names_i_o: "\<forall>k \<in> set ''ijklmno''. distinct (filter (\<lambda>s. hd s = k) opt_names)"
  by code_simp

lemma opt_names_p_z: "\<forall>k \<in> set ''pqrstuvwxyz''. distinct (filter (\<lambda>s. hd s = k) opt_names)"
  by code_simp

lemma opt_names_groups: "\<forall>k \<in> set ''abcdefghijklmnopqrstuvwxyz''. distinct (filter (\<lambda>s. hd s = k) opt_names)"
proof -
  have letters: "''abcdefghijklmnopqrstuvwxyz'' = ''abc'' @ ''defgh'' @ ''ijklmno'' @ ''pqrstuvwxyz''" by simp
  show ?thesis
    unfolding letters set_append using opt_names_a_c opt_names_d_h opt_names_i_o opt_names_p_z by blast
qed

lemma opt_names_hd: "\<forall>s \<in> set opt_names. hd s \<in> set ''abcdefghijklmnopqrstuvwxyz''"
  by code_simp

lemma opt_names_NUL: "\<forall>s \<in> set opt_names. NUL \<notin> set s"
  by code_simp

lemma length_optns: "length optns = 196"
  by code_simp

lemma distinct_opt_names: "distinct opt_names"
proof (rule distinct_groups)
  show "distinct (filter (\<lambda>s. hd s = k) opt_names)" if "k \<in> set ''abcdefghijklmnopqrstuvwxyz''" for k
    using opt_names_groups that by (rule bspec)
  show "hd s \<in> set ''abcdefghijklmnopqrstuvwxyz''" if "s \<in> set opt_names" for s
    using opt_names_hd that by (rule bspec)
qed

end
