(* ===== verification/Options.thy ===== *)
theory Options
  imports Opt_Table
begin

text \<open>
  The shell's options, \<open>Src/options.c\<close>: looking names and letters up, setting an option with
  what that means for the process and the terminal, dropping privileges, emulations and
  the builtin \<open>setopt\<close>.
\<close>

section \<open>State\<close>

text \<open>
  \<open>char opts[OPT_SIZE]\<close> is a function on the indices; \<open>aget\<close> and \<open>aset\<close> are \<open>None\<close> outside the
  array.  An element is 0 or 1, or 2 while the shell starts.
\<close>

type_synonym optarr = "int \<Rightarrow> int"

definition aget :: "optarr \<Rightarrow> int \<Rightarrow> int option" where
  "aget a i = (if 0 \<le> i \<and> i < OPT_SIZE then Some (a i) else None)"

definition aset :: "optarr \<Rightarrow> int \<Rightarrow> int \<Rightarrow> optarr option" where
  "aset a i v = (if 0 \<le> i \<and> i < OPT_SIZE then Some (a(i := v)) else None)"

text \<open>The messages of \<open>zwarnnam\<close> and \<open>zwarn\<close>, by their format.\<close>

datatype optwarn =
    No_such_option string | Cant_change_option string | Bad_option_letter char
  | Cant_change_letter char | String_expected | Bad_pattern string | Invalid_value "string option"
  | No_setresgid | No_setresuid | No_change_gid | No_user_info int | No_groups | Groups_kept int
  | No_change_uid | Egid_restored | Euid_restored

text \<open>
  \<open>new_opts\<close> is the array other than \<open>opts\<close> that some callers work on.  \<open>sticky\<close> is the field
  \<open>emulation\<close> of the structure \<open>sticky\<close> points to; \<open>funcstack\<close> the name of the innermost entry
  if it is a function; \<open>shf_flags\<close> what the function table knows of a function.  \<open>typtab_opts\<close>
  are the options \<open>inittyptab\<close> last built the character table from.  \<open>'w\<close> is the process as
  the system sees it.
\<close>

record 'w optst =
  opts :: optarr
  new_opts :: optarr
  emulation :: "32 word"
  sticky :: "32 word option"
  funcstack :: "string option"
  shf_flags :: "string \<rightharpoonup> 32 word"
  SHTTY :: int
  shout :: bool
  origpgrp :: int
  keyboardhackchar :: char
  zle_load_state :: int
  typtab_opts :: optarr
  out :: string
  warns :: "optwarn list"
  world :: 'w

text \<open>
  What the options rest on: how the shell was configured, the system calls about users and
  groups (\<open>True\<close> for success), \<open>acquire_pgrp\<close> of \<open>Src/jobs.c\<close> (\<open>False\<close> when it switches the
  option \<open>monitor\<close> off), the line editor's change of keymap, the pattern compiler.
\<close>

record 'w optsys =
  have_setresgid :: bool
  have_setresuid :: bool
  use_initgroups :: bool
  getuid :: "'w \<Rightarrow> int"
  geteuid :: "'w \<Rightarrow> int"
  getgid :: "'w \<Rightarrow> int"
  getegid :: "'w \<Rightarrow> int"
  setresgid :: "int \<Rightarrow> int \<Rightarrow> int \<Rightarrow> 'w \<Rightarrow> bool \<times> 'w"
  setresuid :: "int \<Rightarrow> int \<Rightarrow> int \<Rightarrow> 'w \<Rightarrow> bool \<times> 'w"
  setgid :: "int \<Rightarrow> 'w \<Rightarrow> bool \<times> 'w"
  setegid :: "int \<Rightarrow> 'w \<Rightarrow> bool \<times> 'w"
  setuid :: "int \<Rightarrow> 'w \<Rightarrow> bool \<times> 'w"
  seteuid :: "int \<Rightarrow> 'w \<Rightarrow> bool \<times> 'w"
  getpwuid :: "int \<Rightarrow> 'w \<Rightarrow> string option"
  initgroups :: "string \<Rightarrow> int \<Rightarrow> 'w \<Rightarrow> bool \<times> 'w"
  getpgrp :: "'w \<Rightarrow> int"
  acquire_pgrp :: "'w \<Rightarrow> bool \<times> 'w"
  zle_set_keymap :: "int \<Rightarrow> 'w \<Rightarrow> 'w"
  patprog :: "string \<Rightarrow> (string \<Rightarrow> bool) option"
  sorter :: "(addr \<Rightarrow> addr \<Rightarrow> int) \<Rightarrow> addr list \<Rightarrow> addr list"

definition isset :: "'w optst \<Rightarrow> int \<Rightarrow> bool" where
  "isset st k \<longleftrightarrow> opts st k \<noteq> 0"

definition interact :: "'w optst \<Rightarrow> bool" where
  "interact st = isset st INTERACTIVE"

datatype optptr = Opts | New_opts

definition arr :: "optptr \<Rightarrow> 'w optst \<Rightarrow> optarr" where
  "arr p st = (case p of Opts \<Rightarrow> opts st | New_opts \<Rightarrow> new_opts st)"

definition set_arr :: "optptr \<Rightarrow> int \<Rightarrow> int \<Rightarrow> 'w optst \<Rightarrow> 'w optst option" where
  "set_arr p i v st = do { a \<leftarrow> aset (arr p st) i v;
     Some (case p of Opts \<Rightarrow> st\<lparr>opts := a\<rparr> | New_opts \<Rightarrow> st\<lparr>new_opts := a\<rparr>) }"

definition zwarn_opt :: "optwarn \<Rightarrow> 'w optst \<Rightarrow> 'w optst" where
  "zwarn_opt m st = st\<lparr>warns := warns st @ [m]\<rparr>"

definition put_out :: "string \<Rightarrow> 'w optst \<Rightarrow> 'w optst" where
  "put_out s st = st\<lparr>out := out st @ s\<rparr>"

definition inittyptab :: "'w optst \<Rightarrow> 'w optst" where
  "inittyptab st = st\<lparr>typtab_opts := opts st\<rparr>"

section \<open>Lookup\<close>

text \<open>Underscores go, capital letters become small.\<close>

fun opt_norm :: "string \<Rightarrow> string" where
  "opt_norm [] = []"
| "opt_norm (c # t) =
     (if c = NUL then []
      else if c = CHR ''_'' then opt_norm t
      else (if 65 \<le> (of_char c :: nat) \<and> (of_char c :: nat) \<le> 90 then char_of (of_char c + 32 :: nat) else c)
           # opt_norm t)"

definition optlookup :: "int htab \<Rightarrow> string \<Rightarrow> int option" where
  "optlookup ht name =
     (let s = opt_norm name
      in do { n \<leftarrow> (if take 2 s = ''no'' then gethashnode ht (drop 2 s) else Some 0);
              if n \<noteq> 0 then do { nd \<leftarrow> node ht n; Some (- body nd) }
              else do { n \<leftarrow> gethashnode ht s;
                        if n \<noteq> 0 then do { nd \<leftarrow> node ht n; Some (body nd) } else Some 0 } })"

definition FIRST_OPT :: int where "FIRST_OPT = 48"
definition LAST_OPT :: int where "LAST_OPT = 121"

definition optletters :: "'w optst \<Rightarrow> int list" where
  "optletters st = (if isset st SHOPTIONLETTERS then kshletters else bshletters)"

definition optlookupc :: "'w optst \<Rightarrow> char \<Rightarrow> int" where
  "optlookupc st c =
     (if schar c < FIRST_OPT \<or> LAST_OPT < schar c then 0 else optletters st ! nat (schar c - FIRST_OPT))"

section \<open>Dropping privileges\<close>

text \<open>\<open>f(id) != -1 || g(id) != -1\<close>\<close>

definition regain :: "(int \<Rightarrow> 'w \<Rightarrow> bool \<times> 'w) \<Rightarrow> (int \<Rightarrow> 'w \<Rightarrow> bool \<times> 'w) \<Rightarrow> int \<Rightarrow> 'w \<Rightarrow> bool \<times> 'w" where
  "regain f g i w = (case f i w of (True, w) \<Rightarrow> (True, w) | (False, w) \<Rightarrow> g i w)"

text \<open>The supplementary groups: \<open>None\<close> for the return on failure, else the variable \<open>failed\<close>.\<close>

definition drop_groups :: "'w optsys \<Rightarrow> int \<Rightarrow> 'w optst \<Rightarrow> bool option \<times> 'w optst" where
  "drop_groups S orig_egid st =
     (let w = world st
      in if \<not> use_initgroups S then (Some False, st)
         else if geteuid S w = 0
         then (case getpwuid S (getuid S w) w of
                 None \<Rightarrow> (Some True, zwarn_opt (No_user_info (getuid S w)) st)
               | Some pw_name \<Rightarrow>
                   (case initgroups S pw_name (getgid S w) w of (r, w) \<Rightarrow>
                      if r then (Some False, st\<lparr>world := w\<rparr>)
                      else (None, zwarn_opt No_groups (st\<lparr>world := w\<rparr>))))
         else if getuid S w \<noteq> 0 \<and> (geteuid S w \<noteq> getuid S w \<or> orig_egid \<noteq> getegid S w)
         then (Some True, zwarn_opt (Groups_kept (geteuid S w)) st)
         else (Some False, st))"

text \<open>The attempts to get the old ids back; \<open>True\<close> when neither succeeds.\<close>

definition cannot_regain :: "'w optsys \<Rightarrow> int \<Rightarrow> int \<Rightarrow> 'w optst \<Rightarrow> bool \<times> 'w optst" where
  "cannot_regain S orig_euid orig_egid st =
     (let w = world st;
          (g, w1) = (if getuid S w \<noteq> 0 \<and> orig_egid \<noteq> getegid S w
                     then regain (setgid S) (setegid S) orig_egid w else (False, w))
      in if g then (False, zwarn_opt Egid_restored (st\<lparr>world := w1\<rparr>))
         else let (u, w2) = (if getuid S w1 \<noteq> 0 \<and> orig_euid \<noteq> geteuid S w1
                             then regain (setuid S) (seteuid S) orig_euid w1 else (False, w1))
              in if u then (False, zwarn_opt Euid_restored (st\<lparr>world := w2\<rparr>))
                 else (True, st\<lparr>world := w2\<rparr>))"

text \<open>The branch of \<open>dosetopt\<close> that unsets \<open>PRIVILEGED\<close>; \<open>False\<close> is its \<open>return -1\<close>.\<close>

definition drop_privileges :: "'w optsys \<Rightarrow> 'w optst \<Rightarrow> bool \<times> 'w optst" where
  "drop_privileges S st =
     (if \<not> have_setresgid S then (False, zwarn_opt No_setresgid st)
      else if \<not> have_setresuid S then (False, zwarn_opt No_setresuid st)
      else
        let w = world st; orig_euid = geteuid S w; orig_egid = getegid S w;
            (r, w) = setresgid S (getgid S w) (getgid S w) (getgid S w) w; st = st\<lparr>world := w\<rparr>
        in if \<not> r then (False, zwarn_opt No_change_gid st)
           else (case drop_groups S orig_egid st of
               (None, st) \<Rightarrow> (False, st)
             | (Some failed, st) \<Rightarrow>
                 let w = world st; (r, w) = setresuid S (getuid S w) (getuid S w) (getuid S w) w;
                     st = st\<lparr>world := w\<rparr>
                 in if \<not> r then (False, zwarn_opt No_change_uid st)
                    else (case cannot_regain S orig_euid orig_egid st of (ok, st) \<Rightarrow> (ok \<and> \<not> failed, st))))"

section \<open>Setting an option\<close>

text \<open>\<open>new_opts[optno] = value\<close> and what follows it.\<close>

definition store_opt :: "optptr \<Rightarrow> int \<Rightarrow> bool \<Rightarrow> 'w optst \<Rightarrow> (int \<times> 'w optst) option" where
  "store_opt p k v st =
     do { st \<leftarrow> set_arr p k (of_bool v) st;
          Some (0, if k = MULTIBYTE \<or> k = BANGHIST \<or> k = SHINSTDIN then inittyptab st else st) }"

definition take_pgrp :: "'w optsys \<Rightarrow> 'w optst \<Rightarrow> 'w optst" where
  "take_pgrp S st =
     (if origpgrp st = 0
      then let (r, w) = acquire_pgrp S (world st); st = st\<lparr>origpgrp := getpgrp S (world st), world := w\<rparr>
           in if r then st else st\<lparr>opts := (opts st)(MONITOR := 0)\<rparr>
      else st)"

text \<open>\<open>dosetopt\<close> once the sign of the number has been folded into the value.\<close>

definition set_option ::
    "'w optsys \<Rightarrow> int \<Rightarrow> bool \<Rightarrow> bool \<Rightarrow> optptr \<Rightarrow> 'w optst \<Rightarrow> (int \<times> 'w optst) option" where
  "set_option S k v force p st =
     (if \<not> force \<and> k = EXECOPT \<and> \<not> v \<and> interact st then Some (-1, st)
      else if \<not> force \<and> (k = INTERACTIVE \<or> k = SHINSTDIN \<or> k = SINGLECOMMAND)
      then Some (if arr p st k = of_bool v then 0 else -1, st)
      else if \<not> force \<and> k = USEZLE \<and> v
      then (if \<not> interact st \<or> SHTTY st = -1 \<or> \<not> shout st then Some (-1, st) else store_opt p k v st)
      else if k = PRIVILEGED \<and> \<not> v
      then (case drop_privileges S st of (ok, st) \<Rightarrow> if ok then store_opt p k v st else Some (-1, st))
      else if \<not> force \<and> k = MONITOR \<and> v
      then (if arr p st k = of_bool v then Some (0, st)
            else if SHTTY st = -1 then Some (-1, st)
            else store_opt p k v (take_pgrp S st))
      else if (k = EMACSMODE \<or> k = VIMODE) \<and> v
      then (if sticky st \<noteq> None \<and> sticky st \<noteq> Some 0 then Some (if isset st k then 0 else -1, st)
            else let st = (if zle_load_state st = 1 then st\<lparr>world := zle_set_keymap S k (world st)\<rparr> else st)
                 in do { st \<leftarrow> set_arr p (xor (xor k EMACSMODE) VIMODE) 0 st; store_opt p k v st })
      else if k = SUNKEYBOARDHACK
      then store_opt p k v (st\<lparr>keyboardhackchar := (if v then CHR 0x60 else NUL)\<rparr>)
      else store_opt p k v st)"

definition dosetopt ::
    "'w optsys \<Rightarrow> int \<Rightarrow> bool \<Rightarrow> bool \<Rightarrow> optptr \<Rightarrow> 'w optst \<Rightarrow> (int \<times> 'w optst) option" where
  "dosetopt S optno value force p st =
     (if optno = 0 then Some (-1, st)
      else if optno < 0 then set_option S (- optno) (\<not> value) force p st
      else set_option S optno value force p st)"

section \<open>Emulation\<close>

text \<open>\<open>defset\<close>: the option is on by default in the emulation.\<close>

definition defset :: "int hnode \<Rightarrow> 32 word \<Rightarrow> bool" where
  "defset on emu \<longleftrightarrow> flags on AND emu \<noteq> 0"

text \<open>The options an emulation sets; \<open>fully\<close> is \<open>emulate -R\<close>.\<close>

definition emulated :: "bool \<Rightarrow> 32 word \<Rightarrow> bool" where
  "emulated fully fl \<longleftrightarrow>
     fl AND OPT_ALIAS = 0 \<and> (fully \<and> fl AND OPT_SPECIAL = 0 \<or> fl AND OPT_EMULATE \<noteq> 0)"

text \<open>
  The functions called on the nodes of the option table.  \<open>emu\<close> and \<open>p\<close> are the static
  variables \<open>setemulate_emulation\<close> and \<open>setemulate_opts\<close>.
\<close>

type_synonym 'w optfunc = "int hnode \<Rightarrow> 'w optst \<Rightarrow> 'w optst option"

definition on_node :: "'w optfunc \<Rightarrow> ('w optst, int) scanfunc" where
  "on_node f a s = do { n \<leftarrow> node (snd s) a; st \<leftarrow> f n (fst s); Some (st, snd s) }"

definition scan_options ::
    "'w optsys \<Rightarrow> (string \<Rightarrow> bool) option \<Rightarrow> bool \<Rightarrow> 32 word \<Rightarrow> 32 word \<Rightarrow> 'w optfunc \<Rightarrow> int htab \<Rightarrow> 'w optst \<Rightarrow>
     'w optst option" where
  "scan_options S pprog srt flags1 flags2 f ht st =
     do { (_, st, _) \<leftarrow> scanmatchtable (sorter S) None pprog srt flags1 flags2 (on_node f) (st, ht); Some st }"

definition setemulate :: "32 word \<Rightarrow> optptr \<Rightarrow> bool \<Rightarrow> 'w optfunc" where
  "setemulate emu p fully on st =
     (if emulated fully (flags on) then set_arr p (body on) (of_bool (defset on emu)) st else Some st)"

definition installemulation ::
    "'w optsys \<Rightarrow> 32 word \<Rightarrow> optptr \<Rightarrow> int htab \<Rightarrow> 'w optst \<Rightarrow> 'w optst option" where
  "installemulation S emu p ht st =
     scan_options S None False 0 0 (setemulate emu p (emu AND EMULATE_FULLY \<noteq> 0)) ht st"

definition nth_chr :: "string \<Rightarrow> nat \<Rightarrow> char" where
  "nth_chr s i = (if i < length s then s ! i else NUL)"

text \<open>The emulation a name stands for: the first letter, the second after an \<open>r\<close>.\<close>

definition emulation_of :: "string \<Rightarrow> 32 word" where
  "emulation_of s =
     (let r = (nth_chr s 0 = CHR ''r''); ch = (if r then nth_chr s 1 else nth_chr s 0)
      in if ch = CHR ''c'' then EMULATE_CSH
         else if ch = CHR ''k'' then EMULATE_KSH
         else if ch = CHR ''s'' \<or> ch = CHR ''b'' \<and> nth_chr s (if r then 2 else 1) = CHR ''a'' then EMULATE_SH
         else EMULATE_BSH)"

definition PM_TAGGED :: "32 word" where "PM_TAGGED = 2048"
definition PM_TAGGED_LOCAL :: "32 word" where "PM_TAGGED_LOCAL = 65536"

definition trace_function :: "'w optst \<Rightarrow> bool" where
  "trace_function st \<longleftrightarrow> (case funcstack st of None \<Rightarrow> False
     | Some f \<Rightarrow> (case shf_flags st f of None \<Rightarrow> False | Some fl \<Rightarrow> fl AND (PM_TAGGED OR PM_TAGGED_LOCAL) \<noteq> 0))"

text \<open>The value stored through \<open>new_emulation\<close> is the first result.\<close>

definition emulate ::
    "'w optsys \<Rightarrow> int htab \<Rightarrow> string \<Rightarrow> bool \<Rightarrow> optptr \<Rightarrow> 'w optst \<Rightarrow> (32 word \<times> 'w optst) option" where
  "emulate S ht bsh_name fully p st =
     (let emu = emulation_of bsh_name OR (if fully then EMULATE_FULLY else 0)
      in do { st \<leftarrow> installemulation S emu p ht st;
              st \<leftarrow> (if trace_function st then set_arr p XTRACE 1 st else Some st);
              Some (emu, st) })"

section \<open>Printing\<close>

definition newline :: string where "newline = [CHR 0x0A]"

definition on_off :: "bool \<Rightarrow> string" where
  "on_off b = (if b then ''on'' else ''off'')"

text \<open>\<open>%-19s\<close>\<close>

definition pad :: "nat \<Rightarrow> string \<Rightarrow> string" where
  "pad n s = s @ replicate (n - length s) (CHR '' '')"

text \<open>The table of \<open>set -o\<close>: the state of each option next to the name of its unusual setting.\<close>

definition ksh_line :: "string \<Rightarrow> bool \<Rightarrow> bool \<Rightarrow> string" where
  "ksh_line nm def on =
     (if def then ''no'' @ pad 19 nm @ '' '' @ on_off (\<not> on) @ newline
      else pad 21 nm @ '' '' @ on_off on @ newline)"

definition printoptionnode :: "bool \<Rightarrow> 'w optfunc" where
  "printoptionnode val on st =
     (let optno = \<bar>body on\<bar>
      in do { v \<leftarrow> aget (opts st) optno;
              Some (if isset st KSHOPTIONPRINT
                    then put_out (ksh_line (nam on) (defset on (emulation st)) (v \<noteq> 0)) st
                    else if of_bool val = xor v (of_bool (defset on (emulation st)))
                    then put_out ((if xor (of_bool val) v \<noteq> 0 then ''no'' else []) @ nam on @ newline) st
                    else st) })"

definition set_line :: "string \<Rightarrow> bool \<Rightarrow> bool \<Rightarrow> string" where
  "set_line nm def on =
     ''set '' @ [if def \<noteq> on then CHR ''-'' else CHR ''+''] @ ''o '' @ (if def then ''no'' else []) @ nm @ newline"

definition printoptionnodestate :: "bool \<Rightarrow> 'w optfunc" where
  "printoptionnodestate hadplus on st =
     do { v \<leftarrow> aget (opts st) (body on);
          Some (put_out ((if hadplus then set_line else ksh_line) (nam on) (defset on (emulation st)) (v \<noteq> 0)) st) }"

definition printoptionstates :: "'w optsys \<Rightarrow> bool \<Rightarrow> int htab \<Rightarrow> 'w optst \<Rightarrow> 'w optst option" where
  "printoptionstates S hadplus ht st = scan_options S None True 0 OPT_ALIAS (printoptionnodestate hadplus) ht st"

text \<open>The value of \<open>$-\<close>.\<close>

definition dashgetfn :: "'w optst \<Rightarrow> string option" where
  "dashgetfn st =
     those (concat (map (\<lambda>i. let optno = optletters st ! i
        in if optno = 0 then []
           else (case aget (opts st) \<bar>optno\<bar> of None \<Rightarrow> [None]
                 | Some v \<Rightarrow> if (0 < optno) = (v \<noteq> 0) then [Some (char_of (48 + i))] else []))
      [0..<74]))"

text \<open>For \<open>--help\<close>; \<open>optns[optno-1]\<close> is an element of the static array.\<close>

definition printoptionlist_printequiv :: "int \<Rightarrow> 'w optst \<Rightarrow> 'w optst option" where
  "printoptionlist_printequiv optno st =
     (let i = nat (\<bar>optno\<bar> - 1)
      in if optno = 0 \<or> length optns \<le> i then None
         else Some (put_out (''  equivalent to --'' @ (if optno < 0 then ''no-'' else []) @ fst (optns ! i) @ newline) st))"

definition printoptionlist_printoption :: "'w optfunc" where
  "printoptionlist_printoption on st =
     (if flags on AND OPT_ALIAS \<noteq> 0
      then printoptionlist_printequiv (body on) (put_out (''  --'' @ pad 19 (nam on) @ ''  '') st)
      else Some (put_out (''  --'' @ nam on @ newline) st))"

fun print_letters :: "nat list \<Rightarrow> 'w optst \<Rightarrow> 'w optst option" where
  "print_letters [] st = Some st"
| "print_letters (i # is) st =
     (let optno = optletters st ! i
      in if optno = 0 then print_letters is st
         else do { st \<leftarrow> printoptionlist_printequiv optno (put_out (''  -'' @ [char_of (48 + i)] @ ''  '') st);
                   print_letters is st })"

definition printoptionlist :: "'w optsys \<Rightarrow> int htab \<Rightarrow> 'w optst \<Rightarrow> 'w optst option" where
  "printoptionlist S ht st =
     do { st \<leftarrow> scan_options S None True 0 OPT_ALIAS printoptionlist_printoption ht
                  (put_out (newline @ ''Named options:'' @ newline) st);
          st \<leftarrow> scan_options S None True OPT_ALIAS 0 printoptionlist_printoption ht
                  (put_out (newline @ ''Option aliases:'' @ newline) st);
          print_letters [0..<74] (put_out (newline @ ''Option letters:'' @ newline) st) }"

definition print_emulate_option :: "optptr \<Rightarrow> bool \<Rightarrow> 'w optfunc" where
  "print_emulate_option p fully on st =
     (if emulated fully (flags on)
      then do { v \<leftarrow> aget (arr p st) (body on);
                Some (put_out ((if v = 0 then ''no'' else []) @ nam on @ newline) st) }
      else Some st)"

definition list_emulate_options :: "'w optsys \<Rightarrow> optptr \<Rightarrow> bool \<Rightarrow> int htab \<Rightarrow> 'w optst \<Rightarrow> 'w optst option" where
  "list_emulate_options S p fully ht st = scan_options S None True 0 0 (print_emulate_option p fully) ht st"

section \<open>The builtins \<open>setopt\<close> and \<open>unsetopt\<close>\<close>

definition setoption :: "'w optsys \<Rightarrow> bool \<Rightarrow> 'w optfunc" where
  "setoption S value on st = do { (_, st) \<leftarrow> dosetopt S (body on) value False Opts st; Some st }"

text \<open>One option given by name, then the return value.\<close>

definition named_option ::
    "'w optsys \<Rightarrow> int htab \<Rightarrow> bool \<Rightarrow> string \<Rightarrow> int \<times> 'w optst \<Rightarrow> (int \<times> 'w optst) option" where
  "named_option S ht value arg s =
     (case s of (retval, st) \<Rightarrow>
        do { optno \<leftarrow> optlookup ht arg;
             if optno = 0 then Some (1, zwarn_opt (No_such_option arg) st)
             else do { (r, st) \<leftarrow> dosetopt S optno value False Opts st;
                       Some (if r \<noteq> 0 then (1, zwarn_opt (Cant_change_option arg) st) else (retval, st)) } })"

definition letter_option :: "'w optsys \<Rightarrow> bool \<Rightarrow> char \<Rightarrow> int \<times> 'w optst \<Rightarrow> (int \<times> 'w optst) option" where
  "letter_option S value c s =
     (case s of (retval, st) \<Rightarrow>
        let optno = optlookupc st c
        in if optno = 0 then Some (1, zwarn_opt (Bad_option_letter c) st)
           else do { (r, st) \<leftarrow> dosetopt S optno value False Opts st;
                     Some (if r \<noteq> 0 then (1, zwarn_opt (Cant_change_letter c) st) else (retval, st)) })"

text \<open>
  The characters of one argument after its sign.  \<open>Next\<close> goes on with the arguments that
  remain, \<open>Stop\<close> is \<open>goto doneoptions\<close>, \<open>Give_up\<close> the return after \<open>-o\<close> without a name.  A
  \<open>Meta\<close> at the end of a string would overwrite its terminator: \<open>None\<close>.
\<close>

datatype 'a flow = Next 'a | Stop 'a | Give_up 'a

text \<open>One character: \<open>Inl\<close> when the argument ends with it, else the state to go on with.\<close>

definition setopt_char ::
    "'w optsys \<Rightarrow> int htab \<Rightarrow> bool \<Rightarrow> char \<Rightarrow> string \<Rightarrow> string list \<Rightarrow> bool \<times> int \<times> 'w optst \<Rightarrow>
     ((string list \<times> bool \<times> int \<times> 'w optst) flow + bool \<times> int \<times> 'w optst) option" where
  "setopt_char S ht action c cs args ms =
     (case ms of (match, s) \<Rightarrow>
        if c = CHR ''-'' then Some (Inl (Stop (args, match, s)))
        else if c = CHR ''o''
        then (case (if cs = [] then args else cs # args) of
                [] \<Rightarrow> Some (Inl (Give_up ([], match, 1, inittyptab (zwarn_opt String_expected (snd s)))))
              | arg # args \<Rightarrow> do { s \<leftarrow> named_option S ht action arg s; Some (Inl (Next (args, match, s))) })
        else if c = CHR ''m'' then Some (Inr (True, s))
        else do { s \<leftarrow> letter_option S action c s; Some (Inr (match, s)) })"

definition unmeta :: "char \<Rightarrow> char" where
  "unmeta c = char_of (xor (of_char c) 32 :: nat)"

fun setopt_chars ::
    "'w optsys \<Rightarrow> int htab \<Rightarrow> bool \<Rightarrow> string \<Rightarrow> string list \<Rightarrow> bool \<times> int \<times> 'w optst \<Rightarrow>
     (string list \<times> bool \<times> int \<times> 'w optst) flow option" where
  "setopt_chars S ht action [] args (match, s) = Some (Next (args, match, s))"
| "setopt_chars S ht action [c] args ms =
     (if c = CHR 0x83 then None
      else do { r \<leftarrow> setopt_char S ht action c [] args ms;
                (case r of Inl fl \<Rightarrow> Some fl | Inr (match, s) \<Rightarrow> Some (Next (args, match, s))) })"
| "setopt_chars S ht action (c # d # ds) args ms =
     (if c = CHR 0x83
      then do { r \<leftarrow> setopt_char S ht action (unmeta d) ds args ms;
                (case r of Inl fl \<Rightarrow> Some fl | Inr ms \<Rightarrow> setopt_chars S ht action ds args ms) }
      else do { r \<leftarrow> setopt_char S ht action c (d # ds) args ms;
                (case r of Inl fl \<Rightarrow> Some fl | Inr ms \<Rightarrow> setopt_chars S ht action (d # ds) args ms) })"

text \<open>The loop over the arguments with a sign; a sign alone counts as \<open>--\<close>.\<close>

function setopt_opts ::
    "'w optsys \<Rightarrow> int htab \<Rightarrow> bool \<Rightarrow> string list \<Rightarrow> bool \<times> int \<times> 'w optst \<Rightarrow>
     (string list \<times> bool \<times> int \<times> 'w optst) flow option" where
  "setopt_opts S ht isun [] (match, s) = Some (Stop ([], match, s))"
| "setopt_opts S ht isun (arg # args) (match, s) =
     (let c = nth_chr arg 0
      in if c = CHR ''-'' \<or> c = CHR ''+''
         then do { r \<leftarrow> setopt_chars S ht ((c = CHR ''-'') \<noteq> isun) (if tl arg = [] then ''-'' else tl arg) args (match, s);
                   (case r of
                      Next (args', match, s) \<Rightarrow> if length args' \<le> length args then setopt_opts S ht isun args' (match, s) else None
                    | fl \<Rightarrow> Some fl) }
         else Some (Stop (arg # args, match, s)))"
  by pat_completeness auto

termination by (relation "measure (\<lambda>(S, ht, isun, args, ms). length args)") auto

fun setopt_names :: "'w optsys \<Rightarrow> int htab \<Rightarrow> bool \<Rightarrow> string list \<Rightarrow> int \<times> 'w optst \<Rightarrow> (int \<times> 'w optst) option" where
  "setopt_names S ht isun [] s = Some s"
| "setopt_names S ht isun (arg # args) s =
     do { s \<leftarrow> named_option S ht (\<not> isun) arg s; setopt_names S ht isun args s }"

text \<open>With \<open>-m\<close> the arguments are patterns.\<close>

fun setopt_patterns :: "'w optsys \<Rightarrow> int htab \<Rightarrow> bool \<Rightarrow> string list \<Rightarrow> int \<times> 'w optst \<Rightarrow> (int \<times> 'w optst) option" where
  "setopt_patterns S ht isun [] s = Some s"
| "setopt_patterns S ht isun (arg # args) (retval, st) =
     (case patprog S (opt_norm arg) of
        None \<Rightarrow> Some (1, zwarn_opt (Bad_pattern arg) st)
      | Some p \<Rightarrow> do { st \<leftarrow> scan_options S (Some p) False 0 OPT_ALIAS (setoption S (\<not> isun)) ht st;
                       setopt_patterns S ht isun args (retval, st) })"

definition bin_setopt :: "'w optsys \<Rightarrow> int htab \<Rightarrow> string list \<Rightarrow> bool \<Rightarrow> 'w optst \<Rightarrow> (int \<times> 'w optst) option" where
  "bin_setopt S ht args isun st =
     (if args = []
      then do { st \<leftarrow> scan_options S None True 0 OPT_ALIAS (printoptionnode (\<not> isun)) ht st; Some (0, st) }
      else do { r \<leftarrow> setopt_opts S ht isun args (False, 0, st);
                (case r of
                   Give_up (_, _, s) \<Rightarrow> Some s
                 | Next (args, match, s) \<Rightarrow> None
                 | Stop (args, match, s) \<Rightarrow>
                     do { (retval, st) \<leftarrow> (if match then setopt_patterns else setopt_names) S ht isun args s;
                          Some (retval, inittyptab st) }) })"

end
