(* ===== verification/Opt_Spec.thy ===== *)
theory Opt_Spec
  imports Options
begin

text \<open>
  What the operations of \<open>Src/options.c\<close> do, on the table \<open>createoptiontable\<close> makes: the rows
  of \<open>optns\<close> are its nodes, under their names; scans visit each row once; lookups find every
  spelling of a name; setting an option changes that option.
\<close>

section \<open>The rows of the table\<close>

definition row_ok :: "32 word \<times> int \<Rightarrow> bool" where
  "row_ok r = (case r of (f, k) \<Rightarrow>
     f AND DISABLED = 0 \<and> k \<noteq> 0 \<and> \<bar>k\<bar> < OPT_SIZE \<and> (f AND OPT_ALIAS = 0 \<longrightarrow> 0 < k))"

lemma rows_ok: "\<forall>r \<in> set (map snd optns). row_ok r"
  by code_simp

text \<open>The characters from 96 to 127, by their bits.\<close>

primrec low :: "char \<Rightarrow> bool" where
  "low (Char b0 b1 b2 b3 b4 b5 b6 b7) \<longleftrightarrow> b5 \<and> b6 \<and> \<not> b7"

lemma names_low: "\<forall>s \<in> set opt_names. list_all low s"
  by code_simp

lemma names_no: "\<forall>s \<in> set opt_names. if take 2 s = ''no'' then drop 2 s \<notin> set opt_names else True"
  by code_simp

lemma low_bound: "low c \<Longrightarrow> (96 :: nat) \<le> of_char c"
  by (cases c) (simp add: of_char_def)

lemma opt_norm_low: "list_all low s \<Longrightarrow> opt_norm s = s"
proof (induction s)
  case (Cons c s)
  then have "(96 :: nat) \<le> of_char c" using low_bound by simp
  moreover have "of_char NUL = (0 :: nat)" "of_char (CHR ''_'') = (95 :: nat)" by (simp_all add: NUL_def)
  ultimately show ?case using Cons by auto
qed simp

section \<open>The table\<close>

text \<open>The option table after its creation; nothing in \<open>options.c\<close> changes it.\<close>

definition opt_table :: "int htab \<Rightarrow> addr list list \<Rightarrow> bool" where
  "opt_table ht cs \<longleftrightarrow> hwf ht cs \<and> scan ht = None \<and> members cs = {1..<197} \<and>
     (\<forall>a n. mem ht a = Some n \<longrightarrow> 1 \<le> a \<and> a \<le> 196 \<and> (nam n, flags n, body n) = optns ! (a - 1)) \<and>
     (\<forall>i < 196. mem ht (i + 1) \<noteq> None) \<and>
     (\<forall>i s. i < 196 \<longrightarrow> cstr s = fst (optns ! i) \<longrightarrow> gethashnode ht s = Some (i + 1)) \<and>
     (\<forall>s. cstr s \<notin> set opt_names \<longrightarrow> gethashnode ht s = Some 0)"

lemma opt_tableD:
  assumes "opt_table ht cs"
  shows "hwf ht cs" "scan ht = None" "members cs = {1..<197}"
    "mem ht a = Some n \<Longrightarrow> 1 \<le> a \<and> a \<le> 196 \<and> (nam n, flags n, body n) = optns ! (a - 1)"
    "i < 196 \<Longrightarrow> mem ht (i + 1) \<noteq> None"
    "i < 196 \<Longrightarrow> cstr s = fst (optns ! i) \<Longrightarrow> gethashnode ht s = Some (i + 1)"
    "cstr s \<notin> set opt_names \<Longrightarrow> gethashnode ht s = Some 0"
  using assms unfolding opt_table_def by (elim conjE, blast)+

lemma row_okD:
  assumes "i < 196" "optns ! i = (s, f, k)"
  shows "f AND DISABLED = 0" "k \<noteq> 0" "\<bar>k\<bar> < OPT_SIZE" "f AND OPT_ALIAS = 0 \<Longrightarrow> 0 < k"
    "cstr s = s" "opt_norm s = s" "s \<in> set opt_names"
proof -
  have "(s, f, k) \<in> set optns" using assms nth_mem [of i optns] length_optns by simp
  then have "(f, k) \<in> set (map snd optns)" and s: "s \<in> set opt_names"
    by (force simp: opt_names_def)+
  then have "row_ok (f, k)" using rows_ok by blast
  then show "f AND DISABLED = 0" "k \<noteq> 0" "\<bar>k\<bar> < OPT_SIZE" "f AND OPT_ALIAS = 0 \<Longrightarrow> 0 < k"
    by (simp_all add: row_ok_def)
  show "s \<in> set opt_names" by (rule s)
  show "opt_norm s = s" using names_low s opt_norm_low by blast
  show "cstr s = s" using opt_names_NUL s by simp
qed

lemma createoptiontable_spec: "\<exists>ht cs. createoptiontable = Some ht \<and> opt_table ht cs"
proof -
  let ?nms = "map fst optns"
  have nms: "?nms = opt_names" by (simp add: opt_names_def)
  have d: "distinct ?nms" using distinct_opt_names nms by simp
  have nul: "\<forall>w \<in> set ?nms. cstr w = w" using opt_names_NUL nms by simp
  have m: "\<forall>i < length ?nms. opt_mem (1 + i) \<noteq> None"
    by (simp add: opt_mem_def split: prod.split)
  have z: "0 < (101 :: nat)" by simp
  obtain ht cs where t: "add_words ?nms 1 ((newhashtable 101 hasher strcmp)\<lparr>mem := opt_mem\<rparr>) = Some ht"
    "hwf ht cs" "members cs = {1..<1 + length ?nms}" "scan ht = None"
    "\<forall>i s. i < length ?nms \<longrightarrow> cstr s = ?nms ! i \<longrightarrow> gethashnode2 ht s = Some (i + 1)"
    "\<forall>s. cstr s \<notin> set ?nms \<longrightarrow> gethashnode2 ht s = Some 0"
    "\<forall>i < length ?nms. strip (mem ht) (i + 1) = Some ((the (opt_mem (i + 1)))\<lparr>nam := ?nms ! i, hnext := 0\<rparr>)"
    "\<forall>a. a \<notin> {1..<1 + length ?nms} \<longrightarrow> strip (mem ht) a = strip opt_mem a"
    using static_table [where sz = 101 and m = opt_mem, OF z d nul m] by (elim exE conjE) (rule that)
  have l: "length ?nms = 196" using length_optns by simp
  have cell: "\<exists>n. mem ht (i + 1) = Some n \<and> (nam n, flags n, body n) = optns ! i" if i: "i < 196" for i
  proof -
    obtain s f k where r: "optns ! i = (s, f, k)" by (cases "optns ! i") auto
    have "opt_mem (i + 1) = Some \<lparr>hnext = 0, nam = s, flags = f, body = k\<rparr>"
      using i r length_optns by (simp add: opt_mem_def)
    moreover have "?nms ! i = s" using i r length_optns by simp
    ultimately have "strip (mem ht) (i + 1) = Some \<lparr>hnext = 0, nam = s, flags = f, body = k\<rparr>"
      using t(7) i l by simp
    then obtain n where n: "mem ht (i + 1) = Some n" "n\<lparr>hnext := 0\<rparr> = \<lparr>hnext = 0, nam = s, flags = f, body = k\<rparr>"
      by (auto simp: strip_def)
    then have "nam n = s \<and> flags n = f \<and> body n = k" by (cases n) simp
    with n(1) r show ?thesis by simp
  qed
  have dom: "1 \<le> a \<and> a \<le> 196 \<and> (nam n, flags n, body n) = optns ! (a - 1)" if a: "mem ht a = Some n" for a n
  proof (cases "a \<in> {1..<197}")
    case True
    then have "a - 1 < 196" "a - 1 + 1 = a" by auto
    with cell [of "a - 1"] a True show ?thesis by auto
  next
    case False
    then have "strip (mem ht) a = strip opt_mem a" using t(8) l by simp
    moreover have "opt_mem a = None" using False length_optns by (auto simp: opt_mem_def)
    ultimately show ?thesis using a by (simp add: strip_def)
  qed
  have G: "gethashnode ht s = Some r" if r: "gethashnode2 ht s = Some r" "r = 0 \<or> (\<exists>i < 196. r = i + 1)" for r s
  proof -
    have "flags (the (mem ht r)) AND DISABLED = 0" if "r \<noteq> 0"
    proof -
      obtain i where i: "i < 196" "r = i + 1" using r(2) \<open>r \<noteq> 0\<close> by blast
      then obtain n where "mem ht r = Some n" "(nam n, flags n, body n) = optns ! i" using cell by blast
      with i(1) show ?thesis using row_okD(1) [of i "nam n" "flags n" "body n"] by simp
    qed
    then show ?thesis using gethashnode_spec [OF t(2), of s] r(1) by auto
  qed
  have "opt_table ht cs"
    unfolding opt_table_def using t(2,4) t(3) [unfolded l] dom cell
  proof (intro conjI allI impI)
    fix i and s :: string assume i: "i < (196 :: nat)" "cstr s = fst (optns ! i)"
    then have "gethashnode2 ht s = Some (i + 1)" using t(5) l by simp
    then show "gethashnode ht s = Some (i + 1)" using G i(1) by blast
  next
    fix s :: string assume "cstr s \<notin> set opt_names"
    then have "gethashnode2 ht s = Some 0" using t(6) nms by simp
    then show "gethashnode ht s = Some 0" using G by blast
  next
    fix i :: nat assume "i < 196"
    then show "mem ht (i + 1) \<noteq> None" using cell by blast
  qed simp_all
  then show ?thesis using t(1) unfolding createoptiontable_def by blast
qed

section \<open>Lookup by name\<close>

lemma cstr_opt_norm: "cstr (opt_norm s) = opt_norm s"
proof -
  have "NUL \<notin> set (opt_norm s)"
  proof (induction s)
    case (Cons c s)
    have "char_of (of_char c + 32 :: nat) \<noteq> NUL" if "(65 :: nat) \<le> of_char c" "(of_char c :: nat) \<le> 90"
    proof
      assume "char_of (of_char c + 32 :: nat) = NUL"
      then have "of_char (char_of (of_char c + 32 :: nat)) = (of_char NUL :: nat)" by (rule arg_cong)
      with that show False by (simp add: NUL_def)
    qed
    with Cons show ?case by auto
  qed simp
  then show ?thesis by simp
qed

lemma row_index: "r \<in> set optns \<Longrightarrow> \<exists>i < 196. optns ! i = r"
  using length_optns by (auto simp: in_set_conv_nth)

lemma opt_names_row: "s \<in> set opt_names \<Longrightarrow> \<exists>f k. (s, f, k) \<in> set optns"
  unfolding opt_names_def by fastforce

lemma get_row:
  assumes T: "opt_table ht cs" and r: "(s, f, k) \<in> set optns"
  shows "\<exists>a n. gethashnode ht s = Some a \<and> a \<noteq> 0 \<and> node ht a = Some n \<and> body n = k"
proof -
  obtain i where i: "i < 196" "optns ! i = (s, f, k)" using row_index [OF r] by blast
  have g: "gethashnode ht s = Some (i + 1)" using opt_tableD(6) [OF T i(1)] i(2) row_okD(5) [OF i] by simp
  obtain n where n: "mem ht (i + 1) = Some n" using opt_tableD(5) [OF T i(1)] by auto
  have "(nam n, flags n, body n) = optns ! i" using opt_tableD(4) [OF T n] by simp
  with i(2) g n show ?thesis by (simp add: node_def)
qed

lemma get_no_row: "opt_table ht cs \<Longrightarrow> cstr s = s \<Longrightarrow> s \<notin> set opt_names \<Longrightarrow> gethashnode ht s = Some 0"
  using opt_tableD(7) [of ht cs s] by simp

lemma cstr_drop: "cstr s = s \<Longrightarrow> cstr (drop n s) = drop n s"
proof -
  assume "cstr s = s"
  then have "NUL \<notin> set s" by (metis cstr_def set_takeWhileD)
  then have "NUL \<notin> set (drop n s)" using in_set_dropD by metis
  then show ?thesis by simp
qed

lemma optlookup_name:
  assumes T: "opt_table ht cs" and r: "(s, f, k) \<in> set optns" and n: "opt_norm nm = s"
  shows "optlookup ht nm = Some k"
proof -
  have s: "s \<in> set opt_names" using r by (force simp: opt_names_def)
  have "gethashnode ht (drop 2 s) = Some 0" if "take 2 s = ''no''"
    using get_no_row [OF T cstr_drop] names_no s that cstr_opt_norm [of nm] n by (metis (full_types))
  then have "(if take 2 s = ''no'' then gethashnode ht (drop 2 s) else Some 0) = Some 0" by simp
  with get_row [OF T r] n show ?thesis by (auto simp: optlookup_def)
qed

lemma optlookup_no_name:
  assumes T: "opt_table ht cs" and r: "(s, f, k) \<in> set optns" and n: "opt_norm nm = ''no'' @ s"
  shows "optlookup ht nm = Some (- k)"
  using get_row [OF T r] n by (auto simp: optlookup_def)

lemma optlookup_unknown:
  assumes T: "opt_table ht cs" and n: "opt_norm nm \<notin> set opt_names" "\<forall>s \<in> set opt_names. opt_norm nm \<noteq> ''no'' @ s"
  shows "optlookup ht nm = Some 0"
proof -
  let ?s = "opt_norm nm"
  have d: "drop 2 ?s \<notin> set opt_names" if t: "take 2 ?s = ''no''"
    using n(2) append_take_drop_id [of 2 ?s] t by metis
  have z: "(if take 2 ?s = ''no'' then gethashnode ht (drop 2 ?s) else Some 0) = Some 0"
    using get_no_row [OF T cstr_drop [OF cstr_opt_norm] d] by (auto split: if_splits)
  show ?thesis
    unfolding optlookup_def Let_def z using get_no_row [OF T cstr_opt_norm n(1)] by simp
qed

section \<open>Scans\<close>

fun wanted_row :: "(string \<Rightarrow> bool) option \<Rightarrow> 32 word \<Rightarrow> 32 word \<Rightarrow> string \<times> 32 word \<times> int \<Rightarrow> bool" where
  "wanted_row pprog flags1 flags2 (s, f, k) \<longleftrightarrow> (flags1 = 0 \<or> f AND flags1 \<noteq> 0) \<and> f AND flags2 = 0 \<and>
     (case pprog of None \<Rightarrow> True | Some p \<Rightarrow> p s)"

definition row_node :: "int hnode \<Rightarrow> string \<times> 32 word \<times> int" where
  "row_node n = (nam n, flags n, body n)"

lemma wanted_row_node: "wanted pprog flags1 flags2 n = wanted_row pprog flags1 flags2 (row_node n)"
  by (simp add: row_node_def wanted_def)

lemma scan_options_rows:
  assumes T: "opt_table ht cs" and q: "\<forall>c xs. mset (sorter S c xs) = mset xs"
    and f: "\<And>n x. row_node n \<in> set optns \<Longrightarrow> wanted_row pprog flags1 flags2 (row_node n) \<Longrightarrow>
      f n x = Some (g (row_node n) x)"
  shows "\<exists>rows. scan_options S pprog srt flags1 flags2 f ht st = Some (fold g rows st) \<and>
    mset rows = mset (filter (wanted_row pprog flags1 flags2) optns)"
proof -
  define G where "G a x = g (row_node (the (mem ht a))) x" for a x
  define rw where "rw a = optns ! (a - 1)" for a
  have node_row: "row_node n = rw a \<and> rw a \<in> set optns" if "mem ht a = Some n" for a n
    using opt_tableD(4) [OF T that] length_optns unfolding rw_def row_node_def by auto
  have rd: "reads (wanted pprog flags1 flags2) (mem ht) (on_node f) G"
    unfolding reads_def
  proof (intro allI impI)
    fix a n x and h :: "int htab"
    assume a: "mem h = mem ht" "a \<noteq> 0" "mem ht a = Some n" "wanted pprog flags1 flags2 n"
    have "f n x = Some (g (row_node n) x)" using f [of n x] node_row [OF a(3)] a(4) by (simp add: wanted_row_node)
    then show "on_node f a (x, h) = Some (G a x, h)" using a by (simp add: on_node_def node_def G_def)
  qed
  have qs: "mset (sorter S (hnamcmp ht) (concat cs)) = mset (concat cs)" using q by blast
  have nt: "(None :: ('a optst \<times> int htab \<Rightarrow> ('a optst \<times> int htab) option) option) = None \<or> pprog \<noteq> None" by simp
  note R = scan_reads [where srt = srt and x = st and qsort = "sorter S", OF opt_tableD(1,2) [OF T] qs nt rd]
  let ?order = "filter (wants (wanted pprog flags1 flags2) ht)
      (if srt then sorter S (hnamcmp ht) (concat cs) else concat cs)"
  have mo: "mset (if srt then sorter S (hnamcmp ht) (concat cs) else concat cs) = mset [1..<197]"
  proof -
    have "set (concat cs) = {1..<197}" using opt_tableD(3) [OF T] by (simp add: members_def)
    then have "mset (concat cs) = mset [1..<197]"
      using hwf_distinct [OF opt_tableD(1) [OF T]] by (intro set_eq_iff_mset_eq_distinct [THEN iffD1]) simp_all
    with q show ?thesis by simp
  qed
  have in_tab: "\<exists>n. mem ht a = Some n \<and> row_node n = rw a" if a: "a \<in> set ?order" for a
  proof -
    have "a \<in># mset (if srt then sorter S (hnamcmp ht) (concat cs) else concat cs)" using a by simp
    then have "a - 1 < 196" "a - 1 + 1 = a" unfolding mo by auto
    with opt_tableD(5) [OF T, of "a - 1"] node_row show ?thesis by fastforce
  qed
  have "fold G ?order st = fold g (map rw ?order) st"
    unfolding fold_map o_def by (rule fold_cong) (use in_tab in \<open>force simp: G_def fun_eq_iff\<close>)+
  moreover have "mset (map rw ?order) = mset (filter (wanted_row pprog flags1 flags2) optns)"
  proof -
    have w: "wants (wanted pprog flags1 flags2) ht a = wanted_row pprog flags1 flags2 (rw a)" if "a \<in> {1..<197}" for a
    proof -
      have "a - 1 < 196" "a - 1 + 1 = a" using that by auto
      then obtain n where "mem ht a = Some n" using opt_tableD(5) [OF T, of "a - 1"] by auto
      with node_row show ?thesis by (simp add: wants_def wanted_row_node)
    qed
    have opt: "optns = map rw [1..<197]"
      by (rule nth_equalityI) (simp_all add: length_optns rw_def)
    have "mset ?order = filter_mset (wants (wanted pprog flags1 flags2) ht) (mset [1..<197])"
      using mo by simp
    also have "\<dots> = filter_mset (\<lambda>a. wanted_row pprog flags1 flags2 (rw a)) (mset [1..<197])"
      by (rule filter_mset_cong) (use w in auto)
    finally have "mset (map rw ?order) = image_mset rw (filter_mset (\<lambda>a. wanted_row pprog flags1 flags2 (rw a)) (mset [1..<197]))"
      by (simp del: upt.simps)
    also have "\<dots> = filter_mset (wanted_row pprog flags1 flags2) (image_mset rw (mset [1..<197]))"
      by (simp add: filter_mset_image_mset del: upt.simps)
    also have "\<dots> = mset (filter (wanted_row pprog flags1 flags2) optns)" by (subst opt) (simp del: upt.simps)
    finally show ?thesis .
  qed
  moreover have "scan_options S pprog srt flags1 flags2 f ht st = Some (fold G ?order st)"
    unfolding scan_options_def R by simp
  ultimately show ?thesis by metis
qed

end
