(* ===== verification/Opt_Set.thy ===== *)
theory Opt_Set
  imports Opt_Spec
begin

text \<open>
  What setting an option does (\<open>dosetopt\<close> of \<open>Src/options.c\<close>): which options change and
  when the request is refused, and what has become of the process's ids after
  \<open>PRIVILEGED\<close> was unset.
\<close>

section \<open>Setting an option\<close>

definition upd_arr :: "optptr \<Rightarrow> int \<Rightarrow> int \<Rightarrow> 'w optst \<Rightarrow> 'w optst" where
  "upd_arr p k v st = (case p of Opts \<Rightarrow> st\<lparr>opts := (opts st)(k := v)\<rparr> | New_opts \<Rightarrow> st\<lparr>new_opts := (new_opts st)(k := v)\<rparr>)"

lemma set_arr_some: "0 \<le> k \<Longrightarrow> k < OPT_SIZE \<Longrightarrow> set_arr p k v st = Some (upd_arr p k v st)"
  by (cases p) (simp_all add: set_arr_def aset_def arr_def upd_arr_def)

lemma arr_upd [simp]: "arr q (upd_arr p k v st) = (if p = q then (arr q st)(k := v) else arr q st)"
  by (cases p; cases q) (simp_all add: arr_def upd_arr_def)

lemma arr_simps [simp]:
  "arr p (st\<lparr>world := w\<rparr>) = arr p st" "arr p (st\<lparr>keyboardhackchar := c\<rparr>) = arr p st"
  "arr p (st\<lparr>origpgrp := g\<rparr>) = arr p st" "arr p (zwarn_opt m st) = arr p st" "arr p (inittyptab st) = arr p st"
  "arr p (put_out s st) = arr p st"
  by (cases p; simp add: arr_def zwarn_opt_def inittyptab_def put_out_def)+

definition store_result :: "optptr \<Rightarrow> int \<Rightarrow> bool \<Rightarrow> 'w optst \<Rightarrow> 'w optst" where
  "store_result p k v st = (let st = upd_arr p k (of_bool v) st
     in if k = MULTIBYTE \<or> k = BANGHIST \<or> k = SHINSTDIN then inittyptab st else st)"

lemma store_opt_some: "0 \<le> k \<Longrightarrow> k < OPT_SIZE \<Longrightarrow> store_opt p k v st = Some (0, store_result p k v st)"
  by (simp add: store_opt_def set_arr_some store_result_def Let_def)

lemma arr_store [simp]: "arr q (store_result p k v st) = (if p = q then (arr q st)(k := of_bool v) else arr q st)"
  by (simp add: store_result_def Let_def)

text \<open>The system calls leave the option arrays alone.\<close>

lemma drop_privileges_arr: "arr p (snd (drop_privileges S st)) = arr p st"
proof -
  have g: "arr p (snd (drop_groups S g st)) = arr p st" for g st
    by (simp add: drop_groups_def Let_def split: option.split prod.split)
  have c: "arr p (snd (cannot_regain S u g st)) = arr p st" for u g st
    by (simp add: cannot_regain_def Let_def split: prod.split)
  show ?thesis
    unfolding drop_privileges_def Let_def
    by (auto split: prod.split option.split simp: g [THEN trans] dest!: arg_cong [where f = "\<lambda>x. arr p (snd x)"]) 
       (auto simp: g c)
qed


section \<open>What a call does\<close>

text \<open>
  The ways through \<open>set_option\<close>: a refusal, a request for the value the option has, one for
  a line editor mode under a sticky emulation, the failed and the successful loss of
  privileges, job control, a line editor mode, and any other option.
\<close>

definition guarded :: "int set" where
  "guarded = {EXECOPT, INTERACTIVE, SHINSTDIN, SINGLECOMMAND, USEZLE, MONITOR}"

inductive sets :: "'w optsys \<Rightarrow> int \<Rightarrow> bool \<Rightarrow> bool \<Rightarrow> optptr \<Rightarrow> 'w optst \<Rightarrow> int \<Rightarrow> 'w optst \<Rightarrow> bool"
  for S k v force p st where
  refuse: "\<not> force \<Longrightarrow> k \<in> guarded \<Longrightarrow> sets S k v force p st (-1) st"
| as_it_is: "arr p st k = of_bool v \<Longrightarrow> \<not> force \<Longrightarrow> sets S k v force p st 0 st"
| stuck: "k = EMACSMODE \<or> k = VIMODE \<Longrightarrow> v \<Longrightarrow> sets S k v force p st (if isset st k then 0 else -1) st"
| keep_priv: "k = PRIVILEGED \<Longrightarrow> \<not> v \<Longrightarrow> drop_privileges S st = (False, st') \<Longrightarrow> sets S k v force p st (-1) st'"
| lose_priv: "k = PRIVILEGED \<Longrightarrow> \<not> v \<Longrightarrow> drop_privileges S st = (True, st') \<Longrightarrow>
    sets S k v force p st 0 (store_result p k v st')"
| job_control: "k = MONITOR \<Longrightarrow> v \<Longrightarrow> \<not> force \<Longrightarrow> sets S k v force p st 0 (store_result p k v (take_pgrp S st))"
| zle_mode: "k = EMACSMODE \<or> k = VIMODE \<Longrightarrow> v \<Longrightarrow>
    sets S k v force p st 0 (store_result p k v (upd_arr p (xor (xor k EMACSMODE) VIMODE) 0 (st\<lparr>world := w\<rparr>)))"
| plain: "\<not> (k = PRIVILEGED \<and> \<not> v) \<Longrightarrow> sets S k v force p st 0 (store_result p k v (st\<lparr>keyboardhackchar := c\<rparr>))"

lemma upd_same [simp]: "st\<lparr>world := world st\<rparr> = st" "st\<lparr>keyboardhackchar := keyboardhackchar st\<rparr> = st"
  by (cases st, simp)+

lemma sets_plain: "\<not> (k = PRIVILEGED \<and> \<not> v) \<Longrightarrow> sets S k v force p st 0 (store_result p k v st)"
  using plain [of k v S force p st "keyboardhackchar st"] by simp

lemma sets_chosen: "\<not> (k = PRIVILEGED \<and> \<not> v) \<Longrightarrow>
    sets S k v force p st 0 (store_result p k v (if b then st\<lparr>keyboardhackchar := c\<rparr> else st))"
  using plain [of k v S force p st c] sets_plain [of k v S force p st] by (cases b) simp_all

lemma sets_zle: "k = EMACSMODE \<or> k = VIMODE \<Longrightarrow> v \<Longrightarrow>
    sets S k v force p st 0 (store_result p k v (upd_arr p (xor (xor k EMACSMODE) VIMODE) 0 st))"
  using zle_mode [of k v S force p st "world st"] by simp

lemma set_option_sets:
  assumes k: "0 < k" "k < OPT_SIZE"
  shows "\<exists>r st'. set_option S k v force p st = Some (r, st') \<and> sets S k v force p st r st'"
proof -
  have so: "store_opt q k b s = Some (0, store_result q k b s)" for q b s
    using store_opt_some [OF less_imp_le [OF k(1)] k(2)] .
  have sa: "set_arr q (xor (xor k EMACSMODE) VIMODE) 0 s = Some (upd_arr q (xor (xor k EMACSMODE) VIMODE) 0 s)"
    if "k = EMACSMODE \<or> k = VIMODE" for q s
    using that by (intro set_arr_some) auto
  obtain ok stp where d: "drop_privileges S st = (ok, stp)" by fastforce
  consider (1) "\<not> force" "k = EXECOPT" "\<not> v" "interact st"
    | (2) "\<not> force" "k = INTERACTIVE \<or> k = SHINSTDIN \<or> k = SINGLECOMMAND"
    | (3) "\<not> force" "k = USEZLE" "v"
    | (4) "k = PRIVILEGED" "\<not> v"
    | (5) "\<not> force" "k = MONITOR" "v"
    | (6) "k = EMACSMODE \<or> k = VIMODE" "v"
    | (7) "\<not> (\<not> force \<and> k = EXECOPT \<and> \<not> v \<and> interact st)" "\<not> (\<not> force \<and> (k = INTERACTIVE \<or> k = SHINSTDIN \<or> k = SINGLECOMMAND))"
       "\<not> (\<not> force \<and> k = USEZLE \<and> v)" "\<not> (k = PRIVILEGED \<and> \<not> v)" "\<not> (\<not> force \<and> k = MONITOR \<and> v)"
       "\<not> ((k = EMACSMODE \<or> k = VIMODE) \<and> v)"
    by blast
  then show ?thesis
  proof cases
    case 1
    then show ?thesis using refuse [of force k S v p st] by (simp add: set_option_def guarded_def)
  next
    case 2
    then show ?thesis using refuse [of force k S v p st] as_it_is [of p st k v force S]
      by (auto simp: set_option_def guarded_def)
  next
    case 3
    then show ?thesis using refuse [of force k S v p st] sets_plain [of k v S force p st] so [of p v st]
      by (auto simp: set_option_def guarded_def)
  next
    case 4
    then show ?thesis using d keep_priv [of k v S st stp force p] lose_priv [of k v S st stp force p] so [of p v stp]
      by (cases ok) (simp_all add: set_option_def)
  next
    case 5
    then show ?thesis using refuse [of force k S v p st] as_it_is [of p st k v force S] job_control [of k v force S p st]
        so [of p v "take_pgrp S st"]
      by (auto simp: set_option_def guarded_def)
  next
    case 6
    let ?w = "if zle_load_state st = 1 then st\<lparr>world := zle_set_keymap S k (world st)\<rparr> else st"
    have "sets S k v force p st 0 (store_result p k v (upd_arr p (xor (xor k EMACSMODE) VIMODE) 0 ?w))"
      by (simp add: zle_mode [OF 6] sets_zle [OF 6])
    moreover have "set_option S k v force p st =
        (if sticky st \<noteq> None \<and> sticky st \<noteq> Some 0 then Some (if isset st k then 0 else -1, st)
         else Some (0, store_result p k v (upd_arr p (xor (xor k EMACSMODE) VIMODE) 0 ?w)))"
    proof -
      have "k \<noteq> EXECOPT" "k \<noteq> INTERACTIVE" "k \<noteq> SHINSTDIN" "k \<noteq> SINGLECOMMAND" "k \<noteq> USEZLE" "k \<noteq> PRIVILEGED" "k \<noteq> MONITOR"
        using 6(1) by auto
      then show ?thesis unfolding set_option_def using 6 by (simp only: if_True if_False simp_thms Let_def sa [OF 6(1)] so bind.bind_lunit)
    qed
    ultimately show ?thesis using stuck [OF 6, of S force p st] by simp
  next
    case 7
    let ?s = "if k = SUNKEYBOARDHACK then st\<lparr>keyboardhackchar := (if v then CHR 0x60 else NUL)\<rparr> else st"
    have "set_option S k v force p st = Some (0, store_result p k v ?s)"
      unfolding set_option_def using 7
      by (simp only: if_False simp_thms so split: if_split) (cases "k = SUNKEYBOARDHACK"; simp)
    moreover have "sets S k v force p st 0 (store_result p k v ?s)"
      by (rule sets_chosen [OF 7(4)])
    ultimately show ?thesis by blast
  qed
qed

lemma dosetopt_sets:
  assumes "optno \<noteq> 0" "\<bar>optno\<bar> < OPT_SIZE"
  shows "\<exists>r st'. dosetopt S optno value force p st = Some (r, st') \<and>
    sets S \<bar>optno\<bar> (if optno < 0 then \<not> value else value) force p st r st'"
  using set_option_sets [of "\<bar>optno\<bar>" S "if optno < 0 then \<not> value else value" force p st] assms
  by (cases "optno < 0") (simp_all add: dosetopt_def)

lemma opposite_mode: "k = EMACSMODE \<Longrightarrow> xor (xor k EMACSMODE) VIMODE = VIMODE" "k = VIMODE \<Longrightarrow> xor (xor k EMACSMODE) VIMODE = EMACSMODE"
  by simp_all

lemma take_pgrp_arr: "j \<noteq> MONITOR \<Longrightarrow> arr q (take_pgrp S st) j = arr q st j"
  by (cases q) (simp_all add: take_pgrp_def Let_def arr_def split: prod.split)

lemma sets_value:
  "sets S k v force p st r st' \<Longrightarrow> (r = 0 \<or> r = -1) \<and> (r = -1 \<longrightarrow> (\<forall>q. arr q st' = arr q st)) \<and>
     (r = 0 \<longrightarrow> p = Opts \<longrightarrow> (arr p st' k \<noteq> 0) = v) \<and>
     (r = -1 \<longrightarrow> k \<in> guarded \<and> \<not> force \<or> k \<in> {PRIVILEGED, EMACSMODE, VIMODE})"
proof (induction rule: sets.induct)
  case stuck
  then show ?case by (auto simp: isset_def arr_def)
next
  case (keep_priv st')
  then have "arr q st' = arr q st" for q using drop_privileges_arr [of q S st] by simp
  with keep_priv show ?case by simp
next
  case as_it_is
  then show ?case by (cases v) auto
qed simp_all

lemma sets_frame:
  "sets S k v force p st r st' \<Longrightarrow> j \<noteq> k \<or> q \<noteq> p \<Longrightarrow> \<not> (j = MONITOR \<and> k = MONITOR) \<Longrightarrow>
   \<not> (q = p \<and> v \<and> {j, k} = {EMACSMODE, VIMODE}) \<Longrightarrow> arr q st' j = arr q st j"
proof (induction rule: sets.induct)
  case (keep_priv st')
  then show ?case using drop_privileges_arr [of q S st] by simp
next
  case (lose_priv st')
  then show ?case using drop_privileges_arr [of q S st] by auto
next
  case job_control
  then show ?case using take_pgrp_arr [of j q S st] by auto
next
  case (zle_mode w)
  from zle_mode(1) show ?case
  proof
    assume "k = EMACSMODE"
    with zle_mode show ?case by (auto simp: insert_commute)
  next
    assume "k = VIMODE"
    with zle_mode show ?case by (auto simp: insert_commute)
  qed
qed auto

lemma new_opts_arr: "new_opts st = arr New_opts st"
  by (simp add: arr_def)

lemma sets_new_opts: "sets S k v force Opts st r st' \<Longrightarrow> new_opts st' = new_opts st"
proof (induction rule: sets.induct)
  case (keep_priv st')
  then show ?case using drop_privileges_arr [of New_opts S st] by (simp add: new_opts_arr)
next
  case (lose_priv st')
  then show ?case using drop_privileges_arr [of New_opts S st] by (simp add: new_opts_arr)
next
  case job_control
  have "new_opts (take_pgrp S st) = new_opts st" by (simp add: take_pgrp_def Let_def split: prod.split)
  then show ?case by (simp add: new_opts_arr)
next
  case (zle_mode w)
  then show ?case by (simp add: new_opts_arr)
next
  case (plain c)
  then show ?case by (simp add: new_opts_arr)
qed simp_all

text \<open>The character table is built from the current values of the options it depends on.\<close>

definition typtab_synced :: "'w optst \<Rightarrow> bool" where
  "typtab_synced st \<longleftrightarrow> (\<forall>k \<in> {MULTIBYTE, BANGHIST, SHINSTDIN}. typtab_opts st k = opts st k)"

lemma synced_store: "typtab_synced st \<Longrightarrow> typtab_synced (store_result p k v st)"
  by (cases p) (auto simp: typtab_synced_def store_result_def Let_def upd_arr_def inittyptab_def)

lemma drop_privileges_typtab: "typtab_opts (snd (drop_privileges S st)) = typtab_opts st"
proof -
  have g: "typtab_opts (snd (drop_groups S g st)) = typtab_opts st" for g st
    by (simp add: drop_groups_def Let_def zwarn_opt_def split: option.split prod.split)
  have c: "typtab_opts (snd (cannot_regain S u g st)) = typtab_opts st" for u g st
    by (simp add: cannot_regain_def Let_def zwarn_opt_def split: prod.split)
  show ?thesis
    unfolding drop_privileges_def Let_def zwarn_opt_def
    by (auto split: prod.split option.split simp: g [THEN trans] dest!: arg_cong [where f = "\<lambda>x. typtab_opts (snd x)"])
       (auto simp: g c)
qed

lemma sets_typtab:
  "sets S k v force p st r st' \<Longrightarrow> typtab_synced st \<Longrightarrow> typtab_synced st'"
proof (induction rule: sets.induct)
  case (keep_priv st')
  then show ?case using drop_privileges_arr [of Opts S st] drop_privileges_typtab [of S st] by (simp add: typtab_synced_def arr_def)
next
  case (lose_priv st')
  then have "typtab_synced st'" using drop_privileges_arr [of Opts S st] drop_privileges_typtab [of S st]
    by (simp add: typtab_synced_def arr_def)
  then show ?case by (rule synced_store)
next
  case job_control
  then show ?case by (intro synced_store) (auto simp: typtab_synced_def take_pgrp_def Let_def split: prod.split)
next
  case (zle_mode w)
  from zle_mode(1) have "xor (xor k EMACSMODE) VIMODE \<in> {EMACSMODE, VIMODE}" by auto
  with zle_mode show ?case by (intro synced_store) (cases p; auto simp: typtab_synced_def upd_arr_def)
next
  case (plain c)
  then show ?case by (intro synced_store) (simp add: typtab_synced_def)
qed simp_all

section \<open>Privileges\<close>

text \<open>The ids of a process, and what the system's documentation says of the calls on them.\<close>

record creds =
  ruid :: int
  euid :: int
  suid :: int
  rgid :: int
  egid :: int
  sgid :: int

definition cred_laws :: "'w optsys \<Rightarrow> ('w \<Rightarrow> creds) \<Rightarrow> bool" where
  "cred_laws S cred \<longleftrightarrow>
     (\<forall>w. getuid S w = ruid (cred w) \<and> geteuid S w = euid (cred w) \<and>
          getgid S w = rgid (cred w) \<and> getegid S w = egid (cred w)) \<and>
     (\<forall>r e s w ok w'. setresgid S r e s w = (ok, w') \<longrightarrow>
        cred w' = (if ok then (cred w)\<lparr>rgid := r, egid := e, sgid := s\<rparr> else cred w)) \<and>
     (\<forall>r e s w ok w'. setresuid S r e s w = (ok, w') \<longrightarrow>
        cred w' = (if ok then (cred w)\<lparr>ruid := r, euid := e, suid := s\<rparr> else cred w)) \<and>
     (\<forall>n g w ok w'. initgroups S n g w = (ok, w') \<longrightarrow> cred w' = cred w \<or> cred w' = (cred w)\<lparr>egid := g\<rparr>) \<and>
     (\<forall>i w w'. setgid S i w = (False, w') \<or> setegid S i w = (False, w') \<or>
        setuid S i w = (False, w') \<or> seteuid S i w = (False, w') \<longrightarrow> cred w' = cred w)"

lemma cred_lawsD:
  assumes "cred_laws S cred"
  shows "getuid S w = ruid (cred w)" "geteuid S w = euid (cred w)" "getgid S w = rgid (cred w)" "getegid S w = egid (cred w)"
    "setresgid S r e s w = (True, w') \<Longrightarrow> cred w' = (cred w)\<lparr>rgid := r, egid := e, sgid := s\<rparr>"
    "setresuid S r e s w = (True, w') \<Longrightarrow> cred w' = (cred w)\<lparr>ruid := r, euid := e, suid := s\<rparr>"
    "initgroups S n g w = (ok, w') \<Longrightarrow> cred w' = cred w \<or> cred w' = (cred w)\<lparr>egid := g\<rparr>"
    "setgid S i w = (False, w') \<Longrightarrow> cred w' = cred w" "setegid S i w = (False, w') \<Longrightarrow> cred w' = cred w"
    "setuid S i w = (False, w') \<Longrightarrow> cred w' = cred w" "seteuid S i w = (False, w') \<Longrightarrow> cred w' = cred w"
  using assms unfolding cred_laws_def by (blast | simp)+

text \<open>The kernel refused to give the user id \<open>i\<close> back to a process with the ids \<open>c\<close>.\<close>

definition refused_uid :: "'w optsys \<Rightarrow> ('w \<Rightarrow> creds) \<Rightarrow> int \<Rightarrow> creds \<Rightarrow> bool" where
  "refused_uid S cred i c \<longleftrightarrow> (\<exists>w w'. cred w = c \<and> setuid S i w = (False, w')) \<and>
     (\<exists>w w'. cred w = c \<and> seteuid S i w = (False, w'))"

definition refused_gid :: "'w optsys \<Rightarrow> ('w \<Rightarrow> creds) \<Rightarrow> int \<Rightarrow> creds \<Rightarrow> bool" where
  "refused_gid S cred i c \<longleftrightarrow> (\<exists>w w'. cred w = c \<and> setgid S i w = (False, w')) \<and>
     (\<exists>w w'. cred w = c \<and> setegid S i w = (False, w'))"

lemma regain_False:
  "regain f g i w = (False, w') \<Longrightarrow> \<exists>w1. f i w = (False, w1) \<and> g i w1 = (False, w')"
  by (simp add: regain_def split: prod.splits bool.splits)

lemma drop_groups_cred:
  assumes C: "cred_laws S cred" and d: "drop_groups S g st = (Some failed, st')"
    and e: "egid (cred (world st)) = rgid (cred (world st))"
  shows "cred (world st') = cred (world st)"
proof -
  note [simp] = cred_lawsD(1-4) [OF C]
  have i: "cred w' = cred (world st)" if "initgroups S n (rgid (cred (world st))) (world st) = (ok, w')" for n ok w'
    using cred_lawsD(7) [OF C that] e by (cases "cred (world st)") auto
  show ?thesis using d
    by (auto simp: drop_groups_def Let_def zwarn_opt_def split: if_splits option.splits prod.splits dest!: i)
qed

lemma cannot_regain_cred:
  assumes C: "cred_laws S cred" and d: "cannot_regain S u g st = (True, st')"
  shows "cred (world st') = cred (world st)"
    "ruid (cred (world st)) \<noteq> 0 \<Longrightarrow> g \<noteq> egid (cred (world st)) \<Longrightarrow> refused_gid S cred g (cred (world st))"
    "ruid (cred (world st)) \<noteq> 0 \<Longrightarrow> u \<noteq> euid (cred (world st)) \<Longrightarrow> refused_uid S cred u (cred (world st))"
proof -
  note [simp] = cred_lawsD(1-4) [OF C]
  let ?w = "world st" and ?c = "cred (world st)"
  obtain r1 w1 where 1: "(if ruid ?c \<noteq> 0 \<and> g \<noteq> egid ?c then regain (setgid S) (setegid S) g ?w else (False, ?w)) = (r1, w1)"
    by fastforce
  have r1: "\<not> r1" using d 1 by (auto simp: cannot_regain_def split: if_splits)
  have w1: "cred w1 = ?c \<and> (ruid ?c \<noteq> 0 \<longrightarrow> g \<noteq> egid ?c \<longrightarrow> refused_gid S cred g ?c)"
  proof (cases "ruid ?c \<noteq> 0 \<and> g \<noteq> egid ?c")
    case True
    then have "regain (setgid S) (setegid S) g ?w = (False, w1)" using 1 r1 by simp
    then obtain v where v: "setgid S g ?w = (False, v)" "setegid S g v = (False, w1)" using regain_False by metis
    have "cred v = ?c" "cred w1 = cred v" using cred_lawsD(8,9) [OF C] v by blast+
    with v show ?thesis by (auto simp: refused_gid_def)
  next
    case False
    with 1 show ?thesis by (auto split: if_splits)
  qed
  obtain r2 w2 where 2: "(if ruid ?c \<noteq> 0 \<and> u \<noteq> euid ?c then regain (setuid S) (seteuid S) u w1 else (False, w1)) = (r2, w2)"
    by fastforce
  have e: "(r2, st') = (False, st\<lparr>world := w2\<rparr>)"
    using d 1 r1 2 w1 by (auto simp: cannot_regain_def split: if_splits)
  have w2: "cred w2 = ?c \<and> (ruid ?c \<noteq> 0 \<longrightarrow> u \<noteq> euid ?c \<longrightarrow> refused_uid S cred u ?c)"
  proof (cases "ruid ?c \<noteq> 0 \<and> u \<noteq> euid ?c")
    case True
    then have "regain (setuid S) (seteuid S) u w1 = (False, w2)" using 2 e by simp
    then obtain v where v: "setuid S u w1 = (False, v)" "seteuid S u v = (False, w2)" using regain_False by metis
    have "cred v = cred w1" "cred w2 = cred v" using cred_lawsD(10,11) [OF C] v by blast+
    with v w1 show ?thesis unfolding refused_uid_def by metis
  next
    case False
    with 2 w1 show ?thesis by (auto split: if_splits)
  qed
  show "cred (world st') = ?c" using w2 e by simp
  show "ruid ?c \<noteq> 0 \<Longrightarrow> g \<noteq> egid ?c \<Longrightarrow> refused_gid S cred g ?c" using w1 by blast
  show "ruid ?c \<noteq> 0 \<Longrightarrow> u \<noteq> euid ?c \<Longrightarrow> refused_uid S cred u ?c" using w2 by blast
qed

lemma drop_privileges_cred:
  assumes C: "cred_laws S cred" and d: "drop_privileges S st = (True, st')"
  defines "c \<equiv> cred (world st)"
  defines "c' \<equiv> \<lparr>ruid = ruid c, euid = ruid c, suid = ruid c, rgid = rgid c, egid = rgid c, sgid = rgid c\<rparr>"
  shows "cred (world st') = c'"
    "ruid c \<noteq> 0 \<Longrightarrow> egid c \<noteq> rgid c \<Longrightarrow> refused_gid S cred (egid c) c'"
    "ruid c \<noteq> 0 \<Longrightarrow> euid c \<noteq> ruid c \<Longrightarrow> refused_uid S cred (euid c) c'"
proof -
  note [simp] = cred_lawsD(1-4) [OF C]
  obtain r1 w1 where 1: "setresgid S (rgid c) (rgid c) (rgid c) (world st) = (r1, w1)" by fastforce
  obtain f st2 where 2: "drop_groups S (egid c) (st\<lparr>world := w1\<rparr>) = (f, st2)" by fastforce
  obtain r3 w3 where 3: "setresuid S (ruid (cred (world st2))) (ruid (cred (world st2))) (ruid (cred (world st2))) (world st2) = (r3, w3)"
    by fastforce
  obtain r4 st4 where 4: "cannot_regain S (euid c) (egid c) (st2\<lparr>world := w3\<rparr>) = (r4, st4)" by fastforce
  have E: "r1" "f = Some False" "r3" "r4" "st4 = st'"
    using d 1 2 3 4 by (auto simp: drop_privileges_def Let_def c_def split: if_splits option.splits)
  have c1: "cred w1 = c\<lparr>egid := rgid c, sgid := rgid c\<rparr>"
    using cred_lawsD(5) [OF C, of "rgid c" "rgid c" "rgid c" "world st" w1] 1 E(1) by (cases c) (simp add: c_def)
  then have c2: "cred (world st2) = c\<lparr>egid := rgid c, sgid := rgid c\<rparr>"
    using drop_groups_cred [OF C] 2 E(2) by (cases c) simp
  then have c3: "cred w3 = c'"
    using cred_lawsD(6) [OF C, of "ruid c" "ruid c" "ruid c" "world st2" w3] 3 E(3) by (cases c) (simp add: c'_def)
  note R = cannot_regain_cred [OF C 4 [unfolded E(5) eqTrueI [OF E(4)]]]
  show "cred (world st') = c'" using R(1) c3 by simp
  show "ruid c \<noteq> 0 \<Longrightarrow> egid c \<noteq> rgid c \<Longrightarrow> refused_gid S cred (egid c) c'" using R(2) c3 by (simp add: c'_def)
  show "ruid c \<noteq> 0 \<Longrightarrow> euid c \<noteq> ruid c \<Longrightarrow> refused_uid S cred (euid c) c'" using R(3) c3 by (simp add: c'_def)
qed

end
