(* ===== verification/Opt_List.thy ===== *)
theory Opt_List
  imports Opt_Set
begin

text \<open>
  Emulations and listings of \<open>Src/options.c\<close>: what the scans over the option table store and
  print, row by row.
\<close>

section \<open>Numbers of options\<close>

definition opt_nums :: "int list" where
  "opt_nums = map snd (filter (\<lambda>(f, k). f AND OPT_ALIAS = 0) (map snd optns))"

lemma opt_nums_groups: "\<forall>d \<in> set [0..15]. distinct (filter (\<lambda>k. k mod 16 = d) opt_nums)"
  by code_simp

lemma distinct_opt_nums: "distinct opt_nums"
proof (rule distinct_groups [where f = "\<lambda>k. k mod 16"])
  show "distinct (filter (\<lambda>k. k mod 16 = d) opt_nums)" if "d \<in> set [0..15]" for d
    using opt_nums_groups that by (rule bspec)
  show "k mod 16 \<in> set [0..15]" for k :: int
    using pos_mod_bound [of 16 k] pos_mod_sign [of 16 k] by simp
qed

section \<open>Emulation\<close>

definition put_arr :: "optptr \<Rightarrow> optarr \<Rightarrow> 'w optst \<Rightarrow> 'w optst" where
  "put_arr p a st = (case p of Opts \<Rightarrow> st\<lparr>opts := a\<rparr> | New_opts \<Rightarrow> st\<lparr>new_opts := a\<rparr>)"

lemma put_arr_simps [simp]: "arr p (put_arr p a st) = a" "put_arr p a (put_arr p b st) = put_arr p a st"
  "put_arr p (arr p st) st = st" "upd_arr p k v st = put_arr p ((arr p st)(k := v)) st"
  by (cases p; cases st; simp add: arr_def put_arr_def upd_arr_def)+

text \<open>The options an emulation sets, and what it sets them to.\<close>

fun emulate_row :: "32 word \<Rightarrow> optptr \<Rightarrow> bool \<Rightarrow> string \<times> 32 word \<times> int \<Rightarrow> 'w optst \<Rightarrow> 'w optst" where
  "emulate_row emu p fully (s, f, k) st = (if emulated fully f then upd_arr p k (of_bool (f AND emu \<noteq> 0)) st else st)"

lemma row_of_node:
  assumes "row_node n \<in> set optns"
  shows "body n \<noteq> 0" "\<bar>body n\<bar> < OPT_SIZE" "flags n AND OPT_ALIAS = 0 \<Longrightarrow> 0 < body n"
proof -
  obtain i where i: "i < 196" "optns ! i = (nam n, flags n, body n)"
    using row_index [OF assms] by (auto simp: row_node_def)
  show "body n \<noteq> 0" "\<bar>body n\<bar> < OPT_SIZE" "flags n AND OPT_ALIAS = 0 \<Longrightarrow> 0 < body n" using row_okD(2-4) [OF i] by simp_all
qed

lemma setemulate_row:
  "row_node n \<in> set optns \<Longrightarrow> setemulate emu p fully n st = Some (emulate_row emu p fully (row_node n) st)"
  using row_of_node [of n] set_arr_some [of "body n" p "of_bool (flags n AND emu \<noteq> 0)" st]
  by (auto simp: setemulate_def emulated_def row_node_def defset_def)

lemma fold_emulate_put: "\<exists>a. fold (emulate_row emu p fully) rows st = put_arr p a st"
proof (induction rows arbitrary: st)
  case Nil
  show ?case using put_arr_simps(3) [of p st, symmetric] by (simp del: put_arr_simps) blast
next
  case (Cons r rows)
  obtain s f k where r: "r = (s, f, k)" by (cases r) auto
  have "\<exists>b. emulate_row emu p fully r st = put_arr p b st"
  proof (cases "emulated fully f")
    case True
    then show ?thesis using r by auto
  next
    case False
    then have "emulate_row emu p fully r st = put_arr p (arr p st) st" using r by simp
    then show ?thesis by blast
  qed
  then obtain b where "emulate_row emu p fully r st = put_arr p b st" by blast
  with Cons.IH [of "put_arr p b st"] show ?case by auto
qed

lemma fold_emulate_other:
  "(\<And>s f. (s, f, j) \<in> set rows \<Longrightarrow> \<not> emulated fully f) \<Longrightarrow> arr p (fold (emulate_row emu p fully) rows st) j = arr p st j"
proof (induction rows arbitrary: st)
  case (Cons r rows)
  have "\<not> emulated fully f" if "(s, f, j) \<in> set rows" for s f using Cons.prems [of s f] that by simp
  note IH = Cons.IH [OF this]
  obtain s f k where r: "r = (s, f, k)" by (cases r) auto
  have "emulated fully f \<longrightarrow> k \<noteq> j" using Cons.prems [of s f] r by auto
  then show ?case by (cases "emulated fully f") (simp_all add: IH r)
qed simp

lemma fold_emulate_row:
  "distinct (map snd (filter (\<lambda>(f, k). emulated fully f) (map snd rows))) \<Longrightarrow> (s, f, k) \<in> set rows \<Longrightarrow> emulated fully f \<Longrightarrow>
   arr p (fold (emulate_row emu p fully) rows st) k = of_bool (f AND emu \<noteq> 0)"
proof (induction rows arbitrary: st)
  case (Cons r rows)
  obtain s' f' k' where r: "r = (s', f', k')" by (cases r) auto
  have d: "distinct (map snd (filter (\<lambda>(f, k). emulated fully f) (map snd rows)))"
    using Cons.prems(1) r by (auto split: if_splits)
  show ?case
  proof (cases "(s, f, k) \<in> set rows")
    case True
    then show ?thesis using Cons.IH [OF d True Cons.prems(3)] by simp
  next
    case False
    then have e: "r = (s, f, k)" using Cons.prems(2) by simp
    have "arr p (fold (emulate_row emu p fully) rows (emulate_row emu p fully r st)) k = arr p (emulate_row emu p fully r st) k"
    proof (rule fold_emulate_other)
      fix s2 f2 assume x: "(s2, f2, k) \<in> set rows"
      show "\<not> emulated fully f2"
      proof
        assume "emulated fully f2"
        with x have "k \<in> set (map snd (filter (\<lambda>(f, k). emulated fully f) (map snd rows)))" by force
        with Cons.prems(1,3) e show False by simp
      qed
    qed
    with e Cons.prems(3) show ?thesis by simp
  qed
qed simp

lemma distinct_emulated:
  assumes "mset rows = mset optns"
  shows "distinct (map snd (filter (\<lambda>(f, k). emulated fully f) (map snd rows)))"
proof -
  have "mset (map snd (filter (\<lambda>(f, k). f AND OPT_ALIAS = 0) (map snd rows))) = mset opt_nums"
    unfolding opt_nums_def using assms by simp
  then have "distinct (map snd (filter (\<lambda>(f, k). f AND OPT_ALIAS = 0) (map snd rows)))"
    using distinct_opt_nums mset_eq_imp_distinct_iff by blast
  then have "distinct (map snd (filter (\<lambda>(f, k). emulated fully f) (filter (\<lambda>(f, k). f AND OPT_ALIAS = 0) (map snd rows))))"
    by (rule distinct_map_filter)
  moreover have "filter (\<lambda>(f, k). emulated fully f) (filter (\<lambda>(f, k). f AND OPT_ALIAS = 0) xs) =
      filter (\<lambda>(f, k). emulated fully f) xs" for xs :: "(32 word \<times> int) list"
    by (induction xs) (auto simp: emulated_def)
  ultimately show ?thesis by simp
qed

lemma wanted_all [simp]: "wanted_row None 0 0 r"
  by (cases r) simp

lemma emulate_rows:
  fixes nm :: string and fully :: bool and st :: "'w optst"
  assumes T: "opt_table ht cs" and q: "\<forall>c xs. mset (sorter S c xs) = mset xs"
  defines "emu \<equiv> emulation_of nm OR (if fully then EMULATE_FULLY else 0)"
  shows "\<exists>a. emulate S ht nm fully p st = Some (emu, put_arr p a st) \<and>
    (\<forall>(s, f, k) \<in> set optns. emulated fully f \<longrightarrow>
       a k = (if k = XTRACE \<and> trace_function st then 1 else of_bool (f AND emu \<noteq> 0))) \<and>
    (\<forall>j. (\<forall>(s, f, k) \<in> set optns. emulated fully f \<longrightarrow> k \<noteq> j) \<longrightarrow>
       a j = (if j = XTRACE \<and> trace_function st then 1 else arr p st j))"
proof -
  have fl: "(emu AND EMULATE_FULLY \<noteq> 0) = fully"
    unfolding emu_def emulation_of_def by (cases fully) (auto simp: Let_def)
  obtain rows where r: "scan_options S None False 0 0 (setemulate emu p fully) ht st = Some (fold (emulate_row emu p fully) rows st)"
    "mset rows = mset (filter (wanted_row None 0 0) optns)"
    using scan_options_rows [OF T q, of None 0 0 "setemulate emu p fully" "emulate_row emu p fully"] setemulate_row by blast
  have m: "mset rows = mset optns" using r(2) by simp
  then have s: "set rows = set optns" by (rule mset_eq_setD)
  obtain b where b: "fold (emulate_row emu p fully) rows st = put_arr p b st" using fold_emulate_put by blast
  have row: "b k = of_bool (f AND emu \<noteq> 0)" if "(s, f, k) \<in> set optns" "emulated fully f" for s f k
    using fold_emulate_row [OF distinct_emulated [OF m], of s f k fully p emu st] that m b mset_eq_setD [OF m] by simp
  have other: "b j = arr p st j" if "\<forall>(s, f, k) \<in> set optns. emulated fully f \<longrightarrow> k \<noteq> j" for j
    using fold_emulate_other [of j rows fully p emu st] that mset_eq_setD [OF m] b by fastforce
  have tr: "trace_function (put_arr p b st) = trace_function st"
    by (cases p) (simp_all add: trace_function_def put_arr_def split: option.split)
  have ins: "installemulation S emu p ht st = Some (put_arr p b st)"
    unfolding installemulation_def fl r(1) b ..
  define a where "a = (if trace_function st then b(XTRACE := 1) else b)"
  have "emulate S ht nm fully p st = Some (emu, put_arr p a st)"
    using ins tr set_arr_some [of XTRACE p 1 "put_arr p b st"]
    by (simp add: emulate_def emu_def [symmetric] a_def)
  moreover have "\<forall>(s, f, k) \<in> set optns. emulated fully f \<longrightarrow>
       a k = (if k = XTRACE \<and> trace_function st then 1 else of_bool (f AND emu \<noteq> 0))"
    using row by (fastforce simp: a_def)
  moreover have "\<forall>j. (\<forall>(s, f, k) \<in> set optns. emulated fully f \<longrightarrow> k \<noteq> j) \<longrightarrow>
       a j = (if j = XTRACE \<and> trace_function st then 1 else arr p st j)"
    using other by (simp add: a_def)
  ultimately show ?thesis by blast
qed

section \<open>Listings\<close>

lemma put_out_put: "put_out t (put_out s st) = put_out (s @ t) st" and put_out_Nil: "put_out [] st = st"
  by (simp_all add: put_out_def)

lemma fold_print:
  assumes "\<And>r x s. txt (put_out s x) r = txt x r"
  shows "fold (\<lambda>r x. put_out (txt x r) x) rows st = put_out (concat (map (txt st) rows)) st"
proof (induction rows arbitrary: st)
  case Nil
  show ?case by (simp add: put_out_Nil)
next
  case (Cons r rows)
  have "map (txt (put_out (txt st r) st)) rows = map (txt st) rows" using assms by simp
  then show ?case unfolding fold_simps Cons.IH put_out_put by (simp only: list.map concat.simps)
qed

lemma put_out_simps [simp]: "opts (put_out s st) = opts st" "emulation (put_out s st) = emulation st"
  "isset (put_out s st) k = isset st k"
  by (simp_all add: put_out_def isset_def)

text \<open>What \<open>setopt\<close> (\<open>val\<close>) or \<open>unsetopt\<close> prints of a row.\<close>

fun list_text :: "bool \<Rightarrow> 'w optst \<Rightarrow> string \<times> 32 word \<times> int \<Rightarrow> string" where
  "list_text val st (s, f, k) =
     (let def = (f AND emulation st \<noteq> 0); v = opts st \<bar>k\<bar>
      in if isset st KSHOPTIONPRINT then ksh_line s def (v \<noteq> 0)
         else if of_bool val = xor v (of_bool def)
         then (if xor (of_bool val) v \<noteq> 0 then ''no'' else []) @ s @ newline else [])"

lemma printoptionnode_row:
  assumes "row_node n \<in> set optns"
  shows "printoptionnode val n st = Some (put_out (list_text val st (row_node n)) st)"
proof -
  have "aget (opts st) \<bar>body n\<bar> = Some (opts st \<bar>body n\<bar>)" using row_of_node(2) [OF assms] by (simp add: aget_def)
  then show ?thesis by (simp add: printoptionnode_def row_node_def Let_def defset_def put_out_Nil)
qed

definition not_alias :: "string \<times> 32 word \<times> int \<Rightarrow> bool" where
  "not_alias r \<longleftrightarrow> fst (snd r) AND OPT_ALIAS = 0"

lemma wanted_not_alias: "wanted_row None 0 OPT_ALIAS = not_alias"
  by (rule ext) (simp add: not_alias_def split_paired_all)

lemma setopt_listing:
  assumes T: "opt_table ht cs" and q: "\<forall>c xs. mset (sorter S c xs) = mset xs"
  shows "\<exists>rows. bin_setopt S ht [] isun st = Some (0, put_out (concat (map (list_text (\<not> isun) st) rows)) st) \<and>
    mset rows = mset (filter not_alias optns)"
proof -
  have tx: "list_text v (put_out s x) r = list_text v x r" for v s r and x :: "'a optst"
    by (cases r) simp
  obtain rows where r: "scan_options S None True 0 OPT_ALIAS (printoptionnode (\<not> isun)) ht st =
      Some (fold (\<lambda>r x. put_out (list_text (\<not> isun) x r) x) rows st)" "mset rows = mset (filter not_alias optns)"
    using scan_options_rows [OF T q, where f = "printoptionnode (\<not> isun)" and g = "\<lambda>r x. put_out (list_text (\<not> isun) x r) x"
        and ?flags1.0 = 0 and ?flags2.0 = OPT_ALIAS and pprog = None and srt = True and st = st]
    unfolding wanted_not_alias using printoptionnode_row by blast
  have "fold (\<lambda>r x. put_out (list_text (\<not> isun) x r) x) rows st = put_out (concat (map (list_text (\<not> isun) st) rows)) st"
    by (rule fold_print) (rule tx)
  then show ?thesis using r by (auto simp: bin_setopt_def)
qed

text \<open>Option values are 0 and 1 (2 only while the shell starts).\<close>

definition settled :: "'w optst \<Rightarrow> bool" where
  "settled st \<longleftrightarrow> (\<forall>k. opts st k = 0 \<or> opts st k = 1)"

text \<open>An option that is not as the emulation has it, and the word for it.\<close>

definition changed :: "'w optst \<Rightarrow> string \<times> 32 word \<times> int \<Rightarrow> bool" where
  "changed st r \<longleftrightarrow> isset st (snd (snd r)) \<noteq> (fst (snd r) AND emulation st \<noteq> 0)"

definition setting :: "'w optst \<Rightarrow> string \<times> 32 word \<times> int \<Rightarrow> string" where
  "setting st r = (if isset st (snd (snd r)) then fst r else ''no'' @ fst r)"

lemma in_optns: "(s, f, k) \<in> set optns \<Longrightarrow> k \<noteq> 0 \<and> \<bar>k\<bar> < OPT_SIZE \<and> (f AND OPT_ALIAS = 0 \<longrightarrow> 0 < k) \<and> opt_norm s = s"
  using row_index [of "(s, f, k)"] row_okD by metis

lemma list_text_setopt:
  assumes "settled st" "\<not> isset st KSHOPTIONPRINT" "r \<in> set optns" "not_alias r"
  shows "list_text True st r = (if changed st r then setting st r @ newline else [])"
proof -
  obtain s f k where r: "r = (s, f, k)" by (cases r) auto
  have k: "\<bar>k\<bar> = k" using assms(3,4) in_optns [of s f k] r by (auto simp: not_alias_def)
  have v: "opts st k = 0 \<or> opts st k = 1" using assms(1) by (simp add: settled_def)
  then show ?thesis
    using assms(2) by (cases "f AND emulation st = 0") (auto simp: r k changed_def setting_def isset_def)
qed

lemma concat_if: "concat (map (\<lambda>r. if P r then t r else []) rs) = concat (map t (filter P rs))"
  by (induction rs) simp_all

section \<open>Lists of names\<close>

definition plain_option :: "int \<Rightarrow> bool" where
  "plain_option k \<longleftrightarrow> 0 < k \<and> k < OPT_SIZE \<and> k \<notin> guarded \<and> k \<notin> {PRIVILEGED, EMACSMODE, VIMODE}"

lemma set_option_plain:
  assumes "k \<notin> guarded" "k \<noteq> PRIVILEGED" "k \<noteq> EMACSMODE" "k \<noteq> VIMODE"
  shows "set_option S k v force p st = store_opt p k v
    (if k = SUNKEYBOARDHACK then st\<lparr>keyboardhackchar := (if v then CHR 0x60 else NUL)\<rparr> else st)"
proof -
  have "k \<noteq> EXECOPT" "k \<noteq> INTERACTIVE" "k \<noteq> SHINSTDIN" "k \<noteq> SINGLECOMMAND" "k \<noteq> USEZLE" "k \<noteq> MONITOR"
    using assms(1) by (auto simp: guarded_def)
  with assms(2-) show ?thesis
    unfolding set_option_def
    by (simp only: simp_thms if_False split: if_split) (cases "k = SUNKEYBOARDHACK"; simp)
qed

lemma dosetopt_plain:
  assumes "plain_option \<bar>n\<bar>"
  shows "\<exists>st'. dosetopt S n value force Opts st = Some (0, st') \<and> opts st' = (opts st)(\<bar>n\<bar> := of_bool ((0 < n) = value))"
proof -
  let ?v = "if n < 0 then \<not> value else value"
  have n: "n \<noteq> 0" "\<bar>n\<bar> < OPT_SIZE" "\<bar>n\<bar> \<notin> guarded" "\<bar>n\<bar> \<notin> {PRIVILEGED, EMACSMODE, VIMODE}"
    using assms by (auto simp: plain_option_def)
  have so: "store_opt Opts \<bar>n\<bar> ?v s = Some (0, store_result Opts \<bar>n\<bar> ?v s)" for s
    using store_opt_some [OF abs_ge_zero n(2)] .
  have "dosetopt S n value force Opts st = set_option S \<bar>n\<bar> ?v force Opts st" using n(1) by (simp add: dosetopt_def)
  also have "\<dots> = Some (0, store_result Opts \<bar>n\<bar> ?v
      (if \<bar>n\<bar> = SUNKEYBOARDHACK then st\<lparr>keyboardhackchar := (if ?v then CHR 0x60 else NUL)\<rparr> else st))"
    unfolding so [symmetric] by (rule set_option_plain [OF n(3)]) (use n(4) in simp_all)
  finally obtain s where s: "dosetopt S n value force Opts st = Some (0, store_result Opts \<bar>n\<bar> ?v s)" "arr Opts s = arr Opts st"
    by (cases "\<bar>n\<bar> = SUNKEYBOARDHACK") (simp_all add: arr_def)
  have "opts (store_result Opts \<bar>n\<bar> ?v s) = (opts st)(\<bar>n\<bar> := of_bool ((0 < n) = value))"
  proof -
    have "?v = ((0 < n) = value)" using n(1) by auto
    then show ?thesis using arr_store [of Opts Opts "\<bar>n\<bar>" ?v s] s(2) by (simp add: arr_def)
  qed
  then show ?thesis using s(1) by blast
qed

lemma named_option_plain:
  assumes "optlookup ht w = Some n" "plain_option \<bar>n\<bar>"
  shows "\<exists>st'. named_option S ht value w (rv, st) = Some (rv, st') \<and> opts st' = (opts st)(\<bar>n\<bar> := of_bool ((0 < n) = value))"
proof -
  have "n \<noteq> 0" using assms(2) by (auto simp: plain_option_def)
  then show ?thesis using dosetopt_plain [OF assms(2), of S "value" False st] assms(1) by (auto simp: named_option_def)
qed

lemma setopt_names_plain:
  "(\<And>w. w \<in> set ws \<Longrightarrow> optlookup ht w = Some (num w) \<and> plain_option \<bar>num w\<bar>) \<Longrightarrow>
   \<exists>st'. setopt_names S ht isun ws (rv, st) = Some (rv, st') \<and>
     opts st' = fold (\<lambda>w a. a(\<bar>num w\<bar> := of_bool ((0 < num w) \<noteq> isun))) ws (opts st)"
proof (induction ws arbitrary: st)
  case (Cons w ws)
  obtain t where t: "named_option S ht (\<not> isun) w (rv, st) = Some (rv, t)"
    "opts t = (opts st)(\<bar>num w\<bar> := of_bool ((0 < num w) \<noteq> isun))"
    using named_option_plain [of ht w "num w" S "\<not> isun" rv st] Cons.prems [of w] by auto
  obtain u where "setopt_names S ht isun ws (rv, t) = Some (rv, u)"
    "opts u = fold (\<lambda>w a. a(\<bar>num w\<bar> := of_bool ((0 < num w) \<noteq> isun))) ws (opts t)"
    using Cons.IH [of t] Cons.prems by (auto simp del: fun_upd_apply)
  with t show ?case by (simp del: fun_upd_apply)
qed simp

end
