(* ===== verification/Opt_Total.thy ===== *)
theory Opt_Total
  imports Opt_List
begin

text \<open>
  The builtins \<open>setopt\<close> and \<open>unsetopt\<close> return on every list of arguments, with status 0 or 1,
  and leave every option 0 or 1; the letters of \<open>$-\<close>.
\<close>

section \<open>Option values\<close>

lemma settled_upd: "settled st \<Longrightarrow> v = 0 \<or> v = 1 \<Longrightarrow> settled (upd_arr p k v st)"
  by (cases p) (simp_all add: settled_def upd_arr_def del: put_arr_simps)

lemma settled_store: "settled st \<Longrightarrow> settled (store_result p k v st)"
  using settled_upd [of st "of_bool v" p k] by (simp add: store_result_def Let_def settled_def inittyptab_def)

lemma settled_opts: "opts st' = opts st \<Longrightarrow> settled st \<Longrightarrow> settled st'"
  by (simp add: settled_def)

lemma settled_simps [simp]: "settled (put_out s st) = settled st" "settled (zwarn_opt m st) = settled st"
  "settled (inittyptab st) = settled st"
  by (simp_all add: settled_def put_out_def zwarn_opt_def inittyptab_def)

lemma sets_settled: "sets S k v force p st r st' \<Longrightarrow> settled st \<Longrightarrow> settled st'"
proof (induction rule: sets.induct)
  case (keep_priv st')
  then show ?case using drop_privileges_arr [of Opts S st] settled_opts [of st' st] by (simp add: arr_def)
next
  case (lose_priv st')
  then have "settled st'" using drop_privileges_arr [of Opts S st] settled_opts [of st' st] by (simp add: arr_def)
  then show ?case by (rule settled_store)
next
  case job_control
  then have "settled (take_pgrp S st)" by (auto simp: take_pgrp_def settled_def Let_def split: prod.split)
  then show ?case by (rule settled_store)
next
  case (zle_mode w)
  then show ?case by (intro settled_store settled_upd) (simp_all add: settled_def)
next
  case (plain c)
  then show ?case by (intro settled_store) (simp add: settled_def)
qed simp_all

lemma dosetopt_settled:
  assumes "\<bar>n\<bar> < OPT_SIZE"
  shows "\<exists>r st'. dosetopt S n v force p st = Some (r, st') \<and> (settled st \<longrightarrow> settled st')"
proof (cases "n = 0")
  case True
  then show ?thesis by (simp add: dosetopt_def)
next
  case False
  then show ?thesis using dosetopt_sets [OF False assms, of S v force p st] sets_settled by metis
qed

section \<open>The loops of the builtin\<close>

text \<open>A status of the builtin and a state in order.\<close>

definition fine :: "int \<times> 'w optst \<Rightarrow> bool" where
  "fine s \<longleftrightarrow> (fst s = 0 \<or> fst s = 1) \<and> settled (snd s)"

lemma optlookup_bound:
  assumes T: "opt_table ht cs"
  shows "\<exists>n. optlookup ht nm = Some n \<and> \<bar>n\<bar> < OPT_SIZE"
proof (cases "opt_norm nm \<in> set opt_names")
  case True
  then obtain f k where r: "(opt_norm nm, f, k) \<in> set optns" using opt_names_row by blast
  then show ?thesis using optlookup_name [OF T r refl] in_optns [OF r] by simp
next
  case False
  show ?thesis
  proof (cases "\<exists>s \<in> set opt_names. opt_norm nm = ''no'' @ s")
    case True
    then obtain s f k where r: "(s, f, k) \<in> set optns" "opt_norm nm = ''no'' @ s" using opt_names_row by blast
    then show ?thesis using optlookup_no_name [OF T r] in_optns [OF r(1)] by simp
  next
    case no: False
    have "optlookup ht nm = Some 0" by (rule optlookup_unknown [OF T False]) (use no in blast)
    then show ?thesis by simp
  qed
qed

lemma named_option_fine:
  assumes T: "opt_table ht cs" and s: "fine s"
  shows "\<exists>s'. named_option S ht v arg s = Some s' \<and> fine s'"
proof -
  obtain rv st where e: "s = (rv, st)" by (cases s)
  obtain n where n: "optlookup ht arg = Some n" "\<bar>n\<bar> < OPT_SIZE" using optlookup_bound [OF T] by blast
  obtain r st' where "dosetopt S n v False Opts st = Some (r, st')" "settled st \<longrightarrow> settled st'"
    using dosetopt_settled [OF n(2)] by blast
  then show ?thesis using s n(1) by (auto simp: named_option_def e fine_def)
qed

lemma letters_facts: "length bshletters = 74" "length kshletters = 74"
  "\<forall>k \<in> set bshletters. \<bar>k\<bar> < OPT_SIZE" "\<forall>k \<in> set kshletters. \<bar>k\<bar> < OPT_SIZE"
  by code_simp+

lemma optletters_bound: "i < 74 \<Longrightarrow> \<bar>optletters st ! i\<bar> < OPT_SIZE"
  using letters_facts nth_mem [of i bshletters] nth_mem [of i kshletters] by (auto simp: optletters_def)

lemma optlookupc_bound: "\<bar>optlookupc st c\<bar> < OPT_SIZE"
proof (cases "schar c < FIRST_OPT \<or> LAST_OPT < schar c")
  case False
  then have "nat (schar c - FIRST_OPT) < 74" by (auto simp: FIRST_OPT_def LAST_OPT_def)
  then show ?thesis using optletters_bound False by (simp add: optlookupc_def)
qed (simp add: optlookupc_def)

lemma letter_option_fine:
  assumes s: "fine s"
  shows "\<exists>s'. letter_option S v c s = Some s' \<and> fine s'"
proof -
  obtain rv st where e: "s = (rv, st)" by (cases s)
  obtain r st' where "dosetopt S (optlookupc st c) v False Opts st = Some (r, st')" "settled st \<longrightarrow> settled st'"
    using dosetopt_settled [OF optlookupc_bound] by blast
  then show ?thesis using s by (auto simp: letter_option_def e fine_def Let_def)
qed

text \<open>A metafied string: every \<open>Meta\<close> is followed by a byte.\<close>

fun meta_ok :: "string \<Rightarrow> bool" where
  "meta_ok [] = True"
| "meta_ok [c] = (c \<noteq> CHR 0x83)"
| "meta_ok (c # d # ds) = (if c = CHR 0x83 then meta_ok ds else meta_ok (d # ds))"

lemma meta_ok_tl: "meta_ok (c # s) \<Longrightarrow> c \<noteq> CHR 0x83 \<Longrightarrow> meta_ok s"
  by (cases s) simp_all

text \<open>What the characters of one argument leave: fewer arguments, a state in order.\<close>

definition fine_flow :: "string list \<Rightarrow> (string list \<times> bool \<times> int \<times> 'w optst) flow \<Rightarrow> bool" where
  "fine_flow args fl \<longleftrightarrow> (case fl of
       Next (as, _, s) \<Rightarrow> fine s \<and> length as \<le> length args \<and> set as \<subseteq> set args
     | Stop (as, _, s) \<Rightarrow> fine s \<and> length as \<le> length args \<and> set as \<subseteq> set args
     | Give_up (_, _, s) \<Rightarrow> fine s)"

lemma setopt_char_fine:
  assumes T: "opt_table ht cs" and s: "fine (snd ms)"
  shows "\<exists>r. setopt_char S ht action c cs' args ms = Some r \<and>
    (case r of Inl fl \<Rightarrow> fine_flow args fl | Inr ms' \<Rightarrow> fine (snd ms'))"
proof -
  obtain m s where e: "ms = (m, s)" by (cases ms)
  have f: "fine s" using assms e by simp
  consider (dash) "c = CHR ''-''" | (o) "c \<noteq> CHR ''-''" "c = CHR ''o''" | (m) "c \<noteq> CHR ''-''" "c \<noteq> CHR ''o''" "c = CHR ''m''"
    | (other) "c \<noteq> CHR ''-''" "c \<noteq> CHR ''o''" "c \<noteq> CHR ''m''" by blast
  then show ?thesis
  proof cases
    case dash
    then show ?thesis using f by (simp add: setopt_char_def e fine_flow_def)
  next
    case o
    show ?thesis
    proof (cases "if cs' = [] then args else cs' # args")
      case Nil
      then show ?thesis using o f by (cases s) (auto simp: setopt_char_def e fine_flow_def fine_def split: if_splits)
    next
      case (Cons a as)
      have as: "length as \<le> length args" "set as \<subseteq> set args" using Cons by (auto split: if_splits)
      obtain s' where "named_option S ht action a s = Some s'" "fine s'" using named_option_fine [OF T f] by blast
      then show ?thesis using o Cons as unfolding setopt_char_def e by (simp add: fine_flow_def)
    qed
  next
    case m
    then show ?thesis using f by (simp add: setopt_char_def e)
  next
    case other
    obtain s' where "letter_option S action c s = Some s'" "fine s'" using letter_option_fine [OF f] by blast
    then show ?thesis using other by (simp add: setopt_char_def e)
  qed
qed

lemma setopt_chars_fine:
  assumes T: "opt_table ht cs"
  shows "meta_ok s \<Longrightarrow> fine (snd ms) \<Longrightarrow> \<exists>fl. setopt_chars S ht action s args ms = Some fl \<and> fine_flow args fl"
proof (induction s arbitrary: ms rule: meta_ok.induct)
  case 1
  then show ?case by (cases ms) (simp add: fine_flow_def)
next
  case (2 c)
  from setopt_char_fine [OF T 2(2), of S action c "[]" args] obtain r where
    r: "setopt_char S ht action c [] args ms = Some r"
    "case r of Inl fl \<Rightarrow> fine_flow args fl | Inr ms' \<Rightarrow> fine (snd ms')" by blast
  with 2(1) show ?case by (cases r) (auto simp: fine_flow_def split: prod.split)
next
  case (3 c d ds)
  show ?case
  proof (cases "c = CHR 0x83")
    case True
    from setopt_char_fine [OF T 3(4), of S action "unmeta d" ds args] obtain r where
      r: "setopt_char S ht action (unmeta d) ds args ms = Some r"
      "case r of Inl fl \<Rightarrow> fine_flow args fl | Inr ms' \<Rightarrow> fine (snd ms')" by blast
    show ?thesis
    proof (cases r)
      case (Inl fl)
      with r True show ?thesis by simp
    next
      case (Inr ms')
      with r True 3(1) [OF True, of ms'] 3(3) show ?thesis by simp
    qed
  next
    case False
    from setopt_char_fine [OF T 3(4), of S action c "d # ds" args] obtain r where
      r: "setopt_char S ht action c (d # ds) args ms = Some r"
      "case r of Inl fl \<Rightarrow> fine_flow args fl | Inr ms' \<Rightarrow> fine (snd ms')" by blast
    show ?thesis
    proof (cases r)
      case (Inl fl)
      with r False show ?thesis by simp
    next
      case (Inr ms')
      with r False 3(2) [OF False, of ms'] 3(3) show ?thesis by simp
    qed
  qed
qed

lemma setopt_opts_fine:
  assumes T: "opt_table ht cs"
  shows "\<forall>a \<in> set args. meta_ok a \<Longrightarrow> fine (snd ms) \<Longrightarrow>
    \<exists>fl. setopt_opts S ht isun args ms = Some fl \<and> (case fl of Next _ \<Rightarrow> False | Stop (_, _, s) \<Rightarrow> fine s | Give_up (_, _, s) \<Rightarrow> fine s)"
proof (induction "length args" arbitrary: args ms rule: less_induct)
  case less
  obtain m s where ms: "ms = (m, s)" by (cases ms)
  show ?case
  proof (cases args)
    case Nil
    then show ?thesis using less.prems(2) ms by simp
  next
    case (Cons arg rest)
    let ?c = "nth_chr arg 0"
    show ?thesis
    proof (cases "?c = CHR ''-'' \<or> ?c = CHR ''+''")
      case False
      then show ?thesis using less.prems(2) ms Cons by simp
    next
      case True
      then obtain c cs' where a: "arg = c # cs'" by (cases arg) (auto simp: nth_chr_def NUL_def)
      then have c: "?c = c" by (simp add: nth_chr_def)
      have "c \<noteq> CHR 0x83" using True c by auto
      moreover have "meta_ok (c # cs')" using less.prems(1) Cons a by simp
      ultimately have "meta_ok cs'" by (rule meta_ok_tl [rotated])
      then have "meta_ok (if tl arg = [] then ''-'' else tl arg)" using a by simp
      from setopt_chars_fine [OF T this less.prems(2), of S "(?c = CHR ''-'') \<noteq> isun" rest] obtain fl where
        fl: "setopt_chars S ht ((?c = CHR ''-'') \<noteq> isun) (if tl arg = [] then ''-'' else tl arg) rest ms = Some fl" "fine_flow rest fl"
        by blast
      show ?thesis
      proof (cases fl)
        case (Next x)
        obtain as m' s' where x: "x = (as, m', s')" by (cases x)
        have l: "length as \<le> length rest" "set as \<subseteq> set rest" "fine s'" using fl(2) Next x by (simp_all add: fine_flow_def)
        have "length as < length args" "\<forall>a \<in> set as. meta_ok a" using l Cons less.prems(1) by auto
        from less.hyps [OF this, of "(m', s')"] l(3) obtain fl' where
          "setopt_opts S ht isun as (m', s') = Some fl'"
          "case fl' of Next _ \<Rightarrow> False | Stop (_, _, s) \<Rightarrow> fine s | Give_up (_, _, s) \<Rightarrow> fine s" by auto
        then show ?thesis using True fl(1) Next x l(1) Cons ms by (simp add: Let_def)
      next
        case (Stop x)
        then show ?thesis using True fl Cons ms by (cases x) (simp add: Let_def fine_flow_def)
      next
        case (Give_up x)
        then show ?thesis using True fl Cons ms by (cases x) (simp add: Let_def fine_flow_def)
      qed
    qed
  qed
qed

lemma setopt_names_fine:
  assumes T: "opt_table ht cs"
  shows "fine s \<Longrightarrow> \<exists>s'. setopt_names S ht isun args s = Some s' \<and> fine s'"
proof (induction args arbitrary: s)
  case (Cons a as)
  obtain t where "named_option S ht (\<not> isun) a s = Some t" "fine t" using named_option_fine [OF T Cons.prems] by blast
  with Cons.IH [of t] show ?case by simp
qed simp

lemma setopt_patterns_fine:
  assumes T: "opt_table ht cs" and q: "\<forall>c xs. mset (sorter S c xs) = mset xs"
  shows "fine s \<Longrightarrow> \<exists>s'. setopt_patterns S ht isun args s = Some s' \<and> fine s'"
proof (induction args arbitrary: s)
  case (Cons a as)
  obtain rv st where s: "s = (rv, st)" by (cases s)
  show ?case
  proof (cases "patprog S (opt_norm a)")
    case None
    then show ?thesis using Cons.prems s by (simp add: fine_def)
  next
    case (Some p)
    define g where "g r x = snd (the (dosetopt S (snd (snd r)) (\<not> isun) False Opts x))" for r :: "string \<times> 32 word \<times> int" and x
    have f: "setoption S (\<not> isun) n x = Some (g (row_node n) x)" if "row_node n \<in> set optns" for n x
      using dosetopt_settled [OF row_of_node(2) [OF that], of S "\<not> isun" False Opts x]
      by (auto simp: setoption_def g_def row_node_def)
    obtain rows where r: "scan_options S (Some p) False 0 OPT_ALIAS (setoption S (\<not> isun)) ht st = Some (fold g rows st)"
      "mset rows = mset (filter (wanted_row (Some p) 0 OPT_ALIAS) optns)"
      using scan_options_rows [OF T q, where f = "setoption S (\<not> isun)" and g = g and pprog = "Some p" and ?flags1.0 = 0
          and ?flags2.0 = OPT_ALIAS and srt = False and st = st] f by blast
    have g: "settled (g (s', f', k) x)" if "(s', f', k) \<in> set optns" "settled x" for s' f' k x
      using dosetopt_settled [of k S "\<not> isun" False Opts x] in_optns [OF that(1)] that(2) by (auto simp: g_def)
    have "set rows \<subseteq> set optns" using mset_eq_setD [OF r(2)] by auto
    then have "settled x \<Longrightarrow> settled (fold g rows x)" for x
    proof (induction rows arbitrary: x)
      case (Cons r rows)
      then show ?case using g by (cases r) simp
    qed simp
    then have "fine (rv, fold g rows st)" using Cons.prems s by (simp add: fine_def)
    from Cons.IH [OF this] show ?thesis using Some r(1) s by simp
  qed
qed simp

lemma bin_setopt_fine:
  assumes T: "opt_table ht cs" and q: "\<forall>c xs. mset (sorter S c xs) = mset xs"
    and a: "\<forall>a \<in> set args. meta_ok a" and st: "settled st"
  shows "\<exists>s. bin_setopt S ht args isun st = Some s \<and> fine s"
proof (cases "args = []")
  case True
  then show ?thesis using setopt_listing [OF T q, of isun st] st by (auto simp: fine_def)
next
  case False
  have "fine (snd (False, (0 :: int), st))" using st by (simp add: fine_def)
  from setopt_opts_fine [OF T a this, of S isun] obtain fl where
    fl: "setopt_opts S ht isun args (False, 0, st) = Some fl"
    "case fl of Next _ \<Rightarrow> False | Stop (_, _, s) \<Rightarrow> fine s | Give_up (_, _, s) \<Rightarrow> fine s" by blast
  show ?thesis
  proof (cases fl)
    case (Stop x)
    obtain as m s where x: "x = (as, m, s)" by (cases x)
    have "\<exists>s'. (if m then setopt_patterns else setopt_names) S ht isun as s = Some s' \<and> fine s'"
      using setopt_patterns_fine [OF T q, of s isun as] setopt_names_fine [OF T, of s S isun as] fl(2) Stop x by (cases m) simp_all
    then obtain rv st' where "(if m then setopt_patterns else setopt_names) S ht isun as s = Some (rv, st')" "fine (rv, st')" by auto
    then show ?thesis using fl(1) Stop x False by (simp add: bin_setopt_def fine_def)
  qed (use fl False in \<open>auto simp: bin_setopt_def split: prod.splits\<close>)
qed

section \<open>The letters of \<open>$-\<close>\<close>

lemma those_map_Some: "those (map Some xs) = Some xs"
  by (induction xs) simp_all

definition letter_on :: "'w optst \<Rightarrow> int \<Rightarrow> bool" where
  "letter_on st k \<longleftrightarrow> k \<noteq> 0 \<and> (0 < k) = isset st \<bar>k\<bar>"

lemma dashgetfn_letters:
  "dashgetfn st = Some (map (\<lambda>i. char_of (48 + i)) (filter (\<lambda>i. letter_on st (optletters st ! i)) [0..<74]))"
proof -
  have one: "(let optno = optletters st ! i in if optno = 0 then []
       else (case aget (opts st) \<bar>optno\<bar> of None \<Rightarrow> [None]
             | Some v \<Rightarrow> if (0 < optno) = (v \<noteq> 0) then [Some (char_of (48 + i))] else [])) =
     map (\<lambda>i. Some (char_of (48 + i) :: char)) (if letter_on st (optletters st ! i) then [i] else [])"
    if "i < 74" for i
    using optletters_bound [OF that, of st] by (simp add: Let_def aget_def letter_on_def isset_def)
  have "concat (map (\<lambda>i. let optno = optletters st ! i in if optno = 0 then []
       else (case aget (opts st) \<bar>optno\<bar> of None \<Rightarrow> [None]
             | Some v \<Rightarrow> if (0 < optno) = (v \<noteq> 0) then [Some (char_of (48 + i))] else [])) is) =
     map (\<lambda>i. Some (char_of (48 + i) :: char)) (filter (\<lambda>i. letter_on st (optletters st ! i)) is)"
    if "set is \<subseteq> {..<74}" for "is"
    using that
  proof (induction "is")
    case (Cons i js)
    then show ?case using one [of i] by (simp only: list.map concat.simps filter.simps) simp
  qed simp
  from this [of "[0..<74]"] show ?thesis
    unfolding dashgetfn_def using those_map_Some [of "map (\<lambda>i. char_of (48 + i)) (filter (\<lambda>i. letter_on st (optletters st ! i)) [0..<74])"]
    by (simp add: o_def atLeast0LessThan del: upt.simps)
qed

lemma schar_nat: "schar c = (if (of_char c :: nat) < 128 then int (of_char c) else int (of_char c) - 256)"
  unfolding schar_def of_nat_of_char [symmetric, where ?'a = int] by simp

lemma of_char_bound: "(of_char c :: nat) < 256"
  by (cases c) (simp add: of_char_def)

lemma letter_index:
  assumes "i < 74"
  shows "optlookupc st (char_of (48 + i)) = optletters st ! i"
proof -
  have "(of_char (char_of (48 + i) :: char) :: nat) = 48 + i" using assms by simp
  then have "schar (char_of (48 + i)) = 48 + int i" using assms unfolding schar_nat by simp
  then show ?thesis using assms by (simp add: optlookupc_def FIRST_OPT_def LAST_OPT_def)
qed

lemma letter_of: "optlookupc st c \<noteq> 0 \<Longrightarrow> \<exists>i < (74 :: nat). c = char_of (48 + i)"
proof -
  assume "optlookupc st c \<noteq> 0"
  then have b: "48 \<le> schar c" "schar c \<le> 121" by (auto simp: optlookupc_def FIRST_OPT_def LAST_OPT_def split: if_splits)
  then have "(48 :: nat) \<le> of_char c \<and> of_char c \<le> (121 :: nat)"
    using of_char_bound [of c] unfolding schar_nat by (cases "(of_char c :: nat) < 128") simp_all
  then have "(of_char c :: nat) - 48 < 74" "48 + ((of_char c :: nat) - 48) = of_char c" by linarith+
  moreover have "c = char_of (of_char c :: nat)" by simp
  ultimately have "of_char c - 48 < (74 :: nat)" "c = char_of (48 + (of_char c - 48 :: nat))" by (simp_all only:)
  then show ?thesis by blast
qed

end
