(* ===== verification/Opt_Props.thy ===== *)
theory Opt_Props
  imports Opt_Total
begin

text \<open>
  The properties of the shell's options (\<open>Src/options.c\<close>), with a small kernel and shell for
  the witnesses.
\<close>

section \<open>A small system\<close>

text \<open>User ids as POSIX has them: the superuser may take any, others one they have.\<close>

definition may_uid :: "creds \<Rightarrow> int \<Rightarrow> bool" where
  "may_uid c i \<longleftrightarrow> euid c = 0 \<or> i \<in> {ruid c, euid c, suid c}"

definition may_gid :: "creds \<Rightarrow> int \<Rightarrow> bool" where
  "may_gid c i \<longleftrightarrow> euid c = 0 \<or> i \<in> {rgid c, egid c, sgid c}"

definition demo_sys :: "creds optsys" where
  "demo_sys =
     \<lparr>have_setresgid = True, have_setresuid = True, use_initgroups = True,
      getuid = ruid, geteuid = euid, getgid = rgid, getegid = egid,
      setresgid = (\<lambda>r e s c. if may_gid c r \<and> may_gid c e \<and> may_gid c s
                             then (True, c\<lparr>rgid := r, egid := e, sgid := s\<rparr>) else (False, c)),
      setresuid = (\<lambda>r e s c. if may_uid c r \<and> may_uid c e \<and> may_uid c s
                             then (True, c\<lparr>ruid := r, euid := e, suid := s\<rparr>) else (False, c)),
      setgid = (\<lambda>i c. if euid c = 0 then (True, c\<lparr>rgid := i, egid := i, sgid := i\<rparr>)
                      else if may_gid c i then (True, c\<lparr>egid := i\<rparr>) else (False, c)),
      setegid = (\<lambda>i c. if may_gid c i then (True, c\<lparr>egid := i\<rparr>) else (False, c)),
      setuid = (\<lambda>i c. if euid c = 0 then (True, c\<lparr>ruid := i, euid := i, suid := i\<rparr>)
                      else if may_uid c i then (True, c\<lparr>euid := i\<rparr>) else (False, c)),
      seteuid = (\<lambda>i c. if may_uid c i then (True, c\<lparr>euid := i\<rparr>) else (False, c)),
      getpwuid = (\<lambda>i c. if i = 1000 then Some ''user'' else None),
      initgroups = (\<lambda>n g c. (euid c = 0, c)),
      getpgrp = (\<lambda>c. 17), acquire_pgrp = (\<lambda>c. (True, c)), zle_set_keymap = (\<lambda>k c. c),
      patprog = (\<lambda>s. Some (\<lambda>t. t = s)), sorter = (\<lambda>c xs. xs)\<rparr>"

text \<open>A setuid shell: real user 1000 in group 100, running as the superuser.\<close>

definition demo_creds :: creds where
  "demo_creds = \<lparr>ruid = 1000, euid = 0, suid = 0, rgid = 100, egid = 0, sgid = 0\<rparr>"

definition demo_st :: "creds optst" where
  "demo_st = \<lparr>opts = (\<lambda>k. if k = PRIVILEGED \<or> k = EXTENDEDGLOB then 1 else 0), new_opts = (\<lambda>_. 0), emulation = EMULATE_BSH,
     sticky = None, funcstack = None, shf_flags = Map.empty, SHTTY = 10, shout = True, origpgrp = 17,
     keyboardhackchar = NUL, zle_load_state = 0, typtab_opts = (\<lambda>_. 0), out = [], warns = [], world = demo_creds\<rparr>"

lemma demo_sorter: "\<forall>c xs. mset (sorter demo_sys c xs) = mset xs"
  by (simp add: demo_sys_def)

lemma demo_laws: "cred_laws demo_sys id"
  by (auto simp: cred_laws_def demo_sys_def split: if_splits)

section \<open>Names\<close>

text \<open>C35: Every spelling of an option's name (any case, underscores anywhere) is found in the
  table the shell builds, the same with a leading \<open>no\<close> gives the opposite sense, and nothing
  else is an option: \<open>optlookup\<close> on \<open>createoptiontable\<close>, through the hash table and its
  expansions, is the lookup in \<open>optns\<close>.\<close>

theorem option_names:
  "\<exists>ht. createoptiontable = Some ht \<and>
    (\<forall>(s, f, k) \<in> set optns. \<forall>nm.
       (opt_norm nm = s \<longrightarrow> optlookup ht nm = Some k) \<and>
       (opt_norm nm = ''no'' @ s \<longrightarrow> optlookup ht nm = Some (- k))) \<and>
    (\<forall>nm. opt_norm nm \<notin> set (map fst optns) \<longrightarrow> (\<forall>s \<in> set (map fst optns). opt_norm nm \<noteq> ''no'' @ s) \<longrightarrow>
       optlookup ht nm = Some 0)"
proof -
  obtain ht cs where T: "createoptiontable = Some ht" "opt_table ht cs" using createoptiontable_spec by blast
  have "\<forall>(s, f, k) \<in> set optns. \<forall>nm.
       (opt_norm nm = s \<longrightarrow> optlookup ht nm = Some k) \<and> (opt_norm nm = ''no'' @ s \<longrightarrow> optlookup ht nm = Some (- k))"
    using optlookup_name [OF T(2)] optlookup_no_name [OF T(2)] by blast
  moreover have "\<forall>nm. opt_norm nm \<notin> set (map fst optns) \<longrightarrow> (\<forall>s \<in> set (map fst optns). opt_norm nm \<noteq> ''no'' @ s) \<longrightarrow>
       optlookup ht nm = Some 0"
    using optlookup_unknown [OF T(2)] unfolding opt_names_def by blast
  ultimately show ?thesis using T(1) by blast
qed

lemma in_table: "(''extendedglob'', OPT_EMULATE, EXTENDEDGLOB) \<in> set optns" "(''errexit'', OPT_EMULATE, ERREXIT) \<in> set optns"
  "(''shwordsplit'', OPT_EMULATE OR OPT_BOURNE, SHWORDSPLIT) \<in> set optns"
  by (simp_all add: optns_def)

theorem option_names_witness:
  "\<exists>ht. createoptiontable = Some ht \<and> optlookup ht ''NO_Extended_Glob'' = Some (- EXTENDEDGLOB) \<and>
    optlookup ht ''ErrExit'' = Some ERREXIT"
proof -
  have n: "opt_norm ''NO_Extended_Glob'' = ''no'' @ ''extendedglob''" "opt_norm ''ErrExit'' = ''errexit''"
    by code_simp+
  obtain ht where ht: "createoptiontable = Some ht"
    "\<forall>(s, f, k) \<in> set optns. \<forall>nm. (opt_norm nm = s \<longrightarrow> optlookup ht nm = Some k) \<and>
       (opt_norm nm = ''no'' @ s \<longrightarrow> optlookup ht nm = Some (- k))"
    using option_names by blast
  note b = bspec [OF ht(2) in_table(1), unfolded prod.case, THEN spec, of "''NO_Extended_Glob''"]
    bspec [OF ht(2) in_table(2), unfolded prod.case, THEN spec, of "''ErrExit''"]
  have "optlookup ht ''NO_Extended_Glob'' = Some (- EXTENDEDGLOB)" using b(1) n(1) by blast
  moreover have "optlookup ht ''ErrExit'' = Some ERREXIT" using b(2) n(2) by blast
  ultimately show ?thesis using ht(1) by blast
qed

section \<open>Emulations\<close>

text \<open>C37: \<open>emulate\<close> always succeeds.  It sets every option that belongs to the emulation (with
  \<open>-R\<close> every option that is not special) to that emulation's default, switches tracing on in
  a traced function, and leaves every other option as it was, in the array it was given and
  nowhere else.\<close>

theorem emulate_sets_defaults:
  fixes st :: "'w optst"
  assumes q: "\<forall>c xs. mset (sorter S c xs) = mset xs"
  shows "\<exists>ht. createoptiontable = Some ht \<and>
    (\<exists>st'. emulate S ht nm fully p st = Some (emulation_of nm OR (if fully then EMULATE_FULLY else 0), st') \<and>
      (\<forall>(s, f, k) \<in> set optns. emulated fully f \<longrightarrow> arr p st' k =
         (if k = XTRACE \<and> trace_function st then 1
          else of_bool (f AND (emulation_of nm OR (if fully then EMULATE_FULLY else 0)) \<noteq> 0))) \<and>
      (\<forall>j. (\<forall>(s, f, k) \<in> set optns. emulated fully f \<longrightarrow> k \<noteq> j) \<longrightarrow>
         arr p st' j = (if j = XTRACE \<and> trace_function st then 1 else arr p st j)) \<and>
      (\<forall>r. r \<noteq> p \<longrightarrow> arr r st' = arr r st) \<and> emulation st' = emulation st \<and> world st' = world st)"
proof -
  obtain ht cs where T: "createoptiontable = Some ht" "opt_table ht cs" using createoptiontable_spec by blast
  obtain a where a: "emulate S ht nm fully p st = Some (emulation_of nm OR (if fully then EMULATE_FULLY else 0), put_arr p a st)"
    "\<forall>(s, f, k) \<in> set optns. emulated fully f \<longrightarrow> a k =
       (if k = XTRACE \<and> trace_function st then 1
        else of_bool (f AND (emulation_of nm OR (if fully then EMULATE_FULLY else 0)) \<noteq> 0))"
    "\<forall>j. (\<forall>(s, f, k) \<in> set optns. emulated fully f \<longrightarrow> k \<noteq> j) \<longrightarrow>
       a j = (if j = XTRACE \<and> trace_function st then 1 else arr p st j)"
    using emulate_rows [OF T(2) q, of nm fully p st] by blast
  have f: "arr r (put_arr p a st) = arr r st" if "r \<noteq> p" for r
    using that by (cases r; cases p) (simp_all add: arr_def put_arr_def)
  have "emulation (put_arr p a st) = emulation st" "world (put_arr p a st) = world st"
    by (cases p; simp add: put_arr_def)+
  with a f T(1) show ?thesis by (intro exI [of _ ht] exI [of _ "put_arr p a st"] conjI) simp_all
qed

lemma privileged_kept: "\<forall>r \<in> set (map snd optns). emulated False (fst r) \<longrightarrow> snd r \<noteq> PRIVILEGED"
  by code_simp

theorem emulate_sets_defaults_witness:
  "\<exists>ht st'. createoptiontable = Some ht \<and> emulate demo_sys ht ''ksh'' False Opts demo_st = Some (EMULATE_KSH, st') \<and>
     isset st' SHWORDSPLIT \<and> \<not> isset st' EXTENDEDGLOB \<and> isset st' PRIVILEGED"
proof -
  have e: "emulation_of ''ksh'' = EMULATE_KSH" by code_simp
  have tr: "\<not> trace_function demo_st" by (simp add: trace_function_def demo_st_def)
  have none: "\<forall>(s, f, k) \<in> set optns. emulated False f \<longrightarrow> k \<noteq> PRIVILEGED"
    using privileged_kept by fastforce
  obtain ht st' where st': "createoptiontable = Some ht" "emulate demo_sys ht ''ksh'' False Opts demo_st = Some (EMULATE_KSH, st')"
    "\<forall>(s, f, k) \<in> set optns. emulated False f \<longrightarrow> arr Opts st' k = of_bool (f AND EMULATE_KSH \<noteq> 0)"
    "\<forall>j. (\<forall>(s, f, k) \<in> set optns. emulated False f \<longrightarrow> k \<noteq> j) \<longrightarrow> arr Opts st' j = arr Opts demo_st j"
    using emulate_sets_defaults [OF demo_sorter, of "''ksh''" False Opts demo_st] e tr by auto
  have "arr Opts st' EXTENDEDGLOB = 0" using bspec [OF st'(3) in_table(1), unfolded prod.case] by (simp add: emulated_def)
  moreover have "arr Opts st' SHWORDSPLIT = 1" using bspec [OF st'(3) in_table(3), unfolded prod.case] by (simp add: emulated_def)
  moreover have "arr Opts st' PRIVILEGED = 1" using st'(4) [THEN spec, THEN mp, OF none] by (simp add: demo_st_def arr_def)
  ultimately show ?thesis using st'(1,2) by (auto simp: isset_def arr_def)
qed

section \<open>Setting an option\<close>

text \<open>C36: A request about an option always returns, with 0 or -1.  Refused (-1), it changes no
  option, and only the guarded options can be refused; granted, the option has the value
  asked for.  Either way no other option changes, but for the other of \<open>emacs\<close> and \<open>vi\<close>, and
  the character table stays built from the current options.\<close>

theorem dosetopt_effect:
  fixes st :: "'w optst"
  assumes k: "k \<noteq> 0" "\<bar>k\<bar> < OPT_SIZE"
  shows "\<exists>r st'. dosetopt S k v force Opts st = Some (r, st') \<and> (r = 0 \<or> r = -1) \<and>
    (r = -1 \<longrightarrow> opts st' = opts st \<and> (\<bar>k\<bar> \<in> guarded \<and> \<not> force \<or> \<bar>k\<bar> \<in> {PRIVILEGED, EMACSMODE, VIMODE})) \<and>
    (r = 0 \<longrightarrow> isset st' \<bar>k\<bar> = ((0 < k) = v)) \<and>
    (\<forall>j. j \<noteq> \<bar>k\<bar> \<longrightarrow> {j, \<bar>k\<bar>} \<noteq> {EMACSMODE, VIMODE} \<longrightarrow> opts st' j = opts st j) \<and>
    new_opts st' = new_opts st \<and>
    (typtab_synced st \<longrightarrow> typtab_synced st')"
proof -
  let ?v = "if k < 0 then \<not> v else v"
  have v: "?v = ((0 < k) = v)" using k(1) by auto
  obtain r st' where s: "dosetopt S k v force Opts st = Some (r, st')" "sets S \<bar>k\<bar> ?v force Opts st r st'"
    using dosetopt_sets [OF k] by blast
  note V = sets_value [OF s(2)]
  have "opts st' j = opts st j" if "j \<noteq> \<bar>k\<bar>" "{j, \<bar>k\<bar>} \<noteq> {EMACSMODE, VIMODE}" for j
    using sets_frame [OF s(2), of j Opts] that by (auto simp: arr_def)
  moreover have "new_opts st' = new_opts st" using sets_new_opts [OF s(2)] .
  moreover have "isset st' \<bar>k\<bar> = ((0 < k) = v)" if "r = 0"
    using V that v by (simp add: isset_def arr_def)
  moreover have "opts st' = opts st" if "r = -1"
  proof -
    have "arr Opts st' = arr Opts st" using V that by blast
    then show ?thesis by (simp add: arr_def)
  qed
  ultimately show ?thesis using s(1) V sets_typtab [OF s(2)] by blast
qed

theorem dosetopt_effect_witness:
  "\<exists>st'. dosetopt demo_sys (- ERREXIT) False False Opts demo_st = Some (0, st') \<and> isset st' ERREXIT \<and>
    isset st' EXTENDEDGLOB"
proof -
  obtain r st' where r: "dosetopt demo_sys (- ERREXIT) False False Opts demo_st = Some (r, st')" "r = 0 \<or> r = -1"
    "r = -1 \<longrightarrow> \<bar>- ERREXIT\<bar> \<in> guarded \<and> \<not> False \<or> \<bar>- ERREXIT\<bar> \<in> {PRIVILEGED, EMACSMODE, VIMODE}"
    "r = 0 \<longrightarrow> isset st' \<bar>- ERREXIT\<bar> = ((0 < - ERREXIT) = False)"
    "\<forall>j. j \<noteq> \<bar>- ERREXIT\<bar> \<longrightarrow> {j, \<bar>- ERREXIT\<bar>} \<noteq> {EMACSMODE, VIMODE} \<longrightarrow> opts st' j = opts demo_st j"
    using dosetopt_effect [of "- ERREXIT" demo_sys False False demo_st] by auto
  have "\<bar>- ERREXIT\<bar> \<notin> guarded" by (simp add: guarded_def)
  then have 0: "r = 0" using r(2,3) by auto
  have "{EXTENDEDGLOB, ERREXIT} \<noteq> {EMACSMODE, VIMODE}" by auto
  then have "opts st' EXTENDEDGLOB = opts demo_st EXTENDEDGLOB" using r(5) by simp
  then show ?thesis using r(1,4) 0 by (simp add: isset_def demo_st_def)
qed

text \<open>C3: \<open>unsetopt privileged\<close> that succeeds has dropped privileges for good: real, effective
  and saved ids are the real user's and group's of before, the option is off, and the kernel
  refused \<open>setuid\<close>, \<open>seteuid\<close>, \<open>setgid\<close> and \<open>setegid\<close> back to the old effective ids (unless
  the real user is the superuser).  That the calls do what POSIX says is the hypothesis.\<close>

theorem privileges_dropped:
  fixes st :: "'w optst"
  assumes C: "cred_laws S cred" and ok: "dosetopt S PRIVILEGED False force p st = Some (0, st')"
  defines "c \<equiv> cred (world st)"
  defines "c' \<equiv> \<lparr>ruid = ruid c, euid = ruid c, suid = ruid c, rgid = rgid c, egid = rgid c, sgid = rgid c\<rparr>"
  shows "cred (world st') = c' \<and> arr p st' PRIVILEGED = 0 \<and>
    (ruid c \<noteq> 0 \<longrightarrow> egid c \<noteq> rgid c \<longrightarrow> refused_gid S cred (egid c) c') \<and>
    (ruid c \<noteq> 0 \<longrightarrow> euid c \<noteq> ruid c \<longrightarrow> refused_uid S cred (euid c) c')"
proof -
  obtain b s where d: "drop_privileges S st = (b, s)" by fastforce
  have b: b and st': "st' = store_result p PRIVILEGED False s"
    using ok d store_opt_some [of PRIVILEGED p False s] by (auto simp: dosetopt_def set_option_def split: if_splits)
  note D = drop_privileges_cred [OF C, of st s] 
  have w: "world st' = world s"
    unfolding st' by (cases p) (simp_all add: store_result_def Let_def upd_arr_def inittyptab_def del: put_arr_simps)
  have "arr p st' PRIVILEGED = 0" unfolding st' by simp
  then show ?thesis using D d b w unfolding c_def c'_def by simp
qed

theorem privileges_dropped_witness:
  "\<exists>st'. dosetopt demo_sys PRIVILEGED False False Opts demo_st = Some (0, st') \<and>
    world st' = \<lparr>ruid = 1000, euid = 1000, suid = 1000, rgid = 100, egid = 100, sgid = 100\<rparr>"
proof -
  obtain r st' where r: "dosetopt demo_sys PRIVILEGED False False Opts demo_st = Some (r, st')" "r = 0"
    by (simp add: dosetopt_def set_option_def drop_privileges_def drop_groups_def cannot_regain_def regain_def
        demo_sys_def demo_st_def demo_creds_def may_gid_def may_uid_def Let_def store_opt_some)
  from privileges_dropped [OF demo_laws r(1) [unfolded r(2)]] show ?thesis
    using r by (simp add: demo_st_def demo_creds_def)
qed

section \<open>\<open>setopt\<close> and \<open>unsetopt\<close>\<close>

text \<open>C39: Whatever its arguments, \<open>setopt\<close> and \<open>unsetopt\<close> return 0 or 1, follow no bad pointer
  and leave every option 0 or 1, provided that the arguments are metafied strings.\<close>

theorem setopt_type:
  fixes st :: "'w optst"
  assumes q: "\<forall>c xs. mset (sorter S c xs) = mset xs" and a: "\<forall>a \<in> set args. meta_ok a" and st: "settled st"
  shows "\<exists>ht. createoptiontable = Some ht \<and>
    (\<exists>r st'. bin_setopt S ht args isun st = Some (r, st') \<and> (r = 0 \<or> r = 1) \<and> settled st')"
proof -
  obtain ht cs where T: "createoptiontable = Some ht" "opt_table ht cs" using createoptiontable_spec by blast
  obtain s where "bin_setopt S ht args isun st = Some s" "fine s" using bin_setopt_fine [OF T(2) q a st] by blast
  then show ?thesis using T(1) by (cases s) (auto simp: fine_def)
qed

theorem setopt_type_witness:
  "\<exists>ht r st'. createoptiontable = Some ht \<and> bin_setopt demo_sys ht [''-eo'', ''no_such'', ''+m'', ''vi''] False demo_st = Some (r, st') \<and>
    (r = 0 \<or> r = 1)"
proof -
  have "settled demo_st" by (simp add: settled_def demo_st_def)
  moreover have "\<forall>a \<in> set [''-eo'', ''no_such'', ''+m'', ''vi'']. meta_ok a" by code_simp
  ultimately show ?thesis using setopt_type [OF demo_sorter] by blast
qed

lemma fold_assign: "fold (\<lambda>r a. a(h r := v (h r))) rs a j = (if j \<in> h ` set rs then v j else a j)"
  by (induction rs arbitrary: a) auto

lemma setting_head:
  assumes "r \<in> set optns"
  shows "nth_chr (setting st r) 0 \<noteq> CHR ''-''" "nth_chr (setting st r) 0 \<noteq> CHR ''+''"
proof -
  have "fst r \<in> set opt_names" using assms by (simp add: opt_names_def)
  then have l: "list_all low (fst r)" using names_low by blast
  have "\<not> low (CHR ''-'')" "\<not> low (CHR ''+'')" by code_simp+
  with l have "fst r = [] \<or> hd (fst r) \<noteq> CHR ''-'' \<and> hd (fst r) \<noteq> CHR ''+''" by (cases "fst r") auto
  then show "nth_chr (setting st r) 0 \<noteq> CHR ''-''" "nth_chr (setting st r) 0 \<noteq> CHR ''+''"
    by (cases "fst r"; auto simp: setting_def nth_chr_def NUL_def)+
qed

lemma setting_number:
  assumes T: "opt_table ht cs" and r: "(s, f, k) \<in> set optns" "f AND OPT_ALIAS = 0"
  shows "optlookup ht (setting st (s, f, k)) = Some (if isset st k then k else - k)"
proof -
  have n: "opt_norm s = s" using in_optns [OF r(1)] by blast
  then have "opt_norm (''no'' @ s) = ''no'' @ s" by (simp add: NUL_def)
  then show ?thesis using optlookup_name [OF T r(1) n] optlookup_no_name [OF T r(1)] by (simp add: setting_def)
qed

lemma setopt_words:
  assumes T: "opt_table ht cs" and q: "\<forall>c xs. mset (sorter S c xs) = mset xs"
    and st: "settled st" "\<not> isset st KSHOPTIONPRINT"
  shows "\<exists>rows. bin_setopt S ht [] False st =
      Some (0, put_out (concat (map (\<lambda>w. w @ newline) (map (setting st) rows))) st) \<and>
    mset rows = mset (filter (changed st) (filter not_alias optns))"
proof -
  obtain rows where r: "bin_setopt S ht [] False st = Some (0, put_out (concat (map (list_text True st) rows)) st)"
    "mset rows = mset (filter not_alias optns)"
    using setopt_listing [OF T q, of False st] by auto
  have "set rows = set (filter not_alias optns)" using r(2) by (rule mset_eq_setD)
  then have "map (list_text True st) rows = map (\<lambda>r. if changed st r then setting st r @ newline else []) rows"
    using list_text_setopt [OF st] by (intro map_cong) auto
  then have "concat (map (list_text True st) rows) = concat (map (\<lambda>w. w @ newline) (map (setting st) (filter (changed st) rows)))"
    by (simp only: concat_if) (simp add: o_def)
  moreover have "mset (filter (changed st) rows) = mset (filter (changed st) (filter not_alias optns))"
    using r(2) by (simp only: mset_filter)
  ultimately show ?thesis using r(1) by metis
qed

lemma setopt_from_words:
  assumes T: "opt_table ht cs"
    and R: "\<And>s f k. (s, f, k) \<in> set rows \<Longrightarrow> (s, f, k) \<in> set optns \<and> f AND OPT_ALIAS = 0 \<and> plain_option k"
    and ne: "rows \<noteq> []"
  shows "\<exists>d'. bin_setopt S ht (map (setting st) rows) False d = Some (0, d') \<and>
    (\<forall>j. isset d' j = (if j \<in> (snd \<circ> snd) ` set rows then isset st j else isset d j))"
proof -
  define num where "num w = the (optlookup ht w)" for w
  have n: "num (setting st (s, f, k)) = (if isset st k then k else - k)"
    "optlookup ht (setting st (s, f, k)) = Some (num (setting st (s, f, k)))" "\<bar>num (setting st (s, f, k))\<bar> = k"
    "0 < num (setting st (s, f, k)) \<longleftrightarrow> isset st k" "plain_option k"
    if "(s, f, k) \<in> set rows" for s f k
    using setting_number [OF T, of s f k st] R [OF that] by (auto simp: num_def plain_option_def)
  obtain d' where d': "setopt_names S ht False (map (setting st) rows) (0, d) = Some (0, d')"
    "opts d' = fold (\<lambda>w a. a(\<bar>num w\<bar> := of_bool ((0 < num w) \<noteq> False))) (map (setting st) rows) (opts d)"
    using setopt_names_plain [of "map (setting st) rows" ht num S False 0 d] n by force
  have "opts d' = fold (\<lambda>r a. a((snd \<circ> snd) r := of_bool (isset st ((snd \<circ> snd) r)))) rows (opts d)"
    unfolding d'(2) fold_map
    by (rule fold_cong) (use n in \<open>auto simp: fun_eq_iff\<close>)
  then have o: "opts d' j = (if j \<in> (snd \<circ> snd) ` set rows then of_bool (isset st j) else opts d j)" for j
    using fold_assign [of "snd \<circ> snd" "\<lambda>j. of_bool (isset st j)" rows "opts d" j] by simp
  obtain r rs where rs: "rows = r # rs" using ne by (cases rows) auto
  have "r \<in> set optns" using R rs by (cases r) auto
  note h = setting_head [OF this, of st]
  have "setopt_opts S ht False (map (setting st) rows) (False, 0, d) = Some (Stop (map (setting st) rows, False, 0, d))"
    using h rs by (simp add: Let_def)
  then have "bin_setopt S ht (map (setting st) rows) False d = Some (0, inittyptab d')"
    using d'(1) ne by (simp add: bin_setopt_def)
  moreover have "isset (inittyptab d') j = (if j \<in> (snd \<circ> snd) ` set rows then isset st j else isset d j)" for j
    using o [of j] by (simp add: isset_def inittyptab_def)
  ultimately show ?thesis by blast
qed

text \<open>C38: \<open>setopt\<close> alone prints a word for each option that is not as the emulation has it, and
  these words given to \<open>setopt\<close> in a shell whose options are the defaults make every option
  what it was, with status 0.  The options that are set from the command line only, the line
  editor modes and \<open>privileged\<close> must be at their defaults.\<close>

theorem setopt_listing_restores:
  fixes st d :: "'w optst"
  assumes q: "\<forall>c xs. mset (sorter S c xs) = mset xs"
    and st: "settled st" "\<not> isset st KSHOPTIONPRINT"
    and plain: "\<forall>r \<in> set optns. not_alias r \<longrightarrow> changed st r \<longrightarrow> plain_option (snd (snd r))"
    and d: "\<forall>(s, f, k) \<in> set optns. not_alias (s, f, k) \<longrightarrow> isset d k = (f AND emulation st \<noteq> 0)"
  shows "\<exists>ht words. createoptiontable = Some ht \<and>
    bin_setopt S ht [] False st = Some (0, put_out (concat (map (\<lambda>w. w @ newline) words)) st) \<and>
    (words = [] \<or> (\<exists>d'. bin_setopt S ht words False d = Some (0, d') \<and>
       (\<forall>(s, f, k) \<in> set optns. not_alias (s, f, k) \<longrightarrow> isset d' k = isset st k)))"
proof -
  obtain ht cs where T: "createoptiontable = Some ht" "opt_table ht cs" using createoptiontable_spec by blast
  obtain rows where r: "bin_setopt S ht [] False st =
      Some (0, put_out (concat (map (\<lambda>w. w @ newline) (map (setting st) rows))) st)"
    "mset rows = mset (filter (changed st) (filter not_alias optns))"
    using setopt_words [OF T(2) q st] by blast
  have s: "set rows = set (filter (changed st) (filter not_alias optns))" using r(2) by (rule mset_eq_setD)
  show ?thesis
  proof (cases "rows = []")
    case True
    then have "bin_setopt S ht [] False st = Some (0, put_out (concat (map (\<lambda>w. w @ newline) [])) st)" using r(1) by simp
    with T(1) show ?thesis by blast
  next
    case False
    have R: "(s, f, k) \<in> set optns \<and> f AND OPT_ALIAS = 0 \<and> plain_option k" if "(s, f, k) \<in> set rows" for s f k
      using that s plain by (force simp: not_alias_def)
    from setopt_from_words [OF T(2) R False, of S st d] obtain d' where d':
      "bin_setopt S ht (map (setting st) rows) False d = Some (0, d')"
      "\<forall>j. isset d' j = (if j \<in> (snd \<circ> snd) ` set rows then isset st j else isset d j)" by blast
    have "isset d' k = isset st k" if x: "(s, f, k) \<in> set optns" "not_alias (s, f, k)" for s f k
    proof (cases "changed st (s, f, k)")
      case True
      then have "(s, f, k) \<in> set rows" using x s by simp
      then have "k \<in> (snd \<circ> snd) ` set rows" by force
      then show ?thesis using d'(2) by simp
    next
      case False
      then have "isset d k = isset st k" using d x by (auto simp: changed_def)
      then show ?thesis using d'(2) by simp
    qed
    with d'(1) T(1) r(1) show ?thesis by blast
  qed
qed

text \<open>The defaults of the native emulation.\<close>

definition default_opts :: optarr where
  "default_opts k = (case map_of (map prod.swap (filter (\<lambda>(f, k). f AND OPT_ALIAS = 0) (map snd optns))) k of
     None \<Rightarrow> 0 | Some f \<Rightarrow> of_bool (f AND EMULATE_BSH \<noteq> 0))"

lemma default_opts_row: "(s, f, k) \<in> set optns \<Longrightarrow> not_alias (s, f, k) \<Longrightarrow> default_opts k = of_bool (f AND EMULATE_BSH \<noteq> 0)"
proof -
  assume "(s, f, k) \<in> set optns" "not_alias (s, f, k)"
  then have "(k, f) \<in> set (map prod.swap (filter (\<lambda>(f, k). f AND OPT_ALIAS = 0) (map snd optns)))"
    by (force simp: not_alias_def)
  moreover have "distinct (map fst (map prod.swap (filter (\<lambda>(f, k). f AND OPT_ALIAS = 0) (map snd optns))))"
    using distinct_opt_nums by (simp add: opt_nums_def o_def)
  ultimately show ?thesis by (simp add: default_opts_def)
qed

lemma globs: "default_opts EXTENDEDGLOB = 0" "default_opts KSHOPTIONPRINT = 0"
  using default_opts_row in_table(1) default_opts_row [of "''kshoptionprint''" "OPT_EMULATE OR OPT_KSH" KSHOPTIONPRINT]
  by (simp_all add: not_alias_def optns_def)

theorem setopt_listing_restores_witness:
  "\<exists>ht words. createoptiontable = Some ht \<and>
    bin_setopt demo_sys ht [] False (demo_st\<lparr>opts := default_opts(EXTENDEDGLOB := 1)\<rparr>) =
      Some (0, put_out (concat (map (\<lambda>w. w @ newline) words)) (demo_st\<lparr>opts := default_opts(EXTENDEDGLOB := 1)\<rparr>)) \<and>
    (words = [] \<or> (\<exists>d'. bin_setopt demo_sys ht words False (demo_st\<lparr>opts := default_opts\<rparr>) = Some (0, d') \<and> isset d' EXTENDEDGLOB))"
proof -
  let ?st = "demo_st\<lparr>opts := default_opts(EXTENDEDGLOB := 1)\<rparr>" and ?d = "demo_st\<lparr>opts := default_opts\<rparr>"
  have st: "settled ?st" "\<not> isset ?st KSHOPTIONPRINT"
    using globs by (auto simp: settled_def default_opts_def isset_def split: option.split)
  have ch: "changed ?st r \<Longrightarrow> snd (snd r) = EXTENDEDGLOB" if "r \<in> set optns" "not_alias r" for r
    using default_opts_row [of "fst r" "fst (snd r)" "snd (snd r)"] that
    by (auto simp: changed_def isset_def demo_st_def split: if_splits)
  have "plain_option EXTENDEDGLOB" by (simp add: plain_option_def guarded_def)
  with ch have "\<forall>r \<in> set optns. not_alias r \<longrightarrow> changed ?st r \<longrightarrow> plain_option (snd (snd r))" by metis
  moreover have "\<forall>(s, f, k) \<in> set optns. not_alias (s, f, k) \<longrightarrow> isset ?d k = (f AND emulation ?st \<noteq> 0)"
    using default_opts_row by (auto simp: isset_def demo_st_def)
  ultimately obtain ht words where w: "createoptiontable = Some ht"
    "bin_setopt demo_sys ht [] False ?st = Some (0, put_out (concat (map (\<lambda>w. w @ newline) words)) ?st)"
    "words = [] \<or> (\<exists>d'. bin_setopt demo_sys ht words False ?d = Some (0, d') \<and>
       (\<forall>(s, f, k) \<in> set optns. not_alias (s, f, k) \<longrightarrow> isset d' k = isset ?st k))"
    using setopt_listing_restores [OF demo_sorter st] by blast
  have "isset d' EXTENDEDGLOB" if "\<forall>(s, f, k) \<in> set optns. not_alias (s, f, k) \<longrightarrow> isset d' k = isset ?st k" for d' :: "creds optst"
    using bspec [OF that in_table(1), unfolded prod.case] by (simp add: not_alias_def isset_def)
  with w show ?thesis by blast
qed

section \<open>The value of \<open>$-\<close>\<close>

text \<open>C40: \<open>$-\<close> holds, each once, exactly the letters that an option of the current table has and
  whose option is in the sense of the letter: those that \<open>setopt\<close> would accept after a dash
  and that would change nothing.\<close>

theorem dash_letters:
  "\<exists>s. dashgetfn st = Some s \<and> distinct s \<and>
    (\<forall>c. c \<in> set s \<longleftrightarrow> optlookupc st c \<noteq> 0 \<and> (0 < optlookupc st c) = isset st \<bar>optlookupc st c\<bar>)"
proof -
  let ?is = "filter (\<lambda>i. letter_on st (optletters st ! i)) [0..<74]"
  let ?s = "map (\<lambda>i. char_of (48 + i) :: char) ?is"
  have "inj_on (\<lambda>i :: nat. char_of (48 + i) :: char) {..<74}"
  proof (rule inj_onI)
    fix i j :: nat assume "i \<in> {..<74}" "j \<in> {..<74}" "char_of (48 + i) = (char_of (48 + j) :: char)"
    then have "(of_char (char_of (48 + i) :: char) :: nat) = of_char (char_of (48 + j) :: char)" by simp
    with \<open>i \<in> {..<74}\<close> \<open>j \<in> {..<74}\<close> show "i = j" by simp
  qed
  then have "inj_on (\<lambda>i :: nat. char_of (48 + i) :: char) (set ?is)" by (rule inj_on_subset) auto
  then have "distinct ?s" by (simp only: distinct_map distinct_filter distinct_upt simp_thms)
  moreover have "c \<in> set ?s \<longleftrightarrow> letter_on st (optlookupc st c)" for c
  proof
    assume "c \<in> set ?s"
    then obtain i :: nat where "i < 74" "c = char_of (48 + i)" "letter_on st (optletters st ! i)" by (auto simp del: upt.simps)
    then show "letter_on st (optlookupc st c)" by (simp add: letter_index)
  next
    assume l: "letter_on st (optlookupc st c)"
    then obtain i :: nat where i: "i < 74" "c = char_of (48 + i)" using letter_of [of st c] by (auto simp: letter_on_def)
    then have "letter_on st (optletters st ! i)" using l by (simp add: letter_index)
    with i show "c \<in> set ?s" by (force simp del: upt.simps)
  qed
  ultimately show ?thesis using dashgetfn_letters [of st] unfolding letter_on_def by blast
qed

section \<open>The help text\<close>

text \<open>
  \<open>printoptionlist_printequiv\<close> takes the number of an option for its place in \<open>optns\<close>, but the
  table is in the order of names and the numbers in that of the enumeration: \<open>--help\<close> says
  that \<open>-x\<close> is \<open>--zle\<close>, \<open>-v\<close> is \<open>--vi\<close> and the alias \<open>stdin\<close> is \<open>--shnullcmd\<close>.
\<close>

lemma help_equivalents:
  "printoptionlist_printequiv XTRACE st = Some (put_out (''  equivalent to --zle'' @ newline) st)"
  "printoptionlist_printequiv VERBOSE st = Some (put_out (''  equivalent to --vi'' @ newline) st)"
  "printoptionlist_printequiv SHINSTDIN st = Some (put_out (''  equivalent to --shnullcmd'' @ newline) st)"
proof -
  have "map (\<lambda>i. fst (optns ! i)) [182, 178, 163] = [''zle'', ''vi'', ''shnullcmd'']" by code_simp
  then show "printoptionlist_printequiv XTRACE st = Some (put_out (''  equivalent to --zle'' @ newline) st)"
    "printoptionlist_printequiv VERBOSE st = Some (put_out (''  equivalent to --vi'' @ newline) st)"
    "printoptionlist_printequiv SHINSTDIN st = Some (put_out (''  equivalent to --shnullcmd'' @ newline) st)"
    by (simp_all add: printoptionlist_printequiv_def length_optns)
qed

end
