(* ===== verification/Ec_Code.thy ===== *)
theory Ec_Code
  imports Ztype HashTable
begin

text \<open>
  Word code, \<open>Src/parse.c\<close> and \<open>Src/bsh.h\<close>: how one word is made of a code and its data, and
  the buffer a parse writes its words to, with the positions of here-documents that follow
  the words when others are inserted before them.
\<close>

type_synonym wordcode = "32 word"

section \<open>Words\<close>

definition WC_CODEBITS :: nat where "WC_CODEBITS = 5"

definition wc_code :: "wordcode \<Rightarrow> wordcode" where
  "wc_code c = c AND (push_bit WC_CODEBITS 1 - 1)"

definition wc_data :: "wordcode \<Rightarrow> wordcode" where
  "wc_data c = drop_bit WC_CODEBITS c"

definition wc_bdata :: "wordcode \<Rightarrow> wordcode" where
  "wc_bdata d = push_bit WC_CODEBITS d"

definition wc_bld :: "wordcode \<Rightarrow> wordcode \<Rightarrow> wordcode" where
  "wc_bld c d = c OR push_bit WC_CODEBITS d"

definition WC_END :: wordcode where "WC_END = 0"
definition WC_LIST :: wordcode where "WC_LIST = 1"
definition WC_SUBLIST :: wordcode where "WC_SUBLIST = 2"
definition WC_PIPE :: wordcode where "WC_PIPE = 3"
definition WC_REDIR :: wordcode where "WC_REDIR = 4"
definition WC_FUNCDEF :: wordcode where "WC_FUNCDEF = 11"

lemmas wc_defs = WC_CODEBITS_def wc_code_def wc_data_def wc_bdata_def wc_bld_def
  WC_END_def WC_LIST_def WC_SUBLIST_def WC_PIPE_def WC_REDIR_def WC_FUNCDEF_def

definition WCB_END :: wordcode where
  "WCB_END = wc_bld WC_END 0"

text \<open>Lists, sublists and pipes: type, flags and the number of words to skip.\<close>

definition Z_SYNC :: wordcode where "Z_SYNC = push_bit 1 1"
definition Z_ASYNC :: wordcode where "Z_ASYNC = push_bit 2 1"
definition Z_DISOWN :: wordcode where "Z_DISOWN = push_bit 3 1"
definition Z_END :: wordcode where "Z_END = push_bit 4 1"
definition Z_SIMPLE :: wordcode where "Z_SIMPLE = push_bit 5 1"

definition WC_LIST_TYPE :: "wordcode \<Rightarrow> wordcode" where
  "WC_LIST_TYPE c = wc_data c"

definition WC_LIST_SKIP :: "wordcode \<Rightarrow> wordcode" where
  "WC_LIST_SKIP c = drop_bit 6 (wc_data c)"

definition WCB_LIST :: "wordcode \<Rightarrow> wordcode \<Rightarrow> wordcode" where
  "WCB_LIST t ofs = wc_bld WC_LIST (t OR push_bit 6 ofs)"

definition WC_SUBLIST_END :: wordcode where "WC_SUBLIST_END = 0"
definition WC_SUBLIST_AND :: wordcode where "WC_SUBLIST_AND = 1"
definition WC_SUBLIST_OR :: wordcode where "WC_SUBLIST_OR = 2"
definition WC_SUBLIST_COPROC :: wordcode where "WC_SUBLIST_COPROC = 4"
definition WC_SUBLIST_NOT :: wordcode where "WC_SUBLIST_NOT = 8"
definition WC_SUBLIST_SIMPLE :: wordcode where "WC_SUBLIST_SIMPLE = 16"

definition WC_SUBLIST_TYPE :: "wordcode \<Rightarrow> wordcode" where
  "WC_SUBLIST_TYPE c = wc_data c AND 3"

definition WC_SUBLIST_FLAGS :: "wordcode \<Rightarrow> wordcode" where
  "WC_SUBLIST_FLAGS c = wc_data c AND 0x1c"

definition WC_SUBLIST_SKIP :: "wordcode \<Rightarrow> wordcode" where
  "WC_SUBLIST_SKIP c = drop_bit 5 (wc_data c)"

definition WCB_SUBLIST :: "wordcode \<Rightarrow> wordcode \<Rightarrow> wordcode \<Rightarrow> wordcode" where
  "WCB_SUBLIST t f ofs = wc_bld WC_SUBLIST (t OR f OR push_bit 5 ofs)"

definition WC_PIPE_END :: wordcode where "WC_PIPE_END = 0"
definition WC_PIPE_MID :: wordcode where "WC_PIPE_MID = 1"

definition WC_PIPE_TYPE :: "wordcode \<Rightarrow> wordcode" where
  "WC_PIPE_TYPE c = wc_data c AND 1"

definition WC_PIPE_LINENO :: "wordcode \<Rightarrow> wordcode" where
  "WC_PIPE_LINENO c = drop_bit 1 (wc_data c)"

definition WCB_PIPE :: "wordcode \<Rightarrow> wordcode \<Rightarrow> wordcode" where
  "WCB_PIPE t l = wc_bld WC_PIPE (t OR push_bit 1 l)"

text \<open>Redirections and function definitions.\<close>

definition REDIR_TYPE_MASK :: wordcode where "REDIR_TYPE_MASK = 0x1f"
definition REDIR_VARID_MASK :: wordcode where "REDIR_VARID_MASK = 0x20"
definition REDIR_FROM_HEREDOC_MASK :: wordcode where "REDIR_FROM_HEREDOC_MASK = 0x40"

definition WC_REDIR_TYPE :: "wordcode \<Rightarrow> wordcode" where
  "WC_REDIR_TYPE c = wc_data c AND REDIR_TYPE_MASK"

definition WC_REDIR_VARID :: "wordcode \<Rightarrow> bool" where
  "WC_REDIR_VARID c \<longleftrightarrow> wc_data c AND REDIR_VARID_MASK \<noteq> 0"

definition WC_REDIR_FROM_HEREDOC :: "wordcode \<Rightarrow> bool" where
  "WC_REDIR_FROM_HEREDOC c \<longleftrightarrow> wc_data c AND REDIR_FROM_HEREDOC_MASK \<noteq> 0"

definition WCB_REDIR :: "wordcode \<Rightarrow> wordcode" where
  "WCB_REDIR t = wc_bld WC_REDIR t"

definition WC_REDIR_WORDS :: "wordcode \<Rightarrow> nat" where
  "WC_REDIR_WORDS c = (if WC_REDIR_VARID c then 4 else 3) + (if WC_REDIR_FROM_HEREDOC c then 2 else 0)"

definition WC_FUNCDEF_SKIP :: "wordcode \<Rightarrow> wordcode" where
  "WC_FUNCDEF_SKIP c = wc_data c"

definition WCB_FUNCDEF :: "wordcode \<Rightarrow> wordcode" where
  "WCB_FUNCDEF ofs = wc_bld WC_FUNCDEF ofs"

section \<open>State of a parse\<close>

text \<open>
  A node of the tree of strings: \<open>struct eccstr\<close>.  The tree only grows at its leaves and
  nothing else points into it, so that it is a value.
\<close>

record eccnode =
  estr :: string
  offs :: wordcode
  aoffs :: nat
  snfunc :: nat
  hashval :: "32 word"

datatype eccstr = NoStr | Str eccstr eccnode eccstr

record heredocs =
  htype :: wordcode
  hpc :: int
  hstr :: string

text \<open>
  A word of the buffer is \<open>None\<close> when it was allocated and never written.  \<open>ecbuf\<close> is \<open>None\<close>
  for NULL.  The counters are \<open>int\<close>s of the C code; a buffer or a string table of \<open>2 ^ 31\<close>
  entries does not fit in the memory of a shell.
\<close>

type_synonym cell = "wordcode option"

record parse_state =
  incmdpos :: int
  aliasspaceflag :: int
  incond :: int
  inredir :: int
  incasepat :: int
  isnewlin :: int
  infor :: int
  inrepeat :: int
  intypeset :: int
  hdocs :: "heredocs list"
  eclen :: nat
  ecused :: nat
  ecnpats :: nat
  ecbuf :: "cell list option"
  ecstrs :: eccstr
  ecsoffs :: nat
  ecssub :: nat
  ecnfunc :: nat

definition EC_INIT_SIZE :: nat where "EC_INIT_SIZE = 256"
definition EC_DOUBLE_THRESHOLD :: nat where "EC_DOUBLE_THRESHOLD = 32768"
definition EC_INCREMENT :: nat where "EC_INCREMENT = 1024"

text \<open>\<open>ecbuf[i]\<close>, read and written.\<close>

definition ecget :: "nat \<Rightarrow> parse_state \<Rightarrow> wordcode option" where
  "ecget i s = (case ecbuf s of None \<Rightarrow> None | Some b \<Rightarrow> if i < length b then b ! i else None)"

definition ecput :: "nat \<Rightarrow> wordcode \<Rightarrow> parse_state \<Rightarrow> parse_state option" where
  "ecput i c s = (case ecbuf s of
     None \<Rightarrow> None
   | Some b \<Rightarrow> if i < length b then Some (s\<lparr>ecbuf := Some (b[i := Some c])\<rparr>) else None)"

text \<open>\<open>zrealloc\<close> to \<open>n\<close> words; memory that cannot be had ends the shell.\<close>

definition ec_realloc :: "nat \<Rightarrow> parse_state \<Rightarrow> parse_state" where
  "ec_realloc n s =
     (let b = (case ecbuf s of None \<Rightarrow> [] | Some b \<Rightarrow> b)
      in s\<lparr>ecbuf := Some (take n b @ replicate (n - length b) None), eclen := n\<rparr>)"

definition ec_step :: "parse_state \<Rightarrow> nat" where
  "ec_step s = (if eclen s < EC_DOUBLE_THRESHOLD then eclen s else EC_INCREMENT)"

definition ecadjusthere :: "int \<Rightarrow> int \<Rightarrow> parse_state \<Rightarrow> parse_state" where
  "ecadjusthere p d s =
     s\<lparr>hdocs := map (\<lambda>h. if p \<le> hpc h then h\<lparr>hpc := hpc h + d\<rparr> else h) (hdocs s)\<rparr>"

text \<open>\<open>memmove\<close> of \<open>m\<close> words within the buffer.\<close>

definition ec_move :: "nat \<Rightarrow> nat \<Rightarrow> nat \<Rightarrow> parse_state \<Rightarrow> parse_state option" where
  "ec_move dst src m s = (case ecbuf s of
     None \<Rightarrow> None
   | Some b \<Rightarrow>
       if dst + m \<le> length b \<and> src + m \<le> length b
       then Some (s\<lparr>ecbuf := Some (take dst b @ take m (drop src b) @ drop (dst + m) b)\<rparr>)
       else None)"

section \<open>Adding and deleting words\<close>

definition ecispace :: "nat \<Rightarrow> nat \<Rightarrow> parse_state \<Rightarrow> parse_state option" where
  "ecispace p n s =
     (let s = (if int (eclen s) - int (ecused s) < int n
               then ec_realloc (eclen s + max n (ec_step s)) s else s)
      in do {
        s \<leftarrow> (if p < ecused s then ec_move (p + n) p (ecused s - p) s else Some s);
        Some (ecadjusthere (int p) (int n) (s\<lparr>ecused := ecused s + n\<rparr>)) })"

definition ecadd :: "wordcode \<Rightarrow> parse_state \<Rightarrow> (nat \<times> parse_state) option" where
  "ecadd c s =
     (let s = (if int (eclen s) - int (ecused s) < 1
               then ec_realloc (eclen s + ec_step s) s else s)
      in do { s \<leftarrow> ecput (ecused s) c s; Some (ecused s, s\<lparr>ecused := ecused s + 1\<rparr>) })"

definition ecdel :: "nat \<Rightarrow> parse_state \<Rightarrow> parse_state option" where
  "ecdel p s =
     (let n = int (ecused s) - int p - 1
      in do {
        s \<leftarrow> (if 0 < n then ec_move p (p + 1) (nat n) s else Some s);
        Some (ecadjusthere (int p) (- 1) (s\<lparr>ecused := ecused s - 1\<rparr>)) })"

section \<open>Strings\<close>

definition has_token :: "string \<Rightarrow> bool" where
  "has_token s = list_ex itok s"

text \<open>The comparison the tree is searched by: \<open>(int)(p->hashval - val)\<close> is a signed difference modulo \<open>2 ^ 32\<close>.\<close>

definition ec_cmp :: "eccnode \<Rightarrow> nat \<Rightarrow> 32 word \<Rightarrow> string \<Rightarrow> int" where
  "ec_cmp p nf val s =
     (let cmp = int (snfunc p) - int nf
      in if cmp \<noteq> 0 then cmp
         else let cmp = sint (hashval p - val)
              in if cmp \<noteq> 0 then cmp else strcmp (estr p) s)"

text \<open>The loop: the word of a string that is there, or the tree with the node put where the search ended.\<close>

fun ec_search :: "eccnode \<Rightarrow> eccstr \<Rightarrow> wordcode option \<times> eccstr" where
  "ec_search new NoStr = (None, Str NoStr new NoStr)"
| "ec_search new (Str l p r) =
     (let cmp = ec_cmp p (snfunc new) (hashval new) (estr new)
      in if cmp = 0 then (Some (offs p), Str l p r)
         else if cmp < 0 then (case ec_search new l of (c, l) \<Rightarrow> (c, Str l p r))
         else (case ec_search new r of (c, r) \<Rightarrow> (c, Str l p r)))"

definition uc_word :: "char \<Rightarrow> wordcode" where
  "uc_word c = of_nat (of_char c)"

definition ec_short :: "string \<Rightarrow> wordcode" where
  "ec_short s =
     (let t = has_token s; c = (if t then 3 else 2)
      in if length s = 3
         then c OR push_bit 19 (uc_word (s ! 2)) OR push_bit 11 (uc_word (s ! 1)) OR push_bit 3 (uc_word (s ! 0))
         else if length s = 2 then c OR push_bit 11 (uc_word (s ! 1)) OR push_bit 3 (uc_word (s ! 0))
         else if length s = 1 then c OR push_bit 3 (uc_word (s ! 0))
         else if t then 7 else 6)"

definition ec_new :: "string \<Rightarrow> parse_state \<Rightarrow> eccnode" where
  "ec_new str s =
     \<lparr>estr = str,
      offs = push_bit 2 (word_of_int (int (ecsoffs s) - int (ecssub s))) OR (if has_token str then 1 else 0),
      aoffs = ecsoffs s, snfunc = ecnfunc s, hashval = hasher str\<rparr>"

definition ecstrcode :: "string \<Rightarrow> parse_state \<Rightarrow> wordcode \<times> parse_state" where
  "ecstrcode str s =
     (let l = length str + 1
      in if l \<le> 4 then (ec_short str, s)
         else case ec_search (ec_new str s) (ecstrs s) of
           (Some c, _) \<Rightarrow> (c, s)
         | (None, t) \<Rightarrow>
             (offs (ec_new str s), s\<lparr>ecstrs := t, ecsoffs := ecsoffs s + l\<rparr>))"

definition ecstr :: "string \<Rightarrow> parse_state \<Rightarrow> (nat \<times> parse_state) option" where
  "ecstr str s = (case ecstrcode str s of (c, s) \<Rightarrow> ecadd c s)"

end
