(* ===== verification/Ec_Build.thy ===== *)
theory Ec_Build
  imports Ec_Code
begin

text \<open>
  From words to programs, \<open>Src/parse.c\<close>: starting a parse, the words of lists, sublists,
  here-documents and function definitions, setting a parse aside, and the program
  \<open>bld_eprog\<close> makes of the buffer and the strings; reference counts of programs.
\<close>

section \<open>Starting a parse\<close>

definition init_parse_status :: "parse_state \<Rightarrow> parse_state" where
  "init_parse_status s =
     s\<lparr>incasepat := 0, incond := 0, inredir := 0, infor := 0, intypeset := 0, inrepeat := 0, incmdpos := 1\<rparr>"

definition init_parse :: "parse_state \<Rightarrow> parse_state" where
  "init_parse s =
     init_parse_status
       (s\<lparr>ecbuf := Some (replicate EC_INIT_SIZE None), eclen := EC_INIT_SIZE, ecused := 0,
          ecstrs := NoStr, ecsoffs := 0, ecnpats := 0, ecssub := 0, ecnfunc := 0\<rparr>)"

definition clear_hdocs :: "parse_state \<Rightarrow> parse_state" where
  "clear_hdocs s = s\<lparr>hdocs := []\<rparr>"

section \<open>Setting a parse aside\<close>

text \<open>\<open>struct parse_stack\<close> has the same fields.\<close>

definition parse_context_save :: "parse_state \<Rightarrow> parse_state \<times> parse_state" where
  "parse_context_save s = (s, s\<lparr>ecbuf := None, hdocs := []\<rparr>)"

definition ERRFLAG_ERROR :: "32 word" where "ERRFLAG_ERROR = 1"

definition parse_context_restore ::
  "parse_state \<Rightarrow> parse_state \<times> 32 word \<Rightarrow> parse_state \<times> 32 word" where
  "parse_context_restore ps st =
     (case st of (s, ef) \<Rightarrow>
        (let s = s\<lparr>incmdpos := incmdpos ps, aliasspaceflag := aliasspaceflag ps, incond := incond ps,
             inredir := inredir ps, incasepat := incasepat ps, isnewlin := isnewlin ps,
             infor := infor ps, inrepeat := inrepeat ps, intypeset := intypeset ps\<rparr>;
             s = clear_hdocs s;
             s = s\<lparr>hdocs := hdocs ps, eclen := eclen ps, ecused := ecused ps, ecnpats := ecnpats ps,
             ecbuf := ecbuf ps, ecstrs := ecstrs ps, ecsoffs := ecsoffs ps, ecssub := ecssub ps,
             ecnfunc := ecnfunc ps\<rparr>
         in (s, ef AND NOT ERRFLAG_ERROR)))"

section \<open>Lists, sublists, here-documents\<close>

definition set_list_code :: "nat \<Rightarrow> wordcode \<Rightarrow> bool \<Rightarrow> parse_state \<Rightarrow> parse_state option" where
  "set_list_code p type cmplx s = do {
     simple \<leftarrow> (if \<not> cmplx \<and> (type = Z_SYNC \<or> type = (Z_SYNC OR Z_END))
       then do { w \<leftarrow> ecget (p + 1) s; Some (WC_SUBLIST_TYPE w = WC_SUBLIST_END) } else Some False);
     if simple then do {
       w \<leftarrow> ecget (p + 1) s;
       let ispipe = (WC_SUBLIST_FLAGS w AND WC_SUBLIST_SIMPLE = 0);
       s \<leftarrow> ecput p (WCB_LIST (type OR Z_SIMPLE) (word_of_int (int (ecused s) - 2 - int p))) s;
       s \<leftarrow> ecdel (p + 1) s;
       if ispipe then do { w \<leftarrow> ecget (p + 1) s; ecput (p + 1) (WC_PIPE_LINENO w) s } else Some s
     } else ecput p (WCB_LIST type 0) s }"

definition set_sublist_code ::
  "nat \<Rightarrow> wordcode \<Rightarrow> wordcode \<Rightarrow> wordcode \<Rightarrow> bool \<Rightarrow> parse_state \<Rightarrow> parse_state option" where
  "set_sublist_code p type fl skip cmplx s =
     (if cmplx then ecput p (WCB_SUBLIST type fl skip) s
      else do {
        s \<leftarrow> ecput p (WCB_SUBLIST type (fl OR WC_SUBLIST_SIMPLE) skip) s;
        w \<leftarrow> ecget (p + 1) s;
        ecput (p + 1) (WC_PIPE_LINENO w) s })"

definition setheredoc ::
  "nat \<Rightarrow> wordcode \<Rightarrow> string \<Rightarrow> string \<Rightarrow> string \<Rightarrow> parse_state \<Rightarrow> parse_state option" where
  "setheredoc pc type str termstr munged s = do {
     w \<leftarrow> ecget pc s;
     let varid = (if WC_REDIR_VARID w then REDIR_VARID_MASK else 0);
     s \<leftarrow> ecput pc (WCB_REDIR (type OR REDIR_FROM_HEREDOC_MASK OR varid)) s;
     let (c, s) = ecstrcode str s;
     s \<leftarrow> ecput (pc + 2) c s;
     let (c, s) = ecstrcode termstr s;
     s \<leftarrow> ecput (pc + 3) c s;
     let (c, s) = ecstrcode munged s;
     ecput (pc + 4) c s }"

section \<open>Function definitions\<close>

text \<open>
  The words of a function definition, from the parts the parser reads: the names, the body
  (\<open>par_list\<close> or \<open>par_list1\<close>, what it does to the state), the arguments of an anonymous
  function.
\<close>

fun add_strs :: "string list \<Rightarrow> parse_state \<Rightarrow> parse_state option" where
  "add_strs [] s = Some s"
| "add_strs (str # strs) s = do { (_, s) \<leftarrow> ecstr str s; add_strs strs s }"

definition func_head :: "string list \<Rightarrow> parse_state \<Rightarrow> (nat \<times> parse_state) option" where
  "func_head names s = do {
     (p, s) \<leftarrow> ecadd 0 s;
     (_, s) \<leftarrow> ecadd 0 s;
     s \<leftarrow> add_strs names s;
     (_, s) \<leftarrow> ecadd 0 s;
     (_, s) \<leftarrow> ecadd 0 s;
     (_, s) \<leftarrow> ecadd 0 s;
     (_, s) \<leftarrow> ecadd 0 s;
     Some (p, s) }"

definition func_enter :: "parse_state \<Rightarrow> parse_state" where
  "func_enter s = s\<lparr>ecnfunc := ecnfunc s + 1, ecssub := ecsoffs s, ecnpats := 0\<rparr>"

text \<open>\<open>oecssub\<close> and \<open>onp\<close> are the values from before, \<open>so\<close> the offset of the first string.\<close>

definition func_leave ::
  "nat \<Rightarrow> nat \<Rightarrow> bool \<Rightarrow> nat \<Rightarrow> nat \<Rightarrow> nat \<Rightarrow> parse_state \<Rightarrow> parse_state option" where
  "func_leave p num do_tracing so oecssub onp s = do {
     (_, s) \<leftarrow> ecadd WCB_END s;
     s \<leftarrow> ecput (p + num + 2) (word_of_int (int so - int oecssub)) s;
     s \<leftarrow> ecput (p + num + 3) (word_of_int (int (ecsoffs s) - int so)) s;
     s \<leftarrow> ecput (p + num + 4) (of_nat (ecnpats s)) s;
     s \<leftarrow> ecput (p + num + 5) (if do_tracing then 1 else 0) s;
     s \<leftarrow> ecput (p + 1) (of_nat num) s;
     s \<leftarrow> Some (s\<lparr>ecnpats := onp, ecssub := oecssub, ecnfunc := ecnfunc s + 1\<rparr>);
     ecput p (WCB_FUNCDEF (word_of_int (int (ecused s) - 1 - int p))) s }"

definition func_args :: "string list \<Rightarrow> parse_state \<Rightarrow> parse_state option" where
  "func_args args s = do {
     (parg, s) \<leftarrow> ecadd 0 s;
     (_, s) \<leftarrow> ecadd 0 s;
     s \<leftarrow> add_strs args s;
     s \<leftarrow> ecput parg (word_of_int (int (ecused s) - int parg)) s;
     ecput (parg + 1) (of_nat (length args)) s }"

definition par_funcdef ::
  "bool \<Rightarrow> string list \<Rightarrow> (parse_state \<Rightarrow> parse_state option) \<Rightarrow> string list \<Rightarrow> parse_state
    \<Rightarrow> parse_state option" where
  "par_funcdef do_tracing names par_list args s = do {
     let oecssub = ecssub s;
     (p, s) \<leftarrow> func_head names s;
     let so = ecsoffs s;
     let onp = ecnpats s;
     s \<leftarrow> par_list (func_enter s);
     s \<leftarrow> func_leave p (length names) do_tracing so oecssub onp s;
     if length names = 0 then func_args args s else Some s }"

section \<open>Programs\<close>

text \<open>
  \<open>struct eprog\<close>.  Patterns, code and strings share one block of \<open>len\<close> bytes; the code of a
  function read from a dump file is a part of the file's.  \<open>prog\<close> is the words from
  \<open>p->prog\<close> to the end of the code, \<open>stab\<close> the bytes that follow them in memory, and
  \<open>p->strs\<close> is \<open>sofs\<close> bytes behind their start.  A byte is \<open>None\<close> as long as nothing was
  written there.
\<close>

datatype patprog = dummy_patprog1 | Compiled addr

record eprog =
  eflags :: "32 word"
  elen :: nat
  npats :: nat
  nref :: int
  pats :: "patprog list"
  prog :: "cell list"
  stab :: "char option list"
  sofs :: nat
  dump :: addr

definition EF_REAL :: "32 word" where "EF_REAL = 1"
definition EF_HEAP :: "32 word" where "EF_HEAP = 2"
definition EF_MAP :: "32 word" where "EF_MAP = 4"
definition EF_RUN :: "32 word" where "EF_RUN = 8"

definition sizeof_Patprog :: nat where "sizeof_Patprog = 8"
definition sizeof_wordcode :: nat where "sizeof_wordcode = 4"

text \<open>\<open>memcpy\<close> into the block.\<close>

definition blit :: "nat \<Rightarrow> char option list \<Rightarrow> char option list \<Rightarrow> char option list option" where
  "blit i bs m =
     (if i + length bs \<le> length m then Some (take i m @ bs @ drop (i + length bs) m) else None)"

fun copy_ecstr :: "eccstr \<Rightarrow> char option list \<Rightarrow> char option list option" where
  "copy_ecstr NoStr m = Some m"
| "copy_ecstr (Str l p r) m = do {
     m \<leftarrow> blit (aoffs p) (map Some (estr p @ [NUL])) m;
     m \<leftarrow> copy_ecstr l m;
     copy_ecstr r m }"

text \<open>Memory of \<open>zhalloc\<close> has no contents, that of \<open>bshcalloc\<close> is zero.\<close>

definition bld_eprog :: "bool \<Rightarrow> parse_state \<Rightarrow> (eprog \<times> parse_state) option" where
  "bld_eprog heap s = do {
     (_, s) \<leftarrow> ecadd WCB_END s;
     b \<leftarrow> ecbuf s;
     code \<leftarrow> (if ecused s \<le> length b then Some (take (ecused s) b) else None);
     block \<leftarrow> copy_ecstr (ecstrs s) (replicate (ecsoffs s) (if heap then None else Some NUL));
     Some (\<lparr>eflags = if heap then EF_HEAP else EF_REAL,
            elen = ecnpats s * sizeof_Patprog + ecused s * sizeof_wordcode + ecsoffs s,
            npats = ecnpats s, nref = if heap then - 1 else 1,
            pats = replicate (ecnpats s) dummy_patprog1, prog = code, stab = block, sofs = 0, dump = 0\<rparr>,
           s\<lparr>ecbuf := None\<rparr>) }"

text \<open>The first word of a program that has none is not read: \<open>p->prog\<close> is NULL.\<close>

definition empty_eprog :: "eprog option \<Rightarrow> bool option" where
  "empty_eprog p = (case p of
     None \<Rightarrow> Some True
   | Some e \<Rightarrow> (case prog e of [] \<Rightarrow> Some True | c # _ \<Rightarrow> map_option (\<lambda>w. w = WCB_END) c))"

text \<open>\<open>dummy_eprog\<close> as \<open>init_eprog\<close> makes it.\<close>

definition init_eprog :: eprog where
  "init_eprog = \<lparr>eflags = 0, elen = sizeof_wordcode, npats = 0, nref = 0, pats = [],
     prog = [Some WCB_END], stab = [], sofs = 0, dump = 0\<rparr>"

text \<open>
  \<open>dupeprog\<close> copies \<open>len\<close> bytes, less those of the patterns, from \<open>p->prog\<close> on, and puts
  \<open>r->strs\<close> as far behind \<open>r->prog\<close> as \<open>p->strs\<close> is behind \<open>p->prog\<close>.
\<close>

definition dupeprog :: "eprog \<Rightarrow> bool \<Rightarrow> eprog" where
  "dupeprog p heap =
     (let n = elen p - npats p * sizeof_Patprog
      in p\<lparr>eflags := (if heap then EF_HEAP else EF_REAL) OR (eflags p AND EF_RUN), dump := 0,
           nref := if heap then - 1 else 1, pats := replicate (npats p) dummy_patprog1,
           prog := take (n div sizeof_wordcode) (prog p),
           stab := take (n - length (prog p) * sizeof_wordcode) (stab p)\<rparr>)"

end
