(* ===== verification/Ec_Read.thy ===== *)
theory Ec_Read
  imports Ec_Build
begin

text \<open>
  Reading word code back, \<open>Src/parse.c\<close> and \<open>Src/exec.c\<close>: strings, lists of strings,
  redirections, their copy into a program of their own, and the program \<open>execfuncdef\<close> makes
  of a function definition.
\<close>

text \<open>
  \<open>struct estate\<close>.  The program counter is the rest of the code, the pointer \<open>s->strs\<close> its
  offset in the strings of the program.
\<close>

record estate =
  eprogp :: eprog
  pc :: "cell list"
  sbase :: nat

definition enter_prog :: "eprog \<Rightarrow> estate" where
  "enter_prog e = \<lparr>eprogp = e, pc = prog e, sbase = sofs e\<rparr>"

text \<open>\<open>*s->pc++\<close>.\<close>

definition fetch :: "estate \<Rightarrow> (wordcode \<times> estate) option" where
  "fetch s = (case pc s of Some w # ws \<Rightarrow> Some (w, s\<lparr>pc := ws\<rparr>) | _ \<Rightarrow> None)"

text \<open>A string in memory, up to its terminator.\<close>

fun str_at :: "char option list \<Rightarrow> string option" where
  "str_at [] = None"
| "str_at (None # m) = None"
| "str_at (Some c # m) = (if c = NUL then Some [] else map_option ((#) c) (str_at m))"

section \<open>Strings\<close>

datatype ec_dup_t = EC_NODUP | EC_DUP | EC_DUPTOK

definition short_str :: "wordcode \<Rightarrow> string" where
  "short_str c = cstr [uchar (drop_bit 3 c AND 0xff), uchar (drop_bit 11 c AND 0xff), uchar (drop_bit 19 c AND 0xff)]"

definition in_block :: "wordcode \<Rightarrow> char option list \<Rightarrow> nat \<Rightarrow> string option" where
  "in_block c m base = str_at (drop (base + unat (drop_bit 2 c)) m)"

text \<open>The string, whether it is a copy of its own, and \<open>*tokflag\<close>.\<close>

definition ecgetstr :: "estate \<Rightarrow> ec_dup_t \<Rightarrow> ((string \<times> bool \<times> bool) \<times> estate) option" where
  "ecgetstr s dup = do {
     (c, s) \<leftarrow> fetch s;
     (r, dup, copied) \<leftarrow>
       (if c = 6 \<or> c = 7 then Some ([], dup, False)
        else if c AND 2 \<noteq> 0 then Some (short_str c, EC_NODUP, True)
        else map_option (\<lambda>r. (r, dup, False)) (in_block c (stab (eprogp s)) (sbase s)));
     let tok = (c AND 1 \<noteq> 0);
     Some ((r, copied \<or> dup = EC_DUP \<or> (dup \<noteq> EC_NODUP \<and> tok), tok), s) }"

definition ecrawstr :: "eprog \<Rightarrow> cell list \<Rightarrow> (string \<times> bool) option" where
  "ecrawstr p cp = (case cp of
     Some c # _ \<Rightarrow>
       map_option (\<lambda>r. (r, c AND 1 \<noteq> 0))
         (if c = 6 \<or> c = 7 then Some []
          else if c AND 2 \<noteq> 0 then Some (short_str c)
          else in_block c (stab p) (sofs p))
   | _ \<Rightarrow> None)"

fun ecgetarr :: "estate \<Rightarrow> nat \<Rightarrow> ec_dup_t \<Rightarrow> ((string list \<times> bool) \<times> estate) option" where
  "ecgetarr s 0 dup = Some (([], False), s)"
| "ecgetarr s (Suc num) dup = do {
     ((str, _, tmp), s) \<leftarrow> ecgetstr s dup;
     ((strs, tf), s) \<leftarrow> ecgetarr s num dup;
     Some ((str # strs, tmp \<or> tf), s) }"

text \<open>\<open>None\<close> inside is the NULL list.\<close>

definition ecgetlist :: "estate \<Rightarrow> nat \<Rightarrow> ec_dup_t \<Rightarrow> ((string list option \<times> bool) \<times> estate) option" where
  "ecgetlist s num dup =
     (if num \<noteq> 0
      then do { ((strs, tf), s) \<leftarrow> ecgetarr s num dup; Some ((Some strs, tf), s) }
      else Some ((None, False), s))"

section \<open>Redirections\<close>

record redir =
  rtype :: wordcode
  rfd1 :: wordcode
  rname :: string
  rheredoc :: bool
  here_terminator :: "string option"
  munged_here_terminator :: "string option"
  rvarid :: "string option"

definition ec_string :: "estate \<Rightarrow> (string \<times> estate) option" where
  "ec_string s = do { ((str, _, _), s) \<leftarrow> ecgetstr s EC_DUP; Some (str, s) }"

text \<open>One redirection, its first word read.\<close>

definition ecgetredir :: "wordcode \<Rightarrow> estate \<Rightarrow> (redir \<times> estate) option" where
  "ecgetredir code s = do {
     (fd, s) \<leftarrow> fetch s;
     (name, s) \<leftarrow> ec_string s;
     (term, munged, s) \<leftarrow>
       (if WC_REDIR_FROM_HEREDOC code
        then do { (t, s) \<leftarrow> ec_string s; (m, s) \<leftarrow> ec_string s; Some (Some t, Some m, s) }
        else Some (None, None, s));
     (varid, s) \<leftarrow>
       (if WC_REDIR_VARID code
        then do { (v, s) \<leftarrow> ec_string s; Some (Some v, s) } else Some (None, s));
     Some (\<lparr>rtype = WC_REDIR_TYPE code, rfd1 = fd, rname = name, rheredoc = WC_REDIR_FROM_HEREDOC code,
            here_terminator = term, munged_here_terminator = munged, rvarid = varid\<rparr>, s) }"

text \<open>The loop; \<open>s->pc--\<close> at its end gives the first word that is no redirection back.\<close>

fun redirs_loop :: "nat \<Rightarrow> estate \<Rightarrow> redir list \<Rightarrow> (redir list \<times> estate) option" where
  "redirs_loop 0 s ret = None"
| "redirs_loop (Suc n) s ret = do {
     (code, s') \<leftarrow> fetch s;
     if wc_code code \<noteq> WC_REDIR then Some (ret, s)
     else do { (r, s') \<leftarrow> ecgetredir code s'; redirs_loop n s' (ret @ [r]) } }"

definition ecgetredirs :: "estate \<Rightarrow> (redir list \<times> estate) option" where
  "ecgetredirs s = redirs_loop (Suc (length (pc s))) s []"

section \<open>Copying redirections\<close>

text \<open>The words they take; the count runs over the rest of the code.\<close>

fun count_redirs :: "nat \<Rightarrow> cell list \<Rightarrow> nat \<Rightarrow> nat option" where
  "count_redirs 0 cp ncodes = None"
| "count_redirs (Suc n) cp ncodes = (case cp of
     Some code # _ \<Rightarrow>
       if wc_code code \<noteq> WC_REDIR then Some ncodes
       else (let ncode = (if WC_REDIR_FROM_HEREDOC code then 5 else 3);
                 ncode = (if WC_REDIR_VARID code then ncode + 1 else ncode)
             in count_redirs n (drop ncode cp) (ncodes + ncode))
   | _ \<Rightarrow> None)"

definition copy_string :: "estate \<times> parse_state \<times> nat \<Rightarrow> (estate \<times> parse_state \<times> nat) option" where
  "copy_string = (\<lambda>(s, ps, r). do {
     ((str, _, _), s) \<leftarrow> ecgetstr s EC_NODUP;
     let (c, ps) = ecstrcode str ps;
     ps \<leftarrow> ecput r c ps;
     Some (s, ps, r + 1) })"

definition copy_redir ::
  "wordcode \<Rightarrow> estate \<times> parse_state \<times> nat \<Rightarrow> (estate \<times> parse_state \<times> nat) option" where
  "copy_redir code = (\<lambda>(s, ps, r). do {
     (_, s) \<leftarrow> fetch s;
     ps \<leftarrow> ecput r code ps;
     (fd, s) \<leftarrow> fetch s;
     ps \<leftarrow> ecput (r + 1) fd ps;
     x \<leftarrow> copy_string (s, ps, r + 2);
     x \<leftarrow> (if WC_REDIR_FROM_HEREDOC code then do { x \<leftarrow> copy_string x; copy_string x } else Some x);
     if WC_REDIR_VARID code then copy_string x else Some x })"

fun copy_redirs :: "nat \<Rightarrow> estate \<times> parse_state \<times> nat \<Rightarrow> (estate \<times> parse_state) option" where
  "copy_redirs 0 x = None"
| "copy_redirs (Suc n) (s, ps, r) = do {
     (code, _) \<leftarrow> fetch s;
     if wc_code code \<noteq> WC_REDIR then Some (s, ps)
     else do { x \<leftarrow> copy_redir code (s, ps, r); copy_redirs n x } }"

definition eccopyredirs ::
  "estate \<Rightarrow> parse_state \<Rightarrow> (eprog option \<times> estate \<times> parse_state) option" where
  "eccopyredirs s ps = do {
     (code, _) \<leftarrow> fetch s;
     if wc_code code \<noteq> WC_REDIR then Some (None, s, ps)
     else do {
       let ps = init_parse ps;
       ncodes \<leftarrow> count_redirs (Suc (length (pc s))) (pc s) 0;
       let r = ecused ps;
       ps \<leftarrow> ecispace r ncodes ps;
       (s, ps) \<leftarrow> copy_redirs (Suc (length (pc s))) (s, ps, r);
       (e, ps) \<leftarrow> bld_eprog False ps;
       Some (Some e, s, ps) } }"

section \<open>Functions\<close>

text \<open>
  What \<open>execfuncdef\<close> reads: \<open>w\<close> is the word \<open>state->pc[-1]\<close>.  The names (\<open>None\<close> for an
  anonymous function), the tracing flag, the program, and \<open>end\<close>.
\<close>

definition func_prog ::
  "wordcode \<Rightarrow> estate \<Rightarrow> (string list option \<times> bool \<times> eprog \<times> cell list) option" where
  "func_prog w s = do {
     let skip = unat (WC_FUNCDEF_SKIP w);
     end \<leftarrow> (if skip \<le> length (pc s) then Some (drop skip (pc s)) else None);
     (num, s) \<leftarrow> fetch s;
     ((names, htok), s) \<leftarrow> ecgetlist s (unat num) EC_DUPTOK;
     (sbeg, s) \<leftarrow> fetch s;
     (nstrs, s) \<leftarrow> fetch s;
     (np, s) \<leftarrow> fetch s;
     (tracing, s) \<leftarrow> fetch s;
     nprg \<leftarrow> (if length end \<le> length (pc s) then Some (length (pc s) - length end) else None);
     let len = nprg * sizeof_wordcode + unat np * sizeof_Patprog + unat nstrs;
     let base = sbase s + unat sbeg;
     e \<leftarrow> (if dump (eprogp s) \<noteq> 0 \<or> names = None
       then Some \<lparr>eflags = if names = None then EF_HEAP else EF_MAP, elen = len, npats = unat np,
              nref = if names = None then - 1 else 1, pats = replicate (unat np) dummy_patprog1,
              prog = pc s, stab = stab (eprogp s), sofs = base,
              dump = if names = None then 0 else dump (eprogp s)\<rparr>
       else if base + unat nstrs \<le> length (stab (eprogp s))
       then Some \<lparr>eflags = EF_REAL, elen = len, npats = unat np, nref = 1,
              pats = replicate (unat np) dummy_patprog1, prog = take nprg (pc s),
              stab = take (unat nstrs) (drop base (stab (eprogp s))), sofs = 0, dump = 0\<rparr>
       else None);
     Some (names, tracing \<noteq> 0, e, end) }"

text \<open>The arguments of an anonymous function, which follow its body, and where the next command is.\<close>

definition anon_args :: "estate \<Rightarrow> (string list option \<times> cell list) option" where
  "anon_args s = do {
     (n, s) \<leftarrow> (case pc s of Some n # _ \<Rightarrow> Some (n, s) | _ \<Rightarrow> None);
     end \<leftarrow> (if unat n \<le> length (pc s) then Some (drop (unat n) (pc s)) else None);
     (_, s) \<leftarrow> fetch s;
     (num, s) \<leftarrow> fetch s;
     ((args, _), s) \<leftarrow> ecgetlist s (unat num) EC_DUPTOK;
     Some (args, end) }"

section \<open>Autoloaded files\<close>

text \<open>
  \<open>stripkshdef\<close>: the body of the function a file defines and nothing else, if its name is the
  one asked for.  First the loop that compares the names.
\<close>

fun same_name :: "string \<Rightarrow> string \<Rightarrow> bool" where
  "same_name (a # s) (b # t) =
     (if a \<noteq> b \<and> a \<noteq> Dash \<and> a \<noteq> CHR ''-'' \<and> b \<noteq> Dash \<and> b \<noteq> CHR ''-'' then False
      else same_name s t)"
| "same_name s t = (s = [] \<and> t = [])"

definition only_funcdef :: "cell list \<Rightarrow> (bool \<times> wordcode \<times> cell list) option" where
  "only_funcdef cp = do {
     (code, cp) \<leftarrow> (case cp of Some w # ws \<Rightarrow> Some (w, ws) | _ \<Rightarrow> None);
     if wc_code code \<noteq> WC_LIST
        \<or> WC_LIST_TYPE code AND (Z_SYNC OR Z_END OR Z_SIMPLE) \<noteq> (Z_SYNC OR Z_END OR Z_SIMPLE)
     then Some (False, 0, [])
     else do {
       (code, cp) \<leftarrow> (case tl cp of Some w # ws \<Rightarrow> Some (w, ws) | _ \<Rightarrow> None);
       if wc_code code \<noteq> WC_FUNCDEF then Some (False, 0, [])
       else do {
         num \<leftarrow> (case cp of Some w # _ \<Rightarrow> Some w | _ \<Rightarrow> None);
         Some (num = 1, code, cp) } } }"

text \<open>
  Without a file there is nothing to do.  The reference count of a program on the heap is not
  written: \<open>junk\<close> is what its memory held.
\<close>

definition stripkshdef :: "int \<Rightarrow> eprog \<Rightarrow> string \<Rightarrow> eprog option" where
  "stripkshdef junk p name = do {
     (found, code, cp) \<leftarrow> only_funcdef (prog p);
     if \<not> found then Some p
     else do {
       (fname, _) \<leftarrow> ecrawstr p (tl cp);
       if \<not> same_name name fname then Some p
       else do {
         let skip = unat (WC_FUNCDEF_SKIP code);
         end \<leftarrow> (if skip \<le> length cp then Some (drop skip cp) else None);
         (sbeg, nstrs, np, cp) \<leftarrow> (case drop 2 cp of
             Some a # Some b # Some c # _ # ws \<Rightarrow> Some (a, b, c, ws) | _ \<Rightarrow> None);
         nprg \<leftarrow> (if length end \<le> length cp then Some (length cp - length end) else None);
         let len = nprg * sizeof_wordcode + unat np * sizeof_Patprog + unat nstrs;
         let base = sofs p + unat sbeg;
         let ps = replicate (unat np) dummy_patprog1;
         if eflags p AND EF_MAP \<noteq> 0
         then Some (p\<lparr>pats := ps, prog := cp, sofs := base, elen := len, npats := unat np\<rparr>)
         else if base + unat nstrs \<le> length (stab p)
         then Some \<lparr>eflags = EF_HEAP, elen = len, npats = unat np, nref = junk, pats = ps,
                prog = take nprg cp, stab = take (unat nstrs) (drop base (stab p)), sofs = 0, dump = 0\<rparr>
         else None } } }"

end
