(* ===== verification/Ec_Buffer.thy ===== *)
theory Ec_Buffer
  imports Ec_Read
begin

text \<open>
  The word buffer as a list of words: adding appends, \<open>ecispace\<close> inserts, \<open>ecdel\<close> deletes,
  the buffer grows when it has to, and the positions of here-documents follow their words.
\<close>

section \<open>The list of words\<close>

definition ecok :: "parse_state \<Rightarrow> bool" where
  "ecok s \<longleftrightarrow> (case ecbuf s of
     None \<Rightarrow> False
   | Some b \<Rightarrow> length b = eclen s \<and> ecused s \<le> eclen s \<and> 0 < eclen s)"

definition codes :: "parse_state \<Rightarrow> cell list" where
  "codes s = (case ecbuf s of None \<Rightarrow> [] | Some b \<Rightarrow> take (ecused s) b)"

lemma ecokD: "ecok s \<Longrightarrow> \<exists>b. ecbuf s = Some b \<and> length b = eclen s \<and> ecused s \<le> eclen s \<and> 0 < eclen s"
  by (auto simp: ecok_def split: option.splits)

lemma length_codes: "ecok s \<Longrightarrow> length (codes s) = ecused s"
  by (auto dest!: ecokD simp: codes_def)

text \<open>Nothing but the buffer changes.\<close>

definition rest :: "parse_state \<Rightarrow> parse_state" where
  "rest s = s\<lparr>ecbuf := None, eclen := 0, ecused := 0\<rparr>"

lemma rest_fields:
  "hdocs (rest s) = hdocs s" "ecnpats (rest s) = ecnpats s" "ecstrs (rest s) = ecstrs s"
  "ecsoffs (rest s) = ecsoffs s" "ecssub (rest s) = ecssub s" "ecnfunc (rest s) = ecnfunc s"
  by (simp_all add: rest_def)

lemma same_rest:
  assumes "rest s = rest t"
  shows "hdocs s = hdocs t" "ecnpats s = ecnpats t" "ecstrs s = ecstrs t" "ecsoffs s = ecsoffs t"
    "ecssub s = ecssub t" "ecnfunc s = ecnfunc t"
  using rest_fields [of s] rest_fields [of t] assms by simp_all

lemma rest_upd [simp]:
  "rest (s\<lparr>ecbuf := x\<rparr>) = rest s" "rest (s\<lparr>eclen := n\<rparr>) = rest s" "rest (s\<lparr>ecused := n\<rparr>) = rest s"
  by (simp_all add: rest_def)

lemma rest_adjust: "rest (ecadjusthere p d s) = ecadjusthere p d (rest s)"
  by (simp add: rest_def ecadjusthere_def)

section \<open>Growing\<close>

definition room :: "parse_state \<Rightarrow> nat \<Rightarrow> parse_state" where
  "room s n = (if int (eclen s) - int (ecused s) < int n
               then ec_realloc (eclen s + max n (ec_step s)) s else s)"

lemma ec_step_pos: "ecok s \<Longrightarrow> 0 < ec_step s"
  by (auto dest!: ecokD simp: ec_step_def EC_INCREMENT_def)

lemma room_spec:
  assumes "ecok s"
  shows "ecok (room s n)" "codes (room s n) = codes s" "rest (room s n) = rest s"
    "ecused (room s n) = ecused s" "ecused s + n \<le> eclen (room s n)"
proof -
  obtain b where b: "ecbuf s = Some b" "length b = eclen s" "ecused s \<le> eclen s" "0 < eclen s"
    using ecokD [OF assms] by blast
  show "ecok (room s n)" using b by (auto simp: ecok_def room_def ec_realloc_def Let_def)
  show "codes (room s n) = codes s" using b by (auto simp: codes_def room_def ec_realloc_def Let_def)
  show "rest (room s n) = rest s" by (simp add: room_def ec_realloc_def Let_def)
  show "ecused (room s n) = ecused s" by (simp add: room_def ec_realloc_def Let_def)
  show "ecused s + n \<le> eclen (room s n)" using b by (auto simp: room_def ec_realloc_def Let_def)
qed

section \<open>Operations\<close>

lemma ecput_spec:
  assumes "ecok s" "i < ecused s"
  obtains s' where "ecput i c s = Some s'" "ecok s'" "codes s' = (codes s)[i := Some c]"
    "rest s' = rest s" "ecused s' = ecused s"
proof -
  obtain b where b: "ecbuf s = Some b" "length b = eclen s" "ecused s \<le> eclen s" "0 < eclen s"
    using ecokD [OF assms(1)] by blast
  show thesis
    by (rule that [of "s\<lparr>ecbuf := Some (b[i := Some c])\<rparr>"])
      (use b assms(2) in \<open>auto simp: ecput_def ecok_def codes_def take_update_swap\<close>)
qed

lemma ecget_spec:
  assumes "ecok s" "i < ecused s"
  shows "ecget i s = codes s ! i"
  using ecokD [OF assms(1)] assms(2) by (auto simp: ecget_def codes_def)

lemma ecadd_room: "ecok s \<Longrightarrow> ecadd c s =
    do { s' \<leftarrow> ecput (ecused s) c (room s 1); Some (ecused s, s'\<lparr>ecused := ecused s + 1\<rparr>) }"
  by (auto dest: ec_step_pos simp: ecadd_def room_def Let_def ecput_def ec_realloc_def max_def
      Suc_le_eq split: option.splits)

lemma ecadd_spec:
  assumes "ecok s"
  obtains s' where "ecadd c s = Some (ecused s, s')" "ecok s'" "codes s' = codes s @ [Some c]"
    "rest s' = rest s" "ecused s' = ecused s + 1"
proof -
  obtain b where b: "ecbuf (room s 1) = Some b" "length b = eclen (room s 1)"
    "ecused s < eclen (room s 1)"
    using ecokD [OF room_spec(1) [OF assms]] room_spec(5) [OF assms, of 1] by (auto simp: Suc_le_eq)
  let ?s = "(room s 1)\<lparr>ecbuf := Some (b[ecused s := Some c]), ecused := ecused s + 1\<rparr>"
  have c: "codes s = take (ecused s) b"
    unfolding room_spec(2) [OF assms, of 1, symmetric] by (simp add: codes_def b(1) room_spec(4) [OF assms] del: One_nat_def)
  show thesis
  proof (rule that [of ?s])
    show "ecadd c s = Some (ecused s, ?s)" using b by (simp add: ecadd_room assms ecput_def)
    show "ecok ?s" using b by (simp add: ecok_def)
    show "codes ?s = codes s @ [Some c]" unfolding c using b by (simp add: codes_def take_Suc_conv_app_nth)
    show "rest ?s = rest s" using room_spec(3) [OF assms, of 1] by simp
  qed simp
qed

lemma take_gap:
  assumes "p \<le> u" "u + n \<le> length (b :: 'a list)"
  shows "take (u + n) (take (p + n) b @ take (u - p) (drop p b) @ z)
      = take p (take u b) @ take n (drop p (take (p + n) b @ take (u - p) (drop p b) @ z)) @ drop p (take u b)"
proof -
  obtain x r where b: "b = x @ r" "length x = p"
    using append_take_drop_id [of p b] assms by (metis add_leD1 le_trans length_take min_absorb2)
  have "take (p + n) b = x @ take n r" "take (u - p) (drop p b) = take (u - p) r"
    "take u b = x @ take (u - p) r" using b assms by auto
  moreover have "n \<le> length r" "length (take (u - p) r) = u - p" using b assms by auto
  ultimately show ?thesis using b(2) assms(1) by simp
qed

lemma ecbuf_same: "ecbuf s = x \<Longrightarrow> s\<lparr>ecbuf := x, ecused := n\<rparr> = s\<lparr>ecused := n\<rparr>"
  by (cases s) simp

lemma ecispace_spec:
  assumes "ecok s" "p \<le> ecused s"
  obtains s' gap where "ecispace p n s = Some s'" "ecok s'"
    "codes s' = take p (codes s) @ gap @ drop p (codes s)" "length gap = n"
    "rest s' = rest (ecadjusthere (int p) (int n) s)" "ecused s' = ecused s + n"
proof -
  let ?r = "room s n"
  obtain b where b: "ecbuf ?r = Some b" "length b = eclen ?r" "ecused s + n \<le> eclen ?r" "0 < eclen ?r"
    using ecokD [OF room_spec(1) [OF assms(1), of n]] room_spec(5) [OF assms(1), of n] by auto
  have c: "codes s = take (ecused s) b"
    unfolding room_spec(2) [OF assms(1), of n, symmetric] by (simp add: codes_def b(1) room_spec(4) [OF assms(1)])
  have u: "ecused ?r = ecused s" by (rule room_spec(4) [OF assms(1)])
  define b' where "b' = (if p < ecused s
      then take (p + n) b @ take (ecused s - p) (drop p b) @ drop (p + n + (ecused s - p)) b else b)"
  let ?s = "ecadjusthere (int p) (int n) (?r\<lparr>ecbuf := Some b', ecused := ecused s + n\<rparr>)"
  have lb: "length b' = length b" using assms(2) b by (auto simp: b'_def)
  show thesis
  proof (rule that [of ?s "take n (drop p b')"])
    have "?s = ecadjusthere (int p) (int n) (?r\<lparr>ecused := ecused s + n\<rparr>)" if "b' = b"
      unfolding that ecbuf_same [OF b(1)] ..
    then show "ecispace p n s = Some ?s"
      using b(1-3) u assms(2)
      by (cases "p < ecused s") (simp_all add: ecispace_def room_def [symmetric] ec_move_def b'_def)
    show "ecok ?s" using b lb by (simp add: ecok_def ecadjusthere_def)
    have "take (ecused s + n) b' = take p (take (ecused s) b) @ take n (drop p b') @ drop p (take (ecused s) b)"
    proof (cases "p < ecused s")
      case True
      show ?thesis unfolding b'_def if_P [OF True] by (rule take_gap) (use assms(2) b in auto)
    next
      case False
      then show ?thesis using assms(2) by (simp add: b'_def take_add)
    qed
    then show "codes ?s = take p (codes s) @ take n (drop p b') @ drop p (codes s)"
      unfolding c by (simp add: codes_def ecadjusthere_def)
    show "length (take n (drop p b')) = n" using b lb assms(2) by simp
    show "rest ?s = rest (ecadjusthere (int p) (int n) s)"
      using room_spec(3) [OF assms(1), of n] by (simp add: rest_adjust)
  qed (simp add: ecadjusthere_def)
qed

lemma ecdel_spec:
  assumes "ecok s" "p < ecused s"
  obtains s' where "ecdel p s = Some s'" "ecok s'"
    "codes s' = take p (codes s) @ drop (p + 1) (codes s)"
    "rest s' = rest (ecadjusthere (int p) (- 1) s)" "ecused s' = ecused s - 1"
proof -
  obtain b where b: "ecbuf s = Some b" "length b = eclen s" "ecused s \<le> eclen s" "0 < eclen s"
    using ecokD [OF assms(1)] by blast
  define m where "m = ecused s - p - 1"
  define b' where "b' = (if 0 < m then take p b @ take m (drop (p + 1) b) @ drop (p + m) b else b)"
  let ?s = "ecadjusthere (int p) (- 1) (s\<lparr>ecbuf := Some b', ecused := ecused s - 1\<rparr>)"
  have lb: "length b' = length b" using assms(2) b by (auto simp: b'_def m_def)
  have n: "int (ecused s) - int p - 1 = int m" using assms(2) by (simp add: m_def)
  show thesis
  proof (rule that [of ?s])
    have "?s = ecadjusthere (int p) (- 1) (s\<lparr>ecused := ecused s - 1\<rparr>)" if "b' = b"
      unfolding that ecbuf_same [OF b(1)] ..
    then show "ecdel p s = Some ?s"
      using b assms(2) unfolding ecdel_def n Let_def
      by (cases "0 < m") (auto simp: ec_move_def b'_def, auto simp: m_def)
    show "ecok ?s" using b lb by (simp add: ecok_def ecadjusthere_def)
    have "take (ecused s - 1) b' = take p (take (ecused s) b) @ drop (p + 1) (take (ecused s) b)"
    proof (cases "0 < m")
      case True
      have "ecused s - 1 = p + m" "ecused s = p + 1 + m" using assms(2) by (simp_all add: m_def)
      then show ?thesis using b by (simp add: b'_def True drop_take take_add)
    next
      case False
      then have "ecused s = p + 1" using assms(2) by (simp add: m_def)
      then show ?thesis using False by (simp add: b'_def)
    qed
    then show "codes ?s = take p (codes s) @ drop (p + 1) (codes s)"
      by (simp add: codes_def ecadjusthere_def b(1))
    show "rest ?s = rest (ecadjusthere (int p) (- 1) s)" by (simp add: rest_adjust)
  qed (simp add: ecadjusthere_def)
qed

section \<open>Here-documents\<close>

text \<open>The word a position refers to.\<close>

definition word_at :: "int \<Rightarrow> cell list \<Rightarrow> cell option" where
  "word_at i ws = (if 0 \<le> i \<and> nat i < length ws then Some (ws ! nat i) else None)"

definition here_words :: "parse_state \<Rightarrow> cell option list" where
  "here_words s = map (\<lambda>h. word_at (hpc h) (codes s)) (hdocs s)"

lemma word_at_insert:
  assumes "p \<le> length ws" "0 \<le> i"
  shows "word_at (if int p \<le> i then i + int (length gap) else i) (take p ws @ gap @ drop p ws) = word_at i ws"
proof (cases "int p \<le> i")
  case True
  have "nat (i + int (length gap)) = nat i + length gap" using assms(2) by simp
  moreover have "p \<le> nat i" using True by simp
  ultimately show ?thesis using True assms by (auto simp: word_at_def nth_append)
next
  case False
  then show ?thesis using assms by (auto simp: word_at_def nth_append)
qed

lemma word_at_delete:
  assumes "p < length ws" "0 \<le> i" "i \<noteq> int p"
  shows "word_at (if int p \<le> i then i + (- 1) else i) (take p ws @ drop (p + 1) ws) = word_at i ws"
proof (cases "int p \<le> i")
  case True
  then have "p < nat i" "nat (i - 1) = nat i - 1" using assms by simp_all
  moreover from this have "nat i - 1 < length ws - 1 \<longleftrightarrow> nat i < length ws" by linarith
  ultimately show ?thesis using True assms by (auto simp: word_at_def nth_append)
next
  case False
  then show ?thesis using assms by (auto simp: word_at_def nth_append)
qed

end
