(* ===== verification/Ec_Strings.thy ===== *)
theory Ec_Strings
  imports Ec_Buffer Hash_Keys
begin

text \<open>
  The strings of a parse: short ones packed in their word, long ones kept once in a binary
  tree.  What the tree holds, where its strings lie in the block, and that a word read in the
  program is the string it was made of.
\<close>

section \<open>Words of strings\<close>

lemma uchar_uc_word [simp]: "uchar (uc_word c) = c"
  by (simp add: uc_word_def uchar_def unat_of_nat take_bit_nat_eq_self
      order_less_trans [OF of_char_less_256])

lemma bit_uc_word: "bit (uc_word c) n \<Longrightarrow> n < 8"
proof -
  assume "bit (uc_word c) n"
  then have "bit (of_char c :: nat) n" by (simp add: uc_word_def bit_simps)
  then have "bit (take_bit 8 (of_char c :: nat)) n" by (simp add: take_bit_nat_eq_self)
  then show ?thesis by (simp add: bit_take_bit_iff)
qed

lemma small_words: "(255 :: wordcode) = mask 8" "(2 :: wordcode) = push_bit 1 1"
    "(3 :: wordcode) = mask 2" "(6 :: wordcode) = push_bit 1 (mask 2)" "(7 :: wordcode) = mask 3"
  by (simp_all add: mask_eq_exp_minus_1)

lemma packed:
  fixes t :: wordcode
  assumes "t = 2 \<or> t = 3" "w = t OR push_bit 19 (uc_word c) OR push_bit 11 (uc_word b) OR push_bit 3 (uc_word a)"
  shows "drop_bit 3 w AND 0xff = uc_word a" "drop_bit 11 w AND 0xff = uc_word b"
    "drop_bit 19 w AND 0xff = uc_word c" "w AND 2 \<noteq> 0" "w AND 1 = t AND 1" "w \<noteq> 6" "w \<noteq> 7"
proof -
  have t: "bit t n \<Longrightarrow> n < 2" "bit t 1" for n
    using assms(1) unfolding small_words by (auto simp: bit_simps)
  show "drop_bit 3 w AND 0xff = uc_word a" "drop_bit 11 w AND 0xff = uc_word b"
    "drop_bit 19 w AND 0xff = uc_word c" 
    unfolding small_words assms(2)
    by (rule bit_word_eqI, auto simp: bit_simps dest: bit_uc_word t(1))+
  show "w AND 1 = t AND 1" unfolding assms(2)
    by (rule bit_word_eqI, auto simp: bit_simps)
  have "\<not> bit w 2" unfolding assms(2) by (auto simp: bit_simps dest: t(1))
  moreover have "bit (6 :: wordcode) 2" "bit (7 :: wordcode) 2" by (simp_all add: bit_iff_odd_drop_bit)
  ultimately show "w \<noteq> 6" "w \<noteq> 7" by auto
  show "w AND 2 \<noteq> 0"
  proof
    assume "w AND 2 = 0"
    then have "\<not> bit (w AND 2) 1" by simp
    then show False using t(2) unfolding small_words assms(2) by (simp add: bit_simps)
  qed
qed

text \<open>The words of strings of at most three bytes.\<close>

lemma short_cases:
  assumes "length s \<le> 3"
  obtains "s = []" | a where "s = [a]" | a b where "s = [a, b]" | a b c where "s = [a, b, c]"
proof -
  have "s = [] \<or> (\<exists>a. s = [a]) \<or> (\<exists>a b. s = [a, b]) \<or> (\<exists>a b c. s = [a, b, c])"
    using assms by (cases s; cases "tl s"; cases "tl (tl s)") auto
  then show thesis using that by blast
qed

lemma uc_word_0: "c = NUL \<Longrightarrow> uc_word c = 0"
  by (simp add: uc_word_def)

lemma ec_short_packed:
  assumes "length s \<le> 3" "s \<noteq> []"
  shows "\<exists>a b c. ec_short s = (if has_token s then 3 else 2) OR push_bit 19 (uc_word c)
      OR push_bit 11 (uc_word b) OR push_bit 3 (uc_word a) \<and> cstr [a, b, c] = cstr s \<and> (a = NUL \<longrightarrow> s ! 0 = NUL)"
proof (cases rule: short_cases [OF assms(1)])
  case (2 a)
  then show ?thesis
    by (intro exI [of _ a] exI [of _ NUL]) (simp add: ec_short_def Let_def uc_word_0 cstr_def)
next
  case (3 a b)
  then show ?thesis
    by (intro exI [of _ a] exI [of _ b] exI [of _ NUL]) (simp add: ec_short_def Let_def uc_word_0 cstr_def)
next
  case (4 a b c)
  then show ?thesis
    by (intro exI [of _ a] exI [of _ b] exI [of _ c]) (simp add: ec_short_def Let_def uc_word_0 cstr_def)
qed (use assms in simp)

text \<open>What reading a word gives: the string of \<open>ecgetstr\<close> and \<open>ecrawstr\<close>.\<close>

definition ec_read :: "wordcode \<Rightarrow> char option list \<Rightarrow> nat \<Rightarrow> string option" where
  "ec_read c m base =
     (if c = 6 \<or> c = 7 then Some [] else if c AND 2 \<noteq> 0 then Some (short_str c) else in_block c m base)"

lemma ec_read_short:
  assumes "length s \<le> 3" "NUL \<notin> set s"
  shows "ec_read (ec_short s) m base = Some s" "ec_short s AND 1 \<noteq> 0 \<longleftrightarrow> has_token s"
proof -
  have "ec_read (ec_short s) m base = Some s \<and> (ec_short s AND 1 \<noteq> 0 \<longleftrightarrow> has_token s)"
  proof (cases "s = []")
    case True
    then show ?thesis by (simp add: ec_short_def ec_read_def)
  next
    case False
    then obtain a b c where p: "ec_short s = (if has_token s then 3 else 2) OR push_bit 19 (uc_word c)
      OR push_bit 11 (uc_word b) OR push_bit 3 (uc_word a)" "cstr [a, b, c] = cstr s"
      using ec_short_packed [OF assms(1)] by blast
    note w = packed [OF _ p(1)]
    have "short_str (ec_short s) = s" using w(1-3) p(2) assms(2) by (simp add: short_str_def)
    then show ?thesis using w(4-7) by (simp add: ec_read_def)
  qed
  then show "ec_read (ec_short s) m base = Some s" "ec_short s AND 1 \<noteq> 0 \<longleftrightarrow> has_token s" by auto
qed

lemma offset_word:
  assumes "n < 2 ^ 30" "t = 0 \<or> t = (1 :: wordcode)" "w = push_bit 2 (word_of_int (int n)) OR t"
  shows "w AND 2 = 0" "w AND 1 = t" "unat (drop_bit 2 w) = n" "w \<noteq> 6" "w \<noteq> 7"
proof -
  have t: "bit t n \<Longrightarrow> n = 0" for n using assms(2) by (auto simp: bit_simps)
  show z: "w AND 2 = 0" unfolding small_words assms(3)
    by (rule bit_word_eqI) (auto simp: bit_simps dest: t)
  show "w AND 1 = t" using assms(2) unfolding assms(3) by (auto intro!: bit_word_eqI simp: bit_simps)
  show "w \<noteq> 6" "w \<noteq> 7" using z by auto
  have b: "bit n k \<Longrightarrow> k < 30" for k
    using assms(1) by (metis bit_take_bit_iff take_bit_nat_eq_self)
  have "drop_bit 2 w = word_of_int (int n)" unfolding assms(3)
    by (rule bit_word_eqI) (auto simp: bit_simps dest: t b)
  then show "unat (drop_bit 2 w) = n" using assms(1)
    by (simp add: unat_of_nat take_bit_nat_eq_self)
qed

section \<open>The tree\<close>

fun ecc_nodes :: "eccstr \<Rightarrow> eccnode set" where
  "ecc_nodes NoStr = {}"
| "ecc_nodes (Str l p r) = insert p (ecc_nodes l \<union> ecc_nodes r)"

lemma finite_ecc_nodes [simp]: "finite (ecc_nodes t)"
  by (induction t) simp_all

text \<open>
  The comparison is no ordering, being a difference modulo \<open>2 ^ 32\<close>.  What a search needs is
  less: each node is where the comparisons on the way down lead.
\<close>

definition cmp_node :: "eccnode \<Rightarrow> eccnode \<Rightarrow> int" where
  "cmp_node p q = ec_cmp p (snfunc q) (hashval q) (estr q)"

fun routed :: "eccstr \<Rightarrow> bool" where
  "routed NoStr = True"
| "routed (Str l p r) \<longleftrightarrow> routed l \<and> routed r
     \<and> (\<forall>q \<in> ecc_nodes l. cmp_node p q < 0) \<and> (\<forall>q \<in> ecc_nodes r. 0 < cmp_node p q)"

text \<open>The key of a string: strings are shared within one function only.\<close>

definition ecc_key :: "eccnode \<Rightarrow> nat \<times> string" where
  "ecc_key p = (snfunc p, estr p)"

definition plain_node :: "eccnode \<Rightarrow> bool" where
  "plain_node p \<longleftrightarrow> hashval p = hasher (estr p) \<and> NUL \<notin> set (estr p)"

lemma strcmp_plain: "NUL \<notin> set s \<Longrightarrow> NUL \<notin> set t \<Longrightarrow> strcmp s t = 0 \<longleftrightarrow> s = t"
  by (simp add: strcmp_0)

lemma cmp_node_0:
  assumes "plain_node p" "plain_node q"
  shows "cmp_node p q = 0 \<longleftrightarrow> ecc_key p = ecc_key q"
  using assms by (auto simp: cmp_node_def ec_cmp_def Let_def ecc_key_def plain_node_def strcmp_plain)

lemma cmp_node_cong:
  "plain_node q \<Longrightarrow> plain_node q' \<Longrightarrow> ecc_key q = ecc_key q' \<Longrightarrow> cmp_node p q = cmp_node p q'"
  by (simp add: cmp_node_def ecc_key_def plain_node_def)

lemma ec_search_spec:
  assumes "routed t" "\<forall>p \<in> ecc_nodes t. plain_node p" "plain_node new"
  shows "case ec_search new t of
    (Some c, t') \<Rightarrow> t' = t \<and> (\<exists>p \<in> ecc_nodes t. ecc_key p = ecc_key new \<and> c = offs p)
  | (None, t') \<Rightarrow> (\<forall>p \<in> ecc_nodes t. ecc_key p \<noteq> ecc_key new) \<and> routed t'
       \<and> ecc_nodes t' = insert new (ecc_nodes t)"
  using assms
proof (induction t)
  case (Str l p r)
  have eq: "ecc_key q = ecc_key new \<Longrightarrow> cmp_node p q = cmp_node p new" if "q \<in> insert p (ecc_nodes l \<union> ecc_nodes r)" for q
    using Str.prems that by (intro cmp_node_cong) auto
  have p: "cmp_node p new = 0 \<longleftrightarrow> ecc_key p = ecc_key new"
    using Str.prems by (intro cmp_node_0) auto
  have c: "ec_cmp p (snfunc new) (hashval new) (estr new) = cmp_node p new" by (simp add: cmp_node_def)
  consider "cmp_node p new = 0" | "cmp_node p new < 0" | "0 < cmp_node p new" by linarith
  then show ?case
  proof cases
    case 1
    then show ?thesis using p by (simp add: c)
  next
    case 2
    then have r: "\<forall>q \<in> ecc_nodes r. ecc_key q \<noteq> ecc_key new" "ecc_key p \<noteq> ecc_key new"
      using Str.prems eq p by force+
    show ?thesis using Str.IH(1) Str.prems 2 r
      by (auto simp: c split: prod.splits option.splits)
  next
    case 3
    then have l: "\<forall>q \<in> ecc_nodes l. ecc_key q \<noteq> ecc_key new" "ecc_key p \<noteq> ecc_key new"
      using Str.prems eq p by force+
    show ?thesis using Str.IH(2) Str.prems 3 l
      by (auto simp: c split: prod.splits option.splits)
  qed
qed simp

section \<open>The block of strings\<close>

text \<open>The strings in the order of their first use, each with its terminator.\<close>

definition ecc_bytes :: "eccnode \<Rightarrow> string" where
  "ecc_bytes p = estr p @ [NUL]"

definition block :: "eccnode list \<Rightarrow> string" where
  "block xs = concat (map ecc_bytes xs)"

lemma block_simps [simp]: "block [] = []" "block (xs @ ys) = block xs @ block ys" "block [x] = ecc_bytes x"
  by (simp_all add: block_def)

definition laid :: "eccnode list \<Rightarrow> bool" where
  "laid xs \<longleftrightarrow> (\<forall>ys x zs. xs = ys @ x # zs \<longrightarrow> aoffs x = length (block ys))"

lemma laid_snoc: "laid (xs @ [x]) \<longleftrightarrow> laid xs \<and> aoffs x = length (block xs)"
proof
  assume l: "laid (xs @ [x])"
  have "aoffs y = length (block ys)" if "xs = ys @ y # zs" for ys y zs
    using l that unfolding laid_def by simp
  then show "laid xs \<and> aoffs x = length (block xs)" using l unfolding laid_def by auto
next
  assume l: "laid xs \<and> aoffs x = length (block xs)"
  have "aoffs y = length (block ys)" if "xs @ [x] = ys @ y # zs" for ys y zs
    using that l unfolding laid_def by (cases zs rule: rev_cases) auto
  then show "laid (xs @ [x])" unfolding laid_def by blast
qed

lemma laid_at:
  assumes "laid xs" "x \<in> set xs"
  shows "aoffs x + length (ecc_bytes x) \<le> length (block xs)"
    "take (length (ecc_bytes x)) (drop (aoffs x) (block xs)) = ecc_bytes x"
proof -
  obtain ys zs where xs: "xs = ys @ x # zs" using assms(2) by (meson split_list)
  then have a: "aoffs x = length (block ys)" using assms(1) by (auto simp: laid_def)
  have b: "block xs = block ys @ ecc_bytes x @ block zs" by (simp add: xs block_def)
  show "aoffs x + length (ecc_bytes x) \<le> length (block xs)" by (simp add: a b)
  show "take (length (ecc_bytes x)) (drop (aoffs x) (block xs)) = ecc_bytes x" by (simp add: a b)
qed

lemma laid_cover:
  assumes "laid xs" "i < length (block xs)"
  shows "\<exists>x \<in> set xs. aoffs x \<le> i \<and> i < aoffs x + length (ecc_bytes x)"
  using assms
proof (induction xs rule: rev_induct)
  case (snoc x xs)
  then show ?case by (cases "i < length (block xs)") (auto simp: laid_snoc)
qed simp

lemma blit_nth:
  assumes "i + length bs \<le> length m"
  obtains m' where "blit i bs m = Some m'" "length m' = length m"
    "\<And>k. k < length m \<Longrightarrow> m' ! k = (if i \<le> k \<and> k < i + length bs then bs ! (k - i) else m ! k)"
proof
  show "blit i bs m = Some (take i m @ bs @ drop (i + length bs) m)" using assms by (simp add: blit_def)
qed (use assms in \<open>auto simp: nth_append\<close>)

lemma copy_ecstr_spec:
  assumes "\<forall>p \<in> ecc_nodes t. aoffs p + length (ecc_bytes p) \<le> length B
      \<and> take (length (ecc_bytes p)) (drop (aoffs p) B) = ecc_bytes p" "length m = length B"
  shows "\<exists>m'. copy_ecstr t m = Some m' \<and> length m' = length B \<and> (\<forall>k < length B. m' ! k =
    (if \<exists>p \<in> ecc_nodes t. aoffs p \<le> k \<and> k < aoffs p + length (ecc_bytes p) then Some (B ! k) else m ! k))"
  using assms
proof (induction t arbitrary: m)
  case (Str l p r)
  have p: "aoffs p + length (ecc_bytes p) \<le> length m"
    "take (length (ecc_bytes p)) (drop (aoffs p) B) = ecc_bytes p" using Str.prems by auto
  obtain m1 where m1: "blit (aoffs p) (map Some (ecc_bytes p)) m = Some m1" "length m1 = length m"
    "\<And>k. k < length m \<Longrightarrow> m1 ! k = (if aoffs p \<le> k \<and> k < aoffs p + length (ecc_bytes p)
       then map Some (ecc_bytes p) ! (k - aoffs p) else m ! k)"
    using blit_nth [of "aoffs p" "map Some (ecc_bytes p)" m] p(1) by auto
  have at: "ecc_bytes p ! (k - aoffs p) = B ! k" if "aoffs p \<le> k" "k < aoffs p + length (ecc_bytes p)" for k
  proof -
    have "ecc_bytes p ! (k - aoffs p) = take (length (ecc_bytes p)) (drop (aoffs p) B) ! (k - aoffs p)"
      by (simp only: p(2))
    then show ?thesis using that p(1) Str.prems(2) by simp
  qed
  obtain m2 where m2: "copy_ecstr l m1 = Some m2" "length m2 = length B" "\<forall>k < length B. m2 ! k =
    (if \<exists>p \<in> ecc_nodes l. aoffs p \<le> k \<and> k < aoffs p + length (ecc_bytes p) then Some (B ! k) else m1 ! k)"
    using Str.IH(1) [of m1] Str.prems m1(2) by auto
  obtain m3 where m3: "copy_ecstr r m2 = Some m3" "length m3 = length B" "\<forall>k < length B. m3 ! k =
    (if \<exists>p \<in> ecc_nodes r. aoffs p \<le> k \<and> k < aoffs p + length (ecc_bytes p) then Some (B ! k) else m2 ! k)"
    using Str.IH(2) [of m2] Str.prems m2(2) by auto
  show ?case
  proof (intro exI [of _ m3] conjI allI impI)
    show "copy_ecstr (Str l p r) m = Some m3" using m1(1) m2(1) m3(1) by (simp add: ecc_bytes_def)
    fix k assume k: "k < length B"
    have "map Some (ecc_bytes p) ! (k - aoffs p) = Some (B ! k)"
      if "aoffs p \<le> k" "k < aoffs p + length (ecc_bytes p)"
      using that at by (simp add: less_diff_conv2)
    then show "m3 ! k = (if \<exists>p \<in> ecc_nodes (Str l p r). aoffs p \<le> k \<and> k < aoffs p + length (ecc_bytes p)
        then Some (B ! k) else m ! k)"
      using m1(3) [of k] m2(3) m3(3) k Str.prems(2) by auto
  qed (rule m3(2))
qed simp

lemma copy_ecstr_block:
  assumes "laid xs" "set xs = ecc_nodes t" "length m = length (block xs)"
  shows "copy_ecstr t m = Some (map Some (block xs))"
proof -
  obtain m' where m: "copy_ecstr t m = Some m'" "length m' = length (block xs)"
    "\<forall>k < length (block xs). m' ! k = (if \<exists>p \<in> ecc_nodes t. aoffs p \<le> k \<and> k < aoffs p + length (ecc_bytes p)
      then Some (block xs ! k) else m ! k)"
    using copy_ecstr_spec [of t "block xs" m] laid_at [OF assms(1)] assms(2,3) by blast
  have "m' = map Some (block xs)"
    using m(2,3) laid_cover [OF assms(1)] assms(2) by (intro nth_equalityI) auto
  then show ?thesis using m(1) by simp
qed

section \<open>Reading in the block\<close>

lemma str_at_append: "str_at m = Some s \<Longrightarrow> str_at (m @ m') = Some s"
  by (induction m arbitrary: s rule: str_at.induct) (auto split: if_splits)

lemma str_at_string: "NUL \<notin> set s \<Longrightarrow> str_at (map Some (s @ [NUL]) @ m) = Some s"
  by (induction s) auto

lemma ec_read_drop: "ec_read c m base = ec_read c (drop base m) 0"
  by (simp add: ec_read_def in_block_def add.commute)

lemma ec_read_append: "ec_read c m 0 = Some s \<Longrightarrow> ec_read c (m @ m') 0 = Some s"
  by (auto simp: ec_read_def in_block_def str_at_append split: if_splits)

definition word_of_str :: "wordcode \<Rightarrow> string \<Rightarrow> string \<Rightarrow> bool" where
  "word_of_str w B s \<longleftrightarrow> ec_read w (map Some B) 0 = Some s \<and> (w AND 1 \<noteq> 0 \<longleftrightarrow> has_token s)"

lemma word_of_str_append: "word_of_str w B s \<Longrightarrow> word_of_str w (B @ B') s"
  by (simp add: word_of_str_def ec_read_append)

lemma word_of_short: "length s \<le> 3 \<Longrightarrow> NUL \<notin> set s \<Longrightarrow> word_of_str (ec_short s) B s"
  by (simp add: word_of_str_def ec_read_short)

definition long_word :: "nat \<Rightarrow> string \<Rightarrow> wordcode" where
  "long_word n s = push_bit 2 (word_of_int (int n)) OR (if has_token s then 1 else 0)"

lemma word_of_long:
  assumes "laid xs" "p \<in> set xs" "plain_node p" "base \<le> aoffs p" "length (block xs) < base + 2 ^ 30"
  shows "word_of_str (long_word (aoffs p - base) (estr p)) (drop base (block xs)) (estr p)"
proof -
  let ?n = "aoffs p - base"
  have a: "aoffs p < length (block xs)" using laid_at(1) [OF assms(1,2)] by (simp add: ecc_bytes_def)
  then have "?n < 2 ^ 30" using assms(4,5) by linarith
  note w = offset_word [OF this _ refl, of "if has_token (estr p) then 1 else 0"]
  have "drop (aoffs p) (block xs) = ecc_bytes p @ drop (length (ecc_bytes p)) (drop (aoffs p) (block xs))"
    using laid_at(2) [OF assms(1,2)] by (metis append_take_drop_id)
  then have "str_at (map Some (drop (aoffs p) (block xs))) = Some (estr p)"
    using str_at_string assms(3) unfolding plain_node_def ecc_bytes_def by (metis map_append)
  then show ?thesis
    using w assms(4) unfolding word_of_str_def long_word_def ec_read_def in_block_def
    by (auto simp: drop_map)
qed

section \<open>The strings of a parse\<close>

definition strs_ok :: "parse_state \<Rightarrow> eccnode list \<Rightarrow> bool" where
  "strs_ok s xs \<longleftrightarrow> routed (ecstrs s) \<and> set xs = ecc_nodes (ecstrs s) \<and> distinct (map ecc_key xs) \<and> laid xs
     \<and> ecsoffs s = length (block xs) \<and> ecssub s \<le> ecsoffs s
     \<and> (\<forall>p \<in> set xs. plain_node p \<and> 3 < length (estr p) \<and> snfunc p \<le> ecnfunc s
          \<and> (snfunc p = ecnfunc s \<longrightarrow> ecssub s \<le> aoffs p \<and> offs p = long_word (aoffs p - ecssub s) (estr p)))"

lemma strs_okD:
  assumes "strs_ok s xs"
  shows "routed (ecstrs s)" "set xs = ecc_nodes (ecstrs s)" "distinct (map ecc_key xs)" "laid xs"
    "ecsoffs s = length (block xs)" "ecssub s \<le> ecsoffs s"
    "\<And>p. p \<in> set xs \<Longrightarrow> plain_node p \<and> 3 < length (estr p) \<and> snfunc p \<le> ecnfunc s"
    "\<And>p. p \<in> set xs \<Longrightarrow> snfunc p = ecnfunc s \<Longrightarrow>
       ecssub s \<le> aoffs p \<and> offs p = long_word (aoffs p - ecssub s) (estr p)"
  using assms unfolding strs_ok_def by blast+

lemma strs_ok_rest: "rest s = rest s' \<Longrightarrow> strs_ok s xs \<longleftrightarrow> strs_ok s' xs"
  by (simp add: strs_ok_def same_rest [of s s'])

text \<open>The word a string has been given: the tree as a map.\<close>

definition str_words :: "eccnode list \<Rightarrow> nat \<times> string \<rightharpoonup> wordcode" where
  "str_words xs = map_of (map (\<lambda>p. (ecc_key p, offs p)) xs)"

lemma str_words_node: "distinct (map ecc_key xs) \<Longrightarrow> p \<in> set xs \<Longrightarrow> str_words xs (ecc_key p) = Some (offs p)"
  by (auto simp: str_words_def o_def intro!: map_of_is_SomeI)

lemma str_words_None: "str_words xs k = None \<longleftrightarrow> (\<forall>p \<in> set xs. ecc_key p \<noteq> k)"
  by (auto simp: str_words_def map_of_eq_None_iff image_image image_iff)

lemma str_words_SomeD: "str_words xs k = Some w \<Longrightarrow> \<exists>p \<in> set xs. ecc_key p = k \<and> offs p = w"
  unfolding str_words_def by (drule map_of_SomeD) auto

lemma str_words_append: "str_words xs k = Some w \<Longrightarrow> str_words (xs @ ys) k = Some w"
  by (simp add: str_words_def map_add_def)

lemma ec_new_simps [simp]:
  "estr (ec_new str s) = str" "snfunc (ec_new str s) = ecnfunc s" "hashval (ec_new str s) = hasher str"
  "aoffs (ec_new str s) = ecsoffs s" "ecc_key (ec_new str s) = (ecnfunc s, str)"
  by (simp_all add: ec_new_def ecc_key_def)

lemma ec_new_offs: "ecssub s \<le> ecsoffs s \<Longrightarrow> offs (ec_new str s) = long_word (ecsoffs s - ecssub s) str"
  by (simp add: ec_new_def long_word_def of_nat_diff)

text \<open>A short string leaves the state alone, a long one that was there too; a new one is put behind the others.\<close>

lemma ecstrcode_spec:
  assumes "strs_ok s xs" "NUL \<notin> set str"
  shows "if length str \<le> 3 then ecstrcode str s = (ec_short str, s)
    else case str_words xs (ecnfunc s, str) of
      Some w \<Rightarrow> ecstrcode str s = (w, s)
    | None \<Rightarrow> \<exists>t. ecstrcode str s = (long_word (ecsoffs s - ecssub s) str, s\<lparr>ecstrs := t, ecsoffs := ecsoffs s + (length str + 1)\<rparr>)
         \<and> strs_ok (s\<lparr>ecstrs := t, ecsoffs := ecsoffs s + (length str + 1)\<rparr>) (xs @ [ec_new str s])"
proof (cases "length str \<le> 3")
  case True
  then show ?thesis by (simp add: ecstrcode_def Let_def)
next
  case False
  note ok = strs_okD [OF assms(1)]
  let ?new = "ec_new str s"
  have new: "plain_node ?new" using assms(2) by (simp add: plain_node_def)
  have nodes: "\<forall>p \<in> ecc_nodes (ecstrs s). plain_node p" using ok(2,7) by blast
  obtain c t where ct: "ec_search ?new (ecstrs s) = (c, t)" by fastforce
  note sp = ec_search_spec [OF ok(1) nodes new, unfolded ct, simplified]
  show ?thesis
  proof (cases c)
    case (Some w)
    then obtain p where p: "p \<in> set xs" "ecc_key p = ecc_key ?new" "w = offs p" using sp ok(2) by auto
    then have "str_words xs (ecnfunc s, str) = Some w"
      using str_words_node [OF ok(3) p(1)] by simp
    then show ?thesis using False by (simp add: ecstrcode_def Let_def ct Some)
  next
    case None
    let ?s = "s\<lparr>ecstrs := t, ecsoffs := ecsoffs s + (length str + 1)\<rparr>"
    have sp: "\<forall>p \<in> set xs. ecc_key p \<noteq> (ecnfunc s, str)" "routed t" "ecc_nodes t = insert ?new (set xs)"
      using sp ok(2) by (auto simp: None)
    have "strs_ok ?s (xs @ [?new])"
      unfolding strs_ok_def using ok sp new False
      by (auto simp: laid_snoc ecc_bytes_def ec_new_offs)
    moreover have "str_words xs (ecnfunc s, str) = None" using sp(1) by (simp add: str_words_None)
    moreover have "ecstrcode str s = (long_word (ecsoffs s - ecssub s) str, ?s)"
      using False by (simp add: ecstrcode_def Let_def ct None ec_new_offs [OF ok(6)])
    ultimately show ?thesis using False by simp blast
  qed
qed

text \<open>In all cases the word is that of the string in what follows the base.\<close>

definition grows :: "eccnode list \<Rightarrow> eccnode list \<Rightarrow> bool" where
  "grows xs ys \<longleftrightarrow> (\<exists>zs. ys = xs @ zs)"

lemma grows_refl [simp]: "grows xs xs"
  by (simp add: grows_def)

lemma grows_trans: "grows xs ys \<Longrightarrow> grows ys zs \<Longrightarrow> grows xs zs"
  by (auto simp: grows_def)

lemma ecstrcode_word:
  assumes "strs_ok s xs" "NUL \<notin> set str" "length (block xs) + length str + 1 < ecssub s + 2 ^ 30"
  obtains w s' ys where "ecstrcode str s = (w, s')" "strs_ok s' ys" "grows xs ys"
    "s' = s\<lparr>ecstrs := ecstrs s', ecsoffs := ecsoffs s'\<rparr>"
    "word_of_str w (drop (ecssub s) (block ys)) str"
    "length (block ys) \<le> length (block xs) + length str + 1"
proof -
  note ok = strs_okD [OF assms(1)] and sp = ecstrcode_spec [OF assms(1,2)]
  consider "length str \<le> 3" | w where "\<not> length str \<le> 3" "str_words xs (ecnfunc s, str) = Some w"
    | "\<not> length str \<le> 3" "str_words xs (ecnfunc s, str) = None" by fastforce
  then show thesis
  proof cases
    case 1
    then show ?thesis using sp assms(1,2) by (intro that [of "ec_short str" s xs]) (simp_all add: word_of_short)
  next
    case (2 w)
    then obtain p where p: "p \<in> set xs" "ecc_key p = (ecnfunc s, str)" "w = offs p"
      by (auto dest: str_words_SomeD)
    then have k: "snfunc p = ecnfunc s" "estr p = str" by (simp_all add: ecc_key_def)
    have "word_of_str w (drop (ecssub s) (block xs)) str"
      using word_of_long [OF ok(4) p(1), of "ecssub s"] ok(7,8) [OF p(1)] k p(3) assms(3) by auto
    then show ?thesis using sp assms(1) 2 by (intro that [of w s xs]) simp_all
  next
    case 3
    then obtain t where t: "ecstrcode str s = (long_word (ecsoffs s - ecssub s) str,
        s\<lparr>ecstrs := t, ecsoffs := ecsoffs s + (length str + 1)\<rparr>)"
      "strs_ok (s\<lparr>ecstrs := t, ecsoffs := ecsoffs s + (length str + 1)\<rparr>) (xs @ [ec_new str s])"
      using sp by auto
    note ok' = strs_okD [OF t(2)]
    have "word_of_str (long_word (ecsoffs s - ecssub s) str) (drop (ecssub s) (block (xs @ [ec_new str s]))) str"
      using word_of_long [OF ok'(4), of "ec_new str s" "ecssub s"] ok'(7) [of "ec_new str s"] ok(5,6) assms(3)
      by (simp add: ecc_bytes_def)
    then show ?thesis
      by (intro that [OF t]) (auto simp: grows_def ecc_bytes_def)
  qed
qed

end
