(* ===== verification/Ec_Funcs.thy ===== *)
theory Ec_Funcs
  imports Ec_Strings
begin

text \<open>
  Programs with strings, patterns and nested functions: what the parser writes is what the
  program counter meets, also in the programs \<open>execfuncdef\<close> makes of the functions.
\<close>

section \<open>Programs in outline\<close>

text \<open>
  The words of a program that depend on where they are: strings, the numbers of patterns and
  function definitions, with names, body, and arguments for an anonymous function.
\<close>

datatype item = Text string | Pattern | Func bool "string list" "item list" "string list"

fun emit :: "item list \<Rightarrow> parse_state \<Rightarrow> parse_state option" where
  "emit [] = Some"
| "emit (Text str # is) = (\<lambda>s. do { (_, s) \<leftarrow> ecstr str s; emit is s })"
| "emit (Pattern # is) = (\<lambda>s. do {
     (_, s) \<leftarrow> ecadd (of_nat (ecnpats s)) (s\<lparr>ecnpats := ecnpats s + 1\<rparr>); emit is s })"
| "emit (Func tracing names items args # is) = (\<lambda>s. do {
     s \<leftarrow> par_funcdef tracing names (emit items) args s; emit is s })"

text \<open>What is met from the program counter on: the items, then the end of the program.\<close>

definition listed :: "string list \<Rightarrow> string list option" where
  "listed l = (if l = [] then None else Some l)"

fun reads :: "item list \<Rightarrow> estate \<Rightarrow> bool" where
  "reads [] = (\<lambda>s. map_option fst (fetch s) = Some WCB_END)"
| "reads (Text str # is) = (\<lambda>s. case ecgetstr s EC_DUPTOK of
     None \<Rightarrow> False | Some ((r, _, tok), s) \<Rightarrow> r = str \<and> tok = has_token str \<and> reads is s)"
| "reads (Pattern # is) = (\<lambda>s. case fetch s of
     None \<Rightarrow> False | Some (w, s) \<Rightarrow> unat w < length (pats (eprogp s)) \<and> reads is s)"
| "reads (Func tracing names items args # is) = (\<lambda>s. case fetch s of
     None \<Rightarrow> False | Some (w, s) \<Rightarrow> wc_code w = WC_FUNCDEF \<and> (case func_prog w s of
       None \<Rightarrow> False
     | Some (ns, tr, e, end) \<Rightarrow> ns = listed names \<and> tr = tracing \<and> reads items (enter_prog e)
         \<and> (if names \<noteq> [] then reads is (s\<lparr>pc := end\<rparr>)
            else case anon_args (s\<lparr>pc := end\<rparr>) of
              None \<Rightarrow> False
            | Some (as, end) \<Rightarrow> as = listed args \<and> reads is (s\<lparr>pc := end\<rparr>))))"

section \<open>The words of an outline\<close>

abbreviation words_of_strs :: "cell list \<Rightarrow> string \<Rightarrow> string list \<Rightarrow> bool" where
  "words_of_strs ws B strs \<equiv> list_all2 (\<lambda>c str. \<exists>w. c = Some w \<and> word_of_str w B str) ws strs"

definition arg_words :: "string list \<Rightarrow> string list \<Rightarrow> cell list \<Rightarrow> string \<Rightarrow> bool" where
  "arg_words names args ws B \<longleftrightarrow>
     (if names \<noteq> [] then ws = []
      else \<exists>vs. ws = Some (of_nat (length args + 2)) # Some (of_nat (length args)) # vs \<and> words_of_strs vs B args
        \<and> length args + 2 < 2 ^ 27)"

definition func_skip :: "nat \<Rightarrow> nat \<Rightarrow> nat" where
  "func_skip num len = num + len + 6"

text \<open>\<open>n\<close> is the number of patterns of the program, \<open>B\<close> its strings.\<close>

inductive coded :: "nat \<Rightarrow> string \<Rightarrow> item list \<Rightarrow> cell list \<Rightarrow> bool" where
  Nil: "coded n B [] []"
| Text: "word_of_str w B str \<Longrightarrow> coded n B is ws \<Longrightarrow> coded n B (Text str # is) (Some w # ws)"
| Pattern: "unat w < n \<Longrightarrow> coded n B is ws \<Longrightarrow> coded n B (Pattern # is) (Some w # ws)"
| Func: "h = WCB_FUNCDEF (of_nat (func_skip (length names) (length bws))) \<Longrightarrow>
    func_skip (length names) (length bws) < 2 ^ 27 \<Longrightarrow>
    words_of_strs nws B names \<Longrightarrow>
    unat sbeg + unat nstrs \<le> length B \<Longrightarrow>
    coded (unat np) (take (unat nstrs) (drop (unat sbeg) B)) items bws \<Longrightarrow>
    arg_words names args aws B \<Longrightarrow>
    coded n B is ws \<Longrightarrow>
    coded n B (Func tracing names items args # is)
      (Some h # Some (of_nat (length names)) # nws @ Some sbeg # Some nstrs # Some np
        # Some (if tracing then 1 else 0) # bws @ Some WCB_END # aws @ ws)"

lemma words_of_strs_append: "words_of_strs ws B strs \<Longrightarrow> words_of_strs ws (B @ B') strs"
  by (erule list_all2_mono) (auto intro: word_of_str_append)

lemma arg_words_append: "arg_words names args ws B \<Longrightarrow> arg_words names args ws (B @ B')"
  unfolding arg_words_def using words_of_strs_append by (auto split: if_splits)

lemma coded_mono: "coded n B is ws \<Longrightarrow> n \<le> n' \<Longrightarrow> coded n' (B @ B') is ws"
proof (induction arbitrary: n' B' rule: coded.induct)
  case (Func h names bws nws B sbeg nstrs np items args aws n "is" ws tracing)
  show ?case
  proof (rule coded.Func)
    have "take (unat nstrs) (drop (unat sbeg) (B @ B')) = take (unat nstrs) (drop (unat sbeg) B)"
      using Func.hyps(4) by simp
    then show "coded (unat np) (take (unat nstrs) (drop (unat sbeg) (B @ B'))) items bws"
      using Func.hyps(5) by (simp only:)
  qed (use Func in \<open>auto intro: words_of_strs_append arg_words_append\<close>)
qed (auto intro: coded.intros word_of_str_append)

section \<open>Reading\<close>

lemma ecgetstr_read:
  assumes "pc s = Some w # ws" "ec_read w (drop (sbase s) (stab (eprogp s))) 0 = Some str"
  shows "\<exists>copied. ecgetstr s dup = Some ((str, copied, w AND 1 \<noteq> 0), s\<lparr>pc := ws\<rparr>)"
proof -
  have r: "ec_read w (stab (eprogp s)) (sbase s) = Some str" using assms(2) ec_read_drop by metis
  have f: "fetch s = Some (w, s\<lparr>pc := ws\<rparr>)" by (simp add: fetch_def assms(1))
  consider "w = 6 \<or> w = 7" | "\<not> (w = 6 \<or> w = 7)" "w AND 2 \<noteq> 0" | "\<not> (w = 6 \<or> w = 7)" "w AND 2 = 0" by blast
  then show ?thesis
  proof cases
    case 1
    then show ?thesis using r by (simp add: ecgetstr_def f ec_read_def Let_def)
  next
    case 2
    then show ?thesis using r by (auto simp: ecgetstr_def f ec_read_def Let_def)
  next
    case 3
    then have "in_block w (stab (eprogp s)) (sbase s) = Some str" using r by (simp add: ec_read_def)
    then show ?thesis using 3 by (simp add: ecgetstr_def f Let_def)
  qed
qed

lemma ecgetstr_word:
  assumes "pc s = Some w # ws" "drop (sbase s) (stab (eprogp s)) = map Some B @ m" "word_of_str w B str"
  shows "\<exists>copied. ecgetstr s dup = Some ((str, copied, has_token str), s\<lparr>pc := ws\<rparr>)"
proof -
  have "ec_read w (drop (sbase s) (stab (eprogp s))) 0 = Some str"
    unfolding assms(2) using assms(3) by (intro ec_read_append) (simp add: word_of_str_def)
  from ecgetstr_read [OF assms(1) this] show ?thesis using assms(3) by (simp add: word_of_str_def)
qed

lemma ecgetarr_words:
  assumes "words_of_strs vs B strs" "pc s = vs @ ws" "drop (sbase s) (stab (eprogp s)) = map Some B @ m"
  shows "ecgetarr s (length strs) dup = Some ((strs, list_ex has_token strs), s\<lparr>pc := ws\<rparr>)"
  using assms
proof (induction arbitrary: s rule: list_all2_induct)
  case (Cons c cs str strs)
  obtain w where w: "c = Some w" "word_of_str w B str" using Cons.hyps(1) by blast
  obtain cp where g: "ecgetstr s dup = Some ((str, cp, has_token str), s\<lparr>pc := cs @ ws\<rparr>)"
    using ecgetstr_word [of s w "cs @ ws" B m str dup] w Cons.prems by auto
  show ?case using Cons.IH [of "s\<lparr>pc := cs @ ws\<rparr>"] Cons.prems by (simp add: g)
qed simp

lemma ecgetlist_words:
  assumes "words_of_strs vs B strs" "pc s = vs @ ws" "drop (sbase s) (stab (eprogp s)) = map Some B @ m"
  shows "ecgetlist s (length strs) dup = Some ((listed strs, list_ex has_token strs), s\<lparr>pc := ws\<rparr>)"
  using ecgetarr_words [OF assms] assms(1,2)
  by (cases strs) (auto simp: ecgetlist_def listed_def)

lemma fetch_Some: "pc s = Some w # ws \<Longrightarrow> fetch s = Some (w, s\<lparr>pc := ws\<rparr>)"
  by (simp add: fetch_def)

lemma bit_below:
  fixes w :: wordcode
  assumes "unat w < 2 ^ k" "bit w n"
  shows "n < k"
proof -
  have "bit (unat w) n" using assms(2) by (simp add: bit_simps)
  then show ?thesis using assms(1) by (metis bit_take_bit_iff take_bit_nat_eq_self)
qed

lemma wc_bld_fields:
  assumes "unat d < 2 ^ 27" "unat c < 2 ^ 5"
  shows "wc_data (wc_bld c d) = d" "wc_code (wc_bld c d) = c"
proof -
  note d = bit_below [OF assms(1)] and c = bit_below [OF assms(2)]
  have m: "push_bit 5 1 - 1 = (mask 5 :: wordcode)" by (simp add: mask_eq_exp_minus_1)
  show "wc_data (wc_bld c d) = d" unfolding wc_defs
    by (rule bit_word_eqI) (auto simp: bit_simps dest: c d)
  show "wc_code (wc_bld c d) = c" unfolding wc_defs m
    by (rule bit_word_eqI) (auto simp: bit_simps dest: c d)
qed

lemma func_prog_coded:
  assumes pc: "pc s = Some (of_nat (length names)) # nws @ Some sbeg # Some nstrs # Some np # Some tw
      # bws @ Some WCB_END # tail"
    and skip: "unat (WC_FUNCDEF_SKIP w) = func_skip (length names) (length bws)"
    and n: "length names < 2 ^ 32" and nws: "words_of_strs nws B names"
    and B: "drop (sbase s) (stab (eprogp s)) = map Some B @ m"
    and sb: "sbase s \<le> length (stab (eprogp s))"
    and ins: "unat sbeg + unat nstrs \<le> length B"
  obtains e ws m' where "func_prog w s = Some (listed names, tw \<noteq> 0, e, tail)"
    "prog e = bws @ Some WCB_END # ws" "length (pats e) = unat np"
    "drop (sofs e) (stab e) = map Some (take (unat nstrs) (drop (unat sbeg) B)) @ m'"
    "sofs e \<le> length (stab e)"
proof -
  have l: "length nws = length names" using nws by (rule list_all2_lengthD)
  have u: "unat (of_nat (length names) :: wordcode) = length names"
    using n by (simp add: unat_of_nat take_bit_nat_eq_self)
  have d: "func_skip (length names) (length bws) \<le> length (pc s)"
    "drop (func_skip (length names) (length bws)) (pc s) = tail"
  proof -
    let ?f = "Some (of_nat (length names)) # nws @ [Some sbeg, Some nstrs, Some np, Some tw] @ bws @ [Some WCB_END]"
    have p: "pc s = ?f @ tail" by (simp add: pc)
    have f: "func_skip (length names) (length bws) = length ?f" by (simp add: func_skip_def l)
    have dl: "length xs \<le> length (xs @ ys)" "drop (length xs) (xs @ ys) = ys" for xs ys :: "cell list"
      by simp_all
    show "func_skip (length names) (length bws) \<le> length (pc s)"
      "drop (func_skip (length names) (length bws)) (pc s) = tail" unfolding p f by (rule dl)+
  qed
  let ?s = "s\<lparr>pc := nws @ Some sbeg # Some nstrs # Some np # Some tw # bws @ Some WCB_END # tail\<rparr>"
  have g: "ecgetlist ?s (length names) EC_DUPTOK = Some ((listed names, list_ex has_token names),
      ?s\<lparr>pc := Some sbeg # Some nstrs # Some np # Some tw # bws @ Some WCB_END # tail\<rparr>)"
    by (rule ecgetlist_words [OF nws]) (simp_all add: B)
  let ?len = "(length bws + 1) * sizeof_wordcode + unat np * sizeof_Patprog + unat nstrs"
  let ?base = "sbase s + unat sbeg"
  have dr: "drop ?base (stab (eprogp s)) = map Some (drop (unat sbeg) B) @ m"
  proof -
    have "drop ?base (stab (eprogp s)) = drop (unat sbeg) (drop (sbase s) (stab (eprogp s)))"
      by (simp add: add.commute)
    then show ?thesis using ins unfolding B by (simp add: drop_map)
  qed
  have split: "map Some (drop (unat sbeg) B) @ m =
      map Some (take (unat nstrs) (drop (unat sbeg) B)) @ map Some (drop (unat nstrs) (drop (unat sbeg) B)) @ m"
    by (simp only: append_assoc [symmetric] map_append [symmetric] append_take_drop_id)
  have fits: "?base + unat nstrs \<le> length (stab (eprogp s))"
    using arg_cong [OF B, of length] ins sb by simp
  show thesis
  proof (cases "dump (eprogp s) \<noteq> 0 \<or> listed names = None")
    case True
    let ?e = "\<lparr>eflags = if listed names = None then EF_HEAP else EF_MAP, elen = ?len, npats = unat np,
              nref = if listed names = None then - 1 else 1, pats = replicate (unat np) dummy_patprog1,
              prog = bws @ Some WCB_END # tail, stab = stab (eprogp s), sofs = ?base,
              dump = if listed names = None then 0 else dump (eprogp s)\<rparr>"
    have "func_prog w s = Some (listed names, tw \<noteq> 0, ?e, tail)"
      using True unfolding func_prog_def skip Let_def d(2) if_P [OF d(1)] by (auto simp: pc fetch_Some u g)
    then show thesis by (rule that [of ?e tail]) (use dr split fits in simp_all)
  next
    case False
    let ?e = "\<lparr>eflags = EF_REAL, elen = ?len, npats = unat np, nref = 1,
              pats = replicate (unat np) dummy_patprog1, prog = bws @ [Some WCB_END],
              stab = map Some (take (unat nstrs) (drop (unat sbeg) B)), sofs = 0, dump = 0\<rparr>"
    have t: "take (unat nstrs) (drop ?base (stab (eprogp s))) = map Some (take (unat nstrs) (drop (unat sbeg) B))"
      unfolding dr split using ins by (simp add: take_map)
    have "func_prog w s = Some (listed names, tw \<noteq> 0, ?e, tail)"
      using False fits unfolding func_prog_def skip Let_def d(2) if_P [OF d(1)] by (simp add: pc fetch_Some u g t)
    then show thesis by (rule that [of ?e "[]"]) simp_all
  qed
qed

lemma unat_small: "n < 2 ^ 32 \<Longrightarrow> unat (of_nat n :: wordcode) = n"
  by (simp add: unat_of_nat take_bit_nat_eq_self)

lemma anon_args_coded:
  assumes "pc s = Some (of_nat (length args + 2)) # Some (of_nat (length args)) # vs @ tail"
    and "words_of_strs vs B args" "length args + 2 < 2 ^ 27"
    and "drop (sbase s) (stab (eprogp s)) = map Some B @ m"
  shows "anon_args s = Some (listed args, tail)"
proof -
  let ?n = "length args"
  have u: "unat (of_nat (Suc (Suc ?n)) :: wordcode) = Suc (Suc ?n)" "unat (of_nat ?n :: wordcode) = ?n"
    by (rule unat_small, use assms(3) in simp)+
  have l: "length vs = ?n" using assms(2) by (rule list_all2_lengthD)
  have g: "ecgetlist (s\<lparr>pc := vs @ tail\<rparr>) ?n EC_DUPTOK = Some ((listed args, list_ex has_token args),
      s\<lparr>pc := vs @ tail, pc := tail\<rparr>)"
    using ecgetlist_words [OF assms(2), of "s\<lparr>pc := vs @ tail\<rparr>" tail] assms(4) by simp
  show ?thesis using g unfolding anon_args_def assms(1) by (simp add: fetch_def u l assms(1) del: of_nat_add of_nat_Suc)
qed

lemma coded_reads:
  assumes "coded n B is ws" "pc s = ws @ Some WCB_END # tail"
    "drop (sbase s) (stab (eprogp s)) = map Some B @ m" "sbase s \<le> length (stab (eprogp s))"
    "n \<le> length (pats (eprogp s))"
  shows "reads is s"
  using assms
proof (induction arbitrary: s tail m rule: coded.induct)
  case (Nil n B)
  then show ?case by (simp add: fetch_def)
next
  case (Text w B str n "is" ws)
  then obtain cp where "ecgetstr s EC_DUPTOK = Some ((str, cp, has_token str), s\<lparr>pc := ws @ Some WCB_END # tail\<rparr>)"
    using ecgetstr_word [of s w "ws @ Some WCB_END # tail" B m str EC_DUPTOK] by auto
  then show ?case using Text.IH [of "s\<lparr>pc := ws @ Some WCB_END # tail\<rparr>" tail m] Text.prems by simp
next
  case (Pattern w n B "is" ws)
  then show ?case using Pattern.IH [of "s\<lparr>pc := ws @ Some WCB_END # tail\<rparr>" tail m] by (simp add: fetch_def)
next
  case (Func h names bws nws B sbeg nstrs np items args aws n "is" ws tracing)
  let ?rest = "aws @ ws @ Some WCB_END # tail"
  let ?s = "s\<lparr>pc := Some (of_nat (length names)) # nws @ Some sbeg # Some nstrs # Some np
        # Some (if tracing then 1 else 0) # bws @ Some WCB_END # ?rest\<rparr>"
  have f: "fetch s = Some (h, ?s)" using Func.prems(1) by (simp add: fetch_def)
  have u: "unat (of_nat (func_skip (length names) (length bws)) :: wordcode) = func_skip (length names) (length bws)"
    using Func.hyps(2) by (simp add: unat_of_nat take_bit_nat_eq_self)
  have h: "wc_code h = WC_FUNCDEF" "unat (WC_FUNCDEF_SKIP h) = func_skip (length names) (length bws)"
    using wc_bld_fields [of "of_nat (func_skip (length names) (length bws))" WC_FUNCDEF] u Func.hyps(2)
    by (simp_all add: Func.hyps(1) WCB_FUNCDEF_def WC_FUNCDEF_SKIP_def WC_FUNCDEF_def)
  have n: "length names < 2 ^ 32" using Func.hyps(2) by (simp add: func_skip_def)
  obtain e cs m' where e: "func_prog h ?s = Some (listed names, (if tracing then 1 else 0 :: wordcode) \<noteq> 0, e, ?rest)"
    "prog e = bws @ Some WCB_END # cs" "length (pats e) = unat np"
    "drop (sofs e) (stab e) = map Some (take (unat nstrs) (drop (unat sbeg) B)) @ m'" "sofs e \<le> length (stab e)"
    using func_prog_coded [of ?s names nws sbeg nstrs np "if tracing then 1 else 0" bws ?rest h B m]
      h(2) n Func.hyps(3,4) Func.prems by auto
  have body: "reads items (enter_prog e)"
    by (rule Func.IH(1)) (use e in \<open>simp_all add: enter_prog_def\<close>)
  have tail: "reads is (s\<lparr>pc := ws @ Some WCB_END # tail\<rparr>)"
    by (rule Func.IH(2)) (use Func.prems in simp_all)
  show ?case
  proof (cases "names = []")
    case True
    then obtain vs where vs: "aws = Some (of_nat (length args + 2)) # Some (of_nat (length args)) # vs"
      "words_of_strs vs B args" "length args + 2 < 2 ^ 27"
      using Func.hyps(6) by (auto simp: arg_words_def)
    have "anon_args (s\<lparr>pc := ?rest\<rparr>) = Some (listed args, ws @ Some WCB_END # tail)"
      by (rule anon_args_coded [OF _ vs(2,3)]) (use vs(1) Func.prems in simp_all)
    then show ?thesis using f h e(1) body tail True by simp
  next
    case False
    then have "aws = []" using Func.hyps(6) by (simp add: arg_words_def)
    then show ?thesis using f h e(1) body tail False by simp
  qed
qed

section \<open>Writing\<close>

definition str_chars :: "string list \<Rightarrow> nat" where
  "str_chars strs = sum_list (map (\<lambda>str. length str + 1) strs)"

definition clean :: "string \<Rightarrow> bool" where
  "clean str \<longleftrightarrow> NUL \<notin> set str"

text \<open>At most \<open>k\<close> bytes are added to the strings.\<close>

definition ready :: "parse_state \<Rightarrow> eccnode list \<Rightarrow> nat \<Rightarrow> bool" where
  "ready s xs k \<longleftrightarrow> ecok s \<and> strs_ok s xs \<and> length (block xs) + k < 2 ^ 30"

definition wrote ::
  "parse_state \<Rightarrow> eccnode list \<Rightarrow> nat \<Rightarrow> parse_state \<Rightarrow> eccnode list \<Rightarrow> cell list \<Rightarrow> bool" where
  "wrote s xs k s' ys ws \<longleftrightarrow> ecok s' \<and> strs_ok s' ys \<and> grows xs ys \<and> length (block ys) \<le> length (block xs) + k
     \<and> codes s' = codes s @ ws \<and> ecssub s' = ecssub s \<and> ecnfunc s \<le> ecnfunc s' \<and> ecnpats s \<le> ecnpats s'"

lemma wroteD:
  assumes "wrote s xs k s' ys ws"
  shows "ecok s'" "strs_ok s' ys" "grows xs ys" "length (block ys) \<le> length (block xs) + k"
    "codes s' = codes s @ ws" "ecssub s' = ecssub s" "ecnfunc s \<le> ecnfunc s'" "ecnpats s \<le> ecnpats s'"
  using assms by (simp_all add: wrote_def)

lemma wrote_refl: "ready s xs k \<Longrightarrow> wrote s xs 0 s xs []"
  by (simp add: wrote_def ready_def)

lemma wrote_trans: "wrote s xs k s' ys ws \<Longrightarrow> wrote s' ys k' s'' zs ws' \<Longrightarrow> wrote s xs (k + k') s'' zs (ws @ ws')"
  by (auto simp: wrote_def intro: grows_trans)

lemma ready_wrote: "ready s xs (k + k') \<Longrightarrow> wrote s xs k s' ys ws \<Longrightarrow> ready s' ys k'"
  by (auto simp: wrote_def ready_def)

lemma base_below: "strs_ok s xs \<Longrightarrow> ecssub s \<le> length (block xs)"
  using strs_okD(5,6) by fastforce

text \<open>Strings seen from a base stay where they are.\<close>

lemma drop_block_grows:
  assumes "strs_ok s xs" "grows xs ys"
  shows "\<exists>B'. drop (ecssub s) (block ys) = drop (ecssub s) (block xs) @ B'"
  using assms(2) base_below [OF assms(1)] by (auto simp: grows_def)

lemma word_grows: "strs_ok s xs \<Longrightarrow> grows xs ys \<Longrightarrow>
    word_of_str w (drop (ecssub s) (block xs)) str \<Longrightarrow> word_of_str w (drop (ecssub s) (block ys)) str"
  by (drule (1) drop_block_grows) (auto simp: word_of_str_append)

lemma words_grow: "strs_ok s xs \<Longrightarrow> grows xs ys \<Longrightarrow>
    words_of_strs ws (drop (ecssub s) (block xs)) strs \<Longrightarrow> words_of_strs ws (drop (ecssub s) (block ys)) strs"
  by (drule (1) drop_block_grows) (auto simp: words_of_strs_append)

lemma coded_grows: "strs_ok s xs \<Longrightarrow> grows xs ys \<Longrightarrow> coded n (drop (ecssub s) (block xs)) is ws \<Longrightarrow> n \<le> n' \<Longrightarrow>
    coded n' (drop (ecssub s) (block ys)) is ws"
  by (drule (1) drop_block_grows) (auto simp: coded_mono)

lemma ecok_fields: "ecbuf s = ecbuf t \<Longrightarrow> eclen s = eclen t \<Longrightarrow> ecused s = ecused t \<Longrightarrow>
    ecok s = ecok t \<and> codes s = codes t"
  unfolding ecok_def codes_def by metis

lemma ecadd_writes:
  assumes "ready s xs 0"
  obtains s' where "ecadd c s = Some (ecused s, s')" "wrote s xs 0 s' xs [Some c]" "rest s' = rest s"
    "ecused s' = ecused s + 1"
proof -
  obtain s' where s': "ecadd c s = Some (ecused s, s')" "ecok s'" "codes s' = codes s @ [Some c]"
    "rest s' = rest s" "ecused s' = ecused s + 1"
    using ecadd_spec assms unfolding ready_def by metis
  show thesis
    by (rule that [OF s'(1) _ s'(4,5)])
      (use s' assms strs_ok_rest [OF s'(4)] same_rest [OF s'(4)] in \<open>simp add: wrote_def ready_def\<close>)
qed

lemma ecstr_writes:
  assumes "ready s xs (length str + 1)" "clean str"
  obtains w s' ys where "ecstr str s = Some (ecused s, s')" "wrote s xs (length str + 1) s' ys [Some w]"
    "word_of_str w (drop (ecssub s) (block ys)) str" "ecnpats s' = ecnpats s" "ecused s' = ecused s + 1"
proof -
  have a: "strs_ok s xs" "NUL \<notin> set str" "length (block xs) + length str + 1 < ecssub s + 2 ^ 30"
    using assms by (simp_all add: ready_def clean_def)
  obtain w t ys where t: "ecstrcode str s = (w, t)" "strs_ok t ys" "grows xs ys"
    "t = s\<lparr>ecstrs := ecstrs t, ecsoffs := ecsoffs t\<rparr>" "word_of_str w (drop (ecssub s) (block ys)) str"
    "length (block ys) \<le> length (block xs) + length str + 1"
    using ecstrcode_word [OF a] by blast
  have f: "ecbuf t = ecbuf s" "eclen t = eclen s" "ecused t = ecused s" "ecssub t = ecssub s"
    "ecnfunc t = ecnfunc s" "ecnpats t = ecnpats s"
    by (subst t(4), simp)+
  have k: "ecok t" "codes t = codes s" using ecok_fields [OF f(1-3)] assms(1) by (simp_all add: ready_def)
  obtain s' where s': "ecadd w t = Some (ecused t, s')" "ecok s'" "codes s' = codes t @ [Some w]"
    "rest s' = rest t" "ecused s' = ecused t + 1"
    using ecadd_spec [OF k(1)] by metis
  show thesis
  proof (rule that [of s' ys w])
    show "ecstr str s = Some (ecused s, s')" using s'(1) by (simp add: ecstr_def t(1) f)
    show "wrote s xs (length str + 1) s' ys [Some w]"
      using s' strs_ok_rest [OF s'(4)] same_rest [OF s'(4)] t f k by (simp add: wrote_def)
    show "ecnpats s' = ecnpats s" using same_rest [OF s'(4)] f by simp
  qed (use t(5) s'(5) f in simp_all)
qed

lemma add_strs_writes:
  assumes "ready s xs (str_chars strs)" "\<forall>str \<in> set strs. clean str"
  shows "\<exists>s' ys ws. add_strs strs s = Some s' \<and> wrote s xs (str_chars strs) s' ys ws
    \<and> words_of_strs ws (drop (ecssub s) (block ys)) strs \<and> ecnpats s' = ecnpats s"
  using assms
proof (induction strs arbitrary: s xs)
  case Nil
  then show ?case using wrote_refl by (fastforce simp: str_chars_def)
next
  case (Cons str strs)
  have r: "ready s xs (length str + 1 + str_chars strs)" using Cons.prems(1) by (simp add: str_chars_def)
  then have "ready s xs (length str + 1)" by (simp add: ready_def)
  then obtain w s1 ys where s1: "ecstr str s = Some (ecused s, s1)" "wrote s xs (length str + 1) s1 ys [Some w]"
    "word_of_str w (drop (ecssub s) (block ys)) str" "ecnpats s1 = ecnpats s" "ecused s1 = ecused s + 1"
    by (rule ecstr_writes) (use Cons.prems in simp)
  obtain s2 zs ws where s2: "add_strs strs s1 = Some s2" "wrote s1 ys (str_chars strs) s2 zs ws"
    "words_of_strs ws (drop (ecssub s1) (block zs)) strs" "ecnpats s2 = ecnpats s1"
    using Cons.IH [OF ready_wrote [OF r s1(2)]] Cons.prems(2) by auto
  have "word_of_str w (drop (ecssub s) (block zs)) str"
    using word_grows [OF wroteD(2) [OF s1(2)] wroteD(3) [OF s2(2)]] s1(3) wroteD(6) [OF s1(2)] by simp
  moreover have "wrote s xs (str_chars (str # strs)) s2 zs (Some w # ws)"
    using wrote_trans [OF s1(2) s2(2)] by (simp add: str_chars_def)
  ultimately show ?case
    using s1 s2 wroteD(6) [OF s1(2)] by (intro exI [of _ s2] exI [of _ zs] exI [of _ "Some w # ws"]) simp
qed

section \<open>Function definitions\<close>

lemma func_head_writes:
  assumes "ready s xs (str_chars names)" "\<forall>str \<in> set names. clean str"
  shows "\<exists>s' ys nws. func_head names s = Some (ecused s, s')
    \<and> wrote s xs (str_chars names) s' ys ([Some 0, Some 0] @ nws @ [Some 0, Some 0, Some 0, Some 0])
    \<and> words_of_strs nws (drop (ecssub s) (block ys)) names \<and> ecnpats s' = ecnpats s"
proof -
  have r0: "ready s xs 0" using assms(1) by (simp add: ready_def)
  obtain s1 where s1: "ecadd 0 s = Some (ecused s, s1)" "wrote s xs 0 s1 xs [Some 0]" "rest s1 = rest s"
    using ecadd_writes [OF r0] by metis
  have r1: "ready s1 xs 0" by (rule ready_wrote [OF _ s1(2)]) (use r0 in simp)
  obtain s2 where s2: "ecadd 0 s1 = Some (ecused s1, s2)" "wrote s1 xs 0 s2 xs [Some 0]" "rest s2 = rest s1"
    using ecadd_writes [OF r1] by metis
  have r2: "ready s2 xs (str_chars names)"
    by (rule ready_wrote [OF _ s2(2)], simp, rule ready_wrote [OF _ s1(2)]) (use assms(1) in simp)
  obtain s3 ys nws where s3: "add_strs names s2 = Some s3" "wrote s2 xs (str_chars names) s3 ys nws"
    "words_of_strs nws (drop (ecssub s2) (block ys)) names" "ecnpats s3 = ecnpats s2"
    using add_strs_writes [OF r2 assms(2)] by blast
  have r3: "ready s3 ys 0" by (rule ready_wrote [OF _ s3(2)]) (use r2 in simp)
  obtain s4 where s4: "ecadd 0 s3 = Some (ecused s3, s4)" "wrote s3 ys 0 s4 ys [Some 0]" "rest s4 = rest s3"
    using ecadd_writes [OF r3] by metis
  have r4: "ready s4 ys 0" by (rule ready_wrote [OF _ s4(2)]) (use r3 in simp)
  obtain s5 where s5: "ecadd 0 s4 = Some (ecused s4, s5)" "wrote s4 ys 0 s5 ys [Some 0]" "rest s5 = rest s4"
    using ecadd_writes [OF r4] by metis
  have r5: "ready s5 ys 0" by (rule ready_wrote [OF _ s5(2)]) (use r4 in simp)
  obtain s6 where s6: "ecadd 0 s5 = Some (ecused s5, s6)" "wrote s5 ys 0 s6 ys [Some 0]" "rest s6 = rest s5"
    using ecadd_writes [OF r5] by metis
  have r6: "ready s6 ys 0" by (rule ready_wrote [OF _ s6(2)]) (use r5 in simp)
  obtain s7 where s7: "ecadd 0 s6 = Some (ecused s6, s7)" "wrote s6 ys 0 s7 ys [Some 0]" "rest s7 = rest s6"
    using ecadd_writes [OF r6] by metis
  have "func_head names s = Some (ecused s, s7)"
    by (simp add: func_head_def s1(1) s2(1) s3(1) s4(1) s5(1) s6(1) s7(1))
  moreover have "wrote s xs (str_chars names) s7 ys ([Some 0, Some 0] @ nws @ [Some 0, Some 0, Some 0, Some 0])"
    using wrote_trans [OF s1(2) wrote_trans [OF s2(2) wrote_trans [OF s3(2) wrote_trans [OF s4(2)
      wrote_trans [OF s5(2) wrote_trans [OF s6(2) s7(2)]]]]]] by simp
  moreover have "ecssub s2 = ecssub s" using wroteD(6) [OF s1(2)] wroteD(6) [OF s2(2)] by simp
  moreover have "ecnpats s7 = ecnpats s"
    using same_rest(2) [OF s1(3)] same_rest(2) [OF s2(3)] s3(4) same_rest(2) [OF s4(3)]
      same_rest(2) [OF s5(3)] same_rest(2) [OF s6(3)] same_rest(2) [OF s7(3)] by simp
  ultimately show ?thesis using s3(3) by auto
qed

lemma ecput_writes:
  assumes "ecok s" "codes s = C @ D" "i = length C + k" "k < length D"
  obtains s' where "ecput i c s = Some s'" "ecok s'" "codes s' = C @ D[k := Some c]" "rest s' = rest s"
    "ecused s' = ecused s"
proof -
  have i: "i < ecused s" using assms length_codes [OF assms(1)] by simp
  obtain s' where "ecput i c s = Some s'" "ecok s'" "codes s' = (codes s)[i := Some c]"
    "rest s' = rest s" "ecused s' = ecused s"
    using ecput_spec [OF assms(1) i, of c] by metis
  then show thesis using assms(2,3) by (intro that [of s']) (simp_all add: list_update_append)
qed

definition leave_state :: "nat \<Rightarrow> nat \<Rightarrow> parse_state \<Rightarrow> parse_state" where
  "leave_state onp oecssub s = s\<lparr>ecnpats := onp, ecssub := oecssub, ecnfunc := ecnfunc s + 1\<rparr>"

lemma rest_leave: "rest (leave_state onp oecssub s) = leave_state onp oecssub (rest s)"
  by (simp add: rest_def leave_state_def)

lemma func_leave_writes:
  assumes "ecok s" "codes s = C @ [a, b] @ nws @ [c, d, e, f] @ bws"
    and "oecssub \<le> so" "so \<le> ecsoffs s"
  obtains s' where "func_leave (length C) (length nws) tracing so oecssub onp s = Some s'" "ecok s'"
    "codes s' = C @ [Some (WCB_FUNCDEF (of_nat (func_skip (length nws) (length bws)))), Some (of_nat (length nws))]
       @ nws @ [Some (of_nat (so - oecssub)), Some (of_nat (ecsoffs s - so)), Some (of_nat (ecnpats s)),
         Some (if tracing then 1 else 0)] @ bws @ [Some WCB_END]"
    "rest s' = rest (leave_state onp oecssub s)"
proof -
  let ?p = "length C" and ?n = "length nws"
  let ?t = "if tracing then 1 else (0 :: wordcode)"
  let ?P = "C @ a # b # nws" and ?E = "bws @ [Some WCB_END]"
  let ?s = "Some (of_nat (so - oecssub))" and ?l = "Some (of_nat (ecsoffs s - so))" and ?np = "Some (of_nat (ecnpats s))"
  obtain s1 where s1: "ecadd WCB_END s = Some (ecused s, s1)" "ecok s1"
    "codes s1 = codes s @ [Some WCB_END]" "rest s1 = rest s"
    using ecadd_spec [OF assms(1)] by metis
  have c1: "codes s1 = ?P @ c # d # e # f # ?E" by (simp add: s1(3) assms(2))
  obtain s2 where s2: "ecput (?p + ?n + 2) (of_nat (so - oecssub)) s1 = Some s2" "ecok s2"
    "codes s2 = ?P @ (c # d # e # f # ?E)[0 := ?s]" "rest s2 = rest s1"
    by (rule ecput_writes [OF s1(2) c1, of "?p + ?n + 2" 0 "of_nat (so - oecssub)"]) simp_all
  obtain s3 where s3: "ecput (?p + ?n + 3) (of_nat (ecsoffs s - so)) s2 = Some s3" "ecok s3"
    "codes s3 = ?P @ ((c # d # e # f # ?E)[0 := ?s])[1 := ?l]" "rest s3 = rest s2"
    by (rule ecput_writes [OF s2(2,3), of "?p + ?n + 3" 1 "of_nat (ecsoffs s - so)"]) simp_all
  obtain s4 where s4: "ecput (?p + ?n + 4) (of_nat (ecnpats s)) s3 = Some s4" "ecok s4"
    "codes s4 = ?P @ (((c # d # e # f # ?E)[0 := ?s])[1 := ?l])[2 := ?np]" "rest s4 = rest s3"
    by (rule ecput_writes [OF s3(2,3), of "?p + ?n + 4" 2 "of_nat (ecnpats s)"]) simp_all
  obtain s5 where s5: "ecput (?p + ?n + 5) ?t s4 = Some s5" "ecok s5"
    "codes s5 = ?P @ ((((c # d # e # f # ?E)[0 := ?s])[1 := ?l])[2 := ?np])[3 := Some ?t]" "rest s5 = rest s4"
    by (rule ecput_writes [OF s4(2,3), of "?p + ?n + 5" 3 ?t]) simp_all
  have c5: "codes s5 = C @ a # b # nws @ ?s # ?l # ?np # Some ?t # ?E" by (simp add: s5(3) eval_nat_numeral)
  have o: "word_of_int (int so - int oecssub) = (of_nat (so - oecssub) :: wordcode)"
    "word_of_int (int (ecsoffs s2) - int so) = (of_nat (ecsoffs s - so) :: wordcode)" "ecnpats s3 = ecnpats s"
    using assms(3,4) same_rest(2,4) [OF s3(4)] same_rest(2,4) [OF s2(4)] same_rest(2,4) [OF s1(4)]
    by (simp_all flip: of_nat_diff)
  obtain s6 where s6: "ecput (?p + 1) (of_nat ?n) s5 = Some s6" "ecok s6"
    "codes s6 = C @ (a # b # nws @ ?s # ?l # ?np # Some ?t # ?E)[1 := Some (of_nat ?n)]" "rest s6 = rest s5"
    by (rule ecput_writes [OF s5(2) c5, of "?p + 1" 1 "of_nat ?n"]) simp_all
  let ?s7 = "s6\<lparr>ecnpats := onp, ecssub := oecssub, ecnfunc := ecnfunc s6 + 1\<rparr>"
  have s7: "ecok ?s7" "codes ?s7 = codes s6" "ecused ?s7 = ecused s6"
    using ecok_fields [of ?s7 s6] s6(2) by simp_all
  have c7: "codes ?s7 = C @ a # Some (of_nat ?n) # nws @ ?s # ?l # ?np # Some ?t # ?E" unfolding s7(2) s6(3) by simp
  have "ecused s6 = ?p + func_skip ?n (length bws) + 1"
    using length_codes [OF s6(2)] by (simp add: s6(3) func_skip_def)
  then have u: "word_of_int (int (ecused s6) - 1 - int ?p) = (of_nat (func_skip ?n (length bws)) :: wordcode)" by simp
  let ?h = "WCB_FUNCDEF (of_nat (func_skip ?n (length bws)))"
  obtain s8 where s8: "ecput ?p ?h ?s7 = Some s8" "ecok s8"
    "codes s8 = C @ (a # Some (of_nat ?n) # nws @ ?s # ?l # ?np # Some ?t # ?E)[0 := Some ?h]" "rest s8 = rest ?s7"
    by (rule ecput_writes [OF s7(1) c7, of ?p 0 ?h]) simp_all
  have "rest ?s7 = rest (leave_state onp oecssub s)"
    using s6(4) s5(4) s4(4) s3(4) s2(4) s1(4) by (simp only: rest_leave leave_state_def [symmetric])
  moreover have "func_leave ?p ?n tracing so oecssub onp s = Some s8"
    by (simp only: func_leave_def s1(1) Option.bind_lunit prod.case o s2(1) s3(1) s4(1) s5(1) s6(1)
        s7(3) u s8(1))
  ultimately show thesis using s8 by (intro that [of s8]) simp_all
qed

lemma func_args_writes:
  assumes "ready s xs (str_chars args)" "\<forall>str \<in> set args. clean str"
  obtains s' ys vs where "func_args args s = Some s'"
    "wrote s xs (str_chars args) s' ys (Some (of_nat (length args + 2)) # Some (of_nat (length args)) # vs)"
    "words_of_strs vs (drop (ecssub s) (block ys)) args" "ecnpats s' = ecnpats s"
proof -
  have r0: "ready s xs 0" using assms(1) by (simp add: ready_def)
  obtain s1 where s1: "ecadd 0 s = Some (ecused s, s1)" "wrote s xs 0 s1 xs [Some 0]" "rest s1 = rest s"
    using ecadd_writes [OF r0] by metis
  have r1: "ready s1 xs 0" by (rule ready_wrote [OF _ s1(2)]) (use r0 in simp)
  obtain s2 where s2: "ecadd 0 s1 = Some (ecused s1, s2)" "wrote s1 xs 0 s2 xs [Some 0]" "rest s2 = rest s1"
    using ecadd_writes [OF r1] by metis
  have r2: "ready s2 xs (str_chars args)"
    by (rule ready_wrote [OF _ s2(2)], simp, rule ready_wrote [OF _ s1(2)]) (use assms(1) in simp)
  obtain s3 ys vs where s3: "add_strs args s2 = Some s3" "wrote s2 xs (str_chars args) s3 ys vs"
    "words_of_strs vs (drop (ecssub s2) (block ys)) args" "ecnpats s3 = ecnpats s2"
    using add_strs_writes [OF r2 assms(2)] by blast
  have w3: "wrote s xs (str_chars args) s3 ys ([Some 0, Some 0] @ vs)"
    using wrote_trans [OF s1(2) wrote_trans [OF s2(2) s3(2)]] by simp
  have p: "ecused s = length (codes s)" using assms(1) length_codes by (simp add: ready_def)
  have l: "length vs = length args" using s3(3) by (rule list_all2_lengthD)
  have c3: "codes s3 = codes s @ Some 0 # Some 0 # vs" using wroteD(5) [OF w3] by simp
  then have "ecused s3 = ecused s + (length args + 2)"
    using length_codes [OF wroteD(1) [OF w3]] by (simp add: p l)
  then have u: "word_of_int (int (ecused s3) - int (ecused s)) = (of_nat (length args + 2) :: wordcode)" by simp
  obtain s4 where s4: "ecput (ecused s) (of_nat (length args + 2)) s3 = Some s4" "ecok s4"
    "codes s4 = codes s @ (Some 0 # Some 0 # vs)[0 := Some (of_nat (length args + 2))]" "rest s4 = rest s3"
    by (rule ecput_writes [OF wroteD(1) [OF w3] c3, of "ecused s" 0 "of_nat (length args + 2)"]) (simp_all add: p)
  obtain s5 where s5: "ecput (ecused s + 1) (of_nat (length args)) s4 = Some s5" "ecok s5"
    "codes s5 = codes s @ ((Some 0 # Some 0 # vs)[0 := Some (of_nat (length args + 2))])[1 := Some (of_nat (length args))]"
    "rest s5 = rest s4"
    by (rule ecput_writes [OF s4(2,3), of "ecused s + 1" 1 "of_nat (length args)"]) (simp_all add: p)
  have r: "rest s5 = rest s3" using s4(4) s5(4) by simp
  show thesis
  proof (rule that [of s5 ys vs])
    show "func_args args s = Some s5"
      by (simp only: func_args_def s1(1) s2(1) s3(1) Option.bind_lunit prod.case u s4(1) s5(1))
    show "wrote s xs (str_chars args) s5 ys (Some (of_nat (length args + 2)) # Some (of_nat (length args)) # vs)"
      using w3 s5(2,3) strs_ok_rest [OF r] same_rest [OF r] by (simp add: wrote_def)
    show "words_of_strs vs (drop (ecssub s) (block ys)) args"
      using s3(3) wroteD(6) [OF s1(2)] wroteD(6) [OF s2(2)] by simp
    show "ecnpats s5 = ecnpats s"
      using same_rest(2) [OF r] s3(4) same_rest(2) [OF s2(3)] same_rest(2) [OF s1(3)] by simp
  qed
qed

text \<open>What an outline takes: bytes of strings and words.  Its strings have no NUL.\<close>

fun chars_of :: "item list \<Rightarrow> nat" where
  "chars_of [] = 0"
| "chars_of (Text str # is) = length str + 1 + chars_of is"
| "chars_of (Pattern # is) = chars_of is"
| "chars_of (Func tracing names items args # is) =
     str_chars names + chars_of items + str_chars args + chars_of is"

fun words_of :: "item list \<Rightarrow> nat" where
  "words_of [] = 0"
| "words_of (Text str # is) = 1 + words_of is"
| "words_of (Pattern # is) = 1 + words_of is"
| "words_of (Func tracing names items args # is) =
     length names + words_of items + 7 + length args + 2 + words_of is"

fun clean_items :: "item list \<Rightarrow> bool" where
  "clean_items [] = True"
| "clean_items (Text str # is) \<longleftrightarrow> clean str \<and> clean_items is"
| "clean_items (Pattern # is) \<longleftrightarrow> clean_items is"
| "clean_items (Func tracing names items args # is) \<longleftrightarrow>
     list_all clean names \<and> clean_items items \<and> list_all clean args \<and> clean_items is"

text \<open>No string of another function is shared: the number of functions only grows.\<close>

lemma strs_ok_next:
  assumes "strs_ok s xs" "base \<le> ecsoffs s"
  shows "strs_ok (s\<lparr>ecnpats := n, ecssub := base, ecnfunc := ecnfunc s + 1\<rparr>) xs"
proof -
  note ok = strs_okD [OF assms(1)]
  have "snfunc p < ecnfunc s + 1" if "p \<in> set xs" for p using ok(7) [OF that] by simp
  then have "snfunc p \<le> ecnfunc s + 1 \<and> snfunc p \<noteq> ecnfunc s + 1" if "p \<in> set xs" for p
    using that unfolding nat_less_le by blast
  then show ?thesis unfolding strs_ok_def using ok assms(2) by simp
qed

lemma enter_ok:
  assumes "strs_ok s xs"
  shows "strs_ok (func_enter s) xs"
proof -
  have "func_enter s = s\<lparr>ecnpats := 0, ecssub := ecsoffs s, ecnfunc := ecnfunc s + 1\<rparr>"
    by (simp add: func_enter_def)
  then show ?thesis using strs_ok_next [OF assms] by (simp only: order_refl)
qed

lemma leave_ok: "strs_ok s xs \<Longrightarrow> oecssub \<le> ecsoffs s \<Longrightarrow> strs_ok (leave_state onp oecssub s) xs"
  unfolding leave_state_def by (rule strs_ok_next)

text \<open>What is to be shown of emitting an outline.\<close>

definition emits :: "(parse_state \<Rightarrow> parse_state option) \<Rightarrow> item list \<Rightarrow> bool" where
  "emits f is \<longleftrightarrow> (\<forall>s xs. ready s xs (chars_of is) \<longrightarrow> clean_items is \<longrightarrow> ecnpats s + words_of is < 2 ^ 27 \<longrightarrow>
     (\<exists>s' ys ws. f s = Some s' \<and> wrote s xs (chars_of is) s' ys ws
        \<and> coded (ecnpats s') (drop (ecssub s) (block ys)) is ws
        \<and> length ws \<le> words_of is \<and> ecnpats s' \<le> ecnpats s + words_of is))"

lemma emitsD:
  assumes "emits f is" "ready s xs (chars_of is)" "clean_items is" "ecnpats s + words_of is < 2 ^ 27"
  obtains s' ys ws where "f s = Some s'" "wrote s xs (chars_of is) s' ys ws"
    "coded (ecnpats s') (drop (ecssub s) (block ys)) is ws" "length ws \<le> words_of is"
    "ecnpats s' \<le> ecnpats s + words_of is"
  using assms unfolding emits_def by blast

lemma ready_mono: "ready s xs k \<Longrightarrow> k' \<le> k \<Longrightarrow> ready s xs k'"
  by (simp add: ready_def)

lemma par_funcdef_writes:
  assumes "emits f items" "ready s xs (str_chars names + chars_of items + str_chars args)"
    "list_all clean names" "clean_items items" "list_all clean args"
    "length names + words_of items + 7 + length args + 2 < 2 ^ 27"
  obtains s' ys bws nws aws sbeg nstrs np where "par_funcdef tracing names f args s = Some s'"
    "wrote s xs (str_chars names + chars_of items + str_chars args) s' ys
       (Some (WCB_FUNCDEF (of_nat (func_skip (length names) (length bws)))) # Some (of_nat (length names)) # nws
         @ Some sbeg # Some nstrs # Some np # Some (if tracing then 1 else 0) # bws @ Some WCB_END # aws)"
    "words_of_strs nws (drop (ecssub s) (block ys)) names"
    "unat sbeg + unat nstrs \<le> length (drop (ecssub s) (block ys))"
    "coded (unat np) (take (unat nstrs) (drop (unat sbeg) (drop (ecssub s) (block ys)))) items bws"
    "arg_words names args aws (drop (ecssub s) (block ys))"
    "length bws \<le> words_of items" "ecnpats s' = ecnpats s"
proof -
  let ?n = "length names" and ?base = "ecssub s"
  have rn: "ready s xs (str_chars names)" by (rule ready_mono [OF assms(2)]) simp
  obtain s1 ys1 nws where s1: "func_head names s = Some (ecused s, s1)"
    "wrote s xs (str_chars names) s1 ys1 ([Some 0, Some 0] @ nws @ [Some 0, Some 0, Some 0, Some 0])"
    "words_of_strs nws (drop ?base (block ys1)) names" "ecnpats s1 = ecnpats s"
    using func_head_writes [OF rn] assms(3) by (auto simp: list_all_iff)
  note w1 = wroteD [OF s1(2)]
  let ?so = "ecsoffs s1" and ?s2 = "func_enter s1"
  have e2: "strs_ok ?s2 ys1" by (rule enter_ok [OF w1(2)])
  have f2: "ecssub ?s2 = ?so" "ecnpats ?s2 = 0" "codes ?s2 = codes s1" "ecok ?s2" "ecnfunc s1 \<le> ecnfunc ?s2"
    using ecok_fields [of ?s2 s1] w1(1) by (simp_all add: func_enter_def)
  have so: "?so = length (block ys1)" by (rule strs_okD(5) [OF w1(2)])
  have r2: "ready ?s2 ys1 (chars_of items)"
    using assms(2) w1(4) e2 f2(4) by (simp add: ready_def)
  have n2: "ecnpats ?s2 + words_of items < 2 ^ 27" using assms(6) by (simp add: f2(2))
  obtain s3 ys3 bws where s3: "f ?s2 = Some s3" "wrote ?s2 ys1 (chars_of items) s3 ys3 bws"
    "coded (ecnpats s3) (drop ?so (block ys3)) items bws" "length bws \<le> words_of items"
    "ecnpats s3 \<le> words_of items"
    using emitsD [OF assms(1) r2 assms(4) n2] f2(1,2) by (metis add_0)
  note w3 = wroteD [OF s3(2)]
  have g3: "length (block ys1) \<le> length (block ys3)" using w3(3) by (auto simp: grows_def)
  have o3: "ecsoffs s3 = length (block ys3)" by (rule strs_okD(5) [OF w3(2)])
  have b: "?base \<le> ?so" using strs_okD(6) [OF w1(2)] w1(6) by simp
  have c3: "codes s3 = codes s @ [Some 0, Some 0] @ nws @ [Some 0, Some 0, Some 0, Some 0] @ bws"
    using w3(5) f2(3) w1(5) by simp
  have l: "length nws = ?n" using s1(3) by (rule list_all2_lengthD)
  have p: "length (codes s) = ecused s" using assms(2) length_codes by (simp add: ready_def)
  obtain s4 where s4: "func_leave (length (codes s)) (length nws) tracing ?so ?base (ecnpats s1) s3 = Some s4" "ecok s4"
    "codes s4 = codes s @ [Some (WCB_FUNCDEF (of_nat (func_skip (length nws) (length bws)))), Some (of_nat (length nws))]
       @ nws @ [Some (of_nat (?so - ?base)), Some (of_nat (ecsoffs s3 - ?so)), Some (of_nat (ecnpats s3)),
         Some (if tracing then 1 else 0)] @ bws @ [Some WCB_END]"
    "rest s4 = rest (leave_state (ecnpats s1) ?base s3)"
    by (rule func_leave_writes [OF w3(1) c3 b]) (use so o3 g3 in simp)
  note f4 = same_rest [OF s4(4)]
  have g: "grows xs ys3" using w1(3) w3(3) by (rule grows_trans)
  have k4: "strs_ok s4 ys3" using strs_ok_rest [OF s4(4)] leave_ok [OF w3(2)] b so g3 o3 by simp
  let ?ws = "[Some (WCB_FUNCDEF (of_nat (func_skip ?n (length bws)))), Some (of_nat ?n)]
       @ nws @ [Some (of_nat (?so - ?base)), Some (of_nat (ecsoffs s3 - ?so)), Some (of_nat (ecnpats s3)),
         Some (if tracing then 1 else 0)] @ bws @ [Some WCB_END]"
  have w4: "wrote s xs (str_chars names + chars_of items) s4 ys3 ?ws"
    unfolding wrote_def using s4(2,3) k4 g w1(4,7,8) w3(4,7,8) f4 f2(5) s1(4) l
    by (simp add: leave_state_def)
  have n4: "ecnpats s4 = ecnpats s" "ecssub s4 = ?base" using f4 s1(4) by (simp_all add: leave_state_def)
  have u: "unat (of_nat (?so - ?base) :: wordcode) = ?so - ?base"
    "unat (of_nat (ecsoffs s3 - ?so) :: wordcode) = ecsoffs s3 - ?so"
    "unat (of_nat (ecnpats s3) :: wordcode) = ecnpats s3"
  proof -
    have "length (block xs) + (str_chars names + chars_of items + str_chars args) < 2 ^ 30"
      using assms(2) by (simp add: ready_def)
    then have "ecsoffs s3 < 2 ^ 32" "?so < 2 ^ 32" using w1(4) w3(4) so o3 by simp_all
    moreover have "ecnpats s3 < 2 ^ 32" using assms(6) s3(5) by simp
    ultimately show "unat (of_nat (?so - ?base) :: wordcode) = ?so - ?base"
      "unat (of_nat (ecsoffs s3 - ?so) :: wordcode) = ecsoffs s3 - ?so"
      "unat (of_nat (ecnpats s3) :: wordcode) = ecnpats s3"
      by (simp_all only: unat_small less_imp_diff_less)
  qed
  have tb: "take (ecsoffs s3 - ?so) (drop (?so - ?base) (drop ?base (block zs))) = drop ?so (block ys3)"
    if "grows ys3 zs" for zs
    using that b so o3 g3 by (auto simp: grows_def)
  have len: "?so - ?base + (ecsoffs s3 - ?so) \<le> length (drop ?base (block zs))" if "grows ys3 zs" for zs
    using that b so o3 g3 by (auto simp: grows_def)
  have gn: "words_of_strs nws (drop ?base (block zs)) names" if "grows ys3 zs" for zs
    using words_grow [OF w1(2) grows_trans [OF w3(3) that]] s1(3) w1(6) by simp
  have pf: "par_funcdef tracing names f args s = (if ?n = 0 then func_args args s4 else Some s4)"
    using s4(1) by (simp add: par_funcdef_def s1(1) s3(1) p l)
  show thesis
  proof (cases "names = []")
    case False
    show thesis
      by (rule that [of s4 ys3 bws nws "of_nat (?so - ?base)" "of_nat (ecsoffs s3 - ?so)" "of_nat (ecnpats s3)" "[]"])
        (use False pf w4 u tb [of ys3] len [of ys3] gn [of ys3] s3(3,4) n4 in
          \<open>simp_all add: arg_words_def wrote_def ready_def\<close>)
  next
    case True
    have ra: "ready s4 ys3 (str_chars args)" using ready_wrote [OF assms(2) w4] .
    obtain s5 zs vs where s5: "func_args args s4 = Some s5"
      "wrote s4 ys3 (str_chars args) s5 zs (Some (of_nat (length args + 2)) # Some (of_nat (length args)) # vs)"
      "words_of_strs vs (drop (ecssub s4) (block zs)) args" "ecnpats s5 = ecnpats s4"
      using func_args_writes [OF ra] assms(5) by (auto simp: list_all_iff)
    note gz = wroteD(3) [OF s5(2)]
    show thesis
      by (rule that [of s5 zs bws nws "of_nat (?so - ?base)" "of_nat (ecsoffs s3 - ?so)" "of_nat (ecnpats s3)"
          "Some (of_nat (length args + 2)) # Some (of_nat (length args)) # vs"])
        (use True pf wrote_trans [OF w4 s5(2)] s5(1,3,4) u tb [OF gz] len [OF gz] gn [OF gz] s3(3,4) n4 assms(6) in
          \<open>simp_all add: arg_words_def\<close>)
  qed
qed

lemma coded_Func:
  assumes "words_of_strs nws B names" "unat sbeg + unat nstrs \<le> length B"
    "coded (unat np) (take (unat nstrs) (drop (unat sbeg) B)) items bws" "arg_words names args aws B"
    "func_skip (length names) (length bws) < 2 ^ 27" "coded n B is ws"
  shows "coded n B (Func tracing names items args # is)
    ((Some (WCB_FUNCDEF (of_nat (func_skip (length names) (length bws)))) # Some (of_nat (length names)) # nws
      @ Some sbeg # Some nstrs # Some np # Some (if tracing then 1 else 0) # bws @ Some WCB_END # aws) @ ws)"
  using coded.Func [OF refl assms(5) assms(1-4,6)] by simp

lemma arg_words_length: "arg_words names args aws B \<Longrightarrow> length aws \<le> length args + 2"
  by (auto simp: arg_words_def dest!: list_all2_lengthD split: if_splits)

lemma emit_emits: "emits (emit is) is"
proof (induction "is" rule: emit.induct)
  case 1
  have "\<exists>s' ys ws. emit [] s = Some s' \<and> wrote s xs 0 s' ys ws \<and> coded (ecnpats s') (drop (ecssub s) (block ys)) [] ws
      \<and> length ws \<le> 0 \<and> ecnpats s' \<le> ecnpats s + 0" if "ready s xs 0" for s xs
    using wrote_refl [OF that] by (intro exI [of _ s] exI [of _ xs] exI [of _ "[]"]) (simp add: coded.Nil)
  then show ?case by (simp add: emits_def)
next
  case (2 str "is")
  show ?case unfolding emits_def
  proof (intro allI impI)
    fix s xs
    assume a: "ready s xs (chars_of (Text str # is))" "clean_items (Text str # is)"
      "ecnpats s + words_of (Text str # is) < 2 ^ 27"
    have r: "ready s xs (length str + 1 + chars_of is)" and cl: "clean str" using a(1,2) by simp_all
    obtain w s1 ys where s1: "ecstr str s = Some (ecused s, s1)" "wrote s xs (length str + 1) s1 ys [Some w]"
      "word_of_str w (drop (ecssub s) (block ys)) str" "ecnpats s1 = ecnpats s"
      using ecstr_writes [OF ready_mono [OF r le_add1] cl] by metis
    note w1 = wroteD [OF s1(2)]
    obtain s2 zs ws where s2: "emit is s1 = Some s2" "wrote s1 ys (chars_of is) s2 zs ws"
      "coded (ecnpats s2) (drop (ecssub s1) (block zs)) is ws" "length ws \<le> words_of is"
      "ecnpats s2 \<le> ecnpats s1 + words_of is"
      by (rule emitsD [OF 2 [OF s1(1)] ready_wrote [OF r s1(2)]]) (use a s1(4) in simp_all)
    have "word_of_str w (drop (ecssub s) (block zs)) str"
      using word_grows [OF w1(2) wroteD(3) [OF s2(2)]] s1(3) w1(6) by simp
    then have "coded (ecnpats s2) (drop (ecssub s) (block zs)) (Text str # is) (Some w # ws)"
      using s2(3) w1(6) by (auto intro: coded.Text)
    moreover have "wrote s xs (chars_of (Text str # is)) s2 zs (Some w # ws)"
      using wrote_trans [OF s1(2) s2(2)] by simp
    ultimately show "\<exists>s' ys ws. emit (Text str # is) s = Some s' \<and> wrote s xs (chars_of (Text str # is)) s' ys ws
        \<and> coded (ecnpats s') (drop (ecssub s) (block ys)) (Text str # is) ws
        \<and> length ws \<le> words_of (Text str # is) \<and> ecnpats s' \<le> ecnpats s + words_of (Text str # is)"
      using s1(1,4) s2(1,4,5) by (intro exI [of _ s2] exI [of _ zs] exI [of _ "Some w # ws"]) simp
  qed
next
  case (3 "is")
  show ?case unfolding emits_def
  proof (intro allI impI)
    fix s xs
    assume a: "ready s xs (chars_of (Pattern # is))" "clean_items (Pattern # is)"
      "ecnpats s + words_of (Pattern # is) < 2 ^ 27"
    let ?s = "s\<lparr>ecnpats := ecnpats s + 1\<rparr>"
    have r: "ready ?s xs (chars_of is)"
      using a(1) ecok_fields [of ?s s] by (simp add: ready_def strs_ok_def)
    obtain s1 where s1: "ecadd (of_nat (ecnpats s)) ?s = Some (ecused ?s, s1)"
      "wrote ?s xs 0 s1 xs [Some (of_nat (ecnpats s))]" "rest s1 = rest ?s"
      using ecadd_writes [OF ready_mono [OF r]] by (metis zero_le)
    have w: "wrote s xs 0 s1 xs [Some (of_nat (ecnpats s))]"
      using s1(2) ecok_fields [of ?s s] by (simp add: wrote_def)
    have n1: "ecnpats s1 = ecnpats s + 1" using same_rest(2) [OF s1(3)] by simp
    obtain s2 zs ws where s2: "emit is s1 = Some s2" "wrote s1 xs (chars_of is) s2 zs ws"
      "coded (ecnpats s2) (drop (ecssub s1) (block zs)) is ws" "length ws \<le> words_of is"
      "ecnpats s2 \<le> ecnpats s1 + words_of is"
      by (rule emitsD [OF 3 [OF s1(1)] ready_wrote [OF _ s1(2)]]) (use a r n1 in simp_all)
    have "unat (of_nat (ecnpats s) :: wordcode) = ecnpats s" by (rule unat_small) (use a(3) in simp)
    then have "coded (ecnpats s2) (drop (ecssub s) (block zs)) (Pattern # is) (Some (of_nat (ecnpats s)) # ws)"
      using s2(3) wroteD(8) [OF s2(2)] n1 wroteD(6) [OF w] by (auto intro: coded.Pattern)
    moreover have "wrote s xs (chars_of (Pattern # is)) s2 zs (Some (of_nat (ecnpats s)) # ws)"
      using wrote_trans [OF w s2(2)] by simp
    ultimately show "\<exists>s' ys ws. emit (Pattern # is) s = Some s' \<and> wrote s xs (chars_of (Pattern # is)) s' ys ws
        \<and> coded (ecnpats s') (drop (ecssub s) (block ys)) (Pattern # is) ws
        \<and> length ws \<le> words_of (Pattern # is) \<and> ecnpats s' \<le> ecnpats s + words_of (Pattern # is)"
      using s1(1) n1 s2(1,4,5)
      by (intro exI [of _ s2] exI [of _ zs] exI [of _ "Some (of_nat (ecnpats s)) # ws"]) simp
  qed
next
  case (4 tracing names items args "is")
  let ?i = "Func tracing names items args # is"
  let ?k = "str_chars names + chars_of items + str_chars args"
  show ?case unfolding emits_def
  proof (intro allI impI)
    fix s xs
    assume a: "ready s xs (chars_of ?i)" "clean_items ?i" "ecnpats s + words_of ?i < 2 ^ 27"
    have r: "ready s xs (?k + chars_of is)" using a(1) by (simp add: add.assoc)
    obtain s1 ys bws nws aws sbeg nstrs np where s1: "par_funcdef tracing names (emit items) args s = Some s1"
      "wrote s xs ?k s1 ys
       (Some (WCB_FUNCDEF (of_nat (func_skip (length names) (length bws)))) # Some (of_nat (length names)) # nws
         @ Some sbeg # Some nstrs # Some np # Some (if tracing then 1 else 0) # bws @ Some WCB_END # aws)"
      (is "wrote s xs ?k s1 ys ?ws")
      "words_of_strs nws (drop (ecssub s) (block ys)) names"
      "unat sbeg + unat nstrs \<le> length (drop (ecssub s) (block ys))"
      "coded (unat np) (take (unat nstrs) (drop (unat sbeg) (drop (ecssub s) (block ys)))) items bws"
      "arg_words names args aws (drop (ecssub s) (block ys))" "length bws \<le> words_of items" "ecnpats s1 = ecnpats s"
      by (rule par_funcdef_writes [OF 4(1) ready_mono [OF r], of names args tracing]) (use a(2,3) in simp_all)
    note w1 = wroteD [OF s1(2)]
    obtain s2 zs ws where s2: "emit is s1 = Some s2" "wrote s1 ys (chars_of is) s2 zs ws"
      "coded (ecnpats s2) (drop (ecssub s1) (block zs)) is ws" "length ws \<le> words_of is"
      "ecnpats s2 \<le> ecnpats s1 + words_of is"
      by (rule emitsD [OF 4(2) [OF s1(1)] ready_wrote [OF r s1(2)]]) (use a s1(8) in simp_all)
    obtain B' where B: "drop (ecssub s) (block zs) = drop (ecssub s) (block ys) @ B'"
      using drop_block_grows [OF w1(2) wroteD(3) [OF s2(2)]] w1(6) by auto
    have sk: "func_skip (length names) (length bws) < 2 ^ 27"
      using s1(7) a(3) by (simp add: func_skip_def)
    have t: "take (unat nstrs) (drop (unat sbeg) (drop (ecssub s) (block zs)))
        = take (unat nstrs) (drop (unat sbeg) (drop (ecssub s) (block ys)))"
      using s1(4) unfolding B by simp
    have "coded (ecnpats s2) (drop (ecssub s) (block zs)) ?i (?ws @ ws)"
      by (rule coded_Func [OF _ _ _ _ sk])
        (use s1(3,4,5,6) s2(3) w1(6) t in \<open>simp_all add: B words_of_strs_append arg_words_append del: drop_drop\<close>)
    moreover have "wrote s xs (chars_of ?i) s2 zs (?ws @ ws)"
      using wrote_trans [OF s1(2) s2(2)] by (simp add: add.assoc)
    moreover have "length (?ws @ ws) \<le> words_of ?i"
      using s1(7) s2(4) list_all2_lengthD [OF s1(3)] arg_words_length [OF s1(6)] by simp
    ultimately show "\<exists>s' ys ws. emit ?i s = Some s' \<and> wrote s xs (chars_of ?i) s' ys ws
        \<and> coded (ecnpats s') (drop (ecssub s) (block ys)) ?i ws
        \<and> length ws \<le> words_of ?i \<and> ecnpats s' \<le> ecnpats s + words_of ?i"
      using s1(1,8) s2(1,5) by (intro exI [of _ s2] exI [of _ zs] exI [of _ "?ws @ ws"]) simp
  qed
qed

section \<open>A whole program\<close>

lemma init_ready: "n < 2 ^ 30 \<Longrightarrow> ready (init_parse s) [] n"
  by (simp add: ready_def init_parse_def init_parse_status_def ecok_def strs_ok_def EC_INIT_SIZE_def laid_def)

lemma bld_eprog_spec:
  assumes "ecok s" "strs_ok s xs"
  obtains e s' where "bld_eprog heap s = Some (e, s')" "prog e = codes s @ [Some WCB_END]"
    "stab e = map Some (block xs)" "sofs e = 0" "length (pats e) = ecnpats s" "npats e = ecnpats s" "dump e = 0"
    "elen e = ecnpats s * sizeof_Patprog + length (prog e) * sizeof_wordcode + length (stab e)"
proof -
  obtain s1 where s1: "ecadd WCB_END s = Some (ecused s, s1)" "ecok s1" "codes s1 = codes s @ [Some WCB_END]"
    "rest s1 = rest s" "ecused s1 = ecused s + 1"
    using ecadd_spec [OF assms(1)] by metis
  have ok: "strs_ok s1 xs" using strs_ok_rest [OF s1(4)] assms(2) by simp
  obtain b where b: "ecbuf s1 = Some b" "ecused s1 \<le> length b" using ecokD [OF s1(2)] by auto
  have c: "take (ecused s1) b = codes s1" by (simp add: codes_def b)
  have cp: "copy_ecstr (ecstrs s1) (replicate (ecsoffs s1) c) = Some (map Some (block xs))" for c
    using copy_ecstr_block [OF strs_okD(4,2) [OF ok]] strs_okD(5) [OF ok] by simp
  let ?e = "\<lparr>eflags = if heap then EF_HEAP else EF_REAL,
      elen = ecnpats s1 * sizeof_Patprog + ecused s1 * sizeof_wordcode + ecsoffs s1,
      npats = ecnpats s1, nref = if heap then - 1 else 1, pats = replicate (ecnpats s1) dummy_patprog1,
      prog = codes s1, stab = map Some (block xs), sofs = 0, dump = 0\<rparr>"
  have "bld_eprog heap s = Some (?e, s1\<lparr>ecbuf := None\<rparr>)"
    using b c cp by (simp add: bld_eprog_def s1(1))
  then show thesis
    by (rule that) (use s1(3) same_rest(2) [OF s1(4)] strs_okD(5) [OF ok] length_codes [OF s1(2)] in simp_all)
qed

lemma dupeprog_whole:
  assumes "elen e = npats e * sizeof_Patprog + length (prog e) * sizeof_wordcode + length (stab e)"
  shows "prog (dupeprog e heap) = prog e" "stab (dupeprog e heap) = stab e" "sofs (dupeprog e heap) = sofs e"
    "length (pats (dupeprog e heap)) = npats e"
  using assms by (simp_all add: dupeprog_def Let_def sizeof_wordcode_def)

lemma program_reads:
  assumes "clean_items is" "chars_of is < 2 ^ 30" "words_of is < 2 ^ 27"
  obtains s e s' where "emit is (init_parse s0) = Some s" "bld_eprog heap s = Some (e, s')"
    "reads is (enter_prog e)" "reads is (enter_prog (dupeprog e heap'))" "None \<notin> set (stab e)"
proof -
  have n: "ecnpats (init_parse s0) + words_of is < 2 ^ 27" "ecssub (init_parse s0) = 0" "codes (init_parse s0) = []"
    using assms(3) by (simp_all add: init_parse_def init_parse_status_def codes_def)
  obtain s ys ws where s: "emit is (init_parse s0) = Some s" "wrote (init_parse s0) [] (chars_of is) s ys ws"
    "coded (ecnpats s) (drop (ecssub (init_parse s0)) (block ys)) is ws"
    using emitsD [OF emit_emits init_ready [OF assms(2)] assms(1) n(1)] by metis
  note w = wroteD [OF s(2)]
  have c: "coded (ecnpats s) (block ys) is ws" "codes s = ws" using s(3) w(5) n(2,3) by simp_all
  obtain e s' where e: "bld_eprog heap s = Some (e, s')" "prog e = codes s @ [Some WCB_END]"
    "stab e = map Some (block ys)" "sofs e = 0" "length (pats e) = ecnpats s" "npats e = ecnpats s"
    "elen e = ecnpats s * sizeof_Patprog + length (prog e) * sizeof_wordcode + length (stab e)"
    using bld_eprog_spec [OF w(1,2)] by metis
  have "reads is (enter_prog f)" if "prog f = prog e" "stab f = stab e" "sofs f = sofs e" "length (pats f) = ecnpats s" for f
    by (rule coded_reads [OF c(1), where tail = "[]" and m = "[]"])
      (use that e c(2) in \<open>simp_all add: enter_prog_def\<close>)
  moreover note dupeprog_whole [of e heap']
  ultimately show thesis using that [OF s(1) e(1)] e by simp
qed

end
