(* ===== verification/Ec_Redirs.thy ===== *)
theory Ec_Redirs
  imports Ec_Funcs
begin

text \<open>
  Redirections: what \<open>ecgetredirs\<close> reads, as words, and that the program \<open>eccopyredirs\<close> makes
  of them reads the same.
\<close>

section \<open>Redirections as words\<close>

text \<open>The first word, the file descriptor, and the strings that follow.\<close>

type_synonym raw_redir = "wordcode \<times> wordcode \<times> string list"

definition redir_strs :: "wordcode \<Rightarrow> nat" where
  "redir_strs code = (if WC_REDIR_FROM_HEREDOC code then 3 else 1) + (if WC_REDIR_VARID code then 1 else 0)"

lemma redir_words: "WC_REDIR_WORDS code = 2 + redir_strs code"
  by (simp add: WC_REDIR_WORDS_def redir_strs_def)

definition mk_redir :: "raw_redir \<Rightarrow> redir" where
  "mk_redir = (\<lambda>(code, fd, strs).
     let h = WC_REDIR_FROM_HEREDOC code
     in \<lparr>rtype = WC_REDIR_TYPE code, rfd1 = fd, rname = strs ! 0, rheredoc = h,
         here_terminator = if h then Some (strs ! 1) else None,
         munged_here_terminator = if h then Some (strs ! 2) else None,
         rvarid = if WC_REDIR_VARID code then Some (strs ! (if h then 3 else 1)) else None\<rparr>)"

inductive redir_list :: "estate \<Rightarrow> raw_redir list \<Rightarrow> estate \<Rightarrow> bool" where
  End: "fetch s = Some (w, s1) \<Longrightarrow> wc_code w \<noteq> WC_REDIR \<Longrightarrow> redir_list s [] s"
| Redir: "fetch s = Some (code, s1) \<Longrightarrow> wc_code code = WC_REDIR \<Longrightarrow> fetch s1 = Some (fd, s2) \<Longrightarrow>
    ecgetarr s2 (redir_strs code) EC_DUP = Some ((strs, tok), s3) \<Longrightarrow> redir_list s3 rs s4 \<Longrightarrow>
    redir_list s ((code, fd, strs) # rs) s4"

lemma ecgetredir_raw:
  "ecgetredir code s = do {
     (fd, s) \<leftarrow> fetch s;
     ((strs, _), s) \<leftarrow> ecgetarr s (redir_strs code) EC_DUP;
     Some (mk_redir (code, fd, strs), s) }"
  by (cases "WC_REDIR_FROM_HEREDOC code"; cases "WC_REDIR_VARID code")
    (auto simp: ecgetredir_def ec_string_def redir_strs_def mk_redir_def eval_nat_numeral Let_def
      split: bind_splits prod.splits)

lemma fetch_length: "fetch s = Some (w, s') \<Longrightarrow> Suc (length (pc s')) = length (pc s)"
  by (auto simp: fetch_def split: list.splits option.splits)

lemma ecgetstr_length: "ecgetstr s dup = Some (x, s') \<Longrightarrow> Suc (length (pc s')) = length (pc s)"
  by (auto simp: ecgetstr_def Let_def dest: fetch_length split: bind_splits if_splits prod.splits)

lemma ecgetarr_length: "ecgetarr s n dup = Some (x, s') \<Longrightarrow> length (pc s') + n = length (pc s)"
  by (induction s n dup arbitrary: x s' rule: ecgetarr.induct)
    (fastforce dest: ecgetstr_length split: bind_splits prod.splits)+

lemma redirs_loop_raw:
  "redirs_loop n s ret = Some (rs, s') \<Longrightarrow> \<exists>raw. redir_list s raw s' \<and> rs = ret @ map mk_redir raw"
proof (induction n arbitrary: s ret)
  case (Suc n)
  from Suc.prems obtain code s1 where f: "fetch s = Some (code, s1)"
    by (auto split: bind_splits)
  show ?case
  proof (cases "wc_code code = WC_REDIR")
    case False
    then have "redir_list s [] s" using f by (rule redir_list.End [rotated])
    moreover have "rs = ret" "s' = s" using Suc.prems f False by simp_all
    ultimately show ?thesis by (intro exI [of _ "[]"]) simp
  next
    case True
    then obtain fd s2 strs tok s3 where g: "fetch s1 = Some (fd, s2)"
      "ecgetarr s2 (redir_strs code) EC_DUP = Some ((strs, tok), s3)"
      "redirs_loop n s3 (ret @ [mk_redir (code, fd, strs)]) = Some (rs, s')"
      using Suc.prems f by (auto simp: ecgetredir_raw split: bind_splits)
    from Suc.IH [OF g(3)] obtain raw where r: "redir_list s3 raw s'"
      "rs = (ret @ [mk_redir (code, fd, strs)]) @ map mk_redir raw" by blast
    then show ?thesis using redir_list.Redir [OF f True g(1,2) r(1)] by fastforce
  qed
qed simp

lemma raw_redirs_loop:
  "redir_list s raw s' \<Longrightarrow> length (pc s) < n \<Longrightarrow> redirs_loop n s ret = Some (ret @ map mk_redir raw, s')"
proof (induction arbitrary: n ret rule: redir_list.induct)
  case (End s w s1)
  then show ?case by (cases n) simp_all
next
  case (Redir s code s1 fd s2 strs tok s3 rs s4)
  then obtain m where m: "n = Suc m" by (cases n) auto
  have "length (pc s3) < m"
    using fetch_length [OF Redir.hyps(1)] fetch_length [OF Redir.hyps(3)] ecgetarr_length [OF Redir.hyps(4)]
      Redir.prems m by simp
  then show ?case using Redir.hyps(1-4) Redir.IH [of m] by (simp add: m ecgetredir_raw)
qed

lemma ecgetredirs_raw: "ecgetredirs s = Some (rs, s') \<longleftrightarrow> (\<exists>raw. redir_list s raw s' \<and> rs = map mk_redir raw)"
  using redirs_loop_raw [of _ s "[]" rs s'] raw_redirs_loop [of s _ s' _ "[]"]
  unfolding ecgetredirs_def by (metis append_Nil lessI)

text \<open>Strings that are read have no NUL.\<close>

lemma str_at_clean: "str_at m = Some s \<Longrightarrow> clean s"
  unfolding clean_def by (induction m arbitrary: s rule: str_at.induct) (auto split: if_splits)

lemma ecgetstr_clean: "ecgetstr s dup = Some ((str, x), s') \<Longrightarrow> clean str"
  by (auto simp: ecgetstr_def in_block_def short_str_def clean_def Let_def dest: str_at_clean [unfolded clean_def]
      split: bind_splits if_splits prod.splits)

lemma ecgetstr_dup:
  "ecgetstr s d = Some ((str, cp, tok), s') \<Longrightarrow> \<exists>cp'. ecgetstr s d' = Some ((str, cp', tok), s')"
  by (auto simp: ecgetstr_def Let_def split: bind_splits if_splits prod.splits)

lemma ecgetarr_clean: "ecgetarr s n dup = Some ((strs, tok), s') \<Longrightarrow> list_all clean strs \<and> length strs = n"
proof (induction s n dup arbitrary: strs tok s' rule: ecgetarr.induct)
  case (2 s num dup)
  then show ?case by (fastforce dest: ecgetstr_clean split: bind_splits)
qed simp

section \<open>Copying\<close>

text \<open>The parse of the copy: words written so far, room for the others.\<close>

definition filled :: "parse_state \<Rightarrow> eccnode list \<Rightarrow> cell list \<Rightarrow> cell list \<Rightarrow> bool" where
  "filled ps xs C gap \<longleftrightarrow> ecok ps \<and> strs_ok ps xs \<and> codes ps = C @ gap \<and> ecssub ps = 0"

lemma filled_put:
  assumes "filled ps xs C (g # gap)"
  obtains ps' where "ecput (length C) c ps = Some ps'" "filled ps' xs (C @ [Some c]) gap"
proof -
  note f = assms [unfolded filled_def]
  obtain ps' where p: "ecput (length C) c ps = Some ps'" "ecok ps'" "codes ps' = C @ (g # gap)[0 := Some c]"
    "rest ps' = rest ps"
    using ecput_writes [of ps C "g # gap" "length C" 0 c] f by auto
  show thesis
    by (rule that [OF p(1)]) (use p f strs_ok_rest [OF p(4)] same_rest [OF p(4)] in \<open>simp add: filled_def\<close>)
qed

text \<open>One string: read, given a word, written.\<close>

lemma copy_string_filled:
  assumes "filled ps xs C (g # gap)" "ecgetstr s d = Some ((str, cp, tok), s')"
    "length (block xs) + length str + 1 < 2 ^ 30"
  obtains ps' ys w where "copy_string (s, ps, length C) = Some (s', ps', length C + 1)"
    "filled ps' ys (C @ [Some w]) gap" "grows xs ys" "word_of_str w (block ys) str"
    "length (block ys) \<le> length (block xs) + length str + 1"
proof -
  note f = assms(1) [unfolded filled_def]
  have cl: "NUL \<notin> set str" using ecgetstr_clean [OF assms(2)] by (simp add: clean_def)
  obtain w ps1 ys where p: "ecstrcode str ps = (w, ps1)" "strs_ok ps1 ys" "grows xs ys"
    "ps1 = ps\<lparr>ecstrs := ecstrs ps1, ecsoffs := ecsoffs ps1\<rparr>" "word_of_str w (drop (ecssub ps) (block ys)) str"
    "length (block ys) \<le> length (block xs) + length str + 1"
    by (rule ecstrcode_word [of ps xs str]) (use f cl assms(3) in auto)
  have e: "ecbuf ps1 = ecbuf ps" "eclen ps1 = eclen ps" "ecused ps1 = ecused ps" "ecssub ps1 = ecssub ps"
    by (subst p(4), simp)+
  have "filled ps1 ys C (g # gap)" using ecok_fields [OF e(1-3)] f p(2) e(4) by (simp add: filled_def)
  then obtain ps2 where p2: "ecput (length C) w ps1 = Some ps2" "filled ps2 ys (C @ [Some w]) gap"
    by (rule filled_put)
  obtain cp' where "ecgetstr s EC_NODUP = Some ((str, cp', tok), s')" using ecgetstr_dup [OF assms(2)] by blast
  then have "copy_string (s, ps, length C) = Some (s', ps2, length C + 1)"
    by (simp add: copy_string_def p(1) p2(1))
  then show thesis using that [OF _ p2(2) p(3)] p(5,6) f by simp
qed

fun copy_strings :: "nat \<Rightarrow> estate \<times> parse_state \<times> nat \<Rightarrow> (estate \<times> parse_state \<times> nat) option" where
  "copy_strings 0 x = Some x"
| "copy_strings (Suc n) x = do { x \<leftarrow> copy_string x; copy_strings n x }"

lemma copy_strings_eta:
  "copy_strings 0 = Some" "copy_strings (Suc n) = (\<lambda>x. Option.bind (copy_string x) (copy_strings n))"
  by (rule ext, simp)+

lemma copy_redir_strings:
  "copy_redir code = (\<lambda>(s, ps, r). do {
     (_, s) \<leftarrow> fetch s; ps \<leftarrow> ecput r code ps; (fd, s) \<leftarrow> fetch s; ps \<leftarrow> ecput (r + 1) fd ps;
     copy_strings (redir_strs code) (s, ps, r + 2) })"
  by (cases "WC_REDIR_FROM_HEREDOC code"; cases "WC_REDIR_VARID code")
    (simp_all add: copy_redir_def redir_strs_def eval_nat_numeral copy_strings_eta del: copy_strings.simps)

lemma words_grow0: "grows xs ys \<Longrightarrow> words_of_strs ws (block xs) strs \<Longrightarrow> words_of_strs ws (block ys) strs"
  by (auto simp: grows_def intro: words_of_strs_append)

lemma copy_strings_filled:
  assumes "filled ps xs C (gs @ gap)" "ecgetarr s n d = Some ((strs, tok), s')" "length gs = n"
    "length (block xs) + str_chars strs < 2 ^ 30"
  shows "\<exists>ps' ys ws. copy_strings n (s, ps, length C) = Some (s', ps', length C + n)
    \<and> filled ps' ys (C @ ws) gap \<and> length ws = n \<and> grows xs ys \<and> words_of_strs ws (block ys) strs
    \<and> length (block ys) \<le> length (block xs) + str_chars strs"
  using assms
proof (induction n arbitrary: s ps xs C gs strs tok)
  case 0
  then show ?case by (intro exI [of _ ps] exI [of _ xs] exI [of _ "[]"]) (auto simp: str_chars_def)
next
  case (Suc n)
  obtain g gs' where gs: "gs = g # gs'" "length gs' = n" using Suc.prems(3) by (cases gs) auto
  obtain str cp t s1 where r1: "ecgetstr s d = Some ((str, cp, t), s1)"
    using Suc.prems(2) by (cases "ecgetstr s d") auto
  obtain strs' tf s2 where r2: "ecgetarr s1 n d = Some ((strs', tf), s2)"
    using Suc.prems(2) r1 by (cases "ecgetarr s1 n d") auto
  have r: "ecgetstr s d = Some ((str, cp, t), s1)" "ecgetarr s1 n d = Some ((strs', tf), s')" "strs = str # strs'"
    using Suc.prems(2) r1 r2 by simp_all
  have k: "length (block xs) + length str + 1 + str_chars strs' < 2 ^ 30"
    using Suc.prems(4) by (simp add: r(3) str_chars_def)
  obtain ps1 ys w where c: "copy_string (s, ps, length C) = Some (s1, ps1, length C + 1)"
    "filled ps1 ys (C @ [Some w]) (gs' @ gap)" "grows xs ys" "word_of_str w (block ys) str"
    "length (block ys) \<le> length (block xs) + length str + 1"
    by (rule copy_string_filled [OF _ r(1), of ps xs C g "gs' @ gap"]) (use Suc.prems(1) gs k in auto)
  obtain ps2 zs ws where d: "copy_strings n (s1, ps1, length (C @ [Some w])) = Some (s', ps2, length (C @ [Some w]) + n)"
    "filled ps2 zs ((C @ [Some w]) @ ws) gap" "length ws = n" "grows ys zs" "words_of_strs ws (block zs) strs'"
    "length (block zs) \<le> length (block ys) + str_chars strs'"
    using Suc.IH [OF c(2) r(2) gs(2)] k c(5) by auto
  have "word_of_str w (block zs) str" using c(4) d(4) by (auto simp: grows_def intro: word_of_str_append)
  then show ?case
    using c d r(3) grows_trans [OF c(3) d(4)]
    by (intro exI [of _ ps2] exI [of _ zs] exI [of _ "Some w # ws"]) (simp add: str_chars_def)
qed

text \<open>The words of a list of redirections.\<close>

inductive coded_redirs :: "string \<Rightarrow> raw_redir list \<Rightarrow> cell list \<Rightarrow> bool" where
  Nil: "coded_redirs B [] []"
| Cons: "wc_code code = WC_REDIR \<Longrightarrow> words_of_strs vs B strs \<Longrightarrow> length strs = redir_strs code \<Longrightarrow>
    coded_redirs B raw ws \<Longrightarrow> coded_redirs B ((code, fd, strs) # raw) (Some code # Some fd # vs @ ws)"

definition raw_words :: "raw_redir list \<Rightarrow> nat" where
  "raw_words raw = sum_list (map (\<lambda>(code, _, _). WC_REDIR_WORDS code) raw)"

definition raw_chars :: "raw_redir list \<Rightarrow> nat" where
  "raw_chars raw = sum_list (map (\<lambda>(_, _, strs). str_chars strs) raw)"

lemma raw_simps [simp]:
  "raw_words [] = 0" "raw_words ((code, fd, strs) # raw) = 2 + redir_strs code + raw_words raw"
  "raw_chars [] = 0" "raw_chars ((code, fd, strs) # raw) = str_chars strs + raw_chars raw"
  by (simp_all add: raw_words_def raw_chars_def redir_words)

lemma fetch_drop: "fetch s = Some (w, s') \<Longrightarrow> pc s = Some w # pc s'"
  by (auto simp: fetch_def split: list.splits option.splits)

lemma ecgetstr_drop: "ecgetstr s dup = Some (x, s') \<Longrightarrow> pc s' = drop 1 (pc s)"
  by (auto simp: ecgetstr_def Let_def dest: fetch_drop split: bind_splits if_splits prod.splits)

lemma ecgetarr_drop: "ecgetarr s n dup = Some (x, s') \<Longrightarrow> pc s' = drop n (pc s)"
proof (induction s n dup arbitrary: x s' rule: ecgetarr.induct)
  case (2 s num dup)
  obtain str cp t s1 where r1: "ecgetstr s dup = Some ((str, cp, t), s1)"
    using 2(2) by (cases "ecgetstr s dup") auto
  obtain y s2 where r2: "ecgetarr s1 num dup = Some (y, s2)"
    using 2(2) r1 by (cases "ecgetarr s1 num dup") auto
  have "s2 = s'" using 2(2) r1 r2 by (cases y) simp
  then show ?case using 2(1) [OF r1 refl refl refl r2] ecgetstr_drop [OF r1] by (simp add: drop_Suc tl_drop)
qed simp

lemma redir_drop:
  assumes "fetch s = Some (code, s1)" "fetch s1 = Some (fd, s2)" "ecgetarr s2 n dup = Some (x, s3)"
  shows "pc s3 = drop (2 + n) (pc s)"
  using fetch_drop [OF assms(1)] fetch_drop [OF assms(2)] ecgetarr_drop [OF assms(3)] by simp

lemma count_redirs_raw:
  "redir_list s raw s' \<Longrightarrow> length (pc s) < n \<Longrightarrow> count_redirs n (pc s) k = Some (k + raw_words raw)"
proof (induction arbitrary: n k rule: redir_list.induct)
  case (End s w s1)
  then show ?case using fetch_drop [OF End(1)] by (cases n) simp_all
next
  case (Redir s code s1 fd s2 strs tok s3 rs s4)
  obtain m where m: "n = Suc m" using Redir.prems by (cases n) auto
  note d = redir_drop [OF Redir.hyps(1,3,4)]
  have l: "length (pc s3) < m"
    using fetch_length [OF Redir.hyps(1)] fetch_length [OF Redir.hyps(3)] ecgetarr_length [OF Redir.hyps(4)]
      Redir.prems m by simp
  have n: "(let ncode = (if WC_REDIR_FROM_HEREDOC code then 5 else 3 :: nat);
                 ncode = (if WC_REDIR_VARID code then ncode + 1 else ncode) in f ncode) = f (2 + redir_strs code)"
    for f :: "nat \<Rightarrow> nat option" by (simp add: redir_strs_def Let_def eval_nat_numeral)
  have "count_redirs n (pc s) k = count_redirs m (drop (2 + redir_strs code) (pc s)) (k + (2 + redir_strs code))"
    unfolding m using fetch_drop [OF Redir.hyps(1)] Redir.hyps(2)
    by (simp add: n [of "\<lambda>c. count_redirs m (drop c (Some code # pc s1)) (k + c)"] del: drop_Suc_Cons)
  then show ?case unfolding d [symmetric] Redir.IH [OF l] by (simp add: add.assoc)
qed

lemma copy_redirs_filled:
  "redir_list s raw s' \<Longrightarrow> filled ps xs C gap \<Longrightarrow> length gap = raw_words raw \<Longrightarrow> length (pc s) < n \<Longrightarrow>
   length (block xs) + raw_chars raw < 2 ^ 30 \<Longrightarrow>
   \<exists>ps' ys ws. copy_redirs n (s, ps, length C) = Some (s', ps') \<and> filled ps' ys (C @ ws) []
     \<and> grows xs ys \<and> coded_redirs (block ys) raw ws"
proof (induction arbitrary: ps xs C gap n rule: redir_list.induct)
  case (End s w s1)
  then obtain m where m: "n = Suc m" by (cases n) auto
  have "filled ps xs (C @ []) []" using End by simp
  then show ?case using End(1,2) coded_redirs.Nil grows_refl m
    by (intro exI [of _ ps] exI [of _ xs] exI [of _ "[]"]) simp
next
  case (Redir s code s1 fd s2 strs tok s3 rs s4)
  obtain m where m: "n = Suc m" using Redir.prems(3) by (cases n) auto
  obtain g h gap1 where g: "gap = g # h # gap1" "length gap1 = redir_strs code + raw_words rs"
    using Redir.prems(2) by (cases gap; cases "tl gap") auto
  define gs gap2 where "gs = take (redir_strs code) gap1" and "gap2 = drop (redir_strs code) gap1"
  have gg: "gap1 = gs @ gap2" "length gs = redir_strs code" "length gap2 = raw_words rs"
    using g(2) by (simp_all add: gs_def gap2_def)
  obtain p1 where p1: "ecput (length C) code ps = Some p1" "filled p1 xs (C @ [Some code]) (h # gap1)"
    using filled_put Redir.prems(1) unfolding g(1) by metis
  obtain p2 where p2: "ecput (length C + 1) fd p1 = Some p2" "filled p2 xs (C @ [Some code, Some fd]) (gs @ gap2)"
    using filled_put [OF p1(2), of fd] unfolding gg(1) by auto
  have k: "length (block xs) + str_chars strs + raw_chars rs < 2 ^ 30" using Redir.prems(4) by simp
  obtain p3 ys vs where p3: "copy_strings (redir_strs code) (s2, p2, length C + 2) = Some (s3, p3, length C + 2 + redir_strs code)"
    "filled p3 ys (C @ Some code # Some fd # vs) gap2" "length vs = redir_strs code" "grows xs ys"
    "words_of_strs vs (block ys) strs" "length (block ys) \<le> length (block xs) + str_chars strs"
    using copy_strings_filled [OF p2(2) Redir.hyps(4) gg(2)] k by auto
  have l: "length (pc s3) < m"
    using fetch_length [OF Redir.hyps(1)] fetch_length [OF Redir.hyps(3)] ecgetarr_length [OF Redir.hyps(4)]
      Redir.prems(3) m by simp
  obtain p4 zs ws where p4: "copy_redirs m (s3, p3, length (C @ Some code # Some fd # vs)) = Some (s4, p4)"
    "filled p4 zs ((C @ Some code # Some fd # vs) @ ws) []" "grows ys zs" "coded_redirs (block zs) rs ws"
    using Redir.IH [OF p3(2) gg(3) l] k p3(6) by auto
  have "coded_redirs (block zs) ((code, fd, strs) # rs) (Some code # Some fd # vs @ ws)"
    by (rule coded_redirs.Cons [OF Redir.hyps(2) words_grow0 [OF p4(3) p3(5)] _ p4(4)])
      (use ecgetarr_clean [OF Redir.hyps(4)] in simp)
  moreover have "copy_redirs n (s, ps, length C) = Some (s4, p4)"
    using Redir.hyps(1-3) p1(1) p2(1) p3(1,3) p4(1) by (simp add: m copy_redir_strings add.assoc)
  ultimately show ?case using p4(2) grows_trans [OF p3(4) p4(3)] 
    by (intro exI [of _ p4] exI [of _ zs] exI [of _ "Some code # Some fd # vs @ ws"]) simp
qed

lemma coded_redirs_read:
  "coded_redirs B raw ws \<Longrightarrow> pc t = ws @ Some WCB_END # tail \<Longrightarrow>
   drop (sbase t) (stab (eprogp t)) = map Some B @ m \<Longrightarrow> redir_list t raw (t\<lparr>pc := Some WCB_END # tail\<rparr>)"
proof (induction arbitrary: t rule: coded_redirs.induct)
  case (Nil B)
  have "t\<lparr>pc := Some WCB_END # tail\<rparr> = t" using Nil by simp
  moreover have "fetch t = Some (WCB_END, t\<lparr>pc := tail\<rparr>)" using Nil by (simp add: fetch_def)
  moreover have "wc_code WCB_END \<noteq> WC_REDIR" by (simp add: WCB_END_def wc_defs)
  ultimately show ?case using redir_list.End by metis
next
  case (Cons code vs B strs raw ws fd)
  let ?t1 = "t\<lparr>pc := Some fd # vs @ ws @ Some WCB_END # tail\<rparr>" and ?t2 = "t\<lparr>pc := vs @ ws @ Some WCB_END # tail\<rparr>"
    and ?t3 = "t\<lparr>pc := ws @ Some WCB_END # tail\<rparr>"
  have f: "fetch t = Some (code, ?t1)" "fetch ?t1 = Some (fd, ?t2)" using Cons.prems(1) by (simp_all add: fetch_def)
  have g: "ecgetarr ?t2 (redir_strs code) EC_DUP = Some ((strs, list_ex has_token strs), ?t3)"
    using ecgetarr_words [OF Cons.hyps(2), of ?t2 "ws @ Some WCB_END # tail" m EC_DUP] Cons.hyps(3) Cons.prems(2) by simp
  have "redir_list ?t3 raw (?t3\<lparr>pc := Some WCB_END # tail\<rparr>)" by (rule Cons.IH) (use Cons.prems(2) in simp_all)
  then show ?case using redir_list.Redir [OF f(1) Cons.hyps(1) f(2) g] by simp
qed

section \<open>The copy\<close>

text \<open>The strings of a redirection.\<close>

definition redir_strings :: "redir \<Rightarrow> string list" where
  "redir_strings r = rname r # (case here_terminator r of None \<Rightarrow> [] | Some t \<Rightarrow> [t])
     @ (case munged_here_terminator r of None \<Rightarrow> [] | Some t \<Rightarrow> [t]) @ (case rvarid r of None \<Rightarrow> [] | Some v \<Rightarrow> [v])"

lemma mk_redir_strings: "length strs = redir_strs code \<Longrightarrow> redir_strings (mk_redir (code, fd, strs)) = strs"
  by (cases "WC_REDIR_FROM_HEREDOC code"; cases "WC_REDIR_VARID code")
    (auto simp: redir_strings_def mk_redir_def redir_strs_def Let_def length_Suc_conv eval_nat_numeral)

lemma redir_list_lengths: "redir_list s raw s' \<Longrightarrow> \<forall>(code, fd, strs) \<in> set raw. length strs = redir_strs code"
  by (induction rule: redir_list.induct) (auto dest: ecgetarr_clean)

lemma raw_chars_strings:
  assumes "redir_list s raw s'"
  shows "raw_chars raw = sum_list (map (str_chars \<circ> redir_strings) (map mk_redir raw))"
  using redir_list_lengths [OF assms] by (induction raw) (auto simp: mk_redir_strings)

lemma filled_init: "filled (init_parse ps) [] [] []"
  using init_ready [of 0 ps]
  by (simp add: filled_def ready_def init_parse_def init_parse_status_def codes_def)

lemma eccopyredirs_raw:
  assumes "redir_list s raw s'" "raw \<noteq> []" "raw_chars raw < 2 ^ 30"
  obtains e ps' t where "eccopyredirs s ps = Some (Some e, s', ps')" "redir_list (enter_prog e) raw t"
    "pc t = [Some WCB_END]"
proof -
  let ?i = "init_parse ps"
  obtain code fd strs raw' where raw: "raw = (code, fd, strs) # raw'" using assms(2) by (cases raw) auto
  obtain s1 where f: "fetch s = Some (code, s1)" "wc_code code = WC_REDIR"
    using assms(1) unfolding raw by (auto elim: redir_list.cases)
  have c: "count_redirs (Suc (length (pc s))) (pc s) 0 = Some (raw_words raw)"
    by (simp only: count_redirs_raw [OF assms(1) lessI] add_0)
  note fi = filled_init [of ps, unfolded filled_def]
  have u: "ecused ?i = 0" by (simp add: init_parse_def init_parse_status_def)
  obtain p1 gap where p1: "ecispace 0 (raw_words raw) ?i = Some p1" "ecok p1" "codes p1 = gap"
    "length gap = raw_words raw" "rest p1 = rest (ecadjusthere 0 (int (raw_words raw)) ?i)"
  proof (rule ecispace_spec [of ?i 0 "raw_words raw"])
    show "ecok ?i" using fi by blast
  qed (use fi that in simp_all)
  note r = same_rest [OF p1(5)]
  have "strs_ok p1 []" using fi r by (simp add: strs_ok_def ecadjusthere_def)
  then have fl: "filled p1 [] [] gap" using p1(2,3) r(5) fi by (simp add: filled_def ecadjusthere_def)
  obtain p2 ys ws where p2: "copy_redirs (Suc (length (pc s))) (s, p1, 0) = Some (s', p2)" "filled p2 ys ws []"
    "coded_redirs (block ys) raw ws"
    using copy_redirs_filled [OF assms(1) fl p1(4), of "Suc (length (pc s))"] assms(3) by auto
  obtain e ps' where e: "bld_eprog False p2 = Some (e, ps')" "prog e = codes p2 @ [Some WCB_END]"
    "stab e = map Some (block ys)" "sofs e = 0"
    using bld_eprog_spec [of p2 ys False] p2(2) unfolding filled_def by metis
  let ?t = "(enter_prog e)\<lparr>pc := [Some WCB_END]\<rparr>"
  show thesis
  proof (rule that [of e ps' ?t])
    show "eccopyredirs s ps = Some (Some e, s', ps')"
      using f c p1(1) p2(1) e(1) by (simp add: eccopyredirs_def Let_def u del: copy_redirs.simps count_redirs.simps)
    show "redir_list (enter_prog e) raw ?t"
      by (rule coded_redirs_read [OF p2(3), where m = "[]"])
        (use p2(2) e in \<open>simp_all add: enter_prog_def filled_def\<close>)
  qed simp
qed

end
