(* ===== verification/Ec_Refs.thy ===== *)
theory Ec_Refs
  imports Ec_Build
begin

text \<open>
  The life of programs in permanent memory, \<open>Src/parse.c\<close>: reference counts of programs and of
  the dump files some of them are part of.
\<close>

section \<open>Operations\<close>

text \<open>
  \<open>counts\<close> has the field \<open>count\<close> of each dump file, \<open>dumps\<close> is the list of them.
  \<open>dummy_eprog\<close> is a variable; its address stands for it.
\<close>

record eprogs =
  pheap :: "addr \<rightharpoonup> eprog"
  counts :: "addr \<rightharpoonup> int"
  dumps :: "addr list"

definition dummy_eprog :: addr where "dummy_eprog = 1"

definition incrdumpcount :: "addr \<Rightarrow> eprogs \<Rightarrow> eprogs option" where
  "incrdumpcount f st = do { c \<leftarrow> counts st f; Some (st\<lparr>counts := (counts st)(f \<mapsto> c + 1)\<rparr>) }"

text \<open>\<open>freedump\<close> unmaps the file and frees the structure.\<close>

definition freedump :: "addr \<Rightarrow> eprogs \<Rightarrow> eprogs" where
  "freedump f st = st\<lparr>counts := (counts st)(f := None)\<rparr>"

definition decrdumpcount :: "addr \<Rightarrow> eprogs \<Rightarrow> eprogs option" where
  "decrdumpcount f st = do {
     c \<leftarrow> counts st f;
     let st = st\<lparr>counts := (counts st)(f \<mapsto> c - 1)\<rparr>;
     Some (if c - 1 = 0 \<and> f \<in> set (dumps st) then freedump f (st\<lparr>dumps := remove1 f (dumps st)\<rparr>) else st) }"

definition load_dump_file :: "addr \<Rightarrow> eprogs \<Rightarrow> eprogs" where
  "load_dump_file d st = st\<lparr>dumps := d # dumps st, counts := (counts st)(d \<mapsto> 0)\<rparr>"

definition useeprog :: "addr \<Rightarrow> eprogs \<Rightarrow> eprogs option" where
  "useeprog p st =
     (if p \<noteq> 0 \<and> p \<noteq> dummy_eprog
      then do {
        e \<leftarrow> pheap st p;
        Some (if 0 \<le> nref e then st\<lparr>pheap := (pheap st)(p \<mapsto> e\<lparr>nref := nref e + 1\<rparr>)\<rparr> else st) }
      else Some st)"

definition freeeprog :: "addr \<Rightarrow> eprogs \<Rightarrow> eprogs option" where
  "freeeprog p st =
     (if p \<noteq> 0 \<and> p \<noteq> dummy_eprog
      then do {
        e \<leftarrow> pheap st p;
        if 0 < nref e
        then if nref e - 1 = 0
             then do {
               st \<leftarrow> (if dump e \<noteq> 0 then decrdumpcount (dump e) st else Some st);
               Some (st\<lparr>pheap := (pheap st)(p := None)\<rparr>) }
             else Some (st\<lparr>pheap := (pheap st)(p \<mapsto> e\<lparr>nref := nref e - 1\<rparr>)\<rparr>)
        else Some st }
      else Some st)"

section \<open>Runs\<close>

text \<open>
  The shell builds programs, maps dump files, makes programs that are part of one, takes
  further references and gives references back that it has.  \<open>held\<close> counts the references
  the rest of the shell has.
\<close>

definition fresh :: "addr \<Rightarrow> eprogs \<Rightarrow> bool" where
  "fresh p st \<longleftrightarrow> p \<noteq> 0 \<and> p \<noteq> dummy_eprog \<and> pheap st p = None"

inductive erun :: "eprogs \<Rightarrow> (addr \<Rightarrow> nat) \<Rightarrow> bool" where
  start: "erun \<lparr>pheap = Map.empty, counts = Map.empty, dumps = []\<rparr> (\<lambda>_. 0)"
| build: "erun st held \<Longrightarrow> fresh p st \<Longrightarrow> nref e = 1 \<Longrightarrow> dump e = 0 \<Longrightarrow>
    erun (st\<lparr>pheap := (pheap st)(p \<mapsto> e)\<rparr>) (held(p := 1))"
| load: "erun st held \<Longrightarrow> f \<noteq> 0 \<Longrightarrow> f \<notin> set (dumps st) \<Longrightarrow> erun (load_dump_file f st) held"
| part: "erun st held \<Longrightarrow> fresh p st \<Longrightarrow> nref e = 1 \<Longrightarrow> dump e = f \<Longrightarrow> f \<in> set (dumps st) \<Longrightarrow>
    incrdumpcount f st = Some st' \<Longrightarrow> erun (st'\<lparr>pheap := (pheap st')(p \<mapsto> e)\<rparr>) (held(p := 1))"
| use: "erun st held \<Longrightarrow> 0 < held p \<Longrightarrow> useeprog p st = Some st' \<Longrightarrow> erun st' (held(p := held p + 1))"
| free: "erun st held \<Longrightarrow> 0 < held p \<Longrightarrow> freeeprog p st = Some st' \<Longrightarrow> erun st' (held(p := held p - 1))"

section \<open>Invariant\<close>

definition users :: "(addr \<rightharpoonup> eprog) \<Rightarrow> addr \<Rightarrow> addr set" where
  "users h f = {p. \<exists>e. h p = Some e \<and> dump e = f}"

definition held_at :: "eprogs \<Rightarrow> addr \<Rightarrow> nat \<Rightarrow> bool" where
  "held_at st p n \<longleftrightarrow> (case pheap st p of
     None \<Rightarrow> n = 0
   | Some e \<Rightarrow> 0 < n \<and> nref e = int n \<and> p \<noteq> 0 \<and> p \<noteq> dummy_eprog
       \<and> (dump e \<noteq> 0 \<longrightarrow> dump e \<in> set (dumps st)))"

definition held_ok :: "eprogs \<Rightarrow> (addr \<Rightarrow> nat) \<Rightarrow> bool" where
  "held_ok st held \<longleftrightarrow> (\<forall>p. held_at st p (held p))"

definition counts_ok :: "eprogs \<Rightarrow> bool" where
  "counts_ok st \<longleftrightarrow> distinct (dumps st) \<and> 0 \<notin> set (dumps st) \<and> finite (dom (pheap st))
     \<and> (\<forall>f. counts st f = (if f \<in> set (dumps st) then Some (int (card (users (pheap st) f))) else None))"

lemma finite_users: "finite (dom h) \<Longrightarrow> finite (users h f)"
  by (rule finite_subset [of _ "dom h"]) (auto simp: users_def)

lemma users_add: "h p = None \<Longrightarrow> users (h(p \<mapsto> e)) f = (if f = dump e then insert p (users h f) else users h f)"
  by (auto simp: users_def)

lemma users_remove: "users (h(p := None)) f = users h f - {p}"
  by (auto simp: users_def)

lemma users_same: "h p = Some e \<Longrightarrow> dump e' = dump e \<Longrightarrow> users (h(p \<mapsto> e')) f = users h f"
  by (auto simp: users_def)

lemma users_fresh: "h p = None \<Longrightarrow> p \<notin> users h f"
  by (simp add: users_def)

lemma held_okD:
  assumes "held_ok st held" "0 < held p"
  obtains e where "pheap st p = Some e" "nref e = int (held p)" "p \<noteq> 0" "p \<noteq> dummy_eprog"
    "dump e \<noteq> 0 \<longrightarrow> dump e \<in> set (dumps st)"
proof -
  have "held_at st p (held p)" using assms(1) by (simp add: held_ok_def)
  then show thesis using assms(2) that by (cases "pheap st p") (auto simp: held_at_def)
qed

lemma dump_listed: "held_ok st held \<Longrightarrow> pheap st q = Some e \<Longrightarrow> dump e \<noteq> 0 \<Longrightarrow> dump e \<in> set (dumps st)"
  unfolding held_ok_def by (drule spec [of _ q]) (simp add: held_at_def)

lemma held_ok_upd:
  assumes "held_ok st held"
    "\<And>q. q \<noteq> p \<Longrightarrow> pheap st' q = pheap st q \<and> held' q = held q"
    "\<And>q e. q \<noteq> p \<Longrightarrow> pheap st q = Some e \<Longrightarrow> dump e \<noteq> 0 \<Longrightarrow> dump e \<in> set (dumps st')"
    "held_at st' p (held' p)"
  shows "held_ok st' held'"
  unfolding held_ok_def
proof
  fix q
  show "held_at st' q (held' q)"
  proof (cases "q = p")
    case False
    have "held_at st q (held q)" using assms(1) by (simp add: held_ok_def)
    then show ?thesis using assms(2,3) [OF False] by (cases "pheap st q") (simp_all add: held_at_def)
  qed (use assms(4) in simp)
qed

lemma useeprog_spec:
  assumes "held_ok st held" "counts_ok st" "0 < held p"
  shows "\<exists>st'. useeprog p st = Some st' \<and> held_ok st' (held(p := held p + 1)) \<and> counts_ok st'"
proof -
  obtain e where e: "pheap st p = Some e" "nref e = int (held p)" "p \<noteq> 0" "p \<noteq> dummy_eprog"
    "dump e \<noteq> 0 \<longrightarrow> dump e \<in> set (dumps st)"
    by (rule held_okD [OF assms(1,3)])
  let ?st = "st\<lparr>pheap := (pheap st)(p \<mapsto> e\<lparr>nref := nref e + 1\<rparr>)\<rparr>"
  have "held_ok ?st (held(p := held p + 1))"
    by (rule held_ok_upd [OF assms(1), of p]) (use e dump_listed [OF assms(1)] in \<open>simp_all add: held_at_def\<close>)
  moreover have "counts_ok ?st"
    using assms(2) users_same [of "pheap st" p e "e\<lparr>nref := nref e + 1\<rparr>", OF e(1)] by (simp add: counts_ok_def)
  ultimately show ?thesis using e by (simp add: useeprog_def)
qed

text \<open>The file of a program goes with its last user.\<close>

lemma release_dump:
  assumes "counts_ok st" "pheap st p = Some e" "dump e \<noteq> 0 \<longrightarrow> dump e \<in> set (dumps st)"
  shows "\<exists>st'. (if dump e \<noteq> 0 then decrdumpcount (dump e) st else Some st) = Some st' \<and> pheap st' = pheap st
    \<and> counts_ok (st'\<lparr>pheap := (pheap st')(p := None)\<rparr>)
    \<and> set (dumps st') = set (dumps st) - (if dump e \<noteq> 0 \<and> users (pheap st) (dump e) = {p} then {dump e} else {})"
proof (cases "dump e = 0")
  case True
  have "f \<in> set (dumps st) \<Longrightarrow> p \<notin> users (pheap st) f" for f
    using assms(1,2) True by (cases "f = 0") (auto simp: users_def counts_ok_def)
  then show ?thesis using assms(1) True
    by (auto simp: counts_ok_def users_remove intro: finite_subset)
next
  case False
  let ?f = "dump e"
  have f: "?f \<in> set (dumps st)" using assms(3) False by simp
  have fin: "finite (users (pheap st) g)" for g using assms(1) finite_users by (simp add: counts_ok_def)
  have p: "p \<in> users (pheap st) ?f" "g \<noteq> ?f \<Longrightarrow> p \<notin> users (pheap st) g" for g using assms(2) by (auto simp: users_def)
  have c: "counts st ?f = Some (int (card (users (pheap st) ?f)))" using assms(1) f by (simp add: counts_ok_def)
  have cr: "int (card (users (pheap st) ?f)) - 1 = int (card (users (pheap st) ?f - {p}))"
    using p(1) fin [of ?f] by (simp add: card_Diff_singleton) (metis One_nat_def Suc_leI card_gt_0_iff empty_iff of_nat_1 of_nat_diff)
  show ?thesis
  proof (cases "users (pheap st) ?f = {p}")
    case True
    then show ?thesis using assms(1) f c False p(2)
      by (auto simp: decrdumpcount_def freedump_def counts_ok_def users_remove Let_def)
  next
    case ne: False
    have "users (pheap st) ?f - {p} \<noteq> {}" using p(1) ne by blast
    then have "card (users (pheap st) ?f - {p}) \<noteq> 0" using fin [of ?f] by (meson card_eq_0_iff finite_Diff)
    then show ?thesis using assms(1) f c cr False ne p(2)
      by (auto simp: decrdumpcount_def counts_ok_def users_remove Let_def)
  qed
qed

lemma freeeprog_spec:
  assumes "held_ok st held" "counts_ok st" "0 < held p"
  shows "\<exists>st'. freeeprog p st = Some st' \<and> held_ok st' (held(p := held p - 1)) \<and> counts_ok st'"
proof -
  obtain e where e: "pheap st p = Some e" "nref e = int (held p)" "p \<noteq> 0" "p \<noteq> dummy_eprog"
    "dump e \<noteq> 0 \<longrightarrow> dump e \<in> set (dumps st)"
    by (rule held_okD [OF assms(1,3)])
  show ?thesis
  proof (cases "held p = 1")
    case False
    let ?st = "st\<lparr>pheap := (pheap st)(p \<mapsto> e\<lparr>nref := nref e - 1\<rparr>)\<rparr>"
    have "held_ok ?st (held(p := held p - 1))"
      by (rule held_ok_upd [OF assms(1), of p])
        (use e dump_listed [OF assms(1)] False assms(3) in \<open>auto simp: held_at_def\<close>)
    moreover have "counts_ok ?st"
      using assms(2) users_same [of "pheap st" p e "e\<lparr>nref := nref e - 1\<rparr>", OF e(1)] by (simp add: counts_ok_def)
    ultimately show ?thesis using e False assms(3) by (simp add: freeeprog_def)
  next
    case True
    obtain st' where st': "(if dump e \<noteq> 0 then decrdumpcount (dump e) st else Some st) = Some st'"
      "pheap st' = pheap st" "counts_ok (st'\<lparr>pheap := (pheap st')(p := None)\<rparr>)"
      "set (dumps st') = set (dumps st) - (if dump e \<noteq> 0 \<and> users (pheap st) (dump e) = {p} then {dump e} else {})"
      using release_dump [OF assms(2) e(1,5)] by blast
    have d: "dump e' \<in> set (dumps st')" if "pheap st q = Some e'" "q \<noteq> p" "dump e' \<noteq> 0" for q e'
    proof -
      have "dump e' \<in> set (dumps st)" using dump_listed [OF assms(1) that(1,3)] .
      moreover have "users (pheap st) (dump e') \<noteq> {p}" using that(1,2) by (auto simp: users_def)
      ultimately show ?thesis using st'(4) by auto
    qed
    have "held_ok (st'\<lparr>pheap := (pheap st')(p := None)\<rparr>) (held(p := held p - 1))"
      by (rule held_ok_upd [OF assms(1), of p]) (use True st'(2) d in \<open>auto simp: held_at_def\<close>)
    moreover have "freeeprog p st = Some (st'\<lparr>pheap := (pheap st')(p := None)\<rparr>)"
      using e True st'(1) by (simp add: freeeprog_def)
    ultimately show ?thesis using st'(3) by blast
  qed
qed

lemma erun_ok: "erun st held \<Longrightarrow> held_ok st held \<and> counts_ok st"
proof (induction rule: erun.induct)
  case start
  then show ?case by (simp add: held_ok_def held_at_def counts_ok_def users_def)
next
  case (build st held p e)
  have "held_ok (st\<lparr>pheap := (pheap st)(p \<mapsto> e)\<rparr>) (held(p := 1))"
    by (rule held_ok_upd [of st held p]) (use build dump_listed [of st held] in \<open>auto simp: held_at_def fresh_def\<close>)
  moreover have "counts_ok (st\<lparr>pheap := (pheap st)(p \<mapsto> e)\<rparr>)"
    using build users_add [of "pheap st" p e] by (auto simp: counts_ok_def fresh_def)
  ultimately show ?case by blast
next
  case (load st held f)
  have "users (pheap st) f = {}" using load dump_listed [of st held] by (auto simp: users_def)
  then have "counts_ok (load_dump_file f st)" using load by (simp add: counts_ok_def load_dump_file_def)
  moreover have "held_ok (load_dump_file f st) held"
  proof -
    have "held_at (load_dump_file f st) p (held p)" for p
    proof -
      have "held_at st p (held p)" using load.IH by (simp add: held_ok_def)
      then show ?thesis by (cases "pheap st p") (auto simp: held_at_def load_dump_file_def)
    qed
    then show ?thesis by (simp add: held_ok_def)
  qed
  ultimately show ?case by blast
next
  case (part st held p e f st')
  have c: "counts st f = Some (int (card (users (pheap st) f)))" using part by (simp add: counts_ok_def)
  then have st': "st' = st\<lparr>counts := (counts st)(f \<mapsto> int (card (users (pheap st) f)) + 1)\<rparr>"
    using part.hyps by (simp add: incrdumpcount_def)
  have fin: "finite (users (pheap st) f)" using part finite_users by (simp add: counts_ok_def)
  have n: "pheap st p = None" using part.hyps by (simp add: fresh_def)
  have "held_ok (st'\<lparr>pheap := (pheap st')(p \<mapsto> e)\<rparr>) (held(p := 1))"
    by (rule held_ok_upd [of st held p])
      (use part dump_listed [of st held] in \<open>auto simp: held_at_def fresh_def st'\<close>)
  moreover have "counts_ok (st'\<lparr>pheap := (pheap st')(p \<mapsto> e)\<rparr>)"
    using part users_add [of "pheap st" p e] n users_fresh [of "pheap st" p, OF n] fin by (auto simp: counts_ok_def st')
  ultimately show ?case by blast
next
  case (use st held p st')
  then show ?case using useeprog_spec [of st held p] by (metis option.inject)
next
  case (free st held p st')
  then show ?case using freeeprog_spec [of st held p] by (metis option.inject)
qed

end
