(* ===== verification/Ec_Lists.thy ===== *)
theory Ec_Lists
  imports Ec_Funcs
begin

text \<open>
  Simple lists, whose sublist word is left out, and the function an autoloaded file consists of.
\<close>

section \<open>Fields of list words\<close>

lemma below_bits:
  fixes w :: wordcode
  assumes "\<And>i. bit w i \<Longrightarrow> i < k"
  shows "unat w < 2 ^ k"
proof -
  have "take_bit k w = w" by (rule bit_word_eqI) (use assms in \<open>auto simp: bit_take_bit_iff\<close>)
  then have "unat w = take_bit k (unat w)" by (metis unsigned_take_bit_eq)
  then show ?thesis by (metis take_bit_nat_less_exp)
qed

text \<open>A field of \<open>k\<close> bits below the rest.\<close>

lemma or_shifted:
  fixes t n :: wordcode
  assumes "unat t < 2 ^ k" "unat n < 2 ^ j" "k + j \<le> 32"
  shows "drop_bit k (t OR push_bit k n) = n" "(t OR push_bit k n) AND mask k = t"
    "unat (t OR push_bit k n) < 2 ^ (k + j)"
proof -
  note t = bit_below [OF assms(1)] and n = bit_below [OF assms(2)]
  show "drop_bit k (t OR push_bit k n) = n"
    by (rule bit_word_eqI) (use assms(3) in \<open>auto simp: bit_simps dest: t n\<close>)
  show "(t OR push_bit k n) AND mask k = t"
    by (rule bit_word_eqI) (use assms(3) in \<open>auto simp: bit_simps dest: t n\<close>)
  show "unat (t OR push_bit k n) < 2 ^ (k + j)"
    by (rule below_bits) (auto simp: bit_simps dest: t n)
qed

lemma list_fields:
  assumes "unat t < 2 ^ 6" "unat n < 2 ^ 21"
  shows "wc_code (WCB_LIST t n) = WC_LIST" "WC_LIST_SKIP (WCB_LIST t n) = n" "WC_LIST_TYPE (WCB_LIST t n) AND mask 6 = t"
proof -
  note o = or_shifted [OF assms]
  have "unat (t OR push_bit 6 n) < 2 ^ 27" using o(3) by simp
  note w = wc_bld_fields [OF this, of WC_LIST]
  show "wc_code (WCB_LIST t n) = WC_LIST" "WC_LIST_SKIP (WCB_LIST t n) = n" "WC_LIST_TYPE (WCB_LIST t n) AND mask 6 = t"
    using w o(1,2) by (simp_all add: WCB_LIST_def WC_LIST_SKIP_def WC_LIST_TYPE_def WC_LIST_def)
qed

lemma pipe_lineno:
  assumes "unat t < 2" "unat l < 2 ^ 26"
  shows "WC_PIPE_LINENO (WCB_PIPE t l) = l"
proof -
  note o = or_shifted [of t 1 l 26]
  have "unat (t OR push_bit 1 l) < 2 ^ 27" using o(3) assms by simp
  then show ?thesis
    using wc_bld_fields(1) [of "t OR push_bit 1 l" WC_PIPE] o(1) assms
    by (simp add: WCB_PIPE_def WC_PIPE_LINENO_def WC_PIPE_def)
qed

lemma sublist_end:
  assumes "f AND 3 = 0" "unat f < 2 ^ 5" "unat n < 2 ^ 22"
  shows "WC_SUBLIST_TYPE (WCB_SUBLIST WC_SUBLIST_END (f OR WC_SUBLIST_SIMPLE) n) = WC_SUBLIST_END"
    "WC_SUBLIST_FLAGS (WCB_SUBLIST WC_SUBLIST_END (f OR WC_SUBLIST_SIMPLE) n) AND WC_SUBLIST_SIMPLE \<noteq> 0"
proof -
  let ?t = "f OR WC_SUBLIST_SIMPLE"
  have s: "WC_SUBLIST_SIMPLE = push_bit 4 1" "(3 :: wordcode) = mask 2" "(0x1c :: wordcode) = push_bit 2 (mask 3)"
    by (simp_all add: WC_SUBLIST_SIMPLE_def mask_eq_exp_minus_1)
  have b: "bit (16 :: int) i \<longleftrightarrow> i = 4" for i using bit_exp_iff [where 'a = int, of 4 i] by auto
  have t: "unat ?t < 2 ^ 5"
  proof (rule below_bits)
    fix i
    show "bit ?t i \<Longrightarrow> i < 5"
      by (auto simp: WC_SUBLIST_SIMPLE_def bit_or_iff b dest: bit_below [OF assms(2)])
  qed
  note o = or_shifted [OF t assms(3)]
  have "unat (?t OR push_bit 5 n) < 2 ^ 27" using o(3) by simp
  then have d: "wc_data (WCB_SUBLIST WC_SUBLIST_END ?t n) = ?t OR push_bit 5 n"
    using wc_bld_fields(1) [of "?t OR push_bit 5 n" WC_SUBLIST]
    by (simp add: WCB_SUBLIST_def WC_SUBLIST_def WC_SUBLIST_END_def)
  have f: "\<not> bit f i" if "i < 2" for i
  proof -
    have "\<not> bit (f AND 3) i" by (simp add: assms(1))
    then show ?thesis using that by (simp add: s bit_simps)
  qed
  show "WC_SUBLIST_TYPE (WCB_SUBLIST WC_SUBLIST_END ?t n) = WC_SUBLIST_END"
    unfolding WC_SUBLIST_TYPE_def d unfolding WC_SUBLIST_END_def s
    by (rule bit_word_eqI) (auto simp: bit_simps b dest: f)
  have "bit (WC_SUBLIST_FLAGS (WCB_SUBLIST WC_SUBLIST_END ?t n) AND WC_SUBLIST_SIMPLE) 4"
    unfolding WC_SUBLIST_FLAGS_def d unfolding s by (auto simp: bit_simps b)
  then show "WC_SUBLIST_FLAGS (WCB_SUBLIST WC_SUBLIST_END ?t n) AND WC_SUBLIST_SIMPLE \<noteq> 0" by force
qed

section \<open>Leaving the sublist out\<close>

text \<open>
  The end of a list that is one simple command: \<open>par_sublist\<close> marks the sublist, \<open>par_list\<close>
  the list.  The words were put there by \<open>ecadd\<close>, the last one by \<open>par_pline\<close>.
\<close>

lemma set_sublist_code_spec:
  assumes "ecok s" "codes s = C @ x # Some (WCB_PIPE t l) # cmd" "unat t < 2" "unat l < 2 ^ 26"
  obtains s' where "set_sublist_code (length C) type fl skip False s = Some s'" "ecok s'"
    "codes s' = C @ Some (WCB_SUBLIST type (fl OR WC_SUBLIST_SIMPLE) skip) # Some l # cmd" "rest s' = rest s"
proof -
  let ?w = "WCB_SUBLIST type (fl OR WC_SUBLIST_SIMPLE) skip"
  obtain s1 where s1: "ecput (length C) ?w s = Some s1" "ecok s1" "codes s1 = C @ (x # Some (WCB_PIPE t l) # cmd)[0 := Some ?w]"
    "rest s1 = rest s"
    by (rule ecput_writes [OF assms(1,2), of "length C" 0 ?w]) simp_all
  have c1: "codes s1 = (C @ [Some ?w]) @ Some (WCB_PIPE t l) # cmd" by (simp add: s1(3))
  have "length C + 1 < ecused s1" using length_codes [OF s1(2)] by (simp add: c1)
  then have g: "ecget (length C + 1) s1 = Some (WCB_PIPE t l)"
    using ecget_spec [OF s1(2)] by (simp add: c1 nth_append)
  obtain s2 where s2: "ecput (length C + 1) l s1 = Some s2" "ecok s2"
    "codes s2 = (C @ [Some ?w]) @ (Some (WCB_PIPE t l) # cmd)[0 := Some l]" "rest s2 = rest s1"
    by (rule ecput_writes [OF s1(2) c1, of "length C + 1" 0 l]) simp_all
  show thesis
    by (rule that [of s2])
      (use s1 s2 g pipe_lineno [OF assms(3,4)] in \<open>simp_all add: set_sublist_code_def\<close>)
qed

lemma set_list_code_spec:
  assumes "ecok s" "codes s = C @ x # Some w # cmd" "type = Z_SYNC \<or> type = (Z_SYNC OR Z_END)"
    "WC_SUBLIST_TYPE w = WC_SUBLIST_END" "WC_SUBLIST_FLAGS w AND WC_SUBLIST_SIMPLE \<noteq> 0"
    "\<forall>h \<in> set (hdocs s). 0 \<le> hpc h \<and> hpc h \<noteq> int (length C) \<and> hpc h \<noteq> int (length C) + 1"
  obtains s' where "set_list_code (length C) type False s = Some s'" "ecok s'"
    "codes s' = C @ Some (WCB_LIST (type OR Z_SIMPLE) (of_nat (length cmd))) # cmd" "here_words s' = here_words s"
proof -
  let ?l = "WCB_LIST (type OR Z_SIMPLE) (of_nat (length cmd))"
  have u: "ecused s = length C + 2 + length cmd" using length_codes [OF assms(1)] by (simp add: assms(2))
  then have g: "ecget (length C + 1) s = Some w"
    using ecget_spec [OF assms(1), of "length C + 1"] by (simp add: assms(2) nth_append)
  obtain s1 where s1: "ecput (length C) ?l s = Some s1" "ecok s1" "codes s1 = C @ (x # Some w # cmd)[0 := Some ?l]"
    "rest s1 = rest s" "ecused s1 = ecused s"
    by (rule ecput_writes [OF assms(1,2), of "length C" 0 ?l]) simp_all
  obtain s2 where s2: "ecdel (length C + 1) s1 = Some s2" "ecok s2"
    "codes s2 = take (length C + 1) (codes s1) @ drop (length C + 1 + 1) (codes s1)"
    "rest s2 = rest (ecadjusthere (int (length C + 1)) (- 1) s1)" "ecused s2 = ecused s1 - 1"
    by (rule ecdel_spec [OF s1(2), of "length C + 1"]) (use u s1(5) in simp_all)
  have c2: "codes s2 = C @ Some ?l # cmd" by (simp add: s2(3) s1(3))
  have n: "word_of_int (int (ecused s) - 2 - int (length C)) = (of_nat (length cmd) :: wordcode)"
    by (simp add: u)
  have "set_list_code (length C) type False s = Some s2"
    using assms(3-5) g n s1(1) s2(1) by (auto simp: set_list_code_def Let_def)
  moreover have "here_words s2 = here_words s"
  proof -
    have h: "hdocs s2 = hdocs (ecadjusthere (int (length C + 1)) (- 1) s)"
      using same_rest(1) [OF s2(4)] same_rest(1) [OF s1(4)] by (simp add: ecadjusthere_def)
    have "word_at (if int (length C + 1) \<le> hpc h then hpc h + (- 1) else hpc h) (codes s2) = word_at (hpc h) (codes s)"
      if "h \<in> set (hdocs s)" for h
    proof -
      have p: "0 \<le> hpc h" "hpc h \<noteq> int (length C)" "hpc h \<noteq> int (length C + 1)" using assms(6) that by auto
      have "word_at (if int (length C + 1) \<le> hpc h then hpc h + (- 1) else hpc h) (codes s2) = word_at (hpc h) (codes s1)"
        unfolding s2(3) by (rule word_at_delete) (use p u s1(3,5) length_codes [OF s1(2)] in simp_all)
      also have "\<dots> = word_at (hpc h) (codes s)"
        using p by (auto simp: word_at_def s1(3) assms(2) nth_append nth_Cons split: nat.splits)
      finally show ?thesis .
    qed
    then show ?thesis
      by (auto simp: here_words_def h ecadjusthere_def cong: if_cong intro!: map_cong) (metis add_uminus_conv_diff)+
  qed
  ultimately show thesis using that s2(2) c2 by blast
qed

section \<open>Autoloaded files\<close>

lemma ecgetstr_SomeD:
  assumes "ecgetstr s dup = Some ((str, cp, tok), s')" "fetch s = Some (w, s1)"
  shows "s' = s1 \<and> ec_read w (stab (eprogp s1)) (sbase s1) = Some str \<and> tok = (w AND 1 \<noteq> 0)"
proof -
  consider "w = 6 \<or> w = 7" | "\<not> (w = 6 \<or> w = 7)" "w AND 2 \<noteq> 0" | "\<not> (w = 6 \<or> w = 7)" "w AND 2 = 0" by blast
  then show ?thesis
  proof cases
    case 1
    then show ?thesis using assms by (simp add: ecgetstr_def ec_read_def Let_def)
  next
    case 2
    then show ?thesis using assms by (simp add: ecgetstr_def ec_read_def Let_def)
  next
    case 3
    then show ?thesis using assms
      by (cases "in_block w (stab (eprogp s1)) (sbase s1)") (simp_all add: ecgetstr_def ec_read_def Let_def)
  qed
qed

lemma ecrawstr_read: "ecrawstr p (Some w # ws) = map_option (\<lambda>r. (r, w AND 1 \<noteq> 0)) (ec_read w (stab p) (sofs p))"
  by (simp add: ecrawstr_def ec_read_def)

lemma ecgetstr_raw:
  assumes "ecgetstr s dup = Some ((str, cp, tok), s')" "sbase s = sofs (eprogp s)"
  shows "ecrawstr (eprogp s) (pc s) = Some (str, tok)" "s' = s\<lparr>pc := tl (pc s)\<rparr>" "\<exists>w. pc s = Some w # pc s'"
proof -
  obtain w s1 where f: "fetch s = Some (w, s1)" using assms(1) by (cases "fetch s") (auto simp: ecgetstr_def)
  then obtain ws where p: "pc s = Some w # ws" "s1 = s\<lparr>pc := ws\<rparr>"
    by (auto simp: fetch_def split: list.splits option.splits)
  note d = ecgetstr_SomeD [OF assms(1) f]
  show "s' = s\<lparr>pc := tl (pc s)\<rparr>" "\<exists>w. pc s = Some w # pc s'" using d p by simp_all
  show "ecrawstr (eprogp s) (pc s) = Some (str, tok)"
    using d assms(2) unfolding p by (simp add: ecrawstr_read)
qed

lemma ecgetarr_len: "ecgetarr s n dup = Some ((strs, tok), s') \<Longrightarrow> length strs = n"
proof (induction s n dup arbitrary: strs tok s' rule: ecgetarr.induct)
  case (2 s num dup)
  then show ?case by (fastforce split: bind_splits)
qed simp

lemma ecgetlist_one:
  assumes "ecgetlist s n dup = Some ((Some [str], tok), s')"
  shows "n = 1" "\<exists>cp. ecgetstr s dup = Some ((str, cp, tok), s')"
proof -
  obtain m where m: "n = Suc m" using assms by (cases n) (auto simp: ecgetlist_def)
  obtain a cp t s1 where 1: "ecgetstr s dup = Some ((a, cp, t), s1)"
    using assms m by (cases "ecgetstr s dup") (auto simp: ecgetlist_def)
  obtain ss tf s2 where 2: "ecgetarr s1 m dup = Some ((ss, tf), s2)"
    using assms m 1 by (cases "ecgetarr s1 m dup") (auto simp: ecgetlist_def)
  have "ss = []" "a = str" "s2 = s'" "(t \<or> tf) = tok" using assms m 1 2 by (auto simp: ecgetlist_def)
  moreover have "m = 0" using ecgetarr_len [OF 2] \<open>ss = []\<close> by simp
  ultimately show "n = 1" "\<exists>cp. ecgetstr s dup = Some ((str, cp, tok), s')" using 1 2 m by auto
qed

lemma fetch_same:
  "fetch s = Some (w, s') \<Longrightarrow> pc s = Some w # pc s' \<and> eprogp s' = eprogp s \<and> sbase s' = sbase s"
  by (auto simp: fetch_def split: list.splits option.splits)

lemma only_funcdef_file:
  assumes "wc_code lw = WC_LIST"
    "WC_LIST_TYPE lw AND (Z_SYNC OR Z_END OR Z_SIMPLE) = (Z_SYNC OR Z_END OR Z_SIMPLE)" "wc_code h = WC_FUNCDEF"
  shows "only_funcdef (Some lw # ln # Some h # Some num # cs) = Some (num = 1, h, Some num # cs)"
  using assms by (simp add: only_funcdef_def)

text \<open>What a successful \<open>func_prog\<close> of a function with one name has read.\<close>

lemma func_prog_parts:
  assumes "func_prog h s = Some (Some [fname], tr, f, end)" "sbase s = sofs (eprogp s)"
  obtains namew sb ns np tw cs where
    "pc s = Some 1 # Some namew # Some sb # Some ns # Some np # Some tw # cs"
    "ecrawstr (eprogp s) (tl (pc s)) = Some (fname, namew AND 1 \<noteq> 0)"
    "unat (WC_FUNCDEF_SKIP h) \<le> length (pc s)" "end = drop (unat (WC_FUNCDEF_SKIP h)) (pc s)"
    "length end \<le> length cs" "npats f = unat np" "pats f = replicate (unat np) dummy_patprog1"
    "elen f = (length cs - length end) * sizeof_wordcode + unat np * sizeof_Patprog + unat ns"
    "dump (eprogp s) \<noteq> 0 \<Longrightarrow> prog f = cs \<and> stab f = stab (eprogp s) \<and> sofs f = sbase s + unat sb"
    "dump (eprogp s) = 0 \<Longrightarrow> sbase s + unat sb + unat ns \<le> length (stab (eprogp s))
       \<and> prog f = take (length cs - length end) cs
       \<and> stab f = take (unat ns) (drop (sbase s + unat sb) (stab (eprogp s))) \<and> sofs f = 0"
proof -
  let ?skip = "unat (WC_FUNCDEF_SKIP h)"
  have sk: "?skip \<le> length (pc s)" using assms(1) by (simp add: func_prog_def Let_def split: if_splits)
  obtain num s1 where 1: "fetch s = Some (num, s1)" using assms(1) sk by (cases "fetch s") (auto simp: func_prog_def Let_def)
  obtain nm ht s2 where 2: "ecgetlist s1 (unat num) EC_DUPTOK = Some ((nm, ht), s2)"
    using assms(1) sk 1 by (cases "ecgetlist s1 (unat num) EC_DUPTOK") (auto simp: func_prog_def Let_def)
  obtain sb s3 where 3: "fetch s2 = Some (sb, s3)"
    using assms(1) sk 1 2 by (cases "fetch s2") (auto simp: func_prog_def Let_def)
  obtain ns s4 where 4: "fetch s3 = Some (ns, s4)"
    using assms(1) sk 1 2 3 by (cases "fetch s3") (auto simp: func_prog_def Let_def)
  obtain np s5 where 5: "fetch s4 = Some (np, s5)"
    using assms(1) sk 1 2 3 4 by (cases "fetch s4") (auto simp: func_prog_def Let_def)
  obtain tw s6 where 6: "fetch s5 = Some (tw, s6)"
    using assms(1) sk 1 2 3 4 5 by (cases "fetch s5") (auto simp: func_prog_def Let_def)
  note steps = 1 2 3 4 5 6
  have nm: "nm = Some [fname]"
    using assms(1) sk unfolding func_prog_def Let_def by (auto simp: steps split: if_splits)
  note one = ecgetlist_one [OF 2 [unfolded nm]]
  obtain cp where n: "ecgetstr s1 EC_DUPTOK = Some ((fname, cp, ht), s2)" using one(2) by blast
  note f1 = fetch_same [OF 1] and f3 = fetch_same [OF 3] and f4 = fetch_same [OF 4] and f5 = fetch_same [OF 5]
    and f6 = fetch_same [OF 6]
  obtain w where w: "fetch s1 = Some (w, s2)" "ecrawstr (eprogp s) (pc s1) = Some (fname, w AND 1 \<noteq> 0)"
  proof -
    obtain w t where w: "fetch s1 = Some (w, t)" using n by (cases "fetch s1") (auto simp: ecgetstr_def)
    note d = ecgetstr_SomeD [OF n w]
    have "ecrawstr (eprogp s1) (pc s1) = Some (fname, ht)"
      using ecgetstr_raw(1) [OF n] f1 assms(2) by simp
    then show thesis using that [of w] w d f1 by simp
  qed
  note f2 = fetch_same [OF w(1)]
  have num: "num = 1" using one(1) by (metis unat_1 word_unat_eq_iff)
  have p: "pc s = Some 1 # Some w # Some sb # Some ns # Some np # Some tw # pc s6"
    using f1 f2 f3 f4 f5 f6 by (simp add: num)
  have e: "eprogp s6 = eprogp s" "sbase s6 = sbase s" using f1 f2 f3 f4 f5 f6 by simp_all
  have le: "length (drop ?skip (pc s)) \<le> length (pc s6)"
    using assms(1) sk unfolding func_prog_def Let_def by (simp add: steps nm split: if_splits)
  have r: "(if dump (eprogp s) \<noteq> 0
      then Some \<lparr>eflags = EF_MAP, elen = (length (pc s6) - length (drop ?skip (pc s))) * sizeof_wordcode
             + unat np * sizeof_Patprog + unat ns, npats = unat np,
              nref = 1, pats = replicate (unat np) dummy_patprog1,
              prog = pc s6, stab = stab (eprogp s), sofs = sbase s + unat sb, dump = dump (eprogp s)\<rparr>
       else if sbase s + unat sb + unat ns \<le> length (stab (eprogp s))
       then Some \<lparr>eflags = EF_REAL, elen = (length (pc s6) - length (drop ?skip (pc s))) * sizeof_wordcode
             + unat np * sizeof_Patprog + unat ns, npats = unat np, nref = 1,
              pats = replicate (unat np) dummy_patprog1,
              prog = take (length (pc s6) - length (drop ?skip (pc s))) (pc s6),
              stab = take (unat ns) (drop (sbase s + unat sb) (stab (eprogp s))), sofs = 0, dump = 0\<rparr>
       else None) = Some f" "end = drop ?skip (pc s)"
    using assms(1) unfolding func_prog_def Let_def if_P [OF sk] Option.bind_lunit steps prod.case nm e if_P [OF le]
    by (auto split: if_splits)
  show thesis
    by (rule that [OF p _ sk r(2)])
      (use r(1) le w(2) p f1 in \<open>auto simp: r(2) split: if_splits\<close>)
qed

text \<open>What matters of a program when it is executed.\<close>

definition same_program :: "eprog \<Rightarrow> eprog \<Rightarrow> bool" where
  "same_program e f \<longleftrightarrow> prog e = prog f \<and> stab e = stab f \<and> sofs e = sofs f \<and> npats e = npats f
     \<and> pats e = pats f \<and> elen e = elen f"

lemma stripkshdef_func_prog:
  assumes "prog e = Some lw # ln # Some h # cs" "wc_code lw = WC_LIST"
    "WC_LIST_TYPE lw AND (Z_SYNC OR Z_END OR Z_SIMPLE) = (Z_SYNC OR Z_END OR Z_SIMPLE)" "wc_code h = WC_FUNCDEF"
    "func_prog h ((enter_prog e)\<lparr>pc := cs\<rparr>) = Some (Some [fname], tr, f, end)"
    "dump e \<noteq> 0 \<longleftrightarrow> eflags e AND EF_MAP \<noteq> 0"
  shows "if same_name name fname then \<exists>g. stripkshdef junk e name = Some g \<and> same_program g f
    else stripkshdef junk e name = Some e"
proof -
  let ?s = "(enter_prog e)\<lparr>pc := cs\<rparr>"
  have s: "sbase ?s = sofs e" "eprogp ?s = e" "pc ?s = cs" by (simp_all add: enter_prog_def)
  obtain nw sb ns np tw cp where p: "cs = Some 1 # Some nw # Some sb # Some ns # Some np # Some tw # cp"
    "ecrawstr e (tl cs) = Some (fname, nw AND 1 \<noteq> 0)"
    "unat (WC_FUNCDEF_SKIP h) \<le> length cs" "end = drop (unat (WC_FUNCDEF_SKIP h)) cs"
    "length end \<le> length cp" "npats f = unat np" "pats f = replicate (unat np) dummy_patprog1"
    "elen f = (length cp - length end) * sizeof_wordcode + unat np * sizeof_Patprog + unat ns"
    "dump e \<noteq> 0 \<Longrightarrow> prog f = cp \<and> stab f = stab e \<and> sofs f = sofs e + unat sb"
    "dump e = 0 \<Longrightarrow> sofs e + unat sb + unat ns \<le> length (stab e)
       \<and> prog f = take (length cp - length end) cp
       \<and> stab f = take (unat ns) (drop (sofs e + unat sb) (stab e)) \<and> sofs f = 0"
    by (rule func_prog_parts [OF assms(5), unfolded s, OF refl]) (rule that)
  have o: "only_funcdef (prog e) = Some (True, h, cs)"
    using only_funcdef_file [OF assms(2-4), of ln 1] assms(1) p(1) by simp
  have d: "drop 2 cs = Some sb # Some ns # Some np # Some tw # cp" by (simp add: p(1))
  let ?g = "if eflags e AND EF_MAP \<noteq> 0
    then e\<lparr>pats := replicate (unat np) dummy_patprog1, prog := cp, sofs := sofs e + unat sb, elen := elen f, npats := unat np\<rparr>
    else \<lparr>eflags = EF_HEAP, elen = elen f, npats = unat np, nref = junk, pats = replicate (unat np) dummy_patprog1,
          prog = take (length cp - length end) cp, stab = take (unat ns) (drop (sofs e + unat sb) (stab e)),
          sofs = 0, dump = 0\<rparr>"
  have g: "stripkshdef junk e name = Some ?g" if "same_name name fname"
    unfolding stripkshdef_def o Option.bind_lunit prod.case Let_def p(2) if_P [OF p(3)] d list.case option.case
      p(4) [symmetric] if_P [OF p(5)] p(8) [symmetric]
    using that p(10) assms(6) by (cases "dump e = 0") simp_all
  have "same_program ?g f" using p(6,7,9,10) assms(6) by (cases "dump e = 0") (simp_all add: same_program_def)
  moreover have "stripkshdef junk e name = Some e" if "\<not> same_name name fname"
    unfolding stripkshdef_def o Option.bind_lunit prod.case p(2) using that by simp
  ultimately show ?thesis using g
    by (cases "same_name name fname") (simp_all only: if_True if_False simp_thms, blast)
qed

end
