(* ===== verification/Ec_Props.thy ===== *)
theory Ec_Props
  imports Ec_Redirs Ec_Refs Ec_Lists
begin

text \<open>
  The properties of word code, each with a witness on a concrete parse or program.
\<close>

definition parse0 :: parse_state where
  "parse0 = \<lparr>incmdpos = 0, aliasspaceflag = 0, incond = 0, inredir = 0, incasepat = 0, isnewlin = 0,
     infor = 0, inrepeat = 0, intypeset = 0, hdocs = [], eclen = 0, ecused = 0, ecnpats = 0, ecbuf = None,
     ecstrs = NoStr, ecsoffs = 0, ecssub = 0, ecnfunc = 0\<rparr>"

section \<open>Programs\<close>

text \<open>C8: a program reads back what the parser wrote, for any nesting of functions.  The strings,
  with their token flags, the numbers of the patterns, below the number of patterns the program has,
  names, bodies and arguments of functions: all are met in order, in the program \<open>bld_eprog\<close> makes
  and in a copy of it, and in the programs \<open>execfuncdef\<close> makes of the functions.  No byte of the strings is
  left unwritten.  The strings have to fit the 30 bits a word has for their offset, the words the
  27 bits of a skip.\<close>

theorem program_reads_back:
  assumes "clean_items is" "chars_of is < 2 ^ 30" "words_of is < 2 ^ 27"
  shows "\<exists>s e s'. emit is (init_parse s0) = Some s \<and> bld_eprog heap s = Some (e, s')
    \<and> reads is (enter_prog e) \<and> reads is (enter_prog (dupeprog e heap')) \<and> None \<notin> set (stab e)"
  using program_reads [OF assms, of s0 heap heap'] by metis

definition demo_items :: "item list" where
  "demo_items = [Text ''hello world'', Func False [''greet'', ''f''] [Text ''hello world'', Pattern, Text ''hi'',
     Func True [] [Text ''nested'', Text ''hello world''] [''first'', [CHR ''x'', Pound]]] [], Pattern, Text ''hello world'']"

theorem program_reads_back_witness:
  "\<exists>s e s'. emit demo_items (init_parse parse0) = Some s \<and> bld_eprog True s = Some (e, s')
    \<and> reads demo_items (enter_prog e) \<and> reads demo_items (enter_prog (dupeprog e False)) \<and> None \<notin> set (stab e)"
  by (rule program_reads_back) (simp_all add: demo_items_def clean_def NUL_def str_chars_def)

text \<open>
  The copy of a function from a dump file that is mapped is not the function: \<open>dupeprog\<close> takes
  \<open>len\<close> bytes from the code on, but code and strings are not adjacent, and the strings end up
  outside the copy.  Here the function prints fine and its copy reads behind its memory.
\<close>

lemma dump_copy_lost:
  "do {
    s \<leftarrow> emit [Func False [''f''] [Text ''hello''] []] (init_parse parse0);
    (e, _) \<leftarrow> bld_eprog True s;
    (w, st) \<leftarrow> fetch (enter_prog (e\<lparr>dump := 1\<rparr>));
    (_, _, f, _) \<leftarrow> func_prog w st;
    Some (map_option (fst \<circ> fst) (ecgetstr (enter_prog f) EC_DUP),
          map_option (fst \<circ> fst) (ecgetstr (enter_prog (dupeprog f False)) EC_DUP)) } = Some (Some ''hello'', None)"
  by code_simp

section \<open>Strings\<close>

text \<open>C13: \<open>ecstrcode\<close> implements a map from strings, together with the function they are in, to words.
  A long string gets the word it has, and then nothing changes, or a new one, and then the map is
  extended by it alone.  Asking again gives the same word.  The comparison of the tree is a
  difference modulo \<open>2 ^ 32\<close> and no ordering; the search is right all the same.\<close>

theorem strings_interned:
  assumes "strs_ok s xs" "NUL \<notin> set str" "3 < length str"
  shows "\<exists>w s' ys. ecstrcode str s = (w, s') \<and> strs_ok s' ys \<and> ecnfunc s' = ecnfunc s
    \<and> str_words ys = (str_words xs)((ecnfunc s, str) \<mapsto> w)
    \<and> ((ecnfunc s, str) \<in> dom (str_words xs) \<longrightarrow> s' = s)
    \<and> ecstrcode str s' = (w, s')"
proof (cases "str_words xs (ecnfunc s, str)")
  case (Some w)
  then have "ecstrcode str s = (w, s)" using ecstrcode_spec [OF assms(1,2)] assms(3) by simp
  moreover have "str_words xs = (str_words xs)((ecnfunc s, str) \<mapsto> w)" using Some by (simp add: map_upd_triv)
  ultimately show ?thesis using assms(1) by blast
next
  case None
  let ?w = "long_word (ecsoffs s - ecssub s) str"
  obtain t where t: "ecstrcode str s = (?w, s\<lparr>ecstrs := t, ecsoffs := ecsoffs s + (length str + 1)\<rparr>)"
    "strs_ok (s\<lparr>ecstrs := t, ecsoffs := ecsoffs s + (length str + 1)\<rparr>) (xs @ [ec_new str s])"
    using ecstrcode_spec [OF assms(1,2)] assms(3) None by auto
  have m: "str_words (xs @ [ec_new str s]) = (str_words xs)((ecnfunc s, str) \<mapsto> ?w)"
    using None ec_new_offs [OF strs_okD(6) [OF assms(1)], of str]
    by (auto simp: str_words_def map_add_def fun_eq_iff split: option.splits)
  have "ecstrcode str (s\<lparr>ecstrs := t, ecsoffs := ecsoffs s + (length str + 1)\<rparr>)
      = (?w, s\<lparr>ecstrs := t, ecsoffs := ecsoffs s + (length str + 1)\<rparr>)"
    using ecstrcode_spec [OF t(2) assms(2)] assms(3) m by simp
  then show ?thesis using t m None by (intro exI conjI) auto
qed

theorem strings_interned_witness:
  "\<exists>w s' ys. ecstrcode ''hello'' (init_parse parse0) = (w, s') \<and> strs_ok s' ys \<and> ecnfunc s' = ecnfunc (init_parse parse0)
    \<and> str_words ys = (str_words [])((ecnfunc (init_parse parse0), ''hello'') \<mapsto> w)
    \<and> ((ecnfunc (init_parse parse0), ''hello'') \<in> dom (str_words []) \<longrightarrow> s' = init_parse parse0)
    \<and> ecstrcode ''hello'' s' = (w, s')"
  by (rule strings_interned) (use init_ready [of 0 parse0] in \<open>simp_all add: ready_def NUL_def\<close>)

section \<open>The buffer\<close>

lemma here_words_adjust:
  assumes "rest s' = rest (ecadjusthere p d s)"
    "\<And>h. h \<in> set (hdocs s) \<Longrightarrow>
       word_at (if p \<le> hpc h then hpc h + d else hpc h) (codes s') = word_at (hpc h) (codes s)"
  shows "here_words s' = here_words s"
proof -
  have "hdocs s' = map (\<lambda>h. if p \<le> hpc h then h\<lparr>hpc := hpc h + d\<rparr> else h) (hdocs s)"
    using same_rest(1) [OF assms(1)] by (simp add: ecadjusthere_def)
  moreover have "hpc (if p \<le> hpc h then h\<lparr>hpc := hpc h + d\<rparr> else h) = (if p \<le> hpc h then hpc h + d else hpc h)"
    for h :: heredocs by simp
  ultimately show ?thesis using assms(2) by (simp add: here_words_def o_def)
qed

text \<open>C14: \<open>ecispace\<close> inserts and \<open>ecdel\<close> deletes words, whatever room the buffer has left: it is
  made larger when it has to be, the other words keep their order, and every here-document
  still refers to the word it referred to.\<close>
theorem code_editing:
  assumes "ecok s" "\<forall>h \<in> set (hdocs s). 0 \<le> hpc h"
  shows "(\<forall>p n. p \<le> ecused s \<longrightarrow> (\<exists>s' gap. ecispace p n s = Some s' \<and> ecok s' \<and> length gap = n
      \<and> codes s' = take p (codes s) @ gap @ drop p (codes s) \<and> here_words s' = here_words s))
    \<and> (\<forall>p. p < ecused s \<and> (\<forall>h \<in> set (hdocs s). hpc h \<noteq> int p) \<longrightarrow> (\<exists>s'. ecdel p s = Some s' \<and> ecok s'
      \<and> codes s' = take p (codes s) @ drop (p + 1) (codes s) \<and> here_words s' = here_words s))"
proof (intro conjI allI impI)
  fix p n
  assume p: "p \<le> ecused s"
  obtain s' gap where s': "ecispace p n s = Some s'" "ecok s'" "codes s' = take p (codes s) @ gap @ drop p (codes s)"
    "length gap = n" "rest s' = rest (ecadjusthere (int p) (int n) s)"
    using ecispace_spec [OF assms(1) p, of n] by metis
  have "here_words s' = here_words s"
  proof (rule here_words_adjust [OF s'(5)])
    fix h
    assume "h \<in> set (hdocs s)"
    then show "word_at (if int p \<le> hpc h then hpc h + int n else hpc h) (codes s') = word_at (hpc h) (codes s)"
      unfolding s'(3) s'(4) [symmetric]
      by (intro word_at_insert) (use assms(2) p length_codes [OF assms(1)] in simp_all)
  qed
  then show "\<exists>s' gap. ecispace p n s = Some s' \<and> ecok s' \<and> length gap = n
      \<and> codes s' = take p (codes s) @ gap @ drop p (codes s) \<and> here_words s' = here_words s"
    using s' by blast
next
  fix p
  assume p: "p < ecused s \<and> (\<forall>h \<in> set (hdocs s). hpc h \<noteq> int p)"
  then obtain s' where s': "ecdel p s = Some s'" "ecok s'" "codes s' = take p (codes s) @ drop (p + 1) (codes s)"
    "rest s' = rest (ecadjusthere (int p) (- 1) s)"
    using ecdel_spec [OF assms(1), of p] by metis
  have "here_words s' = here_words s"
    by (rule here_words_adjust [OF s'(4)])
      (use word_at_delete [of p "codes s"] assms(2) p length_codes [OF assms(1)] s'(3) in simp)
  then show "\<exists>s'. ecdel p s = Some s' \<and> ecok s' \<and> codes s' = take p (codes s) @ drop (p + 1) (codes s)
      \<and> here_words s' = here_words s"
    using s' by blast
qed

text \<open>Three words and a here-document that belongs to the second.\<close>

definition demo_here :: parse_state where
  "demo_here = parse0\<lparr>ecbuf := Some [Some 1, Some 2, Some 3], eclen := 3, ecused := 3,
     hdocs := [\<lparr>htype = 0, hpc = 1, hstr = ''EOF''\<rparr>]\<rparr>"

theorem code_editing_witness:
  "(\<exists>s' gap. ecispace 1 300 demo_here = Some s' \<and> ecok s' \<and> length gap = 300
      \<and> codes s' = [Some 1] @ gap @ [Some 2, Some 3] \<and> here_words s' = [Some (Some 2)])
    \<and> (\<exists>s'. ecdel 0 demo_here = Some s' \<and> ecok s' \<and> codes s' = [Some 2, Some 3] \<and> here_words s' = [Some (Some 2)])"
proof -
  have ok: "ecok demo_here" "\<forall>h \<in> set (hdocs demo_here). 0 \<le> hpc h" by (simp_all add: demo_here_def ecok_def)
  have c: "codes demo_here = [Some 1, Some 2, Some 3]" by (simp add: demo_here_def codes_def)
  then have w: "here_words demo_here = [Some (Some 2)]"
    by (simp add: here_words_def word_at_def) (simp add: demo_here_def)
  have u: "ecused demo_here = 3" "hdocs demo_here = [\<lparr>htype = 0, hpc = 1, hstr = ''EOF''\<rparr>]"
    by (simp_all add: demo_here_def)
  show ?thesis
    using code_editing [OF ok, THEN conjunct1, rule_format, of 1 300]
      code_editing [OF ok, THEN conjunct2, rule_format, of 0] by (simp add: c w u)
qed

section \<open>Redirections\<close>

text \<open>C16: the program \<open>eccopyredirs\<close> makes of the redirections before a function body reads, through
  \<open>ecgetredirs\<close>, as the same redirections: types, descriptors, file names, here-documents with their
  terminators, variables.  It ends after them, and the program counter of the original is where
  \<open>ecgetredirs\<close> leaves it.  Without redirections there is no program.\<close>

theorem redirs_copied:
  assumes "ecgetredirs s = Some (rs, s')" "sum_list (map (str_chars \<circ> redir_strings) rs) < 2 ^ 30"
  shows "if rs = [] then eccopyredirs s ps = Some (None, s, ps) \<and> s' = s
    else \<exists>e ps' t. eccopyredirs s ps = Some (Some e, s', ps')
      \<and> ecgetredirs (enter_prog e) = Some (rs, t) \<and> pc t = [Some WCB_END]"
proof -
  obtain raw where raw: "redir_list s raw s'" "rs = map mk_redir raw"
    using assms(1) ecgetredirs_raw by blast
  show ?thesis
  proof (cases "raw = []")
    case True
    then obtain w s1 where "fetch s = Some (w, s1)" "wc_code w \<noteq> WC_REDIR" "s' = s"
      using raw(1) by (auto elim: redir_list.cases)
    then show ?thesis using raw(2) True by (simp add: eccopyredirs_def)
  next
    case False
    have "raw_chars raw < 2 ^ 30" using raw_chars_strings [OF raw(1)] assms(2) raw(2) by simp
    then obtain e ps' t where e: "eccopyredirs s ps = Some (Some e, s', ps')" "redir_list (enter_prog e) raw t"
      "pc t = [Some WCB_END]"
      using eccopyredirs_raw [OF raw(1) False, of ps] by metis
    have "ecgetredirs (enter_prog e) = Some (rs, t)" using ecgetredirs_raw e(2) raw(2) by blast
    then show ?thesis using e False raw(2) by auto
  qed
qed

text \<open>\<open>< input.txt {fd}> o <<EOF\<close>, the last one already read.\<close>

definition demo_redirs :: estate where
  "demo_redirs = enter_prog (init_eprog\<lparr>
     prog := [Some (WCB_REDIR 9), Some 0, Some 0,
       Some (WCB_REDIR 0x20), Some 1, Some (ec_short ''o''), Some (ec_short ''fd''),
       Some (WCB_REDIR 0x4c), Some 0, Some (push_bit 2 10), Some (ec_short ''EOF''), Some (ec_short ''EOF''), Some WCB_END],
     stab := map Some (''input.txt'' @ [NUL] @ ''some text'' @ [NUL])\<rparr>)"

lemma demo_redirs_read: "\<exists>rs s'. ecgetredirs demo_redirs = Some (rs, s') \<and> length rs = 3
    \<and> sum_list (map (str_chars \<circ> redir_strings) rs) = 33 \<and> map rname rs = [''input.txt'', ''o'', ''some text'']"
proof -
  have "(case ecgetredirs demo_redirs of None \<Rightarrow> False | Some (rs, s') \<Rightarrow> length rs = 3
    \<and> sum_list (map (str_chars \<circ> redir_strings) rs) = 33 \<and> map rname rs = [''input.txt'', ''o'', ''some text''])"
    by code_simp
  then show ?thesis by (auto split: option.splits)
qed

theorem redirs_copied_witness:
  "\<exists>rs s' e ps' t. rs \<noteq> [] \<and> eccopyredirs demo_redirs parse0 = Some (Some e, s', ps')
      \<and> ecgetredirs (enter_prog e) = Some (rs, t) \<and> pc t = [Some WCB_END]"
proof -
  obtain rs s' where r: "ecgetredirs demo_redirs = Some (rs, s')" "length rs = 3"
    "sum_list (map (str_chars \<circ> redir_strings) rs) = 33"
    using demo_redirs_read by blast
  then show ?thesis using redirs_copied [OF r(1), of parse0] by (auto split: if_splits)
qed

section \<open>Reference counts\<close>

text \<open>C15: in every run of building programs, mapping dump files and taking and giving back references,
  a program is in memory exactly as long as somebody holds a reference, its count is the number of
  references, and the count of a dump file is the number of programs that are part of it, so that
  the file stays mapped while there is one.  \<open>useeprog\<close> and \<open>freeeprog\<close> on a reference that is held
  touch no freed memory, and giving the last one back frees the program.\<close>

theorem eprogs_exact:
  assumes "erun st held"
  shows "(held p = 0 \<longleftrightarrow> pheap st p = None)
    \<and> (\<forall>e. pheap st p = Some e \<longrightarrow> nref e = int (held p) \<and> (dump e \<noteq> 0 \<longrightarrow> counts st (dump e) \<noteq> None))
    \<and> (\<forall>f c. counts st f = Some c \<longrightarrow> f \<in> set (dumps st) \<and> c = int (card (users (pheap st) f)))
    \<and> (0 < held p \<longrightarrow> useeprog p st \<noteq> None
         \<and> (\<exists>st'. freeeprog p st = Some st' \<and> (pheap st' p = None \<longleftrightarrow> held p = 1)))"
proof -
  have ok: "held_ok st held" "counts_ok st" using erun_ok [OF assms] by blast+
  have at: "held_at st p (held p)" using ok(1) by (simp add: held_ok_def)
  have 1: "held p = 0 \<longleftrightarrow> pheap st p = None" using at by (cases "pheap st p") (auto simp: held_at_def)
  have 2: "nref e = int (held p) \<and> (dump e \<noteq> 0 \<longrightarrow> counts st (dump e) \<noteq> None)" if "pheap st p = Some e" for e
    using at that ok(2) by (simp add: held_at_def counts_ok_def)
  have 3: "f \<in> set (dumps st) \<and> c = int (card (users (pheap st) f))" if "counts st f = Some c" for f c
    using ok(2) that by (auto simp: counts_ok_def split: if_splits)
  have 4: "useeprog p st \<noteq> None" if "0 < held p" using useeprog_spec [OF ok that] by auto
  have 5: "\<exists>st'. freeeprog p st = Some st' \<and> (pheap st' p = None \<longleftrightarrow> held p = 1)" if h: "0 < held p"
  proof -
    obtain st' where st': "freeeprog p st = Some st'" "held_ok st' (held(p := held p - 1))"
      using freeeprog_spec [OF ok h] by blast
    from st'(2) have "held_at st' p ((held(p := held p - 1)) p)" unfolding held_ok_def by (rule spec)
    then have "held_at st' p (held p - 1)" by simp
    then have "pheap st' p = None \<longleftrightarrow> held p = 1"
      using h by (cases "pheap st' p") (auto simp: held_at_def)
    with st'(1) show ?thesis by (intro exI [of _ st'] conjI)
  qed
  show ?thesis
    by (intro conjI allI impI 1) (simp_all add: 2 3 4 5 [simplified])
qed

text \<open>A function from a dump file, used once more and given back.\<close>

definition demo_part :: eprog where
  "demo_part = init_eprog\<lparr>nref := 1, dump := 7\<rparr>"

lemma demo_eprogs:
  "\<exists>st. erun st ((((\<lambda>_ :: addr. 0 :: nat)(2 := 1))(2 := 2))(2 := 1)) \<and> pheap st 2 = Some demo_part \<and> counts st 7 = Some 1"
proof -
  let ?s0 = "\<lparr>pheap = Map.empty, counts = Map.empty, dumps = []\<rparr>"
  let ?s1 = "load_dump_file 7 ?s0"
  let ?s2 = "?s1\<lparr>counts := [7 \<mapsto> 1]\<rparr>\<lparr>pheap := [2 \<mapsto> demo_part]\<rparr>"
  let ?s3 = "?s2\<lparr>pheap := [2 \<mapsto> demo_part\<lparr>nref := 2\<rparr>]\<rparr>"
  have "erun ?s1 (\<lambda>_ :: addr. 0 :: nat)" by (rule erun.load [OF erun.start]) simp_all
  then have "erun ((?s1\<lparr>counts := [7 \<mapsto> 1]\<rparr>)\<lparr>pheap := (pheap (?s1\<lparr>counts := [7 \<mapsto> 1]\<rparr>))(2 \<mapsto> demo_part)\<rparr>) ((\<lambda>_ :: addr. 0 :: nat)(2 := 1))"
    by (rule erun.part [where f = 7])
      (simp_all add: fresh_def dummy_eprog_def demo_part_def load_dump_file_def incrdumpcount_def)
  then have r2: "erun ?s2 ((\<lambda>_ :: addr. 0 :: nat)(2 := 1))" by (simp add: load_dump_file_def)
  have "erun ?s3 (((\<lambda>_ :: addr. 0 :: nat)(2 := 1))(2 := ((\<lambda>_ :: addr. 0 :: nat)(2 := 1)) 2 + 1))"
    by (rule erun.use [OF r2]) (simp_all add: useeprog_def dummy_eprog_def demo_part_def init_eprog_def)
  then have r3: "erun ?s3 (((\<lambda>_ :: addr. 0 :: nat)(2 := 1))(2 := 2))" by (simp add: numeral_2_eq_2)
  have "erun ?s2 ((((\<lambda>_ :: addr. 0 :: nat)(2 := 1))(2 := 2))(2 := (((\<lambda>_ :: addr. 0 :: nat)(2 := 1))(2 := 2)) 2 - 1))"
    by (rule erun.free [OF r3]) (simp_all add: freeeprog_def dummy_eprog_def demo_part_def init_eprog_def)
  then show ?thesis by (intro exI [of _ ?s2]) (simp add: load_dump_file_def)
qed

theorem eprogs_exact_witness:
  "\<exists>st. counts st 7 = Some (int (card (users (pheap st) 7))) \<and> (\<exists>st'. freeeprog 2 st = Some st' \<and> pheap st' 2 = None)"
proof -
  obtain st where st: "erun st ((((\<lambda>_ :: addr. 0 :: nat)(2 := 1))(2 := 2))(2 := 1))" "counts st 7 = Some 1"
    using demo_eprogs by blast
  show ?thesis using eprogs_exact [OF st(1), of 2] st(2) by (intro exI [of _ st]) auto
qed

section \<open>Autoloaded files\<close>





text \<open>The names need not be the same: where one has a dash the other may have anything.\<close>

lemma same_name_dash: "same_name ''a-c'' ''abc''" "\<not> same_name ''a_c'' ''abc''"
  by code_simp+

end
