(* ===== verification/Spec2Isabelle.thy ===== *)
theory Spec2Isabelle
  imports Link_Props LinkList_Props HashTable_Props Math_Props Opt_Props Ec_Props
begin

text \<open>
  \<^bold>\<open>bsh: a verification library\<close>

  bsh is a shell in C.  This library models parts of it that carry their own logic and are
  used by the rest: the BrightLink module, through which the shell talks to an enclave; the
  arithmetic of \<open>$((...))\<close>, \<open>let\<close> and subscripts; the shell's options; the word code in
  which parsed programs and functions are kept; and the containers under everything else,
  linked lists and hash tables with the tables built from them.  Each definition follows the
  C function whose name it bears; a helper that has no C name of its own stands for a loop
  or a block of the function it serves.

  \<^bold>\<open>Conventions\<close> (theory \<open>Prelude\<close>)

  \<^item> A C string is the list of its bytes before the terminator, a pointer into a string the
    suffix it points to.  An integer whose width matters is a word of that width; an \<open>int\<close>
    used as a flag or a small count is \<open>bool\<close>, \<open>nat\<close> or \<open>int\<close>.
  \<^item> Memory is a partial function from addresses to cells.  \<open>None\<close> is undefined behaviour (a
    NULL or freed cell, an index outside an array, a union read under the wrong tag) or a
    computation out of fuel.  A theorem that an operation yields \<open>Some\<close> therefore says that
    it is memory-safe and returns.  Errors the code reports are values.
  \<^item> Code that is not in the repository is an argument: the operating system and OpenSSL in
    the records \<open>os\<close> and \<open>crypto\<close>, double arithmetic and the multibyte library in
    \<open>mshell\<close>, the system calls of the options in \<open>optsys\<close>, \<open>qsort\<close> in the scans.  Hypotheses about it (\<open>crypto_laws\<close>, that sorting
    permutes) are what its documentation says, and a concrete instance shows they can hold.

  \<^bold>\<open>Linked lists\<close>: \<open>Src/linklist.c\<close>

  Theories \<open>LinkList\<close>, \<open>LinkList_Join\<close>, \<open>LinkList_Props\<close>.  The union of list header and
  node is one cell type, as the C code casts between them.  \<open>dll h l xs\<close> says that the header
  \<open>l\<close> owns the nodes \<open>xs\<close> in the memory \<open>h\<close>; every operation is specified by the list before
  and after it, with the cells it leaves alone.  The locale \<open>deque\<close> is what the shell relies
  on for its queues and stacks; it is interpreted on the memory model.  The \<open>int\<close> in which
  \<open>countlinknodes\<close> counts is signed: counting beyond \<open>INT_MAX\<close> is undefined behaviour.

  \<^bold>\<open>Hash tables\<close>: \<open>Src/hashtable.c\<close>

  \<^item> \<open>HashTable\<close> has the operations, \<open>HashTable_Inv\<close> the invariant \<open>hwf\<close> (bucket chains that
    are disjoint, in the right bucket and with distinct names, and a count that is right),
    \<open>HashTable_Add\<close>, \<open>HashTable_Expand\<close> and \<open>HashTable_Remove\<close> what they do to it.
    \<open>addhashnode\<close> calls itself through \<open>expandhashtable\<close>: its first argument bounds that
    nesting, and \<open>addnode\<close> starts with the count plus two, which the specification of
    \<open>addhashnode\<close> shows to be enough: each expansion quadruples the size.
  \<^item> \<open>HashTable_Scan\<close> has the scans.  The function called on each node may change the table;
    the status the C code reaches through \<open>ht->scan\<close> is explicit, and an invariant of it
    carries the proof over additions, replacements and removals.
  \<^item> The locale \<open>dict\<close> holds the laws of a dictionary, \<open>hashed\<close> (\<open>Hash_Keys\<close>) is a pair of
    hash function and comparison that fit, a sublocale of it.  It is interpreted on \<open>hasher\<close>
    with \<open>strcmp\<close>, the pair of the tables whose add method is \<open>addhashnode\<close>.
  \<^item> \<open>Hash_History\<close> is the table of history lines: \<open>histhasher\<close> with \<open>histstrcmp\<close>, which
    fit each other too (\<open>Hash_Keys\<close>), and its own methods \<open>addhistnode\<close> and \<open>freehistnode\<close>,
    with the ring of entries they unlink from.  \<open>addhistnode\<close> adds with \<open>addhashnode2\<close> and may put
    the node it displaced back, by the bound of nesting of \<open>addhashnode\<close>.
  \<^item> \<open>Hash_Tables\<close> has the tables of reserved words and of aliases, \<open>Dir_Cache\<close> the
    reference-counted names of directories, \<open>HashTable_Props\<close> the properties.

  \<^bold>\<open>Arithmetic\<close>: \<open>Src/math.c\<close>, with parts of \<open>Src/utils.c\<close>

  \<^item> \<open>Math_Env\<close>: numbers, the globals shared with the shell, error reports (\<open>zerr\<close>, \<open>zwarn\<close>).
    \<open>Ztype\<close>: character classes, \<open>itype_end\<close>, \<open>zstrtol\<close>.  \<open>Math_Lex\<close>: token tables, state,
    lexer.  \<open>Math_Ops\<close>: value stack and operators.  \<open>Math_Parse\<close>: the parser that evaluates as
    it goes, function calls, entry points.
  \<^item> \<open>Math_Scan\<close>, \<open>Math_Safe\<close>, \<open>Math_Total\<close>: the lexer consumes input, the stack invariant
    holds throughout, and the parser returns.  Its fuel, \<open>math_fuel\<close>, is twice the length of
    the text plus three for each of the 256 levels of \<open>MAX_MLEVEL\<close>: every call and every round
    either consumes a character or is followed by one that does.  The stack has \<open>STACKSZ\<close>, 100, entries.
  \<^item> \<open>Math_Quiet\<close>: what is skipped by \<open>&&\<close>, \<open>||\<close> or \<open>?:\<close> touches nothing.
  \<^item> \<open>Math_Expr\<close> is the abstract specification: expressions, their value over the integers
    reduced to 64 bits, and their text under a table of precedences.  \<open>Math_Arith\<close>,
    \<open>Ztype_Num\<close>, \<open>Math_Words\<close> and \<open>Math_Refine\<close> show that the C code computes it, for both
    tables.  \<open>Math_Demo\<close> is a small shell for the witnesses, \<open>Math_Props\<close> has the properties.
  \<^item> Signed overflow wraps and a shift count is taken modulo 64, as compiled code does on
    64-bit machines.  Properties of an evaluation assume that \<open>noerrs\<close> is below 2, its value
    but for two callers: above, an error does not stop the parser (\<open>bop_below_stack\<close>).

  \<^bold>\<open>BrightLink\<close>: \<open>Src/Modules/brightlink.c\<close>

  \<^item> \<open>Link_Env\<close>: the module's statics and the outside, whose answers are scripted lists: a
    theorem about every state is one about every behaviour of bridge, file system and clock.
  \<^item> \<open>Link_Wire\<close>, \<open>Link_Json\<close>, \<open>Link_Transport\<close>, \<open>Link_Crypto\<close>, \<open>Link_Session\<close>, \<open>Link_Geo\<close>
    have the layers in the order of the file: byte formats, the JSON readers, socket and
    framing, cryptographic wrappers, registration and \<open>bsh-inject\<close>, \<open>link-geo\<close>.  Loops
    recurse on the script or on the room left in a buffer, so that they need no fuel.
  \<^item> \<open>Link_Machine\<close> is the step relation of builtin calls, of the outside and of unloading, with
    its invariant; \<open>Link_Run\<close> answered exchanges and a run against the concrete library of
    \<open>Link_Demo\<close>; \<open>Cdouble\<close> the rounding of doubles for the clock; \<open>Link_Props\<close> the properties.

  \<^bold>\<open>Options\<close>: \<open>Src/options.c\<close>

  \<^item> \<open>Opt_Table\<close> has the numbers, the table \<open>optns\<close>, the two tables of letters and
    \<open>createoptiontable\<close>; \<open>Options\<close> the state and the operations: \<open>dosetopt\<close> with the
    options that act when they are set (\<open>drop_privileges\<close> among them), emulation, lookups,
    the builtins \<open>setopt\<close> and \<open>unsetopt\<close>, and printing.  An array indexed by option numbers
    is a function read and written by \<open>aget\<close> and \<open>aset\<close>, undefined from \<open>OPT_SIZE\<close> on.
  \<^item> \<open>Opt_Spec\<close> shows what the table holds and what a lookup finds, with or without \<open>no\<close>.
    \<open>Opt_Set\<close>: the relation \<open>sets\<close>, the one change \<open>dosetopt\<close> may make of the array, and the
    credentials of a process (\<open>creds\<close>, \<open>cred_laws\<close>).  \<open>Opt_List\<close>: the rows an emulation
    touches, the listing and the names read back.  \<open>Opt_Total\<close>: no operation leaves its
    arrays.  \<open>Opt_Props\<close>: the properties.

  \<^bold>\<open>Word code\<close>: the storage part of \<open>Src/parse.c\<close>, with \<open>Src/bsh.h\<close> and parts of \<open>Src/exec.c\<close>

  \<^item> \<open>Ec_Code\<close> has the layout of code words, \<open>Ec_Build\<close> the buffer a program is written to
    while it is parsed, with the tree of its strings, the function definition and the
    redirections spliced into it, and the program made of the buffer; \<open>Ec_Read\<close> the readers of
    strings and redirections and what runs or copies them; \<open>Ec_Refs\<close> the reference counts of
    programs and of mapped dump files.  A word of the buffer is \<open>None\<close> until it is written;
    the parser of a function body is an argument of \<open>par_funcdef\<close>; a pointer into a program
    is the suffix of its words.
  \<^item> \<open>Ec_Buffer\<close>: the invariant \<open>ecok\<close> of the buffer.  \<open>Ec_Strings\<close>: the tree of strings and
    what is read back through a code word.  \<open>Ec_Funcs\<close>: a program as a list of items, among
    them functions nested at will, the writer \<open>emit\<close> of it in terms of the parser's
    operations, the reader \<open>reads\<close> and the relation \<open>coded\<close> that carries the proof.
    \<open>Ec_Redirs\<close>: redirections behind a function body.  \<open>Ec_Lists\<close>: programs and dump files
    in use.  \<open>Ec_Props\<close>: the properties.
  \<^item> An offset of a string has 30 bits in a code word and a skip 27: the properties assume
    programs within these sizes, which the C code does not check.  Loops over redirections
    have the number of words left plus one as fuel, as every round consumes a word.

  \<^bold>\<open>Interaction\<close>

  The components meet in calls.  \<open>math.c\<close> reads numbers with \<open>zstrtol\<close> and classes with
  \<open>typtab\<close> and reports through \<open>zerr\<close>; the tables of words, aliases and options are instances of
  the generic table, through its dictionary laws, and emulation and the listings of options
  are scans of it; \<open>Hash_Keys\<close> relates the hash functions with
  the comparisons that \<open>hashtable.c\<close> and \<open>hist.c\<close> pass to it.  The tree of a program's strings
  is ordered by \<open>hasher\<close>, and the tokens in them are told by \<open>typtab\<close>.

  \<^bold>\<open>Not modelled\<close>

  Execution, jobs and signals (\<open>exec.c\<close>, \<open>jobs.c\<close>, \<open>signals.c\<close>), whose operations are system
  calls with little logic between them; the lexer and the grammar (\<open>lex.c\<close>, and the
  functions of \<open>parse.c\<close> that decide which words are written, or the format of dump files),
  parameters and substitution (\<open>params.c\<close>, \<open>subst.c\<close>), patterns (\<open>pattern.c\<close>, \<open>glob.c\<close>),
  history (\<open>hist.c\<close>), the line editor (\<open>Zle\<close>) and the modules other than BrightLink: each
  of these is larger than what is modelled here and shares state with all the others.  Of
  \<open>hashtable.c\<close>, the printing of nodes, the command table, which reads directories, the
  function table with its traps, and \<open>emptyhisttable\<close> are left out.
\<close>

end
